(* ===== verification/Prelude.thy ===== *)
theory Prelude
  imports Main "HOL-Library.AList" "HOL-Library.Word" "HOL-Library.Char_ord"
    "HOL-Library.List_Lexorder" "HOL-Library.Product_Lexorder" "HOL-Library.Sublist"
begin

text \<open>
  Shared vocabulary of the development: Go results as an error sum with two combinators
  (a guard and a sequencing), Go maps as association lists, the byte-level string functions of
  the packages \<^verbatim>\<open>strings\<close>, \<^verbatim>\<open>path/filepath\<close>, \<^verbatim>\<open>unicode\<close> and \<^verbatim>\<open>unicode/utf8\<close> that the sources
  call, and the contract of replayable operations that every mutating handler of
  \<^verbatim>\<open>internal/governance/sessions\<close> follows.
\<close>

named_theorems go_simps \<open>inversion of guards, sequencing and map accesses\<close>

section \<open>Results\<close>

text \<open>The sentinel errors of the sources that the modelled operations return.\<close>

datatype error = ErrDenied | ErrStorage | ErrReconcile | ErrInvalid | ErrCycle | ErrContext

type_synonym 'a res = "error + 'a"

text \<open>The strings of the sources by their use: identifiers of records, bearer tokens, and the names of
  actions and kinds.\<close>

type_synonym ident = string
type_synonym token = string
type_synonym verb = string

text \<open>\<open>require c e k\<close> is the early return \<^verbatim>\<open>if !c { return e }\<close> followed by \<open>k\<close>;
  \<open>bindr r f\<close> is \<^verbatim>\<open>x, err := r; if err != nil { return err }\<close> followed by \<open>f x\<close>;
  \<open>fetch m k f\<close> is \<^verbatim>\<open>x, ok := m[k]; if !ok { return ErrDenied }\<close> followed by \<open>f x\<close>.\<close>

definition require :: "bool \<Rightarrow> error \<Rightarrow> 'a res \<Rightarrow> 'a res" where
  "require c e k = (if c then k else Inl e)"

definition bindr :: "'a res \<Rightarrow> ('a \<Rightarrow> 'b res) \<Rightarrow> 'b res" where
  "bindr r f = (case r of Inl e \<Rightarrow> Inl e | Inr x \<Rightarrow> f x)"

definition from_option :: "'a option \<Rightarrow> error \<Rightarrow> 'a res" where
  "from_option o' e = (case o' of None \<Rightarrow> Inl e | Some x \<Rightarrow> Inr x)"

text \<open>\<open>denied r\<close> is \<^verbatim>\<open>if err != nil { return ErrDenied }\<close>: the callee's error is replaced.\<close>

definition denied :: "'a res \<Rightarrow> 'a res" where
  "denied r = (case r of Inl e \<Rightarrow> Inl ErrDenied | Inr x \<Rightarrow> Inr x)"

lemma denied_Inr [simp, go_simps]: "denied r = Inr x \<longleftrightarrow> r = Inr x"
  by (cases r) (simp_all add: denied_def)

lemma denied_simps [simp]: "denied (Inl e) = Inl ErrDenied" "denied (Inr x) = Inr x"
  by (simp_all add: denied_def)

lemma require_Inr [simp, go_simps]: "require c e k = Inr y \<longleftrightarrow> c \<and> k = Inr y"
  by (simp add: require_def)

lemma require_Inl [go_simps]: "require c e k = Inl x \<longleftrightarrow> (\<not> c \<and> x = e) \<or> (c \<and> k = Inl x)"
  by (auto simp: require_def)

lemma require_True [simp]: "require True e k = k"
  by (simp add: require_def)

lemma require_False [simp]: "require False e k = Inl e"
  by (simp add: require_def)

lemma bindr_simps [simp]: "bindr (Inl e) f = Inl e" "bindr (Inr x) f = f x"
  by (simp_all add: bindr_def)

lemma bindr_Inr [simp, go_simps]: "bindr r f = Inr y \<longleftrightarrow> (\<exists>x. r = Inr x \<and> f x = Inr y)"
  by (cases r) simp_all

lemma bindr_Inl [go_simps]: "bindr r f = Inl e \<longleftrightarrow> r = Inl e \<or> (\<exists>x. r = Inr x \<and> f x = Inl e)"
  by (cases r) auto

lemma from_option_Inr [simp, go_simps]: "from_option v e = Inr x \<longleftrightarrow> v = Some x"
  by (cases v) (auto simp: from_option_def)

lemma from_option_simps [simp]: "from_option None e = Inl e" "from_option (Some x) e = Inr x"
  by (simp_all add: from_option_def)

section \<open>Go maps\<close>

text \<open>
  A Go \<^verbatim>\<open>map[string]V\<close> is an association list with distinct keys. \<open>gget\<close> is the two-valued
  lookup, \<open>gput\<close> the assignment \<^verbatim>\<open>m[k] = v\<close>, \<open>gvals\<close> the values a \<^verbatim>\<open>range\<close> loop visits (Go
  leaves the order open; every modelled loop over a map is a search whose answer does not
  depend on it, or a search by identifiers that are minted once).
\<close>

type_synonym 'v gmap = "(string \<times> 'v) list"

definition gget :: "'v gmap \<Rightarrow> string \<Rightarrow> 'v option" where
  "gget m k = map_of m k"

definition gput :: "string \<Rightarrow> 'v \<Rightarrow> 'v gmap \<Rightarrow> 'v gmap" where
  "gput k v m = AList.update k v m"

definition gvals :: "'v gmap \<Rightarrow> 'v list" where
  "gvals m = map snd m"

definition gwf :: "'v gmap \<Rightarrow> bool" where
  "gwf m \<longleftrightarrow> distinct (map fst m)"

definition fetch :: "'v gmap \<Rightarrow> string \<Rightarrow> ('v \<Rightarrow> 'b res) \<Rightarrow> 'b res" where
  "fetch m k f = (case gget m k of None \<Rightarrow> Inl ErrDenied | Some x \<Rightarrow> f x)"

lemma fetch_Inr [simp, go_simps]: "fetch m k f = Inr y \<longleftrightarrow> (\<exists>x. gget m k = Some x \<and> f x = Inr y)"
  by (auto simp: fetch_def split: option.splits)

lemma gget_gput [simp]: "gget (gput k v m) k' = (if k' = k then Some v else gget m k')"
  by (simp add: gget_def gput_def update_conv')

lemma gget_Nil [simp]: "gget [] k = None"
  by (simp add: gget_def)

lemma gwf_Nil [simp]: "gwf []"
  by (simp add: gwf_def)

lemma gwf_gput [simp]: "gwf m \<Longrightarrow> gwf (gput k v m)"
  by (simp add: gwf_def gput_def distinct_update)

lemma gget_gvals: "gget m k = Some v \<Longrightarrow> v \<in> set (gvals m)"
  by (force simp: gget_def gvals_def dest: map_of_SomeD)

lemma gvals_gget: "gwf m \<Longrightarrow> v \<in> set (gvals m) \<longleftrightarrow> (\<exists>k. gget m k = Some v)"
  by (auto simp: gget_def gvals_def gwf_def dest: map_of_SomeD)
     (metis map_of_SomeD image_eqI snd_conv)

lemma gvals_gput_subset: "set (gvals (gput k v m)) \<subseteq> insert v (set (gvals m))"
  unfolding gvals_def gput_def by (induction m) auto

lemma gvals_gput_mem: "v \<in> set (gvals (gput k v m))"
  by (rule gget_gvals [where k = k]) simp

lemma gvals_gput_fresh:
  "gget m k = None \<Longrightarrow> set (gvals (gput k v m)) = insert v (set (gvals m))"
  unfolding gvals_def gput_def gget_def by (induction m) (auto split: if_splits)

lemma gvals_gput_iff:
  "gwf m \<Longrightarrow> x \<in> set (gvals (gput k v m)) \<longleftrightarrow> x = v \<or> (\<exists>k'. k' \<noteq> k \<and> gget m k' = Some x)"
  by (auto simp: gvals_gget)

text \<open>An array value of a Go map: a missing key reads as the empty slice.\<close>

definition gslice :: "'v list gmap \<Rightarrow> string \<Rightarrow> 'v list" where
  "gslice m k = (case gget m k of None \<Rightarrow> [] | Some xs \<Rightarrow> xs)"

lemma gslice_gput [simp]: "gslice (gput k v m) k' = (if k' = k then v else gslice m k')"
  by (simp add: gslice_def)

section \<open>Sorted and deduplicated slices\<close>

text \<open>The idiom \<^verbatim>\<open>sort.Slice\<close> followed by dropping equal neighbours.\<close>

lemma distinct_remdups_adj_sorted: "sorted xs \<Longrightarrow> distinct (remdups_adj xs)"
proof (induction xs rule: remdups_adj.induct)
  case (3 x y xs)
  then show ?case
    by (cases "x = y") (auto simp: order_antisym_conv)
qed simp_all

lemma dedup_sort_strict: "sorted_wrt (<) (remdups_adj (sort (xs :: 'a::linorder list)))"
  by (simp add: strict_sorted_iff distinct_remdups_adj_sorted)

lemma dedup_sort_eq:
  "set xs = set ys \<Longrightarrow> remdups_adj (sort (xs :: 'a::linorder list)) = remdups_adj (sort ys)"
  by (rule strict_sorted_equal [OF dedup_sort_strict dedup_sort_strict]) simp

lemma sort_Nil_iff [simp]: "sort_key f xs = [] \<longleftrightarrow> xs = []"
  by (metis set_empty set_sort)

section \<open>Byte strings\<close>

text \<open>Go strings are byte sequences; \<^typ>\<open>string\<close> is a list of bytes, so \<^const>\<open>length\<close> is Go's
  \<^verbatim>\<open>len\<close> and the order of \<^verbatim>\<open>HOL-Library.List_Lexorder\<close> is Go's \<^verbatim>\<open><\<close>.\<close>

definition has_prefix :: "string \<Rightarrow> string \<Rightarrow> bool" where
  "has_prefix s p \<longleftrightarrow> take (length p) s = p"

definition has_suffix :: "string \<Rightarrow> string \<Rightarrow> bool" where
  "has_suffix s p \<longleftrightarrow> has_prefix (rev s) (rev p)"

definition contains_any :: "string \<Rightarrow> string \<Rightarrow> bool" where
  "contains_any s cs \<longleftrightarrow> list_ex (\<lambda>c. c \<in> set cs) s"

lemma has_prefix_iff: "has_prefix s p \<longleftrightarrow> (\<exists>t. s = p @ t)"
  unfolding has_prefix_def by (metis append_eq_conv_conj append_take_drop_id)

lemma has_prefix_prefix: "has_prefix s p \<longleftrightarrow> prefix p s"
  by (simp add: has_prefix_iff prefix_def)

fun split_on :: "char \<Rightarrow> string \<Rightarrow> string list" where
  "split_on c [] = [[]]"
| "split_on c (x # xs) =
     (if x = c then [] # split_on c xs
      else (case split_on c xs of [] \<Rightarrow> [[x]] | w # ws \<Rightarrow> (x # w) # ws))"

fun join_with :: "string \<Rightarrow> string list \<Rightarrow> string" where
  "join_with sep [] = []"
| "join_with sep [w] = w"
| "join_with sep (w # ws) = w @ sep @ join_with sep ws"

lemma split_on_nonempty [simp]: "split_on c s \<noteq> []"
  by (induction s) (auto split: list.splits)

lemma join_split [simp]: "join_with [c] (split_on c s) = s"
proof (induction s)
  case (Cons x xs)
  then show ?case
    by (cases "split_on c xs"; cases "tl (split_on c xs)") (auto split: list.splits)
qed simp

lemma split_on_no_sep: "w \<in> set (split_on c s) \<Longrightarrow> c \<notin> set w"
  by (induction s arbitrary: w) (auto split: list.splits if_splits)

lemma split_on_append_sep: "split_on c (s @ c # t) = split_on c s @ split_on c t"
  by (induction s) (auto split: list.splits)

definition to_lower_char :: "char \<Rightarrow> char" where
  "to_lower_char c = (if CHR ''A'' \<le> c \<and> CHR ''Z'' \<ge> c then char_of (of_char c + 32 :: nat) else c)"

text \<open>\<^verbatim>\<open>strings.ToLower\<close> as far as its result can be ASCII: besides the letters A-Z, the runes
  U+0130 and U+212A (encoded C4 B0 and E2 84 AA) map to \<open>i\<close> and \<open>k\<close>. The sources compare the
  result with ASCII text or with an input they then restrict to ASCII, so what the other runes
  become is not observed.\<close>

fun to_lower :: "string \<Rightarrow> string" where
  "to_lower [] = []"
| "to_lower (c # s) =
     (if c = CHR 0xC4 \<and> take 1 s = [CHR 0xB0] then CHR ''i'' # to_lower (drop 1 s)
      else if c = CHR 0xE2 \<and> take 2 s = [CHR 0x84, CHR 0xAA] then CHR ''k'' # to_lower (drop 2 s)
      else to_lower_char c # to_lower s)"

text \<open>\<^verbatim>\<open>strings.ToUpper\<close> as far as its result can be ASCII: besides the letters a-z, the runes U+0131
  and U+017F (encoded C4 B1 and C5 BF) map to \<open>I\<close> and \<open>S\<close>; every other rune outside ASCII stays
  outside ASCII.\<close>

fun to_upper :: "string \<Rightarrow> string" where
  "to_upper [] = []"
| "to_upper [c] = [if CHR ''a'' \<le> c \<and> CHR ''z'' \<ge> c then char_of (of_char c - 32 :: nat) else c]"
| "to_upper (c # d # s) =
     (if c = CHR 0xC4 \<and> d = CHR 0xB1 then CHR ''I'' # to_upper s
      else if c = CHR 0xC5 \<and> d = CHR 0xBF then CHR ''S'' # to_upper s
      else (if CHR ''a'' \<le> c \<and> CHR ''z'' \<ge> c then char_of (of_char c - 32 :: nat) else c)
           # to_upper (d # s))"

definition is_digit :: "char \<Rightarrow> bool" where
  "is_digit c \<longleftrightarrow> CHR ''0'' \<le> c \<and> CHR ''9'' \<ge> c"

definition is_lower_hex :: "char \<Rightarrow> bool" where
  "is_lower_hex c \<longleftrightarrow> is_digit c \<or> (CHR ''a'' \<le> c \<and> CHR ''f'' \<ge> c)"

definition is_alnum :: "char \<Rightarrow> bool" where
  "is_alnum c \<longleftrightarrow> is_digit c \<or> (CHR ''a'' \<le> c \<and> CHR ''z'' \<ge> c) \<or> (CHR ''A'' \<le> c \<and> CHR ''Z'' \<ge> c)"

text \<open>The UTF-8 encodings of the runes that \<^verbatim>\<open>unicode.IsSpace\<close> accepts.\<close>

definition space_runes :: "string list" where
  "space_runes =
     [[CHR 0x09], [CHR 0x0A], [CHR 0x0B], [CHR 0x0C], [CHR 0x0D], [CHR 0x20],
      [CHR 0xC2, CHR 0x85], [CHR 0xC2, CHR 0xA0], [CHR 0xE1, CHR 0x9A, CHR 0x80]]
     @ map (\<lambda>b. [CHR 0xE2, CHR 0x80, b])
        [CHR 0x80, CHR 0x81, CHR 0x82, CHR 0x83, CHR 0x84, CHR 0x85, CHR 0x86, CHR 0x87, CHR 0x88,
         CHR 0x89, CHR 0x8A, CHR 0xA8, CHR 0xA9, CHR 0xAF]
     @ [[CHR 0xE2, CHR 0x81, CHR 0x9F], [CHR 0xE3, CHR 0x80, CHR 0x80]]"

text \<open>\<open>strip_runes rs s\<close> drops leading occurrences of the encodings in \<open>rs\<close>: a lead byte is never a
  continuation byte, so matching encodings bytewise is decoding runes.\<close>

function strip_runes :: "string list \<Rightarrow> string \<Rightarrow> string" where
  "strip_runes rs s =
     (case find (\<lambda>r. r \<noteq> [] \<and> has_prefix s r) rs of
        None \<Rightarrow> s
      | Some r \<Rightarrow> strip_runes rs (drop (length r) s))"
  by pat_completeness auto
termination
  by (relation "measure (\<lambda>(rs, s). length s)")
     (auto simp: find_Some_iff has_prefix_iff)

declare strip_runes.simps [simp del]

definition trim_space :: "string \<Rightarrow> string" where
  "trim_space s = rev (strip_runes (map rev space_runes) (rev (strip_runes space_runes s)))"

fun has_infix :: "string \<Rightarrow> string \<Rightarrow> bool" where
  "has_infix [] p = (p = [])"
| "has_infix (x # xs) p = (has_prefix (x # xs) p \<or> has_infix xs p)"

text \<open>\<^verbatim>\<open>unicode.IsSpace\<close> and \<^verbatim>\<open>unicode.IsControl\<close> over the runes of a string.\<close>

definition any_space :: "string \<Rightarrow> bool" where
  "any_space s \<longleftrightarrow> list_ex (has_infix s) space_runes"

fun any_control :: "string \<Rightarrow> bool" where
  "any_control [] = False"
| "any_control [c] = (c < CHR 0x20 \<or> c = CHR 0x7F)"
| "any_control (c # d # s) =
     (c < CHR 0x20 \<or> c = CHR 0x7F \<or> (c = CHR 0xC2 \<and> CHR 0x80 \<le> d \<and> d \<le> CHR 0x9F)
      \<or> any_control (d # s))"

definition is_cont :: "char \<Rightarrow> bool" where
  "is_cont c \<longleftrightarrow> CHR 0x80 \<le> c \<and> CHR 0xBF \<ge> c"

text \<open>\<^verbatim>\<open>utf8.ValidString\<close>: the well-formed byte sequences of RFC 3629.\<close>

fun valid_utf8 :: "string \<Rightarrow> bool" where
  "valid_utf8 [] = True"
| "valid_utf8 (a # s) =
     (if a < CHR 0x80 then valid_utf8 s
      else if CHR 0xC2 \<le> a \<and> a \<le> CHR 0xDF then
        (case s of b # t \<Rightarrow> is_cont b \<and> valid_utf8 t | [] \<Rightarrow> False)
      else if CHR 0xE0 \<le> a \<and> a \<le> CHR 0xEF then
        (case s of b # c # t \<Rightarrow>
           is_cont b \<and> is_cont c \<and> (a = CHR 0xE0 \<longrightarrow> CHR 0xA0 \<le> b) \<and> (a = CHR 0xED \<longrightarrow> b \<le> CHR 0x9F)
           \<and> valid_utf8 t
         | _ \<Rightarrow> False)
      else if CHR 0xF0 \<le> a \<and> a \<le> CHR 0xF4 then
        (case s of b # c # d # t \<Rightarrow>
           is_cont b \<and> is_cont c \<and> is_cont d \<and> (a = CHR 0xF0 \<longrightarrow> CHR 0x90 \<le> b)
           \<and> (a = CHR 0xF4 \<longrightarrow> b \<le> CHR 0x8F) \<and> valid_utf8 t
         | _ \<Rightarrow> False)
      else False)"

section \<open>Paths\<close>

definition is_abs :: "string \<Rightarrow> bool" where
  "is_abs p \<longleftrightarrow> has_prefix p ''/''"

text \<open>\<^verbatim>\<open>filepath.Clean\<close> and \<^verbatim>\<open>path.Clean\<close> on slash-separated paths: the stack of kept segments is
  held in reverse order.\<close>

fun clean_step :: "bool \<Rightarrow> string list \<Rightarrow> string \<Rightarrow> string list" where
  "clean_step rooted stack seg =
     (if seg = '''' \<or> seg = ''.'' then stack
      else if seg = ''..'' then
        (case stack of
           [] \<Rightarrow> (if rooted then [] else [''..''])
         | seg0 # rest \<Rightarrow> (if seg0 = ''..'' then ''..'' # stack else rest))
      else seg # stack)"

definition path_clean :: "string \<Rightarrow> string" where
  "path_clean p =
     (let rooted = is_abs p;
          segs = rev (foldl (clean_step rooted) [] (split_on CHR ''/'' p));
          body = join_with ''/'' segs
      in if rooted then ''/'' @ body else if body = '''' then ''.'' else body)"

definition path_join :: "string \<Rightarrow> string \<Rightarrow> string" where
  "path_join a b =
     (if a = '''' \<and> b = '''' then '''' else if a = '''' then path_clean b
      else if b = '''' then path_clean a else path_clean (a @ ''/'' @ b))"

section \<open>JSON values\<close>

text \<open>What the sources hand to \<^verbatim>\<open>json.Marshal\<close> before hashing: objects in field order. The
  byte encoding itself is a parameter of the operations that hash it. Times are instants in
  nanoseconds since the zero \<^verbatim>\<open>time.Time\<close>; \<^verbatim>\<open>Time.MarshalJSON\<close> refuses a year outside 0 to 9999.
  \<open>JX\<close> is a byte slice; a nil slice is not told from an empty one.\<close>

datatype jval = JNull | JS string | JI int | JB bool | JW "64 word" | JT int | JX string | JL "jval list"
  | JO "(string \<times> jval) list"

definition json_time_ok :: "int \<Rightarrow> bool" where
  "json_time_ok t \<longleftrightarrow> - (366 * 86400 * 1000000000) \<le> t \<and> t < 3652059 * 86400 * 1000000000"

text \<open>Fields tagged \<^verbatim>\<open>omitempty\<close> are left out at their zero value.\<close>

definition omit_empty :: "(string \<times> jval) list \<Rightarrow> (string \<times> jval) list" where
  "omit_empty fs = filter (\<lambda>(k, v). v \<notin> {JS '''', JI 0, JL [], JB False, JNull}) fs"

definition jopt :: "('a \<Rightarrow> jval) \<Rightarrow> 'a option \<Rightarrow> jval" where
  "jopt f v = (case v of None \<Rightarrow> JNull | Some x \<Rightarrow> f x)"

section \<open>Identifiers and digests\<close>

text \<open>\<^verbatim>\<open>validID\<close> of \<^verbatim>\<open>attempts.go\<close> and \<^verbatim>\<open>validDigest\<close> of \<^verbatim>\<open>evidence.go\<close>, used by every handler.\<close>

definition validID :: "string \<Rightarrow> bool" where
  "validID i \<longleftrightarrow> i \<noteq> '''' \<and> length i \<le> 256 \<and> trim_space i = i
     \<and> \<not> contains_any i [CHR ''/'', CHR 0x5C, CHR 0x00, CHR 0x0D, CHR 0x0A]"

definition validDigest :: "string \<Rightarrow> bool" where
  "validDigest d \<longleftrightarrow> length d = 71 \<and> take 7 d = ''sha256:'' \<and> list_all is_lower_hex (drop 7 d)"

lemma validID_nonempty: "validID i \<Longrightarrow> i \<noteq> []"
  by (simp add: validID_def)

section \<open>Replayable operations\<close>

text \<open>
  The contract of operation keys. \<open>run E q s\<close> is an operation on request \<open>q\<close>; \<open>lookup s q\<close> the record
  stored under the key of \<open>q\<close>, which holds the digest of the request it served (\<open>recorded\<close>) and
  the answer it gave (\<open>receipt\<close>). An operation that finds a record answers from it and changes
  nothing; one that finds none leaves a record of what it did.
\<close>

locale replayable =
  fixes run :: "'e \<Rightarrow> 'q \<Rightarrow> 's \<Rightarrow> ('r \<times> 's) res"
    and lookup :: "'s \<Rightarrow> 'q \<Rightarrow> 'p option"
    and digest :: "'e \<Rightarrow> 'q \<Rightarrow> 's \<Rightarrow> string"
    and recorded :: "'p \<Rightarrow> string"
    and receipt :: "'p \<Rightarrow> 'r option"
  assumes hit: "lookup s q = Some p \<Longrightarrow> run E q s = Inr (r, s') \<Longrightarrow>
      recorded p = digest E q s \<and> receipt p = Some r \<and> s' = s"
    and miss: "lookup s q = None \<Longrightarrow> run E q s = Inr (r, s') \<Longrightarrow>
      \<exists>p. lookup s' q = Some p \<and> recorded p = digest E q s \<and> receipt p = Some r"
begin

lemma recorded_after:
  assumes "run E q s = Inr (r, s')"
  shows "\<exists>p. lookup s' q = Some p \<and> recorded p = digest E q s \<and> receipt p = Some r"
  using assms hit miss by (cases "lookup s q") blast+

lemma once:
  assumes "run E q s = Inr (r, s')" "lookup t q = lookup s' q" "run E' q t = Inr (r', t')"
  shows "r' = r \<and> t' = t"
  using recorded_after [OF assms(1)] hit [OF _ assms(3)] assms(2) by auto

lemma conflict:
  assumes "run E q s = Inr (r, s')" "lookup t q' = lookup s' q" "digest E' q' t \<noteq> digest E q s"
  shows "run E' q' t \<noteq> Inr x"
  using recorded_after [OF assms(1)] hit [of t q' _ E' "fst x" "snd x"] assms(2,3) by auto

end

text \<open>Operations whose repetition in the state they left is served, not refused.\<close>

locale idempotent = replayable +
  assumes again: "run E q s = Inr (r, s') \<Longrightarrow> \<exists>x. run E q s' = Inr x"
begin

lemma repeated: "run E q s = Inr (r, s') \<Longrightarrow> run E q s' = Inr (r, s')"
  using again once [OF _ refl] by (metis surj_pair)

end

end
