(* ===== verification/Checkout.thy ===== *)
theory Checkout
  imports Prelude
begin

text \<open>
  \<^verbatim>\<open>internal/governance/checkout/checkout.go\<close>: the read-only observation of a local Git checkout.
  The file system and the \<^verbatim>\<open>git\<close> process are parameters: a \<open>filesystem\<close> answers
  \<^verbatim>\<open>EvalSymlinks\<close> and \<^verbatim>\<open>Lstat\<close>, a \<open>git\<close> answers the \<open>i\<close>-th process started by one observation
  (environment, arguments) with its standard output, or \<^const>\<open>None\<close> when the process fails or
  exceeds its deadline. Nothing is assumed of either.
\<close>

datatype file_kind = Directory | Regular | Symlink | OtherFile

datatype lstat_result = Missing | LstatError | Entry file_kind

record filesystem =
  fs_evalSymlinks :: "string \<Rightarrow> string option"
  fs_lstat :: "string \<Rightarrow> lstat_result"

type_synonym git = "nat \<Rightarrow> string list \<Rightarrow> string list \<Rightarrow> string option"

record observation =
  ob_Locator :: string
  ob_Repository :: string
  ob_Commit :: string
  ob_Tree :: string
  ob_ObservedAt :: int

text \<open>\<^verbatim>\<open>gitRunner\<close>: flags, a \<^verbatim>\<open>GIT_*\<close>-free environment and output bounded to one MiB.\<close>

definition git_flags :: "bool \<Rightarrow> string \<Rightarrow> string list" where
  "git_flags genuine root =
     (if genuine then [''--no-replace-objects''] else [])
     @ [''--no-optional-locks'', ''-c'', ''core.fsmonitor=false'', ''-C'', root]"

definition git_environ :: "string list \<Rightarrow> string list" where
  "git_environ environ = filter (\<lambda>e. \<not> has_prefix e ''GIT_'') environ
     @ [''GIT_CONFIG_NOSYSTEM=1'', ''GIT_CONFIG_GLOBAL=/dev/null'', ''GIT_TERMINAL_PROMPT=0'']"

definition gitRunner ::
    "git \<Rightarrow> string list \<Rightarrow> string \<Rightarrow> bool \<Rightarrow> nat \<Rightarrow> string list \<Rightarrow> string option" where
  "gitRunner git environ root genuine i args =
     (case git i (git_environ environ) (git_flags genuine root @ args) of
        None \<Rightarrow> None
      | Some out \<Rightarrow> if length out \<le> 1024 * 1024 then Some out else None)"

definition filter_key :: "string \<Rightarrow> bool" where
  "filter_key k \<longleftrightarrow> (let k = to_lower k in
     has_prefix k ''filter.'' \<and> (has_suffix k ''.clean'' \<or> has_suffix k ''.process''))"

definition observeWithContext ::
    "filesystem \<Rightarrow> git \<Rightarrow> string list \<Rightarrow> int \<Rightarrow> string \<Rightarrow> bool \<Rightarrow> bool \<Rightarrow> observation res" where
  "observeWithContext fs git environ now root identityOnly genuine =
     (let run = (\<lambda>i args. from_option (map_option trim_space (gitRunner git environ root genuine i args)) ErrInvalid)
      in bindr (run 0 [''rev-parse'', ''--show-toplevel'']) (\<lambda>t0.
         bindr (from_option (fs_evalSymlinks fs t0) ErrInvalid) (\<lambda>t.
         require (t = root) ErrInvalid (
         bindr (run 1 [''rev-parse'', ''--path-format=absolute'', ''--git-common-dir'']) (\<lambda>c0.
         bindr (from_option (fs_evalSymlinks fs c0) ErrInvalid) (\<lambda>common.
         if identityOnly then
           Inr \<lparr>ob_Locator = root, ob_Repository = common, ob_Commit = '''', ob_Tree = '''', ob_ObservedAt = now\<rparr>
         else
         bindr (run 2 [''rev-parse'', ''--verify'', ''HEAD^{commit}'']) (\<lambda>commit.
         bindr (run 3 [''rev-parse'', ''--verify'', ''HEAD^{tree}'']) (\<lambda>tree.
         bindr (run 4 [''config'', ''--null'', ''--name-only'', ''--list'']) (\<lambda>keys.
         require (\<not> list_ex filter_key (split_on CHR 0x00 keys)) ErrInvalid (
         bindr (run 5 [''ls-files'', ''--stage'']) (\<lambda>entries.
         require (\<not> list_ex (\<lambda>e. has_prefix e ''160000 '') (split_on CHR 0x0A entries)) ErrInvalid (
         bindr (run 6 [''status'', ''--porcelain=v1'', ''--untracked-files=all'', ''--ignore-submodules=none'']) (\<lambda>dirty.
         require (dirty = '''') ErrInvalid (
         bindr (run 7 [''rev-parse'', ''--verify'', ''HEAD^{commit}'']) (\<lambda>again.
         require (again = commit) ErrInvalid (
         Inr \<lparr>ob_Locator = root, ob_Repository = common, ob_Commit = commit, ob_Tree = tree,
              ob_ObservedAt = now\<rparr>))))))))))))))))"

definition observe ::
    "filesystem \<Rightarrow> git \<Rightarrow> string list \<Rightarrow> int \<Rightarrow> string \<Rightarrow> bool \<Rightarrow> observation res" where
  "observe fs git environ now locator identityOnly =
     require (is_abs locator) ErrInvalid (
     bindr (from_option (fs_evalSymlinks fs locator) ErrInvalid) (\<lambda>root.
     observeWithContext fs git environ now root identityOnly False))"

section \<open>Properties\<close>

text \<open>A successful full observation was made at a canonical absolute worktree root, inside a
  repository with no clean or process filter configured and no gitlink in the index, with an empty
  porcelain status, and the head commit read before and after is the one recorded; every process
  ran without the caller's \<^verbatim>\<open>GIT_*\<close> variables.\<close>

theorem observe_clean:
  assumes "observe fs git environ now locator False = Inr ob"
  defines "run \<equiv> \<lambda>i args. map_option trim_space (gitRunner git environ (ob_Locator ob) False i args)"
  shows "is_abs locator \<and> fs_evalSymlinks fs locator = Some (ob_Locator ob)
     \<and> run 6 [''status'', ''--porcelain=v1'', ''--untracked-files=all'', ''--ignore-submodules=none''] = Some ''''
     \<and> run 2 [''rev-parse'', ''--verify'', ''HEAD^{commit}''] = Some (ob_Commit ob)
     \<and> run 7 [''rev-parse'', ''--verify'', ''HEAD^{commit}''] = Some (ob_Commit ob)
     \<and> run 3 [''rev-parse'', ''--verify'', ''HEAD^{tree}''] = Some (ob_Tree ob)
     \<and> (\<exists>keys. run 4 [''config'', ''--null'', ''--name-only'', ''--list''] = Some keys
          \<and> \<not> list_ex filter_key (split_on CHR 0x00 keys))
     \<and> (\<exists>entries. run 5 [''ls-files'', ''--stage''] = Some entries
          \<and> \<not> list_ex (\<lambda>e. has_prefix e ''160000 '') (split_on CHR 0x0A entries))
     \<and> (\<exists>t c. run 0 [''rev-parse'', ''--show-toplevel''] = Some t \<and> fs_evalSymlinks fs t = Some (ob_Locator ob)
          \<and> run 1 [''rev-parse'', ''--path-format=absolute'', ''--git-common-dir''] = Some c
          \<and> fs_evalSymlinks fs c = Some (ob_Repository ob))
     \<and> (\<forall>e \<in> set (git_environ environ). has_prefix e ''GIT_'' \<longrightarrow>
          e \<in> {''GIT_CONFIG_NOSYSTEM=1'', ''GIT_CONFIG_GLOBAL=/dev/null'', ''GIT_TERMINAL_PROMPT=0''})"
proof -
  have env: "\<forall>e \<in> set (git_environ environ). has_prefix e ''GIT_'' \<longrightarrow>
      e \<in> {''GIT_CONFIG_NOSYSTEM=1'', ''GIT_CONFIG_GLOBAL=/dev/null'', ''GIT_TERMINAL_PROMPT=0''}"
    by (auto simp: git_environ_def)
  show ?thesis
    using assms(1) env unfolding run_def
    by (clarsimp simp: observe_def observeWithContext_def Let_def)
qed

definition sample_git :: git where
  "sample_git i env args = (if i = 0 then Some ''/w'' else if i = 1 then Some ''/w/.git''
     else if i \<in> {2, 7} then Some ''c1'' else if i = 3 then Some ''t1'' else Some '''')"

definition sample_fs :: filesystem where
  "sample_fs = \<lparr>fs_evalSymlinks = Some, fs_lstat = (\<lambda>_. Entry Directory)\<rparr>"

lemma trim_space_samples [simp]:
  "trim_space '''' = ''''" "trim_space ''/w'' = ''/w''" "trim_space ''/w/.git'' = ''/w/.git''"
  "trim_space ''c1'' = ''c1''" "trim_space ''t1'' = ''t1''"
  by code_simp+

lemma sample_observe:
  "observe sample_fs sample_git [''GIT_DIR=/x'', ''HOME=/h''] 3 ''/w'' False
   = Inr \<lparr>ob_Locator = ''/w'', ob_Repository = ''/w/.git'', ob_Commit = ''c1'', ob_Tree = ''t1'', ob_ObservedAt = 3\<rparr>"
  by (simp add: observe_def observeWithContext_def Let_def gitRunner_def sample_git_def sample_fs_def
      is_abs_def has_prefix_def filter_key_def)

theorem observe_clean_witness:
  "ob_Commit \<lparr>ob_Locator = ''/w'', ob_Repository = ''/w/.git'', ob_Commit = ''c1'', ob_Tree = ''t1'',
      ob_ObservedAt = 3\<rparr> = ''c1''
   \<and> fs_evalSymlinks sample_fs ''/w'' = Some ''/w''"
  using observe_clean [OF sample_observe] by simp

end
