(* ===== verification/Disclosure_Policy.thy ===== *)
theory Disclosure_Policy
  imports Prelude
begin

text \<open>
  The outbound disclosure policy: \<^verbatim>\<open>internal/publication/policy.go\<close> (which fields a GitHub
  projection may carry) and the pure evaluators of \<^verbatim>\<open>internal/governance/policy\<close>. The evaluators
  read no authority; \<^verbatim>\<open>Publication\<close> binds their verdicts to leases. Text sanitising
  (\<^verbatim>\<open>Policy.Sanitize\<close>) is regular-expression rewriting and is not modelled.
\<close>

section \<open>Fields and visibilities (publication/policy.go)\<close>

datatype visibility = VisibilityUnknown | VisibilityPrivate | VisibilityPublic

type_synonym field = string

definition FieldIssueClose :: field where "FieldIssueClose = ''issue_closure''"
definition FieldVerdicts :: field where "FieldVerdicts = ''verdicts''"

definition publicAllowlist :: "field list" where
  "publicAllowlist = [''title'', ''summary'', ''acceptance'', ''issue_reference'']"

definition internalFields :: "field list" where
  "internalFields = [''findings'', FieldVerdicts, ''decisions'', ''transcripts'', ''journals'',
     ''recovery_details'', ''local_paths'', ''tokens_and_costs'', ''agent_identities'']"

record withheld =
  w_Field :: field
  w_Reason :: string

record disclosure =
  d_Visibility :: visibility
  d_Mode :: string
  d_Repository :: string
  d_InternalAuthority :: bool
  d_TerminalAuthority :: bool
  d_Allowed :: "field list"
  d_Withheld :: "withheld list"

definition ParseVisibility :: "string \<Rightarrow> visibility" where
  "ParseVisibility raw =
     (let u = to_upper (trim_space raw)
      in if u = ''PRIVATE'' \<or> u = ''INTERNAL'' then VisibilityPrivate
         else if u = ''PUBLIC'' then VisibilityPublic
         else VisibilityUnknown)"

definition verdict_reason :: string where
  "verdict_reason = ''verdict publication requires the explicit --with-verdicts request''"

definition safe_reason :: string where
  "safe_reason = ''public-safe allowlist: separate recorded internal-disclosure authority is required''"

definition unknown_reason :: string where
  "unknown_reason = ''repository visibility is unknown; disclosure fails closed to the public-safe allowlist''"

definition close_reason :: string where
  "close_reason = ''nonterminal delivery uses a non-closing issue reference''"

definition New :: "string \<Rightarrow> string \<Rightarrow> bool \<Rightarrow> bool \<Rightarrow> bool \<Rightarrow> disclosure" where
  "New repository rawVisibility includeInternal recordedInternal terminal =
     (let v = ParseVisibility rawVisibility;
          internal = v = VisibilityPrivate \<or> (v = VisibilityPublic \<and> includeInternal \<and> recordedInternal);
          mode = (if v = VisibilityPrivate then ''private-explicit''
                  else if internal then ''public-disclosed'' else ''public-safe'');
          allowed = publicAllowlist
            @ (if v = VisibilityPrivate
               then filter (\<lambda>f. f \<noteq> FieldVerdicts \<or> includeInternal) internalFields
               else if internal then internalFields else []);
          withheld = (if v = VisibilityPrivate
               then (if includeInternal then []
                     else [\<lparr>w_Field = FieldVerdicts, w_Reason = verdict_reason\<rparr>])
               else if internal then []
               else map (\<lambda>f. \<lparr>w_Field = f, w_Reason =
                      (if v = VisibilityUnknown then unknown_reason else safe_reason)\<rparr>) internalFields);
          allowed' = allowed @ (if terminal then [FieldIssueClose] else []);
          withheld' = withheld @ (if terminal then []
                                  else [\<lparr>w_Field = FieldIssueClose, w_Reason = close_reason\<rparr>])
      in \<lparr>d_Visibility = v, d_Mode = mode, d_Repository = repository, d_InternalAuthority = internal,
          d_TerminalAuthority = terminal, d_Allowed = sort allowed',
          d_Withheld = sort_key w_Field withheld'\<rparr>)"

definition Allows :: "disclosure \<Rightarrow> field \<Rightarrow> bool" where
  "Allows p f \<longleftrightarrow> list_ex (\<lambda>a. a = f) (d_Allowed p)"

definition Reason_of :: "disclosure \<Rightarrow> field \<Rightarrow> string" where
  "Reason_of p f = (case find (\<lambda>w. w_Field w = f) (d_Withheld p) of
       Some w \<Rightarrow> w_Reason w
     | None \<Rightarrow> ''field is outside the selected publication policy'')"

section \<open>The publication evaluator (governance/policy/publication.go)\<close>

datatype verdict = Allow | Deny | NeedsApproval

datatype reason_code = InvalidRequest | UnsupportedAction | UnsupportedClosure | FieldDenied
  | DisclosureApproval | PolicyAllows | OtherCode string

datatype obligation = CurrentAuthorityConsumption | ExactProjectedPayload | RecordedDisclosure

definition IssueCreate :: string where "IssueCreate = ''issue-create''"
definition IssueUpdate :: string where "IssueUpdate = ''issue-update''"

record pub_observation =
  po_ActorID :: string
  po_SessionID :: string
  po_AttemptID :: string
  po_WorkspaceID :: string
  po_InstallationID :: string
  po_AuthorityID :: string
  po_Repository :: string
  po_Resource :: string
  po_Action :: string
  po_Fields :: "field list"
  po_PayloadSHA256 :: string
  po_PolicyRevision :: string
  po_LeaseID :: string
  po_LeaseGeneration :: "64 word"
  po_NotBefore :: int
  po_ExpiresAt :: int
  po_ObservedAt :: int
  po_Visibility :: string
  po_IncludeInternal :: bool
  po_RecordedInternal :: bool

record reason =
  re_Code :: reason_code
  re_Field :: field
  re_Detail :: string

record assessment =
  as_Verdict :: verdict
  as_Assurance :: string
  as_Binding :: pub_observation
  as_ActionDigest :: string
  as_Reasons :: "reason list"
  as_Obligations :: "obligation list"

text \<open>The regular expressions \<^verbatim>\<open>^[A-Za-z0-9][A-Za-z0-9_.-]*/[A-Za-z0-9][A-Za-z0-9_.-]*$\<close> and
  \<^verbatim>\<open>^[1-9][0-9]*$\<close>.\<close>

definition repo_segment :: "string \<Rightarrow> bool" where
  "repo_segment w \<longleftrightarrow> (case w of [] \<Rightarrow> False
     | c # cs \<Rightarrow> is_alnum c \<and> list_all (\<lambda>d. is_alnum d \<or> d \<in> set ''_.-'') cs)"

definition repositoryPattern :: "string \<Rightarrow> bool" where
  "repositoryPattern r \<longleftrightarrow> (case split_on CHR ''/'' r of [a, b] \<Rightarrow> repo_segment a \<and> repo_segment b | _ \<Rightarrow> False)"

definition issuePattern :: "string \<Rightarrow> bool" where
  "issuePattern r \<longleftrightarrow> (case r of [] \<Rightarrow> False | c # cs \<Rightarrow> is_digit c \<and> c \<noteq> CHR ''0'' \<and> list_all is_digit cs)"

definition hex_decodes :: "string \<Rightarrow> bool" where
  "hex_decodes p \<longleftrightarrow> even (length p) \<and> list_all (\<lambda>c. is_lower_hex (to_lower_char c)) p"

definition binding_id_ok :: "string \<Rightarrow> bool" where
  "binding_id_ok i \<longleftrightarrow> trim_space i \<noteq> '''' \<and> trim_space i = i \<and> \<not> contains_any i [CHR 0x00, CHR 0x0D, CHR 0x0A]"

definition jv_observation :: "pub_observation \<Rightarrow> jval" where
  "jv_observation b = JO [(''ActorID'', JS (po_ActorID b)), (''SessionID'', JS (po_SessionID b)),
     (''AttemptID'', JS (po_AttemptID b)), (''WorkspaceID'', JS (po_WorkspaceID b)),
     (''InstallationID'', JS (po_InstallationID b)), (''AuthorityID'', JS (po_AuthorityID b)),
     (''Repository'', JS (po_Repository b)), (''Resource'', JS (po_Resource b)),
     (''Action'', JS (po_Action b)), (''Fields'', JL (map JS (po_Fields b))),
     (''ProjectedPayloadSHA256'', JS (po_PayloadSHA256 b)),
     (''PolicyRevision'', JS (po_PolicyRevision b)), (''LeaseID'', JS (po_LeaseID b)),
     (''LeaseGeneration'', JW (po_LeaseGeneration b)), (''NotBefore'', JT (po_NotBefore b)),
     (''ExpiresAt'', JT (po_ExpiresAt b)), (''ObservedAt'', JT (po_ObservedAt b)),
     (''Visibility'', JS (po_Visibility b)), (''IncludeInternal'', JB (po_IncludeInternal b)),
     (''RecordedInternal'', JB (po_RecordedInternal b))]"

definition refuse :: "reason_code \<Rightarrow> field \<Rightarrow> string \<Rightarrow> assessment \<Rightarrow> assessment" where
  "refuse c f d a = a\<lparr>as_Verdict := Deny,
     as_Reasons := as_Reasons a @ [\<lparr>re_Code = c, re_Field = f, re_Detail = d\<rparr>]\<rparr>"

definition refuse_if :: "bool \<Rightarrow> reason_code \<Rightarrow> string \<Rightarrow> assessment \<Rightarrow> assessment" where
  "refuse_if b c d a = (if b then refuse c '''' d a else a)"

text \<open>The three validations before the field loop, in source order.\<close>

definition check_identifiers :: "pub_observation \<Rightarrow> assessment \<Rightarrow> assessment" where
  "check_identifiers b = refuse_if
     (list_ex (\<lambda>i. \<not> binding_id_ok i) [po_ActorID b, po_SessionID b, po_AttemptID b, po_WorkspaceID b,
        po_InstallationID b, po_AuthorityID b, po_PolicyRevision b, po_LeaseID b])
     InvalidRequest ''invalid binding identifier''"

definition check_payload :: "pub_observation \<Rightarrow> assessment \<Rightarrow> assessment" where
  "check_payload b = refuse_if
     (\<not> hex_decodes (po_PayloadSHA256 b) \<or> length (po_PayloadSHA256 b) div 2 \<noteq> 32
      \<or> to_lower (po_PayloadSHA256 b) \<noteq> po_PayloadSHA256 b)
     InvalidRequest ''expected lowercase SHA256 projected payload digest''"

definition check_window :: "pub_observation \<Rightarrow> assessment \<Rightarrow> assessment" where
  "check_window b = refuse_if
     (\<not> repositoryPattern (po_Repository b) \<or> po_LeaseGeneration b = 0 \<or> po_Fields b = []
      \<or> po_NotBefore b = 0 \<or> po_ExpiresAt b = 0 \<or> po_ObservedAt b = 0
      \<or> \<not> po_NotBefore b < po_ExpiresAt b \<or> po_ObservedAt b < po_NotBefore b
      \<or> \<not> po_ObservedAt b < po_ExpiresAt b)
     InvalidRequest ''invalid repository, lease or validity window''"

definition check_action :: "pub_observation \<Rightarrow> assessment \<Rightarrow> assessment" where
  "check_action b a =
     (if po_Action b = IssueCreate then
        refuse_if (po_Resource b \<noteq> po_Repository b) InvalidRequest
          ''create resource must be exact repository'' a
      else if po_Action b = IssueUpdate then
        refuse_if (\<not> issuePattern (po_Resource b)) InvalidRequest
          ''update resource must be positive issue number'' a
      else refuse UnsupportedAction '''' ''only issue create/update are supported'' a)"

text \<open>One iteration of the field loop.\<close>

definition check_field :: "pub_observation \<Rightarrow> field \<Rightarrow> assessment \<Rightarrow> assessment" where
  "check_field b f a =
     (let p = New (po_Repository b) (po_Visibility b) (po_IncludeInternal b) (po_RecordedInternal b) False;
          approved = New (po_Repository b) (po_Visibility b) (po_IncludeInternal b) True False
      in if f = FieldIssueClose then refuse UnsupportedClosure f (Reason_of p f) a
         else if Allows p f then a
         else if d_Visibility p = VisibilityPublic \<and> po_IncludeInternal b \<and> \<not> po_RecordedInternal b
                 \<and> Allows approved f
         then a\<lparr>as_Verdict := (if as_Verdict a \<noteq> Deny then NeedsApproval else as_Verdict a),
                as_Reasons := as_Reasons a @
                  [\<lparr>re_Code = DisclosureApproval, re_Field = f, re_Detail = Reason_of p f\<rparr>]\<rparr>
         else refuse FieldDenied f (Reason_of p f) a)"

definition check_fields :: "pub_observation \<Rightarrow> assessment \<Rightarrow> assessment" where
  "check_fields b a = fold (check_field b) (po_Fields b) a"

definition normalize_observation :: "pub_observation \<Rightarrow> pub_observation" where
  "normalize_observation x = x\<lparr>po_Fields := remdups_adj (sort (po_Fields x))\<rparr>"

definition finish_assessment :: "assessment \<Rightarrow> assessment" where
  "finish_assessment a =
     (let a' = (if as_Verdict a = NeedsApproval
                then a\<lparr>as_Obligations := as_Obligations a @ [RecordedDisclosure]\<rparr> else a)
      in if as_Reasons a' = []
         then a'\<lparr>as_Reasons := [\<lparr>re_Code = PolicyAllows, re_Field = '''',
                re_Detail = ''supplied publication policy allows requested fields''\<rparr>]\<rparr>
         else a')"

definition EvaluatePublication ::
    "(string \<Rightarrow> string) \<Rightarrow> (jval \<Rightarrow> string) \<Rightarrow> pub_observation \<Rightarrow> assessment" where
  "EvaluatePublication hash json x =
     (let b = normalize_observation x;
          a = \<lparr>as_Verdict = Allow, as_Assurance = ''observed/advisory'', as_Binding = b,
               as_ActionDigest = '''', as_Reasons = [],
               as_Obligations = [CurrentAuthorityConsumption, ExactProjectedPayload]\<rparr>
      in if \<not> (json_time_ok (po_NotBefore b) \<and> json_time_ok (po_ExpiresAt b) \<and> json_time_ok (po_ObservedAt b))
         then refuse InvalidRequest '''' ''binding cannot be canonically encoded'' a
         else finish_assessment (check_fields b (check_action b (check_window b (check_payload b
                (check_identifiers b (a\<lparr>as_ActionDigest := hash (json (JO
                   [(''Domain'', JS ''dacli-publication-assessment/v1''),
                    (''Binding'', jv_observation b)]))\<rparr>)))))))"

section \<open>The acceptance evaluator (governance/policy/native\_acceptance.go)\<close>

record acceptance_observation =
  ao_ActorID :: string
  ao_Action :: string
  ao_TaskID :: string
  ao_ActionDigest :: string
  ao_PolicyRevision :: string
  ao_Allowed :: bool
  ao_ApprovalRequired :: bool
  ao_Approved :: bool
  ao_Stopped :: bool

record acceptance_assessment =
  aa_Verdict :: verdict
  aa_Assurance :: string
  aa_Binding :: acceptance_observation
  aa_Reasons :: "reason list"
  aa_Obligations :: "obligation list"

definition EvaluateNativeAcceptance :: "acceptance_observation \<Rightarrow> acceptance_assessment" where
  "EvaluateNativeAcceptance x =
     (let out = \<lparr>aa_Verdict = Deny, aa_Assurance = ''observed-advisory'', aa_Binding = x,
                 aa_Reasons = [], aa_Obligations = [CurrentAuthorityConsumption, ExactProjectedPayload]\<rparr>;
          because = (\<lambda>c d o'. o'\<lparr>aa_Reasons := aa_Reasons o' @
                 [\<lparr>re_Code = c, re_Field = '''', re_Detail = d\<rparr>]\<rparr>)
      in if ao_Action x \<noteq> ''native-task-accept'' \<or> ao_ActorID x = '''' \<or> ao_TaskID x = ''''
            \<or> ao_ActionDigest x = '''' \<or> ao_PolicyRevision x = ''''
         then because InvalidRequest ''exact native action binding required'' out
         else if ao_Stopped x \<or> \<not> ao_Allowed x
         then because (OtherCode ''native-policy-denied'') ''owner policy denies native acceptance'' out
         else if ao_ApprovalRequired x \<and> \<not> ao_Approved x
         then because (OtherCode ''native-approval-required'') ''exact recorded owner approval required''
                (out\<lparr>aa_Verdict := NeedsApproval\<rparr>)
         else because (OtherCode ''native-policy-allows'') ''native acceptance policy allows exact local action''
                (out\<lparr>aa_Verdict := Allow\<rparr>))"

section \<open>Lemmas on the policy\<close>

definition publication_fields :: "string \<Rightarrow> bool \<Rightarrow> bool \<Rightarrow> bool \<Rightarrow> field set" where
  "publication_fields vis includeInternal recordedInternal terminal =
     set publicAllowlist
     \<union> (if ParseVisibility vis = VisibilityPrivate then {f \<in> set internalFields. f \<noteq> FieldVerdicts \<or> includeInternal}
        else if ParseVisibility vis = VisibilityPublic \<and> includeInternal \<and> recordedInternal
        then set internalFields else {})
     \<union> (if terminal then {FieldIssueClose} else {})"

lemma Allows_New: "Allows (New repo vis i r t) f \<longleftrightarrow> f \<in> publication_fields vis i r t"
  by (auto simp: Allows_def New_def publication_fields_def Let_def list_ex_iff)

lemma Visibility_New [simp]: "d_Visibility (New repo vis i r t) = ParseVisibility vis"
  by (simp add: New_def Let_def)

lemma verdict_refuse [simp]: "as_Verdict (refuse c f d a) = Deny"
  by (simp add: refuse_def)

lemma verdict_refuse_if [simp]:
  "as_Verdict (refuse_if b c d a) = (if b then Deny else as_Verdict a)"
  by (simp add: refuse_if_def)

lemma verdict_finish [simp]: "as_Verdict (finish_assessment a) = as_Verdict a"
  by (simp add: finish_assessment_def Let_def)

lemma refuse_if_False [simp]: "refuse_if False c d a = a"
  by (simp add: refuse_if_def)

lemma binding_refuse [simp]: "as_Binding (refuse c f d a) = as_Binding a"
  by (simp add: refuse_def)

definition field_ok :: "pub_observation \<Rightarrow> field \<Rightarrow> bool" where
  "field_ok b f \<longleftrightarrow> f \<noteq> FieldIssueClose \<and>
     f \<in> publication_fields (po_Visibility b) (po_IncludeInternal b) (po_RecordedInternal b) False"

lemma check_field_Allow:
  "as_Verdict (check_field b f a) = Allow \<longleftrightarrow> as_Verdict a = Allow \<and> field_ok b f"
  by (auto simp: check_field_def Let_def field_ok_def Allows_New)

lemma check_fields_Allow:
  "as_Verdict (check_fields b a) = Allow \<longleftrightarrow> as_Verdict a = Allow \<and> (\<forall>f \<in> set (po_Fields b). field_ok b f)"
proof -
  have "as_Verdict (fold (check_field b) fs a) = Allow \<longleftrightarrow> as_Verdict a = Allow \<and> (\<forall>f \<in> set fs. field_ok b f)"
    for fs
    by (induction fs arbitrary: a) (auto simp: check_field_Allow)
  then show ?thesis by (simp add: check_fields_def)
qed

lemma check_field_Deny:
  "as_Verdict a = Deny \<Longrightarrow> as_Verdict (check_field b f a) = Deny"
  by (auto simp: check_field_def Let_def)

text \<open>What the request itself must satisfy, apart from its fields.\<close>

definition request_wellformed :: "pub_observation \<Rightarrow> bool" where
  "request_wellformed x \<longleftrightarrow>
     json_time_ok (po_NotBefore x) \<and> json_time_ok (po_ExpiresAt x) \<and> json_time_ok (po_ObservedAt x)
   \<and> list_all binding_id_ok [po_ActorID x, po_SessionID x, po_AttemptID x, po_WorkspaceID x,
        po_InstallationID x, po_AuthorityID x, po_PolicyRevision x, po_LeaseID x]
   \<and> length (po_PayloadSHA256 x) = 64 \<and> list_all is_lower_hex (po_PayloadSHA256 x)
   \<and> repositoryPattern (po_Repository x) \<and> po_LeaseGeneration x \<noteq> 0 \<and> po_Fields x \<noteq> []
   \<and> po_NotBefore x \<noteq> 0 \<and> po_ExpiresAt x \<noteq> 0 \<and> po_ObservedAt x \<noteq> 0
   \<and> po_NotBefore x \<le> po_ObservedAt x \<and> po_ObservedAt x < po_ExpiresAt x
   \<and> (po_Action x = IssueCreate \<and> po_Resource x = po_Repository x
      \<or> po_Action x = IssueUpdate \<and> issuePattern (po_Resource x))"

lemma payload_iff:
  "hex_decodes p \<and> length p div 2 = 32 \<and> to_lower p = p \<longleftrightarrow> length p = 64 \<and> list_all is_lower_hex p"
proof -
  have lower: "is_lower_hex c \<Longrightarrow> to_lower_char c = c" for c
    by (auto simp: is_lower_hex_def is_digit_def to_lower_char_def less_eq_char_def)
  have hex_fix: "list_all is_lower_hex q \<Longrightarrow> to_lower q = q" for q
    by (induction q) (auto simp: lower is_lower_hex_def is_digit_def less_eq_char_def)
  have fix_hex: "to_lower q = q \<Longrightarrow> list_all (\<lambda>c. is_lower_hex (to_lower_char c)) q \<Longrightarrow> list_all is_lower_hex q"
    for q
  proof (induction q)
    case (Cons c q)
    then have "c \<noteq> CHR 0xC4" "c \<noteq> CHR 0xE2"
      by (auto simp: is_lower_hex_def is_digit_def to_lower_char_def less_eq_char_def)
    with Cons show ?case by auto
  qed simp
  have "list_all is_lower_hex p \<Longrightarrow> list_all (\<lambda>c. is_lower_hex (to_lower_char c)) p"
    by (simp add: list_all_iff lower)
  with hex_fix [of p] fix_hex [of p] show ?thesis
    by (auto simp: hex_decodes_def elim!: evenE)
qed

lemma publication_allow_iff:
  "as_Verdict (EvaluatePublication hash json x) = Allow \<longleftrightarrow>
     request_wellformed x \<and>
     (\<forall>f \<in> set (po_Fields x). f \<noteq> FieldIssueClose \<and>
        f \<in> publication_fields (po_Visibility x) (po_IncludeInternal x) (po_RecordedInternal x) False)"
proof -
  let ?b = "normalize_observation x"
  have requested: "set (po_Fields ?b) = set (po_Fields x)" "po_Fields ?b = [] \<longleftrightarrow> po_Fields x = []"
    by (simp_all add: normalize_observation_def)
  have same: "field_ok ?b f \<longleftrightarrow> field_ok x f" for f
    by (simp add: field_ok_def normalize_observation_def)
  have "as_Verdict (check_action ?b (check_window ?b (check_payload ?b (check_identifiers ?b a)))) = Allow
      \<longleftrightarrow> as_Verdict a = Allow \<and> list_all binding_id_ok [po_ActorID x, po_SessionID x, po_AttemptID x,
            po_WorkspaceID x, po_InstallationID x, po_AuthorityID x, po_PolicyRevision x, po_LeaseID x]
          \<and> (hex_decodes (po_PayloadSHA256 x) \<and> length (po_PayloadSHA256 x) div 2 = 32
             \<and> to_lower (po_PayloadSHA256 x) = po_PayloadSHA256 x)
          \<and> repositoryPattern (po_Repository x) \<and> po_LeaseGeneration x \<noteq> 0 \<and> po_Fields x \<noteq> []
          \<and> po_NotBefore x \<noteq> 0 \<and> po_ExpiresAt x \<noteq> 0 \<and> po_ObservedAt x \<noteq> 0
          \<and> po_NotBefore x \<le> po_ObservedAt x \<and> po_ObservedAt x < po_ExpiresAt x
          \<and> (po_Action x = IssueCreate \<and> po_Resource x = po_Repository x
             \<or> po_Action x = IssueUpdate \<and> issuePattern (po_Resource x))" for a
    by (auto simp: check_action_def check_window_def check_payload_def check_identifiers_def
        normalize_observation_def IssueCreate_def IssueUpdate_def not_less)
  then show ?thesis
    unfolding payload_iff
    by (auto simp: EvaluatePublication_def Let_def check_fields_Allow requested same
        request_wellformed_def field_ok_def normalize_observation_def)
qed

definition sample_observation :: pub_observation where
  "sample_observation = \<lparr>po_ActorID = ''s'', po_SessionID = ''s'', po_AttemptID = ''a'',
     po_WorkspaceID = ''w'', po_InstallationID = ''i'', po_AuthorityID = ''h'',
     po_Repository = ''o/r'', po_Resource = ''7'', po_Action = IssueUpdate, po_Fields = [''title''],
     po_PayloadSHA256 = replicate 64 CHR ''0'', po_PolicyRevision = ''p'', po_LeaseID = ''l'',
     po_LeaseGeneration = 1, po_NotBefore = 5, po_ExpiresAt = 9, po_ObservedAt = 5,
     po_Visibility = ''public'', po_IncludeInternal = False, po_RecordedInternal = False\<rparr>"

section \<open>Properties\<close>

text \<open>The evaluator allows a publication exactly when the request is well formed (encodable
  times, eight clean identifiers, a lower-case SHA-256 payload digest, a repository, a nonzero
  lease generation, an observation inside the validity window, and an action whose resource has
  its shape) and every requested field is disclosed by the policy selected by the visibility and
  the recorded authority, none of them an issue closure.\<close>

theorem evaluate_publication_allow_iff:
  "as_Verdict (EvaluatePublication hash json x) = Allow \<longleftrightarrow>
     request_wellformed x \<and>
     (\<forall>f \<in> set (po_Fields x). f \<noteq> FieldIssueClose \<and>
        f \<in> publication_fields (po_Visibility x) (po_IncludeInternal x) (po_RecordedInternal x) False)"
  by (rule publication_allow_iff)

theorem evaluate_publication_allow_iff_witness:
  "as_Verdict (EvaluatePublication id (\<lambda>_. []) sample_observation) = Allow"
proof -
  have "list_all binding_id_ok [''s'', ''s'', ''a'', ''w'', ''i'', ''h'', ''p'', ''l'']" "repositoryPattern ''o/r''" "issuePattern ''7''"
    by code_simp+
  moreover have "''title'' \<in> publication_fields ''public'' False False False"
    by (simp add: publication_fields_def publicAllowlist_def)
  ultimately show ?thesis
    unfolding evaluate_publication_allow_iff
    by (simp add: request_wellformed_def sample_observation_def json_time_ok_def is_lower_hex_def is_digit_def
        FieldIssueClose_def IssueUpdate_def IssueCreate_def list_all_length)
qed

text \<open>The assessment does not depend on the order or repetition of the requested fields.\<close>

theorem evaluate_publication_field_set:
  assumes "set fs = set gs"
  shows "EvaluatePublication hash json (x\<lparr>po_Fields := fs\<rparr>) = EvaluatePublication hash json (x\<lparr>po_Fields := gs\<rparr>)"
  by (simp add: EvaluatePublication_def normalize_observation_def dedup_sort_eq [OF assms])

theorem evaluate_publication_field_set_witness:
  "EvaluatePublication id (\<lambda>_. []) (sample_observation\<lparr>po_Fields := [''title'', ''summary'']\<rparr>)
   = EvaluatePublication id (\<lambda>_. []) (sample_observation\<lparr>po_Fields := [''summary'', ''title'', ''summary'']\<rparr>)"
  by (rule evaluate_publication_field_set) auto

text \<open>C14: Disclosure fails closed: when the visibility is not recognised as private, an internal
  field is allowed only for a recognised public repository with both the operator's request and a
  recorded authority; the issue closure is allowed only with terminal authority; and every known
  field that is not allowed is withheld with a recorded reason.\<close>

theorem disclosure_fails_closed:
  "(ParseVisibility vis \<noteq> VisibilityPrivate \<and> f \<in> set internalFields \<and> Allows (New repo vis i r t) f
     \<longrightarrow> ParseVisibility vis = VisibilityPublic \<and> i \<and> r) \<and>
   (Allows (New repo vis i r t) FieldIssueClose \<longrightarrow> t) \<and>
   (f \<in> set publicAllowlist \<union> set internalFields \<union> {FieldIssueClose} \<longrightarrow>
     (Allows (New repo vis i r t) f \<longleftrightarrow> f \<notin> w_Field ` set (d_Withheld (New repo vis i r t))))"
proof -
  have disj: "set publicAllowlist \<inter> set internalFields = {}"
      "FieldIssueClose \<notin> set publicAllowlist \<union> set internalFields" "FieldVerdicts \<in> set internalFields"
    by (auto simp: publicAllowlist_def internalFields_def FieldIssueClose_def FieldVerdicts_def)
  have withheld: "w_Field ` set (d_Withheld (New repo vis i r t)) =
      (if ParseVisibility vis = VisibilityPrivate then (if i then {} else {FieldVerdicts})
       else if ParseVisibility vis = VisibilityPublic \<and> i \<and> r then {} else set internalFields)
      \<union> (if t then {} else {FieldIssueClose})"
    by (auto simp: New_def Let_def image_image)
  show ?thesis
    using disj unfolding Allows_New withheld publication_fields_def by (auto split: if_splits)
qed

theorem disclosure_fails_closed_witness:
  "\<not> Allows (New ''o/r'' ''nonsense'' True True False) ''findings''"
proof -
  have "ParseVisibility ''nonsense'' = VisibilityUnknown" "''findings'' \<in> set internalFields"
    by (code_simp, simp add: internalFields_def)
  with disclosure_fails_closed [of "''nonsense''" "''findings''" "''o/r''" True True False] show ?thesis by auto
qed

end
