(* ===== verification/Kernel_State.thy ===== *)
theory Kernel_State
  imports Checkout Disclosure_Policy
begin

text \<open>
  The durable authority aggregate of \<^verbatim>\<open>internal/governance/sessions\<close>: its structs as records, the
  aggregate \<^verbatim>\<open>state\<close>, the environment an operation consults, and the request encodings whose hash
  is an operation's identity. Field names carry a prefix per struct. Instants are nanoseconds since
  the zero \<^verbatim>\<open>time.Time\<close> (0 is \<^verbatim>\<open>IsZero\<close>), so \<^verbatim>\<open>UTC()\<close> is the identity on them.

  The aggregate holds the maps of the modelled components. The maps of budgets, preflight,
  checkpoints, the native controller, model routing, native policies, integration and external
  effects are represented by their presence only (\<open>Schema\<close>), which is what the schema checks read.
\<close>

section \<open>Sessions (sessions.go)\<close>

record binding =
  b_Workspace :: string
  b_Installation :: string

record scope =
  sc_Actions :: "string list"
  sc_Resources :: "string list"

record session =
  se_ID :: string
  se_Parent :: string
  se_Scope :: scope
  se_ExpiresAt :: int
  se_Revoked :: bool

record srecord = session +
  sr_Hash :: string

section \<open>Tasks, attempts and leases (attempts.go, leases.go)\<close>

record task_binding =
  tb_TaskID :: string
  tb_ProjectID :: string
  tb_Repository :: string
  tb_AdmissionEnabled :: bool

record attempt_request =
  ar_RequestID :: string
  ar_TaskID :: string
  ar_Checkout :: string
  ar_HostLabel :: string

record attempt =
  at_ID :: string
  at_SessionID :: string
  at_Request :: attempt_request
  at_ProjectID :: string
  at_Observation :: observation
  at_RegisteredAt :: int

record resource =
  rs_Kind :: string
  rs_Path :: string

record lease =
  l_ID :: string
  l_AttemptID :: string
  l_SessionID :: string
  l_TaskID :: string
  l_Repository :: string
  l_Checkout :: string
  l_Resources :: "resource list"
  l_Fence :: "64 word"
  l_ExpiresAt :: int
  l_Released :: bool

section \<open>Revisions, evidence and reviews (evidence.go, native\_review.go)\<close>

record attempt_revision =
  rv_ID :: string
  rv_AttemptID :: string
  rv_SessionID :: string
  rv_LeaseID :: string
  rv_Sequence :: "64 word"
  rv_Fence :: "64 word"
  rv_Observation :: observation
  rv_PublishedAt :: int

record verification_grant =
  vg_ID :: string
  vg_RunnerSession :: string
  vg_TaskID :: string
  vg_Repository :: string
  vg_CheckID :: string
  vg_CommandDigest :: string
  vg_ExpiresAt :: int
  vg_Revoked :: bool

record evidence =
  ev_ID :: string
  ev_IssuerSession :: string
  ev_Provenance :: string
  ev_GrantID :: string
  ev_Revision :: attempt_revision
  ev_CheckID :: string
  ev_CommandDigest :: string
  ev_OutputDigest :: string
  ev_ExitCode :: int
  ev_RecordedAt :: int

record verification_request =
  vr_OperationKey :: string
  vr_WorkerSession :: string
  vr_AttemptID :: string
  vr_LeaseID :: string
  vr_RevisionID :: string
  vr_CheckID :: string
  vr_GrantID :: string
  vr_ExpectedFence :: "64 word"

record checkpoint_verification_binding =
  cb_ProjectID :: string
  cb_TaskID :: string
  cb_RunnerSession :: string
  cb_DescriptorDigest :: string
  cb_Request :: verification_request

record required_check =
  rc_ID :: string
  rc_CommandDigest :: string

record required_verification_set =
  rq_PolicyDigest :: string
  rq_PolicyBytesDigest :: string
  rq_BaseCommit :: string
  rq_RevisionID :: string
  rq_RevisionCommit :: string
  rq_RevisionTree :: string
  rq_PlanDigest :: string
  rq_Checks :: "required_check list"
  rq_GrantIDs :: "string list"

record review_observation =
  ro_RequiredSet :: "required_verification_set option"
  ro_ChecklistDigest :: string
  ro_PolicyRevision :: string
  ro_Checks :: "required_check list"

record review_grant =
  rg_ID :: string
  rg_ReviewerSession :: string
  rg_WorkerRoot :: string
  rg_TaskID :: string
  rg_Repository :: string
  rg_Observation :: review_observation
  rg_ExpiresAt :: int
  rg_Revoked :: bool

record review_request =
  rr_OperationKey :: string
  rr_GrantID :: string
  rr_AttemptID :: string
  rr_LeaseID :: string
  rr_RevisionID :: string
  rr_ExpectedFence :: "64 word"
  rr_Outcome :: string
  rr_Rationale :: string
  rr_EvidenceIDs :: "string list"

record review =
  rw_ID :: string
  rw_IssuerSession :: string
  rw_Request :: review_request
  rw_Revision :: attempt_revision
  rw_Observation :: review_observation
  rw_CreatedAt :: int

section \<open>Publication (publication.go)\<close>

record publication_policy =
  pp_TaskID :: string
  pp_Repository :: string
  pp_Visibility :: string
  pp_IncludeInternal :: bool
  pp_RecordedInternal :: bool
  pp_Generation :: "64 word"
  pp_Digest :: string

record publication_action =
  pa_Action :: string
  pa_Repository :: string
  pa_Issue :: string
  pa_PayloadSHA256 :: string
  pa_Fields :: "field list"

record publication_decision_request =
  pr_OperationKey :: string
  pr_AttemptID :: string
  pr_LeaseID :: string
  pr_RevisionID :: string
  pr_ExpectedFence :: "64 word"
  pr_ExpiresAt :: int
  pr_Action :: publication_action

record publication_decision =
  pd_ID :: string
  pd_SessionID :: string
  pd_Request :: publication_decision_request
  pd_Policy :: publication_policy
  pd_Revision :: attempt_revision
  pd_Assessment :: assessment

record publication_consumption =
  pc_DecisionID :: string
  pc_OperationKey :: string
  pc_ActionDigest :: string
  pc_Assurance :: string
  pc_ConsumedAt :: int
  pc_Historical :: bool

text \<open>\<^verbatim>\<open>operation\<close>: the receipt of one operation key. Go's zero \<^verbatim>\<open>Lease\<close> and nil pointers are the
  defaults of \<open>empty_operation\<close>.\<close>

record operation =
  op_CheckpointVerification :: "checkpoint_verification_binding option"
  op_Digest :: string
  op_PublicationDecision :: "publication_decision option"
  op_PublicationConsumption :: "publication_consumption option"
  op_Receipt :: lease
  op_Review :: "review option"
  op_Revision :: "attempt_revision option"
  op_Evidence :: "evidence option"
  op_ResultDigest :: string
  op_Pending :: bool

definition zero_lease :: lease where
  "zero_lease = \<lparr>l_ID = '''', l_AttemptID = '''', l_SessionID = '''', l_TaskID = '''', l_Repository = '''',
     l_Checkout = '''', l_Resources = [], l_Fence = 0, l_ExpiresAt = 0, l_Released = False\<rparr>"

definition empty_operation :: "string \<Rightarrow> operation" where
  "empty_operation digest = \<lparr>op_CheckpointVerification = None, op_Digest = digest,
     op_PublicationDecision = None, op_PublicationConsumption = None, op_Receipt = zero_lease,
     op_Review = None, op_Revision = None, op_Evidence = None, op_ResultDigest = '''', op_Pending = False\<rparr>"

section \<open>Swarms and dispatch (swarms.go, dispatch\_intents.go)\<close>

record swarm_role =
  ro_ID :: string
  ro_Kind :: string
  ro_Harness :: string
  ro_Capacity :: int

record swarm_placement =
  sp_Checkout :: string
  sp_ImplementKind :: string
  sp_ReviewKind :: string

record swarm_policy =
  sw_ProjectID :: string
  sw_Revision :: string
  sw_Harness :: string
  sw_CapabilityDigest :: string
  sw_Width :: int
  sw_WIP :: int
  sw_TTL :: int
  sw_Stopped :: bool
  sw_Roles :: "swarm_role list"
  sw_Placements :: "swarm_placement gmap"

record role_policy_reference =
  rp_Kind :: string
  rp_Version :: string
  rp_Digest :: string

record role_registry_provenance =
  rrp_RoleID :: string
  rrp_Version :: string
  rrp_ContentDigest :: string
  rrp_PublisherKeyID :: string
  rrp_LifecycleDigest :: string
  rrp_LifecycleExpiresAt :: int
  rrp_LifecycleGeneration :: "64 word"
  rrp_PinGeneration :: "64 word"
  rrp_ProjectGeneration :: "64 word"
  rrp_PolicyReferences :: "role_policy_reference list"

text \<open>The optional model-routing selection of a reservation is not carried: the operations
  modelled here neither read nor write it.\<close>

record dispatch_reservation =
  dr_ID :: string
  dr_ControllerSessionID :: string
  dr_ProjectID :: string
  dr_PolicyRevision :: string
  dr_ImplementationRole :: string
  dr_ReviewRole :: string
  dr_Harness :: string
  dr_BaseCommit :: string
  dr_BaseTree :: string
  dr_Reservation :: lease
  dr_PreflightExpiresAt :: int
  dr_PreflightDigest :: string
  dr_RoleRegistry :: "role_registry_provenance list"
  dr_Converted :: bool
  dr_WorkerSessionID :: string
  dr_AttemptID :: string

record dispatch_intent =
  di_SchemaVersion :: int
  di_Sequence :: "64 word"
  di_ID :: string
  di_OperationKey :: string
  di_DispatchID :: string
  di_ControllerSessionID :: string
  di_BridgeSessionID :: string
  di_WorkerSessionID :: string
  di_PromptSpecDigest :: string
  di_CapabilityDigest :: string
  di_State :: string
  di_HostAgentID :: string
  di_Reservation :: dispatch_reservation
  di_RequestedAt :: int
  di_ObservedAt :: int
  di_Lease :: "lease option"

record dispatch_intent_receipt =
  ir_Digest :: string
  ir_Intent :: dispatch_intent

section \<open>Lifecycle and recovery (lifecycle.go, recovery.go)\<close>

record lifecycle_policy =
  lp_SchemaVersion :: int
  lp_ProjectID :: string
  lp_Revision :: string
  lp_Source :: string
  lp_CancellationChannel :: string
  lp_Freshness :: int
  lp_CancellationEnabled :: bool

record lifecycle_binding =
  lb_DispatchID :: string
  lb_IntentID :: string
  lb_BridgeSessionID :: string
  lb_WorkerSessionID :: string
  lb_TaskID :: string
  lb_Checkout :: string
  lb_BaseCommit :: string
  lb_HostAgentID :: string
  lb_AttemptID :: string
  lb_LeaseID :: string
  lb_ReservationFence :: "64 word"
  lb_LeaseFence :: "64 word"

record lifecycle_observation =
  lo_Sequence :: "64 word"
  lo_HostSequence :: "64 word"
  lo_Binding :: lifecycle_binding
  lo_State :: string
  lo_Source :: string
  lo_Assurance :: string
  lo_EvidenceDigest :: string
  lo_SourceTime :: int
  lo_ReceivedAt :: int

record lifecycle_cancellation =
  lc_Sequence :: "64 word"
  lc_Binding :: lifecycle_binding
  lc_OperationKey :: string
  lc_PolicyRevision :: string
  lc_Channel :: string
  lc_State :: string
  lc_EvidenceDigest :: string
  lc_RequestedBy :: string
  lc_RequestedAt :: int
  lc_AcknowledgedAt :: int

record lifecycle_receipt =
  lr_Digest :: string
  lr_Observation :: "lifecycle_observation option"
  lr_Cancellation :: "lifecycle_cancellation option"

record recovery_policy =
  ry_SchemaVersion :: int
  ry_ProjectID :: string
  ry_Revision :: string
  ry_Rationale :: string
  ry_AcceptCooperativeTerminal :: bool

record recovery_target =
  rt_Workspace :: string
  rt_Kind :: string
  rt_TaskID :: string
  rt_DispatchID :: string
  rt_IntentID :: string
  rt_AttemptID :: string
  rt_ProtectionID :: string
  rt_SessionID :: string
  rt_WorkerFamilyID :: string
  rt_Repository :: string
  rt_Checkout :: string
  rt_ExpectedFence :: "64 word"

record recovery_receipt =
  rx_ID :: string
  rx_OperationKey :: string
  rx_RequestDigest :: string
  rx_Actor :: string
  rx_Mode :: string
  rx_Rationale :: string
  rx_Uncertainty :: string
  rx_ReleaseRisk :: string
  rx_PolicyRevision :: string
  rx_Target :: recovery_target
  rx_Observation :: "lifecycle_observation option"
  rx_ReleasedResources :: "resource list"
  rx_PreviousGlobalFence :: "64 word"
  rx_GlobalFence :: "64 word"
  rx_RecordedAt :: int

section \<open>Task retirement (native\_acceptance.go)\<close>

record acceptance_input =
  ai_SchemaVersion :: int
  ai_OperationKey :: string
  ai_WorkspaceID :: string
  ai_InstallationID :: string
  ai_ProjectID :: string
  ai_TaskID :: string
  ai_ReviewID :: string
  ai_AttemptID :: string
  ai_LeaseID :: string
  ai_RevisionID :: string
  ai_Repository :: string
  ai_Commit :: string
  ai_Tree :: string
  ai_ExpectedFence :: "64 word"
  ai_ChecklistDigest :: string
  ai_PolicyRevision :: string
  ai_CandidateDigest :: string

record acceptance_evidence =
  ae_ID :: string
  ae_RunnerSessionID :: string
  ae_CheckID :: string
  ae_CommandDigest :: string
  ae_OutputDigest :: string

record acceptance_candidate =
  ac_Input :: acceptance_input
  ac_ReviewerSessionID :: string
  ac_WorkerSessionID :: string
  ac_WorkerFamilyID :: string
  ac_Evidence :: "acceptance_evidence list"

record acceptance_record =
  ax_OperationKey :: string
  ax_InputDigest :: string
  ax_State :: string
  ax_CanonicalReceiptDigest :: string
  ax_CanonicalOutcomeDigest :: string
  ax_Candidate :: acceptance_candidate
  ax_CreatedAt :: int
  ax_ClosedAt :: int

section \<open>The aggregate\<close>

record state =
  Version :: nat
  Binding :: binding
  OwnerHash :: string
  Sessions :: "srecord gmap"
  Tasks :: "task_binding gmap"
  Attempts :: "attempt gmap"
  Leases :: "lease gmap"
  Operations :: "operation gmap"
  Fence :: "64 word"
  Revisions :: "attempt_revision list gmap"
  Grants :: "verification_grant gmap"
  Evidence :: "evidence gmap"
  ReviewGrants :: "review_grant gmap"
  Reviews :: "review gmap"
  PublicationPolicies :: "publication_policy list gmap"
  PublicationDecisions :: "publication_decision gmap"
  PublicationConsumed :: "publication_consumption gmap"
  SwarmPolicies :: "swarm_policy gmap"
  Dispatches :: "dispatch_reservation gmap"
  DispatchIntents :: "dispatch_intent gmap"
  DispatchIntentOperations :: "dispatch_intent_receipt gmap"
  LifecyclePolicyHistory :: "lifecycle_policy gmap gmap"
  LifecyclePolicies :: "lifecycle_policy gmap"
  LifecycleObservations :: "lifecycle_observation list gmap"
  LifecycleCancellations :: "lifecycle_cancellation gmap"
  LifecycleOperations :: "lifecycle_receipt gmap"
  RecoveryPolicyHistory :: "recovery_policy gmap gmap"
  RecoveryPolicies :: "recovery_policy gmap"
  Recoveries :: "recovery_receipt gmap"
  RecoveryOperations :: "recovery_receipt gmap"
  TaskTerminals :: "acceptance_record gmap"

section \<open>The environment of an operation\<close>

text \<open>
  \<open>e_now i\<close> is the \<open>i\<close>-th reading of \<^verbatim>\<open>time.Now()\<close> in the operation, \<open>e_mint i\<close> the \<open>i\<close>-th draw
  of \<^verbatim>\<open>mint()\<close> (\<^const>\<open>None\<close> when the random source fails), \<open>e_hash\<close> the hexadecimal SHA-256 of a
  byte string, \<open>e_json\<close> the bytes \<^verbatim>\<open>json.Marshal\<close> gives (empty on its error, which the sources
  ignore), \<open>e_git i\<close> the Git processes of the \<open>i\<close>-th checkout observation. The admission and review
  observers are the interface values the application installs: \<^const>\<open>None\<close> is a nil interface or
  a value without the optional method, and an answer may differ from call to call.
\<close>

record env =
  e_now :: "nat \<Rightarrow> int"
  e_mint :: "nat \<Rightarrow> string option"
  e_hash :: "string \<Rightarrow> string"
  e_json :: "jval \<Rightarrow> string"
  e_fs :: filesystem
  e_git :: "nat \<Rightarrow> git"
  e_environ :: "string list"
  e_admitLease :: "(string \<Rightarrow> string \<Rightarrow> string \<Rightarrow> bool) option"
  e_admitCapability :: "(nat \<Rightarrow> string \<Rightarrow> string \<Rightarrow> string \<Rightarrow> string \<Rightarrow> bool) option"
  e_observeReview :: "(nat \<Rightarrow> string \<Rightarrow> string \<Rightarrow> string \<Rightarrow> review_observation option) option"
  e_requiredVerification ::
    "(nat \<Rightarrow> string \<Rightarrow> string \<Rightarrow> string \<Rightarrow> attempt_revision \<Rightarrow> required_verification_set option res) option"

text \<open>\<^verbatim>\<open>Authority\<close>: path, binding and the schema version its reader accepts.\<close>

record authority =
  a_path :: string
  a_binding :: binding
  a_version :: nat

definition mint :: "env \<Rightarrow> nat \<Rightarrow> string res" where
  "mint E i = from_option (e_mint E i) ErrStorage"

definition identity :: "env \<Rightarrow> string \<Rightarrow> string \<Rightarrow> jval \<Rightarrow> string" where
  "identity E action sess req = e_hash E (action @ [CHR 0x00] @ sess @ [CHR 0x00] @ e_json E req)"

definition owner_ok :: "env \<Rightarrow> state \<Rightarrow> string \<Rightarrow> bool" where
  "owner_ok E s owner' \<longleftrightarrow> length owner' = 64 \<and> e_hash E owner' = OwnerHash s"

text \<open>\<^verbatim>\<open>checkout.Observe\<close> and \<^verbatim>\<open>checkout.ObserveRepositoryIdentity\<close> as the \<open>i\<close>-th observation of
  an operation, made at instant \<open>t\<close>.\<close>

definition Observe :: "env \<Rightarrow> nat \<Rightarrow> int \<Rightarrow> string \<Rightarrow> observation res" where
  "Observe E i t locator = observe (e_fs E) (e_git E i) (e_environ E) t locator False"

definition ObserveRepositoryIdentity :: "env \<Rightarrow> nat \<Rightarrow> int \<Rightarrow> string \<Rightarrow> observation res" where
  "ObserveRepositoryIdentity E i t locator = observe (e_fs E) (e_git E i) (e_environ E) t locator True"

section \<open>A concrete environment\<close>

text \<open>Used by the witnesses: a clock that stands at 10, distinct 64-byte identifiers, an identity
  hash, an encoder that keeps the first string field, a canonical file system, a clean checkout and
  an admission that accepts.\<close>

definition sample_id :: "nat \<Rightarrow> string" where
  "sample_id i = replicate 63 CHR ''0'' @ [char_of (97 + i)]"

definition sample_json :: "jval \<Rightarrow> string" where
  "sample_json v = (case v of JO ((k, JS x) # fs) \<Rightarrow> x | _ \<Rightarrow> ''j'')"

definition sample_env :: env where
  "sample_env = \<lparr>e_now = (\<lambda>_. 10), e_mint = (\<lambda>i. Some (sample_id i)), e_hash = (\<lambda>x. x), e_json = sample_json,
     e_fs = sample_fs, e_git = (\<lambda>_. sample_git), e_environ = [],
     e_admitLease = Some (\<lambda>_ _ _. True), e_admitCapability = Some (\<lambda>_ _ _ _ _. True),
     e_observeReview = None, e_requiredVerification = None\<rparr>"

end
