(* ===== verification/Authority_Store.thy ===== *)
theory Authority_Store
  imports Kernel_State
begin

text \<open>
  The durable store of the authority: schema validation, decoding, the lock-read-run-persist
  transaction every operation goes through, create-once bootstrap and the owner's schema upgrades
  (\<^verbatim>\<open>sessions.go\<close>, \<^verbatim>\<open>authority_io.go\<close> and the \<^verbatim>\<open>Upgrade*\<close> methods). A document is the decoded
  aggregate together with the names of its non-nil maps; the byte encoding, the lock file and the
  file system calls are parameters of a transaction.
\<close>

section \<open>Documents\<close>

record document =
  doc_state :: state
  doc_present :: "string list"

datatype authority_file = Absent | Corrupt | Stored document

text \<open>The groups of maps of \<^verbatim>\<open>validateAuthorityMaps\<close>, in source order: the schema version that
  introduces the group, its names, and the error reported when a document of an older version has
  one of them or a document of that version lacks one.\<close>

definition schema_groups_first :: "(nat \<times> string list \<times> error) list" where
  "schema_groups_first =
    [(19, [''NativeExternalPolicies'', ''NativeExternalHistory'', ''NativeExternalOperations''], ErrStorage),
     (18, [''NativeIntegrationPolicies'', ''NativeIntegrationHistory'', ''NativeIntegrationOperations''], ErrStorage),
     (7, [''SwarmPolicies'', ''Dispatches'', ''SwarmOperations''], ErrStorage),
     (8, [''DispatchIntents'', ''DispatchIntentOperations''], ErrStorage),
     (9, [''LifecyclePolicyHistory'', ''LifecyclePolicies'', ''LifecycleObservations'',
          ''LifecycleCancellations'', ''LifecycleOperations''], ErrStorage),
     (10, [''RecoveryPolicies'', ''RecoveryPolicyHistory'', ''Recoveries'', ''RecoveryOperations''], ErrStorage)]"

definition schema_groups_rest :: "(nat \<times> string list \<times> error) list" where
  "schema_groups_rest =
    [(12, [''CheckpointPolicies'', ''CheckpointPolicyHistory'', ''Checkpoints'', ''CheckpointOperations''], ErrDenied),
     (17, [''ModelRoutingPolicies'', ''ModelRoutingHistory'', ''ModelRoutingSelections''], ErrDenied),
     (16, [''ControllerPolicies'', ''ControllerPolicyHistory'', ''ControllerInvocations'',
           ''ControllerHistory'', ''ControllerOperations''], ErrStorage),
     (15, [''NativePolicies'', ''NativePolicyHistory'', ''NativePolicyDecisions'', ''NativePolicyApprovals'',
           ''NativePolicyConsumptions'', ''NativePolicyOutcomes''], ErrDenied),
     (14, [''TaskTerminals'', ''NativeAcceptanceOperations''], ErrDenied),
     (13, [''BudgetPolicies'', ''BudgetPolicyHistory'', ''BudgetAllocations'', ''BudgetOperations''], ErrStorage),
     (11, [''PreflightPolicies'', ''PreflightPolicyHistory'', ''CapacityOverrides'', ''PreflightOperations'',
           ''PreflightRetryBudgets''], ErrStorage)]"

text \<open>The maps \<^verbatim>\<open>decodeAuthorityState\<close> itself requires from a version on.\<close>

definition base_groups :: "(nat \<times> string list \<times> error) list" where
  "base_groups =
    [(0, [''Sessions''], ErrStorage),
     (2, [''Tasks'', ''Attempts''], ErrStorage),
     (3, [''Leases'', ''Operations''], ErrStorage),
     (4, [''Revisions'', ''Grants'', ''Evidence''], ErrStorage),
     (5, [''ReviewGrants'', ''Reviews''], ErrStorage),
     (6, [''PublicationPolicies'', ''PublicationDecisions'', ''PublicationConsumed''], ErrStorage)]"

definition group_present :: "string list \<Rightarrow> string list \<Rightarrow> bool" where
  "group_present present names \<longleftrightarrow> list_all (\<lambda>f. f \<in> set present) names"

definition group_absent :: "string list \<Rightarrow> string list \<Rightarrow> bool" where
  "group_absent present names \<longleftrightarrow> list_all (\<lambda>f. f \<notin> set present) names"

text \<open>The two checks of one group.\<close>

fun check_groups :: "nat \<Rightarrow> string list \<Rightarrow> (nat \<times> string list \<times> error) list \<Rightarrow> unit res" where
  "check_groups version present [] = Inr ()"
| "check_groups version present ((v, names, e) # gs) =
     require (\<not> (version < v \<and> \<not> group_absent present names)) e (
     require (\<not> (v \<le> version \<and> \<not> group_present present names)) e (
     check_groups version present gs))"

definition validateAuthorityMaps :: "document \<Rightarrow> unit res" where
  "validateAuthorityMaps d =
     (let version = Version (doc_state d); present = doc_present d
      in bindr (check_groups version present schema_groups_first) (\<lambda>_.
         require (\<not> (version < 12 \<and> list_ex (\<lambda>p. op_CheckpointVerification p \<noteq> None)
            (gvals (Operations (doc_state d))))) ErrDenied (
         check_groups version present schema_groups_rest)))"

definition decodeAuthorityState :: "document \<Rightarrow> binding \<Rightarrow> nat \<Rightarrow> document res" where
  "decodeAuthorityState d b version =
     (let s = doc_state d
      in require (\<not> (Version s \<noteq> version \<and>
              \<not> (6 \<le> version \<and> version \<le> 12 \<and> version \<le> Version s \<and> Version s \<le> 19))) ErrStorage (
         require (Binding s = b \<and> OwnerHash s \<noteq> '''') ErrStorage (
         require (list_all (\<lambda>(v, names, e). v \<le> Version s \<longrightarrow> group_present (doc_present d) names) base_groups)
           ErrStorage (
         bindr (validateAuthorityMaps d) (\<lambda>_. Inr d)))))"

section \<open>Transactions\<close>

text \<open>\<^verbatim>\<open>persist\<close> replaces the file by an atomic rename: it may fail before the rename, or report an
  error after it, when the directory cannot be synced.\<close>

datatype persist_outcome = Persisted | PersistFailed | RenamedUnsynced

record store_io =
  io_locked :: bool
  io_regular :: bool
  io_readable :: bool
  io_encoded :: "document \<Rightarrow> int option"
  io_persist :: persist_outcome

definition MaxAuthorityBytes :: int where
  "MaxAuthorityBytes = 32 * 1024 * 1024"

definition empty_state :: "binding \<Rightarrow> nat \<Rightarrow> state" where
  "empty_state b version = \<lparr>Version = version, Binding = b, OwnerHash = '''', Sessions = [], Tasks = [],
     Attempts = [], Leases = [], Operations = [], Fence = 0, Revisions = [], Grants = [], Evidence = [],
     ReviewGrants = [], Reviews = [], PublicationPolicies = [], PublicationDecisions = [],
     PublicationConsumed = [], SwarmPolicies = [], Dispatches = [], DispatchIntents = [],
     DispatchIntentOperations = [], LifecyclePolicyHistory = [], LifecyclePolicies = [],
     LifecycleObservations = [], LifecycleCancellations = [], LifecycleOperations = [],
     RecoveryPolicyHistory = [], RecoveryPolicies = [], Recoveries = [], RecoveryOperations = [],
     TaskTerminals = []\<rparr>"

definition base_fields :: "string list" where
  "base_fields = concat (map (\<lambda>(v, names, e). names) base_groups)"

definition swarm_fields :: "string list" where
  "swarm_fields = [''SwarmPolicies'', ''Dispatches'', ''SwarmOperations'']"

definition fresh_document :: "authority \<Rightarrow> document" where
  "fresh_document a = \<lparr>doc_state = empty_state (a_binding a) (a_version a),
     doc_present = base_fields @ (if 7 \<le> a_version a then swarm_fields else [])\<rparr>"

definition load_document :: "store_io \<Rightarrow> authority \<Rightarrow> bool \<Rightarrow> authority_file \<Rightarrow> document res" where
  "load_document io a create file =
     require (io_locked io \<and> io_regular io) ErrStorage (
     if create then
       (if file = Absent then bindr (validateAuthorityMaps (fresh_document a)) (\<lambda>_. Inr (fresh_document a))
        else Inl ErrDenied)
     else
       (case file of
          Stored d \<Rightarrow> require (io_readable io) ErrStorage (decodeAuthorityState d (a_binding a) (a_version a))
        | _ \<Rightarrow> Inl ErrStorage))"

definition persist_document :: "store_io \<Rightarrow> document \<Rightarrow> authority_file \<Rightarrow> unit res \<times> authority_file" where
  "persist_document io d file =
     (case io_encoded io d of
        None \<Rightarrow> (Inl ErrStorage, file)
      | Some n \<Rightarrow>
          if MaxAuthorityBytes < n then (Inl ErrStorage, file)
          else (case io_persist io of
                  Persisted \<Rightarrow> (Inr (), Stored d)
                | PersistFailed \<Rightarrow> (Inl ErrStorage, file)
                | RenamedUnsynced \<Rightarrow> (Inl ErrStorage, Stored d)))"

definition transaction ::
    "store_io \<Rightarrow> authority \<Rightarrow> bool \<Rightarrow> bool \<Rightarrow> (document \<Rightarrow> ('r \<times> document) res) \<Rightarrow> authority_file
     \<Rightarrow> 'r res \<times> authority_file" where
  "transaction io a create write fn file =
     (case bindr (load_document io a create file) fn of
        Inl e \<Rightarrow> (Inl e, file)
      | Inr (r, d) \<Rightarrow>
          if \<not> write then (Inr r, file)
          else if \<not> create \<and> OwnerHash (doc_state d) = '''' then (Inl ErrStorage, file)
          else (case persist_document io d file of
                  (Inl e, file') \<Rightarrow> (Inl e, file')
                | (Inr _, file') \<Rightarrow> (Inr r, file')))"

text \<open>A handler on the aggregate as a transaction body: which maps are allocated does not change.\<close>

definition on_state :: "(state \<Rightarrow> ('r \<times> state) res) \<Rightarrow> document \<Rightarrow> ('r \<times> document) res" where
  "on_state h d = bindr (h (doc_state d)) (\<lambda>(r, s). Inr (r, d\<lparr>doc_state := s\<rparr>))"

section \<open>Opening and bootstrap\<close>

text \<open>\<^verbatim>\<open>Open\<close>: an absolute path whose directory resolves, an absent or regular file, a nonempty
  binding; the reader starts at schema 6.\<close>

definition path_dir :: "string \<Rightarrow> string" where
  "path_dir p = path_clean (rev (dropWhile (\<lambda>c. c \<noteq> CHR ''/'') (rev p)))"

definition path_base :: "string \<Rightarrow> string" where
  "path_base p = (let q = rev (dropWhile (\<lambda>c. c = CHR ''/'') (rev p))
     in if p = '''' then ''.'' else if q = '''' then ''/'' else rev (takeWhile (\<lambda>c. c \<noteq> CHR ''/'') (rev q)))"

definition regularOrAbsent :: "filesystem \<Rightarrow> string \<Rightarrow> bool" where
  "regularOrAbsent fs p \<longleftrightarrow> fs_lstat fs p \<in> {Missing, Entry Regular}"

definition Open :: "filesystem \<Rightarrow> string \<Rightarrow> binding \<Rightarrow> authority res" where
  "Open fs path b =
     require (is_abs path \<and> b_Workspace b \<noteq> '''' \<and> b_Installation b \<noteq> '''') ErrDenied (
     bindr (from_option (fs_evalSymlinks fs (path_dir path)) ErrStorage) (\<lambda>parent.
     let p = path_join parent (path_base path)
     in require (regularOrAbsent fs p) ErrStorage (
        Inr \<lparr>a_path = p, a_binding = b, a_version = 6\<rparr>)))"

text \<open>\<^verbatim>\<open>OpenCurrent\<close> selects the exact version of the stored document and reads it once;
  \<^verbatim>\<open>OpenSwarm\<close> raises the floor of a schema-6 reader to 7.\<close>

definition OpenCurrent ::
    "filesystem \<Rightarrow> store_io \<Rightarrow> string \<Rightarrow> binding \<Rightarrow> authority_file \<Rightarrow> authority res" where
  "OpenCurrent fs io path b file =
     bindr (Open fs path b) (\<lambda>a.
     case file of
       Stored d \<Rightarrow>
         require (io_readable io) ErrStorage (
         require (6 \<le> Version (doc_state d) \<and> Version (doc_state d) \<le> 20) ErrStorage (
         let a' = a\<lparr>a_version := Version (doc_state d)\<rparr>
         in bindr (fst (transaction io a' False False (\<lambda>d. Inr ((), d)) file)) (\<lambda>_. Inr a')))
     | _ \<Rightarrow> Inl ErrStorage)"

definition OpenSwarm ::
    "filesystem \<Rightarrow> store_io \<Rightarrow> string \<Rightarrow> binding \<Rightarrow> authority_file \<Rightarrow> authority res" where
  "OpenSwarm fs io path b file =
     bindr (OpenCurrent fs io path b file) (\<lambda>a.
       Inr (if a_version a = 6 then a\<lparr>a_version := 7\<rparr> else a))"

definition Bootstrap :: "env \<Rightarrow> store_io \<Rightarrow> authority \<Rightarrow> authority_file \<Rightarrow> string res \<times> authority_file" where
  "Bootstrap E io a file =
     (case mint E 0 of
        Inl e \<Rightarrow> (Inl e, file)
      | Inr token \<Rightarrow> transaction io a True True
          (on_state (\<lambda>s. Inr (token, s\<lparr>OwnerHash := e_hash E token\<rparr>))) file)"

section \<open>Owner schema upgrades\<close>

text \<open>Every upgrade runs with the reader of the version it leaves, authenticates the owner and
  allocates maps; the schema-1 to schema-5 upgrades go straight to schema 6.\<close>

definition allocate :: "string list \<Rightarrow> nat \<Rightarrow> document \<Rightarrow> document" where
  "allocate names version d = d\<lparr>doc_state := (doc_state d)\<lparr>Version := version\<rparr>,
     doc_present := names @ doc_present d\<rparr>"

definition initialize_publication :: "state \<Rightarrow> state" where
  "initialize_publication s = s\<lparr>PublicationPolicies := [], PublicationDecisions := [], PublicationConsumed := []\<rparr>"

definition initialize_evidence :: "state \<Rightarrow> state" where
  "initialize_evidence s = s\<lparr>Revisions := [], Grants := [], Evidence := []\<rparr>"

definition initialize_reviews :: "state \<Rightarrow> state" where
  "initialize_reviews s = s\<lparr>ReviewGrants := [], Reviews := []\<rparr>"

definition publication_fields' :: "string list" where
  "publication_fields' = [''PublicationPolicies'', ''PublicationDecisions'', ''PublicationConsumed'']"

definition evidence_fields :: "string list" where
  "evidence_fields = [''Revisions'', ''Grants'', ''Evidence'']"

definition review_fields :: "string list" where
  "review_fields = [''ReviewGrants'', ''Reviews'']"

definition upgrade_with :: "env \<Rightarrow> string \<Rightarrow> (document \<Rightarrow> document) \<Rightarrow> document \<Rightarrow> (unit \<times> document) res" where
  "upgrade_with E owner' f d = require (owner_ok E (doc_state d) owner') ErrDenied (Inr ((), f d))"

definition Upgrade :: "env \<Rightarrow> store_io \<Rightarrow> authority \<Rightarrow> string \<Rightarrow> authority_file \<Rightarrow> unit res \<times> authority_file" where
  "Upgrade E io a owner' = transaction io (a\<lparr>a_version := 1\<rparr>) False True (upgrade_with E owner' (\<lambda>d.
     allocate (publication_fields' @ evidence_fields @ review_fields
         @ [''Leases'', ''Operations'', ''Tasks'', ''Attempts'']) 6
       (d\<lparr>doc_state := (initialize_reviews (initialize_evidence (initialize_publication (doc_state d))))
            \<lparr>Leases := [], Operations := [], Tasks := [], Attempts := []\<rparr>\<rparr>)))"

definition UpgradeLeases :: "env \<Rightarrow> store_io \<Rightarrow> authority \<Rightarrow> string \<Rightarrow> authority_file \<Rightarrow> unit res \<times> authority_file" where
  "UpgradeLeases E io a owner' = transaction io (a\<lparr>a_version := 2\<rparr>) False True (upgrade_with E owner' (\<lambda>d.
     allocate (publication_fields' @ evidence_fields @ review_fields @ [''Leases'', ''Operations'']) 6
       (d\<lparr>doc_state := (initialize_reviews (initialize_evidence (initialize_publication (doc_state d))))
            \<lparr>Leases := [], Operations := [], Fence := 0\<rparr>\<rparr>)))"

definition UpgradeEvidence :: "env \<Rightarrow> store_io \<Rightarrow> authority \<Rightarrow> string \<Rightarrow> authority_file \<Rightarrow> unit res \<times> authority_file" where
  "UpgradeEvidence E io a owner' = transaction io (a\<lparr>a_version := 3\<rparr>) False True (upgrade_with E owner' (\<lambda>d.
     allocate (evidence_fields @ review_fields @ publication_fields') 6
       (d\<lparr>doc_state := initialize_publication (initialize_reviews (initialize_evidence (doc_state d)))\<rparr>)))"

definition UpgradeReviews :: "env \<Rightarrow> store_io \<Rightarrow> authority \<Rightarrow> string \<Rightarrow> authority_file \<Rightarrow> unit res \<times> authority_file" where
  "UpgradeReviews E io a owner' = transaction io (a\<lparr>a_version := 4\<rparr>) False True (upgrade_with E owner' (\<lambda>d.
     allocate (review_fields @ publication_fields') 6
       (d\<lparr>doc_state := initialize_publication (initialize_reviews (doc_state d))\<rparr>)))"

definition UpgradePublication :: "env \<Rightarrow> store_io \<Rightarrow> authority \<Rightarrow> string \<Rightarrow> authority_file \<Rightarrow> unit res \<times> authority_file" where
  "UpgradePublication E io a owner' = transaction io (a\<lparr>a_version := 5\<rparr>) False True (upgrade_with E owner' (\<lambda>d.
     allocate publication_fields' 6 (d\<lparr>doc_state := initialize_publication (doc_state d)\<rparr>)))"

text \<open>The upgrades from schema 6 on also insist on the exact version they leave (the schema-6 reader
  accepts later documents).\<close>

definition upgrade_from :: "nat \<Rightarrow> env \<Rightarrow> string \<Rightarrow> (document \<Rightarrow> document) \<Rightarrow> document \<Rightarrow> (unit \<times> document) res" where
  "upgrade_from v E owner' f d =
     require (Version (doc_state d) = v \<and> owner_ok E (doc_state d) owner') ErrDenied (Inr ((), f d))"

definition UpgradeSwarms :: "env \<Rightarrow> store_io \<Rightarrow> authority \<Rightarrow> string \<Rightarrow> authority_file \<Rightarrow> unit res \<times> authority_file" where
  "UpgradeSwarms E io a owner' = transaction io (a\<lparr>a_version := 6\<rparr>) False True (\<lambda>d.
     bindr (upgrade_from 6 E owner' (\<lambda>d. d) d) (\<lambda>_.
     require (group_absent (doc_present d) swarm_fields) ErrStorage (
     Inr ((), allocate swarm_fields 7 (d\<lparr>doc_state := (doc_state d)\<lparr>SwarmPolicies := [], Dispatches := []\<rparr>\<rparr>)))))"

definition UpgradeDispatchIntents ::
    "env \<Rightarrow> store_io \<Rightarrow> authority \<Rightarrow> string \<Rightarrow> authority_file \<Rightarrow> unit res \<times> authority_file" where
  "UpgradeDispatchIntents E io a owner' = transaction io (a\<lparr>a_version := 7\<rparr>) False True
     (upgrade_from 7 E owner' (\<lambda>d. allocate [''DispatchIntents'', ''DispatchIntentOperations''] 8
       (d\<lparr>doc_state := (doc_state d)\<lparr>DispatchIntents := [], DispatchIntentOperations := []\<rparr>\<rparr>)))"

definition UpgradeLifecycle :: "env \<Rightarrow> store_io \<Rightarrow> authority \<Rightarrow> string \<Rightarrow> authority_file \<Rightarrow> unit res \<times> authority_file" where
  "UpgradeLifecycle E io a owner' = transaction io (a\<lparr>a_version := 8\<rparr>) False True
     (upgrade_from 8 E owner' (\<lambda>d. allocate [''LifecyclePolicyHistory'', ''LifecyclePolicies'',
         ''LifecycleObservations'', ''LifecycleCancellations'', ''LifecycleOperations''] 9
       (d\<lparr>doc_state := (doc_state d)\<lparr>LifecyclePolicyHistory := [], LifecyclePolicies := [],
            LifecycleObservations := [], LifecycleCancellations := [], LifecycleOperations := []\<rparr>\<rparr>)))"

definition UpgradeRecovery :: "env \<Rightarrow> store_io \<Rightarrow> authority \<Rightarrow> string \<Rightarrow> authority_file \<Rightarrow> unit res \<times> authority_file" where
  "UpgradeRecovery E io a owner' = transaction io (a\<lparr>a_version := 9\<rparr>) False True
     (upgrade_from 9 E owner' (\<lambda>d. allocate [''RecoveryPolicies'', ''RecoveryPolicyHistory'',
         ''Recoveries'', ''RecoveryOperations''] 10
       (d\<lparr>doc_state := (doc_state d)\<lparr>RecoveryPolicies := [], RecoveryPolicyHistory := [],
            Recoveries := [], RecoveryOperations := []\<rparr>\<rparr>)))"

definition UpgradeNativeAcceptance ::
    "env \<Rightarrow> store_io \<Rightarrow> authority \<Rightarrow> string \<Rightarrow> authority_file \<Rightarrow> unit res \<times> authority_file" where
  "UpgradeNativeAcceptance E io a owner' = transaction io a False True
     (upgrade_from 13 E owner' (\<lambda>d. allocate [''TaskTerminals'', ''NativeAcceptanceOperations''] 14
       (d\<lparr>doc_state := (doc_state d)\<lparr>TaskTerminals := []\<rparr>\<rparr>)))"

section \<open>Lemmas\<close>

definition all_groups :: "(nat \<times> string list \<times> error) list" where
  "all_groups = base_groups @ schema_groups_first @ schema_groups_rest"

text \<open>A presence list agrees with a schema version on a list of groups.\<close>

definition schema_agrees :: "nat \<Rightarrow> string list \<Rightarrow> (nat \<times> string list \<times> error) list \<Rightarrow> bool" where
  "schema_agrees version present gs \<longleftrightarrow>
     list_all (\<lambda>(v, names, e). if v \<le> version then group_present present names else group_absent present names) gs"

lemma check_groups_Inr [simp]: "check_groups version present gs = Inr u \<longleftrightarrow> schema_agrees version present gs"
  by (induction version present gs rule: check_groups.induct) (auto simp: schema_agrees_def)

lemma validate_Inr:
  "validateAuthorityMaps d = Inr u \<longleftrightarrow>
     schema_agrees (Version (doc_state d)) (doc_present d) schema_groups_first
   \<and> schema_agrees (Version (doc_state d)) (doc_present d) schema_groups_rest
   \<and> (Version (doc_state d) < 12 \<longrightarrow>
        (\<forall>p \<in> set (gvals (Operations (doc_state d))). op_CheckpointVerification p = None))"
  by (auto simp: validateAuthorityMaps_def Let_def list_ex_iff)

lemma decode_Inr:
  "decodeAuthorityState d b version = Inr d' \<longleftrightarrow> d' = d
   \<and> (Version (doc_state d) = version
      \<or> 6 \<le> version \<and> version \<le> 12 \<and> version \<le> Version (doc_state d) \<and> Version (doc_state d) \<le> 19)
   \<and> Binding (doc_state d) = b \<and> OwnerHash (doc_state d) \<noteq> ''''
   \<and> list_all (\<lambda>(v, names, e). v \<le> Version (doc_state d) \<longrightarrow> group_present (doc_present d) names) base_groups
   \<and> validateAuthorityMaps d = Inr ()"
  by (auto simp: decodeAuthorityState_def Let_def)

lemma on_state_Inr [simp]: "on_state h d = Inr x \<longleftrightarrow> (\<exists>r s. h (doc_state d) = Inr (r, s) \<and> x = (r, d\<lparr>doc_state := s\<rparr>))"
  by (auto simp: on_state_def)

lemma load_create_Inr:
  "load_document io a True file = Inr d \<Longrightarrow> file = Absent \<and> d = fresh_document a \<and> validateAuthorityMaps d = Inr ()"
  by (auto simp: load_document_def split: if_splits)

lemma load_stored_Inr:
  "load_document io a False file = Inr d \<longleftrightarrow>
     io_locked io \<and> io_regular io \<and> io_readable io \<and> file = Stored d
     \<and> decodeAuthorityState d (a_binding a) (a_version a) = Inr d"
  by (auto simp: load_document_def decode_Inr split: authority_file.splits)

lemma transaction_Inr:
  "transaction io a create write fn file = (Inr r, file') \<Longrightarrow>
     \<exists>d d'. load_document io a create file = Inr d \<and> fn d = Inr (r, d')
       \<and> file' = (if write then Stored d' else file)"
  by (auto simp: transaction_def persist_document_def
      split: sum.splits if_splits option.splits persist_outcome.splits prod.splits)

lemma transaction_Inl:
  "transaction io a create write fn file = (Inl e, file') \<Longrightarrow>
     file' = file \<or>
     write \<and> e = ErrStorage \<and> io_persist io = RenamedUnsynced \<and>
       (\<exists>r d. bindr (load_document io a create file) fn = Inr (r, d) \<and> file' = Stored d)"
  by (auto simp: transaction_def persist_document_def
      split: sum.splits if_splits option.splits persist_outcome.splits prod.splits)

section \<open>Properties\<close>


text \<open>A healthy store, for the witnesses.\<close>

definition healthy_io :: store_io where
  "healthy_io = \<lparr>io_locked = True, io_regular = True, io_readable = True, io_encoded = (\<lambda>_. Some 0),
     io_persist = Persisted\<rparr>"

definition sample_authority :: authority where
  "sample_authority = \<lparr>a_path = ''/a'', a_binding = \<lparr>b_Workspace = ''w'', b_Installation = ''i''\<rparr>, a_version = 6\<rparr>"

lemma fresh_validates: "a_version a = 6 \<or> a_version a = 7 \<Longrightarrow> validateAuthorityMaps (fresh_document a) = Inr ()"
  by (auto simp: validate_Inr fresh_document_def schema_agrees_def schema_groups_first_def
      schema_groups_rest_def base_fields_def base_groups_def swarm_fields_def group_absent_def
      group_present_def empty_state_def gvals_def)


text \<open>The owner, the binding, the sessions, the receipts and the fence survive every upgrade.\<close>

definition carried_over :: "document \<Rightarrow> document \<Rightarrow> bool" where
  "carried_over d d' \<longleftrightarrow>
     (let s = doc_state d; t = doc_state d'
      in OwnerHash t = OwnerHash s \<and> Binding t = Binding s \<and> Sessions t = Sessions s
       \<and> (2 \<le> Version s \<longrightarrow> Tasks t = Tasks s \<and> Attempts t = Attempts s)
       \<and> (3 \<le> Version s \<longrightarrow> Leases t = Leases s \<and> Operations t = Operations s \<and> Fence t = Fence s)
       \<and> (4 \<le> Version s \<longrightarrow> Revisions t = Revisions s \<and> Grants t = Grants s \<and> Evidence t = Evidence s)
       \<and> (5 \<le> Version s \<longrightarrow> ReviewGrants t = ReviewGrants s \<and> Reviews t = Reviews s)
       \<and> (6 \<le> Version s \<longrightarrow> PublicationPolicies t = PublicationPolicies s
            \<and> PublicationDecisions t = PublicationDecisions s \<and> PublicationConsumed t = PublicationConsumed s)
       \<and> (7 \<le> Version s \<longrightarrow> SwarmPolicies t = SwarmPolicies s \<and> Dispatches t = Dispatches s)
       \<and> (8 \<le> Version s \<longrightarrow> DispatchIntents t = DispatchIntents s)
       \<and> (9 \<le> Version s \<longrightarrow> LifecycleObservations t = LifecycleObservations s
            \<and> LifecycleCancellations t = LifecycleCancellations s)
       \<and> (10 \<le> Version s \<longrightarrow> Recoveries t = Recoveries s))"

definition upgraded :: "binding \<Rightarrow> nat \<Rightarrow> authority_file \<Rightarrow> authority_file \<Rightarrow> bool" where
  "upgraded b v file file' \<longleftrightarrow> (\<exists>d d'. file = Stored d \<and> file' = Stored d' \<and> Version (doc_state d') = v
     \<and> decodeAuthorityState d' b v = Inr d' \<and> carried_over d d')"

text \<open>Allocating the groups between two versions, and nothing of a later one, moves a presence list
  from the one version to the other.\<close>

lemma agrees_allocate:
  assumes "schema_agrees v present gs" "v \<le> v'"
    and "list_all (\<lambda>(w, ns, e). v < w \<and> w \<le> v' \<longrightarrow> list_all (\<lambda>f. f \<in> set names) ns) gs"
    and "list_all (\<lambda>(w, ns, e). v' < w \<longrightarrow> list_all (\<lambda>f. f \<notin> set names) ns) gs"
  shows "schema_agrees v' (names @ present) gs"
  using assms
  by (fastforce simp: schema_agrees_def list_all_iff group_present_def group_absent_def split: if_splits)

definition base_agrees :: "nat \<Rightarrow> string list \<Rightarrow> bool" where
  "base_agrees v present \<longleftrightarrow> list_all (\<lambda>(w, ns, e). w \<le> v \<longrightarrow> group_present present ns) base_groups"

lemma base_allocate:
  assumes "base_agrees v present"
    and "list_all (\<lambda>(w, ns, e). v < w \<and> w \<le> v' \<longrightarrow> list_all (\<lambda>f. f \<in> set names) ns) base_groups"
  shows "base_agrees v' (names @ present)"
  using assms by (fastforce simp: base_agrees_def list_all_iff group_present_def)

text \<open>The fields a step allocates are those of the groups it crosses.\<close>

definition crosses :: "nat \<Rightarrow> nat \<Rightarrow> string list \<Rightarrow> bool" where
  "crosses v v' names \<longleftrightarrow>
     list_all (\<lambda>(w, ns, e). v < w \<and> w \<le> v' \<longrightarrow> list_all (\<lambda>f. f \<in> set names) ns) all_groups
   \<and> list_all (\<lambda>(w, ns, e). v' < w \<longrightarrow> list_all (\<lambda>f. f \<notin> set names) ns) all_groups"

lemma decode_allocate:
  assumes "decodeAuthorityState d b r = Inr d" "Version (doc_state d) = v" "crosses v v' names" "v \<le> v'"
    and "OwnerHash s = OwnerHash (doc_state d)" "Binding s = Binding (doc_state d)"
    and "Operations s = Operations (doc_state d) \<or> Operations s = []"
  shows "decodeAuthorityState (allocate names v' (d\<lparr>doc_state := s\<rparr>)) b v' = Inr (allocate names v' (d\<lparr>doc_state := s\<rparr>))"
proof -
  have c: "list_all (\<lambda>(w, ns, e). v < w \<and> w \<le> v' \<longrightarrow> list_all (\<lambda>f. f \<in> set names) ns) gs"
    "list_all (\<lambda>(w, ns, e). v' < w \<longrightarrow> list_all (\<lambda>f. f \<notin> set names) ns) gs"
    if "gs \<in> {base_groups, schema_groups_first, schema_groups_rest}" for gs
    using assms(3) that by (auto simp: crosses_def all_groups_def)
  have "base_agrees v' (names @ doc_present d)"
    using assms(1,2) c(1) by (intro base_allocate [of v]) (auto simp: decode_Inr base_agrees_def)
  moreover have "schema_agrees v' (names @ doc_present d) schema_groups_first"
      "schema_agrees v' (names @ doc_present d) schema_groups_rest"
    using assms(1,2,4) c by (auto intro!: agrees_allocate [of v] simp: decode_Inr validate_Inr)
  moreover have "v' < 12 \<longrightarrow> (\<forall>p \<in> set (gvals (Operations s)). op_CheckpointVerification p = None)"
    using assms(1,2,4,7) by (auto simp: decode_Inr validate_Inr gvals_def)
  ultimately show ?thesis
    using assms(1,5,6) by (simp add: decode_Inr validate_Inr allocate_def base_agrees_def)
qed

lemma crossings:
  "crosses 6 7 swarm_fields"
  "crosses 7 8 [''DispatchIntents'', ''DispatchIntentOperations'']"
  "crosses 8 9 [''LifecyclePolicyHistory'', ''LifecyclePolicies'',
         ''LifecycleObservations'', ''LifecycleCancellations'', ''LifecycleOperations'']"
  "crosses 9 10 [''RecoveryPolicies'', ''RecoveryPolicyHistory'', ''Recoveries'', ''RecoveryOperations'']"
  "crosses 13 14 [''TaskTerminals'', ''NativeAcceptanceOperations'']"
  "crosses 1 6 (publication_fields' @ evidence_fields @ review_fields
         @ [''Leases'', ''Operations'', ''Tasks'', ''Attempts''])"
  "crosses 2 6 (publication_fields' @ evidence_fields @ review_fields @ [''Leases'', ''Operations''])"
  "crosses 3 6 (evidence_fields @ review_fields @ publication_fields')"
  "crosses 4 6 (review_fields @ publication_fields')"
  "crosses 5 6 publication_fields'"
  by code_simp+

lemmas upgrade_bodies = load_stored_Inr upgrade_from_def upgrade_with_def
  initialize_publication_def initialize_evidence_def initialize_reviews_def

lemma upgradedI:
  assumes "decodeAuthorityState d (a_binding a) r = Inr d" "Version (doc_state d) = v" "crosses v v' names" "v \<le> v'"
    and "OwnerHash s = OwnerHash (doc_state d)" "Binding s = Binding (doc_state d)"
    and "Operations s = Operations (doc_state d) \<or> Operations s = []"
    and "carried_over d (allocate names v' (d\<lparr>doc_state := s\<rparr>))"
    and "file = Stored d" "file' = Stored (allocate names v' (d\<lparr>doc_state := s\<rparr>))"
  shows "upgraded (a_binding a) v' file file'"
  using decode_allocate [OF assms(1-7)] assms(8-10) by (auto simp: upgraded_def allocate_def)

lemma reader_exact:
  "decodeAuthorityState d b r = Inr d \<Longrightarrow> r < 6 \<Longrightarrow> Version (doc_state d) = r"
  by (auto simp: decode_Inr)

lemma upgrade_steps:
  "UpgradeSwarms E io a t file = (Inr u, file') \<Longrightarrow> upgraded (a_binding a) 7 file file'"
  "UpgradeDispatchIntents E io a t file = (Inr u, file') \<Longrightarrow> upgraded (a_binding a) 8 file file'"
  "UpgradeLifecycle E io a t file = (Inr u, file') \<Longrightarrow> upgraded (a_binding a) 9 file file'"
  "UpgradeRecovery E io a t file = (Inr u, file') \<Longrightarrow> upgraded (a_binding a) 10 file file'"
  "UpgradeNativeAcceptance E io a t file = (Inr u, file') \<Longrightarrow> upgraded (a_binding a) 14 file file'"
  unfolding UpgradeSwarms_def UpgradeDispatchIntents_def UpgradeLifecycle_def UpgradeRecovery_def
    UpgradeNativeAcceptance_def
  by (drule transaction_Inr; clarsimp simp: upgrade_bodies;
      rule upgradedI [OF _ _ crossings(1)] upgradedI [OF _ _ crossings(2)] upgradedI [OF _ _ crossings(3)]
        upgradedI [OF _ _ crossings(4)] upgradedI [OF _ _ crossings(5)];
      (rule refl)?; assumption?; simp add: carried_over_def Let_def allocate_def)+

lemma upgrade_to_six:
  "Upgrade E io a t file = (Inr u, file') \<Longrightarrow> upgraded (a_binding a) 6 file file'"
  "UpgradeLeases E io a t file = (Inr u, file') \<Longrightarrow> upgraded (a_binding a) 6 file file'"
  "UpgradeEvidence E io a t file = (Inr u, file') \<Longrightarrow> upgraded (a_binding a) 6 file file'"
  "UpgradeReviews E io a t file = (Inr u, file') \<Longrightarrow> upgraded (a_binding a) 6 file file'"
  "UpgradePublication E io a t file = (Inr u, file') \<Longrightarrow> upgraded (a_binding a) 6 file file'"
  unfolding Upgrade_def UpgradeLeases_def UpgradeEvidence_def UpgradeReviews_def UpgradePublication_def
  by (drule transaction_Inr; clarsimp simp: upgrade_bodies; frule reader_exact, simp;
      rule upgradedI [OF _ _ crossings(6)] upgradedI [OF _ _ crossings(7)] upgradedI [OF _ _ crossings(8)]
        upgradedI [OF _ _ crossings(9)] upgradedI [OF _ _ crossings(10)];
      (rule refl)?; assumption?; simp add: carried_over_def Let_def allocate_def)+

text \<open>Schema upgrades are complete and lossless: an owner upgrade that reports success found a
  document of the version it leaves, stored one that the reader of the new version accepts (its maps
  are exactly those of the new schema) for the same binding, and kept the owner, the sessions and
  every record the old schema had.\<close>

theorem upgrades_lossless:
  "\<forall>(upgrade, v) \<in> set [(Upgrade, 6), (UpgradeLeases, 6), (UpgradeEvidence, 6), (UpgradeReviews, 6),
       (UpgradePublication, 6), (UpgradeSwarms, 7), (UpgradeDispatchIntents, 8), (UpgradeLifecycle, 9),
       (UpgradeRecovery, 10), (UpgradeNativeAcceptance, 14)].
     \<forall>file'. upgrade E io a owner' file = (Inr (), file') \<longrightarrow>
       (\<exists>d d'. file = Stored d \<and> file' = Stored d' \<and> Version (doc_state d') = v
          \<and> decodeAuthorityState d' (a_binding a) v = Inr d' \<and> carried_over d d')"
  by (auto simp: upgraded_def dest!: upgrade_steps upgrade_to_six)

text \<open>Bootstrap is create-once: it succeeds only when no authority file exists, then the stored
  document has no session and authenticates exactly the returned token as its owner, and a second
  bootstrap of any authority is denied without touching the file.\<close>

theorem bootstrap_create_once:
  assumes "Bootstrap E io a file = (Inr token, file')"
  shows "file = Absent \<and> mint E 0 = Inr token \<and>
    (\<exists>d. file' = Stored d \<and> Sessions (doc_state d) = [] \<and> OwnerHash (doc_state d) = e_hash E token
       \<and> Version (doc_state d) = a_version a) \<and>
    (\<forall>E' io' a' token' e. Bootstrap E' io' a' file' \<noteq> (Inr token', e))
    \<and> (\<forall>E' a'. mint E' 0 \<noteq> Inl ErrStorage \<longrightarrow> Bootstrap E' healthy_io a' file' = (Inl ErrDenied, file'))"
proof -
  from assms obtain d where d: "file = Absent" "mint E 0 = Inr token"
      "file' = Stored ((fresh_document a)\<lparr>doc_state := (doc_state (fresh_document a))\<lparr>OwnerHash := e_hash E token\<rparr>\<rparr>)"
    by (auto simp: Bootstrap_def split: sum.splits dest!: transaction_Inr load_create_Inr)
  have again: "Bootstrap E' io' a' (Stored x) \<noteq> (Inr token', e)" for E' io' a' token' e x
    by (auto simp: Bootstrap_def split: sum.splits dest!: transaction_Inr load_create_Inr)
  have denied: "mint E' 0 \<noteq> Inl ErrStorage \<Longrightarrow> Bootstrap E' healthy_io a' (Stored x) = (Inl ErrDenied, Stored x)"
    for E' a' x
    by (auto simp: Bootstrap_def transaction_def load_document_def healthy_io_def mint_def from_option_def
        split: sum.splits option.splits)
  from d again denied show ?thesis by (simp add: fresh_document_def empty_state_def)
qed

definition sample_document :: document where
  "sample_document = (fresh_document sample_authority)
     \<lparr>doc_state := (empty_state (a_binding sample_authority) 6)\<lparr>OwnerHash := sample_id 0\<rparr>\<rparr>"

lemma sample_id_simps [simp]: "length (sample_id i) = 64" "sample_id i \<noteq> []"
  by (simp_all add: sample_id_def)

lemma sample_bootstrap:
  "Bootstrap sample_env healthy_io sample_authority Absent = (Inr (sample_id 0), Stored sample_document)"
proof -
  have "load_document healthy_io sample_authority True Absent = Inr (fresh_document sample_authority)"
    by (simp add: load_document_def healthy_io_def fresh_validates sample_authority_def)
  then show ?thesis
    by (simp add: Bootstrap_def transaction_def mint_def sample_env_def on_state_def persist_document_def
        MaxAuthorityBytes_def sample_document_def healthy_io_def)
       (simp add: fresh_document_def sample_authority_def)
qed

lemma sample_decodes:
  "decodeAuthorityState sample_document (a_binding sample_authority) 6 = Inr sample_document"
proof -
  have "validateAuthorityMaps sample_document = Inr ()"
    using fresh_validates [of sample_authority]
    by (simp add: sample_authority_def validate_Inr sample_document_def fresh_document_def empty_state_def)
  then show ?thesis
    by (simp add: decode_Inr sample_document_def fresh_document_def empty_state_def sample_authority_def
        base_fields_def base_groups_def group_present_def)
qed

theorem bootstrap_create_once_witness:
  "\<exists>d. Stored sample_document = Stored d \<and> OwnerHash (doc_state d) = sample_id 0"
  using bootstrap_create_once [OF sample_bootstrap] by (auto simp: sample_env_def)

definition sample_upgraded :: document where
  "sample_upgraded = allocate swarm_fields 7 (sample_document
     \<lparr>doc_state := (doc_state sample_document)\<lparr>SwarmPolicies := [], Dispatches := []\<rparr>\<rparr>)"

lemma sample_upgrade:
  "UpgradeSwarms sample_env healthy_io sample_authority (sample_id 0) (Stored sample_document)
   = (Inr (), Stored sample_upgraded)"
proof -
  have "load_document healthy_io (sample_authority\<lparr>a_version := 6\<rparr>) False (Stored sample_document)
      = Inr sample_document"
    using sample_decodes by (simp add: load_stored_Inr healthy_io_def sample_authority_def)
  moreover have "group_absent (doc_present sample_document) swarm_fields"
    by code_simp
  moreover have "owner_ok sample_env (doc_state sample_document) (sample_id 0)"
    by (simp add: owner_ok_def sample_env_def sample_document_def)
  moreover have "Version (doc_state sample_document) = 6" "OwnerHash (doc_state sample_document) = sample_id 0"
    by (simp_all add: sample_document_def empty_state_def)
  ultimately show ?thesis
    by (simp add: UpgradeSwarms_def transaction_def upgrade_from_def persist_document_def healthy_io_def
        MaxAuthorityBytes_def sample_upgraded_def allocate_def)
qed

theorem upgrades_lossless_witness:
  "\<exists>d d'. Stored sample_document = Stored d \<and> Stored sample_upgraded = Stored d'
     \<and> Version (doc_state d') = 7 \<and> OwnerHash (doc_state d') = OwnerHash (doc_state d)"
proof -
  have "(UpgradeSwarms, 7) \<in> set [(Upgrade, 6), (UpgradeLeases, 6), (UpgradeEvidence, 6), (UpgradeReviews, 6),
       (UpgradePublication, 6), (UpgradeSwarms, 7::nat), (UpgradeDispatchIntents, 8), (UpgradeLifecycle, 9),
       (UpgradeRecovery, 10), (UpgradeNativeAcceptance, 14)]"
    by simp
  from bspec [OF upgrades_lossless this] sample_upgrade show ?thesis
    by (fastforce simp: carried_over_def Let_def)
qed


definition failing_io :: store_io where
  "failing_io = healthy_io\<lparr>io_persist := PersistFailed\<rparr>"


end
