(* ===== verification/Session_Authority.thy ===== *)
theory Session_Authority
  imports Authority_Store
begin

text \<open>
  Session authentication and delegation (\<^verbatim>\<open>sessions.go\<close>), the lineage walks other files repeat over
  the same parent links (\<^verbatim>\<open>native_review.go\<close>, \<^verbatim>\<open>swarms.go\<close>, \<^verbatim>\<open>recovery.go\<close>,
  \<^verbatim>\<open>compatibility.go\<close>, \<^verbatim>\<open>native_controller.go\<close>), and the contract the walks share: a session is live
  when it and all its ancestors exist, are unrevoked and unexpired, up to an owner-enrolled root.
\<close>

section \<open>Scopes\<close>

definition subset :: "string list \<Rightarrow> string list \<Rightarrow> bool" where
  "subset child parent \<longleftrightarrow> list_all (\<lambda>v. list_ex (\<lambda>p. v = p) parent) child"

fun no_repeats :: "string list \<Rightarrow> string list \<Rightarrow> bool" where
  "no_repeats seen [] = True"
| "no_repeats seen (v # vs) = (if v = '''' \<or> v \<in> set seen then False else no_repeats (v # seen) vs)"

definition validScope :: "scope \<Rightarrow> bool" where
  "validScope s \<longleftrightarrow> sc_Actions s \<noteq> [] \<and> sc_Resources s \<noteq> []
     \<and> no_repeats [] (sc_Actions s) \<and> no_repeats [] (sc_Resources s)"

section \<open>Lineage walks\<close>

text \<open>The measure of the walks over records: unseen identifiers, and whether the current one is stored.\<close>

definition walk_measure :: "srecord gmap \<Rightarrow> string list \<Rightarrow> srecord \<Rightarrow> nat" where
  "walk_measure sessions seen cur = 2 * card (se_ID ` set (gvals sessions) - set seen)
     + (if se_ID cur \<in> se_ID ` set (gvals sessions) then 0 else 1)"

lemma walk_measure_decreases:
  assumes "se_ID cur \<notin> set seen" "gget sessions k = Some p"
  shows "walk_measure sessions (se_ID cur # seen) p < walk_measure sessions seen cur"
proof -
  let ?A = "se_ID ` set (gvals sessions)"
  have p: "se_ID p \<in> ?A" using assms(2) by (auto dest: gget_gvals)
  show ?thesis
  proof (cases "se_ID cur \<in> ?A")
    case True
    with assms(1) have "card (?A - set (se_ID cur # seen)) < card (?A - set seen)"
      by (intro psubset_card_mono) auto
    with True p show ?thesis by (simp add: walk_measure_def)
  next
    case False
    then have "?A - set (se_ID cur # seen) = ?A - set seen" by auto
    with False p show ?thesis by (simp add: walk_measure_def)
  qed
qed

text \<open>The loop of \<^verbatim>\<open>authenticate\<close> and \<^verbatim>\<open>rootSession\<close>: visits \<^verbatim>\<open>cur\<close> and its ancestors, refusing a
  repeated ID, a revoked or expired session and a missing parent; it ends at a session without a
  parent, whose ID is the answer.\<close>

function lineage_walk :: "srecord gmap \<Rightarrow> int \<Rightarrow> string list \<Rightarrow> srecord \<Rightarrow> string res" where
  "lineage_walk sessions now seen cur =
     (if se_ID cur \<in> set seen \<or> se_Revoked cur \<or> \<not> now < se_ExpiresAt cur then Inl ErrDenied
      else if se_Parent cur = '''' then Inr (se_ID cur)
      else (case gget sessions (se_Parent cur) of
              None \<Rightarrow> Inl ErrDenied
            | Some p \<Rightarrow> lineage_walk sessions now (se_ID cur # seen) p))"
  by pat_completeness auto
termination
  by (relation "measure (\<lambda>(sessions, now, seen, cur). walk_measure sessions seen cur)")
     (auto intro: walk_measure_decreases)

declare lineage_walk.simps [simp del]

definition authenticate :: "env \<Rightarrow> state \<Rightarrow> string \<Rightarrow> string \<Rightarrow> int \<Rightarrow> srecord res" where
  "authenticate E s token i now =
     fetch (Sessions s) i (\<lambda>r.
     require (length token = 64 \<and> e_hash E token = sr_Hash r) ErrDenied (
     bindr (lineage_walk (Sessions s) now [] r) (\<lambda>_. Inr r)))"

definition rootSession :: "state \<Rightarrow> string \<Rightarrow> int \<Rightarrow> (srecord \<times> string) res" where
  "rootSession s i now =
     fetch (Sessions s) i (\<lambda>r.
     bindr (lineage_walk (Sessions s) now [] r) (\<lambda>root. Inr (r, root)))"

text \<open>Walks keyed by the session identifier: the measure is the number of unseen keys.\<close>

lemma unseen_decreases:
  assumes "gget sessions i = Some r" "i \<notin> set seen"
  shows "card (set (map fst sessions) - insert i (set seen)) < card (set (map fst sessions) - set seen)"
proof (rule psubset_card_mono)
  have "i \<in> set (map fst sessions)"
    using assms(1) unfolding gget_def by (metis map_of_eq_None_iff not_None_eq set_map)
  with assms(2) show "set (map fst sessions) - insert i (set seen) \<subset> set (map fst sessions) - set seen"
    by auto
qed simp

text \<open>\<^verbatim>\<open>swarmLineageCurrent\<close> of \<^verbatim>\<open>swarms.go\<close>.\<close>

function swarm_lineage :: "srecord gmap \<Rightarrow> int \<Rightarrow> string list \<Rightarrow> string \<Rightarrow> bool" where
  "swarm_lineage sessions now seen i =
     (if i = '''' then True
      else (case gget sessions i of
              None \<Rightarrow> False
            | Some r \<Rightarrow>
                if i \<in> set seen \<or> se_Revoked r \<or> \<not> now < se_ExpiresAt r then False
                else swarm_lineage sessions now (i # seen) (se_Parent r)))"
  by pat_completeness auto
termination
  by (relation "measure (\<lambda>(sessions, now, seen, i). card (set (map fst sessions) - set seen))")
     (use unseen_decreases in auto)

declare swarm_lineage.simps [simp del]

definition swarmLineageCurrent :: "state \<Rightarrow> string \<Rightarrow> int \<Rightarrow> bool" where
  "swarmLineageCurrent s i now = swarm_lineage (Sessions s) now [] i"

text \<open>\<^verbatim>\<open>historicalWorkerFamily\<close> of \<^verbatim>\<open>recovery.go\<close>: the root's key, whatever has expired or been revoked.\<close>

function family_walk :: "srecord gmap \<Rightarrow> string list \<Rightarrow> string \<Rightarrow> string res" where
  "family_walk sessions seen i =
     (if i = '''' \<or> i \<in> set seen then Inl ErrDenied
      else (case gget sessions i of
              None \<Rightarrow> Inl ErrDenied
            | Some r \<Rightarrow> if se_Parent r = '''' then Inr i else family_walk sessions (i # seen) (se_Parent r)))"
  by pat_completeness auto
termination
  by (relation "measure (\<lambda>(sessions, seen, i). card (set (map fst sessions) - set seen))")
     (use unseen_decreases in auto)

declare family_walk.simps [simp del]

definition historicalWorkerFamily :: "state \<Rightarrow> string \<Rightarrow> string res" where
  "historicalWorkerFamily s i = family_walk (Sessions s) [] i"

text \<open>The walk of \<^verbatim>\<open>InspectNativeCompatibility\<close> (\<^verbatim>\<open>compatibility.go\<close>), which classifies instead of refusing.\<close>

function compatibility_walk :: "srecord gmap \<Rightarrow> (nat \<Rightarrow> int) \<Rightarrow> string list \<Rightarrow> srecord \<Rightarrow> string" where
  "compatibility_walk sessions now seen actor =
     (if se_ID actor = '''' \<or> se_ID actor \<in> set seen then ''profile_schema_mismatch''
      else if se_Revoked actor then ''revoked_actor''
      else if \<not> now (length seen) < se_ExpiresAt actor then ''expired_enrollment''
      else if se_Parent actor = '''' then ''authorized''
      else (case gget sessions (se_Parent actor) of
              None \<Rightarrow> ''profile_schema_mismatch''
            | Some p \<Rightarrow> compatibility_walk sessions now (se_ID actor # seen) p))"
  by pat_completeness auto
termination
  by (relation "measure (\<lambda>(sessions, now, seen, cur). walk_measure sessions seen cur)")
     (auto intro: walk_measure_decreases)

declare compatibility_walk.simps [simp del]

definition InspectNativeCompatibility :: "env \<Rightarrow> state \<Rightarrow> string \<Rightarrow> string \<Rightarrow> string \<times> nat" where
  "InspectNativeCompatibility E s token i =
     (if i = '''' \<or> length token \<noteq> 64 then (''unknown'', 0)
      else (case gget (Sessions s) i of
              None \<Rightarrow> (''missing_enrollment'', 0)
            | Some actor \<Rightarrow>
                if sr_Hash actor \<noteq> e_hash E token then (''missing_enrollment'', 0)
                else (let status = compatibility_walk (Sessions s) (e_now E) [] actor
                      in (status, if status = ''authorized'' then Version s else 0))))"

section \<open>Enrolment, delegation, authorisation, revocation\<close>

definition issue ::
    "env \<Rightarrow> string \<Rightarrow> string \<Rightarrow> scope \<Rightarrow> int \<Rightarrow> state \<Rightarrow> ((session \<times> string) \<times> state) res" where
  "issue E credential parent scope expires s =
     bindr (mint E 0) (\<lambda>token.
     bindr (mint E 1) (\<lambda>i.
     let now = e_now E 0;
         fields = \<lparr>se_ID = i, se_Parent = parent, se_Scope = scope, se_ExpiresAt = expires, se_Revoked = False\<rparr>;
         added = s\<lparr>Sessions := gput i (session.extend fields (srecord.fields (e_hash E token))) (Sessions s)\<rparr>
     in require (validScope scope \<and> now < expires) ErrDenied (
        if parent = '''' then
          require (owner_ok E s credential) ErrDenied (Inr ((fields, token), added))
        else
          bindr (authenticate E s credential parent now) (\<lambda>p.
          require (expires \<le> se_ExpiresAt p
              \<and> subset (sc_Actions scope) (sc_Actions (se_Scope p))
              \<and> subset (sc_Resources scope) (sc_Resources (se_Scope p))) ErrDenied (
          Inr ((fields, token), added))))))"

definition Enroll :: "env \<Rightarrow> string \<Rightarrow> scope \<Rightarrow> int \<Rightarrow> state \<Rightarrow> ((session \<times> string) \<times> state) res" where
  "Enroll E owner' scope expires = issue E owner' '''' scope expires"

definition Delegate :: "env \<Rightarrow> string \<Rightarrow> string \<Rightarrow> scope \<Rightarrow> int \<Rightarrow> state \<Rightarrow> ((session \<times> string) \<times> state) res" where
  "Delegate E token parent scope expires = issue E token parent scope expires"

definition Authenticate :: "env \<Rightarrow> string \<Rightarrow> string \<Rightarrow> state \<Rightarrow> session res" where
  "Authenticate E token i s = bindr (authenticate E s token i (e_now E 0)) (\<lambda>r. Inr (session.truncate r))"

definition Authorize ::
    "env \<Rightarrow> authority \<Rightarrow> token \<Rightarrow> ident \<Rightarrow> ident \<Rightarrow> verb \<Rightarrow> string \<Rightarrow> state \<Rightarrow> session res" where
  "Authorize E a token i workspace action resource s =
     require (workspace \<noteq> '''' \<and> b_Workspace (a_binding a) = workspace \<and> action \<noteq> '''' \<and> resource \<noteq> '''') ErrDenied (
     bindr (authenticate E s token i (e_now E 0)) (\<lambda>r.
     require (subset [action] (sc_Actions (se_Scope r)) \<and> subset [resource] (sc_Resources (se_Scope r))) ErrDenied (
     Inr (session.truncate r))))"

definition Revoke :: "env \<Rightarrow> string \<Rightarrow> string \<Rightarrow> state \<Rightarrow> (unit \<times> state) res" where
  "Revoke E owner' i s =
     require (owner_ok E s owner') ErrDenied (
     fetch (Sessions s) i (\<lambda>r.
     Inr ((), s\<lparr>Sessions := gput i (r\<lparr>se_Revoked := True\<rparr>) (Sessions s)\<rparr>)))"

definition AuthenticateOwner :: "env \<Rightarrow> string \<Rightarrow> state \<Rightarrow> unit res" where
  "AuthenticateOwner E owner' s = require (owner_ok E s owner') ErrDenied (Inr ())"

text \<open>\<^verbatim>\<open>genericControllerMutation\<close> (\<^verbatim>\<open>native_controller.go\<close>): from schema 16 on, a session whose
  lineage holds a bounded-controller action may not use the generic dispatch operations. The loop
  runs at most one step more than there are sessions.\<close>

fun controller_walk :: "nat \<Rightarrow> srecord gmap \<Rightarrow> srecord \<Rightarrow> unit res" where
  "controller_walk fuel sessions actor =
     (if subset [''controller.step''] (sc_Actions (se_Scope actor))
         \<or> subset [''controller.reconcile''] (sc_Actions (se_Scope actor)) then Inl ErrDenied
      else if se_Parent actor = '''' then Inr ()
      else (case gget sessions (se_Parent actor) of
              None \<Rightarrow> Inl ErrDenied
            | Some p \<Rightarrow> (case fuel of 0 \<Rightarrow> Inl ErrDenied | Suc n \<Rightarrow> controller_walk n sessions p)))"

declare controller_walk.simps [simp del]

definition genericControllerMutation :: "env \<Rightarrow> state \<Rightarrow> string \<Rightarrow> string \<Rightarrow> int \<Rightarrow> unit res" where
  "genericControllerMutation E s token i now =
     bindr (authenticate E s token i now) (\<lambda>actor.
     if 16 \<le> Version s then controller_walk (length (Sessions s)) (Sessions s) actor else Inr ())"

section \<open>Live sessions: the contract of the walks\<close>

text \<open>Sessions are stored under their own nonempty identifier (\<open>issue\<close> mints it, nothing rewrites it).\<close>

definition keyed :: "srecord gmap \<Rightarrow> bool" where
  "keyed S \<longleftrightarrow> (\<forall>i r. gget S i = Some r \<longrightarrow> se_ID r = i \<and> i \<noteq> '''')"

definition usable :: "int \<Rightarrow> srecord \<Rightarrow> bool" where
  "usable now r \<longleftrightarrow> \<not> se_Revoked r \<and> now < se_ExpiresAt r"

inductive live :: "srecord gmap \<Rightarrow> int \<Rightarrow> string \<Rightarrow> bool" for S now where
  live_root: "gget S i = Some r \<Longrightarrow> usable now r \<Longrightarrow> se_Parent r = '''' \<Longrightarrow> live S now i"
| live_child: "gget S i = Some r \<Longrightarrow> usable now r \<Longrightarrow> se_Parent r \<noteq> '''' \<Longrightarrow> live S now (se_Parent r) \<Longrightarrow> live S now i"

inductive_cases liveE: "live S now i"

text \<open>\<open>descends S i a\<close>: \<open>a\<close> is \<open>i\<close> or one of its ancestors.\<close>

inductive descends :: "srecord gmap \<Rightarrow> string \<Rightarrow> string \<Rightarrow> bool" for S where
  descends_refl: "descends S i i"
| descends_parent: "gget S i = Some r \<Longrightarrow> se_Parent r \<noteq> '''' \<Longrightarrow> descends S (se_Parent r) a \<Longrightarrow> descends S i a"

lemma live_usable: "live S now i \<Longrightarrow> gget S i = Some r \<Longrightarrow> usable now r"
  by (erule liveE) auto

lemma live_parent: "live S now i \<Longrightarrow> gget S i = Some r \<Longrightarrow> se_Parent r \<noteq> '''' \<Longrightarrow> live S now (se_Parent r)"
  by (erule liveE) auto

lemma live_exists: "live S now i \<Longrightarrow> \<exists>r. gget S i = Some r"
  by (erule liveE) auto

lemma live_descends: "descends S i a \<Longrightarrow> live S now i \<Longrightarrow> live S now a"
  by (induction rule: descends.induct) (auto dest: live_parent)

lemma live_earlier: "live S now i \<Longrightarrow> now' \<le> now \<Longrightarrow> live S now' i"
  by (induction rule: live.induct) (auto intro: live.intros simp: usable_def)

text \<open>The depth of a live session is unique, so a live lineage never repeats a session.\<close>

primrec live_at :: "srecord gmap \<Rightarrow> int \<Rightarrow> nat \<Rightarrow> string \<Rightarrow> bool" where
  "live_at S now 0 i \<longleftrightarrow> (\<exists>r. gget S i = Some r \<and> usable now r \<and> se_Parent r = '''')"
| "live_at S now (Suc n) i \<longleftrightarrow>
     (\<exists>r. gget S i = Some r \<and> usable now r \<and> se_Parent r \<noteq> '''' \<and> live_at S now n (se_Parent r))"

lemma live_iff_at: "live S now i \<longleftrightarrow> (\<exists>n. live_at S now n i)"
proof
  show "live S now i \<Longrightarrow> \<exists>n. live_at S now n i"
  proof (induction rule: live.induct)
    case (live_root i r)
    then show ?case by (intro exI [of _ 0]) auto
  next
    case (live_child i r)
    then obtain n where "live_at S now n (se_Parent r)" by blast
    with live_child show ?case by (intro exI [of _ "Suc n"]) auto
  qed
next
  assume "\<exists>n. live_at S now n i"
  then obtain n where "live_at S now n i" ..
  then show "live S now i"
    by (induction n arbitrary: i) (auto intro: live.intros)
qed

lemma live_at_unique: "live_at S now n i \<Longrightarrow> live_at S now m i \<Longrightarrow> n = m"
proof (induction n arbitrary: m i)
  case 0
  then show ?case by (cases m) auto
next
  case (Suc n)
  then show ?case by (cases m) auto
qed

text \<open>Invariant of the walks: what was seen lies strictly deeper than where the walk stands.\<close>

lemma walk_complete:
  assumes "keyed S" "live_at S now n i" "gget S i = Some cur" "\<forall>j \<in> set seen. \<exists>m > n. live_at S now m j"
  shows "\<exists>root. lineage_walk S now seen cur = Inr root"
  using assms(2-)
proof (induction n arbitrary: i cur seen)
  case 0
  then have "i \<notin> set seen"
    by (metis live_at_unique less_irrefl)
  moreover have "se_ID cur = i"
    using 0 \<open>keyed S\<close> by (auto simp: keyed_def)
  ultimately show ?case
    using 0 by (subst lineage_walk.simps) (auto simp: usable_def)
next
  case (Suc n)
  have notin: "i \<notin> set seen"
    using Suc.prems by (metis live_at_unique less_irrefl)
  from Suc.prems have i: "usable now cur" "se_Parent cur \<noteq> ''''" and p: "live_at S now n (se_Parent cur)"
    by auto
  have self: "se_ID cur = i"
    using Suc.prems \<open>keyed S\<close> by (auto simp: keyed_def)
  from p obtain pr where pr: "gget S (se_Parent cur) = Some pr"
    by (meson live_exists live_iff_at)
  have "\<forall>j \<in> set (i # seen). \<exists>m > n. live_at S now m j"
    using Suc.prems by (metis Suc_lessD lessI set_ConsD)
  from Suc.IH [OF p pr this] i pr notin self show ?case
    by (subst lineage_walk.simps) (auto simp: usable_def)
qed

lemma walk_sound:
  "keyed S \<Longrightarrow> lineage_walk S now seen cur = Inr root \<Longrightarrow> gget S i = Some cur \<Longrightarrow>
     live S now i \<and> descends S i root \<and> (\<exists>r. gget S root = Some r \<and> se_Parent r = '''')"
proof (induction S now seen cur arbitrary: i rule: lineage_walk.induct)
  case (1 S now seen cur)
  from 1(3) have u: "usable now cur" "se_ID cur \<notin> set seen"
    by (subst (asm) lineage_walk.simps, auto simp: usable_def split: if_splits)+
  have self: "se_ID cur = i"
    using 1(2,4) by (auto simp: keyed_def)
  show ?case
  proof (cases "se_Parent cur = ''''")
    case True
    with 1(3) u have "root = i"
      using self by (subst (asm) lineage_walk.simps) (auto simp: usable_def)
    with True u 1(4) show ?thesis
      by (auto intro: live_root descends_refl)
  next
    case False
    with 1(3) u obtain p where p: "gget S (se_Parent cur) = Some p"
        "lineage_walk S now (se_ID cur # seen) p = Inr root"
      by (subst (asm) lineage_walk.simps) (auto simp: usable_def split: option.splits)
    with 1(1) [of p "se_Parent cur"] 1(2) u False
    have "live S now (se_Parent cur) \<and> descends S (se_Parent cur) root
        \<and> (\<exists>r. gget S root = Some r \<and> se_Parent r = '''')"
      by (auto simp: usable_def)
    with False u 1(4) show ?thesis
      by (auto intro: live_child descends_parent)
  qed
qed

lemma walk_iff_live:
  assumes "keyed S" "gget S i = Some cur"
  shows "(\<exists>root. lineage_walk S now [] cur = Inr root) \<longleftrightarrow> live S now i"
  using walk_sound [OF assms(1) _ assms(2)] walk_complete [OF assms(1) _ assms(2), where seen = "[]"]
  by (auto simp: live_iff_at)

lemma swarm_lineage_complete:
  assumes "live_at S now n i" "i \<noteq> ''''" "\<forall>j \<in> set seen. \<exists>m > n. live_at S now m j"
  shows "swarm_lineage S now seen i"
  using assms
proof (induction n arbitrary: i seen)
  case 0
  then have "i \<notin> set seen"
    by (metis live_at_unique less_irrefl)
  with 0 show ?case
    by (auto simp: usable_def swarm_lineage.simps [of S now seen i]) (simp add: swarm_lineage.simps)
next
  case (Suc n)
  have notin: "i \<notin> set seen"
    using Suc.prems by (metis live_at_unique less_irrefl)
  from Suc.prems obtain r where r: "gget S i = Some r" "usable now r" "se_Parent r \<noteq> ''''"
      "live_at S now n (se_Parent r)"
    by auto
  have "\<forall>j \<in> set (i # seen). \<exists>m > n. live_at S now m j"
    using Suc.prems by (metis Suc_lessD lessI set_ConsD)
  from Suc.IH [OF r(4,3) this] r notin show ?case
    by (auto simp: usable_def swarm_lineage.simps [of S now seen i])
qed

lemma swarm_lineage_sound: "swarm_lineage S now seen i \<Longrightarrow> i \<noteq> '''' \<Longrightarrow> live S now i"
proof (induction S now seen i rule: swarm_lineage.induct)
  case (1 S now seen i)
  from 1(2,3) obtain r where r: "gget S i = Some r" "usable now r" "i \<notin> set seen"
      "swarm_lineage S now (i # seen) (se_Parent r)"
    by (auto simp: usable_def swarm_lineage.simps [of S now seen i] split: option.splits if_splits)
  show ?case
  proof (cases "se_Parent r = ''''")
    case True
    with r show ?thesis by (auto intro: live_root)
  next
    case False
    with 1 r have "live S now (se_Parent r)" by (auto simp: usable_def)
    with False r show ?thesis by (auto intro: live_child)
  qed
qed

lemma swarm_lineage_iff: "i \<noteq> '''' \<Longrightarrow> swarm_lineage S now [] i \<longleftrightarrow> live S now i"
  using swarm_lineage_complete [where seen = "[]"] swarm_lineage_sound by (auto simp: live_iff_at)

section \<open>The interface of a lineage check\<close>

text \<open>What the handlers rely on when they check a session through its ancestors, whichever of the
  loops does it.\<close>

locale lineage_check =
  fixes check :: "srecord gmap \<Rightarrow> int \<Rightarrow> string \<Rightarrow> bool"
  assumes check_live: "keyed S \<Longrightarrow> i \<noteq> '''' \<Longrightarrow> check S now i \<longleftrightarrow> live S now i"
begin

lemma unusable_ancestor_denies:
  "keyed S \<Longrightarrow> i \<noteq> '''' \<Longrightarrow> descends S i a \<Longrightarrow> gget S a = Some r \<Longrightarrow> \<not> usable now r \<Longrightarrow> \<not> check S now i"
  using live_descends live_usable by (simp add: check_live) blast

lemma missing_ancestor_denies:
  "keyed S \<Longrightarrow> i \<noteq> '''' \<Longrightarrow> descends S i a \<Longrightarrow> gget S a = None \<Longrightarrow> \<not> check S now i"
  using live_descends live_exists by (simp add: check_live) fastforce

lemma expiry_monotone: "keyed S \<Longrightarrow> i \<noteq> '''' \<Longrightarrow> check S now i \<Longrightarrow> now' \<le> now \<Longrightarrow> check S now' i"
  by (simp add: check_live live_earlier)

lemma ancestors_checked:
  "keyed S \<Longrightarrow> i \<noteq> '''' \<Longrightarrow> check S now i \<Longrightarrow> descends S i a \<Longrightarrow> a \<noteq> '''' \<Longrightarrow> check S now a"
  by (simp add: check_live live_descends)

end

definition walk_ok :: "srecord gmap \<Rightarrow> int \<Rightarrow> string \<Rightarrow> bool" where
  "walk_ok S now i \<longleftrightarrow> (case gget S i of None \<Rightarrow> False
     | Some r \<Rightarrow> (case lineage_walk S now [] r of Inl _ \<Rightarrow> False | Inr _ \<Rightarrow> True))"

lemma walk_ok_iff: "walk_ok S now i \<longleftrightarrow> (\<exists>r root. gget S i = Some r \<and> lineage_walk S now [] r = Inr root)"
  by (auto simp: walk_ok_def split: option.splits sum.splits)

interpretation auth_check: lineage_check walk_ok
  by unfold_locales (metis walk_ok_iff walk_iff_live live_exists)

interpretation swarm_check: lineage_check "\<lambda>S now i. swarm_lineage S now [] i"
  by unfold_locales (simp add: swarm_lineage_iff)

lemma authenticate_Inr:
  "authenticate E s token i now = Inr r \<longleftrightarrow> gget (Sessions s) i = Some r \<and> length token = 64
     \<and> e_hash E token = sr_Hash r \<and> walk_ok (Sessions s) now i"
  by (auto simp: authenticate_def walk_ok_iff)

lemma authenticate_Inl: "authenticate E s token i now = Inl e \<Longrightarrow> e = ErrDenied"
proof -
  have "lineage_walk S n seen cur = Inl e \<Longrightarrow> e = ErrDenied" for S n seen cur
    by (induction S n seen cur rule: lineage_walk.induct)
       (subst (asm) (2) lineage_walk.simps, auto split: if_splits option.splits)
  then show "authenticate E s token i now = Inl e \<Longrightarrow> e = ErrDenied"
    by (auto simp: authenticate_def fetch_def require_def bindr_def split: option.splits if_splits sum.splits)
qed

lemma rootSession_Inr:
  "rootSession s i now = Inr (r, root) \<longleftrightarrow> gget (Sessions s) i = Some r \<and> lineage_walk (Sessions s) now [] r = Inr root"
  by (auto simp: rootSession_def)

section \<open>The session invariant\<close>

text \<open>Along every parent link a session's scope and lifetime are within its parent's.\<close>

definition attenuated :: "srecord gmap \<Rightarrow> bool" where
  "attenuated S \<longleftrightarrow> (\<forall>i r p. gget S i = Some r \<longrightarrow> se_Parent r \<noteq> '''' \<longrightarrow> gget S (se_Parent r) = Some p \<longrightarrow>
     se_ExpiresAt r \<le> se_ExpiresAt p
     \<and> set (sc_Actions (se_Scope r)) \<subseteq> set (sc_Actions (se_Scope p))
     \<and> set (sc_Resources (se_Scope r)) \<subseteq> set (sc_Resources (se_Scope p)))"

definition parents_exist :: "srecord gmap \<Rightarrow> bool" where
  "parents_exist S \<longleftrightarrow> (\<forall>i r. gget S i = Some r \<longrightarrow> se_Parent r \<noteq> '''' \<longrightarrow> gget S (se_Parent r) \<noteq> None)"

definition session_inv :: "srecord gmap \<Rightarrow> bool" where
  "session_inv S \<longleftrightarrow> gwf S \<and> keyed S \<and> attenuated S \<and> parents_exist S"

lemma subset_iff [simp]: "subset c p \<longleftrightarrow> set c \<subseteq> set p"
  by (auto simp: subset_def list_all_iff list_ex_iff)

lemma session_extend_simps [simp]:
  "se_ID (session.extend a b) = se_ID a" "se_Parent (session.extend a b) = se_Parent a"
  "se_Scope (session.extend a b) = se_Scope a" "se_ExpiresAt (session.extend a b) = se_ExpiresAt a"
  "se_Revoked (session.extend a b) = se_Revoked a"
  "sr_Hash (session.extend a (srecord.fields h)) = h"
  by (cases a; simp add: session.defs srecord.defs)+

lemma session_truncate_simps [simp]:
  "se_ID (session.truncate r) = se_ID r" "se_Parent (session.truncate r) = se_Parent r"
  "se_Scope (session.truncate r) = se_Scope r" "se_ExpiresAt (session.truncate r) = se_ExpiresAt r"
  "se_Revoked (session.truncate r) = se_Revoked r"
  by (simp_all add: session.defs)

text \<open>What \<open>issue\<close> does on success.\<close>

lemma issue_Inr:
  assumes "issue E credential parent scope expires s = Inr ((x, token), s')"
  obtains i where "mint E 0 = Inr token" "mint E 1 = Inr i" "validScope scope" "e_now E 0 < expires"
    "x = \<lparr>se_ID = i, se_Parent = parent, se_Scope = scope, se_ExpiresAt = expires, se_Revoked = False\<rparr>"
    "s' = s\<lparr>Sessions := gput i (session.extend x (srecord.fields (e_hash E token))) (Sessions s)\<rparr>"
    "parent = '''' \<Longrightarrow> owner_ok E s credential"
    "parent \<noteq> '''' \<Longrightarrow> (\<exists>p. authenticate E s credential parent (e_now E 0) = Inr p \<and> expires \<le> se_ExpiresAt p
       \<and> set (sc_Actions scope) \<subseteq> set (sc_Actions (se_Scope p))
       \<and> set (sc_Resources scope) \<subseteq> set (sc_Resources (se_Scope p)))"
  using assms by (auto simp: issue_def Let_def split: if_splits)

lemma Revoke_Inr:
  assumes "Revoke E owner' i s = Inr (u, s')"
  obtains r where "owner_ok E s owner'" "gget (Sessions s) i = Some r"
    "s' = s\<lparr>Sessions := gput i (r\<lparr>se_Revoked := True\<rparr>) (Sessions s)\<rparr>"
  using assms by (auto simp: Revoke_def)

lemma issue_session_inv:
  assumes "issue E credential parent scope expires s = Inr ((x, token), s')" "session_inv (Sessions s)"
    "gget (Sessions s) (se_ID x) = None" "se_ID x \<noteq> ''''"
  shows "session_inv (Sessions s')"
proof -
  from assms(1) obtain i where i: "se_ID x = i" "se_Parent x = parent" "se_Scope x = scope" "se_ExpiresAt x = expires"
    and s': "Sessions s' = gput i (session.extend x (srecord.fields (e_hash E token))) (Sessions s)"
    and auth: "parent \<noteq> '''' \<Longrightarrow> (\<exists>p. authenticate E s credential parent (e_now E 0) = Inr p \<and> expires \<le> se_ExpiresAt p
       \<and> set (sc_Actions scope) \<subseteq> set (sc_Actions (se_Scope p))
       \<and> set (sc_Resources scope) \<subseteq> set (sc_Resources (se_Scope p)))"
    by (rule issue_Inr) auto
  have orphan: "se_Parent r \<noteq> i" if "gget (Sessions s) j = Some r" "se_Parent r \<noteq> ''''" for j r
  proof -
    from that assms(2) have "gget (Sessions s) (se_Parent r) \<noteq> None"
      unfolding session_inv_def parents_exist_def by (metis option.distinct(1))
    with assms(3) i(1) show ?thesis by metis
  qed
  show ?thesis
    using assms(2-4) i s' auth orphan
    by (auto simp: session_inv_def keyed_def attenuated_def parents_exist_def authenticate_Inr split: if_splits)
qed

lemma revoke_session_inv:
  assumes "Revoke E owner' i s = Inr (u, s')" "session_inv (Sessions s)"
  shows "session_inv (Sessions s')"
proof -
  from assms(1) obtain r where r: "gget (Sessions s) i = Some r"
      "Sessions s' = gput i (r\<lparr>se_Revoked := True\<rparr>) (Sessions s)"
    by (rule Revoke_Inr) auto
  with assms(2) show ?thesis
    by (auto simp: session_inv_def keyed_def attenuated_def parents_exist_def split: if_splits)
qed

lemma attenuated_ancestor:
  "descends S i a \<Longrightarrow> attenuated S \<Longrightarrow> parents_exist S \<Longrightarrow> gget S i = Some r \<Longrightarrow>
   \<exists>ra. gget S a = Some ra \<and> se_ExpiresAt r \<le> se_ExpiresAt ra
     \<and> set (sc_Actions (se_Scope r)) \<subseteq> set (sc_Actions (se_Scope ra))
     \<and> set (sc_Resources (se_Scope r)) \<subseteq> set (sc_Resources (se_Scope ra))"
proof (induction arbitrary: r rule: descends.induct)
  case (descends_refl i)
  then show ?case by auto
next
  case (descends_parent i r' a)
  then obtain p where "gget S (se_Parent r') = Some p"
    by (fastforce simp: parents_exist_def)
  with descends_parent show ?case
    by (fastforce simp: attenuated_def)
qed

text \<open>Revocation changes one flag: parent links, and so lineages, stay.\<close>

lemma descends_revoked:
  assumes "descends S j a" "gget S i = Some r"
  shows "descends (gput i (r\<lparr>se_Revoked := b\<rparr>) S) j a"
  using assms
proof (induction rule: descends.induct)
  case (descends_parent j r' a)
  let ?q = "if j = i then r\<lparr>se_Revoked := b\<rparr> else r'"
  have q: "gget (gput i (r\<lparr>se_Revoked := b\<rparr>) S) j = Some ?q" "se_Parent ?q = se_Parent r'"
    using descends_parent(1,5) by auto
  show ?case
    by (rule descends.descends_parent [OF q(1)])
       (simp_all only: q(2) descends_parent(2) descends_parent(4) [OF descends_parent(5)] not_False_eq_True)
qed (rule descends.descends_refl)

lemma keyed_revoked: "keyed S \<Longrightarrow> gget S i = Some r \<Longrightarrow> keyed (gput i (r\<lparr>se_Revoked := b\<rparr>) S)"
  by (auto simp: keyed_def)

section \<open>Properties\<close>

text \<open>C9: Authentication is exactly possession of a live session's credential. It returns the stored
  session if and only if the 64-byte token hashes to that session's digest and the session and every
  ancestor exist, are unrevoked and unexpired up to a root; a cyclic or dangling lineage never
  authenticates. The three other lineage checks of the kernel decide the same predicate, and each
  of these walks returns for every store of sessions.\<close>

theorem authenticate_iff_live:
  assumes "keyed (Sessions s)" "i \<noteq> ''''"
  shows "(authenticate E s token i now = Inr r \<longleftrightarrow> gget (Sessions s) i = Some r \<and> length token = 64
           \<and> e_hash E token = sr_Hash r \<and> live (Sessions s) now i)
     \<and> ((\<exists>r root. rootSession s i now = Inr (r, root)) \<longleftrightarrow> live (Sessions s) now i)
     \<and> (swarmLineageCurrent s i now \<longleftrightarrow> live (Sessions s) now i)
     \<and> (length token = 64 \<longrightarrow> (fst (InspectNativeCompatibility (E\<lparr>e_now := \<lambda>_. now\<rparr>) s token i) = ''authorized''
           \<longleftrightarrow> (\<exists>r. authenticate E s token i now = Inr r)))"
proof -
  have walk: "keyed S \<Longrightarrow> se_ID cur \<noteq> '''' \<Longrightarrow> compatibility_walk S (\<lambda>_. now) seen cur = ''authorized'' \<longleftrightarrow>
      (\<exists>root. lineage_walk S now seen cur = Inr root)" for S seen cur
  proof (induction S "\<lambda>_::nat. now" seen cur rule: compatibility_walk.induct)
    case (1 S seen cur)
    show ?case
      using 1
      by (subst compatibility_walk.simps, subst lineage_walk.simps)
         (auto simp: keyed_def split: option.splits)
  qed
  have "length token = 64 \<Longrightarrow> fst (InspectNativeCompatibility (E\<lparr>e_now := \<lambda>_. now\<rparr>) s token i) = ''authorized''
      \<longleftrightarrow> (\<exists>r. authenticate E s token i now = Inr r)"
    using assms walk [OF assms(1)]
    by (auto simp: InspectNativeCompatibility_def authenticate_Inr walk_ok_iff Let_def keyed_def split: option.splits)
  then show ?thesis
    using auth_check.check_live [OF assms] swarm_check.check_live [OF assms]
    by (auto simp: authenticate_Inr rootSession_Inr walk_ok_iff swarmLineageCurrent_def)
qed

definition sample_root :: srecord where
  "sample_root = \<lparr>se_ID = ''r'', se_Parent = '''', se_Scope = \<lparr>sc_Actions = [''read'', ''lease.acquire''],
     sc_Resources = [''task:t'', ''path:src'']\<rparr>, se_ExpiresAt = 100, se_Revoked = False, sr_Hash = sample_id 1\<rparr>"

definition sample_child :: srecord where
  "sample_child = \<lparr>se_ID = ''c'', se_Parent = ''r'', se_Scope = \<lparr>sc_Actions = [''read''],
     sc_Resources = [''task:t'']\<rparr>, se_ExpiresAt = 50, se_Revoked = False, sr_Hash = sample_id 2\<rparr>"

definition sample_state :: state where
  "sample_state = (empty_state (a_binding sample_authority) 6)
     \<lparr>OwnerHash := sample_id 0, Sessions := [(''r'', sample_root), (''c'', sample_child)]\<rparr>"

lemma sample_sessions: "session_inv (Sessions sample_state)"
  by (auto simp: session_inv_def gwf_def keyed_def attenuated_def parents_exist_def sample_state_def gget_def
      sample_root_def sample_child_def split: if_splits)

lemma sample_gets [simp]:
  "gget (Sessions sample_state) ''c'' = Some sample_child" "gget (Sessions sample_state) ''r'' = Some sample_root"
  by (simp_all add: sample_state_def gget_def)

theorem authenticate_iff_live_witness:
  "authenticate sample_env sample_state (sample_id 2) ''c'' 20 = Inr sample_child"
proof -
  have k: "keyed (Sessions sample_state)" "''c'' \<noteq> ''''"
    using sample_sessions by (simp_all add: session_inv_def)
  have r: "live (Sessions sample_state) 20 ''r''"
    by (rule live_root [of _ _ sample_root]) (simp_all add: usable_def sample_root_def)
  have "live (Sessions sample_state) 20 ''c''"
    by (rule live_child [of _ _ sample_child]) (use r in \<open>simp_all add: usable_def sample_child_def\<close>)
  with authenticate_iff_live [OF k] show ?thesis
    by (simp add: sample_child_def sample_env_def)
qed

text \<open>Revocation is immediate and transitive. After the owner revokes a session, neither it nor
  any session below it authenticates, with any token at any time, nor passes the other lineage
  checks; revoking again keeps it so.\<close>

theorem revoke_cascades:
  assumes "Revoke E owner' i s = Inr (u, s')" "keyed (Sessions s)" "j \<noteq> ''''" "descends (Sessions s) j i"
  shows "authenticate E' s' token j now = Inl ErrDenied
     \<and> \<not> swarmLineageCurrent s' j now
     \<and> (\<forall>x. rootSession s' j now \<noteq> Inr x)"
proof -
  from assms(1) obtain r where r: "gget (Sessions s) i = Some r"
      "Sessions s' = gput i (r\<lparr>se_Revoked := True\<rparr>) (Sessions s)"
    by (rule Revoke_Inr) auto
  then have k: "keyed (Sessions s')" and d: "descends (Sessions s') j i"
    using assms(2,4) by (simp_all add: keyed_revoked descends_revoked)
  have g: "gget (Sessions s') i = Some (r\<lparr>se_Revoked := True\<rparr>)" "\<not> usable now (r\<lparr>se_Revoked := True\<rparr>)"
    using r(2) by (simp_all add: usable_def)
  note no = auth_check.unusable_ancestor_denies [OF k assms(3) d g]
    swarm_check.unusable_ancestor_denies [OF k assms(3) d g]
  have "\<forall>x. authenticate E' s' token j now \<noteq> Inr x"
    using no by (simp add: authenticate_Inr)
  then have "authenticate E' s' token j now = Inl ErrDenied"
    by (cases "authenticate E' s' token j now") (auto dest: authenticate_Inl)
  with no show ?thesis
    by (auto simp: rootSession_Inr walk_ok_iff swarmLineageCurrent_def)
qed

theorem revoke_cascades_witness:
  "authenticate sample_env (sample_state\<lparr>Sessions := gput ''r'' (sample_root\<lparr>se_Revoked := True\<rparr>)
      (Sessions sample_state)\<rparr>) (sample_id 2) ''c'' 20 = Inl ErrDenied"
proof -
  have "Revoke sample_env (sample_id 0) ''r'' sample_state = Inr ((), sample_state
      \<lparr>Sessions := gput ''r'' (sample_root\<lparr>se_Revoked := True\<rparr>) (Sessions sample_state)\<rparr>)"
    by (simp add: Revoke_def owner_ok_def sample_env_def)
       (simp add: sample_state_def)
  moreover have "descends (Sessions sample_state) ''c'' ''r''"
    by (rule descends_parent [of _ _ sample_child]) (simp_all add: sample_child_def descends_refl)
  ultimately show ?thesis
    using revoke_cascades [of sample_env "sample_id 0" "''r''" sample_state] sample_sessions
    by (simp add: session_inv_def)
qed

text \<open>C10: Enrolment, delegation and revocation keep the session invariant: distinct keys, sessions
  stored under their own identifier, parents present, and every scope and lifetime within the
  parent's. The drawn identifier is fresh by hypothesis.\<close>

theorem session_operations_keep_invariant:
  assumes "session_inv (Sessions s)"
  shows "(issue E credential parent scope expires s = Inr ((x, token), s') \<longrightarrow>
            gget (Sessions s) (se_ID x) = None \<longrightarrow> se_ID x \<noteq> '''' \<longrightarrow> session_inv (Sessions s'))
     \<and> (Revoke E owner' i s = Inr ((), s') \<longrightarrow> session_inv (Sessions s'))"
  using assms issue_session_inv revoke_session_inv by blast

theorem session_operations_keep_invariant_witness:
  "session_inv (gput ''r'' (sample_root\<lparr>se_Revoked := True\<rparr>) (Sessions sample_state))"
proof -
  have "Revoke sample_env (sample_id 0) ''r'' sample_state = Inr ((), sample_state
      \<lparr>Sessions := gput ''r'' (sample_root\<lparr>se_Revoked := True\<rparr>) (Sessions sample_state)\<rparr>)"
    by (simp add: Revoke_def owner_ok_def sample_env_def)
       (simp add: sample_state_def)
  with session_operations_keep_invariant [OF sample_sessions] show ?thesis
    by fastforce
qed

text \<open>Authority is only ever attenuated. Whatever action and resource the kernel authorises for a
  session lies in the exact scope of that session and of each of its ancestors, every one of which is
  present, unrevoked and unexpired at that instant; the owner-enrolled root at the top granted it.\<close>

theorem authorize_attenuated:
  assumes "Authorize E a token i workspace action resource s = Inr x" "session_inv (Sessions s)"
    "descends (Sessions s) i anc" "i \<noteq> ''''"
  shows "\<exists>r. gget (Sessions s) anc = Some r \<and> usable (e_now E 0) r
     \<and> action \<in> set (sc_Actions (se_Scope r)) \<and> resource \<in> set (sc_Resources (se_Scope r))
     \<and> se_ExpiresAt x \<le> se_ExpiresAt r"
proof -
  from assms(1) obtain r where r: "gget (Sessions s) i = Some r" "walk_ok (Sessions s) (e_now E 0) i"
      "action \<in> set (sc_Actions (se_Scope r))" "resource \<in> set (sc_Resources (se_Scope r))"
      "x = session.truncate r"
    by (auto simp: Authorize_def authenticate_Inr)
  from assms(2) have inv: "keyed (Sessions s)" "attenuated (Sessions s)" "parents_exist (Sessions s)"
    by (simp_all add: session_inv_def)
  from attenuated_ancestor [OF assms(3) inv(2,3) r(1)] obtain ra where
    ra: "gget (Sessions s) anc = Some ra" "se_ExpiresAt r \<le> se_ExpiresAt ra"
      "set (sc_Actions (se_Scope r)) \<subseteq> set (sc_Actions (se_Scope ra))"
      "set (sc_Resources (se_Scope r)) \<subseteq> set (sc_Resources (se_Scope ra))"
    by blast
  moreover have "usable (e_now E 0) ra"
    using auth_check.unusable_ancestor_denies [OF inv(1) assms(4) assms(3) ra(1)] r(2) by blast
  ultimately show ?thesis using r by auto
qed

theorem authorize_attenuated_witness:
  "\<exists>r. gget (Sessions sample_state) ''r'' = Some r \<and> ''read'' \<in> set (sc_Actions (se_Scope r))"
proof -
  have "descends (Sessions sample_state) ''c'' ''r''"
    by (rule descends_parent [of _ _ sample_child]) (simp_all add: sample_child_def descends_refl)
  moreover have "authenticate sample_env sample_state (sample_id 2) ''c'' 10 = Inr sample_child"
    by (simp add: authenticate_Inr walk_ok_iff lineage_walk.simps sample_child_def sample_env_def
        sample_state_def gget_def sample_root_def)
  then have "Authorize sample_env sample_authority (sample_id 2) ''c'' ''w'' ''read'' ''task:t'' sample_state
      = Inr (session.truncate sample_child)"
    by (simp add: Authorize_def sample_authority_def sample_env_def) (simp add: sample_child_def)
  ultimately show ?thesis
    using authorize_attenuated [where i = "''c''"] sample_sessions by blast
qed

end
