(* ===== verification/Task_Authority.thy ===== *)
theory Task_Authority
  imports Session_Authority
begin

text \<open>
  What stands between a live session and an effect on a task: the owner-attested task references
  and registered attempts of \<^verbatim>\<open>attempts.go\<close>, the withdrawals of \<^verbatim>\<open>lifecycle.go\<close> and
  \<^verbatim>\<open>recovery.go\<close> (a cancelled, recovered or retired task, for a worker and everything delegated
  from it), and the combined checks of \<^verbatim>\<open>leases.go\<close> that every lease-bound handler starts with.
\<close>

section \<open>Withdrawal\<close>

text \<open>The walk over a session and its ancestors that \<^verbatim>\<open>workerTaskWithdrawnExcept\<close> and
  \<^verbatim>\<open>recoveryTaskWithdrawn\<close> repeat: it stops at a session already seen, at a missing one and at the
  root.\<close>

function any_ancestor :: "srecord gmap \<Rightarrow> (string \<Rightarrow> bool) \<Rightarrow> string list \<Rightarrow> string \<Rightarrow> bool" where
  "any_ancestor sessions hit seen i =
     (if i = '''' \<or> i \<in> set seen then False
      else if hit i then True
      else (case gget sessions i of
              None \<Rightarrow> False
            | Some r \<Rightarrow> any_ancestor sessions hit (i # seen) (se_Parent r)))"
  by pat_completeness auto
termination
  by (relation "measure (\<lambda>(sessions, hit, seen, i). card (set (map fst sessions) - set seen))")
     (use unseen_decreases in auto)

declare any_ancestor.simps [simp del]

definition recoveryTaskWithdrawn :: "state \<Rightarrow> string \<Rightarrow> string \<Rightarrow> bool" where
  "recoveryTaskWithdrawn s sess task =
     any_ancestor (Sessions s)
       (\<lambda>i. list_ex (\<lambda>r. rt_WorkerFamilyID (rx_Target r) = i \<and> rt_TaskID (rx_Target r) = task)
              (gvals (Recoveries s))) [] sess"

definition workerTaskWithdrawnExcept :: "state \<Rightarrow> string \<Rightarrow> string \<Rightarrow> string \<Rightarrow> bool" where
  "workerTaskWithdrawnExcept s sess task closing =
     ((case gget (TaskTerminals s) task of
         None \<Rightarrow> False
       | Some t \<Rightarrow> closing = '''' \<or> ax_OperationKey t \<noteq> closing \<or> ax_State t \<noteq> ''closing'')
      \<or> recoveryTaskWithdrawn s sess task
      \<or> list_ex (\<lambda>c. lb_TaskID (lc_Binding c) = task
           \<and> any_ancestor (Sessions s) (\<lambda>i. i = lb_WorkerSessionID (lc_Binding c)) [] sess)
         (gvals (LifecycleCancellations s)))"

definition workerTaskWithdrawn :: "state \<Rightarrow> string \<Rightarrow> string \<Rightarrow> bool" where
  "workerTaskWithdrawn s sess task = workerTaskWithdrawnExcept s sess task ''''"

definition reservationRetained :: "state \<Rightarrow> dispatch_reservation \<Rightarrow> bool" where
  "reservationRetained s d \<longleftrightarrow> \<not> dr_Converted d \<and> gget (Recoveries s) (''reservation:'' @ dr_ID d) = None"

section \<open>Tasks and attempts\<close>

definition OwnerTaskBinding :: "env \<Rightarrow> string \<Rightarrow> string \<Rightarrow> state \<Rightarrow> task_binding res" where
  "OwnerTaskBinding E owner' task s =
     require (owner_ok E s owner') ErrDenied (fetch (Tasks s) task Inr)"

definition BindTask :: "env \<Rightarrow> string \<Rightarrow> task_binding \<Rightarrow> state \<Rightarrow> (unit \<times> state) res" where
  "BindTask E owner' b s =
     require (validID (tb_TaskID b) \<and> validID (tb_ProjectID b) \<and> is_abs (tb_Repository b)) ErrDenied (
     require (owner_ok E s owner') ErrDenied (
     require (case gget (Tasks s) (tb_TaskID b) of
                None \<Rightarrow> True
              | Some old \<Rightarrow> tb_ProjectID old = tb_ProjectID b \<and> tb_Repository old = tb_Repository b) ErrDenied (
     Inr ((), s\<lparr>Tasks := gput (tb_TaskID b) b (Tasks s)\<rparr>))))"

text \<open>The checks that both transactions of \<^verbatim>\<open>RegisterAttempt\<close> make; the second one also compares
  the repository of the checkout observed between them.\<close>

definition attemptAdmission ::
    "env \<Rightarrow> state \<Rightarrow> string \<Rightarrow> string \<Rightarrow> attempt_request \<Rightarrow> int \<Rightarrow> task_binding res" where
  "attemptAdmission E s token sess req now =
     bindr (authenticate E s token sess now) (\<lambda>r.
     require (\<not> workerTaskWithdrawn s sess (ar_TaskID req)) ErrDenied (
     require (subset [''attempt.register''] (sc_Actions (se_Scope r))
        \<and> subset [''task:'' @ ar_TaskID req] (sc_Resources (se_Scope r))) ErrDenied (
     fetch (Tasks s) (ar_TaskID req) (\<lambda>b.
     require (tb_AdmissionEnabled b) ErrDenied (Inr b)))))"

text \<open>\<open>before\<close> is the aggregate the first, read-only transaction saw; other processes may commit
  between it and the one that persists.\<close>

definition RegisterAttempt ::
    "env \<Rightarrow> string \<Rightarrow> string \<Rightarrow> attempt_request \<Rightarrow> state \<Rightarrow> state \<Rightarrow> (attempt \<times> state) res" where
  "RegisterAttempt E token sess req before s =
     require (validID (ar_RequestID req) \<and> validID (ar_TaskID req) \<and> length (ar_HostLabel req) \<le> 256) ErrDenied (
     bindr (attemptAdmission E before token sess req (e_now E 0)) (\<lambda>_.
     bindr (denied (Observe E 0 (e_now E 1) (ar_Checkout req))) (\<lambda>obs.
     bindr (attemptAdmission E s token sess req (e_now E 2)) (\<lambda>b.
     require (tb_Repository b = ob_Repository obs) ErrDenied (
     case gget (Attempts s) (ar_RequestID req) of
       Some old \<Rightarrow>
         require (at_SessionID old = sess \<and> at_Request old = req
           \<and> ob_Locator (at_Observation old) = ob_Locator obs
           \<and> ob_Commit (at_Observation old) = ob_Commit obs
           \<and> ob_Tree (at_Observation old) = ob_Tree obs) ErrDenied (Inr (old, s))
     | None \<Rightarrow>
         bindr (mint E 0) (\<lambda>i.
         let a = \<lparr>at_ID = i, at_SessionID = sess, at_Request = req, at_ProjectID = tb_ProjectID b,
                  at_Observation = obs, at_RegisteredAt = e_now E 3\<rparr>
         in Inr (a, s\<lparr>Attempts := gput (ar_RequestID req) a (Attempts s)\<rparr>)))))))"

section \<open>Checks shared by the lease-bound handlers\<close>

definition attemptFor :: "state \<Rightarrow> string \<Rightarrow> string \<Rightarrow> attempt res" where
  "attemptFor s i sess =
     from_option (find (\<lambda>a. at_ID a = i \<and> at_SessionID a = sess) (gvals (Attempts s))) ErrDenied"

definition leaseAuth ::
    "env \<Rightarrow> state \<Rightarrow> token \<Rightarrow> ident \<Rightarrow> ident \<Rightarrow> verb \<Rightarrow> int \<Rightarrow> (srecord \<times> attempt) res" where
  "leaseAuth E s token sess attemptID action now =
     bindr (authenticate E s token sess now) (\<lambda>r.
     bindr (attemptFor s attemptID sess) (\<lambda>a.
     require (\<not> workerTaskWithdrawn s sess (ar_TaskID (at_Request a))) ErrDenied (
     require (subset [action] (sc_Actions (se_Scope r))
        \<and> subset [''task:'' @ ar_TaskID (at_Request a)] (sc_Resources (se_Scope r))) ErrDenied (
     Inr (r, a)))))"

text \<open>\<^verbatim>\<open>retry\<close>: no answer for an unused key; otherwise the receipt, or a denial when the key was
  used for another request.\<close>

definition retry :: "state \<Rightarrow> string \<Rightarrow> string \<Rightarrow> lease res option" where
  "retry s key digest =
     (case gget (Operations s) key of
        None \<Rightarrow> None
      | Some p \<Rightarrow> Some (if op_Digest p \<noteq> digest then Inl ErrDenied else Inr (op_Receipt p)))"

definition checkLeaseCheckout :: "env \<Rightarrow> nat \<Rightarrow> int \<Rightarrow> attempt \<Rightarrow> unit res" where
  "checkLeaseCheckout E i now a =
     bindr (denied (ObserveRepositoryIdentity E i now (ob_Locator (at_Observation a)))) (\<lambda>obs.
     require (ob_Locator obs = ob_Locator (at_Observation a)
        \<and> ob_Repository obs = ob_Repository (at_Observation a)) ErrDenied (Inr ()))"

definition currentLeaseExcept :: "state \<Rightarrow> lease \<Rightarrow> int \<Rightarrow> string \<Rightarrow> bool" where
  "currentLeaseExcept s l now closing \<longleftrightarrow> \<not> l_Released l \<and> now < l_ExpiresAt l
     \<and> \<not> workerTaskWithdrawnExcept s (l_SessionID l) (l_TaskID l) closing"

definition currentLease :: "state \<Rightarrow> lease \<Rightarrow> int \<Rightarrow> bool" where
  "currentLease s l now = currentLeaseExcept s l now ''''"

section \<open>Lemmas on withdrawal\<close>

lemma descends_step:
  "gget S i = Some r \<Longrightarrow> descends S i a \<longleftrightarrow> a = i \<or> (se_Parent r \<noteq> '''' \<and> descends S (se_Parent r) a)"
  by (subst descends.simps) auto

lemma any_ancestor_descends:
  assumes "\<forall>x \<in> set seen. \<not> hit x \<and> (\<forall>r. gget S x = Some r \<longrightarrow> se_Parent r \<in> insert i (set seen))"
  shows "any_ancestor S hit seen i \<longleftrightarrow> i \<noteq> '''' \<and> (\<exists>a. descends S i a \<and> hit a)"
  using assms
proof (induction S hit seen i rule: any_ancestor.induct)
  case (1 S hit seen i)
  have closed: "a \<in> set seen" if "descends S x a" "i \<in> set seen" "x \<in> set seen" for x a
    using that 1(2) by (induction rule: descends.induct) auto
  show ?case
  proof (cases "i = '''' \<or> i \<in> set seen \<or> hit i")
    case True
    with closed 1(2) show ?thesis
      by (subst any_ancestor.simps) (auto intro: descends_refl)
  next
    case walk: False
    show ?thesis
    proof (cases "gget S i")
      case None
      with walk show ?thesis
        by (subst any_ancestor.simps) (auto elim: descends.cases)
    next
      case (Some r)
      have "any_ancestor S hit (i # seen) (se_Parent r) \<longleftrightarrow>
          se_Parent r \<noteq> '''' \<and> (\<exists>a. descends S (se_Parent r) a \<and> hit a)"
        using walk Some 1(2) by (intro "1.IH") auto
      moreover have "(\<exists>a. descends S i a \<and> hit a) \<longleftrightarrow>
          se_Parent r \<noteq> '''' \<and> (\<exists>a. descends S (se_Parent r) a \<and> hit a)"
        using walk descends_step [OF Some] by auto
      ultimately show ?thesis
        using walk Some by (subst any_ancestor.simps) simp
    qed
  qed
qed

lemma any_ancestor_iff:
  "any_ancestor S hit [] i \<longleftrightarrow> i \<noteq> '''' \<and> (\<exists>a. descends S i a \<and> hit a)"
  by (rule any_ancestor_descends) simp

lemma recoveryTaskWithdrawn_iff:
  "recoveryTaskWithdrawn s sess task \<longleftrightarrow> sess \<noteq> '''' \<and>
     (\<exists>r \<in> set (gvals (Recoveries s)). rt_TaskID (rx_Target r) = task
        \<and> descends (Sessions s) sess (rt_WorkerFamilyID (rx_Target r)))"
  by (auto simp: recoveryTaskWithdrawn_def any_ancestor_iff list_ex_iff)

lemma workerTaskWithdrawnExcept_iff:
  "workerTaskWithdrawnExcept s sess task closing \<longleftrightarrow>
     (\<exists>t. gget (TaskTerminals s) task = Some t
        \<and> (closing = '''' \<or> ax_OperationKey t \<noteq> closing \<or> ax_State t \<noteq> ''closing''))
   \<or> (sess \<noteq> '''' \<and> (\<exists>r \<in> set (gvals (Recoveries s)). rt_TaskID (rx_Target r) = task
        \<and> descends (Sessions s) sess (rt_WorkerFamilyID (rx_Target r))))
   \<or> (sess \<noteq> '''' \<and> (\<exists>c \<in> set (gvals (LifecycleCancellations s)). lb_TaskID (lc_Binding c) = task
        \<and> descends (Sessions s) sess (lb_WorkerSessionID (lc_Binding c))))"
  unfolding workerTaskWithdrawnExcept_def recoveryTaskWithdrawn_iff any_ancestor_iff list_ex_iff
  by (cases "gget (TaskTerminals s) task") (simp_all, blast+)

lemma workerTaskWithdrawn_cong:
  assumes "Sessions s' = Sessions s" "TaskTerminals s' = TaskTerminals s"
    "Recoveries s' = Recoveries s" "LifecycleCancellations s' = LifecycleCancellations s"
  shows "workerTaskWithdrawn s' = workerTaskWithdrawn s"
    "workerTaskWithdrawnExcept s' = workerTaskWithdrawnExcept s"
  by (intro ext; simp add: workerTaskWithdrawn_def workerTaskWithdrawnExcept_def
      recoveryTaskWithdrawn_def assms)+

lemma authenticate_cong: "Sessions s' = Sessions s \<Longrightarrow> authenticate E s' = authenticate E s"
  by (intro ext) (simp add: authenticate_def)

lemma leaseAuth_cong:
  assumes "Sessions s' = Sessions s" "Attempts s' = Attempts s" "TaskTerminals s' = TaskTerminals s"
    "Recoveries s' = Recoveries s" "LifecycleCancellations s' = LifecycleCancellations s"
  shows "leaseAuth E s' = leaseAuth E s"
  by (intro ext) (simp add: leaseAuth_def attemptFor_def assms(2)
      workerTaskWithdrawn_cong(1) [OF assms(1,3,4,5)] authenticate_cong [OF assms(1)])

lemma attemptFor_Inr:
  "attemptFor s i sess = Inr a \<Longrightarrow> a \<in> set (gvals (Attempts s)) \<and> at_ID a = i \<and> at_SessionID a = sess"
  by (auto simp: attemptFor_def find_Some_iff)

lemma leaseAuth_Inr:
  "leaseAuth E s token sess attemptID action now = Inr (r, a) \<longleftrightarrow>
     authenticate E s token sess now = Inr r \<and> attemptFor s attemptID sess = Inr a
     \<and> \<not> workerTaskWithdrawn s sess (ar_TaskID (at_Request a)) \<and> action \<in> set (sc_Actions (se_Scope r))
     \<and> ''task:'' @ ar_TaskID (at_Request a) \<in> set (sc_Resources (se_Scope r))"
  by (auto simp: leaseAuth_def)

lemma descends_trans: "descends S i j \<Longrightarrow> descends S j k \<Longrightarrow> descends S i k"
  by (induction rule: descends.induct) (auto intro: descends_parent)

section \<open>Properties\<close>

text \<open>Withdrawal cascades. When a session is withdrawn from a task by a lifecycle cancellation, an
  owner recovery or the task's retirement, so is every session delegated from it, at any depth; no
  lease-bound action on that task passes for any of them, whatever their credentials, and none of
  their leases on it is current.\<close>

theorem withdrawal_cascades:
  assumes "workerTaskWithdrawn s anc task" "descends (Sessions s) i anc" "i \<noteq> ''''"
  shows "workerTaskWithdrawn s i task
     \<and> (leaseAuth E s token i attemptID action now = Inr (r, a) \<longrightarrow> ar_TaskID (at_Request a) \<noteq> task)
     \<and> (l_SessionID l = i \<longrightarrow> l_TaskID l = task \<longrightarrow> \<not> currentLease s l now)"
proof -
  have "workerTaskWithdrawn s i task"
    using assms descends_trans unfolding workerTaskWithdrawn_def workerTaskWithdrawnExcept_iff by blast
  then show ?thesis
    by (auto simp: leaseAuth_Inr currentLease_def currentLeaseExcept_def workerTaskWithdrawn_def)
qed

definition sample_cancelled :: lifecycle_cancellation where
  "sample_cancelled = \<lparr>lc_Sequence = 1, lc_Binding = \<lparr>lb_DispatchID = ''d'', lb_IntentID = ''i'',
     lb_BridgeSessionID = ''b'', lb_WorkerSessionID = ''r'', lb_TaskID = ''t'', lb_Checkout = ''/w'',
     lb_BaseCommit = ''c1'', lb_HostAgentID = '''', lb_AttemptID = '''', lb_LeaseID = '''', lb_ReservationFence = 1,
     lb_LeaseFence = 0\<rparr>, lc_OperationKey = ''o'', lc_PolicyRevision = ''1'', lc_Channel = ''unsupported'',
     lc_State = ''unsupported'', lc_EvidenceDigest = '''', lc_RequestedBy = ''m'', lc_RequestedAt = 1,
     lc_AcknowledgedAt = 0\<rparr>"

theorem withdrawal_cascades_witness:
  "workerTaskWithdrawn (sample_state\<lparr>LifecycleCancellations := [(''d'', sample_cancelled)]\<rparr>) ''c'' ''t''"
proof -
  let ?s = "sample_state\<lparr>LifecycleCancellations := [(''d'', sample_cancelled)]\<rparr>"
  have "workerTaskWithdrawn ?s ''r'' ''t''"
    by (simp add: workerTaskWithdrawn_def workerTaskWithdrawnExcept_iff gvals_def sample_cancelled_def descends_refl)
  moreover have "descends (Sessions ?s) ''c'' ''r''"
    by (rule descends_parent [of _ _ sample_child])
       (simp_all add: sample_child_def descends_refl sample_state_def gget_def)
  ultimately show ?thesis
    using withdrawal_cascades [of ?s "''r''" "''t''" "''c''"] by simp
qed

text \<open>References are immutable. Binding a task never changes the project or repository of a task
  already bound, nor any other task; registering an attempt never changes a registered attempt,
  answers a repeated request with the attempt first registered, and a new one names the observed
  clean checkout of the repository the owner bound to the task.\<close>

theorem references_immutable:
  "(BindTask E owner' b s = Inr (u, s') \<longrightarrow> owner_ok E s owner' \<and> gget (Tasks s') (tb_TaskID b) = Some b
      \<and> (\<forall>k old. gget (Tasks s) k = Some old \<longrightarrow> (\<exists>new. gget (Tasks s') k = Some new
           \<and> tb_ProjectID new = tb_ProjectID old \<and> tb_Repository new = tb_Repository old
           \<and> (k \<noteq> tb_TaskID b \<longrightarrow> new = old))))
   \<and> (RegisterAttempt E token sess req before s = Inr (a, s') \<longrightarrow>
      gget (Attempts s') (ar_RequestID req) = Some a \<and> at_SessionID a = sess \<and> at_Request a = req
      \<and> (\<forall>k old. gget (Attempts s) k = Some old \<longrightarrow> gget (Attempts s') k = Some old)
      \<and> (gget (Attempts s) (ar_RequestID req) = None \<longrightarrow>
           Observe E 0 (e_now E 1) (ar_Checkout req) = Inr (at_Observation a)
           \<and> (\<exists>b. gget (Tasks s) (ar_TaskID req) = Some b \<and> tb_AdmissionEnabled b
                \<and> tb_Repository b = ob_Repository (at_Observation a) \<and> at_ProjectID a = tb_ProjectID b)))"
proof (intro conjI impI, goal_cases)
  case 1
  then show ?case by (auto simp: BindTask_def)
next
  case 2
  then show ?case by (auto simp: BindTask_def)
next
  case 3
  then show ?case by (auto simp: BindTask_def split: option.splits)
next
  case 4
  then show ?case by (cases "gget (Attempts s) (ar_RequestID req)") (auto simp: RegisterAttempt_def Let_def)
next
  case 5
  then show ?case by (cases "gget (Attempts s) (ar_RequestID req)") (auto simp: RegisterAttempt_def Let_def)
next
  case 6
  then show ?case by (cases "gget (Attempts s) (ar_RequestID req)") (auto simp: RegisterAttempt_def Let_def)
next
  case 7
  then show ?case by (cases "gget (Attempts s) (ar_RequestID req)") (auto simp: RegisterAttempt_def Let_def)
next
  case 8
  then show ?case by (auto simp: RegisterAttempt_def Let_def)
next
  case 9
  then show ?case by (auto simp: RegisterAttempt_def attemptAdmission_def Let_def)
qed

theorem references_immutable_witness:
  "\<exists>new. gget (gput ''t'' \<lparr>tb_TaskID = ''t'', tb_ProjectID = ''p'', tb_Repository = ''/w/.git'',
      tb_AdmissionEnabled = False\<rparr> [(''t'', \<lparr>tb_TaskID = ''t'', tb_ProjectID = ''p'', tb_Repository = ''/w/.git'',
      tb_AdmissionEnabled = True\<rparr>)]) ''t'' = Some new \<and> tb_ProjectID new = ''p''"
proof -
  let ?b = "\<lparr>tb_TaskID = ''t'', tb_ProjectID = ''p'', tb_Repository = ''/w/.git'', tb_AdmissionEnabled = True\<rparr>"
  let ?s = "sample_state\<lparr>Tasks := [(''t'', ?b)]\<rparr>"
  have ids: "validID ''t''" "validID ''p''" by code_simp+
  have "BindTask sample_env (sample_id 0) (?b\<lparr>tb_AdmissionEnabled := False\<rparr>) ?s
      = Inr ((), ?s\<lparr>Tasks := gput ''t'' (?b\<lparr>tb_AdmissionEnabled := False\<rparr>) [(''t'', ?b)]\<rparr>)"
    using ids by (simp add: BindTask_def owner_ok_def sample_env_def is_abs_def has_prefix_def gget_def)
       (simp add: sample_state_def sample_id_def)
  with references_immutable [of sample_env "sample_id 0" "?b\<lparr>tb_AdmissionEnabled := False\<rparr>" ?s "()"
      "?s\<lparr>Tasks := gput ''t'' (?b\<lparr>tb_AdmissionEnabled := False\<rparr>) [(''t'', ?b)]\<rparr>"]
  show ?thesis by simp
qed

end
