(* ===== verification/Dispatch_Kernel.thy ===== *)
theory Dispatch_Kernel
  imports Task_Authority
begin

text \<open>
  Swarm policies and dispatch intents: the owner's policies of \<^verbatim>\<open>swarms.go\<close>, and of
  \<^verbatim>\<open>dispatch_intents.go\<close> the checks on the parties of a dispatch, the correlation of an intent
  with a host agent and the status read. The request and the acknowledgement of an intent also
  run planning, preflight, budget and registry checks of other files and are not modelled here.
\<close>

section \<open>Swarm policies (swarms.go)\<close>

text \<open>\<^verbatim>\<open>reflect.DeepEqual\<close> on policies: placements are a map, so their order does not count. A nil and
  an empty list of roles are not told apart.\<close>

definition same_placements :: "swarm_placement gmap \<Rightarrow> swarm_placement gmap \<Rightarrow> bool" where
  "same_placements m n \<longleftrightarrow> list_all (\<lambda>k. gget m k = gget n k) (map fst m @ map fst n)"

definition same_policy :: "swarm_policy \<Rightarrow> swarm_policy \<Rightarrow> bool" where
  "same_policy p q \<longleftrightarrow> p\<lparr>sw_Placements := []\<rparr> = q\<lparr>sw_Placements := []\<rparr>
     \<and> same_placements (sw_Placements p) (sw_Placements q)"

fun roles_ok :: "string list \<Rightarrow> swarm_role list \<Rightarrow> bool" where
  "roles_ok seen [] = True"
| "roles_ok seen (r # rs) =
     (validID (ro_ID r) \<and> validID (ro_Kind r) \<and> validID (ro_Harness r) \<and> 1 \<le> ro_Capacity r
      \<and> ro_ID r \<notin> set seen \<and> roles_ok (ro_ID r # seen) rs)"

definition swarm_policy_ok :: "swarm_policy \<Rightarrow> bool" where
  "swarm_policy_ok p \<longleftrightarrow>
     validID (sw_ProjectID p) \<and> validID (sw_Revision p) \<and> validID (sw_Harness p) \<and> validID (sw_CapabilityDigest p)
     \<and> 1 \<le> sw_Width p \<and> sw_Width p \<le> sw_WIP p \<and> 0 < sw_TTL p \<and> sw_TTL p \<le> 86400000000000
     \<and> sw_Placements p \<noteq> [] \<and> roles_ok [] (sw_Roles p)
     \<and> list_all (\<lambda>(task, v). validID task \<and> is_abs (sp_Checkout v) \<and> validID (sp_ImplementKind v)
          \<and> validID (sp_ReviewKind v)) (sw_Placements p)"

text \<open>The loop over the task bindings of \<^verbatim>\<open>ConfigureSwarmWithBindings\<close>, which stores each in turn.\<close>

fun bind_all :: "swarm_policy \<Rightarrow> task_binding list \<Rightarrow> task_binding gmap \<Rightarrow> task_binding gmap res" where
  "bind_all p [] tasks = Inr tasks"
| "bind_all p (b # bs) tasks =
     require (validID (tb_TaskID b) \<and> tb_ProjectID b = sw_ProjectID p \<and> tb_AdmissionEnabled b
        \<and> is_abs (tb_Repository b)) ErrDenied (
     require (gget (sw_Placements p) (tb_TaskID b) \<noteq> None) ErrDenied (
     require (case gget tasks (tb_TaskID b) of None \<Rightarrow> True | Some old \<Rightarrow> old = b) ErrDenied (
     bind_all p bs (gput (tb_TaskID b) b tasks))))"

text \<open>The key under which a revision of a project's policy is kept: \<^verbatim>\<open>p.ProjectID+"\x00"+p.Revision\<close>.\<close>

definition revision_key :: "string \<Rightarrow> string \<Rightarrow> string" where
  "revision_key project revision = project @ [CHR 0x00] @ revision"

definition ConfigureSwarmWithBindings ::
    "env \<Rightarrow> string \<Rightarrow> swarm_policy \<Rightarrow> task_binding list \<Rightarrow> state \<Rightarrow> (unit \<times> state) res" where
  "ConfigureSwarmWithBindings E owner' p bs s =
     require (swarm_policy_ok p) ErrDenied (
     require (7 \<le> Version s \<and> owner_ok E s owner') ErrDenied (
     require (case gget (SwarmPolicies s) (sw_ProjectID p) of
                None \<Rightarrow> True
              | Some old \<Rightarrow> sw_Revision old = sw_Revision p \<longrightarrow> same_policy old p) ErrDenied (
     bindr (bind_all p bs (Tasks s)) (\<lambda>tasks.
     require (list_all (\<lambda>(task, v). case gget tasks task of
                None \<Rightarrow> False
              | Some b \<Rightarrow> tb_ProjectID b = sw_ProjectID p \<and> tb_AdmissionEnabled b) (sw_Placements p)) ErrDenied (
     require (case gget (SwarmPolicies s) (revision_key (sw_ProjectID p) (sw_Revision p)) of
                None \<Rightarrow> True
              | Some prior \<Rightarrow> (case gget (SwarmPolicies s) (sw_ProjectID p) of
                  None \<Rightarrow> False
                | Some current \<Rightarrow> sw_Revision current = sw_Revision prior \<and> same_policy prior p)) ErrDenied (
     Inr ((), s\<lparr>Tasks := tasks,
        SwarmPolicies := gput (sw_ProjectID p) p
          (gput (revision_key (sw_ProjectID p) (sw_Revision p)) p (SwarmPolicies s))\<rparr>)))))))"

definition ConfigureSwarm :: "env \<Rightarrow> string \<Rightarrow> swarm_policy \<Rightarrow> state \<Rightarrow> (unit \<times> state) res" where
  "ConfigureSwarm E owner' p s = ConfigureSwarmWithBindings E owner' p [] s"

definition OwnerSwarmPolicy :: "env \<Rightarrow> string \<Rightarrow> string \<Rightarrow> state \<Rightarrow> swarm_policy res" where
  "OwnerSwarmPolicy E owner' project s =
     require (owner_ok E s owner') ErrDenied (fetch (SwarmPolicies s) project Inr)"

section \<open>The parties of a dispatch (dispatch\_intents.go)\<close>

text \<open>\<^verbatim>\<open>dispatchCapability\<close> as a success test; \<open>i\<close> numbers the calls to the observer. Its callers only
  compare its error with nil.\<close>

definition dispatchCapability :: "env \<Rightarrow> nat \<Rightarrow> state \<Rightarrow> dispatch_reservation \<Rightarrow> bool" where
  "dispatchCapability E i s d \<longleftrightarrow>
     (case gget (SwarmPolicies s) (dr_ProjectID d) of
        None \<Rightarrow> False
      | Some p \<Rightarrow> \<not> sw_Stopped p \<and> sw_Revision p = dr_PolicyRevision d \<and> sw_Harness p = dr_Harness d
          \<and> (case e_admitCapability E of
               None \<Rightarrow> False
             | Some admit \<Rightarrow> admit i (b_Workspace (Binding s)) (dr_ProjectID d) (dr_Harness d) (sw_CapabilityDigest p)))"

definition dispatchActor :: "env \<Rightarrow> state \<Rightarrow> token \<Rightarrow> ident \<Rightarrow> ident \<Rightarrow> verb \<Rightarrow> int \<Rightarrow> srecord res" where
  "dispatchActor E s token i project action now =
     bindr (authenticate E s token i now) (\<lambda>r.
     require (subset [action] (sc_Actions (se_Scope r))
        \<and> subset [''project:'' @ project] (sc_Resources (se_Scope r))) ErrDenied (Inr r))"

definition dispatchBoundActor :: "state \<Rightarrow> string \<Rightarrow> string \<Rightarrow> string \<Rightarrow> dispatch_reservation \<Rightarrow> int \<Rightarrow> bool" where
  "dispatchBoundActor s i project action d now \<longleftrightarrow>
     \<not> (action = ''lease.acquire'' \<and> workerTaskWithdrawn s i (l_TaskID (dr_Reservation d)))
     \<and> (case gget (Sessions s) i of
          None \<Rightarrow> False
        | Some r \<Rightarrow> se_Parent r = '''' \<and> swarmLineageCurrent s i now
            \<and> subset [action] (sc_Actions (se_Scope r))
            \<and> (action = ''lease.acquire'' \<or> subset [''project:'' @ project] (sc_Resources (se_Scope r)))
            \<and> list_all (\<lambda>x. subset [rs_Kind x @ '':'' @ rs_Path x] (sc_Resources (se_Scope r)))
                 (l_Resources (dr_Reservation d))
            \<and> l_ExpiresAt (dr_Reservation d) \<le> se_ExpiresAt r)"

text \<open>\<^verbatim>\<open>validHostAgentID\<close>: no rune of the identifier is a space or a control character.\<close>

definition validHostAgentID :: "string \<Rightarrow> bool" where
  "validHostAgentID i \<longleftrightarrow> length i \<noteq> 0 \<and> length i \<le> 1024 \<and> \<not> any_space i \<and> \<not> any_control i"

definition lifecycleTerminal :: "string \<Rightarrow> bool" where
  "lifecycleTerminal st \<longleftrightarrow> st = ''completed'' \<or> st = ''failed'' \<or> st = ''cancelled''"

definition lifecycleDispatchEligible :: "state \<Rightarrow> string \<Rightarrow> bool" where
  "lifecycleDispatchEligible s dispatch \<longleftrightarrow>
     (let history = gslice (LifecycleObservations s) dispatch
      in length history = 0 \<or> \<not> lifecycleTerminal (lo_State (last history)))"

section \<open>Correlating an intent with its host agent\<close>

record correlate_request =
  cr_OperationKey :: string
  cr_DispatchID :: string
  cr_IntentID :: string
  cr_HostAgentID :: string
  cr_State :: string
  cr_ExpectedFence :: "64 word"
  cr_ExpectedSequence :: "64 word"

definition jv_correlate :: "correlate_request \<Rightarrow> jval" where
  "jv_correlate q = JO [(''OperationKey'', JS (cr_OperationKey q)), (''DispatchID'', JS (cr_DispatchID q)),
     (''IntentID'', JS (cr_IntentID q)), (''HostAgentID'', JS (cr_HostAgentID q)), (''State'', JS (cr_State q)),
     (''ExpectedFence'', JW (cr_ExpectedFence q)), (''ExpectedSequence'', JW (cr_ExpectedSequence q))]"

definition CorrelateDispatchIntent ::
    "env \<Rightarrow> string \<Rightarrow> string \<Rightarrow> correlate_request \<Rightarrow> state \<Rightarrow> (dispatch_intent \<times> state) res" where
  "CorrelateDispatchIntent E token bridge req s =
     fetch (DispatchIntents s) (cr_DispatchID req) (\<lambda>i.
     require (8 \<le> Version s \<and> di_ID i = cr_IntentID req \<and> di_BridgeSessionID i = bridge) ErrDenied (
     bindr (dispatchActor E s token bridge (dr_ProjectID (di_Reservation i)) ''dispatch.correlate'' (e_now E 0)) (\<lambda>_.
     require (validID (cr_OperationKey req)
        \<and> cr_ExpectedFence req = l_Fence (dr_Reservation (di_Reservation i))) ErrDenied (
     let digest = identity E ''dispatch.correlate'' bridge (jv_correlate req)
     in case gget (DispatchIntentOperations s) (cr_OperationKey req) of
       Some old \<Rightarrow> require (ir_Digest old = digest) ErrDenied (Inr (ir_Intent old, s))
     | None \<Rightarrow>
         require (gget (Recoveries s) (''reservation:'' @ di_DispatchID i) = None) ErrDenied (
         require (gget (LifecycleCancellations s) (di_DispatchID i) = None) ErrDenied (
         require (cr_ExpectedSequence req = di_Sequence i
            \<and> (di_State i = ''dispatch_requested''
               \<or> ((di_State i = ''dispatch_unknown'' \<or> di_State i = ''manual_handoff_required'')
                  \<and> cr_State req = ''host_correlated''))) ErrDenied (
         require (if cr_State req = ''host_correlated'' then validHostAgentID (cr_HostAgentID req)
            else (cr_State req = ''manual_handoff_required'' \<or> cr_State req = ''dispatch_unknown'')
              \<and> cr_HostAgentID req = '''') ErrDenied (
         require (dispatchBoundActor s bridge (dr_ProjectID (di_Reservation i)) ''dispatch.correlate'' (di_Reservation i)
                (e_now E 1)
            \<and> swarmLineageCurrent s (di_ControllerSessionID i) (e_now E 2)) ErrDenied (
         require (cr_State req = ''host_correlated'' \<longrightarrow> dispatchCapability E 0 s (di_Reservation i)
            \<and> e_now E 3 < l_ExpiresAt (dr_Reservation (di_Reservation i))) ErrDenied (
         bindr (dispatchActor E s token bridge (dr_ProjectID (di_Reservation i)) ''dispatch.correlate'' (e_now E 4)) (\<lambda>_.
         require (swarmLineageCurrent s (di_ControllerSessionID i) (e_now E 5)) ErrDenied (
         let j = i\<lparr>di_Sequence := di_Sequence i + 1, di_State := cr_State req,
                  di_HostAgentID := cr_HostAgentID req, di_ObservedAt := e_now E 6\<rparr>
         in Inr (j, s\<lparr>DispatchIntents := gput (cr_DispatchID req) j (DispatchIntents s),
              DispatchIntentOperations := gput (cr_OperationKey req) \<lparr>ir_Digest = digest, ir_Intent = j\<rparr>
                (DispatchIntentOperations s)\<rparr>)))))))))))))"

definition DispatchIntentStatus :: "env \<Rightarrow> string \<Rightarrow> string \<Rightarrow> string \<Rightarrow> state \<Rightarrow> dispatch_intent res" where
  "DispatchIntentStatus E token actor dispatch s =
     fetch (DispatchIntents s) dispatch (\<lambda>i.
     require (8 \<le> Version s) ErrDenied (
     bindr (authenticate E s token actor (e_now E 0)) (\<lambda>r.
     require (actor = di_ControllerSessionID i \<or> actor = di_BridgeSessionID i \<or> actor = di_WorkerSessionID i) ErrDenied (
     require (subset [''read''] (sc_Actions (se_Scope r))
        \<and> subset [''task:'' @ l_TaskID (dr_Reservation (di_Reservation i))] (sc_Resources (se_Scope r))) ErrDenied (
     Inr i)))))"

section \<open>Lemmas\<close>

lemma dispatchActor_Inr:
  "dispatchActor E s token i project action now = Inr r \<longleftrightarrow>
     authenticate E s token i now = Inr r \<and> action \<in> set (sc_Actions (se_Scope r))
     \<and> ''project:'' @ project \<in> set (sc_Resources (se_Scope r))"
  by (auto simp: dispatchActor_def)

lemma dispatchActor_cong: "Sessions s' = Sessions s \<Longrightarrow> dispatchActor E s' = dispatchActor E s"
  by (intro ext) (simp add: dispatchActor_def authenticate_def)

lemma same_policy_fields: "same_policy p q \<Longrightarrow> sw_ProjectID p = sw_ProjectID q \<and> sw_Revision p = sw_Revision q"
proof -
  assume "same_policy p q"
  then have e: "p\<lparr>sw_Placements := []\<rparr> = q\<lparr>sw_Placements := []\<rparr>" by (simp only: same_policy_def)
  show ?thesis
    using arg_cong [OF e, of sw_ProjectID] arg_cong [OF e, of sw_Revision] by simp
qed

lemma same_policy_refl [simp]: "same_policy p p"
  by (simp add: same_policy_def same_placements_def list_all_iff)

lemma validID_no_nul: "validID i \<Longrightarrow> CHR 0x00 \<notin> set i"
  by (auto simp: validID_def contains_any_def list_ex_iff)

lemma bind_all_Inr:
  "bind_all p bs tasks = Inr tasks' \<Longrightarrow> gget tasks k = Some old \<Longrightarrow> gget tasks' k = Some old"
proof (induction p bs tasks rule: bind_all.induct)
  case (2 p b bs tasks)
  from 2(2) have rest: "bind_all p bs (gput (tb_TaskID b) b tasks) = Inr tasks'"
    and same: "case gget tasks (tb_TaskID b) of None \<Rightarrow> True | Some x \<Rightarrow> x = b"
    by simp_all
  have "gget (gput (tb_TaskID b) b tasks) k = Some old"
    using same 2(3) by (cases "k = tb_TaskID b") simp_all
  from 2(1) [OF rest this] show ?case .
qed simp

text \<open>The states an intent may pass through before a worker acknowledges it.\<close>

inductive intent_step :: "string \<Rightarrow> string \<Rightarrow> bool" where
  reported: "intent_step ''dispatch_requested'' ''host_correlated''"
| handed_off: "intent_step ''dispatch_requested'' ''manual_handoff_required''"
| lost: "intent_step ''dispatch_requested'' ''dispatch_unknown''"
| found: "intent_step ''dispatch_unknown'' ''host_correlated''"
| started: "intent_step ''manual_handoff_required'' ''host_correlated''"

inductive_cases intent_stepE: "intent_step a b"

definition correlate_digest :: "env \<Rightarrow> string \<Rightarrow> correlate_request \<Rightarrow> string" where
  "correlate_digest E bridge req = identity E ''dispatch.correlate'' bridge (jv_correlate req)"

lemma correlate_guards:
  assumes "CorrelateDispatchIntent E token bridge req s = Inr (j, s')"
  obtains i r where "gget (DispatchIntents s) (cr_DispatchID req) = Some i" "di_ID i = cr_IntentID req"
    "di_BridgeSessionID i = bridge" "8 \<le> Version s" "validID (cr_OperationKey req)"
    "dispatchActor E s token bridge (dr_ProjectID (di_Reservation i)) ''dispatch.correlate'' (e_now E 0) = Inr r"
    "cr_ExpectedFence req = l_Fence (dr_Reservation (di_Reservation i))"
  using assms by (force simp: CorrelateDispatchIntent_def Let_def)

lemma CorrelateDispatchIntent_Inr:
  assumes "CorrelateDispatchIntent E token bridge req s = Inr (j, s')"
  obtains (served) old where "gget (DispatchIntentOperations s) (cr_OperationKey req) = Some old"
      "ir_Digest old = correlate_digest E bridge req" "j = ir_Intent old" "s' = s"
  | (fresh) i where "gget (DispatchIntentOperations s) (cr_OperationKey req) = None"
      "gget (DispatchIntents s) (cr_DispatchID req) = Some i"
      "gget (Recoveries s) (''reservation:'' @ di_DispatchID i) = None"
      "gget (LifecycleCancellations s) (di_DispatchID i) = None"
      "intent_step (di_State i) (cr_State req)"
      "cr_State req = ''host_correlated'' \<longleftrightarrow> cr_HostAgentID req \<noteq> ''''"
      "cr_State req = ''host_correlated'' \<Longrightarrow> validHostAgentID (cr_HostAgentID req) \<and> dispatchCapability E 0 s (di_Reservation i)"
      "swarmLineageCurrent s (di_ControllerSessionID i) (e_now E 5)"
      "j = i\<lparr>di_Sequence := di_Sequence i + 1, di_State := cr_State req,
                  di_HostAgentID := cr_HostAgentID req, di_ObservedAt := e_now E 6\<rparr>"
      "s' = s\<lparr>DispatchIntents := gput (cr_DispatchID req) j (DispatchIntents s),
              DispatchIntentOperations := gput (cr_OperationKey req)
                \<lparr>ir_Digest = correlate_digest E bridge req, ir_Intent = j\<rparr> (DispatchIntentOperations s)\<rparr>"
proof (cases "gget (DispatchIntentOperations s) (cr_OperationKey req)")
  case (Some old)
  with assms show ?thesis
    by (clarsimp simp: CorrelateDispatchIntent_def Let_def) (rule served, auto simp: correlate_digest_def)
next
  case None
  from assms obtain i where i: "gget (DispatchIntents s) (cr_DispatchID req) = Some i"
    by (auto simp: CorrelateDispatchIntent_def)
  note body = assms [unfolded CorrelateDispatchIntent_def Let_def fetch_def i None option.case require_Inr bindr_Inr]
  show ?thesis
  proof (rule fresh [OF None i])
    show "intent_step (di_State i) (cr_State req)" using body by (auto split: if_splits intro: intent_step.intros)
    show "cr_State req = ''host_correlated'' \<longleftrightarrow> cr_HostAgentID req \<noteq> ''''"
      using body by (auto simp: validHostAgentID_def split: if_splits)
    show "cr_State req = ''host_correlated'' \<Longrightarrow> validHostAgentID (cr_HostAgentID req) \<and> dispatchCapability E 0 s (di_Reservation i)"
      using body by auto
  qed (use body in \<open>clarsimp simp: correlate_digest_def\<close>)+
qed

lemma correlate_served:
  "gget (DispatchIntents s) (cr_DispatchID req) = Some i \<Longrightarrow> di_ID i = cr_IntentID req \<Longrightarrow> di_BridgeSessionID i = bridge \<Longrightarrow>
   dispatchActor E s token bridge (dr_ProjectID (di_Reservation i)) ''dispatch.correlate'' (e_now E 0) = Inr r \<Longrightarrow>
   8 \<le> Version s \<Longrightarrow> validID (cr_OperationKey req) \<Longrightarrow>
   cr_ExpectedFence req = l_Fence (dr_Reservation (di_Reservation i)) \<Longrightarrow>
   gget (DispatchIntentOperations s) (cr_OperationKey req) = Some old \<Longrightarrow>
   ir_Digest old = correlate_digest E bridge req \<Longrightarrow>
   CorrelateDispatchIntent E token bridge req s = Inr (ir_Intent old, s)"
  by (simp add: CorrelateDispatchIntent_def Let_def fetch_def correlate_digest_def)

lemma correlate_again:
  assumes "CorrelateDispatchIntent E token bridge req s = Inr (j, s')"
  shows "\<exists>x. CorrelateDispatchIntent E token bridge req s' = Inr x"
  using assms
proof (cases rule: CorrelateDispatchIntent_Inr)
  case served
  with assms show ?thesis by auto
next
  case (fresh i)
  obtain i' r where g: "gget (DispatchIntents s) (cr_DispatchID req) = Some i'" "di_ID i' = cr_IntentID req"
    "di_BridgeSessionID i' = bridge" "8 \<le> Version s" "validID (cr_OperationKey req)"
    "dispatchActor E s token bridge (dr_ProjectID (di_Reservation i')) ''dispatch.correlate'' (e_now E 0) = Inr r"
    "cr_ExpectedFence req = l_Fence (dr_Reservation (di_Reservation i'))"
    using correlate_guards [OF assms] by metis
  then have i': "i' = i" using fresh(2) by simp
  have j: "gget (DispatchIntents s') (cr_DispatchID req) = Some j" "di_Reservation j = di_Reservation i"
      "di_ID j = di_ID i" "di_BridgeSessionID j = di_BridgeSessionID i" "Version s' = Version s" "Sessions s' = Sessions s"
      "gget (DispatchIntentOperations s') (cr_OperationKey req) = Some \<lparr>ir_Digest = correlate_digest E bridge req, ir_Intent = j\<rparr>"
    using fresh(9,10) by simp_all
  have "CorrelateDispatchIntent E token bridge req s'
      = Inr (ir_Intent \<lparr>ir_Digest = correlate_digest E bridge req, ir_Intent = j\<rparr>, s')"
    by (rule correlate_served [OF j(1) _ _ _ _ _ _ j(7)])
       (use g i' j dispatchActor_cong [OF j(6)] in auto)
  then show ?thesis by blast
qed

lemma correlate_hit:
  "gget (DispatchIntentOperations s) (cr_OperationKey req) = Some p \<Longrightarrow>
   CorrelateDispatchIntent E token bridge req s = Inr (j, s') \<Longrightarrow>
   ir_Digest p = correlate_digest E bridge req \<and> Some (ir_Intent p) = Some j \<and> s' = s"
  by (erule CorrelateDispatchIntent_Inr) simp_all

lemma correlate_miss:
  "gget (DispatchIntentOperations s) (cr_OperationKey req) = None \<Longrightarrow>
   CorrelateDispatchIntent E token bridge req s = Inr (j, s') \<Longrightarrow>
   \<exists>p. gget (DispatchIntentOperations s') (cr_OperationKey req) = Some p \<and> ir_Digest p = correlate_digest E bridge req
     \<and> Some (ir_Intent p) = Some j"
  by (erule CorrelateDispatchIntent_Inr) simp_all

interpretation correlate_key: idempotent
  "\<lambda>E (token, bridge, req) s. CorrelateDispatchIntent E token bridge req s"
  "\<lambda>s (token, bridge, req). gget (DispatchIntentOperations s) (cr_OperationKey req)"
  "\<lambda>E (token, bridge, req) s. correlate_digest E bridge req"
  ir_Digest "\<lambda>p. Some (ir_Intent p)"
proof (unfold_locales, goal_cases)
  case (1 s q p E r s')
  then show ?case using correlate_hit by (cases q) simp
next
  case (2 s q E r s')
  then show ?case using correlate_miss by (cases q) simp
next
  case (3 E q s r s')
  then show ?case using correlate_again by (cases q) simp
qed

inductive_cases intent_step_correlatedE: "intent_step ''host_correlated'' st"

section \<open>Properties\<close>

text \<open>C15: An intent is bound to a host agent at most once. A correlation under a new key moves the
  intent by one permitted step, changes no other part of it and no other intent, and is refused
  for a recovered reservation or a cancelled dispatch; it names a host exactly when the intent
  becomes host-correlated, which needs the capability to be admitted at that moment. From then on
  no correlation under a new key succeeds, and repeating the one that did is answered the same.\<close>

theorem correlation_binds_host_once:
  assumes "CorrelateDispatchIntent E token bridge req s = Inr (j, s')"
    "gget (DispatchIntentOperations s) (cr_OperationKey req) = None"
  shows "\<exists>i. gget (DispatchIntents s) (cr_DispatchID req) = Some i \<and> intent_step (di_State i) (di_State j)
     \<and> j = i\<lparr>di_Sequence := di_Sequence i + 1, di_State := cr_State req, di_HostAgentID := cr_HostAgentID req,
              di_ObservedAt := e_now E 6\<rparr>
     \<and> DispatchIntents s' = gput (cr_DispatchID req) j (DispatchIntents s)
     \<and> Leases s' = Leases s \<and> Dispatches s' = Dispatches s \<and> Fence s' = Fence s
     \<and> gget (Recoveries s) (''reservation:'' @ di_DispatchID i) = None
     \<and> gget (LifecycleCancellations s) (di_DispatchID i) = None
     \<and> (di_State j = ''host_correlated'' \<longleftrightarrow> di_HostAgentID j \<noteq> '''')
     \<and> (di_State j = ''host_correlated'' \<longrightarrow> dispatchCapability E 0 s (di_Reservation j))
     \<and> (di_State j = ''host_correlated'' \<longrightarrow> gget (DispatchIntents t) (cr_DispatchID req') = Some j \<longrightarrow>
          gget (DispatchIntentOperations t) (cr_OperationKey req') = None \<longrightarrow>
          CorrelateDispatchIntent E' token' bridge' req' t \<noteq> Inr x)
     \<and> CorrelateDispatchIntent E token bridge req s' = Inr (j, s')"
  using assms(1)
proof (cases rule: CorrelateDispatchIntent_Inr)
  case served
  with assms(2) show ?thesis by simp
next
  case (fresh i)
  have once: "CorrelateDispatchIntent E' token' bridge' req' t \<noteq> Inr x"
    if "di_State j = ''host_correlated''" "gget (DispatchIntents t) (cr_DispatchID req') = Some j"
      "gget (DispatchIntentOperations t) (cr_OperationKey req') = None"
  proof
    assume "CorrelateDispatchIntent E' token' bridge' req' t = Inr x"
    then have "CorrelateDispatchIntent E' token' bridge' req' t = Inr (fst x, snd x)" by simp
    then show False
      by (rule CorrelateDispatchIntent_Inr) (use that in \<open>auto elim: intent_step_correlatedE\<close>)
  qed
  show ?thesis
    using fresh once correlate_key.repeated [of E "(token, bridge, req)" s j s'] assms(1)
    by (intro exI [of _ i]) simp
qed

definition sample_party :: "string \<Rightarrow> nat \<Rightarrow> srecord" where
  "sample_party i n = \<lparr>se_ID = i, se_Parent = '''', se_Scope = \<lparr>sc_Actions = [''read'', ''dispatch.correlate'',
     ''dispatch.observe'', ''dispatch.cancel''], sc_Resources = [''project:p'', ''task:t'', ''path:src'']\<rparr>,
     se_ExpiresAt = 100, se_Revoked = False, sr_Hash = sample_id n\<rparr>"

definition sample_swarm_policy :: swarm_policy where
  "sample_swarm_policy = \<lparr>sw_ProjectID = ''p'', sw_Revision = ''k'', sw_Harness = ''h'', sw_CapabilityDigest = ''c'',
     sw_Width = 1, sw_WIP = 1, sw_TTL = 1000, sw_Stopped = False, sw_Roles = [],
     sw_Placements = [(''t'', \<lparr>sp_Checkout = ''/w'', sp_ImplementKind = ''i'', sp_ReviewKind = ''r''\<rparr>)]\<rparr>"

definition sample_reservation :: dispatch_reservation where
  "sample_reservation = \<lparr>dr_ID = ''d'', dr_ControllerSessionID = ''m'', dr_ProjectID = ''p'', dr_PolicyRevision = ''k'',
     dr_ImplementationRole = ''i'', dr_ReviewRole = ''v'', dr_Harness = ''h'', dr_BaseCommit = ''c1'', dr_BaseTree = ''t1'',
     dr_Reservation = \<lparr>l_ID = ''n'', l_AttemptID = '''', l_SessionID = '''', l_TaskID = ''t'', l_Repository = ''/w/.git'',
       l_Checkout = ''/w'', l_Resources = [\<lparr>rs_Kind = ''path'', rs_Path = ''src''\<rparr>], l_Fence = 1, l_ExpiresAt = 50,
       l_Released = False\<rparr>, dr_PreflightExpiresAt = 50, dr_PreflightDigest = '''', dr_RoleRegistry = [],
     dr_Converted = False, dr_WorkerSessionID = '''', dr_AttemptID = ''''\<rparr>"

definition sample_intent :: dispatch_intent where
  "sample_intent = \<lparr>di_SchemaVersion = 1, di_Sequence = 1, di_ID = ''n'', di_OperationKey = ''o'', di_DispatchID = ''d'',
     di_ControllerSessionID = ''m'', di_BridgeSessionID = ''b'', di_WorkerSessionID = ''r'', di_PromptSpecDigest = '''',
     di_CapabilityDigest = ''c'', di_State = ''dispatch_requested'', di_HostAgentID = '''',
     di_Reservation = sample_reservation, di_RequestedAt = 1, di_ObservedAt = 0, di_Lease = None\<rparr>"

definition sample_dispatch_state :: state where
  "sample_dispatch_state = sample_state\<lparr>Version := 10, Sessions := [(''m'', sample_party ''m'' 3), (''b'', sample_party ''b'' 4),
     (''r'', sample_root)], SwarmPolicies := [(''p'', sample_swarm_policy)], Dispatches := [(''d'', sample_reservation)],
     DispatchIntents := [(''d'', sample_intent)], Fence := 1\<rparr>"

definition sample_correlate :: correlate_request where
  "sample_correlate = \<lparr>cr_OperationKey = ''k'', cr_DispatchID = ''d'', cr_IntentID = ''n'', cr_HostAgentID = ''h1'',
     cr_State = ''host_correlated'', cr_ExpectedFence = 1, cr_ExpectedSequence = 1\<rparr>"

definition sample_correlated :: dispatch_intent where
  "sample_correlated = sample_intent\<lparr>di_Sequence := 2, di_State := ''host_correlated'', di_HostAgentID := ''h1'',
     di_ObservedAt := 10\<rparr>"

lemma sample_dispatch_state_sel [simp]:
  "Sessions sample_dispatch_state = [(''m'', sample_party ''m'' 3), (''b'', sample_party ''b'' 4), (''r'', sample_root)]"
  "SwarmPolicies sample_dispatch_state = [(''p'', sample_swarm_policy)]" "Version sample_dispatch_state = 10"
  "Dispatches sample_dispatch_state = [(''d'', sample_reservation)]" "Fence sample_dispatch_state = 1"
  "DispatchIntents sample_dispatch_state = [(''d'', sample_intent)]" "DispatchIntentOperations sample_dispatch_state = []"
  "Recoveries sample_dispatch_state = []" "LifecycleCancellations sample_dispatch_state = []"
  "TaskTerminals sample_dispatch_state = []" "Leases sample_dispatch_state = []" "Tasks sample_dispatch_state = []"
  "LifecycleObservations sample_dispatch_state = []" "LifecycleOperations sample_dispatch_state = []"
  "RecoveryOperations sample_dispatch_state = []" "OwnerHash sample_dispatch_state = sample_id 0"
  by (simp_all add: sample_dispatch_state_def sample_state_def empty_state_def)

lemma sample_party_sel [simp]:
  "se_Parent (sample_party i n) = ''''" "se_ID (sample_party i n) = i" "se_ExpiresAt (sample_party i n) = 100"
  "se_Revoked (sample_party i n) = False" "sr_Hash (sample_party i n) = sample_id n"
  "sc_Actions (se_Scope (sample_party i n)) = [''read'', ''dispatch.correlate'', ''dispatch.observe'', ''dispatch.cancel'']"
  "sc_Resources (se_Scope (sample_party i n)) = [''project:p'', ''task:t'', ''path:src'']"
  by (simp_all add: sample_party_def)

lemma sample_party_authenticates:
  assumes "Sessions s = Sessions sample_dispatch_state"
  shows "authenticate sample_env s (sample_id 3) ''m'' 10 = Inr (sample_party ''m'' 3)"
    "authenticate sample_env s (sample_id 4) ''b'' 10 = Inr (sample_party ''b'' 4)"
    "swarmLineageCurrent s ''m'' 10" "swarmLineageCurrent s ''b'' 10"
  using assms by (simp_all add: authenticate_Inr walk_ok_iff lineage_walk.simps sample_env_def gget_def
      swarmLineageCurrent_def swarm_lineage.simps)

lemma sample_env_sel [simp]:
  "e_now sample_env = (\<lambda>_. 10)" "e_mint sample_env = (\<lambda>i. Some (sample_id i))"
  "e_admitCapability sample_env = Some (\<lambda>_ _ _ _ _. True)" "e_hash sample_env = (\<lambda>x. x)"
  by (simp_all add: sample_env_def)

lemma sample_bound: "dispatchBoundActor sample_dispatch_state ''b'' ''p'' ''dispatch.correlate'' sample_reservation 10"
  by (simp add: dispatchBoundActor_def gget_def sample_party_authenticates sample_reservation_def)

lemma sample_CorrelateDispatchIntent:
  obtains s' where "CorrelateDispatchIntent sample_env (sample_id 4) ''b'' sample_correlate sample_dispatch_state
      = Inr (sample_correlated, s')"
proof -
  have ids: "validID ''k''" "validHostAgentID ''h1''" by code_simp+
  have actor: "dispatchActor sample_env sample_dispatch_state (sample_id 4) ''b'' ''p'' ''dispatch.correlate'' 10
      = Inr (sample_party ''b'' 4)"
    by (simp add: dispatchActor_Inr sample_party_authenticates)
  have capable: "dispatchCapability sample_env 0 sample_dispatch_state sample_reservation"
    by (simp add: dispatchCapability_def gget_def sample_reservation_def sample_swarm_policy_def)
  have q: "cr_OperationKey sample_correlate = ''k''" "cr_DispatchID sample_correlate = ''d''"
      "cr_IntentID sample_correlate = ''n''" "cr_HostAgentID sample_correlate = ''h1''"
      "cr_State sample_correlate = ''host_correlated''" "cr_ExpectedFence sample_correlate = 1"
      "cr_ExpectedSequence sample_correlate = 1"
    by (simp_all add: sample_correlate_def)
  have i: "di_ID sample_intent = ''n''" "di_BridgeSessionID sample_intent = ''b''" "di_ControllerSessionID sample_intent = ''m''"
      "di_DispatchID sample_intent = ''d''" "di_Reservation sample_intent = sample_reservation" "di_Sequence sample_intent = 1"
      "di_State sample_intent = ''dispatch_requested''"
    by (simp_all add: sample_intent_def)
  have d: "dr_ProjectID sample_reservation = ''p''" "l_Fence (dr_Reservation sample_reservation) = 1"
      "l_ExpiresAt (dr_Reservation sample_reservation) = 50"
    by (simp_all add: sample_reservation_def)
  have "\<exists>s'. CorrelateDispatchIntent sample_env (sample_id 4) ''b'' sample_correlate sample_dispatch_state
      = Inr (sample_correlated, s')"
    by (simp add: CorrelateDispatchIntent_def Let_def q i d gget_def ids actor capable sample_bound
        sample_party_authenticates fetch_def sample_correlated_def)
  with that show ?thesis by blast
qed

theorem correlation_binds_host_once_witness:
  "\<exists>s'. CorrelateDispatchIntent sample_env (sample_id 4) ''b'' sample_correlate s' = Inr (sample_correlated, s')"
proof -
  obtain s' where "CorrelateDispatchIntent sample_env (sample_id 4) ''b'' sample_correlate sample_dispatch_state
      = Inr (sample_correlated, s')"
    by (rule sample_CorrelateDispatchIntent)
  moreover have "gget (DispatchIntentOperations sample_dispatch_state) (cr_OperationKey sample_correlate) = None" by simp
  ultimately show ?thesis using correlation_binds_host_once by blast
qed

lemma revision_key_inject:
  assumes "validID p" "validID r" "validID p'" "validID r'"
  shows "revision_key p r = revision_key p' r' \<longleftrightarrow> p = p' \<and> r = r'"
proof
  assume "revision_key p r = revision_key p' r'"
  then have "split_on CHR 0x00 (revision_key p r) = split_on CHR 0x00 (revision_key p' r')" by simp
  moreover have "split_on CHR 0x00 (revision_key p r) = [p, r]" if "validID p" "validID r" for p r
  proof -
    have one: "split_on CHR 0x00 w = [w]" if "CHR 0x00 \<notin> set w" for w
      using that by (induction w) auto
    show ?thesis
      using that by (simp add: revision_key_def split_on_append_sep one validID_no_nul)
  qed
  ultimately show "p = p' \<and> r = r'" using assms by simp
qed simp

lemma revision_key_not_project: "validID q \<Longrightarrow> revision_key p r \<noteq> q"
  using validID_no_nul [of q] by (auto simp: revision_key_def)

text \<open>A policy revision names one policy for ever. Configuring a swarm needs the owner and a
  well-formed policy, makes it the project's current policy and files it under its revision; every
  revision filed before keeps its policy, a superseded revision cannot be configured again, no
  task bound before is rebound, and every task the policy places is bound to the project with
  admission enabled.\<close>

theorem swarm_revision_immutable:
  assumes "ConfigureSwarmWithBindings E owner' p bs s = Inr (u, s')"
  shows "owner_ok E s owner' \<and> swarm_policy_ok p \<and> gget (SwarmPolicies s') (sw_ProjectID p) = Some p
     \<and> gget (SwarmPolicies s') (revision_key (sw_ProjectID p) (sw_Revision p)) = Some p
     \<and> (\<forall>project revision old. gget (SwarmPolicies s) (revision_key project revision) = Some old \<longrightarrow>
          (\<exists>new. gget (SwarmPolicies s') (revision_key project revision) = Some new \<and> same_policy old new))
     \<and> (gget (SwarmPolicies s) (revision_key (sw_ProjectID p) (sw_Revision p)) = Some old \<longrightarrow>
          (\<exists>current. gget (SwarmPolicies s) (sw_ProjectID p) = Some current \<and> sw_Revision current = sw_Revision p))
     \<and> (\<forall>project. validID project \<longrightarrow> project \<noteq> sw_ProjectID p \<longrightarrow>
          gget (SwarmPolicies s') project = gget (SwarmPolicies s) project)
     \<and> (\<forall>k b. gget (Tasks s) k = Some b \<longrightarrow> gget (Tasks s') k = Some b)
     \<and> (\<forall>(task, v) \<in> set (sw_Placements p). \<exists>b. gget (Tasks s') task = Some b \<and> tb_ProjectID b = sw_ProjectID p
          \<and> tb_AdmissionEnabled b)"
proof -
  let ?k = "revision_key (sw_ProjectID p) (sw_Revision p)"
  from assms obtain tasks where c: "swarm_policy_ok p" "owner_ok E s owner'" "bind_all p bs (Tasks s) = Inr tasks"
      "list_all (\<lambda>(task, v). case gget tasks task of None \<Rightarrow> False
         | Some b \<Rightarrow> tb_ProjectID b = sw_ProjectID p \<and> tb_AdmissionEnabled b) (sw_Placements p)"
    and prior: "\<And>q. gget (SwarmPolicies s) ?k = Some q \<Longrightarrow> \<exists>current. gget (SwarmPolicies s) (sw_ProjectID p) = Some current
         \<and> sw_Revision current = sw_Revision q \<and> same_policy q p"
    and s': "s' = s\<lparr>Tasks := tasks, SwarmPolicies := gput (sw_ProjectID p) p (gput ?k p (SwarmPolicies s))\<rparr>"
    unfolding ConfigureSwarmWithBindings_def by (force split: option.splits)
  have ids: "validID (sw_ProjectID p)" using c(1) by (simp add: swarm_policy_ok_def)
  note [simp] = revision_key_not_project [OF ids] revision_key_not_project [OF ids, symmetric]
  have kept: "\<exists>new. gget (SwarmPolicies s') (revision_key project revision) = Some new \<and> same_policy old new"
    if "gget (SwarmPolicies s) (revision_key project revision) = Some old" for project revision old
    using that prior by (cases "revision_key project revision = ?k") (auto simp: s')
  have placed: "\<exists>b. gget tasks task = Some b \<and> tb_ProjectID b = sw_ProjectID p \<and> tb_AdmissionEnabled b"
    if "(task, v) \<in> set (sw_Placements p)" for task v
    using c(4) that by (auto simp: list_all_iff split: option.splits dest: bspec)
  have other: "gget (SwarmPolicies s') project = gget (SwarmPolicies s) project"
    if "validID project" "project \<noteq> sw_ProjectID p" for project
    using that revision_key_not_project [OF that(1)] by (auto simp: s')
  have current: "\<exists>current. gget (SwarmPolicies s) (sw_ProjectID p) = Some current \<and> sw_Revision current = sw_Revision p"
    if "gget (SwarmPolicies s) ?k = Some old" for old
    using prior [OF that] same_policy_fields by metis
  show ?thesis
    using c(1,2) kept placed other current bind_all_Inr [OF c(3)] by (auto simp: s')
qed

theorem swarm_revision_immutable_witness:
  "\<exists>s'. ConfigureSwarm sample_env (sample_id 0) sample_swarm_policy
      (sample_dispatch_state\<lparr>Tasks := [(''t'', \<lparr>tb_TaskID = ''t'', tb_ProjectID = ''p'', tb_Repository = ''/w/.git'',
         tb_AdmissionEnabled = True\<rparr>)]\<rparr>) = Inr ((), s')
     \<and> gget (SwarmPolicies s') (revision_key ''p'' ''k'') = Some sample_swarm_policy"
proof -
  let ?s = "sample_dispatch_state\<lparr>Tasks := [(''t'', \<lparr>tb_TaskID = ''t'', tb_ProjectID = ''p'', tb_Repository = ''/w/.git'',
         tb_AdmissionEnabled = True\<rparr>)]\<rparr>"
  have ok: "swarm_policy_ok sample_swarm_policy" by code_simp
  have "\<exists>s'. ConfigureSwarmWithBindings sample_env (sample_id 0) sample_swarm_policy [] ?s = Inr ((), s')"
    by (simp add: ConfigureSwarmWithBindings_def ok owner_ok_def gget_def)
       (simp add: sample_swarm_policy_def sample_id_def revision_key_def same_policy_def same_placements_def)
  then obtain s' where c: "ConfigureSwarmWithBindings sample_env (sample_id 0) sample_swarm_policy [] ?s = Inr ((), s')" ..
  have "sw_ProjectID sample_swarm_policy = ''p''" "sw_Revision sample_swarm_policy = ''k''"
    by (simp_all add: sample_swarm_policy_def)
  with swarm_revision_immutable [OF c] c show ?thesis by (auto simp: ConfigureSwarm_def)
qed

end
