(* ===== verification/Lifecycle_Kernel.thy ===== *)
theory Lifecycle_Kernel
  imports Dispatch_Kernel
begin

text \<open>
  \<^verbatim>\<open>lifecycle.go\<close>: the owner's lifecycle policies, the append-only log of cooperative host reports
  on a dispatch, the cancellation of a dispatch (which withdraws the worker from its task before
  any host action is permitted, and frees nothing), its acknowledgement, and the status read.
\<close>

section \<open>Requests\<close>

record observe_request =
  ob_OperationKey :: string
  ob_Binding :: lifecycle_binding
  ob_ExpectedSequence :: "64 word"
  ob_HostSequence :: "64 word"
  ob_State :: string
  ob_Source :: string
  ob_EvidenceDigest :: string
  ob_SourceTime :: int

record cancel_request =
  cl_OperationKey :: string
  cl_Binding :: lifecycle_binding

record acknowledge_request =
  ak_ExpectedSequence :: "64 word"
  ak_OperationKey :: string
  ak_Binding :: lifecycle_binding
  ak_State :: string
  ak_EvidenceDigest :: string

record cancellation_result =
  cx_Cancellation :: lifecycle_cancellation
  cx_HostActionAuthorized :: bool

record lifecycle_status =
  ls_Binding :: lifecycle_binding
  ls_Observations :: "lifecycle_observation list"
  ls_Cancellation :: "lifecycle_cancellation option"
  ls_State :: string
  ls_Freshness :: string
  ls_ObservedAt :: int
  ls_FreshUntil :: int
  ls_ResourcesRetained :: bool

definition jv_binding :: "lifecycle_binding \<Rightarrow> jval" where
  "jv_binding b = JO [(''DispatchID'', JS (lb_DispatchID b)), (''IntentID'', JS (lb_IntentID b)),
     (''BridgeSessionID'', JS (lb_BridgeSessionID b)), (''WorkerSessionID'', JS (lb_WorkerSessionID b)),
     (''TaskID'', JS (lb_TaskID b)), (''Checkout'', JS (lb_Checkout b)), (''BaseCommit'', JS (lb_BaseCommit b)),
     (''HostAgentID'', JS (lb_HostAgentID b)), (''AttemptID'', JS (lb_AttemptID b)), (''LeaseID'', JS (lb_LeaseID b)),
     (''ReservationFence'', JW (lb_ReservationFence b)), (''LeaseFence'', JW (lb_LeaseFence b))]"

definition jv_observe :: "observe_request \<Rightarrow> jval" where
  "jv_observe q = JO [(''OperationKey'', JS (ob_OperationKey q)), (''Binding'', jv_binding (ob_Binding q)),
     (''ExpectedSequence'', JW (ob_ExpectedSequence q)), (''HostSequence'', JW (ob_HostSequence q)),
     (''State'', JS (ob_State q)), (''Source'', JS (ob_Source q)), (''EvidenceDigest'', JS (ob_EvidenceDigest q)),
     (''SourceTime'', JT (ob_SourceTime q))]"

definition jv_cancel :: "cancel_request \<Rightarrow> jval" where
  "jv_cancel q = JO [(''OperationKey'', JS (cl_OperationKey q)), (''Binding'', jv_binding (cl_Binding q))]"

definition jv_acknowledge :: "acknowledge_request \<Rightarrow> jval" where
  "jv_acknowledge q = JO [(''ExpectedSequence'', JW (ak_ExpectedSequence q)), (''OperationKey'', JS (ak_OperationKey q)),
     (''Binding'', jv_binding (ak_Binding q)), (''State'', JS (ak_State q)), (''EvidenceDigest'', JS (ak_EvidenceDigest q))]"

section \<open>Policies\<close>

definition lifecycle_policy_ok :: "lifecycle_policy \<Rightarrow> bool" where
  "lifecycle_policy_ok p \<longleftrightarrow> lp_SchemaVersion p = 1 \<and> validID (lp_ProjectID p) \<and> validID (lp_Revision p)
     \<and> lp_Source p = ''owner-manual-native-host'' \<and> 0 < lp_Freshness p \<and> lp_Freshness p \<le> 3600000000000
     \<and> (lp_CancellationChannel p = ''unsupported'' \<or> lp_CancellationChannel p = ''owner-manual-native-host'')"

text \<open>Reading a missing inner map of Go's map of maps is reading an empty one.\<close>

definition inner :: "'v gmap gmap \<Rightarrow> string \<Rightarrow> 'v gmap" where
  "inner m k = (case gget m k of None \<Rightarrow> [] | Some n \<Rightarrow> n)"

definition ConfigureLifecycle :: "env \<Rightarrow> string \<Rightarrow> lifecycle_policy \<Rightarrow> state \<Rightarrow> (unit \<times> state) res" where
  "ConfigureLifecycle E owner' p s =
     require (9 \<le> Version s \<and> owner_ok E s owner' \<and> lifecycle_policy_ok p) ErrDenied (
     fetch (SwarmPolicies s) (lp_ProjectID p) (\<lambda>_.
     case gget (inner (LifecyclePolicyHistory s) (lp_ProjectID p)) (lp_Revision p) of
       Some old \<Rightarrow> require (old = p) ErrDenied (Inr ((), s))
     | None \<Rightarrow> Inr ((), s\<lparr>LifecyclePolicyHistory := gput (lp_ProjectID p)
            (gput (lp_Revision p) p (inner (LifecyclePolicyHistory s) (lp_ProjectID p))) (LifecyclePolicyHistory s),
          LifecyclePolicies := gput (lp_ProjectID p) p (LifecyclePolicies s)\<rparr>)))"

definition OwnerLifecyclePolicy :: "env \<Rightarrow> string \<Rightarrow> string \<Rightarrow> state \<Rightarrow> lifecycle_policy res" where
  "OwnerLifecyclePolicy E owner' project s =
     require (9 \<le> Version s \<and> owner_ok E s owner') ErrDenied (fetch (LifecyclePolicies s) project Inr)"

section \<open>The binding of a dispatch\<close>

definition lifecycleBinding :: "dispatch_intent \<Rightarrow> lifecycle_binding" where
  "lifecycleBinding i =
     (let d = di_Reservation i;
          l = (case di_Lease i of None \<Rightarrow> zero_lease | Some l \<Rightarrow> l)
      in \<lparr>lb_DispatchID = di_DispatchID i, lb_IntentID = di_ID i, lb_BridgeSessionID = di_BridgeSessionID i,
          lb_WorkerSessionID = di_WorkerSessionID i, lb_TaskID = l_TaskID (dr_Reservation d),
          lb_Checkout = l_Checkout (dr_Reservation d), lb_BaseCommit = dr_BaseCommit d,
          lb_HostAgentID = di_HostAgentID i, lb_AttemptID = l_AttemptID l, lb_LeaseID = l_ID l,
          lb_ReservationFence = l_Fence (dr_Reservation d), lb_LeaseFence = l_Fence l\<rparr>)"

definition lifecycleIntent :: "state \<Rightarrow> lifecycle_binding \<Rightarrow> dispatch_intent res" where
  "lifecycleIntent s b =
     fetch (DispatchIntents s) (lb_DispatchID b) (\<lambda>i.
     require (9 \<le> Version s \<and> lifecycleBinding i = b) ErrDenied (Inr i))"

section \<open>Handlers\<close>

definition ObserveLifecycle ::
    "env \<Rightarrow> string \<Rightarrow> string \<Rightarrow> observe_request \<Rightarrow> state \<Rightarrow> (lifecycle_observation \<times> state) res" where
  "ObserveLifecycle E token bridge req s =
     fetch (DispatchIntents s) (lb_DispatchID (ob_Binding req)) (\<lambda>i.
     require (9 \<le> Version s \<and> di_ID i = lb_IntentID (ob_Binding req)) ErrDenied (
     require (bridge = di_BridgeSessionID i) ErrDenied (
     bindr (dispatchActor E s token bridge (dr_ProjectID (di_Reservation i)) ''dispatch.observe'' (e_now E 0)) (\<lambda>_.
     require (validID (ob_OperationKey req)) ErrDenied (
     let digest = identity E ''lifecycle.observe'' bridge (jv_observe req)
     in case gget (LifecycleOperations s) (ob_OperationKey req) of
       Some old \<Rightarrow>
         require (lr_Digest old = digest) ErrDenied (
         bindr (from_option (lr_Observation old) ErrDenied) (\<lambda>x. Inr (x, s)))
     | None \<Rightarrow>
         bindr (lifecycleIntent s (ob_Binding req)) (\<lambda>_.
         fetch (LifecyclePolicies s) (dr_ProjectID (di_Reservation i)) (\<lambda>p.
         let now = e_now E 1 in
         require (ob_Source req = lp_Source p \<and> validDigest (ob_EvidenceDigest req) \<and> ob_SourceTime req \<noteq> 0
            \<and> ob_SourceTime req \<le> now + 60000000000 \<and> di_HostAgentID i \<noteq> ''''
            \<and> (ob_State req = ''running'' \<or> ob_State req = ''unknown'' \<or> lifecycleTerminal (ob_State req))) ErrDenied (
         let history = gslice (LifecycleObservations s) (di_DispatchID i) in
         require (ob_ExpectedSequence req = of_nat (length history) \<and> ob_HostSequence req \<noteq> 0) ErrDenied (
         require (0 < length history \<longrightarrow> lo_HostSequence (last history) < ob_HostSequence req
            \<and> lo_SourceTime (last history) \<le> ob_SourceTime req
            \<and> \<not> lifecycleTerminal (lo_State (last history))) ErrDenied (
         let result = \<lparr>lo_Sequence = of_nat (length history) + 1, lo_HostSequence = ob_HostSequence req,
               lo_Binding = ob_Binding req, lo_State = ob_State req, lo_Source = ob_Source req,
               lo_Assurance = ''cooperative-owner-provisioned-bridge'', lo_EvidenceDigest = ob_EvidenceDigest req,
               lo_SourceTime = ob_SourceTime req, lo_ReceivedAt = now\<rparr> in
         bindr (dispatchActor E s token bridge (dr_ProjectID (di_Reservation i)) ''dispatch.observe'' (e_now E 2)) (\<lambda>_.
         Inr (result, s\<lparr>LifecycleObservations := gput (di_DispatchID i) (history @ [result]) (LifecycleObservations s),
            LifecycleOperations := gput (ob_OperationKey req)
              \<lparr>lr_Digest = digest, lr_Observation = Some result, lr_Cancellation = None\<rparr> (LifecycleOperations s)\<rparr>))))))))))))"

definition CancelLifecycle ::
    "env \<Rightarrow> string \<Rightarrow> string \<Rightarrow> cancel_request \<Rightarrow> state \<Rightarrow> (cancellation_result \<times> state) res" where
  "CancelLifecycle E token controller req s =
     fetch (DispatchIntents s) (lb_DispatchID (cl_Binding req)) (\<lambda>i.
     require (9 \<le> Version s \<and> di_ID i = lb_IntentID (cl_Binding req)) ErrDenied (
     require (di_ControllerSessionID i = controller) ErrDenied (
     bindr (dispatchActor E s token controller (dr_ProjectID (di_Reservation i)) ''dispatch.cancel'' (e_now E 0)) (\<lambda>_.
     require (validID (cl_OperationKey req)) ErrDenied (
     let digest = identity E ''lifecycle.cancel'' controller (jv_cancel req)
     in case gget (LifecycleOperations s) (cl_OperationKey req) of
       Some old \<Rightarrow>
         require (lr_Digest old = digest) ErrDenied (
         bindr (from_option (lr_Cancellation old) ErrDenied) (\<lambda>x.
         Inr (\<lparr>cx_Cancellation = x, cx_HostActionAuthorized = False\<rparr>, s)))
     | None \<Rightarrow>
         bindr (lifecycleIntent s (cl_Binding req)) (\<lambda>_.
         require (gget (LifecycleCancellations s) (di_DispatchID i) = None) ErrDenied (
         bindr (lifecycleIntent s (cl_Binding req)) (\<lambda>_.
         fetch (LifecyclePolicies s) (dr_ProjectID (di_Reservation i)) (\<lambda>p.
         require (lp_CancellationEnabled p) ErrDenied (
         let held = (case gget (Sessions s) controller of None \<Rightarrow> [] | Some r \<Rightarrow> sc_Resources (se_Scope r)) in
         require (list_all (\<lambda>x. subset [rs_Kind x @ '':'' @ rs_Path x] held)
            (l_Resources (dr_Reservation (di_Reservation i)))) ErrDenied (
         let st = (if lp_CancellationChannel p = ''unsupported'' then ''unsupported''
                   else if di_HostAgentID i = '''' then ''manual_handoff_required'' else ''requested'');
             permit = (lp_CancellationChannel p \<noteq> ''unsupported'' \<and> di_HostAgentID i \<noteq> '''');
             c = \<lparr>lc_Sequence = 1, lc_Binding = cl_Binding req, lc_OperationKey = cl_OperationKey req,
                  lc_PolicyRevision = lp_Revision p, lc_Channel = lp_CancellationChannel p, lc_State = st,
                  lc_EvidenceDigest = '''', lc_RequestedBy = controller, lc_RequestedAt = e_now E 1,
                  lc_AcknowledgedAt = 0\<rparr> in
         bindr (dispatchActor E s token controller (dr_ProjectID (di_Reservation i)) ''dispatch.cancel'' (e_now E 2)) (\<lambda>_.
         Inr (\<lparr>cx_Cancellation = c, cx_HostActionAuthorized = permit\<rparr>,
            s\<lparr>LifecycleCancellations := gput (di_DispatchID i) c (LifecycleCancellations s),
              LifecycleOperations := gput (cl_OperationKey req)
                \<lparr>lr_Digest = digest, lr_Observation = None, lr_Cancellation = Some c\<rparr> (LifecycleOperations s)\<rparr>)))))))))))))"

definition AcknowledgeCancellation ::
    "env \<Rightarrow> string \<Rightarrow> string \<Rightarrow> acknowledge_request \<Rightarrow> state \<Rightarrow> (lifecycle_cancellation \<times> state) res" where
  "AcknowledgeCancellation E token bridge req s =
     fetch (DispatchIntents s) (lb_DispatchID (ak_Binding req)) (\<lambda>i.
     require (9 \<le> Version s \<and> di_ID i = lb_IntentID (ak_Binding req)) ErrDenied (
     require (bridge = di_BridgeSessionID i) ErrDenied (
     bindr (dispatchActor E s token bridge (dr_ProjectID (di_Reservation i)) ''dispatch.observe'' (e_now E 0)) (\<lambda>_.
     require (validID (ak_OperationKey req) \<and> validDigest (ak_EvidenceDigest req)) ErrDenied (
     let digest = identity E ''lifecycle.cancel-ack'' bridge (jv_acknowledge req)
     in case gget (LifecycleOperations s) (ak_OperationKey req) of
       Some old \<Rightarrow>
         require (lr_Digest old = digest) ErrDenied (
         bindr (from_option (lr_Cancellation old) ErrDenied) (\<lambda>x. Inr (x, s)))
     | None \<Rightarrow>
         bindr (lifecycleIntent s (ak_Binding req)) (\<lambda>_.
         fetch (LifecycleCancellations s) (di_DispatchID i) (\<lambda>c.
         require (ak_ExpectedSequence req = lc_Sequence c \<and> lc_State c \<noteq> ''acknowledged''
            \<and> (ak_State req = ''acknowledged'' \<or> ak_State req = ''dispatch_unknown'' \<or> ak_State req = ''unsupported'')
            \<and> (ak_State req = ''acknowledged'' \<longrightarrow>
                 lc_Channel c = ''owner-manual-native-host'' \<and> di_HostAgentID i \<noteq> '''')) ErrDenied (
         let c' = c\<lparr>lc_Sequence := lc_Sequence c + 1, lc_State := ak_State req,
                    lc_EvidenceDigest := ak_EvidenceDigest req, lc_AcknowledgedAt := e_now E 1\<rparr> in
         bindr (dispatchActor E s token bridge (dr_ProjectID (di_Reservation i)) ''dispatch.observe'' (e_now E 2)) (\<lambda>_.
         Inr (c', s\<lparr>LifecycleCancellations := gput (di_DispatchID i) c' (LifecycleCancellations s),
            LifecycleOperations := gput (ak_OperationKey req)
              \<lparr>lr_Digest = digest, lr_Observation = None, lr_Cancellation = Some c'\<rparr> (LifecycleOperations s)\<rparr>))))))))))"

text \<open>The zero record Go reads for a dispatch that is not stored: its reservation is retained unless
  a recovery is filed under the empty identifier.\<close>

definition zero_reservation :: dispatch_reservation where
  "zero_reservation = \<lparr>dr_ID = '''', dr_ControllerSessionID = '''', dr_ProjectID = '''', dr_PolicyRevision = '''',
     dr_ImplementationRole = '''', dr_ReviewRole = '''', dr_Harness = '''', dr_BaseCommit = '''', dr_BaseTree = '''',
     dr_Reservation = zero_lease, dr_PreflightExpiresAt = 0, dr_PreflightDigest = '''', dr_RoleRegistry = [],
     dr_Converted = False, dr_WorkerSessionID = '''', dr_AttemptID = ''''\<rparr>"

definition LifecycleStatus :: "env \<Rightarrow> string \<Rightarrow> string \<Rightarrow> string \<Rightarrow> state \<Rightarrow> lifecycle_status res" where
  "LifecycleStatus E token sess dispatch s =
     fetch (DispatchIntents s) dispatch (\<lambda>i.
     require (9 \<le> Version s) ErrDenied (
     bindr (authenticate E s token sess (e_now E 0)) (\<lambda>r.
     require (subset [''read''] (sc_Actions (se_Scope r))
        \<and> subset [''task:'' @ l_TaskID (dr_Reservation (di_Reservation i))] (sc_Resources (se_Scope r))
        \<and> (sess = di_ControllerSessionID i \<or> sess = di_BridgeSessionID i \<or> sess = di_WorkerSessionID i)) ErrDenied (
     fetch (LifecyclePolicies s) (dr_ProjectID (di_Reservation i)) (\<lambda>p.
     let history = gslice (LifecycleObservations s) dispatch;
         at = e_now E 1;
         d = (case gget (Dispatches s) dispatch of None \<Rightarrow> zero_reservation | Some d \<Rightarrow> d);
         retained = (case di_Lease i of
             None \<Rightarrow> reservationRetained s d
           | Some held \<Rightarrow> (case gget (Leases s) (l_ID held) of
               None \<Rightarrow> reservationRetained s d
             | Some l \<Rightarrow> \<not> l_Released l));
         until = (if history = [] then 0 else lo_SourceTime (last history) + lp_Freshness p);
         stale = (\<not> at < until)
     in Inr \<lparr>ls_Binding = lifecycleBinding i, ls_Observations = history,
          ls_Cancellation = gget (LifecycleCancellations s) dispatch,
          ls_State = (if history = [] \<or> (stale \<and> \<not> lifecycleTerminal (lo_State (last history))) then ''unknown''
                      else lo_State (last history)),
          ls_Freshness = (if history = [] then ''missing'' else if stale then ''stale'' else ''fresh''),
          ls_ObservedAt = at, ls_FreshUntil = until, ls_ResourcesRetained = retained\<rparr>)))))"

section \<open>Revisioned policies\<close>

text \<open>
  The contract of the owner's revisioned policies: a revision is entered once, entering it makes it
  current, and configuring a revision that was entered before changes nothing.
\<close>

locale policy_history =
  fixes configure :: "'e \<Rightarrow> string \<Rightarrow> 'p \<Rightarrow> 's \<Rightarrow> (unit \<times> 's) res"
    and entry :: "'s \<Rightarrow> string \<Rightarrow> string \<Rightarrow> 'p option"
    and current :: "'s \<Rightarrow> string \<Rightarrow> 'p option"
    and project :: "'p \<Rightarrow> string"
    and revision :: "'p \<Rightarrow> string"
  assumes entered: "configure E o' p s = Inr (u, s') \<Longrightarrow> entry s (project p) (revision p) = Some q \<Longrightarrow> q = p \<and> s' = s"
    and new_entry: "configure E o' p s = Inr (u, s') \<Longrightarrow> entry s (project p) (revision p) = None \<Longrightarrow>
      entry s' a b = (if a = project p \<and> b = revision p then Some p else entry s a b)
      \<and> current s' a = (if a = project p then Some p else current s a)"
begin

lemma kept:
  assumes "configure E o' p s = Inr (u, s')" "entry s a b = Some q"
  shows "entry s' a b = Some q"
proof (cases "entry s (project p) (revision p)")
  case None
  with new_entry [OF assms(1) None, of a b] assms(2) show ?thesis by (auto split: if_splits)
next
  case (Some x)
  with entered [OF assms(1)] assms(2) show ?thesis by simp
qed

lemma filed:
  assumes "configure E o' p s = Inr (u, s')"
  shows "entry s' (project p) (revision p) = Some p"
proof (cases "entry s (project p) (revision p)")
  case None
  with new_entry [OF assms None] show ?thesis by simp
next
  case (Some x)
  with entered [OF assms Some] show ?thesis by simp
qed

lemma no_rollback:
  "configure E o' p s = Inr (u, s') \<Longrightarrow> entry t = entry s' \<Longrightarrow> configure E' o'' p t = Inr (v, t') \<Longrightarrow> t' = t"
  using filed entered by metis

end

lemma inner_gput: "inner (gput k n m) k' = (if k' = k then n else inner m k')"
  by (simp add: inner_def)

lemma ConfigureLifecycle_cases:
  assumes "ConfigureLifecycle E o' p s = Inr (u, s')"
  shows "owner_ok E s o' \<and> lifecycle_policy_ok p \<and>
     (case gget (inner (LifecyclePolicyHistory s) (lp_ProjectID p)) (lp_Revision p) of
        Some q \<Rightarrow> q = p \<and> s' = s
      | None \<Rightarrow> s' = s\<lparr>LifecyclePolicyHistory := gput (lp_ProjectID p)
            (gput (lp_Revision p) p (inner (LifecyclePolicyHistory s) (lp_ProjectID p))) (LifecyclePolicyHistory s),
          LifecyclePolicies := gput (lp_ProjectID p) p (LifecyclePolicies s)\<rparr>)"
  using assms by (auto simp: ConfigureLifecycle_def split: option.splits)

interpretation lifecycle_history: policy_history ConfigureLifecycle
  "\<lambda>s a b. gget (inner (LifecyclePolicyHistory s) a) b" "\<lambda>s a. gget (LifecyclePolicies s) a" lp_ProjectID lp_Revision
proof (unfold_locales, goal_cases)
  case (1 E o' p s u s' q)
  from ConfigureLifecycle_cases [OF 1(1)] 1(2) show ?case by simp
next
  case (2 E o' p s u s' a b)
  from ConfigureLifecycle_cases [OF 2(1)] 2(2) show ?case by (simp add: inner_gput)
qed

section \<open>What the handlers do on success\<close>

lemma lifecycleIntent_Inr:
  "lifecycleIntent s b = Inr i \<longleftrightarrow> gget (DispatchIntents s) (lb_DispatchID b) = Some i \<and> 9 \<le> Version s \<and> lifecycleBinding i = b"
  by (auto simp: lifecycleIntent_def)

lemma lifecycleBinding_sel [simp]:
  "lb_DispatchID (lifecycleBinding i) = di_DispatchID i" "lb_IntentID (lifecycleBinding i) = di_ID i"
  "lb_WorkerSessionID (lifecycleBinding i) = di_WorkerSessionID i"
  "lb_TaskID (lifecycleBinding i) = l_TaskID (dr_Reservation (di_Reservation i))"
  by (simp_all add: lifecycleBinding_def Let_def)

definition observe_digest :: "env \<Rightarrow> string \<Rightarrow> observe_request \<Rightarrow> string" where
  "observe_digest E bridge req = identity E ''lifecycle.observe'' bridge (jv_observe req)"

definition cancel_digest :: "env \<Rightarrow> string \<Rightarrow> cancel_request \<Rightarrow> string" where
  "cancel_digest E controller req = identity E ''lifecycle.cancel'' controller (jv_cancel req)"

definition acknowledge_digest :: "env \<Rightarrow> string \<Rightarrow> acknowledge_request \<Rightarrow> string" where
  "acknowledge_digest E bridge req = identity E ''lifecycle.cancel-ack'' bridge (jv_acknowledge req)"

definition reportable :: "string \<Rightarrow> bool" where
  "reportable st \<longleftrightarrow> st = ''running'' \<or> st = ''unknown'' \<or> lifecycleTerminal st"

lemma ObserveLifecycle_Inr:
  assumes "ObserveLifecycle E token bridge req s = Inr (x, s')"
  obtains (served) p where "gget (LifecycleOperations s) (ob_OperationKey req) = Some p"
      "lr_Digest p = observe_digest E bridge req" "lr_Observation p = Some x" "s' = s"
  | (fresh) i p r where "gget (LifecycleOperations s) (ob_OperationKey req) = None"
      "gget (DispatchIntents s) (di_DispatchID i) = Some i" "lifecycleBinding i = ob_Binding req"
      "gget (LifecyclePolicies s) (dr_ProjectID (di_Reservation i)) = Some p"
      "di_BridgeSessionID i = bridge" "authenticate E s token bridge (e_now E 0) = Inr r"
      "di_HostAgentID i \<noteq> ''''" "reportable (ob_State req)" "ob_HostSequence req \<noteq> 0"
      "gslice (LifecycleObservations s) (di_DispatchID i) \<noteq> [] \<Longrightarrow>
         lo_HostSequence (last (gslice (LifecycleObservations s) (di_DispatchID i))) < ob_HostSequence req
         \<and> lo_SourceTime (last (gslice (LifecycleObservations s) (di_DispatchID i))) \<le> ob_SourceTime req
         \<and> \<not> lifecycleTerminal (lo_State (last (gslice (LifecycleObservations s) (di_DispatchID i))))"
      "x = \<lparr>lo_Sequence = of_nat (length (gslice (LifecycleObservations s) (di_DispatchID i))) + 1,
               lo_HostSequence = ob_HostSequence req,
               lo_Binding = ob_Binding req, lo_State = ob_State req, lo_Source = ob_Source req,
               lo_Assurance = ''cooperative-owner-provisioned-bridge'', lo_EvidenceDigest = ob_EvidenceDigest req,
               lo_SourceTime = ob_SourceTime req, lo_ReceivedAt = e_now E 1\<rparr>"
      "s' = s\<lparr>LifecycleObservations := gput (di_DispatchID i)
              (gslice (LifecycleObservations s) (di_DispatchID i) @ [x]) (LifecycleObservations s),
            LifecycleOperations := gput (ob_OperationKey req)
              \<lparr>lr_Digest = observe_digest E bridge req, lr_Observation = Some x, lr_Cancellation = None\<rparr>
              (LifecycleOperations s)\<rparr>"
proof (cases "gget (LifecycleOperations s) (ob_OperationKey req)")
  case (Some p)
  with assms show ?thesis
    by (clarsimp simp: ObserveLifecycle_def Let_def) (rule served, auto simp: observe_digest_def)
next
  case None
  from assms obtain i where i: "gget (DispatchIntents s) (lb_DispatchID (ob_Binding req)) = Some i"
    by (auto simp: ObserveLifecycle_def)
  note body = assms [unfolded ObserveLifecycle_def Let_def fetch_def i None option.case require_Inr bindr_Inr]
  from body have b: "lifecycleBinding i = ob_Binding req" by (auto simp: lifecycleIntent_Inr i)
  then have k: "lb_DispatchID (ob_Binding req) = di_DispatchID i" by (metis lifecycleBinding_sel(1))
  from body obtain p where p: "gget (LifecyclePolicies s) (dr_ProjectID (di_Reservation i)) = Some p"
    by (auto split: option.splits)
  from body obtain r where r: "authenticate E s token bridge (e_now E 0) = Inr r"
    by (auto simp: dispatchActor_Inr)
  note body = body [unfolded p option.case require_Inr bindr_Inr]
  show ?thesis
    by (rule fresh [OF None i [unfolded k] b p _ r]) (use body in \<open>auto simp: reportable_def observe_digest_def\<close>)
qed

lemma CancelLifecycle_Inr:
  assumes "CancelLifecycle E token controller req s = Inr (x, s')"
  obtains (served) p where "gget (LifecycleOperations s) (cl_OperationKey req) = Some p"
      "lr_Digest p = cancel_digest E controller req" "lr_Cancellation p = Some (cx_Cancellation x)"
      "\<not> cx_HostActionAuthorized x" "s' = s"
  | (fresh) i r p where "gget (LifecycleOperations s) (cl_OperationKey req) = None"
      "gget (DispatchIntents s) (di_DispatchID i) = Some i" "lifecycleBinding i = cl_Binding req"
      "gget (LifecycleCancellations s) (di_DispatchID i) = None"
      "di_ControllerSessionID i = controller" "authenticate E s token controller (e_now E 0) = Inr r"
      "gget (LifecyclePolicies s) (dr_ProjectID (di_Reservation i)) = Some p" "lp_CancellationEnabled p"
      "\<forall>y \<in> set (l_Resources (dr_Reservation (di_Reservation i))). rs_Kind y @ '':'' @ rs_Path y \<in> set (sc_Resources (se_Scope r))"
      "cx_HostActionAuthorized x \<longleftrightarrow> lp_CancellationChannel p \<noteq> ''unsupported'' \<and> di_HostAgentID i \<noteq> ''''"
      "cx_HostActionAuthorized x \<longleftrightarrow> lc_State (cx_Cancellation x) = ''requested''"
      "lc_Binding (cx_Cancellation x) = lifecycleBinding i" "lc_RequestedBy (cx_Cancellation x) = controller"
      "s' = s\<lparr>LifecycleCancellations := gput (di_DispatchID i) (cx_Cancellation x) (LifecycleCancellations s),
              LifecycleOperations := gput (cl_OperationKey req)
                \<lparr>lr_Digest = cancel_digest E controller req, lr_Observation = None,
                 lr_Cancellation = Some (cx_Cancellation x)\<rparr> (LifecycleOperations s)\<rparr>"
proof (cases "gget (LifecycleOperations s) (cl_OperationKey req)")
  case (Some p)
  with assms show ?thesis
    by (clarsimp simp: CancelLifecycle_def Let_def) (rule served, auto simp: cancel_digest_def)
next
  case None
  from assms obtain i where i: "gget (DispatchIntents s) (lb_DispatchID (cl_Binding req)) = Some i"
    by (auto simp: CancelLifecycle_def)
  note body = assms [unfolded CancelLifecycle_def Let_def fetch_def i None option.case require_Inr bindr_Inr]
  from body have b: "lifecycleBinding i = cl_Binding req" by (auto simp: lifecycleIntent_Inr i)
  then have k: "lb_DispatchID (cl_Binding req) = di_DispatchID i" by (metis lifecycleBinding_sel(1))
  from body obtain p where p: "gget (LifecyclePolicies s) (dr_ProjectID (di_Reservation i)) = Some p"
    by (auto split: option.splits)
  from body obtain r where r: "authenticate E s token controller (e_now E 0) = Inr r"
    by (auto simp: dispatchActor_Inr)
  then have g: "gget (Sessions s) controller = Some r" by (simp add: authenticate_Inr)
  note body = body [unfolded p g option.case require_Inr bindr_Inr]
  show ?thesis
    by (rule fresh [OF None i [unfolded k] b _ _ r p]) (use body b in \<open>auto simp: cancel_digest_def list_all_iff split: if_splits\<close>)
qed

lemma AcknowledgeCancellation_Inr:
  assumes "AcknowledgeCancellation E token bridge req s = Inr (c, s')"
  obtains (served) p where "gget (LifecycleOperations s) (ak_OperationKey req) = Some p"
      "lr_Digest p = acknowledge_digest E bridge req" "lr_Cancellation p = Some c" "s' = s"
  | (fresh) i old where "gget (LifecycleOperations s) (ak_OperationKey req) = None"
      "gget (DispatchIntents s) (di_DispatchID i) = Some i" "lifecycleBinding i = ak_Binding req"
      "gget (LifecycleCancellations s) (di_DispatchID i) = Some old" "lc_State old \<noteq> ''acknowledged''"
      "ak_State req = ''acknowledged'' \<Longrightarrow> lc_Channel old = ''owner-manual-native-host'' \<and> di_HostAgentID i \<noteq> ''''"
      "c = old\<lparr>lc_Sequence := lc_Sequence old + 1, lc_State := ak_State req,
                    lc_EvidenceDigest := ak_EvidenceDigest req, lc_AcknowledgedAt := e_now E 1\<rparr>"
      "s' = s\<lparr>LifecycleCancellations := gput (di_DispatchID i) c (LifecycleCancellations s),
            LifecycleOperations := gput (ak_OperationKey req)
              \<lparr>lr_Digest = acknowledge_digest E bridge req, lr_Observation = None, lr_Cancellation = Some c\<rparr>
              (LifecycleOperations s)\<rparr>"
proof (cases "gget (LifecycleOperations s) (ak_OperationKey req)")
  case (Some p)
  with assms show ?thesis
    by (clarsimp simp: AcknowledgeCancellation_def Let_def) (rule served, auto simp: acknowledge_digest_def)
next
  case None
  from assms obtain i where i: "gget (DispatchIntents s) (lb_DispatchID (ak_Binding req)) = Some i"
    by (auto simp: AcknowledgeCancellation_def)
  note body = assms [unfolded AcknowledgeCancellation_def Let_def fetch_def i None option.case require_Inr bindr_Inr]
  from body have b: "lifecycleBinding i = ak_Binding req" by (auto simp: lifecycleIntent_Inr i)
  then have k: "lb_DispatchID (ak_Binding req) = di_DispatchID i" by (metis lifecycleBinding_sel(1))
  from body obtain old where old: "gget (LifecycleCancellations s) (di_DispatchID i) = Some old"
    by (auto split: option.splits)
  note body = body [unfolded old option.case require_Inr bindr_Inr]
  show ?thesis
    by (rule fresh [OF None i [unfolded k] b old]) (use body in \<open>auto simp: acknowledge_digest_def\<close>)
qed

section \<open>The observation log\<close>

text \<open>A well-formed log: numbered from 1 without gaps, with increasing host sequences and non-decreasing
  source times, and nothing after a terminal report.\<close>

definition well_logged :: "lifecycle_observation list \<Rightarrow> bool" where
  "well_logged xs \<longleftrightarrow> map lo_Sequence xs = map of_nat [1..<Suc (length xs)]
     \<and> sorted_wrt (\<lambda>a b. lo_HostSequence a < lo_HostSequence b \<and> lo_SourceTime a \<le> lo_SourceTime b) xs
     \<and> list_all (\<lambda>x. 0 < lo_HostSequence x \<and> reportable (lo_State x)) xs
     \<and> list_all (\<lambda>x. \<not> lifecycleTerminal (lo_State x)) (butlast xs)"

definition logs_inv :: "state \<Rightarrow> bool" where
  "logs_inv s \<longleftrightarrow> (\<forall>d. well_logged (gslice (LifecycleObservations s) d))"

lemma sorted_wrt_snoc:
  assumes "transp P" "sorted_wrt P xs" "xs \<noteq> [] \<Longrightarrow> P (last xs) y"
  shows "sorted_wrt P (xs @ [y])"
proof (cases xs rule: rev_cases)
  case (snoc ys z)
  with assms show ?thesis by (auto simp: sorted_wrt_append dest: transpD)
qed simp

lemma well_logged_snoc:
  assumes "well_logged xs" "lo_Sequence y = of_nat (length xs) + 1" "0 < lo_HostSequence y" "reportable (lo_State y)"
    "xs \<noteq> [] \<Longrightarrow> lo_HostSequence (last xs) < lo_HostSequence y \<and> lo_SourceTime (last xs) \<le> lo_SourceTime y
       \<and> \<not> lifecycleTerminal (lo_State (last xs))"
  shows "well_logged (xs @ [y])"
proof -
  have "sorted_wrt (\<lambda>a b. lo_HostSequence a < lo_HostSequence b \<and> lo_SourceTime a \<le> lo_SourceTime b) (xs @ [y])"
    by (rule sorted_wrt_snoc) (use assms in \<open>auto simp: well_logged_def transp_def\<close>)
  moreover have "list_all (\<lambda>x. \<not> lifecycleTerminal (lo_State x)) xs"
  proof (cases xs rule: rev_cases)
    case (snoc ys z)
    with assms(1) have "list_all (\<lambda>x. \<not> lifecycleTerminal (lo_State x)) ys" by (simp add: well_logged_def)
    with snoc assms(5) show ?thesis by simp
  qed simp
  ultimately show ?thesis
    using assms(1-4) by (simp add: well_logged_def add.commute)
qed

text \<open>Host sequences are distinct 64-bit words other than 0, so a log never outgrows its numbering.\<close>

lemma well_logged_length:
  assumes "well_logged xs"
  shows "length xs < 2 ^ 64"
proof -
  from assms have "sorted_wrt (\<lambda>a b. lo_HostSequence a < lo_HostSequence b \<and> lo_SourceTime a \<le> lo_SourceTime b) xs"
    unfolding well_logged_def by blast
  then have "sorted_wrt (\<lambda>a b. lo_HostSequence a < lo_HostSequence b) xs"
    by (rule sorted_wrt_mono_rel [rotated]) blast
  then have "sorted_wrt (<) (map lo_HostSequence xs)"
    by (simp add: sorted_wrt_map)
  moreover have "0 \<notin> set (map lo_HostSequence xs)"
    using assms by (auto simp: well_logged_def list_all_iff)
  ultimately have "distinct (0 # map lo_HostSequence xs)"
    by (simp add: strict_sorted_iff)
  then have "card (set (0 # map lo_HostSequence xs)) = Suc (length xs)"
    by (simp only: distinct_card) simp
  moreover have "card (set (0 # map lo_HostSequence xs)) \<le> card (UNIV :: 64 word set)"
    by (rule card_mono) simp_all
  ultimately show ?thesis by (simp only: card_word) simp
qed

lemma well_logged_number:
  assumes "well_logged xs" "n < length xs"
  shows "unat (lo_Sequence (xs ! n)) = Suc n"
proof -
  have "lo_Sequence (xs ! n) = map lo_Sequence xs ! n" using assms(2) by simp
  also have "\<dots> = of_nat (Suc n)"
    using assms by (simp add: well_logged_def del: upt_Suc of_nat_Suc)
  finally show ?thesis
    using assms(2) well_logged_length [OF assms(1)] by (simp add: unat_of_nat del: of_nat_Suc)
qed

lemma observe_logs_inv:
  assumes "ObserveLifecycle E token bridge req s = Inr (x, s')" "logs_inv s"
  shows "logs_inv s'"
  using assms(1)
proof (cases rule: ObserveLifecycle_Inr)
  case served
  with assms(2) show ?thesis by simp
next
  case (fresh i p r)
  have "well_logged (gslice (LifecycleObservations s) (di_DispatchID i) @ [x])"
    by (rule well_logged_snoc)
      (use assms(2) fresh(8-11) in \<open>simp_all add: logs_inv_def word_neq_0_conv\<close>)
  with assms(2) show ?thesis by (simp add: logs_inv_def fresh(12))
qed

section \<open>Operation keys\<close>

lemma observe_again:
  assumes "ObserveLifecycle E token bridge req s = Inr (x, s')"
  shows "\<exists>y. ObserveLifecycle E token bridge req s' = Inr y"
  using assms
proof (cases rule: ObserveLifecycle_Inr)
  case served
  with assms show ?thesis by auto
next
  case (fresh i p r)
  have k: "lb_DispatchID (ob_Binding req) = di_DispatchID i" "lb_IntentID (ob_Binding req) = di_ID i"
    using fresh(3) by (metis lifecycleBinding_sel)+
  have upd: "DispatchIntents s' = DispatchIntents s" "Version s' = Version s" "Sessions s' = Sessions s"
      "gget (LifecycleOperations s') (ob_OperationKey req)
         = Some \<lparr>lr_Digest = observe_digest E bridge req, lr_Observation = Some x, lr_Cancellation = None\<rparr>"
    by (simp_all add: fresh(12))
  note body = assms [unfolded ObserveLifecycle_def Let_def fetch_def k fresh(2) option.case require_Inr bindr_Inr]
  from body obtain r' where "dispatchActor E s token bridge (dr_ProjectID (di_Reservation i)) ''dispatch.observe'' (e_now E 0) = Inr r'"
    "9 \<le> Version s" "validID (ob_OperationKey req)" by auto
  then have "ObserveLifecycle E token bridge req s' = Inr (x, s')"
    using upd dispatchActor_cong [OF upd(3)]
    by (simp add: ObserveLifecycle_def Let_def fetch_def k fresh(2,5) observe_digest_def)
  then show ?thesis by blast
qed

interpretation observe_key: idempotent
  "\<lambda>E (token, bridge, req) s. ObserveLifecycle E token bridge req s"
  "\<lambda>s (token, bridge, req). gget (LifecycleOperations s) (ob_OperationKey req)"
  "\<lambda>E (token, bridge, req) s. observe_digest E bridge req" lr_Digest lr_Observation
proof (unfold_locales, goal_cases)
  case (1 s q p E r s')
  then show ?case by (cases q) (auto elim: ObserveLifecycle_Inr)
next
  case (2 s q E r s')
  then show ?case by (cases q) (auto elim: ObserveLifecycle_Inr)
next
  case (3 E q s r s')
  then show ?case using observe_again by (cases q) simp
qed

section \<open>Cancellations\<close>

definition cancelled :: "state \<Rightarrow> string set" where
  "cancelled s = {d. gget (LifecycleCancellations s) d \<noteq> None}"

datatype lifecycle_action =
    Observing env string string observe_request
  | Cancelling env string string cancel_request
  | Acknowledging env string string acknowledge_request

text \<open>A sequence of handler calls, refused ones leaving the state: the dispatches for which a call
  authorised a host action, and the final state.\<close>

fun lifecycle_run :: "lifecycle_action list \<Rightarrow> state \<Rightarrow> string list \<times> state" where
  "lifecycle_run [] s = ([], s)"
| "lifecycle_run (Observing E token bridge req # as) s =
     (case ObserveLifecycle E token bridge req s of
        Inl e \<Rightarrow> lifecycle_run as s | Inr (x, s') \<Rightarrow> lifecycle_run as s')"
| "lifecycle_run (Acknowledging E token bridge req # as) s =
     (case AcknowledgeCancellation E token bridge req s of
        Inl e \<Rightarrow> lifecycle_run as s | Inr (x, s') \<Rightarrow> lifecycle_run as s')"
| "lifecycle_run (Cancelling E token controller req # as) s =
     (case CancelLifecycle E token controller req s of
        Inl e \<Rightarrow> lifecycle_run as s
      | Inr (x, s') \<Rightarrow>
          (let (ds, t) = lifecycle_run as s'
           in (if cx_HostActionAuthorized x then lb_DispatchID (cl_Binding req) # ds else ds, t)))"

lemma observe_cancelled: "ObserveLifecycle E token bridge req s = Inr (x, s') \<Longrightarrow> cancelled s' = cancelled s"
  by (erule ObserveLifecycle_Inr) (simp_all add: cancelled_def)

lemma acknowledge_cancelled: "AcknowledgeCancellation E token bridge req s = Inr (c, s') \<Longrightarrow> cancelled s' = cancelled s"
  by (erule AcknowledgeCancellation_Inr) (auto simp: cancelled_def)

lemma cancel_cancelled:
  assumes "CancelLifecycle E token controller req s = Inr (x, s')"
  shows "cancelled s \<subseteq> cancelled s'
     \<and> (cx_HostActionAuthorized x \<longrightarrow> lb_DispatchID (cl_Binding req) \<in> cancelled s' - cancelled s)"
  using assms
proof (cases rule: CancelLifecycle_Inr)
  case (fresh i r p)
  have "lb_DispatchID (cl_Binding req) = di_DispatchID i" by (metis fresh(3) lifecycleBinding_sel(1))
  with fresh(4) show ?thesis by (auto simp: cancelled_def fresh(14))
qed simp

lemma lifecycle_run_spec:
  "distinct (fst (lifecycle_run as s)) \<and> set (fst (lifecycle_run as s)) \<subseteq> cancelled (snd (lifecycle_run as s)) - cancelled s
   \<and> cancelled s \<subseteq> cancelled (snd (lifecycle_run as s))"
proof (induction as s rule: lifecycle_run.induct)
  case (2 E token bridge req as s)
  show ?case
  proof (cases "ObserveLifecycle E token bridge req s")
    case (Inr y)
    then show ?thesis
      using 2(2) [OF Inr, of "fst y" "snd y"] observe_cancelled [of E token bridge req s "fst y" "snd y"]
      by (cases y) simp
  qed (use 2(1) in simp)
next
  case (3 E token bridge req as s)
  show ?case
  proof (cases "AcknowledgeCancellation E token bridge req s")
    case (Inr y)
    then show ?thesis
      using 3(2) [OF Inr, of "fst y" "snd y"] acknowledge_cancelled [of E token bridge req s "fst y" "snd y"]
      by (cases y) simp
  qed (use 3(1) in simp)
next
  case (4 E token controller req as s)
  show ?case
  proof (cases "CancelLifecycle E token controller req s")
    case (Inr y)
    obtain x s' where y: "y = (x, s')" by (cases y)
    have run: "lifecycle_run (Cancelling E token controller req # as) s =
        (if cx_HostActionAuthorized x then lb_DispatchID (cl_Binding req) # fst (lifecycle_run as s') else fst (lifecycle_run as s'),
         snd (lifecycle_run as s'))"
      by (simp add: Inr y prod.case_eq_if)
    show ?thesis
      unfolding run using 4(2) [OF Inr y [symmetric]] cancel_cancelled [OF Inr [unfolded y]] by auto
  qed (use 4(1) in simp)
qed simp

lemma gvals_gput_image:
  assumes "gget m k = Some old" "f v = f old"
  shows "f ` set (gvals (gput k v m)) = f ` set (gvals m)"
  using assms by (induction m) (simp_all add: gvals_def gput_def gget_def split: if_splits)

lemma withdrawn_mono:
  assumes "Sessions s' = Sessions s" "TaskTerminals s' = TaskTerminals s"
    "set (gvals (Recoveries s)) \<subseteq> set (gvals (Recoveries s'))"
    "lc_Binding ` set (gvals (LifecycleCancellations s)) \<subseteq> lc_Binding ` set (gvals (LifecycleCancellations s'))"
    "workerTaskWithdrawn s i task"
  shows "workerTaskWithdrawn s' i task"
proof -
  have "\<exists>c \<in> set (gvals (LifecycleCancellations s')). lb_TaskID (lc_Binding c) = task
        \<and> descends (Sessions s) i (lb_WorkerSessionID (lc_Binding c))"
    if "c \<in> set (gvals (LifecycleCancellations s))" "lb_TaskID (lc_Binding c) = task"
      "descends (Sessions s) i (lb_WorkerSessionID (lc_Binding c))" for c
  proof -
    from that(1) assms(4) obtain c' where "c' \<in> set (gvals (LifecycleCancellations s'))" "lc_Binding c' = lc_Binding c" by force
    with that show ?thesis by metis
  qed
  with assms(3,5) show ?thesis
    unfolding workerTaskWithdrawn_def workerTaskWithdrawnExcept_iff assms(1,2) by blast
qed

section \<open>Properties\<close>

text \<open>The host reports on a dispatch form an append-only, gap-free log. A report under a new key is
  appended to the log of the dispatch its binding names exactly as the aggregate has it, with the
  next number and a larger host sequence, never after a terminal report; no lease, reservation,
  fence or cancellation changes. Repeating the report adds nothing, and after a terminal report no
  report under a new key is accepted.\<close>

theorem observation_log:
  assumes "ObserveLifecycle E token bridge req s = Inr (x, s')" "logs_inv s"
    "gget (LifecycleOperations s) (ob_OperationKey req) = None"
  shows "logs_inv s' \<and> ObserveLifecycle E token bridge req s' = Inr (x, s')
     \<and> (\<exists>d i. gget (DispatchIntents s) d = Some i \<and> lo_Binding x = lifecycleBinding i \<and> di_BridgeSessionID i = bridge
          \<and> LifecycleObservations s' = gput d (gslice (LifecycleObservations s) d @ [x]) (LifecycleObservations s)
          \<and> unat (lo_Sequence x) = Suc (length (gslice (LifecycleObservations s) d))
          \<and> list_all (\<lambda>y. \<not> lifecycleTerminal (lo_State y)) (gslice (LifecycleObservations s) d)
          \<and> (lifecycleTerminal (lo_State x) \<longrightarrow> lb_DispatchID (ob_Binding req') = d \<longrightarrow>
               gslice (LifecycleObservations t) d = gslice (LifecycleObservations s') d \<longrightarrow>
               gget (LifecycleOperations t) (ob_OperationKey req') = None \<longrightarrow>
               ObserveLifecycle E' token' bridge' req' t \<noteq> Inr y))
     \<and> Leases s' = Leases s \<and> Dispatches s' = Dispatches s \<and> Fence s' = Fence s
     \<and> LifecycleCancellations s' = LifecycleCancellations s \<and> Recoveries s' = Recoveries s"
  using assms(1)
proof (cases rule: ObserveLifecycle_Inr)
  case served
  with assms(3) show ?thesis by simp
next
  case (fresh i p r)
  let ?h = "gslice (LifecycleObservations s) (di_DispatchID i)"
  have inv: "logs_inv s'" by (rule observe_logs_inv [OF assms(1,2)])
  have log: "gslice (LifecycleObservations s') (di_DispatchID i) = ?h @ [x]" by (simp add: fresh(12))
  then have wl: "well_logged (?h @ [x])" using inv by (metis logs_inv_def)
  have final: "ObserveLifecycle E' token' bridge' req' t \<noteq> Inr y"
    if "lifecycleTerminal (lo_State x)" "lb_DispatchID (ob_Binding req') = di_DispatchID i"
      "gslice (LifecycleObservations t) (di_DispatchID i) = gslice (LifecycleObservations s') (di_DispatchID i)"
      "gget (LifecycleOperations t) (ob_OperationKey req') = None"
  proof
    assume "ObserveLifecycle E' token' bridge' req' t = Inr y"
    then have "ObserveLifecycle E' token' bridge' req' t = Inr (fst y, snd y)" by simp
    then show False
    proof (cases rule: ObserveLifecycle_Inr)
      case (fresh j q u)
      then have "di_DispatchID j = di_DispatchID i" using that(2) by (metis lifecycleBinding_sel(1))
      with fresh(10) that(1,3) log show False by simp
    qed (use that(4) in simp)
  qed
  have "lo_Binding x = lifecycleBinding i" by (simp add: fresh(3,11))
  moreover have "unat (lo_Sequence x) = Suc (length ?h)"
    using well_logged_number [OF wl, of "length ?h"] by simp
  moreover have "list_all (\<lambda>y. \<not> lifecycleTerminal (lo_State y)) ?h"
    using wl by (simp add: well_logged_def)
  moreover have "ObserveLifecycle E token bridge req s' = Inr (x, s')"
    using observe_key.repeated [of E "(token, bridge, req)" s x s'] assms(1) by simp
  ultimately show ?thesis
    using inv final fresh(2,5,12) by (intro conjI exI [of _ "di_DispatchID i"] exI [of _ i]) simp_all
qed

text \<open>A cancellation withdraws before it permits. Cancelling a dispatch under a new key needs its
  controller, in control of every reserved resource, and the intent exactly as stored; it withdraws
  the assigned worker and everything delegated from it from the task, gives back no withdrawal,
  and leaves every lease, reservation, session and fence as it was. A host action is authorised
  exactly when the cancellation was recorded as requested.\<close>

theorem cancellation_withdraws:
  assumes "CancelLifecycle E token controller req s = Inr (x, s')"
    "gget (LifecycleOperations s) (cl_OperationKey req) = None"
  shows "\<exists>i r. gget (DispatchIntents s) (di_DispatchID i) = Some i \<and> lifecycleBinding i = cl_Binding req
     \<and> authenticate E s token controller (e_now E 0) = Inr r \<and> di_ControllerSessionID i = controller
     \<and> (\<forall>y \<in> set (l_Resources (dr_Reservation (di_Reservation i))). rs_Kind y @ '':'' @ rs_Path y \<in> set (sc_Resources (se_Scope r)))
     \<and> gget (LifecycleCancellations s') (di_DispatchID i) = Some (cx_Cancellation x)
     \<and> (cx_HostActionAuthorized x \<longleftrightarrow> lc_State (cx_Cancellation x) = ''requested'')
     \<and> (w \<noteq> '''' \<longrightarrow> descends (Sessions s) w (di_WorkerSessionID i) \<longrightarrow>
          workerTaskWithdrawn s' w (l_TaskID (dr_Reservation (di_Reservation i))))
     \<and> (workerTaskWithdrawn s w task \<longrightarrow> workerTaskWithdrawn s' w task)
     \<and> Leases s' = Leases s \<and> Dispatches s' = Dispatches s \<and> Sessions s' = Sessions s \<and> Fence s' = Fence s
     \<and> Recoveries s' = Recoveries s"
  using assms(1)
proof (cases rule: CancelLifecycle_Inr)
  case served
  with assms(2) show ?thesis by simp
next
  case (fresh i r p)
  have upd: "Sessions s' = Sessions s" "Recoveries s' = Recoveries s" "TaskTerminals s' = TaskTerminals s"
      "LifecycleCancellations s' = gput (di_DispatchID i) (cx_Cancellation x) (LifecycleCancellations s)"
    by (simp_all add: fresh(14))
  have vals: "set (gvals (LifecycleCancellations s')) = insert (cx_Cancellation x) (set (gvals (LifecycleCancellations s)))"
    unfolding upd(4) by (rule gvals_gput_fresh [OF fresh(4)])
  have kept: "workerTaskWithdrawn s w task \<longrightarrow> workerTaskWithdrawn s' w task"
    using withdrawn_mono [OF upd(1,3)] upd(2) vals by auto
  have withdrawn: "workerTaskWithdrawn s' w (l_TaskID (dr_Reservation (di_Reservation i)))"
    if "w \<noteq> ''''" "descends (Sessions s) w (di_WorkerSessionID i)"
    using that unfolding workerTaskWithdrawn_def workerTaskWithdrawnExcept_iff upd(1) vals
    by (auto simp: fresh(12))
  show ?thesis
    using fresh(2,3,5,6,9,11,14) kept withdrawn by (intro exI [of _ i] exI [of _ r]) simp
qed

text \<open>C16: Whatever observations, cancellations and acknowledgements are attempted, by whomever and in
  whatever order, a host action is authorised at most once per dispatch, only for a dispatch not
  cancelled before, which is cancelled ever after.\<close>

theorem host_action_authorized_once:
  "distinct (fst (lifecycle_run as s))
   \<and> set (fst (lifecycle_run as s)) \<subseteq> cancelled (snd (lifecycle_run as s)) - cancelled s
   \<and> cancelled s \<subseteq> cancelled (snd (lifecycle_run as s))"
  by (rule lifecycle_run_spec)

text \<open>Acknowledging a cancellation never gives authority back. It moves an unacknowledged cancellation
  of the dispatch on by one, keeps its binding, request and policy, withdraws exactly whom it
  withdrew before and frees nothing; once acknowledged (possible only over the owner's host channel
  and with a known host) the cancellation takes no further acknowledgement under a new key.\<close>

theorem acknowledgement_restores_nothing:
  assumes "AcknowledgeCancellation E token bridge req s = Inr (c, s')"
    "gget (LifecycleOperations s) (ak_OperationKey req) = None"
  shows "\<exists>d old. gget (LifecycleCancellations s) d = Some old \<and> lc_State old \<noteq> ''acknowledged''
     \<and> LifecycleCancellations s' = gput d c (LifecycleCancellations s)
     \<and> lc_Binding c = lc_Binding old \<and> lc_OperationKey c = lc_OperationKey old \<and> lc_PolicyRevision c = lc_PolicyRevision old
     \<and> lc_Sequence c = lc_Sequence old + 1
     \<and> (lc_State c = ''acknowledged'' \<longrightarrow> lc_Channel c = ''owner-manual-native-host'')
     \<and> (workerTaskWithdrawn s' w task \<longleftrightarrow> workerTaskWithdrawn s w task)
     \<and> Leases s' = Leases s \<and> Dispatches s' = Dispatches s \<and> Fence s' = Fence s
     \<and> (lc_State c = ''acknowledged'' \<longrightarrow> lb_DispatchID (ak_Binding req') = d \<longrightarrow>
          gget (LifecycleCancellations t) d = Some c \<longrightarrow> gget (LifecycleOperations t) (ak_OperationKey req') = None \<longrightarrow>
          AcknowledgeCancellation E' token' bridge' req' t \<noteq> Inr y)"
  using assms(1)
proof (cases rule: AcknowledgeCancellation_Inr)
  case served
  with assms(2) show ?thesis by simp
next
  case (fresh i old)
  have binding: "lc_Binding c = lc_Binding old" by (simp add: fresh(7))
  have "lc_Binding ` set (gvals (LifecycleCancellations s')) = lc_Binding ` set (gvals (LifecycleCancellations s))"
    using gvals_gput_image [of "LifecycleCancellations s" _ old lc_Binding c] fresh(4) binding by (simp add: fresh(8))
  then have kept: "workerTaskWithdrawn s' w task \<longleftrightarrow> workerTaskWithdrawn s w task"
    using withdrawn_mono [of s' s w task] withdrawn_mono [of s s' w task] fresh(8) by auto
  have final: "AcknowledgeCancellation E' token' bridge' req' t \<noteq> Inr y"
    if "lc_State c = ''acknowledged''" "lb_DispatchID (ak_Binding req') = di_DispatchID i"
      "gget (LifecycleCancellations t) (di_DispatchID i) = Some c" "gget (LifecycleOperations t) (ak_OperationKey req') = None"
  proof
    assume "AcknowledgeCancellation E' token' bridge' req' t = Inr y"
    then have "AcknowledgeCancellation E' token' bridge' req' t = Inr (fst y, snd y)" by simp
    then show False
    proof (cases rule: AcknowledgeCancellation_Inr)
      case (fresh j o')
      then have "di_DispatchID j = di_DispatchID i" using that(2) by (metis lifecycleBinding_sel(1))
      with fresh(4,5) that(1,3) show False by simp
    qed (use that(4) in simp)
  qed
  show ?thesis
    using fresh(4-8) kept final by (intro exI [of _ "di_DispatchID i"] exI [of _ old]) simp
qed

text \<open>The status read reports only what the bridge reported. With well-formed logs, a terminal state is
  shown exactly when the log holds a terminal report (then the last), a running worker only within
  the owner's freshness bound of the last report, and the reader is a live party of the dispatch
  with authority to read the task. Reading changes nothing.\<close>

theorem status_reports_log:
  assumes "LifecycleStatus E token sess dispatch s = Inr st" "logs_inv s"
  shows "(lifecycleTerminal (ls_State st) \<longleftrightarrow> list_ex (\<lambda>x. lifecycleTerminal (lo_State x)) (ls_Observations st))
     \<and> (ls_State st = ''running'' \<longrightarrow> ls_Observations st \<noteq> [] \<and> lo_State (last (ls_Observations st)) = ''running''
          \<and> (\<exists>i p. gget (DispatchIntents s) dispatch = Some i \<and> gget (LifecyclePolicies s) (dr_ProjectID (di_Reservation i)) = Some p
               \<and> e_now E 1 < lo_SourceTime (last (ls_Observations st)) + lp_Freshness p))
     \<and> (\<exists>i r. gget (DispatchIntents s) dispatch = Some i \<and> ls_Binding st = lifecycleBinding i
          \<and> authenticate E s token sess (e_now E 0) = Inr r \<and> ''read'' \<in> set (sc_Actions (se_Scope r))
          \<and> sess \<in> {di_ControllerSessionID i, di_BridgeSessionID i, di_WorkerSessionID i})"
proof -
  from assms(1) obtain i where i: "gget (DispatchIntents s) dispatch = Some i"
    by (auto simp: LifecycleStatus_def)
  note body = assms(1) [unfolded LifecycleStatus_def Let_def fetch_def i option.case require_Inr bindr_Inr]
  from body obtain p where p: "gget (LifecyclePolicies s) (dr_ProjectID (di_Reservation i)) = Some p"
    by (auto split: option.splits)
  note body = body [unfolded p option.case]
  let ?h = "gslice (LifecycleObservations s) dispatch"
  from body have st: "ls_Observations st = ?h" "ls_State st = (if ?h = [] \<or>
      \<not> e_now E 1 < (if ?h = [] then 0 else lo_SourceTime (last ?h) + lp_Freshness p) \<and> \<not> lifecycleTerminal (lo_State (last ?h))
      then ''unknown'' else lo_State (last ?h))" "ls_Binding st = lifecycleBinding i"
    and reader: "\<exists>r. authenticate E s token sess (e_now E 0) = Inr r \<and> ''read'' \<in> set (sc_Actions (se_Scope r))
      \<and> sess \<in> {di_ControllerSessionID i, di_BridgeSessionID i, di_WorkerSessionID i}"
    by auto
  have wl: "well_logged ?h" using assms(2) by (simp add: logs_inv_def)
  have nt: "\<not> lifecycleTerminal ''unknown''" "\<not> lifecycleTerminal ''running''" by (simp_all add: lifecycleTerminal_def)
  have "lifecycleTerminal (ls_State st) \<longleftrightarrow> list_ex (\<lambda>x. lifecycleTerminal (lo_State x)) ?h"
  proof (cases ?h rule: rev_cases)
    case (snoc ys z)
    then have "\<not> list_ex (\<lambda>x. lifecycleTerminal (lo_State x)) ys"
      using wl by (auto simp: well_logged_def list_all_iff list_ex_iff)
    with snoc st(2) nt(1) show ?thesis by simp
  qed (use st(2) nt(1) in simp)
  moreover have "ls_State st = ''running'' \<longrightarrow> ?h \<noteq> [] \<and> lo_State (last ?h) = ''running''
      \<and> e_now E 1 < lo_SourceTime (last ?h) + lp_Freshness p"
    using st(2) nt(2) by (auto split: if_splits)
  ultimately show ?thesis
    using i p reader st(1,3) by auto
qed

definition sample_lifecycle_policy :: lifecycle_policy where
  "sample_lifecycle_policy = \<lparr>lp_SchemaVersion = 1, lp_ProjectID = ''p'', lp_Revision = ''k'',
     lp_Source = ''owner-manual-native-host'', lp_CancellationChannel = ''owner-manual-native-host'', lp_Freshness = 20,
     lp_CancellationEnabled = True\<rparr>"

definition sample_lifecycle_state :: state where
  "sample_lifecycle_state = sample_dispatch_state\<lparr>DispatchIntents := [(''d'', sample_correlated)],
     LifecyclePolicies := [(''p'', sample_lifecycle_policy)]\<rparr>"

definition sample_observe_request :: observe_request where
  "sample_observe_request = \<lparr>ob_OperationKey = ''k'', ob_Binding = lifecycleBinding sample_correlated,
     ob_ExpectedSequence = 0, ob_HostSequence = 7, ob_State = ''completed'', ob_Source = ''owner-manual-native-host'',
     ob_EvidenceDigest = ''sha256:'' @ replicate 64 CHR ''0'', ob_SourceTime = 9\<rparr>"

definition sample_report :: lifecycle_observation where
  "sample_report = \<lparr>lo_Sequence = 1, lo_HostSequence = 7, lo_Binding = lifecycleBinding sample_correlated,
     lo_State = ''completed'', lo_Source = ''owner-manual-native-host'', lo_Assurance = ''cooperative-owner-provisioned-bridge'',
     lo_EvidenceDigest = ''sha256:'' @ replicate 64 CHR ''0'', lo_SourceTime = 9, lo_ReceivedAt = 10\<rparr>"

lemma sample_lifecycle_sel [simp]:
  "Sessions sample_lifecycle_state = Sessions sample_dispatch_state" "Version sample_lifecycle_state = 10"
  "DispatchIntents sample_lifecycle_state = [(''d'', sample_correlated)]"
  "LifecyclePolicies sample_lifecycle_state = [(''p'', sample_lifecycle_policy)]"
  "LifecycleOperations sample_lifecycle_state = []" "LifecycleCancellations sample_lifecycle_state = []"
  "LifecycleObservations sample_lifecycle_state = []"
  by (simp_all add: sample_lifecycle_state_def)

lemma sample_correlated_sel [simp]:
  "di_DispatchID sample_correlated = ''d''" "di_ID sample_correlated = ''n''" "di_BridgeSessionID sample_correlated = ''b''"
  "di_ControllerSessionID sample_correlated = ''m''" "di_WorkerSessionID sample_correlated = ''r''"
  "di_HostAgentID sample_correlated = ''h1''" "di_Reservation sample_correlated = sample_reservation"
  by (simp_all add: sample_correlated_def sample_intent_def)

lemma sample_reservation_sel [simp]:
  "dr_ProjectID sample_reservation = ''p''" "l_TaskID (dr_Reservation sample_reservation) = ''t''"
  "l_Resources (dr_Reservation sample_reservation) = [\<lparr>rs_Kind = ''path'', rs_Path = ''src''\<rparr>]"
  by (simp_all add: sample_reservation_def)

lemma sample_actors:
  assumes "Sessions s = Sessions sample_dispatch_state"
  shows "dispatchActor sample_env s (sample_id 4) ''b'' ''p'' ''dispatch.observe'' 10 = Inr (sample_party ''b'' 4)"
    "dispatchActor sample_env s (sample_id 3) ''m'' ''p'' ''dispatch.cancel'' 10 = Inr (sample_party ''m'' 3)"
  using sample_party_authenticates [OF assms] by (simp_all add: dispatchActor_Inr)

lemma sample_logs_inv: "logs_inv sample_lifecycle_state"
  by (simp add: logs_inv_def well_logged_def gslice_def)

lemma sample_digest_valid: "validDigest (''sha256:'' @ replicate 64 CHR ''0'')"
  by code_simp

lemma sample_ObserveLifecycle:
  obtains s' where "ObserveLifecycle sample_env (sample_id 4) ''b'' sample_observe_request sample_lifecycle_state
    = Inr (sample_report, s')"
proof -
  have ids: "validID ''k''" by code_simp
  have "\<exists>s'. ObserveLifecycle sample_env (sample_id 4) ''b'' sample_observe_request sample_lifecycle_state
    = Inr (sample_report, s')"
    by (simp add: ObserveLifecycle_def Let_def sample_observe_request_def gget_def fetch_def ids sample_actors
        lifecycleIntent_def sample_lifecycle_policy_def sample_digest_valid [simplified] lifecycleTerminal_def gslice_def
        sample_report_def)
  with that show ?thesis by blast
qed

theorem observation_log_witness:
  "\<exists>s'. logs_inv s' \<and> ObserveLifecycle sample_env (sample_id 4) ''b'' sample_observe_request s' = Inr (sample_report, s')"
proof -
  obtain s' where "ObserveLifecycle sample_env (sample_id 4) ''b'' sample_observe_request sample_lifecycle_state
    = Inr (sample_report, s')" by (rule sample_ObserveLifecycle)
  moreover have "gget (LifecycleOperations sample_lifecycle_state) (ob_OperationKey sample_observe_request) = None" by simp
  ultimately show ?thesis using observation_log [OF _ sample_logs_inv] by blast
qed

definition sample_cancel_request :: cancel_request where
  "sample_cancel_request = \<lparr>cl_OperationKey = ''k'', cl_Binding = lifecycleBinding sample_correlated\<rparr>"

lemma sample_CancelLifecycle:
  obtains x s' where "CancelLifecycle sample_env (sample_id 3) ''m'' sample_cancel_request sample_lifecycle_state = Inr (x, s')"
    "cx_HostActionAuthorized x" "lc_Channel (cx_Cancellation x) = ''owner-manual-native-host''"
    "DispatchIntents s' = [(''d'', sample_correlated)]" "Sessions s' = Sessions sample_dispatch_state" "Version s' = 10"
proof -
  have ids: "validID ''k''" by code_simp
  have "\<exists>x s'. CancelLifecycle sample_env (sample_id 3) ''m'' sample_cancel_request sample_lifecycle_state = Inr (x, s')
    \<and> cx_HostActionAuthorized x \<and> lc_Channel (cx_Cancellation x) = ''owner-manual-native-host''
    \<and> DispatchIntents s' = [(''d'', sample_correlated)] \<and> Sessions s' = Sessions sample_dispatch_state \<and> Version s' = 10"
    by (simp add: CancelLifecycle_def Let_def sample_cancel_request_def gget_def fetch_def ids sample_actors
        lifecycleIntent_def sample_lifecycle_policy_def)
  with that show ?thesis by blast
qed

theorem cancellation_withdraws_witness:
  "\<exists>x s'. CancelLifecycle sample_env (sample_id 3) ''m'' sample_cancel_request sample_lifecycle_state = Inr (x, s')
     \<and> workerTaskWithdrawn s' ''r'' ''t''"
proof -
  obtain x s' where c: "CancelLifecycle sample_env (sample_id 3) ''m'' sample_cancel_request sample_lifecycle_state = Inr (x, s')"
    by (rule sample_CancelLifecycle)
  have k: "gget (LifecycleOperations sample_lifecycle_state) (cl_OperationKey sample_cancel_request) = None" by simp
  from cancellation_withdraws [OF c k, of "''r''"] obtain i where
    i: "lifecycleBinding i = cl_Binding sample_cancel_request"
      "descends (Sessions sample_lifecycle_state) ''r'' (di_WorkerSessionID i) \<longrightarrow>
         workerTaskWithdrawn s' ''r'' (l_TaskID (dr_Reservation (di_Reservation i)))" by auto
  then have "di_WorkerSessionID i = ''r''" "l_TaskID (dr_Reservation (di_Reservation i)) = ''t''"
    by (metis lifecycleBinding_sel(3,4) cancel_request.select_convs(2) sample_cancel_request_def sample_correlated_sel(5,7)
        sample_reservation_sel(2))+
  with i(2) c show ?thesis by (auto simp: descends_refl)
qed

theorem acknowledgement_restores_nothing_witness:
  "\<exists>c s'. AcknowledgeCancellation sample_env (sample_id 4) ''b'' \<lparr>ak_ExpectedSequence = 1, ak_OperationKey = ''k'',
       ak_Binding = lifecycleBinding sample_correlated, ak_State = ''acknowledged'',
       ak_EvidenceDigest = ''sha256:'' @ replicate 64 CHR ''0''\<rparr>
     (sample_lifecycle_state\<lparr>LifecycleCancellations := [(''d'', sample_cancelled\<lparr>lc_Channel := ''owner-manual-native-host''\<rparr>)]\<rparr>)
       = Inr (c, s') \<and> lc_Sequence c = 2"
proof -
  let ?s = "sample_lifecycle_state\<lparr>LifecycleCancellations := [(''d'', sample_cancelled\<lparr>lc_Channel := ''owner-manual-native-host''\<rparr>)]\<rparr>"
  let ?q = "\<lparr>ak_ExpectedSequence = 1, ak_OperationKey = ''k'', ak_Binding = lifecycleBinding sample_correlated,
      ak_State = ''acknowledged'', ak_EvidenceDigest = ''sha256:'' @ replicate 64 CHR ''0''\<rparr>"
  have ids: "validID ''k''" by code_simp
  have "\<exists>c s'. AcknowledgeCancellation sample_env (sample_id 4) ''b'' ?q ?s = Inr (c, s')"
    by (simp add: AcknowledgeCancellation_def Let_def gget_def fetch_def ids sample_actors
        lifecycleIntent_def sample_digest_valid [simplified] sample_cancelled_def)
  then obtain c s' where c: "AcknowledgeCancellation sample_env (sample_id 4) ''b'' ?q ?s = Inr (c, s')" by blast
  have k: "gget (LifecycleOperations ?s) (ak_OperationKey ?q) = None" by simp
  from acknowledgement_restores_nothing [OF c k] obtain d old where
    "gget (LifecycleCancellations ?s) d = Some old" "lc_Sequence c = lc_Sequence old + 1" by blast
  then have "lc_Sequence c = 2" by (auto simp: gget_def sample_cancelled_def split: if_splits)
  with c show ?thesis by blast
qed

theorem status_reports_log_witness:
  "\<exists>st. LifecycleStatus sample_env (sample_id 4) ''b'' ''d''
      (sample_lifecycle_state\<lparr>LifecycleObservations := [(''d'', [sample_report])]\<rparr>) = Inr st \<and> lifecycleTerminal (ls_State st)"
proof -
  let ?s = "sample_lifecycle_state\<lparr>LifecycleObservations := [(''d'', [sample_report])]\<rparr>"
  have inv: "logs_inv ?s"
    by (simp add: logs_inv_def well_logged_def gslice_def gget_def sample_report_def reportable_def lifecycleTerminal_def)
  have "\<exists>st. LifecycleStatus sample_env (sample_id 4) ''b'' ''d'' ?s = Inr st \<and> ls_Observations st = [sample_report]"
    by (simp add: LifecycleStatus_def Let_def gget_def gslice_def fetch_def sample_party_authenticates)
  then obtain st where st: "LifecycleStatus sample_env (sample_id 4) ''b'' ''d'' ?s = Inr st" "ls_Observations st = [sample_report]"
    by blast
  with status_reports_log [OF st(1) inv] show ?thesis
    by (auto simp: sample_report_def lifecycleTerminal_def)
qed

end
