(* ===== verification/Leases.thy ===== *)
theory Leases
  imports Task_Authority
begin

text \<open>
  Resource leases (\<^verbatim>\<open>leases.go\<close>): canonical resource sets, the overlap relation, and the three
  handlers \<^verbatim>\<open>AcquireLease\<close>, \<^verbatim>\<open>RenewLease\<close>, \<^verbatim>\<open>ReleaseLease\<close>. The properties are exclusion (the
  unreleased leases and the retained dispatch reservations never overlap pairwise), fencing, and
  replay of operation keys.
\<close>

section \<open>Requests\<close>

record acquire_request =
  al_OperationKey :: string
  al_AttemptID :: string
  al_Resources :: "resource list"
  al_ExpiresAt :: int

record renew_request =
  nl_OperationKey :: string
  nl_AttemptID :: string
  nl_LeaseID :: string
  nl_ExpectedFence :: "64 word"
  nl_ExpiresAt :: int

record release_request =
  fl_OperationKey :: string
  fl_AttemptID :: string
  fl_LeaseID :: string
  fl_ExpectedFence :: "64 word"

definition jv_resource :: "resource \<Rightarrow> jval" where
  "jv_resource r = JO [(''Kind'', JS (rs_Kind r)), (''Path'', JS (rs_Path r))]"

definition jv_acquire :: "acquire_request \<Rightarrow> jval" where
  "jv_acquire r = JO [(''OperationKey'', JS (al_OperationKey r)), (''AttemptID'', JS (al_AttemptID r)),
     (''Resources'', JL (map jv_resource (al_Resources r))), (''ExpiresAt'', JT (al_ExpiresAt r))]"

definition jv_renew :: "renew_request \<Rightarrow> jval" where
  "jv_renew r = JO [(''OperationKey'', JS (nl_OperationKey r)), (''AttemptID'', JS (nl_AttemptID r)),
     (''LeaseID'', JS (nl_LeaseID r)), (''ExpectedFence'', JW (nl_ExpectedFence r)),
     (''ExpiresAt'', JT (nl_ExpiresAt r))]"

definition jv_release :: "release_request \<Rightarrow> jval" where
  "jv_release r = JO [(''OperationKey'', JS (fl_OperationKey r)), (''AttemptID'', JS (fl_AttemptID r)),
     (''LeaseID'', JS (fl_LeaseID r)), (''ExpectedFence'', JW (fl_ExpectedFence r))]"

section \<open>Canonical resources\<close>

definition resource_char :: "char \<Rightarrow> bool" where
  "resource_char c \<longleftrightarrow> (CHR ''a'' \<le> c \<and> CHR ''z'' \<ge> c) \<or> is_digit c
     \<or> c = CHR ''-'' \<or> c = CHR ''_'' \<or> c = CHR ''.''"

definition segment_ok :: "string \<Rightarrow> bool" where
  "segment_ok seg \<longleftrightarrow> \<not> (seg = ''.'' \<or> seg = ''..'' \<or> seg = ''.git'' \<or> seg = '''') \<and> list_all resource_char seg"

text \<open>The loop over the path's segments: no existing component may be a symbolic link.\<close>

fun no_symlinks :: "filesystem \<Rightarrow> string \<Rightarrow> string list \<Rightarrow> bool" where
  "no_symlinks fs p [] = True"
| "no_symlinks fs p (seg # segs) =
     (let q = path_join p seg in
      (case fs_lstat fs q of
         Missing \<Rightarrow> no_symlinks fs q segs
       | LstatError \<Rightarrow> False
       | Entry k \<Rightarrow> if k = Symlink then False else no_symlinks fs q segs))"

definition resource_ok :: "filesystem \<Rightarrow> string \<Rightarrow> string \<Rightarrow> resource \<Rightarrow> bool" where
  "resource_ok fs root task r =
     (if rs_Kind r = ''task'' then rs_Path r = task
      else if rs_Kind r = ''checkout'' then rs_Path r = ''''
      else if rs_Kind r = ''path'' then
        \<not> (rs_Path r = '''' \<or> is_abs (rs_Path r) \<or> to_lower (rs_Path r) \<noteq> rs_Path r
           \<or> path_clean (rs_Path r) \<noteq> rs_Path r)
        \<and> list_all segment_ok (split_on CHR ''/'' (rs_Path r))
        \<and> no_symlinks fs root (split_on CHR ''/'' (rs_Path r))
      else False)"

definition resource_key :: "resource \<Rightarrow> string \<times> string" where
  "resource_key r = (rs_Kind r, rs_Path r)"

definition canonicalResources ::
    "filesystem \<Rightarrow> string \<Rightarrow> string \<Rightarrow> resource list \<Rightarrow> resource list res" where
  "canonicalResources fs root task rs =
     require (fs_evalSymlinks fs root = Some root) ErrDenied (
     require (fs_lstat fs root = Entry Directory) ErrDenied (
     require (list_all (resource_ok fs root task) rs) ErrDenied (
     require (rs \<noteq> []) ErrDenied (
     Inr (remdups_adj (sort_key resource_key (\<lparr>rs_Kind = ''task'', rs_Path = task\<rparr> # rs)))))))"

section \<open>Overlap\<close>

definition path_prefix :: "string \<Rightarrow> string \<Rightarrow> bool" where
  "path_prefix a b \<longleftrightarrow> a = b \<or> has_prefix a (b @ ''/'') \<or> has_prefix b (a @ ''/'')"

definition resources_clash :: "bool \<Rightarrow> resource \<Rightarrow> resource \<Rightarrow> bool" where
  "resources_clash same_repository x y \<longleftrightarrow>
     (rs_Kind x = ''task'' \<and> rs_Kind y = ''task'' \<and> rs_Path x = rs_Path y)
     \<or> (same_repository \<and> rs_Kind x = ''path'' \<and> rs_Kind y = ''path'' \<and> path_prefix (rs_Path x) (rs_Path y))
     \<or> (same_repository \<and> (rs_Kind x = ''checkout'' \<or> rs_Kind y = ''checkout''))"

definition overlaps :: "lease \<Rightarrow> lease \<Rightarrow> bool" where
  "overlaps a b \<longleftrightarrow> l_Checkout a = l_Checkout b
     \<or> list_ex (\<lambda>x. list_ex (resources_clash (l_Repository a = l_Repository b) x) (l_Resources b)) (l_Resources a)"

section \<open>Acquire, renew, release\<close>

definition AcquireLease ::
    "env \<Rightarrow> string \<Rightarrow> string \<Rightarrow> acquire_request \<Rightarrow> state \<Rightarrow> (lease \<times> state) res" where
  "AcquireLease E token sess req0 s =
     bindr (leaseAuth E s token sess (al_AttemptID req0) ''lease.acquire'' (e_now E 0)) (\<lambda>(r, a).
     require (validID (al_OperationKey req0)) ErrDenied (
     bindr (canonicalResources (e_fs E) (ob_Locator (at_Observation a)) (ar_TaskID (at_Request a))
              (al_Resources req0)) (\<lambda>resources.
     let req = req0\<lparr>al_Resources := resources\<rparr> in
     require (list_all (\<lambda>x. rs_Kind x \<noteq> ''task'' \<longrightarrow>
         subset [rs_Kind x @ '':'' @ rs_Path x] (sc_Resources (se_Scope r))) resources) ErrDenied (
     let digest = identity E ''acquire'' sess (jv_acquire req) in
     (case retry s (al_OperationKey req) digest of
        Some previous \<Rightarrow> bindr previous (\<lambda>old. Inr (old, s))
      | None \<Rightarrow>
     require (e_now E 0 < al_ExpiresAt req \<and> al_ExpiresAt req \<le> se_ExpiresAt r) ErrDenied (
     bindr (from_option (e_admitLease E) ErrDenied) (\<lambda>admit.
     require (admit (b_Workspace (Binding s)) (at_ProjectID a) (ar_TaskID (at_Request a))) ErrDenied (
     bindr (checkLeaseCheckout E 0 (e_now E 1) a) (\<lambda>_.
     let now = e_now E 2 in
     bindr (authenticate E s token sess now) (\<lambda>_.
     require (now < al_ExpiresAt req) ErrDenied (
     let result = \<lparr>l_ID = '''', l_AttemptID = at_ID a, l_SessionID = sess, l_TaskID = ar_TaskID (at_Request a),
           l_Repository = ob_Repository (at_Observation a), l_Checkout = ob_Locator (at_Observation a),
           l_Resources = resources, l_Fence = 0, l_ExpiresAt = al_ExpiresAt req, l_Released = False\<rparr> in
     require (\<not> list_ex (\<lambda>old. \<not> l_Released old \<and> overlaps result old) (gvals (Leases s))) ErrDenied (
     require (\<not> list_ex (\<lambda>d. reservationRetained s d \<and> overlaps result (dr_Reservation d))
         (gvals (Dispatches s))) ErrDenied (
     require (Fence s \<noteq> - 1) ErrDenied (
     bindr (mint E 0) (\<lambda>i.
     let fence = Fence s + 1; receipt = result\<lparr>l_ID := i, l_Fence := fence\<rparr> in
     Inr (receipt, s\<lparr>Fence := fence, Leases := gput i receipt (Leases s),
       Operations := gput (al_OperationKey req)
         ((empty_operation digest)\<lparr>op_Receipt := receipt\<rparr>) (Operations s)\<rparr>))))))))))))))))"

definition changeLease ::
    "env \<Rightarrow> token \<Rightarrow> ident \<Rightarrow> string \<Rightarrow> ident \<Rightarrow> ident \<Rightarrow> 64 word \<Rightarrow> int \<Rightarrow> bool \<Rightarrow> string
       \<Rightarrow> state \<Rightarrow> (lease \<times> state) res" where
  "changeLease E token sess key attemptID i fence expires release digest s =
     (let action = (if release then ''lease.release'' else ''lease.renew'') in
     bindr (leaseAuth E s token sess attemptID action (e_now E 0)) (\<lambda>(r, a).
     require (validID key) ErrDenied (
     fetch (Leases s) i (\<lambda>old.
     require (l_SessionID old = sess \<and> l_AttemptID old = attemptID \<and> l_Fence old = fence) ErrDenied (
     (case retry s key digest of
        Some previous \<Rightarrow> bindr previous (\<lambda>receipt. Inr (receipt, s))
      | None \<Rightarrow>
     bindr (checkLeaseCheckout E 0 (e_now E 1) a) (\<lambda>_.
     let now = e_now E 2 in
     bindr (leaseAuth E s token sess attemptID action now) (\<lambda>_.
     require (currentLease s old now) ErrDenied (
     require (release \<or> (now < expires \<and> expires \<le> se_ExpiresAt r)) ErrDenied (
     let new = (if release then old\<lparr>l_Released := True\<rparr> else old\<lparr>l_ExpiresAt := expires\<rparr>) in
     Inr (new, s\<lparr>Leases := gput i new (Leases s),
       Operations := gput key ((empty_operation digest)\<lparr>op_Receipt := new\<rparr>) (Operations s)\<rparr>)))))))))))"

definition RenewLease ::
    "env \<Rightarrow> string \<Rightarrow> string \<Rightarrow> renew_request \<Rightarrow> state \<Rightarrow> (lease \<times> state) res" where
  "RenewLease E token sess req =
     changeLease E token sess (nl_OperationKey req) (nl_AttemptID req) (nl_LeaseID req)
       (nl_ExpectedFence req) (nl_ExpiresAt req) False (identity E ''renew'' sess (jv_renew req))"

definition ReleaseLease ::
    "env \<Rightarrow> string \<Rightarrow> string \<Rightarrow> release_request \<Rightarrow> state \<Rightarrow> (lease \<times> state) res" where
  "ReleaseLease E token sess req =
     changeLease E token sess (fl_OperationKey req) (fl_AttemptID req) (fl_LeaseID req)
       (fl_ExpectedFence req) 0 True (identity E ''release'' sess (jv_release req))"

section \<open>Paths and overlap\<close>

lemma join_with_append:
  "ys \<noteq> [] \<Longrightarrow> xs \<noteq> [] \<Longrightarrow> join_with sep (xs @ ys) = join_with sep xs @ sep @ join_with sep ys"
proof (induction sep xs rule: join_with.induct)
  case (2 sep w)
  then show ?case by (cases ys) simp_all
qed simp_all

lemma has_prefix_dir_iff:
  "has_prefix a (b @ ''/'') \<longleftrightarrow> strict_prefix (split_on CHR ''/'' b) (split_on CHR ''/'' a)"
proof
  assume "has_prefix a (b @ ''/'')"
  then obtain t where "a = b @ CHR ''/'' # t" by (auto simp: has_prefix_iff)
  then show "strict_prefix (split_on CHR ''/'' b) (split_on CHR ''/'' a)"
    by (simp add: split_on_append_sep strict_prefix_def)
next
  assume "strict_prefix (split_on CHR ''/'' b) (split_on CHR ''/'' a)"
  then obtain ws where "split_on CHR ''/'' a = split_on CHR ''/'' b @ ws" "ws \<noteq> []"
    by (auto simp: strict_prefix_def prefix_def)
  then have "join_with ''/'' (split_on CHR ''/'' a) = b @ ''/'' @ join_with ''/'' ws"
    by (simp add: join_with_append)
  then show "has_prefix a (b @ ''/'')"
    by (auto simp: has_prefix_iff)
qed

lemma split_on_inject: "split_on c a = split_on c b \<longleftrightarrow> a = b"
  by (metis join_split)

lemma path_prefix_iff:
  "path_prefix a b \<longleftrightarrow> prefix (split_on CHR ''/'' a) (split_on CHR ''/'' b)
     \<or> prefix (split_on CHR ''/'' b) (split_on CHR ''/'' a)"
  unfolding path_prefix_def has_prefix_dir_iff strict_prefix_def split_on_inject [symmetric, of a b "CHR ''/''"]
  by auto

lemma path_prefix_sym: "path_prefix a b \<longleftrightarrow> path_prefix b a"
  by (auto simp: path_prefix_iff)

lemma resources_clash_sym: "resources_clash q x y \<longleftrightarrow> resources_clash q y x"
  by (auto simp: resources_clash_def path_prefix_sym)

lemma overlaps_iff:
  "overlaps a b \<longleftrightarrow> l_Checkout a = l_Checkout b \<or> (\<exists>x y. x \<in> set (l_Resources a) \<and> y \<in> set (l_Resources b)
     \<and> resources_clash (l_Repository a = l_Repository b) x y)"
  unfolding overlaps_def list_ex_iff by blast

lemma overlaps_sym: "overlaps a b \<longleftrightarrow> overlaps b a"
proof -
  have repo: "(l_Repository b = l_Repository a) = (l_Repository a = l_Repository b)" by auto
  have "(\<exists>v w. v \<in> A \<and> w \<in> B \<and> resources_clash q v w) \<longleftrightarrow> (\<exists>v w. v \<in> B \<and> w \<in> A \<and> resources_clash q v w)" for A B q
    using resources_clash_sym by blast
  then show ?thesis
    unfolding overlaps_iff repo by (simp only: eq_commute [of "l_Checkout b"])
qed

text \<open>What the overlap of a lease depends on.\<close>

definition footprint :: "lease \<Rightarrow> string \<times> string \<times> resource list" where
  "footprint l = (l_Checkout l, l_Repository l, l_Resources l)"

lemma overlaps_footprint:
  "footprint a' = footprint a \<Longrightarrow> footprint b' = footprint b \<Longrightarrow> overlaps a' b' = overlaps a b"
  by (simp add: overlaps_def footprint_def)

text \<open>What a lease stands for: files of a repository. A path resource covers the file or directory it
  names and everything below it; a checkout resource covers the whole repository.\<close>

definition covers :: "lease \<Rightarrow> string \<Rightarrow> string \<Rightarrow> bool" where
  "covers l repository path \<longleftrightarrow> l_Repository l = repository \<and> list_ex (\<lambda>r. rs_Kind r = ''checkout''
     \<or> (rs_Kind r = ''path'' \<and> prefix (split_on CHR ''/'' (rs_Path r)) (split_on CHR ''/'' path))) (l_Resources l)"

lemma disjoint_cover:
  assumes "\<not> overlaps a b" "covers a repository path"
  shows "\<not> covers b repository path"
proof
  assume "covers b repository path"
  with assms(2) obtain x y where xy: "x \<in> set (l_Resources a)" "y \<in> set (l_Resources b)"
    and repo: "l_Repository a = l_Repository b"
    and x: "rs_Kind x = ''checkout'' \<or> rs_Kind x = ''path'' \<and> prefix (split_on CHR ''/'' (rs_Path x)) (split_on CHR ''/'' path)"
    and y: "rs_Kind y = ''checkout'' \<or> rs_Kind y = ''path'' \<and> prefix (split_on CHR ''/'' (rs_Path y)) (split_on CHR ''/'' path)"
    by (auto simp: covers_def list_ex_iff)
  have "resources_clash True x y"
    using x y prefix_same_cases by (auto simp: resources_clash_def path_prefix_iff)
  with xy repo have "overlaps a b"
    by (auto simp: overlaps_def list_ex_iff)
  with assms(1) show False by simp
qed

section \<open>Canonical resources\<close>

definition canonical :: "string \<Rightarrow> resource list \<Rightarrow> resource list" where
  "canonical task rs = remdups_adj (sort_key resource_key (\<lparr>rs_Kind = ''task'', rs_Path = task\<rparr> # rs))"

lemma resource_key_inject: "resource_key x = resource_key y \<longleftrightarrow> x = y"
  by (cases x; cases y) (auto simp: resource_key_def)

lemma canonicalResources_Inr:
  "canonicalResources fs root task rs = Inr out \<longleftrightarrow>
     fs_evalSymlinks fs root = Some root \<and> fs_lstat fs root = Entry Directory
     \<and> list_all (resource_ok fs root task) rs \<and> rs \<noteq> [] \<and> out = canonical task rs"
  by (auto simp: canonicalResources_def canonical_def)

lemma set_canonical [simp]: "set (canonical task rs) = insert \<lparr>rs_Kind = ''task'', rs_Path = task\<rparr> (set rs)"
  by (simp add: canonical_def set_insort_key)

lemma remdups_adj_map_inj: "inj f \<Longrightarrow> remdups_adj (map f xs) = map f (remdups_adj xs)"
  by (induction xs rule: remdups_adj.induct) (auto simp: inj_eq)

lemma canonical_strict: "sorted_wrt (\<lambda>x y. resource_key x < resource_key y) (canonical task rs)"
proof -
  let ?ys = "sort_key resource_key (\<lparr>rs_Kind = ''task'', rs_Path = task\<rparr> # rs)"
  have "inj resource_key" by (rule injI) (simp add: resource_key_inject)
  then have "map resource_key (canonical task rs) = remdups_adj (map resource_key ?ys)"
    by (simp only: canonical_def remdups_adj_map_inj)
  moreover have "sorted (map resource_key ?ys)" by (rule sorted_sort_key)
  ultimately have "sorted_wrt (<) (map resource_key (canonical task rs))"
    by (simp add: strict_sorted_iff distinct_remdups_adj_sorted del: sort_key_simps)
  then show ?thesis by (simp add: sorted_wrt_map)
qed

section \<open>What the handlers do on success\<close>

definition acquire_digest :: "env \<Rightarrow> string \<Rightarrow> acquire_request \<Rightarrow> state \<Rightarrow> string" where
  "acquire_digest E sess req s =
     (case attemptFor s (al_AttemptID req) sess of
        Inl e \<Rightarrow> ''''
      | Inr a \<Rightarrow> identity E ''acquire'' sess
          (jv_acquire (req\<lparr>al_Resources := canonical (ar_TaskID (at_Request a)) (al_Resources req)\<rparr>)))"

lemma retry_Some:
  "retry s key digest = Some r \<longleftrightarrow>
     (\<exists>p. gget (Operations s) key = Some p \<and> r = (if op_Digest p \<noteq> digest then Inl ErrDenied else Inr (op_Receipt p)))"
  by (auto simp: retry_def split: option.splits)

lemma retry_None: "retry s key digest = None \<longleftrightarrow> gget (Operations s) key = None"
  by (auto simp: retry_def split: option.splits)

lemma AcquireLease_Inr:
  assumes "AcquireLease E token sess req s = Inr (l, s')"
  obtains (served) p where "gget (Operations s) (al_OperationKey req) = Some p"
      "op_Digest p = acquire_digest E sess req s" "s' = s" "l = op_Receipt p"
  | (fresh) r a i where
      "leaseAuth E s token sess (al_AttemptID req) ''lease.acquire'' (e_now E 0) = Inr (r, a)"
      "canonicalResources (e_fs E) (ob_Locator (at_Observation a)) (ar_TaskID (at_Request a)) (al_Resources req)
         = Inr (l_Resources l)"
      "\<forall>x \<in> set (l_Resources l). rs_Kind x \<noteq> ''task'' \<longrightarrow> rs_Kind x @ '':'' @ rs_Path x \<in> set (sc_Resources (se_Scope r))"
      "gget (Operations s) (al_OperationKey req) = None"
      "e_now E 2 < l_ExpiresAt l" "l_ExpiresAt l \<le> se_ExpiresAt r"
      "\<forall>old \<in> set (gvals (Leases s)). \<not> l_Released old \<longrightarrow> \<not> overlaps l old"
      "\<forall>d \<in> set (gvals (Dispatches s)). reservationRetained s d \<longrightarrow> \<not> overlaps l (dr_Reservation d)"
      "Fence s \<noteq> - 1" "mint E 0 = Inr i"
      "l = \<lparr>l_ID = i, l_AttemptID = at_ID a, l_SessionID = sess, l_TaskID = ar_TaskID (at_Request a),
           l_Repository = ob_Repository (at_Observation a), l_Checkout = ob_Locator (at_Observation a),
           l_Resources = l_Resources l, l_Fence = Fence s + 1, l_ExpiresAt = al_ExpiresAt req, l_Released = False\<rparr>"
      "s' = s\<lparr>Fence := Fence s + 1, Leases := gput i l (Leases s),
         Operations := gput (al_OperationKey req)
           ((empty_operation (acquire_digest E sess req s))\<lparr>op_Receipt := l\<rparr>) (Operations s)\<rparr>"
      "validID (al_OperationKey req)"
proof (cases "gget (Operations s) (al_OperationKey req)")
  case None
  with assms show ?thesis
    apply (clarsimp simp: AcquireLease_def Let_def retry_def list_all_iff list_ex_iff)
    apply (rule fresh)
               apply (assumption | simp add: canonicalResources_Inr acquire_digest_def leaseAuth_Inr
          overlaps_def | fastforce simp: overlaps_def)+
    done
next
  case (Some p)
  with assms show ?thesis
    by (clarsimp simp: AcquireLease_def Let_def retry_def list_all_iff canonicalResources_Inr
        acquire_digest_def leaseAuth_Inr split: if_splits)
       (rule served, simp_all add: acquire_digest_def)
qed

lemma changeLease_Inr:
  assumes "changeLease E token sess key attemptID i fence expires release digest s = Inr (l, s')"
  obtains old where "gget (Leases s) i = Some old" "l_SessionID old = sess" "l_AttemptID old = attemptID"
      "l_Fence old = fence" "validID key"
      "\<exists>x. leaseAuth E s token sess attemptID (if release then ''lease.release'' else ''lease.renew'') (e_now E 0) = Inr x"
      "gget (Operations s) key = None \<Longrightarrow>
         currentLease s old (e_now E 2) \<and> (release \<or> (e_now E 2 < expires))
         \<and> l = (if release then old\<lparr>l_Released := True\<rparr> else old\<lparr>l_ExpiresAt := expires\<rparr>)
         \<and> s' = s\<lparr>Leases := gput i l (Leases s),
              Operations := gput key ((empty_operation digest)\<lparr>op_Receipt := l\<rparr>) (Operations s)\<rparr>"
      "\<And>p. gget (Operations s) key = Some p \<Longrightarrow> op_Digest p = digest \<and> s' = s \<and> l = op_Receipt p"
  using assms
  by (cases "gget (Operations s) key") (fastforce simp: changeLease_def Let_def retry_def split: if_splits)+

section \<open>Exclusion and fencing\<close>

text \<open>The claims on resources: unreleased leases, and reservations still retained. No two of them
  overlap; leases are filed under their identifiers and carry pairwise different fences that the
  counter has reached.\<close>

definition claims :: "state \<Rightarrow> string + string \<Rightarrow> lease \<Rightarrow> bool" where
  "claims s c l \<longleftrightarrow> (case c of
       Inl i \<Rightarrow> gget (Leases s) i = Some l \<and> \<not> l_Released l
     | Inr k \<Rightarrow> (\<exists>d. gget (Dispatches s) k = Some d \<and> reservationRetained s d \<and> l = dr_Reservation d))"

definition exclusive :: "state \<Rightarrow> bool" where
  "exclusive s \<longleftrightarrow> (\<forall>c c' l l'. claims s c l \<longrightarrow> claims s c' l' \<longrightarrow> c \<noteq> c' \<longrightarrow> \<not> overlaps l l')"

definition fenced :: "state \<Rightarrow> bool" where
  "fenced s \<longleftrightarrow> (\<forall>i a. gget (Leases s) i = Some a \<longrightarrow> l_ID a = i \<and> 0 < l_Fence a \<and> l_Fence a \<le> Fence s)
     \<and> (\<forall>i j a b. gget (Leases s) i = Some a \<longrightarrow> gget (Leases s) j = Some b \<longrightarrow> i \<noteq> j \<longrightarrow> l_Fence a \<noteq> l_Fence b)"

lemma exclusiveD: "exclusive s \<Longrightarrow> claims s c l \<Longrightarrow> claims s c' l' \<Longrightarrow> c \<noteq> c' \<Longrightarrow> \<not> overlaps l l'"
  unfolding exclusive_def by blast

lemma exclusive_mono:
  assumes "exclusive s" "\<And>c l. claims s' c l \<Longrightarrow> \<exists>m. claims s c m \<and> footprint l = footprint m"
  shows "exclusive s'"
  unfolding exclusive_def
proof (intro allI impI)
  fix c c' l l'
  assume "claims s' c l" "claims s' c' l'" and ne: "c \<noteq> c'"
  then obtain m m' where m: "claims s c m" "footprint l = footprint m" "claims s c' m'" "footprint l' = footprint m'"
    using assms(2) by blast
  show "\<not> overlaps l l'"
    using exclusiveD [OF assms(1) m(1,3) ne] overlaps_footprint [OF m(2,4)] by simp
qed

lemma exclusive_add:
  assumes "exclusive s" "\<And>c m. claims s' c m \<Longrightarrow> claims s c m \<or> (c = c0 \<and> m = l)"
    "\<And>c m. claims s c m \<Longrightarrow> \<not> overlaps l m"
  shows "exclusive s'"
  unfolding exclusive_def
proof (intro allI impI)
  fix c c' m m'
  assume "claims s' c m" "claims s' c' m'" and ne: "c \<noteq> c'"
  then consider "claims s c m" "claims s c' m'" | "m = l" "claims s c' m'" | "claims s c m" "m' = l"
    using assms(2) by metis
  then show "\<not> overlaps m m'"
    using exclusiveD [OF assms(1)] assms(3) overlaps_sym ne by cases metis+
qed

lemma reservationRetained_cong:
  "Recoveries s' = Recoveries s \<Longrightarrow> reservationRetained s' = reservationRetained s"
  by (intro ext) (simp add: reservationRetained_def)

lemma claims_gput:
  assumes "Leases s' = gput i l (Leases s)" "Dispatches s' = Dispatches s" "Recoveries s' = Recoveries s"
  shows "claims s' c m \<longleftrightarrow> (if c = Inl i then m = l \<and> \<not> l_Released l else claims s c m)"
  using reservationRetained_cong [OF assms(3)] assms(1,2) by (cases c) (auto simp: claims_def)

lemma acquire_exclusive:
  assumes "AcquireLease E token sess req s = Inr (l, s')" "exclusive s"
  shows "exclusive s'"
  using assms(1)
proof (cases rule: AcquireLease_Inr)
  case served
  with assms(2) show ?thesis by simp
next
  case (fresh r a i)
  have upd: "claims s' c m \<longleftrightarrow> (if c = Inl i then m = l \<and> \<not> l_Released l else claims s c m)" for c m
    by (rule claims_gput) (simp_all add: fresh(12))
  show ?thesis
  proof (rule exclusive_add [OF assms(2)])
    show "claims s c m \<or> (c = Inl i \<and> m = l)" if "claims s' c m" for c m
      using that unfolding upd by (simp split: if_splits)
    show "\<not> overlaps l m" if "claims s c m" for c m
      using that fresh(7,8) by (cases c) (auto simp: claims_def dest!: gget_gvals)
  qed
qed

lemma change_exclusive:
  assumes "changeLease E token sess key attemptID i fence expires release digest s = Inr (l, s')" "exclusive s"
  shows "exclusive s'"
  using assms(1)
proof (rule changeLease_Inr)
  fix old
  assume old: "gget (Leases s) i = Some old"
    and miss: "gget (Operations s) key = None \<Longrightarrow>
         currentLease s old (e_now E 2) \<and> (release \<or> (e_now E 2 < expires))
         \<and> l = (if release then old\<lparr>l_Released := True\<rparr> else old\<lparr>l_ExpiresAt := expires\<rparr>)
         \<and> s' = s\<lparr>Leases := gput i l (Leases s),
              Operations := gput key ((empty_operation digest)\<lparr>op_Receipt := l\<rparr>) (Operations s)\<rparr>"
    and hit: "\<And>p. gget (Operations s) key = Some p \<Longrightarrow> op_Digest p = digest \<and> s' = s \<and> l = op_Receipt p"
  show ?thesis
  proof (cases "gget (Operations s) key")
    case None
    note m = miss [OF None]
    have upd: "claims s' c m \<longleftrightarrow> (if c = Inl i then m = l \<and> \<not> l_Released l else claims s c m)" for c m
      by (rule claims_gput) (simp_all add: m)
    have same: "footprint l = footprint old" and kept: "\<not> l_Released l \<Longrightarrow> claims s (Inl i) old"
      using m old by (auto simp: footprint_def claims_def currentLease_def currentLeaseExcept_def)
    show ?thesis
    proof (rule exclusive_mono [OF assms(2)])
      show "\<exists>m. claims s c m \<and> footprint n = footprint m" if "claims s' c n" for c n
        using that same kept unfolding upd by (cases "c = Inl i") auto
    qed
  next
    case (Some p)
    with hit assms(2) show ?thesis by simp
  qed
qed

lemma word_suc_le: "(f :: 64 word) \<noteq> - 1 \<Longrightarrow> g \<le> f \<Longrightarrow> g < f + 1 \<and> g \<noteq> f + 1 \<and> 0 < f + 1"
proof -
  assume f: "f \<noteq> - 1" "g \<le> f"
  then have "1 + f \<noteq> 0" by (simp add: add_eq_0_iff)
  then have "unat (f + 1) = Suc (unat f)" by (simp add: unatSuc add.commute)
  with f(2) show ?thesis by (auto simp: word_less_nat_alt word_le_nat_alt)
qed

lemma acquire_fenced:
  assumes "AcquireLease E token sess req s = Inr (l, s')" "fenced s" 
  shows "fenced s'"
  using assms(1)
proof (cases rule: AcquireLease_Inr)
  case served
  with assms(2) show ?thesis by simp
next
  case (fresh r a i)
  have upd: "Fence s' = Fence s + 1" "Leases s' = gput i l (Leases s)" by (simp_all add: fresh(12))
  have l: "l_ID l = i" "l_Fence l = Fence s + 1" by (subst fresh(11), simp)+
  have old: "l_Fence b < Fence s + 1 \<and> l_ID b = j \<and> 0 < l_Fence b" if "gget (Leases s) j = Some b" for j b
    using that assms(2) word_suc_le [OF fresh(9)] unfolding fenced_def by blast
  have pos: "0 < Fence s + 1" using word_suc_le [OF fresh(9) order_refl] by simp
  show ?thesis
    unfolding fenced_def upd gget_gput
  proof (intro conjI allI impI)
    fix j b assume "(if j = i then Some l else gget (Leases s) j) = Some b"
    then show "l_ID b = j" "0 < l_Fence b" "l_Fence b \<le> Fence s + 1"
      using old [of j b] l pos by (auto split: if_splits)
  next
    fix j k b c
    assume "(if j = i then Some l else gget (Leases s) j) = Some b"
      "(if k = i then Some l else gget (Leases s) k) = Some c" "j \<noteq> k"
    then consider "b = l" "gget (Leases s) k = Some c" | "c = l" "gget (Leases s) j = Some b"
      | "gget (Leases s) j = Some b" "gget (Leases s) k = Some c" "j \<noteq> k"
      by (metis option.inject)
    then show "l_Fence b \<noteq> l_Fence c"
    proof cases
      case 1
      then show ?thesis using old [of k c] l by auto
    next
      case 2
      then show ?thesis using old [of j b] l by auto
    next
      case 3
      then show ?thesis using assms(2) unfolding fenced_def by blast
    qed
  qed
qed

lemma change_fenced:
  assumes "changeLease E token sess key attemptID i fence expires release digest s = Inr (l, s')" "fenced s"
  shows "fenced s'"
  using assms(1)
proof (rule changeLease_Inr)
  fix old
  assume old: "gget (Leases s) i = Some old"
    and miss: "gget (Operations s) key = None \<Longrightarrow>
         currentLease s old (e_now E 2) \<and> (release \<or> (e_now E 2 < expires))
         \<and> l = (if release then old\<lparr>l_Released := True\<rparr> else old\<lparr>l_ExpiresAt := expires\<rparr>)
         \<and> s' = s\<lparr>Leases := gput i l (Leases s),
              Operations := gput key ((empty_operation digest)\<lparr>op_Receipt := l\<rparr>) (Operations s)\<rparr>"
    and hit: "\<And>p. gget (Operations s) key = Some p \<Longrightarrow> op_Digest p = digest \<and> s' = s \<and> l = op_Receipt p"
  show ?thesis
  proof (cases "gget (Operations s) key")
    case None
    note m = miss [OF None]
    have same: "l_Fence l = l_Fence old" "l_ID l = l_ID old" using m by auto
    have upd: "Leases s' = gput i l (Leases s)" "Fence s' = Fence s" using m by simp_all
    have lookup: "\<exists>c. gget (Leases s) j = Some c \<and> l_Fence b = l_Fence c \<and> l_ID b = l_ID c"
      if "gget (Leases s') j = Some b" for j b
      using that same old unfolding upd by (cases "j = i") auto
    show ?thesis
      unfolding fenced_def upd(2)
    proof (intro conjI allI impI)
      fix j b assume "gget (Leases s') j = Some b"
      from lookup [OF this] assms(2) show "l_ID b = j" "0 < l_Fence b" "l_Fence b \<le> Fence s"
        unfolding fenced_def by auto
    next
      fix j k b c assume "gget (Leases s') j = Some b" "gget (Leases s') k = Some c" and ne: "j \<noteq> k"
      from lookup [OF this(1)] lookup [OF this(2)] obtain b' c' where
        "gget (Leases s) j = Some b'" "l_Fence b = l_Fence b'" "gget (Leases s) k = Some c'" "l_Fence c = l_Fence c'"
        by auto
      with ne assms(2) show "l_Fence b \<noteq> l_Fence c" unfolding fenced_def by metis
    qed
  next
    case (Some p)
    with hit assms(2) show ?thesis by simp
  qed
qed

lemma acquire_safe:
  "AcquireLease E token sess req s = Inr (l, s') \<Longrightarrow> exclusive s \<Longrightarrow> fenced s \<Longrightarrow> exclusive s' \<and> fenced s'"
  by (intro conjI; erule (1) acquire_exclusive acquire_fenced)

lemma renew_safe:
  "RenewLease E token sess req s = Inr (l, s') \<Longrightarrow> exclusive s \<Longrightarrow> fenced s \<Longrightarrow> exclusive s' \<and> fenced s'"
  unfolding RenewLease_def by (intro conjI; erule (1) change_exclusive change_fenced)

lemma release_safe:
  "ReleaseLease E token sess req s = Inr (l, s') \<Longrightarrow> exclusive s \<Longrightarrow> fenced s \<Longrightarrow> exclusive s' \<and> fenced s'"
  unfolding ReleaseLease_def by (intro conjI; erule (1) change_exclusive change_fenced)

section \<open>Replay\<close>

text \<open>The three handlers on requests \<open>(token, session, request)\<close>; they share the table of operations.\<close>

lemma acquire_digest_cong: "Attempts s' = Attempts s \<Longrightarrow> acquire_digest E sess req s' = acquire_digest E sess req s"
  by (simp add: acquire_digest_def attemptFor_def)

lemma acquire_hit:
  "AcquireLease E token sess req s = Inr (l, s') \<Longrightarrow> gget (Operations s) (al_OperationKey req) = Some p \<Longrightarrow>
     op_Digest p = acquire_digest E sess req s \<and> op_Receipt p = l \<and> s' = s"
  by (erule AcquireLease_Inr) auto

lemma acquire_miss:
  assumes "AcquireLease E token sess req s = Inr (l, s')" "gget (Operations s) (al_OperationKey req) = None"
  shows "\<exists>p. gget (Operations s') (al_OperationKey req) = Some p \<and> op_Digest p = acquire_digest E sess req s
     \<and> op_Receipt p = l"
  using assms(1)
proof (cases rule: AcquireLease_Inr)
  case (fresh r' a i)
  from fresh(12) show ?thesis by (simp add: empty_operation_def)
qed (simp add: assms(2))

lemma acquire_again:
  assumes "AcquireLease E token sess req s = Inr (l, s')"
  shows "\<exists>x. AcquireLease E token sess req s' = Inr x"
  using assms
proof (cases rule: AcquireLease_Inr)
  case (fresh r a i)
  have same: "leaseAuth E s' = leaseAuth E s"
    by (rule leaseAuth_cong) (simp_all add: fresh(12))
  have at: "attemptFor s (al_AttemptID req) sess = Inr a" using fresh(1) by (simp add: leaseAuth_Inr)
  have digest: "acquire_digest E sess req s
      = identity E ''acquire'' sess (jv_acquire (req\<lparr>al_Resources := l_Resources l\<rparr>))"
    using at fresh(2) by (simp add: acquire_digest_def canonicalResources_Inr)
  have op: "retry s' (al_OperationKey req) (acquire_digest E sess req s) = Some (Inr l)"
    using fresh(12) by (simp add: retry_def empty_operation_def)
  show ?thesis
    using fresh(1,2,3,13) op unfolding digest
    by (simp add: AcquireLease_def same Let_def list_all_iff)
qed (use assms in auto)

lemma change_hit:
  "changeLease E token sess key attemptID i fence expires release digest s = Inr (l, s') \<Longrightarrow>
     gget (Operations s) key = Some p \<Longrightarrow> op_Digest p = digest \<and> op_Receipt p = l \<and> s' = s"
  by (erule changeLease_Inr) auto

lemma change_miss:
  "changeLease E token sess key attemptID i fence expires release digest s = Inr (l, s') \<Longrightarrow>
     gget (Operations s) key = None \<Longrightarrow>
     \<exists>p. gget (Operations s') key = Some p \<and> op_Digest p = digest \<and> op_Receipt p = l"
  by (erule changeLease_Inr) (auto simp: empty_operation_def)

lemma change_again:
  assumes "changeLease E token sess key attemptID i fence expires release digest s = Inr (l, s')"
  shows "\<exists>x. changeLease E token sess key attemptID i fence expires release digest s' = Inr x"
  using assms
proof (rule changeLease_Inr)
  fix old
  assume old: "gget (Leases s) i = Some old" "l_SessionID old = sess" "l_AttemptID old = attemptID"
      "l_Fence old = fence" "validID key"
    and auth: "\<exists>x. leaseAuth E s token sess attemptID (if release then ''lease.release'' else ''lease.renew'') (e_now E 0) = Inr x"
    and miss: "gget (Operations s) key = None \<Longrightarrow>
         currentLease s old (e_now E 2) \<and> (release \<or> (e_now E 2 < expires))
         \<and> l = (if release then old\<lparr>l_Released := True\<rparr> else old\<lparr>l_ExpiresAt := expires\<rparr>)
         \<and> s' = s\<lparr>Leases := gput i l (Leases s),
              Operations := gput key ((empty_operation digest)\<lparr>op_Receipt := l\<rparr>) (Operations s)\<rparr>"
    and hit: "\<And>p. gget (Operations s) key = Some p \<Longrightarrow> op_Digest p = digest \<and> s' = s \<and> l = op_Receipt p"
  show ?thesis
  proof (cases "gget (Operations s) key")
    case None
    note m = miss [OF None]
    have same: "leaseAuth E s' = leaseAuth E s" by (rule leaseAuth_cong) (simp_all add: m)
    have new: "l_SessionID l = sess" "l_AttemptID l = attemptID" "l_Fence l = fence" using m old by auto
    from m have s': "gget (Leases s') i = Some l" "retry s' key digest = Some (Inr l)"
      by (simp_all add: retry_def empty_operation_def)
    show ?thesis
      using auth old(5) new s' unfolding changeLease_def same Let_def by (auto simp: fetch_def)
  qed (use hit assms in auto)
qed

interpretation acquire_key: idempotent
  "\<lambda>E (token, sess, req). AcquireLease E token sess req"
  "\<lambda>s (token, sess, req). gget (Operations s) (al_OperationKey req)"
  "\<lambda>E (token, sess, req). acquire_digest E sess req"
  op_Digest "\<lambda>p. Some (op_Receipt p)"
  by (unfold_locales; simp only: split_paired_all prod.case option.inject)
     (blast dest: acquire_hit intro: acquire_miss acquire_again)+

interpretation renew_key: idempotent
  "\<lambda>E (token, sess, req). RenewLease E token sess req"
  "\<lambda>s (token, sess, req). gget (Operations s) (nl_OperationKey req)"
  "\<lambda>E (token, sess, req) s. identity E ''renew'' sess (jv_renew req)"
  op_Digest "\<lambda>p. Some (op_Receipt p)"
  by (unfold_locales; simp only: split_paired_all prod.case option.inject RenewLease_def)
     (blast dest: change_hit intro: change_miss change_again)+

interpretation release_key: idempotent
  "\<lambda>E (token, sess, req). ReleaseLease E token sess req"
  "\<lambda>s (token, sess, req). gget (Operations s) (fl_OperationKey req)"
  "\<lambda>E (token, sess, req) s. identity E ''release'' sess (jv_release req)"
  op_Digest "\<lambda>p. Some (op_Receipt p)"
  by (unfold_locales; simp only: split_paired_all prod.case option.inject ReleaseLease_def)
     (blast dest: change_hit intro: change_miss change_again)+

section \<open>Properties\<close>

text \<open>Two paths conflict exactly when one is the other or an ancestor directory of it; overlap is
  symmetric; and leases that do not overlap have no file of a repository in common, whatever mix of
  path and whole-checkout resources they hold.\<close>

theorem overlap_is_containment:
  "path_prefix a b = (prefix (split_on CHR ''/'' a) (split_on CHR ''/'' b)
      \<or> prefix (split_on CHR ''/'' b) (split_on CHR ''/'' a))
   \<and> overlaps l m = overlaps m l
   \<and> (\<not> overlaps l m \<longrightarrow> covers l repository path \<longrightarrow> \<not> covers m repository path)"
  using path_prefix_iff overlaps_sym disjoint_cover by blast

definition sample_lease :: "string \<Rightarrow> string \<Rightarrow> lease" where
  "sample_lease checkout p = \<lparr>l_ID = checkout, l_AttemptID = ''a'', l_SessionID = ''r'', l_TaskID = ''t'',
     l_Repository = ''/w/.git'', l_Checkout = checkout, l_Resources = [\<lparr>rs_Kind = ''path'', rs_Path = p\<rparr>],
     l_Fence = 1, l_ExpiresAt = 50, l_Released = False\<rparr>"

theorem overlap_is_containment_witness:
  "\<not> covers (sample_lease ''/x'' ''src-old'') ''/w/.git'' ''src/a.go''"
proof -
  have "\<not> overlaps (sample_lease ''/w'' ''src'') (sample_lease ''/x'' ''src-old'')"
    by (simp add: overlaps_def resources_clash_def path_prefix_def sample_lease_def has_prefix_def)
  moreover have "covers (sample_lease ''/w'' ''src'') ''/w/.git'' ''src/a.go''"
    by (simp add: covers_def sample_lease_def)
  ultimately show ?thesis using overlap_is_containment by blast
qed

text \<open>A canonical resource set is strictly sorted and free of duplicates, contains the task and
  exactly the requested resources, and depends on the request only as a set. Each path in it is a
  clean relative path of non-empty lower-case segments, none of them \<^verbatim>\<open>.\<close>, \<^verbatim>\<open>..\<close> or
  \<^verbatim>\<open>.git\<close>, and an empty request or a checkout that is not its own canonical directory is denied.\<close>

theorem canonical_resources_spec:
  assumes "canonicalResources fs root task rs = Inr out"
  shows "sorted_wrt (\<lambda>x y. resource_key x < resource_key y) out
     \<and> set out = insert \<lparr>rs_Kind = ''task'', rs_Path = task\<rparr> (set rs)
     \<and> (\<forall>rs'. set rs' = set rs \<longrightarrow> canonicalResources fs root task rs' = Inr out)
     \<and> (\<forall>r \<in> set out. rs_Kind r = ''path'' \<longrightarrow> \<not> is_abs (rs_Path r) \<and> path_clean (rs_Path r) = rs_Path r
          \<and> (\<forall>seg \<in> set (split_on CHR ''/'' (rs_Path r)). seg \<notin> {'''', ''.'', ''..'', ''.git''}
               \<and> list_all resource_char seg))
     \<and> rs \<noteq> [] \<and> fs_evalSymlinks fs root = Some root"
proof -
  from assms have ok: "fs_evalSymlinks fs root = Some root" "fs_lstat fs root = Entry Directory"
      "\<forall>r \<in> set rs. resource_ok fs root task r" "rs \<noteq> []" and out: "out = canonical task rs"
    by (auto simp: canonicalResources_Inr list_all_iff)
  have perm: "canonicalResources fs root task rs' = Inr out" if "set rs' = set rs" for rs'
  proof -
    have "set (map resource_key (canonical task rs')) = set (map resource_key out)"
      using that out by simp
    then have "map resource_key (canonical task rs') = map resource_key out"
      by (intro strict_sorted_equal) (simp_all add: sorted_wrt_map out canonical_strict)
    then have "canonical task rs' = out"
      by (rule map_injective) (simp add: inj_def resource_key_inject)
    moreover have "rs' \<noteq> []" using that ok(4) by auto
    ultimately show ?thesis using ok that by (simp add: canonicalResources_Inr list_all_iff)
  qed
  have paths: "\<not> is_abs (rs_Path r) \<and> path_clean (rs_Path r) = rs_Path r
      \<and> (\<forall>seg \<in> set (split_on CHR ''/'' (rs_Path r)). seg \<notin> {'''', ''.'', ''..'', ''.git''} \<and> list_all resource_char seg)"
    if "r \<in> set out" "rs_Kind r = ''path''" for r
  proof -
    have "resource_ok fs root task r" using that ok(3) out by auto
    with that(2) have r: "\<not> is_abs (rs_Path r)" "path_clean (rs_Path r) = rs_Path r"
        "\<forall>seg \<in> set (split_on CHR ''/'' (rs_Path r)). segment_ok seg"
      by (simp_all add: resource_ok_def list_all_iff)
    then show ?thesis by (auto simp: segment_ok_def)
  qed
  show ?thesis
    using canonical_strict perm paths ok out by simp
qed

lemma sample_canonical:
  "canonicalResources sample_fs ''/w'' ''t'' [\<lparr>rs_Kind = ''path'', rs_Path = ''src''\<rparr>]
   = Inr [\<lparr>rs_Kind = ''path'', rs_Path = ''src''\<rparr>, \<lparr>rs_Kind = ''task'', rs_Path = ''t''\<rparr>]"
proof -
  have "path_clean ''src'' = ''src''" "to_lower ''src'' = ''src''" "list_all segment_ok (split_on CHR ''/'' ''src'')"
    by code_simp+
  then show ?thesis
    by (simp add: canonicalResources_Inr resource_ok_def sample_fs_def is_abs_def has_prefix_def canonical_def
        resource_key_def)
qed

theorem canonical_resources_spec_witness:
  "sorted_wrt (\<lambda>x y. resource_key x < resource_key y)
     [\<lparr>rs_Kind = ''path'', rs_Path = ''src''\<rparr>, \<lparr>rs_Kind = ''task'', rs_Path = ''t''\<rparr>]"
  using canonical_resources_spec [OF sample_canonical] by blast

text \<open>C5: Mutual exclusion of writers. Acquiring, renewing and releasing keep the claims of the
  aggregate (unreleased leases, expired or not, and retained reservations) pairwise free of overlap
  and the fences distinct; so no two claims ever cover the same file or the same checkout.\<close>

theorem leases_exclusive:
  assumes "exclusive s" "fenced s"
    "AcquireLease E token sess areq s = Inr (l, s') \<or> RenewLease E token sess nreq s = Inr (l, s')
     \<or> ReleaseLease E token sess freq s = Inr (l, s')"
  shows "exclusive s' \<and> fenced s' \<and> (claims s' c a \<longrightarrow> claims s' d b \<longrightarrow> c \<noteq> d \<longrightarrow>
      l_Checkout a \<noteq> l_Checkout b \<and> (covers a repository path \<longrightarrow> \<not> covers b repository path))"
proof -
  have "exclusive s' \<and> fenced s'"
    using assms(3)
    by (elim disjE)
       (erule acquire_safe [OF _ assms(1,2)] renew_safe [OF _ assms(1,2)] release_safe [OF _ assms(1,2)])+
  moreover have "\<not> overlaps a b" if "exclusive s'" "claims s' c a" "claims s' d b" "c \<noteq> d"
    using that unfolding exclusive_def by blast
  ultimately show ?thesis
    using disjoint_cover overlaps_iff by metis
qed

definition sample_attempt :: attempt where
  "sample_attempt = \<lparr>at_ID = ''a'', at_SessionID = ''r'', at_Request = \<lparr>ar_RequestID = ''q'', ar_TaskID = ''t'',
     ar_Checkout = ''/w'', ar_HostLabel = ''''\<rparr>, at_ProjectID = ''p'', at_Observation = \<lparr>ob_Locator = ''/w'',
     ob_Repository = ''/w/.git'', ob_Commit = ''c1'', ob_Tree = ''t1'', ob_ObservedAt = 1\<rparr>, at_RegisteredAt = 1\<rparr>"

definition sample_lease_state :: state where
  "sample_lease_state = sample_state\<lparr>Sessions := [(''r'', sample_root)], Attempts := [(''q'', sample_attempt)],
     Leases := [(''/x'', sample_lease ''/x'' ''docs'')], Fence := 1\<rparr>"

definition sample_acquire :: acquire_request where
  "sample_acquire = \<lparr>al_OperationKey = ''k'', al_AttemptID = ''a'',
     al_Resources = [\<lparr>rs_Kind = ''path'', rs_Path = ''src''\<rparr>], al_ExpiresAt = 40\<rparr>"

definition sample_acquired :: lease where
  "sample_acquired = (sample_lease ''/w'' ''src'')\<lparr>l_ID := sample_id 0, l_Fence := 2, l_ExpiresAt := 40,
     l_Resources := [\<lparr>rs_Kind = ''path'', rs_Path = ''src''\<rparr>, \<lparr>rs_Kind = ''task'', rs_Path = ''t''\<rparr>]\<rparr>"

lemma sample_authenticate:
  "Sessions s = [(''r'', sample_root)] \<Longrightarrow> authenticate sample_env s (sample_id 1) ''r'' 10 = Inr sample_root"
  by (simp add: authenticate_Inr walk_ok_iff lineage_walk.simps sample_env_def gget_def sample_root_def)

lemma sample_lease_state_sel [simp]:
  "Sessions sample_lease_state = [(''r'', sample_root)]" "Attempts sample_lease_state = [(''q'', sample_attempt)]"
  "Leases sample_lease_state = [(''/x'', sample_lease ''/x'' ''docs'')]" "Fence sample_lease_state = 1"
  "Dispatches sample_lease_state = []" "Operations sample_lease_state = []" "TaskTerminals sample_lease_state = []"
  "Recoveries sample_lease_state = []" "LifecycleCancellations sample_lease_state = []"
  by (simp_all add: sample_lease_state_def sample_state_def empty_state_def)

lemma sample_not_withdrawn:
  "TaskTerminals s = [] \<Longrightarrow> Recoveries s = [] \<Longrightarrow> LifecycleCancellations s = [] \<Longrightarrow> \<not> workerTaskWithdrawn s i t"
  by (simp add: workerTaskWithdrawn_def workerTaskWithdrawnExcept_iff gvals_def)

lemma sample_leaseAuth:
  "leaseAuth sample_env sample_lease_state (sample_id 1) ''r'' ''a'' ''lease.acquire'' 10 = Inr (sample_root, sample_attempt)"
  unfolding leaseAuth_Inr
  by (simp add: sample_authenticate sample_not_withdrawn attemptFor_def gvals_def del: One_nat_def)
     (simp add: sample_attempt_def sample_root_def)

lemma sample_validID [simp]: "validID ''k''" "validID ''t''" "validID ''p''" "validID ''q''" "validID ''a''" "validID ''r''"
  by code_simp+

lemma sample_AcquireLease:
  obtains s' where "AcquireLease sample_env (sample_id 1) ''r'' sample_acquire sample_lease_state = Inr (sample_acquired, s')"
    "gget (Leases s') (sample_id 0) = Some sample_acquired" "gget (Operations s') ''k'' \<noteq> None"
proof -
  have disjoint: "\<not> overlaps \<lparr>l_ID = '''', l_AttemptID = ''a'', l_SessionID = ''r'', l_TaskID = ''t'',
      l_Repository = ''/w/.git'', l_Checkout = ''/w'', l_Resources = [\<lparr>rs_Kind = ''path'', rs_Path = ''src''\<rparr>,
        \<lparr>rs_Kind = ''task'', rs_Path = ''t''\<rparr>], l_Fence = 0, l_ExpiresAt = 40, l_Released = False\<rparr>
      (sample_lease ''/x'' ''docs'')"
    by (simp add: overlaps_def resources_clash_def path_prefix_def sample_lease_def has_prefix_def)
  have checkout: "checkLeaseCheckout sample_env 0 10 sample_attempt = Inr ()"
    by (simp add: checkLeaseCheckout_def ObserveRepositoryIdentity_def sample_env_def observe_def observeWithContext_def
        Let_def gitRunner_def sample_git_def sample_fs_def is_abs_def has_prefix_def sample_attempt_def)
  have env: "e_now sample_env = (\<lambda>_. 10)" "e_mint sample_env = (\<lambda>i. Some (sample_id i))"
      "e_fs sample_env = sample_fs" "e_admitLease sample_env = Some (\<lambda>_ _ _. True)"
    by (simp_all add: sample_env_def)
  have parts: "ob_Locator (at_Observation sample_attempt) = ''/w''" "ob_Repository (at_Observation sample_attempt) = ''/w/.git''"
      "ar_TaskID (at_Request sample_attempt) = ''t''" "at_ID sample_attempt = ''a''"
      "al_OperationKey sample_acquire = ''k''" "al_AttemptID sample_acquire = ''a''" "al_ExpiresAt sample_acquire = 40"
      "al_Resources sample_acquire = [\<lparr>rs_Kind = ''path'', rs_Path = ''src''\<rparr>]"
      "se_ExpiresAt sample_root = 100" "''path:src'' \<in> set (sc_Resources (se_Scope sample_root))"
    by (simp_all add: sample_attempt_def sample_acquire_def sample_root_def)
  have "\<exists>s'. AcquireLease sample_env (sample_id 1) ''r'' sample_acquire sample_lease_state = Inr (sample_acquired, s')
      \<and> gget (Leases s') (sample_id 0) = Some sample_acquired \<and> gget (Operations s') ''k'' \<noteq> None"
    by (simp add: AcquireLease_def Let_def env parts sample_leaseAuth sample_canonical retry_None [THEN iffD2]
        gvals_def checkout sample_authenticate disjoint mint_def del: One_nat_def)
       (simp add: sample_acquired_def sample_lease_def)
  with that show ?thesis by blast
qed

theorem leases_exclusive_witness:
  "\<exists>s'. exclusive s' \<and> claims s' (Inl (sample_id 0)) sample_acquired"
proof -
  have "exclusive sample_lease_state"
    by (auto simp: exclusive_def claims_def gget_def split: sum.splits if_splits)
  moreover have "fenced sample_lease_state"
    by (simp add: fenced_def sample_lease_def gget_def)
  moreover obtain s' where s': "AcquireLease sample_env (sample_id 1) ''r'' sample_acquire sample_lease_state
      = Inr (sample_acquired, s')" "gget (Leases s') (sample_id 0) = Some sample_acquired"
    by (rule sample_AcquireLease)
  ultimately have "exclusive s'"
    using leases_exclusive by blast
  with s'(2) show ?thesis
    by (auto simp: claims_def sample_acquired_def sample_lease_def)
qed

text \<open>A newly granted lease is fenced and within authority. Its fence is one more than the counter,
  without wrap-around, and above the fence of every lease granted before; the holder is a live,
  authenticated session, not withdrawn from the task, whose scope names the action, the task and
  each non-task resource, and the lease ends no later than the session.\<close>

theorem acquire_sound:
  assumes "AcquireLease E token sess req s = Inr (l, s')" "gget (Operations s) (al_OperationKey req) = None"
    "fenced s"
  shows "unat (l_Fence l) = Suc (unat (Fence s)) \<and> Fence s' = l_Fence l \<and> gget (Leases s') (l_ID l) = Some l
     \<and> (\<forall>i b. gget (Leases s) i = Some b \<longrightarrow> l_Fence b < l_Fence l)
     \<and> l_SessionID l = sess \<and> \<not> workerTaskWithdrawn s sess (l_TaskID l)
     \<and> (\<exists>r. authenticate E s token sess (e_now E 0) = Inr r \<and> ''lease.acquire'' \<in> set (sc_Actions (se_Scope r))
          \<and> ''task:'' @ l_TaskID l \<in> set (sc_Resources (se_Scope r)) \<and> l_ExpiresAt l \<le> se_ExpiresAt r
          \<and> (\<forall>x \<in> set (l_Resources l). rs_Kind x \<noteq> ''task'' \<longrightarrow>
               rs_Kind x @ '':'' @ rs_Path x \<in> set (sc_Resources (se_Scope r))))"
  using assms(1)
proof (cases rule: AcquireLease_Inr)
  case (fresh r a i)
  have l: "l_ID l = i" "l_Fence l = Fence s + 1" "l_SessionID l = sess" "l_TaskID l = ar_TaskID (at_Request a)"
    by (subst fresh(11), simp)+
  have "1 + Fence s \<noteq> 0" using fresh(9) by (simp add: add_eq_0_iff)
  then have "unat (l_Fence l) = Suc (unat (Fence s))" unfolding l(2) by (simp add: unatSuc add.commute)
  moreover have "l_Fence b < l_Fence l" if "gget (Leases s) j = Some b" for j b
    using that assms(3) word_suc_le [OF fresh(9)] unfolding l fenced_def by blast
  ultimately show ?thesis
    using fresh(1,3,6,12) l by (auto simp: leaseAuth_Inr)
qed (simp add: assms(2))

theorem acquire_sound_witness: "unat (l_Fence sample_acquired) = Suc (unat (Fence sample_lease_state))"
proof -
  obtain s' where "AcquireLease sample_env (sample_id 1) ''r'' sample_acquire sample_lease_state = Inr (sample_acquired, s')"
    by (rule sample_AcquireLease)
  moreover have "fenced sample_lease_state"
    by (simp add: fenced_def sample_lease_def gget_def)
  ultimately show ?thesis
    using acquire_sound by fastforce
qed

text \<open>Lease operations are idempotent under their operation key. Repeating a granted acquisition,
  renewal or release in the state it left answers with the same lease and changes nothing; in any
  later state that still holds the key's record an answer can only be that lease, and a request
  with another digest under the key of an acquisition is refused.\<close>

theorem lease_replay:
  "(AcquireLease E token sess areq s = Inr (l, s') \<longrightarrow>
      AcquireLease E token sess areq s' = Inr (l, s')
      \<and> (gget (Operations t) (al_OperationKey areq) = gget (Operations s') (al_OperationKey areq) \<longrightarrow>
           (AcquireLease E' token sess areq t = Inr (m, t') \<longrightarrow> m = l \<and> t' = t)
           \<and> (al_OperationKey areq' = al_OperationKey areq \<longrightarrow>
                acquire_digest E' sess' areq' t \<noteq> acquire_digest E sess areq s \<longrightarrow>
                AcquireLease E' token' sess' areq' t \<noteq> Inr x)))
   \<and> (RenewLease E token sess nreq s = Inr (l, s') \<longrightarrow> RenewLease E token sess nreq s' = Inr (l, s')
      \<and> (gget (Operations t) (nl_OperationKey nreq) = gget (Operations s') (nl_OperationKey nreq) \<longrightarrow>
           RenewLease E' token sess nreq t = Inr (m, t') \<longrightarrow> m = l \<and> t' = t))
   \<and> (ReleaseLease E token sess freq s = Inr (l, s') \<longrightarrow> ReleaseLease E token sess freq s' = Inr (l, s')
      \<and> (gget (Operations t) (fl_OperationKey freq) = gget (Operations s') (fl_OperationKey freq) \<longrightarrow>
           ReleaseLease E' token sess freq t = Inr (m, t') \<longrightarrow> m = l \<and> t' = t))"
  using acquire_key.repeated [of E "(token, sess, areq)" s l s']
    acquire_key.once [of E "(token, sess, areq)" s l s' t E' m t']
    acquire_key.conflict [of E "(token, sess, areq)" s l s' t "(token', sess', areq')" E' x]
    renew_key.repeated [of E "(token, sess, nreq)" s l s']
    renew_key.once [of E "(token, sess, nreq)" s l s' t E' m t']
    release_key.repeated [of E "(token, sess, freq)" s l s']
    release_key.once [of E "(token, sess, freq)" s l s' t E' m t']
  by simp

theorem lease_replay_witness:
  "\<exists>s'. AcquireLease sample_env (sample_id 1) ''r'' sample_acquire s' = Inr (sample_acquired, s')"
proof -
  obtain s' where "AcquireLease sample_env (sample_id 1) ''r'' sample_acquire sample_lease_state = Inr (sample_acquired, s')"
    by (rule sample_AcquireLease)
  with lease_replay show ?thesis by blast
qed

text \<open>Time alone never frees a resource. Under a key not used before, a lease that has expired, was
  released, or whose task was withdrawn can be neither renewed nor released by its holder, so its
  claim stays; and only the session and attempt the lease was granted to, presenting its current
  fence, can change it at all.\<close>

theorem stale_lease_is_frozen:
  assumes "gget (Leases s) i = Some old" "gget (Operations s) key = None"
    "l_Released old \<or> l_ExpiresAt old \<le> e_now E 2 \<or> workerTaskWithdrawn s (l_SessionID old) (l_TaskID old)
     \<or> l_SessionID old \<noteq> sess \<or> l_AttemptID old \<noteq> attemptID \<or> l_Fence old \<noteq> fence"
  shows "changeLease E token sess key attemptID i fence expires release digest s \<noteq> Inr x
     \<and> (key = nl_OperationKey nreq \<and> i = nl_LeaseID nreq \<and> attemptID = nl_AttemptID nreq
          \<and> fence = nl_ExpectedFence nreq \<longrightarrow> RenewLease E token sess nreq s \<noteq> Inr x)
     \<and> (key = fl_OperationKey freq \<and> i = fl_LeaseID freq \<and> attemptID = fl_AttemptID freq
          \<and> fence = fl_ExpectedFence freq \<longrightarrow> ReleaseLease E token sess freq s \<noteq> Inr x)"
proof -
  have "changeLease E token sess key attemptID i fence expires release digest s \<noteq> Inr x"
    for expires release digest
  proof
    assume "changeLease E token sess key attemptID i fence expires release digest s = Inr x"
    then have "changeLease E token sess key attemptID i fence expires release digest s = Inr (fst x, snd x)" by simp
    then show False
      using assms by (elim changeLease_Inr)
        (auto simp: currentLease_def currentLeaseExcept_def workerTaskWithdrawn_def)
  qed
  then show ?thesis unfolding RenewLease_def ReleaseLease_def by blast
qed

theorem stale_lease_is_frozen_witness:
  "\<forall>x. changeLease (sample_env\<lparr>e_now := \<lambda>_. 60\<rparr>) (sample_id 1) ''r'' ''k'' ''a'' ''/x'' 1 90 False ''d''
     sample_lease_state \<noteq> Inr x"
  using stale_lease_is_frozen [of sample_lease_state "''/x''" "sample_lease ''/x'' ''docs''" "''k''"
      "sample_env\<lparr>e_now := \<lambda>_. 60\<rparr>"]
  by (simp add: gget_def sample_lease_def)

end
