(* ===== verification/Recovery_Kernel.thy ===== *)
theory Recovery_Kernel
  imports Lifecycle_Kernel Leases
begin

text \<open>
  \<^verbatim>\<open>recovery.go\<close>: the owner's removal of a protection (a retained reservation or an unreleased lease)
  whose holder is gone. A recovery is authorised by the owner alone, names its target exactly as the
  aggregate derives it, takes a new global fence, and withdraws the old worker family from the task
  before anybody else can be given the resources.
\<close>

record recovery_request =
  rq_OperationKey :: string
  rq_Target :: recovery_target
  rq_Mode :: string
  rq_Rationale :: string
  rq_Uncertainty :: string
  rq_ReleaseRisk :: string
  rq_PolicyRevision :: string
  rq_ObservationSequence :: "64 word"
  rq_EvidenceDigest :: string

definition jv_target :: "recovery_target \<Rightarrow> jval" where
  "jv_target t = JO [(''Workspace'', JS (rt_Workspace t)), (''Kind'', JS (rt_Kind t)), (''TaskID'', JS (rt_TaskID t)),
     (''DispatchID'', JS (rt_DispatchID t)), (''IntentID'', JS (rt_IntentID t)), (''AttemptID'', JS (rt_AttemptID t)),
     (''ProtectionID'', JS (rt_ProtectionID t)), (''SessionID'', JS (rt_SessionID t)),
     (''WorkerFamilyID'', JS (rt_WorkerFamilyID t)), (''Repository'', JS (rt_Repository t)),
     (''Checkout'', JS (rt_Checkout t)), (''ExpectedFence'', JW (rt_ExpectedFence t))]"

definition jv_recovery :: "recovery_request \<Rightarrow> jval" where
  "jv_recovery q = JO [(''OperationKey'', JS (rq_OperationKey q)), (''Target'', jv_target (rq_Target q)),
     (''Mode'', JS (rq_Mode q)), (''Rationale'', JS (rq_Rationale q)), (''Uncertainty'', JS (rq_Uncertainty q)),
     (''ReleaseRisk'', JS (rq_ReleaseRisk q)), (''PolicyRevision'', JS (rq_PolicyRevision q)),
     (''ObservationSequence'', JW (rq_ObservationSequence q)), (''EvidenceDigest'', JS (rq_EvidenceDigest q))]"

section \<open>Policies\<close>

definition ConfigureRecovery :: "env \<Rightarrow> string \<Rightarrow> recovery_policy \<Rightarrow> state \<Rightarrow> (unit \<times> state) res" where
  "ConfigureRecovery E owner' p s =
     require (10 \<le> Version s \<and> owner_ok E s owner' \<and> ry_SchemaVersion p = 1 \<and> validID (ry_ProjectID p)
        \<and> validID (ry_Revision p) \<and> trim_space (ry_Rationale p) \<noteq> '''' \<and> length (ry_Rationale p) \<le> 8192) ErrDenied (
     fetch (SwarmPolicies s) (ry_ProjectID p) (\<lambda>_.
     case gget (inner (RecoveryPolicyHistory s) (ry_ProjectID p)) (ry_Revision p) of
       Some old \<Rightarrow> require (old = p) ErrDenied (Inr ((), s))
     | None \<Rightarrow> Inr ((), s\<lparr>RecoveryPolicyHistory := gput (ry_ProjectID p)
            (gput (ry_Revision p) p (inner (RecoveryPolicyHistory s) (ry_ProjectID p))) (RecoveryPolicyHistory s),
          RecoveryPolicies := gput (ry_ProjectID p) p (RecoveryPolicies s)\<rparr>)))"

section \<open>The target of a recovery\<close>

text \<open>The loop over the dispatches converted into the lease: at most one may name a dispatch, so far
  \<open>found\<close> with its intent; a second one is ambiguous and refused.\<close>

fun converted_dispatch ::
    "dispatch_intent gmap \<Rightarrow> string \<Rightarrow> dispatch_reservation list \<Rightarrow> string \<times> string \<Rightarrow> (string \<times> string) res" where
  "converted_dispatch intents i [] found = Inr found"
| "converted_dispatch intents i (d # ds) found =
     (if dr_Converted d \<and> l_ID (dr_Reservation d) = i then
        (if fst found \<noteq> '''' then Inl ErrDenied
         else converted_dispatch intents i ds
           (dr_ID d, case gget intents (dr_ID d) of None \<Rightarrow> snd found | Some n \<Rightarrow> di_ID n))
      else converted_dispatch intents i ds found)"

definition target_of :: "state \<Rightarrow> verb \<Rightarrow> ident \<Rightarrow> ident \<Rightarrow> ident \<Rightarrow> ident \<Rightarrow> ident \<Rightarrow> lease \<Rightarrow> recovery_target" where
  "target_of s kind i dispatch intent sess family l =
     \<lparr>rt_Workspace = b_Workspace (Binding s), rt_Kind = kind, rt_TaskID = l_TaskID l, rt_DispatchID = dispatch,
      rt_IntentID = intent, rt_AttemptID = l_AttemptID l, rt_ProtectionID = i, rt_SessionID = sess,
      rt_WorkerFamilyID = family, rt_Repository = l_Repository l, rt_Checkout = l_Checkout l,
      rt_ExpectedFence = l_Fence l\<rparr>"

definition worker_family :: "state \<Rightarrow> string \<Rightarrow> string res" where
  "worker_family s sess = (if sess = '''' then Inr '''' else historicalWorkerFamily s sess)"

definition recoveryTarget :: "state \<Rightarrow> string \<Rightarrow> string \<Rightarrow> (recovery_target \<times> lease) res" where
  "recoveryTarget s kind i =
     (if kind = ''reservation'' then
        fetch (Dispatches s) i (\<lambda>d.
        require (reservationRetained s d) ErrDenied (
        let l = dr_Reservation d;
            (intent, sess) = (case gget (DispatchIntents s) (dr_ID d) of
                None \<Rightarrow> ('''', '''') | Some n \<Rightarrow> (di_ID n, di_WorkerSessionID n))
        in bindr (worker_family s sess) (\<lambda>family.
           Inr (target_of s kind i (dr_ID d) intent sess family l, l))))
      else if kind = ''lease'' then
        fetch (Leases s) i (\<lambda>l.
        require (\<not> l_Released l) ErrDenied (
        bindr (converted_dispatch (DispatchIntents s) i (gvals (Dispatches s)) ('''', '''')) (\<lambda>(dispatch, intent).
        bindr (worker_family s (l_SessionID l)) (\<lambda>family.
        Inr (target_of s kind i dispatch intent (l_SessionID l) family l, l)))))
      else Inl ErrDenied)"

definition OwnerRecoveryTarget :: "env \<Rightarrow> string \<Rightarrow> string \<Rightarrow> string \<Rightarrow> state \<Rightarrow> recovery_target res" where
  "OwnerRecoveryTarget E owner' kind i s =
     require (10 \<le> Version s \<and> owner_ok E s owner') ErrDenied (
     bindr (recoveryTarget s kind i) (\<lambda>(t, _). Inr t))"

section \<open>Recovery\<close>

text \<open>The two modes: the owner reconciles in writing, or the project's policy accepts the last host
  report, which must be terminal and bound to the dispatch as it is now.\<close>

definition recovery_mode :: "state \<Rightarrow> recovery_request \<Rightarrow> lifecycle_observation option res" where
  "recovery_mode s req =
     (let target = rq_Target req in
      if rq_Mode req = ''owner-reconciliation'' then
        require (trim_space (rq_Uncertainty req) \<noteq> '''' \<and> trim_space (rq_ReleaseRisk req) \<noteq> ''''
          \<and> length (rq_Uncertainty req) \<le> 8192 \<and> length (rq_ReleaseRisk req) \<le> 8192
          \<and> rq_PolicyRevision req = '''' \<and> rq_ObservationSequence req = 0 \<and> rq_EvidenceDigest req = '''') ErrDenied (
        Inr None)
      else if rq_Mode req = ''authenticated-terminal'' then
        fetch (Tasks s) (rt_TaskID target) (\<lambda>b.
        fetch (RecoveryPolicies s) (tb_ProjectID b) (\<lambda>p.
        require (ry_AcceptCooperativeTerminal p \<and> ry_Revision p = rq_PolicyRevision req
          \<and> rt_DispatchID target \<noteq> '''' \<and> rt_IntentID target \<noteq> '''') ErrDenied (
        let history = gslice (LifecycleObservations s) (rt_DispatchID target) in
        require (length history \<noteq> 0) ErrDenied (
        fetch (DispatchIntents s) (rt_DispatchID target) (\<lambda>i.
        require (lifecycleTerminal (lo_State (last history)) \<and> lo_Sequence (last history) = rq_ObservationSequence req
          \<and> lo_EvidenceDigest (last history) = rq_EvidenceDigest req
          \<and> lo_Assurance (last history) = ''cooperative-owner-provisioned-bridge''
          \<and> lo_Binding (last history) = lifecycleBinding i) ErrDenied (
        Inr (Some (last history))))))))
      else Inl ErrDenied)"

definition recovery_key :: "recovery_target \<Rightarrow> string" where
  "recovery_key t = rt_Kind t @ '':'' @ rt_ProtectionID t"

definition Recover :: "env \<Rightarrow> string \<Rightarrow> recovery_request \<Rightarrow> state \<Rightarrow> (recovery_receipt \<times> state) res" where
  "Recover E owner' req s =
     require (10 \<le> Version s \<and> owner_ok E s owner' \<and> validID (rq_OperationKey req)) ErrDenied (
     let digest = e_hash E (e_json E (jv_recovery req)) in
     case gget (RecoveryOperations s) (rq_OperationKey req) of
       Some r \<Rightarrow> require (rx_RequestDigest r = digest) ErrDenied (Inr (r, s))
     | None \<Rightarrow>
         require (gget (Recoveries s) (recovery_key (rq_Target req)) = None) ErrDenied (
         bindr (recoveryTarget s (rt_Kind (rq_Target req)) (rt_ProtectionID (rq_Target req))) (\<lambda>(target, l).
         require (target = rq_Target req \<and> rt_ExpectedFence target \<noteq> 0 \<and> Fence s \<noteq> - 1
           \<and> trim_space (rq_Rationale req) \<noteq> '''' \<and> length (rq_Rationale req) \<le> 8192) ErrDenied (
         bindr (recovery_mode s req) (\<lambda>observation.
         bindr (mint E 0) (\<lambda>i.
         let result = \<lparr>rx_ID = i, rx_OperationKey = rq_OperationKey req, rx_RequestDigest = digest,
               rx_Actor = ''owner:'' @ OwnerHash s, rx_Mode = rq_Mode req, rx_Rationale = rq_Rationale req,
               rx_Uncertainty = rq_Uncertainty req, rx_ReleaseRisk = rq_ReleaseRisk req,
               rx_PolicyRevision = rq_PolicyRevision req, rx_Target = target, rx_Observation = observation,
               rx_ReleasedResources = l_Resources l, rx_PreviousGlobalFence = Fence s,
               rx_GlobalFence = Fence s + 1, rx_RecordedAt = e_now E 0\<rparr>;
             t = s\<lparr>Fence := Fence s + 1, Recoveries := gput (recovery_key target) result (Recoveries s),
                   RecoveryOperations := gput (rq_OperationKey req) result (RecoveryOperations s)\<rparr>
         in Inr (result, if rt_Kind target = ''lease'' then
              t\<lparr>Leases := gput (l_ID l) (l\<lparr>l_Released := True\<rparr>) (Leases s)\<rparr> else t)))))))"

section \<open>What the handlers do on success\<close>

lemma ConfigureRecovery_cases:
  assumes "ConfigureRecovery E o' p s = Inr (u, s')"
  shows "owner_ok E s o' \<and>
     (case gget (inner (RecoveryPolicyHistory s) (ry_ProjectID p)) (ry_Revision p) of
        Some q \<Rightarrow> q = p \<and> s' = s
      | None \<Rightarrow> s' = s\<lparr>RecoveryPolicyHistory := gput (ry_ProjectID p)
            (gput (ry_Revision p) p (inner (RecoveryPolicyHistory s) (ry_ProjectID p))) (RecoveryPolicyHistory s),
          RecoveryPolicies := gput (ry_ProjectID p) p (RecoveryPolicies s)\<rparr>)"
  using assms by (auto simp: ConfigureRecovery_def split: option.splits)

interpretation recovery_history: policy_history ConfigureRecovery
  "\<lambda>s a b. gget (inner (RecoveryPolicyHistory s) a) b" "\<lambda>s a. gget (RecoveryPolicies s) a" ry_ProjectID ry_Revision
proof (unfold_locales, goal_cases)
  case (1 E o' p s u s' q)
  from ConfigureRecovery_cases [OF 1(1)] 1(2) show ?case by simp
next
  case (2 E o' p s u s' a b)
  from ConfigureRecovery_cases [OF 2(1)] 2(2) show ?case by (simp add: inner_gput)
qed

lemma target_of_sel [simp]:
  "rt_Kind (target_of s kind i d n w f l) = kind" "rt_ProtectionID (target_of s kind i d n w f l) = i"
  "rt_TaskID (target_of s kind i d n w f l) = l_TaskID l" "rt_WorkerFamilyID (target_of s kind i d n w f l) = f"
  "rt_SessionID (target_of s kind i d n w f l) = w" "rt_ExpectedFence (target_of s kind i d n w f l) = l_Fence l"
  "rt_DispatchID (target_of s kind i d n w f l) = d"
  by (simp_all add: target_of_def)

text \<open>What a recovery protects: an unreleased lease, or a retained reservation.\<close>

lemma recoveryTarget_Inr:
  assumes "recoveryTarget s kind i = Inr (t, l)"
  obtains (reservation) d where "kind = ''reservation''" "gget (Dispatches s) i = Some d" "reservationRetained s d"
      "l = dr_Reservation d" "rt_DispatchID t = dr_ID d" "rt_Kind t = kind" "rt_ProtectionID t = i" "rt_TaskID t = l_TaskID l"
      "worker_family s (rt_SessionID t) = Inr (rt_WorkerFamilyID t)" "rt_ExpectedFence t = l_Fence l"
  | (lease) "kind = ''lease''" "gget (Leases s) i = Some l" "\<not> l_Released l" "rt_SessionID t = l_SessionID l"
      "rt_Kind t = kind" "rt_ProtectionID t = i" "rt_TaskID t = l_TaskID l"
      "worker_family s (rt_SessionID t) = Inr (rt_WorkerFamilyID t)" "rt_ExpectedFence t = l_Fence l"
proof (cases "kind = ''reservation''")
  case True
  with assms obtain d where "gget (Dispatches s) i = Some d" by (auto simp: recoveryTarget_def)
  with assms True show ?thesis
    by (cases "gget (DispatchIntents s) (dr_ID d)")
       (auto simp: recoveryTarget_def Let_def intro!: reservation)
next
  case False
  with assms have "kind = ''lease''" by (auto simp: recoveryTarget_def split: if_splits)
  with assms False show ?thesis
    by (auto simp: recoveryTarget_def split: prod.splits intro!: lease)
qed

lemma worker_family_root:
  "worker_family s w = Inr f \<Longrightarrow> w \<noteq> '''' \<Longrightarrow> f \<noteq> '''' \<and> descends (Sessions s) w f
     \<and> (\<exists>r. gget (Sessions s) f = Some r \<and> se_Parent r = '''')"
proof -
  have "family_walk S seen i = Inr f \<Longrightarrow> f \<noteq> '''' \<and> descends S i f \<and> (\<exists>r. gget S f = Some r \<and> se_Parent r = '''')" for S seen i
  proof (induction S seen i rule: family_walk.induct)
    case (1 S seen i)
    show ?case
    proof (cases "gget S i")
      case None
      with 1(2) show ?thesis by (subst (asm) family_walk.simps) (simp split: if_splits)
    next
      case (Some r)
      with 1(2) have i: "i \<noteq> ''''" "i \<notin> set seen"
        and w: "(if se_Parent r = '''' then Inr i else family_walk S (i # seen) (se_Parent r)) = Inr f"
        by (subst (asm) family_walk.simps, simp split: if_splits)+
      show ?thesis
      proof (cases "se_Parent r = ''''")
        case True
        with w i Some show ?thesis by (auto intro: descends_refl)
      next
        case False
        with w 1(1) [OF _ Some False] i show ?thesis by (auto intro: descends_parent [OF Some False])
      qed
    qed
  qed
  then show "worker_family s w = Inr f \<Longrightarrow> w \<noteq> '''' \<Longrightarrow> f \<noteq> '''' \<and> descends (Sessions s) w f
     \<and> (\<exists>r. gget (Sessions s) f = Some r \<and> se_Parent r = '''')"
    by (simp add: worker_family_def historicalWorkerFamily_def)
qed

definition recovery_digest :: "env \<Rightarrow> recovery_request \<Rightarrow> string" where
  "recovery_digest E req = e_hash E (e_json E (jv_recovery req))"

lemma Recover_Inr:
  assumes "Recover E owner' req s = Inr (r, s')"
  obtains (served) "gget (RecoveryOperations s) (rq_OperationKey req) = Some r"
      "rx_RequestDigest r = recovery_digest E req" "s' = s"
  | (fresh) l where "gget (RecoveryOperations s) (rq_OperationKey req) = None"
      "gget (Recoveries s) (recovery_key (rq_Target req)) = None"
      "recoveryTarget s (rt_Kind (rq_Target req)) (rt_ProtectionID (rq_Target req)) = Inr (rq_Target req, l)"
      "Fence s \<noteq> - 1" "recovery_mode s req = Inr (rx_Observation r)" "rx_Target r = rq_Target req"
      "rx_RequestDigest r = recovery_digest E req" "rx_PreviousGlobalFence r = Fence s" "rx_GlobalFence r = Fence s + 1"
      "rx_ReleasedResources r = l_Resources l" "rt_ExpectedFence (rq_Target req) \<noteq> 0" "rx_Mode r = rq_Mode req"
      "Fence s' = Fence s + 1" "Recoveries s' = gput (recovery_key (rq_Target req)) r (Recoveries s)"
      "RecoveryOperations s' = gput (rq_OperationKey req) r (RecoveryOperations s)"
      "Leases s' = (if rt_Kind (rq_Target req) = ''lease'' then gput (l_ID l) (l\<lparr>l_Released := True\<rparr>) (Leases s) else Leases s)"
      "Version s' = Version s \<and> OwnerHash s' = OwnerHash s \<and> Sessions s' = Sessions s \<and> Tasks s' = Tasks s
         \<and> Attempts s' = Attempts s \<and> Operations s' = Operations s \<and> Dispatches s' = Dispatches s
         \<and> DispatchIntents s' = DispatchIntents s \<and> LifecycleObservations s' = LifecycleObservations s
         \<and> LifecycleCancellations s' = LifecycleCancellations s \<and> TaskTerminals s' = TaskTerminals s"
proof (cases "gget (RecoveryOperations s) (rq_OperationKey req)")
  case (Some p)
  with assms show ?thesis
    by (clarsimp simp: Recover_def Let_def) (rule served, auto simp: recovery_digest_def)
next
  case None
  note body = assms [unfolded Recover_def Let_def None option.case require_Inr bindr_Inr]
  from body obtain l where l: "recoveryTarget s (rt_Kind (rq_Target req)) (rt_ProtectionID (rq_Target req)) = Inr (rq_Target req, l)"
    by (auto split: prod.splits)
  note body = body [unfolded l sum.inject]
  show ?thesis
    by (cases "rt_Kind (rq_Target req) = ''lease''"; rule fresh [OF None _ l])
       (use body in \<open>clarsimp simp: recovery_digest_def\<close>)+
qed

lemma Recover_owner: "Recover E owner' req s = Inr (r, s') \<Longrightarrow> owner_ok E s owner' \<and> 10 \<le> Version s \<and> validID (rq_OperationKey req)"
  unfolding Recover_def require_Inr by blast

lemma recover_again:
  assumes "Recover E owner' req s = Inr (r, s')"
  shows "\<exists>y. Recover E owner' req s' = Inr y"
  using assms
proof (cases rule: Recover_Inr)
  case served
  with assms show ?thesis by auto
next
  case (fresh l)
  have "Recover E owner' req s' = Inr (r, s')"
    using Recover_owner [OF assms] by (simp add: Recover_def Let_def owner_ok_def fresh(7,15,17) recovery_digest_def)
  then show ?thesis by blast
qed

lemma recover_hit:
  "gget (RecoveryOperations s) (rq_OperationKey req) = Some p \<Longrightarrow> Recover E owner' req s = Inr (r, s') \<Longrightarrow>
   rx_RequestDigest p = recovery_digest E req \<and> Some p = Some r \<and> s' = s"
  by (erule Recover_Inr) simp_all

lemma recover_miss:
  "gget (RecoveryOperations s) (rq_OperationKey req) = None \<Longrightarrow> Recover E owner' req s = Inr (r, s') \<Longrightarrow>
   \<exists>p. gget (RecoveryOperations s') (rq_OperationKey req) = Some p \<and> rx_RequestDigest p = recovery_digest E req \<and> Some p = Some r"
  by (erule Recover_Inr) simp_all

interpretation recover_key: idempotent
  "\<lambda>E (owner', req) s. Recover E owner' req s"
  "\<lambda>s (owner', req). gget (RecoveryOperations s) (rq_OperationKey req)"
  "\<lambda>E (owner', req) s. recovery_digest E req" rx_RequestDigest Some
proof (unfold_locales, goal_cases)
  case (1 s q p E r s')
  then show ?case using recover_hit by (cases q) simp
next
  case (2 s q E r s')
  then show ?case using recover_miss by (cases q) simp
next
  case (3 E q s r s')
  then show ?case using recover_again by (cases q) simp
qed

section \<open>Claims under recovery\<close>

text \<open>Reservations are filed under their own identifiers.\<close>

definition filed :: "state \<Rightarrow> bool" where
  "filed s \<longleftrightarrow> (\<forall>k d. gget (Dispatches s) k = Some d \<longrightarrow> dr_ID d = k)"

definition protected_claim :: "recovery_target \<Rightarrow> string + string" where
  "protected_claim t = (if rt_Kind t = ''lease'' then Inl (rt_ProtectionID t) else Inr (rt_ProtectionID t))"

lemma recovery_claims:
  assumes "Recover E owner' req s = Inr (r, s')" "gget (RecoveryOperations s) (rq_OperationKey req) = None"
    "fenced s" "filed s"
  shows "\<exists>l. claims s (protected_claim (rx_Target r)) l \<and> rx_ReleasedResources r = l_Resources l
       \<and> l_Fence l = rt_ExpectedFence (rx_Target r)
       \<and> Leases s' = (if rt_Kind (rx_Target r) = ''lease'' then gput (rt_ProtectionID (rx_Target r)) (l\<lparr>l_Released := True\<rparr>) (Leases s)
           else Leases s)
       \<and> (\<forall>c m. claims s' c m \<longleftrightarrow> c \<noteq> protected_claim (rx_Target r) \<and> claims s c m)"
  using assms(1)
proof (cases rule: Recover_Inr)
  case served
  with assms(2) show ?thesis by simp
next
  case (fresh l)
  let ?i = "rt_ProtectionID (rq_Target req)"
  have disp: "Dispatches s' = Dispatches s" using fresh(17) by simp
  from fresh(3) show ?thesis
  proof (cases rule: recoveryTarget_Inr)
    case (reservation d)
    have retained: "reservationRetained s' e \<longleftrightarrow> reservationRetained s e \<and> dr_ID e \<noteq> ?i" for e
      using reservation(1) by (simp add: reservationRetained_def fresh(14) recovery_key_def)
    have l': "Leases s' = Leases s" using fresh(16) reservation(1) by simp
    have "claims s' c m \<longleftrightarrow> c \<noteq> Inr ?i \<and> claims s c m" for c m
      using assms(4) by (cases c) (auto simp: claims_def l' disp retained filed_def)
    then show ?thesis
      using reservation fresh(6,10) l' by (intro exI [of _ l]) (auto simp: protected_claim_def claims_def)
  next
    case lease
    have "l_ID l = ?i" using lease(2) assms(3) by (simp add: fenced_def)
    then have l': "Leases s' = gput ?i (l\<lparr>l_Released := True\<rparr>) (Leases s)" using fresh(16) lease(1) by simp
    have retained: "reservationRetained s' = reservationRetained s"
      using lease(1) by (intro ext) (simp add: reservationRetained_def fresh(14) recovery_key_def)
    have "claims s' c m \<longleftrightarrow> c \<noteq> Inl ?i \<and> claims s c m" for c m
      by (cases c) (auto simp: claims_def l' disp retained)
    then show ?thesis
      using lease fresh(6,10) l' by (intro exI [of _ l]) (auto simp: protected_claim_def claims_def)
  qed
qed

lemma fenced_release:
  assumes "fenced s" "Fence s \<noteq> - 1" "Fence s' = Fence s + 1"
    "Leases s' = Leases s \<or> (\<exists>i l. gget (Leases s) i = Some l \<and> Leases s' = gput i (l\<lparr>l_Released := True\<rparr>) (Leases s))"
  shows "fenced s'"
proof -
  have lookup: "\<exists>m. gget (Leases s) j = Some m \<and> l_Fence b = l_Fence m \<and> l_ID b = l_ID m"
    if "gget (Leases s') j = Some b" for j b
    using assms(4) that by (auto split: if_splits)
  have up: "g \<le> Fence s \<Longrightarrow> g \<le> Fence s + 1" for g
    using word_suc_le [OF assms(2), of g] by auto
  show ?thesis
    unfolding fenced_def
  proof (intro conjI allI impI)
    fix j b assume "gget (Leases s') j = Some b"
    from lookup [OF this] assms(1) up show "l_ID b = j" "0 < l_Fence b" "l_Fence b \<le> Fence s'"
      unfolding fenced_def assms(3) by auto
  next
    fix j k b c assume "gget (Leases s') j = Some b" "gget (Leases s') k = Some c" and ne: "j \<noteq> k"
    from lookup [OF this(1)] lookup [OF this(2)] obtain b' c' where
      "gget (Leases s) j = Some b'" "l_Fence b = l_Fence b'" "gget (Leases s) k = Some c'" "l_Fence c = l_Fence c'" by auto
    with ne assms(1) show "l_Fence b \<noteq> l_Fence c" unfolding fenced_def by metis
  qed
qed

lemma recovery_safe_inv:
  assumes "Recover E owner' req s = Inr (r, s')" "exclusive s" "fenced s" "filed s"
  shows "exclusive s' \<and> fenced s' \<and> filed s'"
  using assms(1)
proof (cases rule: Recover_Inr)
  case served
  with assms show ?thesis by simp
next
  case (fresh l)
  obtain l where l: "claims s (protected_claim (rx_Target r)) l"
    "Leases s' = (if rt_Kind (rx_Target r) = ''lease'' then gput (rt_ProtectionID (rx_Target r)) (l\<lparr>l_Released := True\<rparr>) (Leases s)
           else Leases s)"
    "\<And>c m. claims s' c m \<longleftrightarrow> c \<noteq> protected_claim (rx_Target r) \<and> claims s c m"
    using recovery_claims [OF assms(1) fresh(1) assms(3,4)] by blast
  have "exclusive s'" using assms(2) l(3) unfolding exclusive_def by blast
  moreover have "fenced s'"
    by (rule fenced_release [OF assms(3) fresh(4,13)])
       (use l(1,2) in \<open>auto simp: protected_claim_def claims_def split: if_splits\<close>)
  moreover have "filed s'" using assms(4) fresh(17) by (simp add: filed_def)
  ultimately show ?thesis by simp
qed

lemma recovery_mode_Some:
  assumes "recovery_mode s req = Inr (Some x)"
  shows "lifecycleTerminal (lo_State x) \<and> gslice (LifecycleObservations s) (rt_DispatchID (rq_Target req)) \<noteq> []
     \<and> x = last (gslice (LifecycleObservations s) (rt_DispatchID (rq_Target req)))
     \<and> (\<exists>i. gget (DispatchIntents s) (rt_DispatchID (rq_Target req)) = Some i \<and> lo_Binding x = lifecycleBinding i)
     \<and> (\<exists>b p. gget (Tasks s) (rt_TaskID (rq_Target req)) = Some b \<and> gget (RecoveryPolicies s) (tb_ProjectID b) = Some p
          \<and> ry_AcceptCooperativeTerminal p)"
  using assms by (auto simp: recovery_mode_def Let_def split: if_splits)

section \<open>Properties\<close>


text \<open>A recovery withdraws before anything is granted again, and happens once. A recovery under a new key
  withdraws the holder's whole family from the task and gives back no withdrawal; a second recovery
  of the same protection is refused under any new key, and repeating the recovery is answered from
  its receipt. When it rests on a host report, that report is the last of the log, terminal, bound
  to the dispatch as it stands, and accepted by the project's policy.\<close>

theorem recovery_withdraws_once:
  assumes "Recover E owner' req s = Inr (r, s')" "gget (RecoveryOperations s) (rq_OperationKey req) = None"
  shows "(rt_SessionID (rx_Target r) \<noteq> '''' \<longrightarrow> descends (Sessions s) (rt_SessionID (rx_Target r)) (rt_WorkerFamilyID (rx_Target r)))
     \<and> (w \<noteq> '''' \<longrightarrow> descends (Sessions s) w (rt_WorkerFamilyID (rx_Target r)) \<longrightarrow>
          workerTaskWithdrawn s' w (rt_TaskID (rx_Target r)))
     \<and> (workerTaskWithdrawn s w task \<longrightarrow> workerTaskWithdrawn s' w task)
     \<and> Recover E owner' req s' = Inr (r, s')
     \<and> gget (Recoveries s') (recovery_key (rx_Target r)) = Some r
     \<and> (gget (Recoveries t) (recovery_key (rx_Target r)) = Some r \<longrightarrow> rq_Target req' = rx_Target r \<longrightarrow>
          gget (RecoveryOperations t) (rq_OperationKey req') = None \<longrightarrow> Recover E' owner'' req' t \<noteq> Inr y)
     \<and> (rx_Observation r = Some x \<longrightarrow> lifecycleTerminal (lo_State x)
          \<and> x = last (gslice (LifecycleObservations s) (rt_DispatchID (rx_Target r)))
          \<and> (\<exists>i. gget (DispatchIntents s) (rt_DispatchID (rx_Target r)) = Some i \<and> lo_Binding x = lifecycleBinding i)
          \<and> (\<exists>b p. gget (Tasks s) (rt_TaskID (rx_Target r)) = Some b \<and> gget (RecoveryPolicies s) (tb_ProjectID b) = Some p
               \<and> ry_AcceptCooperativeTerminal p))"
  using assms(1)
proof (cases rule: Recover_Inr)
  case served
  with assms(2) show ?thesis by simp
next
  case (fresh l)
  have vals: "set (gvals (Recoveries s')) = insert r (set (gvals (Recoveries s)))"
    unfolding fresh(14) by (rule gvals_gput_fresh [OF fresh(2)])
  have family: "worker_family s (rt_SessionID (rq_Target req)) = Inr (rt_WorkerFamilyID (rq_Target req))"
    using fresh(3) by (cases rule: recoveryTarget_Inr) simp_all
  have kept: "workerTaskWithdrawn s w task \<longrightarrow> workerTaskWithdrawn s' w task"
    using withdrawn_mono [of s' s w task] fresh(17) vals by auto
  have withdrawn: "workerTaskWithdrawn s' w (rt_TaskID (rx_Target r))"
    if "w \<noteq> ''''" "descends (Sessions s) w (rt_WorkerFamilyID (rx_Target r))"
    using that vals fresh(17) unfolding workerTaskWithdrawn_def workerTaskWithdrawnExcept_iff by auto
  have once: "Recover E' owner'' req' t \<noteq> Inr y"
    if "gget (Recoveries t) (recovery_key (rx_Target r)) = Some r" "rq_Target req' = rx_Target r"
      "gget (RecoveryOperations t) (rq_OperationKey req') = None"
    using that Recover_Inr [of E' owner'' req' t "fst y" "snd y"] by (cases y) fastforce
  show ?thesis
    using worker_family_root [OF family] kept withdrawn once recovery_mode_Some [of s req x] fresh(5,6,14)
      recover_key.repeated [of E "(owner', req)" s r s'] assms(1)
    by simp
qed

definition sample_target :: recovery_target where
  "sample_target = target_of sample_dispatch_state ''reservation'' ''d'' ''d'' ''n'' ''r'' ''r'' (dr_Reservation sample_reservation)"

definition sample_recovery :: recovery_request where
  "sample_recovery = \<lparr>rq_OperationKey = ''k'', rq_Target = sample_target, rq_Mode = ''owner-reconciliation'',
     rq_Rationale = ''r'', rq_Uncertainty = ''u'', rq_ReleaseRisk = ''x'', rq_PolicyRevision = '''',
     rq_ObservationSequence = 0, rq_EvidenceDigest = ''''\<rparr>"

lemma sample_recoveryTarget:
  "recoveryTarget sample_dispatch_state ''reservation'' ''d'' = Inr (sample_target, dr_Reservation sample_reservation)"
  by (simp add: recoveryTarget_def fetch_def gget_def reservationRetained_def worker_family_def historicalWorkerFamily_def
      family_walk.simps sample_target_def)
     (simp add: sample_reservation_def sample_intent_def sample_root_def family_walk.simps gget_def Let_def)

lemma sample_Recover:
  obtains r s' where "Recover sample_env (sample_id 0) sample_recovery sample_dispatch_state = Inr (r, s')"
    "rx_Target r = sample_target"
proof -
  have ids: "validID ''k''" "trim_space ''u'' = ''u''" "trim_space ''x'' = ''x''" "trim_space ''r'' = ''r''" by code_simp+
  have owner: "owner_ok sample_env sample_dispatch_state (sample_id 0)"
    by (simp add: owner_ok_def)
  have q: "rq_Target sample_recovery = sample_target" "rq_OperationKey sample_recovery = ''k''"
      "recovery_mode sample_dispatch_state sample_recovery = Inr None" "rq_Rationale sample_recovery = ''r''"
    by (simp_all add: sample_recovery_def recovery_mode_def ids)
  have t: "rt_Kind sample_target = ''reservation''" "rt_ProtectionID sample_target = ''d''" "rt_ExpectedFence sample_target = 1"
    by (simp_all add: sample_target_def) (simp add: sample_reservation_def)
  have "\<exists>r s'. Recover sample_env (sample_id 0) sample_recovery sample_dispatch_state = Inr (r, s') \<and> rx_Target r = sample_target"
    by (simp add: Recover_def Let_def owner q t ids sample_recoveryTarget mint_def)
  with that show ?thesis by blast
qed

lemma sample_dispatch_invs:
  "exclusive sample_dispatch_state" "fenced sample_dispatch_state" "filed sample_dispatch_state"
  by (auto simp: exclusive_def claims_def fenced_def filed_def gget_def sample_reservation_def split: sum.splits if_splits)


theorem recovery_withdraws_once_witness:
  "\<exists>s'. workerTaskWithdrawn s' ''r'' ''t''"
proof -
  obtain r s' where r: "Recover sample_env (sample_id 0) sample_recovery sample_dispatch_state = Inr (r, s')"
    "rx_Target r = sample_target" by (rule sample_Recover)
  have k: "gget (RecoveryOperations sample_dispatch_state) (rq_OperationKey sample_recovery) = None" by simp
  have "rt_WorkerFamilyID sample_target = ''r''" "rt_TaskID sample_target = ''t''"
    by (simp_all add: sample_target_def)
  with recovery_withdraws_once [OF r(1) k, of "''r''"] r(2) have "workerTaskWithdrawn s' ''r'' ''t''"
    by (simp add: descends_refl)
  then show ?thesis by blast
qed

end
