(* ===== verification/Evidence_Kernel.thy ===== *)
theory Evidence_Kernel
  imports Leases
begin

text \<open>
  Published revisions and verification evidence (\<^verbatim>\<open>evidence.go\<close>): a worker publishes the clean
  checkout of its attempt as a numbered revision; an owner-granted runner, independent of the
  worker, reserves one execution per operation key, and completes it with evidence or commits an
  interruption. The executor is outside: its report is the argument of \<^verbatim>\<open>CompleteVerification\<close>.
\<close>

section \<open>Requests\<close>

record publish_request =
  pq_OperationKey :: string
  pq_AttemptID :: string
  pq_LeaseID :: string
  pq_ExpectedFence :: "64 word"
  pq_ExpectedRevision :: "64 word"

record check_descriptor =
  cd_ID :: string
  cd_Command :: string
  cd_Deadline :: int
  cd_Version :: int
  cd_Argv :: "string list"
  cd_Cwd :: string
  cd_Environment :: string
  cd_RoutingDigest :: string
  cd_RoutingBytesDigest :: string
  cd_BaseCommit :: string

record evidence_request =
  eq_OperationKey :: string
  eq_AttemptID :: string
  eq_LeaseID :: string
  eq_RevisionID :: string
  eq_CheckID :: string
  eq_ExpectedFence :: "64 word"
  eq_ExitCode :: int
  eq_OutputDigest :: string

record verification_result =
  vs_Commit :: string
  vs_Tree :: string
  vs_Directory :: string
  vs_CommandDigest :: string
  vs_OutputDigest :: string
  vs_Output :: string
  vs_ExitCode :: int
  vs_Clean :: bool

record verification_interruption =
  vi_RunnerSession :: string
  vi_Reason :: string
  vi_ResultDigest :: string
  vi_Assurance :: string
  vi_Request :: verification_request

datatype verification_lookup = VerificationAbsent | VerificationPending
  | VerificationCompleted evidence | VerificationInterrupted verification_interruption

definition jv_publish :: "publish_request \<Rightarrow> jval" where
  "jv_publish r = JO [(''OperationKey'', JS (pq_OperationKey r)), (''AttemptID'', JS (pq_AttemptID r)),
     (''LeaseID'', JS (pq_LeaseID r)), (''ExpectedFence'', JW (pq_ExpectedFence r)),
     (''ExpectedRevision'', JW (pq_ExpectedRevision r))]"

definition jv_evidence_request :: "evidence_request \<Rightarrow> jval" where
  "jv_evidence_request r = JO [(''OperationKey'', JS (eq_OperationKey r)), (''AttemptID'', JS (eq_AttemptID r)),
     (''LeaseID'', JS (eq_LeaseID r)), (''RevisionID'', JS (eq_RevisionID r)), (''CheckID'', JS (eq_CheckID r)),
     (''ExpectedFence'', JW (eq_ExpectedFence r)), (''ExitCode'', JI (eq_ExitCode r)),
     (''OutputDigest'', JS (eq_OutputDigest r))]"

definition jv_verification :: "verification_request \<Rightarrow> jval" where
  "jv_verification r = JO [(''OperationKey'', JS (vr_OperationKey r)), (''WorkerSession'', JS (vr_WorkerSession r)),
     (''AttemptID'', JS (vr_AttemptID r)), (''LeaseID'', JS (vr_LeaseID r)), (''RevisionID'', JS (vr_RevisionID r)),
     (''CheckID'', JS (vr_CheckID r)), (''GrantID'', JS (vr_GrantID r)), (''ExpectedFence'', JW (vr_ExpectedFence r))]"

definition jv_result :: "verification_result \<Rightarrow> jval" where
  "jv_result r = JO [(''Commit'', JS (vs_Commit r)), (''Tree'', JS (vs_Tree r)), (''Directory'', JS (vs_Directory r)),
     (''CommandDigest'', JS (vs_CommandDigest r)), (''OutputDigest'', JS (vs_OutputDigest r)),
     (''Output'', JX (vs_Output r)), (''ExitCode'', JI (vs_ExitCode r)), (''Clean'', JB (vs_Clean r))]"

section \<open>Check descriptors\<close>

definition CheckDigest :: "env \<Rightarrow> check_descriptor \<Rightarrow> string" where
  "CheckDigest E c =
     (if cd_Version c = 0 \<or> cd_Version c = 1 then
        identity E ''check'' '''' (JO [(''ID'', JS (cd_ID c)), (''Command'', JS (cd_Command c)),
          (''Deadline'', JI (cd_Deadline c))])
      else
        identity E ''check'' '''' (JO ([(''ID'', JS (cd_ID c)), (''Command'', JS (cd_Command c)),
          (''Deadline'', JI (cd_Deadline c))] @ omit_empty [(''Version'', JI (cd_Version c)),
          (''Argv'', JL (map JS (cd_Argv c))), (''Cwd'', JS (cd_Cwd c)), (''Environment'', JS (cd_Environment c)),
          (''RoutingDigest'', JS (cd_RoutingDigest c)), (''RoutingBytesDigest'', JS (cd_RoutingBytesDigest c)),
          (''BaseCommit'', JS (cd_BaseCommit c))])))"

definition validVerificationText :: "string \<Rightarrow> bool" where
  "validVerificationText s \<longleftrightarrow> valid_utf8 s \<and> \<not> any_control s"

definition ValidCheckDescriptor :: "check_descriptor \<Rightarrow> bool" where
  "ValidCheckDescriptor c =
     (if \<not> validID (cd_ID c) \<or> cd_Deadline c \<le> 0 \<or> 10 * 60 * 1000000000 < cd_Deadline c then False
      else if cd_Version c = 0 \<or> cd_Version c = 1 then
        trim_space (cd_Command c) \<noteq> '''' \<and> cd_Argv c = [] \<and> cd_Cwd c = '''' \<and> cd_Environment c = ''''
        \<and> cd_RoutingDigest c = '''' \<and> cd_RoutingBytesDigest c = '''' \<and> cd_BaseCommit c = ''''
      else if cd_Version c \<noteq> 2 \<or> cd_Command c \<noteq> '''' \<or> cd_Argv c = [] \<or> 128 < length (cd_Argv c)
          \<or> trim_space (hd (cd_Argv c)) = '''' \<or> cd_Environment c \<noteq> ''verification-sanitized-v1''
          \<or> cd_Cwd c = '''' \<or> path_clean (cd_Cwd c) \<noteq> cd_Cwd c \<or> has_prefix (cd_Cwd c) ''/''
          \<or> cd_Cwd c = ''..'' \<or> has_prefix (cd_Cwd c) ''../''
          \<or> contains_any (cd_Cwd c) [CHR 0x5C, CHR 0x00, CHR 0x0D, CHR 0x0A]
          \<or> \<not> validVerificationText (cd_Cwd c) then False
      else list_all validVerificationText (cd_Argv c) \<and> sum_list (map length (cd_Argv c)) \<le> 16384
        \<and> cd_RoutingDigest c \<noteq> '''' \<and> cd_RoutingBytesDigest c \<noteq> '''' \<and> cd_BaseCommit c \<noteq> '''')"

section \<open>Active attempts and revisions\<close>

text \<open>The handlers read the clock at every check; \<open>k\<close> numbers the first of the two readings here.\<close>

definition activeAttempt ::
    "env \<Rightarrow> state \<Rightarrow> token \<Rightarrow> ident \<Rightarrow> ident \<Rightarrow> ident \<Rightarrow> 64 word \<Rightarrow> string \<Rightarrow> nat \<Rightarrow> attempt res" where
  "activeAttempt E s token sess attemptID leaseID fence action k =
     bindr (leaseAuth E s token sess attemptID action (e_now E k)) (\<lambda>(r, a).
     fetch (Leases s) leaseID (\<lambda>l.
     require (l_AttemptID l = attemptID \<and> l_SessionID l = sess \<and> l_Fence l = fence
        \<and> currentLease s l (e_now E (Suc k))) ErrDenied (Inr a)))"

definition sameCheckout :: "attempt \<Rightarrow> observation \<Rightarrow> bool" where
  "sameCheckout a obs \<longleftrightarrow> ob_Locator obs = ob_Locator (at_Observation a)
     \<and> ob_Repository obs = ob_Repository (at_Observation a)"

definition PublishAttemptRevision ::
    "env \<Rightarrow> string \<Rightarrow> string \<Rightarrow> publish_request \<Rightarrow> state \<Rightarrow> (attempt_revision \<times> state) res" where
  "PublishAttemptRevision E token sess req s =
     bindr (leaseAuth E s token sess (pq_AttemptID req) ''attempt.publish'' (e_now E 0)) (\<lambda>(r, a).
     require (validID (pq_OperationKey req)) ErrDenied (
     let digest = identity E ''revision'' sess (jv_publish req) in
     (case gget (Operations s) (pq_OperationKey req) of
        Some p \<Rightarrow> require (op_Digest p = digest) ErrDenied (
                  bindr (from_option (op_Revision p) ErrDenied) (\<lambda>rev. Inr (rev, s)))
      | None \<Rightarrow>
     let active = activeAttempt E s token sess (pq_AttemptID req) (pq_LeaseID req) (pq_ExpectedFence req)
           ''attempt.publish'' in
     bindr (active 1) (\<lambda>_.
     let history = gslice (Revisions s) (at_ID a) in
     require (of_nat (length history) = pq_ExpectedRevision req \<and> pq_ExpectedRevision req \<noteq> - 1) ErrDenied (
     bindr (denied (Observe E 0 (e_now E 3) (ob_Locator (at_Observation a)))) (\<lambda>obs.
     require (sameCheckout a obs) ErrDenied (
     bindr (active 4) (\<lambda>_.
     bindr (mint E 0) (\<lambda>i.
     let result = \<lparr>rv_ID = i, rv_AttemptID = at_ID a, rv_SessionID = sess, rv_LeaseID = pq_LeaseID req,
           rv_Sequence = pq_ExpectedRevision req + 1, rv_Fence = pq_ExpectedFence req, rv_Observation = obs,
           rv_PublishedAt = e_now E 6\<rparr> in
     Inr (result, s\<lparr>Revisions := gput (at_ID a) (history @ [result]) (Revisions s),
       Operations := gput (pq_OperationKey req) ((empty_operation digest)\<lparr>op_Revision := Some result\<rparr>)
         (Operations s)\<rparr>))))))))))"

definition currentRevisionExcept ::
    "state \<Rightarrow> attempt \<Rightarrow> string \<Rightarrow> string \<Rightarrow> 64 word \<Rightarrow> string \<Rightarrow> attempt_revision res" where
  "currentRevisionExcept s a i leaseID fence closing =
     require (\<not> workerTaskWithdrawnExcept s (at_SessionID a) (ar_TaskID (at_Request a)) closing) ErrDenied (
     let history = gslice (Revisions s) (at_ID a) in
     require (history \<noteq> []) ErrDenied (
     let rev = last history in
     require (rv_ID rev = i \<and> rv_LeaseID rev = leaseID \<and> rv_Fence rev = fence) ErrDenied (Inr rev)))"

definition currentRevision :: "state \<Rightarrow> attempt \<Rightarrow> string \<Rightarrow> string \<Rightarrow> 64 word \<Rightarrow> attempt_revision res" where
  "currentRevision s a i leaseID fence = currentRevisionExcept s a i leaseID fence ''''"

definition observeRevision :: "env \<Rightarrow> nat \<Rightarrow> int \<Rightarrow> attempt \<Rightarrow> attempt_revision \<Rightarrow> unit res" where
  "observeRevision E i now a v =
     bindr (denied (Observe E i now (ob_Locator (at_Observation a)))) (\<lambda>obs.
     require (sameCheckout a obs \<and> ob_Commit obs = ob_Commit (rv_Observation v)
        \<and> ob_Tree obs = ob_Tree (rv_Observation v)) ErrDenied (Inr ()))"

section \<open>Grants\<close>

definition GrantVerification ::
    "env \<Rightarrow> string \<Rightarrow> string \<Rightarrow> string \<Rightarrow> string \<Rightarrow> check_descriptor \<Rightarrow> int \<Rightarrow> state
       \<Rightarrow> (verification_grant \<times> state) res" where
  "GrantVerification E owner' runner task repository check expires s =
     require (owner_ok E s owner') ErrDenied (
     fetch (Sessions s) runner (\<lambda>r.
     fetch (Tasks s) task (\<lambda>b.
     require (se_Parent r = '''' \<and> \<not> se_Revoked r \<and> e_now E 0 < se_ExpiresAt r
        \<and> subset [''verification.run''] (sc_Actions (se_Scope r))
        \<and> subset [''task:'' @ task] (sc_Resources (se_Scope r))
        \<and> tb_Repository b = repository \<and> ValidCheckDescriptor check
        \<and> e_now E 1 < expires \<and> expires \<le> se_ExpiresAt r) ErrDenied (
     bindr (mint E 0) (\<lambda>i.
     let result = \<lparr>vg_ID = i, vg_RunnerSession = runner, vg_TaskID = task, vg_Repository = repository,
           vg_CheckID = cd_ID check, vg_CommandDigest = CheckDigest E check, vg_ExpiresAt = expires, vg_Revoked = False\<rparr> in
     Inr (result, s\<lparr>Grants := gput i result (Grants s)\<rparr>))))))"

definition RevokeVerification :: "env \<Rightarrow> string \<Rightarrow> string \<Rightarrow> state \<Rightarrow> (unit \<times> state) res" where
  "RevokeVerification E owner' i s =
     require (owner_ok E s owner') ErrDenied (
     fetch (Grants s) i (\<lambda>g.
     Inr ((), s\<lparr>Grants := gput i (g\<lparr>vg_Revoked := True\<rparr>) (Grants s)\<rparr>)))"

definition runnerAuth ::
    "env \<Rightarrow> state \<Rightarrow> string \<Rightarrow> string \<Rightarrow> verification_request \<Rightarrow> attempt \<Rightarrow> string \<Rightarrow> nat \<Rightarrow> verification_grant res" where
  "runnerAuth E s token sess req a descriptor k =
     bindr (authenticate E s token sess (e_now E k)) (\<lambda>r.
     fetch (Grants s) (vr_GrantID req) (\<lambda>g.
     require (se_Parent r = '''' \<and> \<not> vg_Revoked g \<and> e_now E (Suc k) < vg_ExpiresAt g
        \<and> vg_RunnerSession g = se_ID r \<and> se_ID r \<noteq> vr_WorkerSession req
        \<and> vg_TaskID g = ar_TaskID (at_Request a) \<and> vg_Repository g = ob_Repository (at_Observation a)
        \<and> vg_CheckID g = vr_CheckID req \<and> vg_CommandDigest g = descriptor
        \<and> subset [''verification.run''] (sc_Actions (se_Scope r))
        \<and> subset [''task:'' @ vg_TaskID g] (sc_Resources (se_Scope r))) ErrDenied (Inr g)))"

section \<open>Self-reported evidence\<close>

definition SubmitEvidence ::
    "env \<Rightarrow> string \<Rightarrow> string \<Rightarrow> evidence_request \<Rightarrow> state \<Rightarrow> (evidence \<times> state) res" where
  "SubmitEvidence E token sess req s =
     bindr (leaseAuth E s token sess (eq_AttemptID req) ''evidence.submit'' (e_now E 0)) (\<lambda>(r, a).
     require (validID (eq_OperationKey req) \<and> validID (eq_CheckID req) \<and> validDigest (eq_OutputDigest req)) ErrDenied (
     let digest = identity E ''self-report'' sess (jv_evidence_request req) in
     (case gget (Operations s) (eq_OperationKey req) of
        Some p \<Rightarrow> require (op_Digest p = digest) ErrDenied (
                  bindr (from_option (op_Evidence p) ErrDenied) (\<lambda>ev. Inr (ev, s)))
      | None \<Rightarrow>
     let active = activeAttempt E s token sess (eq_AttemptID req) (eq_LeaseID req) (eq_ExpectedFence req)
           ''evidence.submit'' in
     bindr (active 1) (\<lambda>_.
     bindr (currentRevision s a (eq_RevisionID req) (eq_LeaseID req) (eq_ExpectedFence req)) (\<lambda>rev.
     bindr (observeRevision E 0 (e_now E 3) a rev) (\<lambda>_.
     bindr (active 4) (\<lambda>_.
     bindr (mint E 0) (\<lambda>i.
     let result = \<lparr>ev_ID = i, ev_IssuerSession = sess, ev_Provenance = ''self-reported'', ev_GrantID = '''',
           ev_Revision = rev, ev_CheckID = eq_CheckID req, ev_CommandDigest = '''',
           ev_OutputDigest = eq_OutputDigest req, ev_ExitCode = eq_ExitCode req, ev_RecordedAt = e_now E 6\<rparr> in
     Inr (result, s\<lparr>Evidence := gput i result (Evidence s),
       Operations := gput (eq_OperationKey req) ((empty_operation digest)\<lparr>op_Evidence := Some result\<rparr>)
         (Operations s)\<rparr>)))))))))"

section \<open>One-shot verification\<close>

definition OutputDigest :: "env \<Rightarrow> string \<Rightarrow> string" where
  "OutputDigest E output = ''sha256:'' @ e_hash E output"

definition interruption_reasons :: "string list" where
  "interruption_reasons = [''cancelled_before_start'', ''deadline_before_start'',
     ''cancelled_owned_group_cleanup'', ''deadline_owned_group_cleanup'']"

definition interruptionReason :: "string \<Rightarrow> bool" where
  "interruptionReason reason \<longleftrightarrow> reason \<in> set interruption_reasons"

definition verificationInterruption ::
    "env \<Rightarrow> operation \<Rightarrow> string \<Rightarrow> verification_request \<Rightarrow> verification_interruption option" where
  "verificationInterruption E p runner req =
     (if op_Pending p \<or> op_Evidence p \<noteq> None then None
      else map_option (\<lambda>reason. \<lparr>vi_RunnerSession = runner, vi_Reason = reason, vi_ResultDigest = op_ResultDigest p,
             vi_Assurance = ''cooperative-native-executor'', vi_Request = req\<rparr>)
           (find (\<lambda>reason. op_ResultDigest p = identity E (''interruption:'' @ reason) runner (jv_verification req))
             interruption_reasons))"

definition workerAuth :: "env \<Rightarrow> state \<Rightarrow> string \<Rightarrow> verification_request \<Rightarrow> nat \<Rightarrow> attempt res" where
  "workerAuth E s workerToken req k =
     activeAttempt E s workerToken (vr_WorkerSession req) (vr_AttemptID req) (vr_LeaseID req)
       (vr_ExpectedFence req) ''verification.request'' k"

definition InterruptVerification ::
    "env \<Rightarrow> string \<Rightarrow> string \<Rightarrow> string \<Rightarrow> verification_request \<Rightarrow> string \<Rightarrow> string \<Rightarrow> state
       \<Rightarrow> (verification_interruption \<times> state) res" where
  "InterruptVerification E workerToken runnerToken runner req descriptor reason s =
     bindr (leaseAuth E s workerToken (vr_WorkerSession req) (vr_AttemptID req) ''verification.request'' (e_now E 0)) (\<lambda>(r, a).
     require (validID (vr_OperationKey req) \<and> interruptionReason reason) ErrDenied (
     bindr (runnerAuth E s runnerToken runner req a descriptor 1) (\<lambda>_.
     fetch (Operations s) (vr_OperationKey req) (\<lambda>p.
     require (op_Digest p = identity E (''run:'' @ descriptor) runner (jv_verification req) \<and> op_Evidence p = None) ErrDenied (
     (case verificationInterruption E p runner req of
        Some prior \<Rightarrow> require (vi_Reason prior = reason) ErrDenied (Inr (prior, s))
      | None \<Rightarrow>
     require (op_Pending p \<and> op_ResultDigest p = '''') ErrDenied (
     bindr (workerAuth E s workerToken req 3) (\<lambda>_.
     let q = p\<lparr>op_Pending := False,
               op_ResultDigest := identity E (''interruption:'' @ reason) runner (jv_verification req)\<rparr> in
     bindr (from_option (verificationInterruption E q runner req) ErrDenied) (\<lambda>result.
     Inr (result, s\<lparr>Operations := gput (vr_OperationKey req) q (Operations s)\<rparr>))))))))))"

definition LookupVerification ::
    "env \<Rightarrow> string \<Rightarrow> string \<Rightarrow> string \<Rightarrow> verification_request \<Rightarrow> string \<Rightarrow> state \<Rightarrow> verification_lookup res" where
  "LookupVerification E workerToken runnerToken runner req descriptor s =
     bindr (leaseAuth E s workerToken (vr_WorkerSession req) (vr_AttemptID req) ''verification.request'' (e_now E 0)) (\<lambda>(r, a).
     require (validID (vr_OperationKey req)) ErrDenied (
     bindr (runnerAuth E s runnerToken runner req a descriptor 1) (\<lambda>_.
     (case gget (Operations s) (vr_OperationKey req) of
        None \<Rightarrow> Inr VerificationAbsent
      | Some p \<Rightarrow>
     require (op_Digest p = identity E (''run:'' @ descriptor) runner (jv_verification req)) ErrDenied (
     (case op_Evidence p of
        Some ev \<Rightarrow> Inr (VerificationCompleted ev)
      | None \<Rightarrow>
     (case verificationInterruption E p runner req of
        Some v \<Rightarrow> Inr (VerificationInterrupted v)
      | None \<Rightarrow> require (op_Pending p) ErrReconcile (Inr VerificationPending))))))))"

definition ObserveVerificationRevision ::
    "env \<Rightarrow> string \<Rightarrow> string \<Rightarrow> string \<Rightarrow> verification_request \<Rightarrow> string \<Rightarrow> state \<Rightarrow> attempt_revision res" where
  "ObserveVerificationRevision E workerToken runnerToken runner req descriptor s =
     bindr (workerAuth E s workerToken req 0) (\<lambda>a.
     bindr (runnerAuth E s runnerToken runner req a descriptor 2) (\<lambda>_.
     bindr (currentRevision s a (vr_RevisionID req) (vr_LeaseID req) (vr_ExpectedFence req)) (\<lambda>rev.
     bindr (observeRevision E 0 (e_now E 4) a rev) (\<lambda>_.
     bindr (workerAuth E s workerToken req 5) (\<lambda>_.
     bindr (runnerAuth E s runnerToken runner req a descriptor 7) (\<lambda>_. Inr rev))))))"

text \<open>\<^verbatim>\<open>BeginVerification\<close> answers with the receipt of a committed execution, or with the revision
  whose execution it has just reserved.\<close>

definition BeginVerification ::
    "env \<Rightarrow> string \<Rightarrow> string \<Rightarrow> string \<Rightarrow> verification_request \<Rightarrow> string \<Rightarrow> state
       \<Rightarrow> ((evidence + attempt_revision) \<times> state) res" where
  "BeginVerification E workerToken runnerToken runner req descriptor s =
     bindr (leaseAuth E s workerToken (vr_WorkerSession req) (vr_AttemptID req) ''verification.request'' (e_now E 0)) (\<lambda>(r, a).
     require (validID (vr_OperationKey req)) ErrDenied (
     bindr (runnerAuth E s runnerToken runner req a descriptor 1) (\<lambda>_.
     let digest = identity E (''run:'' @ descriptor) runner (jv_verification req) in
     (case gget (Operations s) (vr_OperationKey req) of
        Some p \<Rightarrow> require (op_Digest p = digest) ErrDenied (
                  bindr (from_option (op_Evidence p) ErrReconcile) (\<lambda>ev. Inr (Inl ev, s)))
      | None \<Rightarrow>
     bindr (workerAuth E s workerToken req 3) (\<lambda>_.
     bindr (currentRevision s a (vr_RevisionID req) (vr_LeaseID req) (vr_ExpectedFence req)) (\<lambda>rev.
     bindr (observeRevision E 0 (e_now E 5) a rev) (\<lambda>_.
     bindr (workerAuth E s workerToken req 6) (\<lambda>_.
     bindr (runnerAuth E s runnerToken runner req a descriptor 8) (\<lambda>_.
     let p = (empty_operation digest)\<lparr>op_Pending := True,
           op_CheckpointVerification := (if 12 \<le> Version s
             then Some \<lparr>cb_ProjectID = at_ProjectID a, cb_TaskID = ar_TaskID (at_Request a), cb_RunnerSession = runner,
                    cb_DescriptorDigest = descriptor, cb_Request = req\<rparr>
             else None)\<rparr> in
     Inr (Inr rev, s\<lparr>Operations := gput (vr_OperationKey req) p (Operations s)\<rparr>))))))))))"

definition CompleteVerification ::
    "env \<Rightarrow> string \<Rightarrow> string \<Rightarrow> string \<Rightarrow> verification_request \<Rightarrow> verification_result \<Rightarrow> state
       \<Rightarrow> (evidence \<times> state) res" where
  "CompleteVerification E workerToken runnerToken runner req res s =
     bindr (workerAuth E s workerToken req 0) (\<lambda>a.
     bindr (runnerAuth E s runnerToken runner req a (vs_CommandDigest res) 2) (\<lambda>g.
     let digest = identity E (''run:'' @ vs_CommandDigest res) runner (jv_verification req);
         resultDigest = identity E ''result'' runner (jv_result res) in
     fetch (Operations s) (vr_OperationKey req) (\<lambda>p.
     require (op_Digest p = digest) ErrDenied (
     (case op_Evidence p of
        Some ev \<Rightarrow> require (op_ResultDigest p = resultDigest) ErrDenied (Inr (ev, s))
      | None \<Rightarrow>
     require (op_Pending p) ErrDenied (
     bindr (currentRevision s a (vr_RevisionID req) (vr_LeaseID req) (vr_ExpectedFence req)) (\<lambda>rev.
     require (vs_Clean res \<and> vs_Commit res = ob_Commit (rv_Observation rev)
        \<and> vs_Tree res = ob_Tree (rv_Observation rev) \<and> vs_Directory res = ob_Locator (rv_Observation rev)
        \<and> length (vs_Output res) \<le> 64 * 1024 \<and> vs_OutputDigest res = OutputDigest E (vs_Output res)) ErrDenied (
     bindr (observeRevision E 0 (e_now E 4) a rev) (\<lambda>_.
     bindr (workerAuth E s workerToken req 5) (\<lambda>_.
     bindr (runnerAuth E s runnerToken runner req a (vs_CommandDigest res) 7) (\<lambda>_.
     bindr (mint E 0) (\<lambda>i.
     let result = \<lparr>ev_ID = i, ev_IssuerSession = runner, ev_Provenance = ''trusted-local-runner'', ev_GrantID = vg_ID g,
           ev_Revision = rev, ev_CheckID = vg_CheckID g, ev_CommandDigest = vg_CommandDigest g,
           ev_OutputDigest = vs_OutputDigest res, ev_ExitCode = vs_ExitCode res, ev_RecordedAt = e_now E 9\<rparr> in
     Inr (result, s\<lparr>Evidence := gput i result (Evidence s),
       Operations := gput (vr_OperationKey req) ((empty_operation digest)\<lparr>op_Evidence := Some result,
         op_ResultDigest := resultDigest, op_CheckpointVerification := op_CheckpointVerification p\<rparr>)
         (Operations s)\<rparr>)))))))))))))"

definition EligibleVerification :: "env \<Rightarrow> string \<Rightarrow> string \<Rightarrow> string \<Rightarrow> state \<Rightarrow> bool res" where
  "EligibleVerification E token sess i s =
     fetch (Evidence s) i (\<lambda>ev.
     let active = activeAttempt E s token sess (rv_AttemptID (ev_Revision ev)) (rv_LeaseID (ev_Revision ev))
           (rv_Fence (ev_Revision ev)) ''verification.request'' in
     bindr (active 0) (\<lambda>a.
     if ev_Provenance ev \<noteq> ''trusted-local-runner'' \<or> ev_ExitCode ev \<noteq> 0 then Inr False
     else (case currentRevision s a (rv_ID (ev_Revision ev)) (rv_LeaseID (ev_Revision ev)) (rv_Fence (ev_Revision ev)) of
        Inl _ \<Rightarrow> Inr False
      | Inr _ \<Rightarrow>
     (case (gget (Grants s) (ev_GrantID ev), gget (Sessions s) (ev_IssuerSession ev)) of
        (Some g, Some r) \<Rightarrow>
          if vg_Revoked g \<or> se_Revoked r \<or> se_Parent r \<noteq> '''' \<or> vg_RunnerSession g \<noteq> se_ID r
             \<or> vg_TaskID g \<noteq> ar_TaskID (at_Request a) \<or> vg_Repository g \<noteq> ob_Repository (at_Observation a)
             \<or> vg_CheckID g \<noteq> ev_CheckID ev \<or> vg_CommandDigest g \<noteq> ev_CommandDigest ev
             \<or> \<not> subset [''verification.run''] (sc_Actions (se_Scope r))
             \<or> \<not> subset [''task:'' @ vg_TaskID g] (sc_Resources (se_Scope r))
             \<or> \<not> e_now E 2 < vg_ExpiresAt g \<or> \<not> e_now E 3 < se_ExpiresAt r then Inr False
          else (case observeRevision E 0 (e_now E 4) a (ev_Revision ev) of
             Inl _ \<Rightarrow> Inr False
           | Inr _ \<Rightarrow>
          bindr (active 5) (\<lambda>_.
          Inr (e_now E 7 < vg_ExpiresAt g \<and> e_now E 8 < se_ExpiresAt r)))
      | _ \<Rightarrow> Inr False))))"

section \<open>What the checks establish\<close>

lemma activeAttempt_Inr:
  "activeAttempt E s token sess attemptID leaseID fence action k = Inr a \<longleftrightarrow>
     (\<exists>r l. leaseAuth E s token sess attemptID action (e_now E k) = Inr (r, a) \<and> gget (Leases s) leaseID = Some l
        \<and> l_AttemptID l = attemptID \<and> l_SessionID l = sess \<and> l_Fence l = fence \<and> currentLease s l (e_now E (Suc k)))"
  by (auto simp: activeAttempt_def)

lemma runnerAuth_Inr:
  "runnerAuth E s token sess req a descriptor k = Inr g \<longleftrightarrow>
     (\<exists>r. authenticate E s token sess (e_now E k) = Inr r \<and> gget (Grants s) (vr_GrantID req) = Some g
        \<and> se_Parent r = '''' \<and> \<not> vg_Revoked g \<and> e_now E (Suc k) < vg_ExpiresAt g
        \<and> vg_RunnerSession g = se_ID r \<and> se_ID r \<noteq> vr_WorkerSession req
        \<and> vg_TaskID g = ar_TaskID (at_Request a) \<and> vg_Repository g = ob_Repository (at_Observation a)
        \<and> vg_CheckID g = vr_CheckID req \<and> vg_CommandDigest g = descriptor
        \<and> ''verification.run'' \<in> set (sc_Actions (se_Scope r))
        \<and> ''task:'' @ vg_TaskID g \<in> set (sc_Resources (se_Scope r)))"
  by (auto simp: runnerAuth_def)

lemma observeRevision_Inr:
  "observeRevision E i now a v = Inr u \<longleftrightarrow>
     (\<exists>obs. Observe E i now (ob_Locator (at_Observation a)) = Inr obs \<and> sameCheckout a obs
        \<and> ob_Commit obs = ob_Commit (rv_Observation v) \<and> ob_Tree obs = ob_Tree (rv_Observation v))"
  by (auto simp: observeRevision_def)

lemma currentRevision_Inr:
  "currentRevision s a i leaseID fence = Inr v \<longleftrightarrow>
     \<not> workerTaskWithdrawn s (at_SessionID a) (ar_TaskID (at_Request a))
     \<and> gslice (Revisions s) (at_ID a) \<noteq> [] \<and> v = last (gslice (Revisions s) (at_ID a))
     \<and> rv_ID v = i \<and> rv_LeaseID v = leaseID \<and> rv_Fence v = fence"
  by (auto simp: currentRevision_def currentRevisionExcept_def workerTaskWithdrawn_def Let_def)

lemma interruption_found:
  assumes "interruptionReason reason" "\<not> op_Pending p" "op_Evidence p = None"
    "op_ResultDigest p = identity E (''interruption:'' @ reason) runner (jv_verification req)"
  shows "verificationInterruption E p runner req \<noteq> None"
  using assms by (auto simp: verificationInterruption_def interruptionReason_def find_None_iff)

lemma interruption_digest:
  "verificationInterruption E p runner req = Some v \<Longrightarrow> \<not> op_Pending p \<and> op_Evidence p = None
     \<and> vi_ResultDigest v = op_ResultDigest p \<and> interruptionReason (vi_Reason v) \<and> vi_RunnerSession v = runner"
  by (auto simp: verificationInterruption_def interruptionReason_def find_Some_iff split: if_splits)

section \<open>The execution automaton\<close>

text \<open>What an operation key stands for, and the steps it may make: reserved once, then either completed
  with one piece of evidence or interrupted with one digest, for good.\<close>

datatype vstatus = VAbsent | VPending | VInterrupted string | VCompleted evidence

datatype vevent = Reserve | Receipt evidence | Interruption string

definition vstatus_of :: "state \<Rightarrow> string \<Rightarrow> vstatus" where
  "vstatus_of s key =
     (case gget (Operations s) key of
        None \<Rightarrow> VAbsent
      | Some p \<Rightarrow> (case op_Evidence p of
            Some ev \<Rightarrow> VCompleted ev
          | None \<Rightarrow> if op_Pending p then VPending else VInterrupted (op_ResultDigest p)))"

inductive vstep :: "vstatus \<Rightarrow> vevent \<Rightarrow> vstatus \<Rightarrow> bool" where
  reserve: "vstep VAbsent Reserve VPending"
| complete: "vstep VPending (Receipt ev) (VCompleted ev)"
| interrupt: "vstep VPending (Interruption d) (VInterrupted d)"
| receipt: "vstep (VCompleted ev) (Receipt ev) (VCompleted ev)"
| interrupted: "vstep (VInterrupted d) (Interruption d) (VInterrupted d)"

inductive_cases vstep_PendingE: "vstep VPending e x"
inductive_cases vstep_CompletedE: "vstep (VCompleted ev) e x"
inductive_cases vstep_InterruptedE: "vstep (VInterrupted d) e x"
inductive_simps vstep_AbsentI [simp]: "vstep VAbsent e x"

lemma BeginVerification_Inr:
  assumes "BeginVerification E wt rt runner req descriptor s = Inr (out, s')"
  obtains (served) p ev where "gget (Operations s) (vr_OperationKey req) = Some p" "op_Evidence p = Some ev"
      "out = Inl ev" "s' = s" "op_Digest p = identity E (''run:'' @ descriptor) runner (jv_verification req)"
  | (reserved) a g v p where "gget (Operations s) (vr_OperationKey req) = None"
      "workerAuth E s wt req 6 = Inr a" "runnerAuth E s rt runner req a descriptor 8 = Inr g"
      "currentRevision s a (vr_RevisionID req) (vr_LeaseID req) (vr_ExpectedFence req) = Inr v"
      "observeRevision E 0 (e_now E 5) a v = Inr ()" "out = Inr v"
      "s' = s\<lparr>Operations := gput (vr_OperationKey req) p (Operations s)\<rparr>"
      "op_Evidence p = None" "op_Pending p" "op_Digest p = identity E (''run:'' @ descriptor) runner (jv_verification req)"
proof (cases "gget (Operations s) (vr_OperationKey req)")
  case None
  have one: "workerAuth E s wt req 6 = Inr b \<Longrightarrow> leaseAuth E s wt (vr_WorkerSession req) (vr_AttemptID req)
      ''verification.request'' t = Inr (r, a) \<Longrightarrow> b = a \<and> workerAuth E s wt req 6 = Inr a" for b r a t
    by (auto simp: workerAuth_def activeAttempt_Inr leaseAuth_Inr)
  from assms None show ?thesis
    apply (clarsimp simp: BeginVerification_def Let_def)
    apply (drule (1) one)
    apply clarify
    apply (rule reserved)
             apply (assumption | simp add: empty_operation_def)+
    done
next
  case (Some p)
  from assms show ?thesis
    by (clarsimp simp: BeginVerification_def Let_def Some) (rule served [OF Some], simp_all)
qed

lemma CompleteVerification_Inr:
  assumes "CompleteVerification E wt rt runner req res s = Inr (ev, s')"
  obtains (served) p where "gget (Operations s) (vr_OperationKey req) = Some p" "op_Evidence p = Some ev" "s' = s"
      "op_Digest p = identity E (''run:'' @ vs_CommandDigest res) runner (jv_verification req)"
      "op_ResultDigest p = identity E ''result'' runner (jv_result res)"
  | (completed) a g v p q where "gget (Operations s) (vr_OperationKey req) = Some p" "op_Evidence p = None" "op_Pending p"
      "workerAuth E s wt req 0 = Inr a" "runnerAuth E s rt runner req a (vs_CommandDigest res) 2 = Inr g"
      "currentRevision s a (vr_RevisionID req) (vr_LeaseID req) (vr_ExpectedFence req) = Inr v"
      "observeRevision E 0 (e_now E 4) a v = Inr ()"
      "vs_Clean res" "vs_Commit res = ob_Commit (rv_Observation v)" "vs_Tree res = ob_Tree (rv_Observation v)"
      "vs_OutputDigest res = OutputDigest E (vs_Output res)"
      "ev_IssuerSession ev = runner" "ev_Provenance ev = ''trusted-local-runner''" "ev_GrantID ev = vg_ID g"
      "ev_Revision ev = v" "ev_CheckID ev = vg_CheckID g" "ev_CommandDigest ev = vg_CommandDigest g"
      "ev_OutputDigest ev = vs_OutputDigest res" "ev_ExitCode ev = vs_ExitCode res"
      "Evidence s' = gput (ev_ID ev) ev (Evidence s)" "Operations s' = gput (vr_OperationKey req) q (Operations s)"
      "s' = s\<lparr>Evidence := Evidence s', Operations := Operations s'\<rparr>" "op_Evidence q = Some ev" "op_Digest p = identity E (''run:'' @ vs_CommandDigest res) runner (jv_verification req)"
      "op_Digest q = op_Digest p" "op_ResultDigest q = identity E ''result'' runner (jv_result res)"
proof (cases "\<exists>p x. gget (Operations s) (vr_OperationKey req) = Some p \<and> op_Evidence p = Some x")
  case True
  then obtain p x where p: "gget (Operations s) (vr_OperationKey req) = Some p" "op_Evidence p = Some x" by blast
  from assms show ?thesis
    by (simp add: CompleteVerification_def Let_def p) (elim exE conjE, rule served [OF p(1)], simp_all add: p(2))
next
  case False
  from assms obtain p where p: "gget (Operations s) (vr_OperationKey req) = Some p"
    by (auto simp: CompleteVerification_def Let_def)
  with False have n: "op_Evidence p = None" by (cases "op_Evidence p") auto
  from assms show ?thesis
    apply (clarsimp simp: CompleteVerification_def Let_def p n)
    apply (rule completed [OF p n])
                        apply (assumption | simp add: empty_operation_def)+
    done
qed

lemma InterruptVerification_Inr:
  assumes "InterruptVerification E wt rt runner req descriptor reason s = Inr (v, s')"
  obtains (served) p where "gget (Operations s) (vr_OperationKey req) = Some p" "s' = s"
      "verificationInterruption E p runner req = Some v" "op_Evidence p = None" "vi_Reason v = reason"
  | (interrupted) p q where "gget (Operations s) (vr_OperationKey req) = Some p" "op_Evidence p = None" "op_Pending p"
      "s' = s\<lparr>Operations := gput (vr_OperationKey req) q (Operations s)\<rparr>" "op_Evidence q = None" "\<not> op_Pending q"
      "verificationInterruption E q runner req = Some v" "op_Digest q = op_Digest p"
proof -
  from assms obtain p where p: "gget (Operations s) (vr_OperationKey req) = Some p" "op_Evidence p = None"
    by (auto simp: InterruptVerification_def)
  show ?thesis
  proof (cases "verificationInterruption E p runner req")
    case None
    from assms show ?thesis
      by (simp add: InterruptVerification_def Let_def p None)
         (elim exE conjE, rule interrupted [OF p, where q = "p\<lparr>op_Pending := False, op_ResultDigest :=
           identity E (''interruption:'' @ reason) runner (jv_verification req)\<rparr>"], simp_all add: p)
  next
    case (Some w)
    from assms show ?thesis
      by (simp add: InterruptVerification_def Let_def p Some)
         (elim exE conjE, rule served [OF p(1)], simp_all add: p Some)
  qed
qed

definition vevent_of :: "evidence + attempt_revision \<Rightarrow> vevent" where
  "vevent_of out = (case out of Inl ev \<Rightarrow> Receipt ev | Inr v \<Rightarrow> Reserve)"

lemma begin_step:
  assumes "BeginVerification E wt rt runner req descriptor s = Inr (out, s')"
  shows "vstep (vstatus_of s (vr_OperationKey req)) (vevent_of out) (vstatus_of s' (vr_OperationKey req))
    \<and> (\<forall>k. k \<noteq> vr_OperationKey req \<longrightarrow> gget (Operations s') k = gget (Operations s) k)"
  using assms by (cases rule: BeginVerification_Inr) (simp_all add: vstatus_of_def vevent_of_def vstep.receipt)

lemma complete_step:
  assumes "CompleteVerification E wt rt runner req res s = Inr (ev, s')"
  shows "vstep (vstatus_of s (vr_OperationKey req)) (Receipt ev) (vstatus_of s' (vr_OperationKey req))
    \<and> (\<forall>k. k \<noteq> vr_OperationKey req \<longrightarrow> gget (Operations s') k = gget (Operations s) k)"
  using assms by (cases rule: CompleteVerification_Inr) (simp_all add: vstatus_of_def vstep.receipt vstep.complete)

lemma interrupt_step:
  assumes "InterruptVerification E wt rt runner req descriptor reason s = Inr (v, s')"
  shows "vstep (vstatus_of s (vr_OperationKey req)) (Interruption (vi_ResultDigest v)) (vstatus_of s' (vr_OperationKey req))
    \<and> (\<forall>k. k \<noteq> vr_OperationKey req \<longrightarrow> gget (Operations s') k = gget (Operations s) k)"
  using assms
proof (cases rule: InterruptVerification_Inr)
  case (served p)
  then show ?thesis
    using interruption_digest [OF served(3)] by (simp add: vstatus_of_def vstep.interrupted)
next
  case (interrupted p q)
  then show ?thesis
    using interruption_digest [OF interrupted(7)] by (simp add: vstatus_of_def vstep.interrupt)
qed

text \<open>Executions of the service as one operation key sees them: verification handlers on that key, and
  any other step, which may do what it wants except change a record the key already has.\<close>

inductive verification_run :: "string \<Rightarrow> state \<Rightarrow> vevent list \<Rightarrow> state \<Rightarrow> bool" for key where
  run_end: "verification_run key s [] s"
| run_begin: "BeginVerification E wt rt runner req descriptor s = Inr (out, s1) \<Longrightarrow> vr_OperationKey req = key \<Longrightarrow>
    verification_run key s1 es s2 \<Longrightarrow>
    verification_run key s (vevent_of out # es) s2"
| run_complete: "CompleteVerification E wt rt runner req res s = Inr (ev, s1) \<Longrightarrow> vr_OperationKey req = key \<Longrightarrow>
    verification_run key s1 es s2 \<Longrightarrow> verification_run key s (Receipt ev # es) s2"
| run_interrupt: "InterruptVerification E wt rt runner req descriptor reason s = Inr (v, s1) \<Longrightarrow>
    vr_OperationKey req = key \<Longrightarrow> verification_run key s1 es s2 \<Longrightarrow>
    verification_run key s (Interruption (vi_ResultDigest v) # es) s2"
| run_other: "(gget (Operations s) key \<noteq> None \<Longrightarrow> gget (Operations s1) key = gget (Operations s) key) \<Longrightarrow>
    verification_run key s1 es s2 \<Longrightarrow> verification_run key s es s2"

fun vallowed :: "vstatus \<Rightarrow> vevent list \<Rightarrow> bool" where
  "vallowed VAbsent es = True"
| "vallowed VPending es = ((\<exists>ev. set es \<subseteq> {Receipt ev}) \<or> (\<exists>d. set es \<subseteq> {Interruption d}))"
| "vallowed (VCompleted ev) es = (set es \<subseteq> {Receipt ev})"
| "vallowed (VInterrupted d) es = (set es \<subseteq> {Interruption d})"

lemma vallowed_step: "vstep x e y \<Longrightarrow> vallowed y es \<Longrightarrow> vallowed x (e # es)"
  by (cases rule: vstep.cases) auto

lemma verification_run_allowed: "verification_run key s es s' \<Longrightarrow> vallowed (vstatus_of s key) es"
proof (induction rule: verification_run.induct)
  case (run_end s)
  then show ?case by (cases "vstatus_of s key") auto
next
  case (run_begin E wt rt runner req descriptor s out s1 es s2)
  then show ?case using begin_step vallowed_step by blast
next
  case (run_complete E wt rt runner req res s ev s1 es s2)
  then show ?case using complete_step vallowed_step by blast
next
  case (run_interrupt E wt rt runner req descriptor reason s v s1 es s2)
  then show ?case using interrupt_step vallowed_step by blast
next
  case (run_other s s1 es s2)
  then show ?case by (cases "gget (Operations s) key") (simp_all add: vstatus_of_def)
qed

section \<open>Revision histories\<close>

text \<open>The history of an attempt is numbered 1, 2, and so on, and holds only its own revisions.\<close>

definition revisions_inv :: "state \<Rightarrow> bool" where
  "revisions_inv s \<longleftrightarrow> (\<forall>k. let h = gslice (Revisions s) k in
     map rv_Sequence h = map of_nat [1..<Suc (length h)] \<and> (\<forall>v \<in> set h. rv_AttemptID v = k))"

lemma PublishAttemptRevision_Inr:
  assumes "PublishAttemptRevision E token sess req s = Inr (v, s')"
  obtains (served) p where "gget (Operations s) (pq_OperationKey req) = Some p" "op_Revision p = Some v" "s' = s"
      "op_Digest p = identity E ''revision'' sess (jv_publish req)"
  | (published) a i obs p where "gget (Operations s) (pq_OperationKey req) = None"
      "activeAttempt E s token sess (pq_AttemptID req) (pq_LeaseID req) (pq_ExpectedFence req) ''attempt.publish'' 4 = Inr a"
      "of_nat (length (gslice (Revisions s) (at_ID a))) = pq_ExpectedRevision req" "pq_ExpectedRevision req \<noteq> - 1"
      "Observe E 0 (e_now E 3) (ob_Locator (at_Observation a)) = Inr obs" "sameCheckout a obs"
      "v = \<lparr>rv_ID = i, rv_AttemptID = at_ID a, rv_SessionID = sess, rv_LeaseID = pq_LeaseID req,
           rv_Sequence = pq_ExpectedRevision req + 1, rv_Fence = pq_ExpectedFence req, rv_Observation = obs,
           rv_PublishedAt = e_now E 6\<rparr>"
      "Revisions s' = gput (at_ID a) (gslice (Revisions s) (at_ID a) @ [v]) (Revisions s)"
      "Operations s' = gput (pq_OperationKey req) p (Operations s)"
      "s' = s\<lparr>Revisions := Revisions s', Operations := Operations s'\<rparr>" "op_Revision p = Some v"
      "op_Digest p = identity E ''revision'' sess (jv_publish req)"
proof (cases "gget (Operations s) (pq_OperationKey req)")
  case None
  have one: "activeAttempt E s token sess (pq_AttemptID req) (pq_LeaseID req) (pq_ExpectedFence req) ''attempt.publish'' 4 = Inr b
      \<Longrightarrow> leaseAuth E s token sess (pq_AttemptID req) ''attempt.publish'' t = Inr (r, a) \<Longrightarrow>
      activeAttempt E s token sess (pq_AttemptID req) (pq_LeaseID req) (pq_ExpectedFence req) ''attempt.publish'' 4 = Inr a" for b r a t
    by (auto simp: activeAttempt_Inr leaseAuth_Inr)
  from assms None show ?thesis
    apply (clarsimp simp: PublishAttemptRevision_def Let_def)
    apply (drule (1) one)
    apply (rule published)
               apply (assumption | simp add: empty_operation_def)+
    done
next
  case (Some p)
  from assms show ?thesis
    by (clarsimp simp: PublishAttemptRevision_def Let_def Some) (rule served [OF Some], simp_all)
qed

lemma publish_revisions_inv:
  assumes "PublishAttemptRevision E token sess req s = Inr (v, s')" "revisions_inv s"
  shows "revisions_inv s'"
  using assms(1)
proof (cases rule: PublishAttemptRevision_Inr)
  case served
  with assms(2) show ?thesis by simp
next
  case (published a i obs p)
  let ?h = "gslice (Revisions s) (at_ID a)"
  have "rv_Sequence v = of_nat (Suc (length ?h))" "rv_AttemptID v = at_ID a"
    using published(3,7) by (simp_all add: add.commute)
  then show ?thesis
    using assms(2) unfolding revisions_inv_def published(8)
    by (simp add: Let_def)
qed

interpretation publish_key: replayable
  "\<lambda>E (token, sess, req). PublishAttemptRevision E token sess req"
  "\<lambda>s (token, sess, req). gget (Operations s) (pq_OperationKey req)"
  "\<lambda>E (token, sess, req) s. identity E ''revision'' sess (jv_publish req)"
  op_Digest op_Revision
proof (unfold_locales, goal_cases)
  case (1 s q p E r s')
  then show ?case by (cases q) (auto elim!: PublishAttemptRevision_Inr)
next
  case (2 s q E r s')
  then show ?case by (cases q) (auto elim!: PublishAttemptRevision_Inr)
qed

text \<open>Of a verification key only a completed record is a receipt; its digest is the result's.\<close>

definition completed_record :: "state \<Rightarrow> string \<Rightarrow> operation option" where
  "completed_record s key = (case gget (Operations s) key of
     None \<Rightarrow> None | Some p \<Rightarrow> if op_Evidence p = None then None else Some p)"

interpretation complete_key: replayable
  "\<lambda>E (wt, rt, runner, req, res). CompleteVerification E wt rt runner req res"
  "\<lambda>s (wt, rt, runner, req, res). completed_record s (vr_OperationKey req)"
  "\<lambda>E (wt, rt, runner, req, res) s. identity E ''result'' runner (jv_result res)"
  op_ResultDigest op_Evidence
proof (unfold_locales, goal_cases)
  case (1 s q p E r s')
  then show ?case
    by (cases q) (auto simp: completed_record_def split: option.splits if_splits elim!: CompleteVerification_Inr)
next
  case (2 s q E r s')
  then show ?case
    by (cases q) (auto simp: completed_record_def split: option.splits if_splits elim!: CompleteVerification_Inr)
qed

section \<open>A concrete verification\<close>

text \<open>A worker \<open>r\<close> holding a lease on a published revision, and an independent runner \<open>v\<close> with a grant.\<close>

definition sample_worker :: srecord where
  "sample_worker = \<lparr>se_ID = ''r'', se_Parent = '''', se_Scope = \<lparr>sc_Actions = [''verification.request'', ''attempt.publish''],
     sc_Resources = [''task:t'']\<rparr>, se_ExpiresAt = 100, se_Revoked = False, sr_Hash = sample_id 1\<rparr>"

definition sample_runner :: srecord where
  "sample_runner = \<lparr>se_ID = ''v'', se_Parent = '''', se_Scope = \<lparr>sc_Actions = [''verification.run''],
     sc_Resources = [''task:t'']\<rparr>, se_ExpiresAt = 100, se_Revoked = False, sr_Hash = sample_id 2\<rparr>"

definition sample_obs :: observation where
  "sample_obs = \<lparr>ob_Locator = ''/w'', ob_Repository = ''/w/.git'', ob_Commit = ''c1'', ob_Tree = ''t1'', ob_ObservedAt = 10\<rparr>"

definition sample_revision :: attempt_revision where
  "sample_revision = \<lparr>rv_ID = ''n'', rv_AttemptID = ''a'', rv_SessionID = ''r'', rv_LeaseID = ''l'', rv_Sequence = 1,
     rv_Fence = 1, rv_Observation = sample_obs, rv_PublishedAt = 5\<rparr>"

definition sample_grant :: verification_grant where
  "sample_grant = \<lparr>vg_ID = ''g'', vg_RunnerSession = ''v'', vg_TaskID = ''t'', vg_Repository = ''/w/.git'',
     vg_CheckID = ''k'', vg_CommandDigest = ''d'', vg_ExpiresAt = 90, vg_Revoked = False\<rparr>"

definition sample_verify_state :: state where
  "sample_verify_state = sample_state\<lparr>Sessions := [(''r'', sample_worker), (''v'', sample_runner)],
     Attempts := [(''q'', sample_attempt)], Leases := [(''l'', sample_lease ''/w'' ''src'')], Fence := 1,
     Revisions := [(''a'', [sample_revision])], Grants := [(''g'', sample_grant)]\<rparr>"

definition sample_vr :: verification_request where
  "sample_vr = \<lparr>vr_OperationKey = ''k'', vr_WorkerSession = ''r'', vr_AttemptID = ''a'', vr_LeaseID = ''l'',
     vr_RevisionID = ''n'', vr_CheckID = ''k'', vr_GrantID = ''g'', vr_ExpectedFence = 1\<rparr>"

definition sample_result :: verification_result where
  "sample_result = \<lparr>vs_Commit = ''c1'', vs_Tree = ''t1'', vs_Directory = ''/w'', vs_CommandDigest = ''d'',
     vs_OutputDigest = ''sha256:ok'', vs_Output = ''ok'', vs_ExitCode = 0, vs_Clean = True\<rparr>"

lemma sample_verify_state_sel [simp]:
  "Sessions sample_verify_state = [(''r'', sample_worker), (''v'', sample_runner)]"
  "Attempts sample_verify_state = [(''q'', sample_attempt)]" "Leases sample_verify_state = [(''l'', sample_lease ''/w'' ''src'')]"
  "Revisions sample_verify_state = [(''a'', [sample_revision])]" "Grants sample_verify_state = [(''g'', sample_grant)]"
  "Operations sample_verify_state = []" "TaskTerminals sample_verify_state = []" "Evidence sample_verify_state = []"
  "Recoveries sample_verify_state = []" "LifecycleCancellations sample_verify_state = []"
  by (simp_all add: sample_verify_state_def sample_state_def empty_state_def)

text \<open>States that differ from the sample only in their operations.\<close>

definition sample_like :: "state \<Rightarrow> bool" where
  "sample_like s \<longleftrightarrow> s\<lparr>Operations := [], Evidence := []\<rparr> = sample_verify_state\<lparr>Operations := [], Evidence := []\<rparr>"

lemma sample_like_sel:
  assumes "sample_like s"
  shows "Sessions s = [(''r'', sample_worker), (''v'', sample_runner)]"
  "Attempts s = [(''q'', sample_attempt)]" "Leases s = [(''l'', sample_lease ''/w'' ''src'')]"
  "Revisions s = [(''a'', [sample_revision])]" "Grants s = [(''g'', sample_grant)]" "TaskTerminals s = []"
  "Recoveries s = []" "LifecycleCancellations s = []"
  using arg_cong [OF assms [unfolded sample_like_def], of Sessions] arg_cong [OF assms [unfolded sample_like_def], of Attempts]
    arg_cong [OF assms [unfolded sample_like_def], of Leases] arg_cong [OF assms [unfolded sample_like_def], of Revisions]
    arg_cong [OF assms [unfolded sample_like_def], of Grants] arg_cong [OF assms [unfolded sample_like_def], of TaskTerminals]
    arg_cong [OF assms [unfolded sample_like_def], of Recoveries]
    arg_cong [OF assms [unfolded sample_like_def], of LifecycleCancellations]
  by simp_all

lemma sample_Observe: "Observe sample_env i 10 ''/w'' = Inr sample_obs"
  by (simp add: Observe_def sample_env_def observe_def observeWithContext_def Let_def gitRunner_def sample_git_def
      sample_fs_def is_abs_def has_prefix_def filter_key_def sample_obs_def)

lemma sample_env_now [simp]: "e_now sample_env = (\<lambda>_. 10)"
  by (simp add: sample_env_def)

lemma sample_leaseAuth_like:
  assumes "sample_like s"
  shows "leaseAuth sample_env s (sample_id 1) ''r'' ''a'' ''verification.request'' 10 = Inr (sample_worker, sample_attempt)"
  unfolding leaseAuth_Inr
  using sample_like_sel [OF assms]
  by (simp add: sample_not_withdrawn attemptFor_def gvals_def authenticate_Inr walk_ok_iff gget_def lineage_walk.simps
      sample_worker_def sample_attempt_def sample_env_def)

lemma sample_workerAuth:
  assumes "sample_like s"
  shows "workerAuth sample_env s (sample_id 1) sample_vr k = Inr sample_attempt"
  using sample_leaseAuth_like [OF assms] sample_like_sel [OF assms] sample_not_withdrawn [of s]
  by (simp add: workerAuth_def activeAttempt_def sample_vr_def gget_def sample_lease_def currentLease_def
      currentLeaseExcept_def workerTaskWithdrawn_def fetch_def)

lemma sample_runnerAuth:
  assumes "sample_like s"
  shows "runnerAuth sample_env s (sample_id 2) ''v'' sample_vr sample_attempt ''d'' k = Inr sample_grant"
  unfolding runnerAuth_Inr
  using sample_like_sel [OF assms]
  by (simp add: authenticate_Inr walk_ok_iff gget_def lineage_walk.simps sample_runner_def sample_grant_def sample_vr_def
      sample_attempt_def sample_env_def)

lemma sample_currentRevision:
  assumes "sample_like s"
  shows "currentRevision s sample_attempt ''n'' ''l'' 1 = Inr sample_revision"
  unfolding currentRevision_Inr
  using sample_like_sel [OF assms] sample_not_withdrawn [of s]
  by (simp add: gslice_def gget_def sample_revision_def sample_attempt_def)

lemma sample_observeRevision: "observeRevision sample_env i 10 sample_attempt sample_revision = Inr ()"
  unfolding observeRevision_Inr
  by (simp add: sample_Observe sample_attempt_def sameCheckout_def) (simp add: sample_obs_def sample_revision_def)

lemma sample_like_verify: "sample_like sample_verify_state"
  by (simp add: sample_like_def)

lemma sample_like_operations [simp]: "sample_like (s\<lparr>Operations := x\<rparr>) = sample_like s"
  "sample_like (s\<lparr>Evidence := y, Operations := x\<rparr>) = sample_like s"
  by (simp_all add: sample_like_def)

lemma sample_BeginVerification:
  "\<exists>s'. BeginVerification sample_env (sample_id 1) (sample_id 2) ''v'' sample_vr ''d'' sample_verify_state
      = Inr (Inr sample_revision, s') \<and> sample_like s' \<and> vstatus_of s' ''k'' = VPending
     \<and> (\<exists>p. gget (Operations s') ''k'' = Some p \<and> op_Pending p \<and> op_Evidence p = None
          \<and> op_Digest p = identity sample_env (''run:d'') ''v'' (jv_verification sample_vr))"
proof -
  have vr: "vr_OperationKey sample_vr = ''k''" "vr_WorkerSession sample_vr = ''r''" "vr_AttemptID sample_vr = ''a''"
      "vr_RevisionID sample_vr = ''n''" "vr_LeaseID sample_vr = ''l''" "vr_ExpectedFence sample_vr = 1"
    by (simp_all add: sample_vr_def)
  show ?thesis
    by (simp add: BeginVerification_def vr Let_def sample_leaseAuth_like sample_workerAuth sample_runnerAuth
        sample_currentRevision sample_observeRevision sample_like_verify vstatus_of_def empty_operation_def del: One_nat_def)
qed

lemma sample_CompleteVerification:
  assumes "sample_like s" "gget (Operations s) ''k'' = Some p" "op_Pending p" "op_Evidence p = None"
    "op_Digest p = identity sample_env (''run:d'') ''v'' (jv_verification sample_vr)"
  shows "\<exists>ev s'. CompleteVerification sample_env (sample_id 1) (sample_id 2) ''v'' sample_vr sample_result s = Inr (ev, s')
     \<and> ev_Revision ev = sample_revision \<and> ev_IssuerSession ev = ''v''"
proof -
  have vr: "vr_OperationKey sample_vr = ''k''" "vr_RevisionID sample_vr = ''n''" "vr_LeaseID sample_vr = ''l''"
      "vr_ExpectedFence sample_vr = 1" "vs_CommandDigest sample_result = ''d''" "vs_Clean sample_result"
      "vs_Commit sample_result = ob_Commit (rv_Observation sample_revision)"
      "vs_Tree sample_result = ob_Tree (rv_Observation sample_revision)"
      "vs_Directory sample_result = ob_Locator (rv_Observation sample_revision)"
      "vs_Output sample_result = ''ok''" "vs_OutputDigest sample_result = OutputDigest sample_env ''ok''"
    by (simp_all add: sample_vr_def sample_result_def sample_revision_def sample_obs_def OutputDigest_def sample_env_def)
  have m: "mint sample_env 0 = Inr (sample_id 0)" by (simp add: mint_def sample_env_def)
  show ?thesis
    using assms
    by (simp add: CompleteVerification_def vr m Let_def sample_workerAuth sample_runnerAuth sample_currentRevision
        sample_observeRevision del: One_nat_def)
qed

lemma lookup_status:
  assumes "LookupVerification E wt rt runner req descriptor s = Inr found"
  shows "vstatus_of s (vr_OperationKey req) = (case found of VerificationAbsent \<Rightarrow> VAbsent | VerificationPending \<Rightarrow> VPending
    | VerificationCompleted x \<Rightarrow> VCompleted x | VerificationInterrupted i \<Rightarrow> VInterrupted (vi_ResultDigest i))"
proof (cases "gget (Operations s) (vr_OperationKey req)")
  case None
  with assms show ?thesis by (auto simp: LookupVerification_def vstatus_of_def)
next
  case (Some p)
  show ?thesis
  proof (cases "op_Evidence p")
    case ev: None
    show ?thesis
    proof (cases "verificationInterruption E p runner req")
      case None
      with assms Some ev show ?thesis by (auto simp: LookupVerification_def vstatus_of_def)
    next
      case (Some i)
      note i = interruption_digest [OF Some]
      from assms \<open>gget (Operations s) (vr_OperationKey req) = Some p\<close> ev Some have "found = VerificationInterrupted i"
        by (auto simp: LookupVerification_def)
      with i \<open>gget (Operations s) (vr_OperationKey req) = Some p\<close> ev show ?thesis by (simp add: vstatus_of_def)
    qed
  next
    case ev: (Some x)
    with assms Some show ?thesis by (auto simp: LookupVerification_def vstatus_of_def)
  qed
qed

section \<open>Properties\<close>

text \<open>C6: An execution is reserved at most once per operation key. In every execution of the service, with
  any interleaving of other operations and any number of crashed or repeated calls, the events that
  follow the reservation of a key never reserve it again, every receipt handed out is one and the same
  evidence, and a completed execution and an interrupted one exclude each other.\<close>

theorem at_most_one_execution:
  assumes "BeginVerification E wt rt runner req descriptor s = Inr (Inr v, s1)"
    "verification_run (vr_OperationKey req) s1 es s2"
  shows "Reserve \<notin> set es \<and> (\<forall>a b. Receipt a \<in> set es \<longrightarrow> Receipt b \<in> set es \<longrightarrow> a = b)
     \<and> (\<forall>a d. Receipt a \<in> set es \<longrightarrow> Interruption d \<notin> set es)"
proof -
  have "vstatus_of s1 (vr_OperationKey req) = VPending"
    using assms(1) by (cases rule: BeginVerification_Inr) (simp_all add: vstatus_of_def)
  then have "vallowed VPending es"
    using verification_run_allowed [OF assms(2)] by simp
  then show ?thesis by auto
qed

theorem at_most_one_execution_witness:
  "\<exists>s1 s2 ev. BeginVerification sample_env (sample_id 1) (sample_id 2) ''v'' sample_vr ''d'' sample_verify_state
      = Inr (Inr sample_revision, s1) \<and> verification_run ''k'' s1 [Receipt ev] s2 \<and> Reserve \<notin> set [Receipt ev]"
proof -
  obtain s1 p where b: "BeginVerification sample_env (sample_id 1) (sample_id 2) ''v'' sample_vr ''d'' sample_verify_state
      = Inr (Inr sample_revision, s1)" "sample_like s1" "gget (Operations s1) ''k'' = Some p" "op_Pending p"
      "op_Evidence p = None" "op_Digest p = identity sample_env (''run:d'') ''v'' (jv_verification sample_vr)"
    using sample_BeginVerification by blast
  obtain ev s2 where c: "CompleteVerification sample_env (sample_id 1) (sample_id 2) ''v'' sample_vr sample_result s1 = Inr (ev, s2)"
    using sample_CompleteVerification [OF b(2-6)] by blast
  have key: "vr_OperationKey sample_vr = ''k''" by (simp add: sample_vr_def)
  have "verification_run ''k'' s1 [Receipt ev] s2"
    by (rule run_complete [OF c key run_end])
  with at_most_one_execution [OF b(1), unfolded key] b(1) show ?thesis by metis
qed

text \<open>C7: The verification handlers implement the execution automaton. A successful Begin, Complete or
  Interrupt makes exactly the automaton's step on its operation key, with the answer as the event,
  and leaves every other key's record alone; a successful lookup reads the automaton's state, and
  refuses as undecided only a record that is neither pending, completed nor a known interruption.\<close>

theorem verification_refines_automaton:
  "(BeginVerification E wt rt runner req descriptor s = Inr (out, s') \<longrightarrow>
      vstep (vstatus_of s (vr_OperationKey req)) (vevent_of out) (vstatus_of s' (vr_OperationKey req))
      \<and> (\<forall>k. k \<noteq> vr_OperationKey req \<longrightarrow> gget (Operations s') k = gget (Operations s) k))
   \<and> (CompleteVerification E wt rt runner req res s = Inr (ev, s') \<longrightarrow>
      vstep (vstatus_of s (vr_OperationKey req)) (Receipt ev) (vstatus_of s' (vr_OperationKey req))
      \<and> (\<forall>k. k \<noteq> vr_OperationKey req \<longrightarrow> gget (Operations s') k = gget (Operations s) k))
   \<and> (InterruptVerification E wt rt runner req descriptor reason s = Inr (v, s') \<longrightarrow>
      vstep (vstatus_of s (vr_OperationKey req)) (Interruption (vi_ResultDigest v)) (vstatus_of s' (vr_OperationKey req))
      \<and> (\<forall>k. k \<noteq> vr_OperationKey req \<longrightarrow> gget (Operations s') k = gget (Operations s) k))
   \<and> (LookupVerification E wt rt runner req descriptor s = Inr found \<longrightarrow>
      vstatus_of s (vr_OperationKey req) = (case found of VerificationAbsent \<Rightarrow> VAbsent | VerificationPending \<Rightarrow> VPending
        | VerificationCompleted x \<Rightarrow> VCompleted x | VerificationInterrupted i \<Rightarrow> VInterrupted (vi_ResultDigest i)))"
  by (intro conjI; rule impI; erule begin_step complete_step interrupt_step lookup_status)

theorem verification_refines_automaton_witness:
  "\<exists>s1. vstep (vstatus_of sample_verify_state ''k'') Reserve (vstatus_of s1 ''k'') \<and> sample_like s1"
proof -
  obtain s1 where b: "BeginVerification sample_env (sample_id 1) (sample_id 2) ''v'' sample_vr ''d'' sample_verify_state
      = Inr (Inr sample_revision, s1)" "sample_like s1"
    using sample_BeginVerification by blast
  have key: "vr_OperationKey sample_vr = ''k''" by (simp add: sample_vr_def)
  have "vevent_of (Inr sample_revision) = Reserve" by (simp add: vevent_of_def)
  with verification_refines_automaton [THEN conjunct1, rule_format, OF b(1)] b(2) show ?thesis
    unfolding key by auto
qed

text \<open>Trusted evidence has independent provenance. Evidence newly recorded as a trusted run was issued by
  an authenticated owner-enrolled root session other than the worker, under a grant to that session,
  unrevoked and unexpired, for this task, repository, check and command; it is about the latest
  revision of the attempt, published under the worker's current lease and fence, and the run was clean
  and on exactly the revision's commit and tree, which the checkout still showed afterwards. A
  worker's own submission is always recorded as self-reported, without grant or command.\<close>

theorem evidence_provenance:
  "(CompleteVerification E wt rt runner req res s = Inr (ev, s') \<longrightarrow> vstatus_of s (vr_OperationKey req) = VPending \<longrightarrow>
      ev_Provenance ev = ''trusted-local-runner'' \<and> ev_IssuerSession ev = runner
      \<and> gget (Evidence s') (ev_ID ev) = Some ev
      \<and> (\<exists>r g a. authenticate E s rt runner (e_now E 2) = Inr r \<and> se_Parent r = '''' \<and> se_ID r \<noteq> vr_WorkerSession req
           \<and> gget (Grants s) (vr_GrantID req) = Some g \<and> \<not> vg_Revoked g \<and> e_now E 3 < vg_ExpiresAt g
           \<and> vg_RunnerSession g = se_ID r \<and> vg_TaskID g = ar_TaskID (at_Request a)
           \<and> vg_Repository g = ob_Repository (at_Observation a) \<and> ev_CheckID ev = vg_CheckID g
           \<and> ev_CommandDigest ev = vg_CommandDigest g \<and> vs_CommandDigest res = vg_CommandDigest g
           \<and> workerAuth E s wt req 0 = Inr a
           \<and> ev_Revision ev = last (gslice (Revisions s) (at_ID a)) \<and> rv_Fence (ev_Revision ev) = vr_ExpectedFence req
           \<and> rv_LeaseID (ev_Revision ev) = vr_LeaseID req
           \<and> vs_Clean res \<and> vs_Commit res = ob_Commit (rv_Observation (ev_Revision ev))
           \<and> vs_Tree res = ob_Tree (rv_Observation (ev_Revision ev))
           \<and> (\<exists>obs. Observe E 0 (e_now E 4) (ob_Locator (at_Observation a)) = Inr obs
                \<and> ob_Commit obs = vs_Commit res \<and> ob_Tree obs = vs_Tree res)))
   \<and> (SubmitEvidence E token sess sreq s = Inr (ev, s') \<longrightarrow> gget (Operations s) (eq_OperationKey sreq) = None \<longrightarrow>
      ev_Provenance ev = ''self-reported'' \<and> ev_GrantID ev = '''' \<and> ev_CommandDigest ev = '''' \<and> ev_IssuerSession ev = sess)"
proof (intro conjI; intro impI)
  assume c: "CompleteVerification E wt rt runner req res s = Inr (ev, s')"
    and pend: "vstatus_of s (vr_OperationKey req) = VPending"
  from c show "ev_Provenance ev = ''trusted-local-runner'' \<and> ev_IssuerSession ev = runner
      \<and> gget (Evidence s') (ev_ID ev) = Some ev
      \<and> (\<exists>r g a. authenticate E s rt runner (e_now E 2) = Inr r \<and> se_Parent r = '''' \<and> se_ID r \<noteq> vr_WorkerSession req
           \<and> gget (Grants s) (vr_GrantID req) = Some g \<and> \<not> vg_Revoked g \<and> e_now E 3 < vg_ExpiresAt g
           \<and> vg_RunnerSession g = se_ID r \<and> vg_TaskID g = ar_TaskID (at_Request a)
           \<and> vg_Repository g = ob_Repository (at_Observation a) \<and> ev_CheckID ev = vg_CheckID g
           \<and> ev_CommandDigest ev = vg_CommandDigest g \<and> vs_CommandDigest res = vg_CommandDigest g
           \<and> workerAuth E s wt req 0 = Inr a
           \<and> ev_Revision ev = last (gslice (Revisions s) (at_ID a)) \<and> rv_Fence (ev_Revision ev) = vr_ExpectedFence req
           \<and> rv_LeaseID (ev_Revision ev) = vr_LeaseID req
           \<and> vs_Clean res \<and> vs_Commit res = ob_Commit (rv_Observation (ev_Revision ev))
           \<and> vs_Tree res = ob_Tree (rv_Observation (ev_Revision ev))
           \<and> (\<exists>obs. Observe E 0 (e_now E 4) (ob_Locator (at_Observation a)) = Inr obs
                \<and> ob_Commit obs = vs_Commit res \<and> ob_Tree obs = vs_Tree res))"
  proof (cases rule: CompleteVerification_Inr)
    case (served p)
    with pend show ?thesis by (simp add: vstatus_of_def)
  next
    case (completed a g v p q)
    from completed(5) obtain r where r: "authenticate E s rt runner (e_now E 2) = Inr r"
        "gget (Grants s) (vr_GrantID req) = Some g" "se_Parent r = ''''" "\<not> vg_Revoked g" "e_now E 3 < vg_ExpiresAt g"
        "vg_RunnerSession g = se_ID r" "se_ID r \<noteq> vr_WorkerSession req" "vg_TaskID g = ar_TaskID (at_Request a)"
        "vg_Repository g = ob_Repository (at_Observation a)" "vg_CommandDigest g = vs_CommandDigest res"
      by (auto simp: runnerAuth_Inr numeral_eq_Suc)
    have v: "v = last (gslice (Revisions s) (at_ID a))" "rv_Fence v = vr_ExpectedFence req" "rv_LeaseID v = vr_LeaseID req"
      using completed(6) unfolding currentRevision_Inr by blast+
    from completed(7) obtain obs where "Observe E 0 (e_now E 4) (ob_Locator (at_Observation a)) = Inr obs"
        "ob_Commit obs = ob_Commit (rv_Observation v)" "ob_Tree obs = ob_Tree (rv_Observation v)"
      by (auto simp: observeRevision_Inr)
    with r v completed show ?thesis by (intro conjI exI [of _ r] exI [of _ g] exI [of _ a]) simp_all
  qed
next
  assume "SubmitEvidence E token sess sreq s = Inr (ev, s')" "gget (Operations s) (eq_OperationKey sreq) = None"
  then show "ev_Provenance ev = ''self-reported'' \<and> ev_GrantID ev = '''' \<and> ev_CommandDigest ev = '''' \<and> ev_IssuerSession ev = sess"
    by (clarsimp simp: SubmitEvidence_def Let_def)
qed

theorem evidence_provenance_witness:
  "\<exists>s1 s2 ev. vstatus_of s1 ''k'' = VPending \<and> ev_Provenance ev = ''trusted-local-runner''
     \<and> CompleteVerification sample_env (sample_id 1) (sample_id 2) ''v'' sample_vr sample_result s1 = Inr (ev, s2)"
proof -
  obtain s1 p where b: "sample_like s1" "gget (Operations s1) ''k'' = Some p" "op_Pending p" "op_Evidence p = None"
      "op_Digest p = identity sample_env (''run:d'') ''v'' (jv_verification sample_vr)" "vstatus_of s1 ''k'' = VPending"
    using sample_BeginVerification by blast
  obtain ev s2 where c: "CompleteVerification sample_env (sample_id 1) (sample_id 2) ''v'' sample_vr sample_result s1 = Inr (ev, s2)"
    using sample_CompleteVerification [OF b(1-5)] by blast
  have key: "vr_OperationKey sample_vr = ''k''" by (simp add: sample_vr_def)
  have "ev_Provenance ev = ''trusted-local-runner''"
    using evidence_provenance [THEN conjunct1, rule_format, OF c] b(6) unfolding key by blast
  with b(6) c show ?thesis by blast
qed

text \<open>Published revisions form an append-only, consecutively numbered history. Publishing keeps every
  history numbered from 1, extends only the attempt's own history and only at the length the worker
  expected, under a lease of the same attempt that is current under the presented fence after the
  observation, and records the clean checkout then observed; repeating the request is answered with
  the recorded revision.\<close>

theorem publish_sound:
  assumes "PublishAttemptRevision E token sess req s = Inr (v, s')" "revisions_inv s"
  shows "revisions_inv s'
     \<and> (\<forall>w t. PublishAttemptRevision E' token sess req s' = Inr (w, t) \<longrightarrow> w = v \<and> t = s')
     \<and> (\<forall>k. prefix (gslice (Revisions s) k) (gslice (Revisions s') k))
     \<and> (gget (Operations s) (pq_OperationKey req) = None \<longrightarrow> (\<exists>a l.
          gslice (Revisions s') (at_ID a) = gslice (Revisions s) (at_ID a) @ [v]
          \<and> of_nat (length (gslice (Revisions s) (at_ID a))) = pq_ExpectedRevision req
          \<and> Observe E 0 (e_now E 3) (ob_Locator (at_Observation a)) = Inr (rv_Observation v)
          \<and> sameCheckout a (rv_Observation v)
          \<and> gget (Leases s) (rv_LeaseID v) = Some l \<and> l_Fence l = rv_Fence v \<and> l_AttemptID l = pq_AttemptID req
          \<and> currentLease s l (e_now E 5) \<and> l_SessionID l = sess \<and> rv_SessionID v = sess))"
proof -
  have replays: "\<forall>w t. PublishAttemptRevision E' token sess req s' = Inr (w, t) \<longrightarrow> w = v \<and> t = s'"
    using publish_key.once [of E "(token, sess, req)" s v s' s' E'] assms(1) by simp
  show ?thesis
    using assms(1)
  proof (cases rule: PublishAttemptRevision_Inr)
    case (served p)
    with assms(2) replays show ?thesis by simp
  next
    case (published a i obs p)
    from published(2) obtain r l where l: "gget (Leases s) (pq_LeaseID req) = Some l" "l_AttemptID l = pq_AttemptID req"
        "l_SessionID l = sess" "l_Fence l = pq_ExpectedFence req" "currentLease s l (e_now E 5)"
      by (auto simp: activeAttempt_Inr numeral_eq_Suc)
    show ?thesis
      using publish_revisions_inv [OF assms] replays published l
      by (intro conjI impI allI exI [of _ a] exI [of _ l]) simp_all
  qed
qed

lemma sample_PublishAttemptRevision:
  "\<exists>v s'. PublishAttemptRevision sample_env (sample_id 1) ''r'' \<lparr>pq_OperationKey = ''k'', pq_AttemptID = ''a'', pq_LeaseID = ''l'',
      pq_ExpectedFence = 1, pq_ExpectedRevision = 1\<rparr> sample_verify_state = Inr (v, s')"
proof -
  have auth: "leaseAuth sample_env sample_verify_state (sample_id 1) ''r'' ''a'' ''attempt.publish'' 10 = Inr (sample_worker, sample_attempt)"
    unfolding leaseAuth_Inr
    by (simp add: sample_not_withdrawn attemptFor_def gvals_def authenticate_Inr walk_ok_iff gget_def lineage_walk.simps
        sample_worker_def sample_attempt_def sample_env_def)
  have active: "activeAttempt sample_env sample_verify_state (sample_id 1) ''r'' ''a'' ''l'' 1 ''attempt.publish'' k
      = Inr sample_attempt" for k
    using auth sample_not_withdrawn [of sample_verify_state]
    by (simp add: activeAttempt_def gget_def sample_lease_def currentLease_def currentLeaseExcept_def
        workerTaskWithdrawn_def fetch_def)
  have a: "at_ID sample_attempt = ''a''" "ob_Locator (at_Observation sample_attempt) = ''/w''" "sameCheckout sample_attempt sample_obs"
    by (simp_all add: sample_attempt_def sample_obs_def sameCheckout_def)
  have m: "mint sample_env 0 = Inr (sample_id 0)" by (simp add: mint_def sample_env_def)
  show ?thesis
    by (simp add: PublishAttemptRevision_def auth active a m Let_def sample_Observe gslice_def gget_def del: One_nat_def)
qed

theorem publish_sound_witness:
  "\<exists>v s'. revisions_inv s' \<and> prefix [sample_revision] (gslice (Revisions s') ''a'')
     \<and> gslice (Revisions s') ''a'' = [sample_revision, v]"
proof -
  have inv: "revisions_inv sample_verify_state"
    by (simp add: revisions_inv_def gslice_def gget_def sample_revision_def Let_def)
  obtain v s' where p: "PublishAttemptRevision sample_env (sample_id 1) ''r'' \<lparr>pq_OperationKey = ''k'', pq_AttemptID = ''a'',
      pq_LeaseID = ''l'', pq_ExpectedFence = 1, pq_ExpectedRevision = 1\<rparr> sample_verify_state = Inr (v, s')"
    using sample_PublishAttemptRevision by blast
  note ps = publish_sound [OF p inv, of sample_env]
  have r: "revisions_inv s'" "\<forall>k. prefix (gslice (Revisions sample_verify_state) k) (gslice (Revisions s') k)"
    using ps by blast+
  from ps obtain a :: attempt where a: "gslice (Revisions s') (at_ID a) = gslice (Revisions sample_verify_state) (at_ID a) @ [v]"
      "(of_nat (length (gslice (Revisions sample_verify_state) (at_ID a))) :: 64 word) = 1"
    by simp blast
  then have "at_ID a = ''a''" by (auto simp: gslice_def gget_def split: if_splits)
  with a have "gslice (Revisions s') ''a'' = [sample_revision, v]" by (simp add: gslice_def gget_def)
  moreover from this have "prefix [sample_revision] (gslice (Revisions s') ''a'')" by simp
  ultimately show ?thesis using r(1) by blast
qed

text \<open>Eligibility is only ever answered yes for a current trusted success. The evidence is a trusted run
  with exit code 0 about the attempt's latest revision; its grant and its root issuer are unrevoked,
  unexpired and match it; the asking worker's lease is current under the revision's fence; and the
  checkout still shows the revision's commit and tree. Revoking the grant, the runner, the worker's
  lease or publishing again makes it ineligible.\<close>

theorem eligible_sound:
  assumes "EligibleVerification E token sess i s = Inr True"
  shows "\<exists>ev a g r. gget (Evidence s) i = Some ev \<and> ev_Provenance ev = ''trusted-local-runner'' \<and> ev_ExitCode ev = 0
     \<and> activeAttempt E s token sess (rv_AttemptID (ev_Revision ev)) (rv_LeaseID (ev_Revision ev))
         (rv_Fence (ev_Revision ev)) ''verification.request'' 5 = Inr a
     \<and> rv_ID (ev_Revision ev) = rv_ID (last (gslice (Revisions s) (at_ID a)))
     \<and> gget (Grants s) (ev_GrantID ev) = Some g \<and> \<not> vg_Revoked g \<and> e_now E 7 < vg_ExpiresAt g
     \<and> vg_CheckID g = ev_CheckID ev \<and> vg_CommandDigest g = ev_CommandDigest ev \<and> vg_TaskID g = ar_TaskID (at_Request a)
     \<and> gget (Sessions s) (ev_IssuerSession ev) = Some r \<and> se_Parent r = '''' \<and> usable (e_now E 8) r
     \<and> vg_RunnerSession g = se_ID r
     \<and> (\<exists>obs. Observe E 0 (e_now E 4) (ob_Locator (at_Observation a)) = Inr obs
          \<and> ob_Commit obs = ob_Commit (rv_Observation (ev_Revision ev))
          \<and> ob_Tree obs = ob_Tree (rv_Observation (ev_Revision ev)))"
proof -
  from assms obtain ev a where ev: "gget (Evidence s) i = Some ev" "ev_Provenance ev = ''trusted-local-runner''" "ev_ExitCode ev = 0"
    and a: "activeAttempt E s token sess (rv_AttemptID (ev_Revision ev)) (rv_LeaseID (ev_Revision ev))
         (rv_Fence (ev_Revision ev)) ''verification.request'' 0 = Inr a"
    by (auto simp: EligibleVerification_def Let_def split: if_splits)
  from assms ev a obtain v where v: "currentRevision s a (rv_ID (ev_Revision ev)) (rv_LeaseID (ev_Revision ev)) (rv_Fence (ev_Revision ev)) = Inr v"
    by (cases "currentRevision s a (rv_ID (ev_Revision ev)) (rv_LeaseID (ev_Revision ev)) (rv_Fence (ev_Revision ev))")
       (auto simp: EligibleVerification_def Let_def)
  from assms ev a v obtain g r where gr: "gget (Grants s) (ev_GrantID ev) = Some g" "gget (Sessions s) (ev_IssuerSession ev) = Some r"
    by (auto simp: EligibleVerification_def Let_def split: option.splits)
  from assms ev a v gr obtain u where o: "observeRevision E 0 (e_now E 4) a (ev_Revision ev) = Inr u"
    by (cases "observeRevision E 0 (e_now E 4) a (ev_Revision ev)") (auto simp: EligibleVerification_def Let_def split: if_splits)
  from assms ev a v gr o obtain b where rest: "activeAttempt E s token sess (rv_AttemptID (ev_Revision ev)) (rv_LeaseID (ev_Revision ev))
         (rv_Fence (ev_Revision ev)) ''verification.request'' 5 = Inr b" "e_now E 7 < vg_ExpiresAt g" "e_now E 8 < se_ExpiresAt r"
      "\<not> vg_Revoked g" "\<not> se_Revoked r" "se_Parent r = ''''" "vg_RunnerSession g = se_ID r" "vg_TaskID g = ar_TaskID (at_Request a)"
      "vg_CheckID g = ev_CheckID ev" "vg_CommandDigest g = ev_CommandDigest ev"
    by (auto simp: EligibleVerification_def Let_def split: if_splits)
  have "b = a" using a rest(1) by (auto simp: activeAttempt_Inr leaseAuth_Inr)
  with ev v gr o rest show ?thesis
    by (intro exI [of _ ev] exI [of _ a] exI [of _ g] exI [of _ r])
       (auto simp: currentRevision_Inr observeRevision_Inr usable_def)
qed

definition sample_evidence :: evidence where
  "sample_evidence = \<lparr>ev_ID = ''e'', ev_IssuerSession = ''v'', ev_Provenance = ''trusted-local-runner'', ev_GrantID = ''g'',
     ev_Revision = sample_revision, ev_CheckID = ''k'', ev_CommandDigest = ''d'', ev_OutputDigest = ''sha256:ok'',
     ev_ExitCode = 0, ev_RecordedAt = 9\<rparr>"

lemma sample_EligibleVerification:
  "EligibleVerification sample_env (sample_id 1) ''r'' ''e'' (sample_verify_state\<lparr>Evidence := [(''e'', sample_evidence)]\<rparr>)
     = Inr True"
proof -
  let ?s = "sample_verify_state\<lparr>Evidence := [(''e'', sample_evidence)]\<rparr>"
  have like: "sample_like ?s" by (simp add: sample_like_def)
  have worker: "activeAttempt sample_env ?s (sample_id 1) ''r'' ''a'' ''l'' 1 ''verification.request'' k = Inr sample_attempt" for k
    using sample_workerAuth [OF like, of k] by (simp add: workerAuth_def sample_vr_def)
  have e: "rv_AttemptID (ev_Revision sample_evidence) = ''a''" "rv_LeaseID (ev_Revision sample_evidence) = ''l''"
      "rv_Fence (ev_Revision sample_evidence) = 1" "rv_ID (ev_Revision sample_evidence) = ''n''"
      "ev_Provenance sample_evidence = ''trusted-local-runner''" "ev_ExitCode sample_evidence = 0"
      "ev_Revision sample_evidence = sample_revision" "ev_GrantID sample_evidence = ''g''" "ev_IssuerSession sample_evidence = ''v''"
    by (simp_all add: sample_evidence_def sample_revision_def)
  have g: "gget (Grants ?s) ''g'' = Some sample_grant" "gget (Sessions ?s) ''v'' = Some sample_runner"
      "gget (Evidence ?s) ''e'' = Some sample_evidence" by (simp_all add: gget_def)
  have fits: "\<not> (vg_Revoked sample_grant \<or> se_Revoked sample_runner \<or> se_Parent sample_runner \<noteq> '''' \<or> vg_RunnerSession sample_grant \<noteq> se_ID sample_runner
             \<or> vg_TaskID sample_grant \<noteq> ar_TaskID (at_Request sample_attempt) \<or> vg_Repository sample_grant \<noteq> ob_Repository (at_Observation sample_attempt)
             \<or> vg_CheckID sample_grant \<noteq> ev_CheckID sample_evidence \<or> vg_CommandDigest sample_grant \<noteq> ev_CommandDigest sample_evidence
             \<or> \<not> subset [''verification.run''] (sc_Actions (se_Scope sample_runner))
             \<or> \<not> subset [''task:'' @ vg_TaskID sample_grant] (sc_Resources (se_Scope sample_runner))
             \<or> \<not> 10 < vg_ExpiresAt sample_grant \<or> \<not> 10 < se_ExpiresAt sample_runner)"
    by (simp add: sample_grant_def sample_runner_def sample_attempt_def sample_evidence_def)
  have late: "10 < vg_ExpiresAt sample_grant" "10 < se_ExpiresAt sample_runner"
    by (simp_all add: sample_grant_def sample_runner_def)
  have r: "rv_AttemptID sample_revision = ''a''" "rv_LeaseID sample_revision = ''l''" "rv_Fence sample_revision = 1"
      "rv_ID sample_revision = ''n''" by (simp_all add: sample_revision_def)
  show ?thesis
    unfolding EligibleVerification_def fetch_def g option.case Let_def e r worker bindr_simps sample_currentRevision [OF like]
      sum.case prod.case sample_env_now
    using fits late by (simp add: sample_observeRevision)
qed

theorem eligible_sound_witness:
  "\<exists>a :: attempt. rv_ID sample_revision = rv_ID (last (gslice (Revisions sample_verify_state) (at_ID a)))"
proof -
  have "gget (Evidence (sample_verify_state\<lparr>Evidence := [(''e'', sample_evidence)]\<rparr>)) ''e'' = Some sample_evidence"
    by (simp add: gget_def)
  with eligible_sound [OF sample_EligibleVerification]
  obtain a :: attempt where "rv_ID (ev_Revision sample_evidence) = rv_ID (last (gslice (Revisions sample_verify_state) (at_ID a)))"
    by auto
  then show ?thesis by (auto simp: sample_evidence_def)
qed

end
