(* ===== verification/Review_Kernel.thy ===== *)
theory Review_Kernel
  imports Evidence_Kernel
begin

text \<open>
  Independent review (\<^verbatim>\<open>native_review.go\<close>): the owner grants a review-only session outside the
  worker's family the right to review a task under the checklist observed at that moment; a proposal
  and its later evaluation re-establish everything from the stored records. The checklist observer
  is the application's and may answer differently every time.
\<close>

section \<open>Requests and reasons\<close>

record review_grant_request =
  gr_ReviewerSession :: string
  gr_WorkerSession :: string
  gr_TaskID :: string
  gr_Repository :: string
  gr_ExpiresAt :: int

datatype review_reason = ReviewEligible | ReviewChangesRequested | ReviewAuthorityInvalid | ReviewWorkerInvalid
  | ReviewRevisionStale | ReviewPolicyChanged | ReviewEvidenceInvalid

record review_eligibility =
  re_Eligible :: bool
  re_Reason :: review_reason
  re_Assurance :: string

definition jv_review :: "review_request \<Rightarrow> jval" where
  "jv_review r = JO [(''OperationKey'', JS (rr_OperationKey r)), (''GrantID'', JS (rr_GrantID r)),
     (''AttemptID'', JS (rr_AttemptID r)), (''LeaseID'', JS (rr_LeaseID r)), (''RevisionID'', JS (rr_RevisionID r)),
     (''ExpectedFence'', JW (rr_ExpectedFence r)), (''Outcome'', JS (rr_Outcome r)), (''Rationale'', JS (rr_Rationale r)),
     (''EvidenceIDs'', JL (map JS (rr_EvidenceIDs r)))]"

section \<open>The checklist observation\<close>

definition reviewObservation :: "review_observation \<Rightarrow> review_observation res" where
  "reviewObservation o' =
     require (validDigest (ro_ChecklistDigest o') \<and> validID (ro_PolicyRevision o')
        \<and> ro_Checks o' \<noteq> [] \<and> length (ro_Checks o') \<le> 32) ErrDenied (
     let checks = sort_key rc_ID (ro_Checks o') in
     require (list_all (\<lambda>c. validID (rc_ID c) \<and> length (rc_CommandDigest c) = 64
          \<and> validDigest (''sha256:'' @ rc_CommandDigest c)) checks
        \<and> distinct_adj (map rc_ID checks)) ErrDenied (
     Inr (o'\<lparr>ro_Checks := checks\<rparr>)))"

text \<open>\<open>i\<close> numbers the calls of the observer within an operation.\<close>

definition observeReview :: "env \<Rightarrow> authority \<Rightarrow> nat \<Rightarrow> task_binding \<Rightarrow> review_observation res" where
  "observeReview E au i b =
     bindr (from_option (e_observeReview E) ErrDenied) (\<lambda>observer.
     bindr (from_option (observer i (b_Workspace (a_binding au)) (tb_ProjectID b) (tb_TaskID b)) ErrDenied)
       reviewObservation)"

section \<open>Independence\<close>

definition reviewOnly :: "srecord \<Rightarrow> string \<Rightarrow> bool" where
  "reviewOnly r task \<longleftrightarrow> subset [''review.propose'', ''review.evaluate''] (sc_Actions (se_Scope r))
     \<and> subset [''task:'' @ task] (sc_Resources (se_Scope r))
     \<and> list_all (\<lambda>x. x = ''review.propose'' \<or> x = ''review.evaluate'' \<or> x = ''read'') (sc_Actions (se_Scope r))"

text \<open>The inner loop of \<^verbatim>\<open>reviewIndependence\<close>: is \<open>root\<close> the session or an ancestor of it, whatever has
  expired or been revoked?\<close>

function family_hit :: "srecord gmap \<Rightarrow> string \<Rightarrow> string list \<Rightarrow> srecord \<Rightarrow> bool" where
  "family_hit sessions root seen cur =
     (if se_ID cur \<in> set seen then False
      else if se_ID cur = root then True
      else if se_Parent cur = '''' then False
      else (case gget sessions (se_Parent cur) of
              None \<Rightarrow> False
            | Some p \<Rightarrow> family_hit sessions root (se_ID cur # seen) p))"
  by pat_completeness auto
termination
  by (relation "measure (\<lambda>(sessions, root, seen, cur). walk_measure sessions seen cur)")
     (auto intro: walk_measure_decreases)

declare family_hit.simps [simp del]

definition reviewIndependence :: "state \<Rightarrow> string \<Rightarrow> string \<Rightarrow> string \<Rightarrow> int \<Rightarrow> string res" where
  "reviewIndependence s reviewer worker task now =
     bindr (rootSession s reviewer now) (\<lambda>(r, root).
     bindr (denied (rootSession s worker now)) (\<lambda>(_, workerRoot).
     require (se_Parent r = '''' \<and> root \<noteq> workerRoot \<and> reviewOnly r task) ErrDenied (
     require (\<not> list_ex (\<lambda>a. ar_TaskID (at_Request a) = task
          \<and> (case gget (Sessions s) (at_SessionID a) of None \<Rightarrow> False
             | Some cur \<Rightarrow> family_hit (Sessions s) root [] cur)) (gvals (Attempts s))) ErrDenied (
     Inr workerRoot))))"

section \<open>Review grants\<close>

definition GrantReview ::
    "env \<Rightarrow> authority \<Rightarrow> string \<Rightarrow> review_grant_request \<Rightarrow> state \<Rightarrow> (review_grant \<times> state) res" where
  "GrantReview E au owner' req s =
     require (owner_ok E s owner') ErrDenied (
     fetch (Tasks s) (gr_TaskID req) (\<lambda>b.
     require (tb_Repository b = gr_Repository req) ErrDenied (
     bindr (reviewIndependence s (gr_ReviewerSession req) (gr_WorkerSession req) (gr_TaskID req) (e_now E 0)) (\<lambda>root.
     bindr (observeReview E au 0 b) (\<lambda>o'.
     bindr (reviewIndependence s (gr_ReviewerSession req) (gr_WorkerSession req) (gr_TaskID req) (e_now E 1)) (\<lambda>_.
     fetch (Sessions s) (gr_ReviewerSession req) (\<lambda>r.
     require (e_now E 2 < gr_ExpiresAt req \<and> gr_ExpiresAt req \<le> se_ExpiresAt r) ErrDenied (
     bindr (mint E 0) (\<lambda>i.
     let result = \<lparr>rg_ID = i, rg_ReviewerSession = gr_ReviewerSession req, rg_WorkerRoot = root,
           rg_TaskID = gr_TaskID req, rg_Repository = gr_Repository req, rg_Observation = o',
           rg_ExpiresAt = gr_ExpiresAt req, rg_Revoked = False\<rparr> in
     Inr (result, s\<lparr>ReviewGrants := gput i result (ReviewGrants s)\<rparr>))))))))))"

definition RevokeReview :: "env \<Rightarrow> string \<Rightarrow> string \<Rightarrow> state \<Rightarrow> (unit \<times> state) res" where
  "RevokeReview E owner' i s =
     require (owner_ok E s owner') ErrDenied (
     fetch (ReviewGrants s) i (\<lambda>g.
     Inr ((), s\<lparr>ReviewGrants := gput i (g\<lparr>rg_Revoked := True\<rparr>) (ReviewGrants s)\<rparr>)))"

section \<open>Current authority of a review\<close>

definition reviewAttempt :: "state \<Rightarrow> string \<Rightarrow> attempt res" where
  "reviewAttempt s i = from_option (find (\<lambda>a. at_ID a = i) (gvals (Attempts s))) ErrDenied"

definition reviewWorkerExcept ::
    "env \<Rightarrow> state \<Rightarrow> attempt \<Rightarrow> review_request \<Rightarrow> string \<Rightarrow> nat \<Rightarrow> unit res" where
  "reviewWorkerExcept E s a req closing k =
     bindr (rootSession s (at_SessionID a) (e_now E k)) (\<lambda>(r, _).
     fetch (Tasks s) (ar_TaskID (at_Request a)) (\<lambda>b.
     fetch (Leases s) (rr_LeaseID req) (\<lambda>l.
     require (tb_Repository b = ob_Repository (at_Observation a) \<and> tb_ProjectID b = at_ProjectID a
        \<and> tb_AdmissionEnabled b \<and> subset [''verification.request''] (sc_Actions (se_Scope r))
        \<and> subset [''task:'' @ ar_TaskID (at_Request a)] (sc_Resources (se_Scope r))
        \<and> l_AttemptID l = at_ID a \<and> l_SessionID l = at_SessionID a \<and> l_Fence l = rr_ExpectedFence req
        \<and> currentLeaseExcept s l (e_now E (Suc k)) closing) ErrDenied (Inr ()))))"

definition reviewWorker :: "env \<Rightarrow> state \<Rightarrow> attempt \<Rightarrow> review_request \<Rightarrow> nat \<Rightarrow> unit res" where
  "reviewWorker E s a req k = reviewWorkerExcept E s a req '''' k"

definition reviewGrantCurrent :: "env \<Rightarrow> state \<Rightarrow> string \<Rightarrow> attempt \<Rightarrow> review_grant \<Rightarrow> nat \<Rightarrow> bool" where
  "reviewGrantCurrent E s sess a g k \<longleftrightarrow>
     (case reviewIndependence s sess (at_SessionID a) (ar_TaskID (at_Request a)) (e_now E k) of
        Inl _ \<Rightarrow> False
      | Inr root \<Rightarrow> \<not> rg_Revoked g \<and> e_now E (Suc k) < rg_ExpiresAt g \<and> rg_ReviewerSession g = sess
          \<and> rg_WorkerRoot g = root \<and> rg_TaskID g = ar_TaskID (at_Request a)
          \<and> rg_Repository g = ob_Repository (at_Observation a))"

definition evidence_accepted :: "env \<Rightarrow> state \<Rightarrow> attempt \<Rightarrow> attempt_revision \<Rightarrow> nat \<Rightarrow> evidence \<Rightarrow> bool" where
  "evidence_accepted E s a v k ev \<longleftrightarrow>
     ev_Provenance ev = ''trusted-local-runner'' \<and> ev_ExitCode ev = 0 \<and> ev_Revision ev = v
     \<and> validDigest (ev_OutputDigest ev)
     \<and> (case (gget (Grants s) (ev_GrantID ev), rootSession s (ev_IssuerSession ev) (e_now E k),
              rootSession s (at_SessionID a) (e_now E (k + 1))) of
          (Some g, Inr (r, root), Inr (_, workerRoot)) \<Rightarrow>
            root \<noteq> workerRoot \<and> se_Parent r = '''' \<and> \<not> vg_Revoked g \<and> e_now E (k + 2) < vg_ExpiresAt g
            \<and> vg_RunnerSession g = se_ID r \<and> vg_TaskID g = ar_TaskID (at_Request a)
            \<and> vg_Repository g = ob_Repository (at_Observation a) \<and> vg_CheckID g = ev_CheckID ev
            \<and> vg_CommandDigest g = ev_CommandDigest ev
            \<and> subset [''verification.run''] (sc_Actions (se_Scope r))
            \<and> subset [''task:'' @ ar_TaskID (at_Request a)] (sc_Resources (se_Scope r))
        | _ \<Rightarrow> False)"

text \<open>The loop of \<^verbatim>\<open>reviewEvidence\<close>: \<open>found\<close> lists the checks matched so far.\<close>

fun review_evidence ::
    "env \<Rightarrow> state \<Rightarrow> attempt \<Rightarrow> attempt_revision \<Rightarrow> required_check list \<Rightarrow> nat \<Rightarrow> string list \<Rightarrow> string list \<Rightarrow> bool" where
  "review_evidence E s a v checks k found [] = (length found = length checks)"
| "review_evidence E s a v checks k found (i # ids) =
     (case gget (Evidence s) i of
        None \<Rightarrow> False
      | Some ev \<Rightarrow> evidence_accepted E s a v k ev
          \<and> (case find (\<lambda>c. rc_ID c = ev_CheckID ev \<and> rc_CommandDigest c = ev_CommandDigest ev
                 \<and> rc_ID c \<notin> set found) checks of
               None \<Rightarrow> False
             | Some c \<Rightarrow> review_evidence E s a v checks (k + 3) (rc_ID c # found) ids))"

definition reviewEvidence ::
    "env \<Rightarrow> state \<Rightarrow> attempt \<Rightarrow> attempt_revision \<Rightarrow> string list \<Rightarrow> required_check list \<Rightarrow> nat \<Rightarrow> bool" where
  "reviewEvidence E s a v ids checks k \<longleftrightarrow> length ids = length checks \<and> review_evidence E s a v checks k [] ids"

definition zero_task_binding :: task_binding where
  "zero_task_binding = \<lparr>tb_TaskID = '''', tb_ProjectID = '''', tb_Repository = '''', tb_AdmissionEnabled = False\<rparr>"

text \<open>The narrowing of the checklist to the required verification set, when the observer selects one.\<close>

definition required_checks ::
    "env \<Rightarrow> state \<Rightarrow> attempt \<Rightarrow> attempt_revision \<Rightarrow> review_observation \<Rightarrow> (review_reason + review_observation)" where
  "required_checks E s a v obs =
     (case e_requiredVerification E of
        None \<Rightarrow> Inr obs
      | Some observer \<Rightarrow>
        (case observer 0 (b_Workspace (Binding s)) (at_ProjectID a) (ar_TaskID (at_Request a)) v of
           Inl _ \<Rightarrow> Inl ReviewPolicyChanged
         | Inr None \<Rightarrow> Inr obs
         | Inr (Some rq) \<Rightarrow>
             if rq_RevisionID rq \<noteq> rv_ID v \<or> rq_RevisionCommit rq \<noteq> ob_Commit (rv_Observation v)
                \<or> rq_RevisionTree rq \<noteq> ob_Tree (rv_Observation v) \<or> rq_PlanDigest rq = '''' \<or> rq_Checks rq = []
                \<or> \<not> list_all (\<lambda>selected. list_ex (\<lambda>allowed. selected = allowed) (ro_Checks obs)) (rq_Checks rq)
             then Inl ReviewPolicyChanged
             else Inr (obs\<lparr>ro_RequiredSet := Some rq, ro_Checks := rq_Checks rq\<rparr>)))"

definition reviewCurrentExcept ::
    "env \<Rightarrow> authority \<Rightarrow> state \<Rightarrow> string \<Rightarrow> review_request \<Rightarrow> string \<Rightarrow> nat
       \<Rightarrow> (review_reason + attempt_revision \<times> review_observation)" where
  "reviewCurrentExcept E au s sess req closing k =
     (case reviewAttempt s (rr_AttemptID req) of Inl _ \<Rightarrow> Inl ReviewWorkerInvalid | Inr a \<Rightarrow>
     (case gget (ReviewGrants s) (rr_GrantID req) of None \<Rightarrow> Inl ReviewAuthorityInvalid | Some g \<Rightarrow>
     if \<not> reviewGrantCurrent E s sess a g k then Inl ReviewAuthorityInvalid else
     (case reviewWorkerExcept E s a req closing (k + 2) of Inl _ \<Rightarrow> Inl ReviewWorkerInvalid | Inr _ \<Rightarrow>
     (case currentRevisionExcept s a (rr_RevisionID req) (rr_LeaseID req) (rr_ExpectedFence req) closing of
        Inl _ \<Rightarrow> Inl ReviewRevisionStale | Inr v \<Rightarrow>
     (case observeReview E au 0 (case gget (Tasks s) (ar_TaskID (at_Request a)) of
             None \<Rightarrow> zero_task_binding | Some b \<Rightarrow> b) of
        Inl _ \<Rightarrow> Inl ReviewPolicyChanged | Inr obs \<Rightarrow>
     if obs\<lparr>ro_RequiredSet := None\<rparr> \<noteq> rg_Observation g then Inl ReviewPolicyChanged else
     (case observeRevision E 0 (e_now E (k + 4)) a v of Inl _ \<Rightarrow> Inl ReviewRevisionStale | Inr _ \<Rightarrow>
     (case required_checks E s a v obs of Inl why \<Rightarrow> Inl why | Inr selected \<Rightarrow>
     if \<not> reviewEvidence E s a v (rr_EvidenceIDs req) (ro_Checks selected) (k + 5) then Inl ReviewEvidenceInvalid else
     let m = k + 5 + 3 * length (rr_EvidenceIDs req) in
     if \<not> reviewGrantCurrent E s sess a g m then Inl ReviewAuthorityInvalid else
     (case reviewWorkerExcept E s a req closing (m + 2) of Inl _ \<Rightarrow> Inl ReviewWorkerInvalid | Inr _ \<Rightarrow>
     Inr (v, selected)))))))))"

definition reviewCurrent ::
    "env \<Rightarrow> authority \<Rightarrow> state \<Rightarrow> string \<Rightarrow> review_request \<Rightarrow> nat
       \<Rightarrow> (review_reason + attempt_revision \<times> review_observation)" where
  "reviewCurrent E au s sess req k = reviewCurrentExcept E au s sess req '''' k"

section \<open>Proposing and evaluating\<close>

definition ProposeReview ::
    "env \<Rightarrow> authority \<Rightarrow> string \<Rightarrow> string \<Rightarrow> review_request \<Rightarrow> state \<Rightarrow> (review \<times> state) res" where
  "ProposeReview E au token sess req0 s =
     bindr (authenticate E s token sess (e_now E 0)) (\<lambda>r.
     require (validID (rr_OperationKey req0) \<and> (rr_Outcome req0 = ''approve'' \<or> rr_Outcome req0 = ''request-changes'')
        \<and> length (rr_Rationale req0) \<le> 4096 \<and> valid_utf8 (rr_Rationale req0)
        \<and> rr_EvidenceIDs req0 \<noteq> [] \<and> length (rr_EvidenceIDs req0) \<le> 32) ErrDenied (
     let req = req0\<lparr>rr_EvidenceIDs := sort (rr_EvidenceIDs req0)\<rparr> in
     require (list_all validID (rr_EvidenceIDs req) \<and> distinct_adj (rr_EvidenceIDs req)) ErrDenied (
     bindr (denied (reviewAttempt s (rr_AttemptID req))) (\<lambda>a.
     require (reviewOnly r (ar_TaskID (at_Request a))) ErrDenied (
     let digest = identity E ''review'' sess (jv_review req) in
     (case gget (Operations s) (rr_OperationKey req) of
        Some p \<Rightarrow> require (op_Digest p = digest) ErrDenied (
                  bindr (from_option (op_Review p) ErrDenied) (\<lambda>w. Inr (w, s)))
      | None \<Rightarrow>
     (case reviewCurrent E au s sess req 1 of
        Inl _ \<Rightarrow> Inl ErrDenied
      | Inr (v, obs) \<Rightarrow>
     bindr (mint E 0) (\<lambda>i.
     let result = \<lparr>rw_ID = i, rw_IssuerSession = sess, rw_Request = req, rw_Revision = v, rw_Observation = obs,
           rw_CreatedAt = e_now E (10 + 3 * length (rr_EvidenceIDs req))\<rparr> in
     Inr (result, s\<lparr>Reviews := gput i result (Reviews s),
       Operations := gput (rr_OperationKey req) ((empty_operation digest)\<lparr>op_Review := Some result\<rparr>)
         (Operations s)\<rparr>)))))))))"

definition EvaluateReview ::
    "env \<Rightarrow> authority \<Rightarrow> string \<Rightarrow> string \<Rightarrow> string \<Rightarrow> state \<Rightarrow> review_eligibility res" where
  "EvaluateReview E au token sess i s =
     (let answer = (\<lambda>ok why. Inr \<lparr>re_Eligible = ok, re_Reason = why, re_Assurance = ''cooperative-credential-separation''\<rparr>) in
     bindr (authenticate E s token sess (e_now E 0)) (\<lambda>r.
     fetch (Reviews s) i (\<lambda>p.
     require (rw_IssuerSession p = sess) ErrDenied (
     bindr (denied (reviewAttempt s (rr_AttemptID (rw_Request p)))) (\<lambda>a.
     require (reviewOnly r (ar_TaskID (at_Request a))) ErrDenied (
     (case reviewCurrent E au s sess (rw_Request p) 1 of
        Inl why \<Rightarrow> answer False why
      | Inr (v, obs) \<Rightarrow>
          if v \<noteq> rw_Revision p then answer False ReviewRevisionStale
          else if obs \<noteq> rw_Observation p then answer False ReviewPolicyChanged
          else if rr_Outcome (rw_Request p) \<noteq> ''approve'' then answer False ReviewChangesRequested
          else answer True ReviewEligible)))))))"

section \<open>Independence in terms of descent\<close>

lemma family_hit_any_ancestor:
  "keyed S \<Longrightarrow> gget S (se_ID cur) = Some cur \<Longrightarrow> gget S root \<noteq> None \<Longrightarrow>
     family_hit S root seen cur = any_ancestor S (\<lambda>i. i = root) seen (se_ID cur)"
proof (induction S root seen cur rule: family_hit.induct)
  case (1 S root seen cur)
  have ne: "se_ID cur \<noteq> ''''" using 1(2,3) unfolding keyed_def by blast
  have "family_hit S root (se_ID cur # seen) p = any_ancestor S (\<lambda>i. i = root) (se_ID cur # seen) (se_Parent cur)"
    if "se_ID cur \<notin> set seen" "se_ID cur \<noteq> root" "se_Parent cur \<noteq> ''''" "gget S (se_Parent cur) = Some p" for p
  proof -
    have "se_ID p = se_Parent cur" using that(4) 1(2) unfolding keyed_def by blast
    with 1(1) [OF that(1-4) 1(2)] that(4) 1(4) show ?thesis by simp
  qed
  with ne 1(3,4) show ?case
    by (subst family_hit.simps, subst any_ancestor.simps)
       (auto simp: any_ancestor.simps [of _ _ _ "''''"] any_ancestor.simps [of _ _ _ "se_Parent cur"]
         split: option.splits)
qed

lemma family_hit_iff:
  assumes "keyed S" "gget S i = Some cur" "gget S root \<noteq> None"
  shows "family_hit S root [] cur \<longleftrightarrow> descends S i root"
proof -
  have "se_ID cur = i" "i \<noteq> ''''" using assms unfolding keyed_def by blast+
  with family_hit_any_ancestor [of S cur root "[]"] assms show ?thesis
    by (simp add: any_ancestor_iff)
qed

lemma lineage_walk_root:
  "lineage_walk S now [] r = Inr root \<Longrightarrow> se_Parent r = '''' \<Longrightarrow> root = se_ID r"
  by (subst (asm) lineage_walk.simps) (auto split: if_splits)

lemma reviewIndependence_Inr:
  assumes "reviewIndependence s reviewer worker task now = Inr workerRoot" "keyed (Sessions s)"
  obtains r where "gget (Sessions s) reviewer = Some r" "live (Sessions s) now reviewer" "se_Parent r = ''''" "reviewOnly r task"
    "live (Sessions s) now worker" "descends (Sessions s) worker workerRoot" "reviewer \<noteq> workerRoot"
    "\<forall>a \<in> set (gvals (Attempts s)). ar_TaskID (at_Request a) = task \<longrightarrow> gget (Sessions s) (at_SessionID a) \<noteq> None \<longrightarrow>
       \<not> descends (Sessions s) (at_SessionID a) reviewer"
proof -
  from assms(1) obtain r root w where r: "gget (Sessions s) reviewer = Some r" "lineage_walk (Sessions s) now [] r = Inr root"
      "gget (Sessions s) worker = Some w" "lineage_walk (Sessions s) now [] w = Inr workerRoot"
      "se_Parent r = ''''" "root \<noteq> workerRoot" "reviewOnly r task"
    and free: "\<forall>a \<in> set (gvals (Attempts s)). \<not> (ar_TaskID (at_Request a) = task
          \<and> (case gget (Sessions s) (at_SessionID a) of None \<Rightarrow> False | Some cur \<Rightarrow> family_hit (Sessions s) root [] cur))"
    by (auto simp: reviewIndependence_def rootSession_Inr list_ex_iff)
  have root: "root = reviewer"
    using lineage_walk_root [OF r(2,5)] r(1) assms(2) unfolding keyed_def by blast
  have "\<not> descends (Sessions s) (at_SessionID a) reviewer"
    if "a \<in> set (gvals (Attempts s))" "ar_TaskID (at_Request a) = task" "gget (Sessions s) (at_SessionID a) = Some cur" for a cur
    using free that family_hit_iff [OF assms(2) that(3)] r(1) by (auto simp: root)
  with that r root walk_sound [OF assms(2) r(2,1)] walk_sound [OF assms(2) r(4,3)] show ?thesis by blast
qed

section \<open>Coverage of the checklist\<close>

lemma review_evidence_found:
  assumes "review_evidence E s a v checks k found ids" "distinct found" "set found \<subseteq> rc_ID ` set checks"
  shows "\<exists>all. length all = length checks \<and> distinct all \<and> set found \<subseteq> set all \<and> set all \<subseteq> rc_ID ` set checks
    \<and> (\<forall>x \<in> set all - set found. \<exists>i ev c k'. i \<in> set ids \<and> gget (Evidence s) i = Some ev \<and> evidence_accepted E s a v k' ev
         \<and> c \<in> set checks \<and> rc_ID c = x \<and> ev_CheckID ev = rc_ID c \<and> ev_CommandDigest ev = rc_CommandDigest c)"
  using assms
proof (induction ids arbitrary: k found)
  case Nil
  then show ?case by (intro exI [of _ found]) simp
next
  case (Cons i ids)
  from Cons.prems(1) obtain ev c where ev: "gget (Evidence s) i = Some ev" "evidence_accepted E s a v k ev"
    and c: "find (\<lambda>c. rc_ID c = ev_CheckID ev \<and> rc_CommandDigest c = ev_CommandDigest ev \<and> rc_ID c \<notin> set found) checks = Some c"
    and rest: "review_evidence E s a v checks (k + 3) (rc_ID c # found) ids"
    by (auto split: option.splits)
  from c have c': "c \<in> set checks" "rc_ID c = ev_CheckID ev" "rc_CommandDigest c = ev_CommandDigest ev" "rc_ID c \<notin> set found"
    by (auto simp: find_Some_iff)
  have pre: "distinct (rc_ID c # found)" "set (rc_ID c # found) \<subseteq> rc_ID ` set checks"
    using Cons.prems(2,3) c'(4) imageI [OF c'(1), of rc_ID] by simp_all
  from Cons.IH [OF rest pre] obtain all where all: "length all = length checks" "distinct all"
      "set (rc_ID c # found) \<subseteq> set all" "set all \<subseteq> rc_ID ` set checks"
      "\<forall>x \<in> set all - set (rc_ID c # found). \<exists>i ev c k'. i \<in> set ids \<and> gget (Evidence s) i = Some ev
         \<and> evidence_accepted E s a v k' ev \<and> c \<in> set checks \<and> rc_ID c = x \<and> ev_CheckID ev = rc_ID c
         \<and> ev_CommandDigest ev = rc_CommandDigest c"
    by (elim exE conjE) (rule that)
  have "\<exists>j ev c k'. j \<in> set (i # ids) \<and> gget (Evidence s) j = Some ev \<and> evidence_accepted E s a v k' ev
         \<and> c \<in> set checks \<and> rc_ID c = x \<and> ev_CheckID ev = rc_ID c \<and> ev_CommandDigest ev = rc_CommandDigest c"
    if "x \<in> set all - set found" for x
  proof (cases "x = rc_ID c")
    case True
    with ev c' show ?thesis by (intro exI [of _ i] exI [of _ ev] exI [of _ c] exI [of _ k]) simp
  next
    case False
    with that all(5) show ?thesis by (metis DiffE DiffI list.set_intros(2) set_ConsD)
  qed
  with all show ?case by (intro exI [of _ all]) auto
qed

lemma reviewEvidence_covers:
  assumes "reviewEvidence E s a v ids checks k"
  shows "distinct (map rc_ID checks) \<and> length ids = length checks
    \<and> (\<forall>c \<in> set checks. \<exists>i ev k'. i \<in> set ids \<and> gget (Evidence s) i = Some ev \<and> evidence_accepted E s a v k' ev
         \<and> ev_CheckID ev = rc_ID c \<and> ev_CommandDigest ev = rc_CommandDigest c)"
proof -
  from assms have "review_evidence E s a v checks k [] ids" by (simp add: reviewEvidence_def)
  from review_evidence_found [OF this] obtain all where all: "length all = length checks" "distinct all"
      "set all \<subseteq> set (map rc_ID checks)"
      "\<forall>x \<in> set all. \<exists>i ev c k'. i \<in> set ids \<and> gget (Evidence s) i = Some ev \<and> evidence_accepted E s a v k' ev
         \<and> c \<in> set checks \<and> rc_ID c = x \<and> ev_CheckID ev = rc_ID c \<and> ev_CommandDigest ev = rc_CommandDigest c"
    by auto
  have "card (set (map rc_ID checks)) \<le> length (map rc_ID checks)" by (rule card_length)
  moreover have "length checks \<le> card (set (map rc_ID checks))"
    using card_mono [OF _ all(3)] all(1,2) by (simp add: distinct_card)
  ultimately have d: "distinct (map rc_ID checks)" and eq: "set all = set (map rc_ID checks)"
    using all(1-3) by (simp_all add: card_distinct card_subset_eq distinct_card)
  have "\<exists>i ev k'. i \<in> set ids \<and> gget (Evidence s) i = Some ev \<and> evidence_accepted E s a v k' ev
         \<and> ev_CheckID ev = rc_ID c \<and> ev_CommandDigest ev = rc_CommandDigest c" if "c \<in> set checks" for c
  proof -
    have "rc_ID c \<in> set all" using that eq by simp
    with all(4) obtain i ev b k' where b: "i \<in> set ids" "gget (Evidence s) i = Some ev" "evidence_accepted E s a v k' ev"
        "b \<in> set checks" "rc_ID b = rc_ID c" "ev_CheckID ev = rc_ID b" "ev_CommandDigest ev = rc_CommandDigest b"
      by metis
    from b(4,5) that d have "b = c" by (auto simp: distinct_map inj_on_def)
    with b show ?thesis by auto
  qed
  with d assms show ?thesis by (simp add: reviewEvidence_def)
qed

section \<open>What a current review establishes\<close>

lemma reviewCurrent_Inr:
  assumes "reviewCurrent E au s sess req k = Inr (v, obs)"
  obtains a g m where "reviewAttempt s (rr_AttemptID req) = Inr a" "gget (ReviewGrants s) (rr_GrantID req) = Some g"
    "reviewGrantCurrent E s sess a g k" "reviewGrantCurrent E s sess a g m"
    "\<exists>n. reviewWorker E s a req n = Inr ()"
    "currentRevision s a (rr_RevisionID req) (rr_LeaseID req) (rr_ExpectedFence req) = Inr v"
    "observeRevision E 0 (e_now E (k + 4)) a v = Inr ()"
    "\<exists>n. reviewEvidence E s a v (rr_EvidenceIDs req) (ro_Checks obs) n"
  using assms unfolding reviewCurrent_def reviewCurrentExcept_def Let_def
  by (auto simp: currentRevision_def reviewWorker_def split: sum.splits option.splits if_splits)

lemma reviewGrantCurrent_Inr:
  "reviewGrantCurrent E s sess a g k \<longleftrightarrow>
     (\<exists>root. reviewIndependence s sess (at_SessionID a) (ar_TaskID (at_Request a)) (e_now E k) = Inr root
        \<and> \<not> rg_Revoked g \<and> e_now E (Suc k) < rg_ExpiresAt g \<and> rg_ReviewerSession g = sess \<and> rg_WorkerRoot g = root
        \<and> rg_TaskID g = ar_TaskID (at_Request a) \<and> rg_Repository g = ob_Repository (at_Observation a))"
  by (auto simp: reviewGrantCurrent_def split: sum.splits)

lemma ProposeReview_fresh:
  assumes "ProposeReview E au token sess req s = Inr (w, s')" "gget (Operations s) (rr_OperationKey req) = None"
  shows "\<exists>v obs. reviewCurrent E au s sess (rw_Request w) 1 = Inr (v, obs) \<and> rw_Revision w = v \<and> rw_Observation w = obs
     \<and> rw_IssuerSession w = sess \<and> rw_Request w = req\<lparr>rr_EvidenceIDs := sort (rr_EvidenceIDs req)\<rparr>
     \<and> gget (Reviews s') (rw_ID w) = Some w"
proof (cases "reviewCurrent E au s sess (req\<lparr>rr_EvidenceIDs := sort (rr_EvidenceIDs req)\<rparr>) 1")
  case (Inl why)
  with assms show ?thesis by (auto simp: ProposeReview_def Let_def)
next
  case (Inr x)
  obtain v obs where "x = (v, obs)" by (cases x)
  with Inr assms show ?thesis by (auto simp: ProposeReview_def Let_def)
qed

lemma EvaluateReview_eligible:
  assumes "EvaluateReview E au token sess i s = Inr e" "re_Eligible e"
  shows "\<exists>p. gget (Reviews s) i = Some p \<and> rw_IssuerSession p = sess \<and> rr_Outcome (rw_Request p) = ''approve''
     \<and> reviewCurrent E au s sess (rw_Request p) 1 = Inr (rw_Revision p, rw_Observation p) \<and> re_Reason e = ReviewEligible"
proof -
  from assms obtain p where p: "gget (Reviews s) i = Some p" "rw_IssuerSession p = sess"
    by (auto simp: EvaluateReview_def Let_def)
  show ?thesis
  proof (cases "reviewCurrent E au s sess (rw_Request p) 1")
    case (Inl why)
    with p assms show ?thesis by (auto simp: EvaluateReview_def Let_def)
  next
    case (Inr x)
    obtain v obs where "x = (v, obs)" by (cases x)
    with Inr p assms show ?thesis by (auto simp: EvaluateReview_def Let_def split: if_splits)
  qed
qed

section \<open>A concrete review\<close>

text \<open>The worker \<open>r\<close>, runner \<open>v\<close> and revision of the verification sample, with a reviewer \<open>w\<close>, a
  checklist of one check and its evidence.\<close>

definition sample_reviewer :: srecord where
  "sample_reviewer = \<lparr>se_ID = ''w'', se_Parent = '''', se_Scope = \<lparr>sc_Actions = [''review.propose'', ''review.evaluate''],
     sc_Resources = [''task:t'']\<rparr>, se_ExpiresAt = 100, se_Revoked = False, sr_Hash = sample_id 3\<rparr>"

definition sample_checks :: "required_check list" where
  "sample_checks = [\<lparr>rc_ID = ''k'', rc_CommandDigest = sample_id 0\<rparr>]"

definition sample_checklist :: review_observation where
  "sample_checklist = \<lparr>ro_RequiredSet = None, ro_ChecklistDigest = ''sha256:'' @ sample_id 0, ro_PolicyRevision = ''p'',
     ro_Checks = sample_checks\<rparr>"

definition sample_review_env :: env where
  "sample_review_env = sample_env\<lparr>e_observeReview := Some (\<lambda>_ _ _ _. Some sample_checklist)\<rparr>"

definition sample_run :: evidence where
  "sample_run = sample_evidence\<lparr>ev_CommandDigest := sample_id 0, ev_OutputDigest := ''sha256:'' @ sample_id 0\<rparr>"

definition sample_review_grant :: review_grant where
  "sample_review_grant = \<lparr>rg_ID = ''x'', rg_ReviewerSession = ''w'', rg_WorkerRoot = ''r'', rg_TaskID = ''t'',
     rg_Repository = ''/w/.git'', rg_Observation = sample_checklist, rg_ExpiresAt = 90, rg_Revoked = False\<rparr>"

definition sample_review_state :: state where
  "sample_review_state = sample_verify_state\<lparr>
     Sessions := [(''r'', sample_worker), (''v'', sample_runner), (''w'', sample_reviewer)],
     Tasks := [(''t'', \<lparr>tb_TaskID = ''t'', tb_ProjectID = ''p'', tb_Repository = ''/w/.git'', tb_AdmissionEnabled = True\<rparr>)],
     Grants := [(''g'', sample_grant\<lparr>vg_CommandDigest := sample_id 0\<rparr>)], Evidence := [(''e'', sample_run)],
     ReviewGrants := [(''x'', sample_review_grant)]\<rparr>"

definition sample_review_request :: review_request where
  "sample_review_request = \<lparr>rr_OperationKey = ''k'', rr_GrantID = ''x'', rr_AttemptID = ''a'', rr_LeaseID = ''l'',
     rr_RevisionID = ''n'', rr_ExpectedFence = 1, rr_Outcome = ''approve'', rr_Rationale = ''ok'', rr_EvidenceIDs = [''e'']\<rparr>"

lemma sample_review_state_sel [simp]:
  "Sessions sample_review_state = [(''r'', sample_worker), (''v'', sample_runner), (''w'', sample_reviewer)]"
  "Tasks sample_review_state = [(''t'', \<lparr>tb_TaskID = ''t'', tb_ProjectID = ''p'', tb_Repository = ''/w/.git'', tb_AdmissionEnabled = True\<rparr>)]"
  "Attempts sample_review_state = [(''q'', sample_attempt)]" "Leases sample_review_state = [(''l'', sample_lease ''/w'' ''src'')]"
  "Revisions sample_review_state = [(''a'', [sample_revision])]" "Operations sample_review_state = []"
  "Grants sample_review_state = [(''g'', sample_grant\<lparr>vg_CommandDigest := sample_id 0\<rparr>)]"
  "Evidence sample_review_state = [(''e'', sample_run)]" "ReviewGrants sample_review_state = [(''x'', sample_review_grant)]"
  "TaskTerminals sample_review_state = []" "Recoveries sample_review_state = []" "LifecycleCancellations sample_review_state = []"
  by (simp_all add: sample_review_state_def)

lemma sample_review_env_sel [simp]:
  "e_now sample_review_env = (\<lambda>_. 10)" "e_hash sample_review_env = (\<lambda>x. x)" "e_requiredVerification sample_review_env = None"
  "e_observeReview sample_review_env = Some (\<lambda>_ _ _ _. Some sample_checklist)" "e_mint sample_review_env = (\<lambda>i. Some (sample_id i))"
  by (simp_all add: sample_review_env_def sample_env_def)

lemma sample_roots:
  "rootSession sample_review_state ''r'' 10 = Inr (sample_worker, ''r'')"
  "rootSession sample_review_state ''v'' 10 = Inr (sample_runner, ''v'')"
  "rootSession sample_review_state ''w'' 10 = Inr (sample_reviewer, ''w'')"
  by (simp_all add: rootSession_Inr gget_def lineage_walk.simps sample_worker_def sample_runner_def sample_reviewer_def)

lemma sample_reviewIndependence: "reviewIndependence sample_review_state ''w'' ''r'' ''t'' 10 = Inr ''r''"
  by (simp add: reviewIndependence_def sample_roots reviewOnly_def gvals_def)
     (simp add: sample_reviewer_def sample_attempt_def gget_def family_hit.simps sample_worker_def)

lemma sample_reviewGrantCurrent: "reviewGrantCurrent sample_review_env sample_review_state ''w'' sample_attempt sample_review_grant k"
proof -
  have a: "at_SessionID sample_attempt = ''r''" "ar_TaskID (at_Request sample_attempt) = ''t''"
      "ob_Repository (at_Observation sample_attempt) = ''/w/.git''" by (simp_all add: sample_attempt_def)
  show ?thesis unfolding reviewGrantCurrent_Inr a by (simp add: sample_reviewIndependence) (simp add: sample_review_grant_def)
qed

lemma sample_reviewWorker: "reviewWorkerExcept sample_review_env sample_review_state sample_attempt sample_review_request '''' k = Inr ()"
proof -
  have a: "at_SessionID sample_attempt = ''r''" "ar_TaskID (at_Request sample_attempt) = ''t''" "at_ID sample_attempt = ''a''"
      "ob_Repository (at_Observation sample_attempt) = ''/w/.git''" "at_ProjectID sample_attempt = ''p''"
    by (simp_all add: sample_attempt_def)
  have "currentLeaseExcept sample_review_state (sample_lease ''/w'' ''src'') 10 ''''"
    using sample_not_withdrawn [of sample_review_state]
    by (simp add: currentLeaseExcept_def sample_lease_def workerTaskWithdrawn_def)
  then show ?thesis
    unfolding reviewWorkerExcept_def fetch_def a
    by (simp add: sample_roots gget_def sample_review_request_def) (simp add: sample_worker_def sample_lease_def)
qed

lemma sample_validDigest: "validDigest (''sha256:'' @ sample_id 0)"
  by code_simp

lemma sample_observeReview: "observeReview sample_review_env sample_authority 0 b = Inr sample_checklist"
proof -
  have "length (sample_id 0) = 64" by (simp add: sample_id_def)
  then show ?thesis
    using sample_validDigest
    by (simp add: observeReview_def reviewObservation_def sample_checklist_def sample_checks_def Let_def)
qed

lemma sample_reviewEvidence:
  "reviewEvidence sample_review_env sample_review_state sample_attempt sample_revision [''e''] (ro_Checks sample_checklist) k"
proof -
  have a: "at_SessionID sample_attempt = ''r''" "ar_TaskID (at_Request sample_attempt) = ''t''"
      "ob_Repository (at_Observation sample_attempt) = ''/w/.git''" by (simp_all add: sample_attempt_def)
  have e: "ev_Provenance sample_run = ''trusted-local-runner''" "ev_ExitCode sample_run = 0" "ev_Revision sample_run = sample_revision"
      "ev_OutputDigest sample_run = ''sha256:'' @ sample_id 0" "ev_GrantID sample_run = ''g''" "ev_IssuerSession sample_run = ''v''"
      "ev_CheckID sample_run = ''k''" "ev_CommandDigest sample_run = sample_id 0"
    by (simp_all add: sample_run_def sample_evidence_def)
  have "evidence_accepted sample_review_env sample_review_state sample_attempt sample_revision k sample_run"
    unfolding evidence_accepted_def e a using sample_validDigest
    by (simp add: sample_roots gget_def) (simp add: sample_runner_def sample_grant_def)
  then show ?thesis
    by (simp add: reviewEvidence_def e sample_checklist_def sample_checks_def gget_def)
qed

lemma sample_reviewCurrent:
  "reviewCurrent sample_review_env sample_authority sample_review_state ''w'' sample_review_request k
     = Inr (sample_revision, sample_checklist)"
proof -
  have q: "rr_AttemptID sample_review_request = ''a''" "rr_GrantID sample_review_request = ''x''"
      "rr_RevisionID sample_review_request = ''n''" "rr_LeaseID sample_review_request = ''l''"
      "rr_ExpectedFence sample_review_request = 1" "rr_EvidenceIDs sample_review_request = [''e'']"
    by (simp_all add: sample_review_request_def)
  have at: "reviewAttempt sample_review_state ''a'' = Inr sample_attempt"
    by (simp add: reviewAttempt_def gvals_def) (simp add: sample_attempt_def)
  have g: "gget [(''x'', sample_review_grant)] ''x'' = Some sample_review_grant" by (simp add: gget_def)
  have cur: "currentRevisionExcept sample_review_state sample_attempt ''n'' ''l'' 1 '''' = Inr sample_revision"
    unfolding currentRevision_def [symmetric] currentRevision_Inr using sample_not_withdrawn [of sample_review_state]
    by (simp add: gslice_def gget_def sample_attempt_def sample_revision_def)
  have obs: "observeRevision sample_review_env 0 10 sample_attempt sample_revision = Inr ()"
    using sample_observeRevision [of 0]
    by (simp add: observeRevision_def Observe_def sample_review_env_def)
  have same: "sample_checklist\<lparr>ro_RequiredSet := None\<rparr> = rg_Observation sample_review_grant"
    by (simp add: sample_checklist_def sample_review_grant_def)
  show ?thesis
    by (simp add: reviewCurrent_def reviewCurrentExcept_def q at g cur obs same sample_reviewGrantCurrent sample_reviewWorker
        sample_observeReview required_checks_def sample_reviewEvidence Let_def del: One_nat_def)
qed

lemma sample_reviewer_auth:
  "authenticate sample_review_env sample_review_state (sample_id 3) ''w'' 10 = Inr sample_reviewer"
  using sample_roots(3) by (auto simp: authenticate_Inr walk_ok_iff rootSession_Inr sample_reviewer_def sample_id_def)

lemma sample_ProposeReview:
  "\<exists>w s'. ProposeReview sample_review_env sample_authority (sample_id 3) ''w'' sample_review_request sample_review_state = Inr (w, s')
     \<and> rw_Request w = sample_review_request"
proof -
  have q: "rr_OperationKey sample_review_request = ''k''" "rr_Outcome sample_review_request = ''approve''"
      "rr_Rationale sample_review_request = ''ok''" "rr_EvidenceIDs sample_review_request = [''e'']"
      "rr_AttemptID sample_review_request = ''a''" "sample_review_request\<lparr>rr_EvidenceIDs := [''e'']\<rparr> = sample_review_request"
    by (simp_all add: sample_review_request_def)
  have at: "reviewAttempt sample_review_state ''a'' = Inr sample_attempt"
    by (simp add: reviewAttempt_def gvals_def) (simp add: sample_attempt_def)
  have "validID ''e''" by code_simp
  moreover have "reviewOnly sample_reviewer (ar_TaskID (at_Request sample_attempt))"
    by (simp add: reviewOnly_def sample_reviewer_def sample_attempt_def)
  ultimately show ?thesis
    by (simp add: ProposeReview_def q at Let_def sample_reviewer_auth sample_reviewCurrent mint_def)
qed

section \<open>Properties\<close>

text \<open>C11: A review is independent and complete. A new proposal, and likewise an eligible evaluation, comes
  from a live owner-enrolled root that may only review, under an unrevoked grant to it; neither the
  reviewed worker nor any session that ever registered an attempt on the task descends from it; the
  revision is the attempt's latest; and every check of the recorded checklist is covered by its own
  passing trusted evidence about exactly that revision, run by a session of another family. An
  eligible evaluation moreover finds the revision and the checklist as they were recorded, and an
  approving outcome.\<close>

theorem review_independent:
  assumes "keyed (Sessions s)" and "(ProposeReview E au token sess req s = Inr (w, s')
       \<and> gget (Operations s) (rr_OperationKey req) = None)
     \<or> (EvaluateReview E au token sess i s = Inr e \<and> re_Eligible e \<and> gget (Reviews s) i = Some w)"
  shows "\<exists>a g r k. reviewAttempt s (rr_AttemptID (rw_Request w)) = Inr a
     \<and> gget (ReviewGrants s) (rr_GrantID (rw_Request w)) = Some g \<and> \<not> rg_Revoked g \<and> rg_ReviewerSession g = sess
     \<and> gget (Sessions s) sess = Some r \<and> live (Sessions s) (e_now E 1) sess \<and> se_Parent r = ''''
     \<and> set (sc_Actions (se_Scope r)) \<subseteq> {''review.propose'', ''review.evaluate'', ''read''}
     \<and> \<not> descends (Sessions s) (at_SessionID a) sess
     \<and> (\<forall>b \<in> set (gvals (Attempts s)). ar_TaskID (at_Request b) = ar_TaskID (at_Request a) \<longrightarrow>
          gget (Sessions s) (at_SessionID b) \<noteq> None \<longrightarrow> \<not> descends (Sessions s) (at_SessionID b) sess)
     \<and> rw_Revision w = last (gslice (Revisions s) (at_ID a))
     \<and> (\<forall>c \<in> set (ro_Checks (rw_Observation w)). \<exists>j ev k'. j \<in> set (rr_EvidenceIDs (rw_Request w))
          \<and> gget (Evidence s) j = Some ev \<and> evidence_accepted E s a (rw_Revision w) k' ev
          \<and> ev_CheckID ev = rc_ID c \<and> ev_CommandDigest ev = rc_CommandDigest c)
     \<and> (re_Eligible e \<and> EvaluateReview E au token sess i s = Inr e \<and> gget (Reviews s) i = Some w \<longrightarrow>
          rr_Outcome (rw_Request w) = ''approve'')"
proof -
  have cur: "reviewCurrent E au s sess (rw_Request w) 1 = Inr (rw_Revision w, rw_Observation w)"
    using assms(2) ProposeReview_fresh EvaluateReview_eligible by (metis option.inject)
  have approve: "re_Eligible e \<and> EvaluateReview E au token sess i s = Inr e \<and> gget (Reviews s) i = Some w \<Longrightarrow>
      rr_Outcome (rw_Request w) = ''approve''"
    using EvaluateReview_eligible by (metis option.inject)
  from cur obtain a g n where a: "reviewAttempt s (rr_AttemptID (rw_Request w)) = Inr a"
      "gget (ReviewGrants s) (rr_GrantID (rw_Request w)) = Some g" "reviewGrantCurrent E s sess a g 1"
      "currentRevision s a (rr_RevisionID (rw_Request w)) (rr_LeaseID (rw_Request w)) (rr_ExpectedFence (rw_Request w))
         = Inr (rw_Revision w)"
      "reviewEvidence E s a (rw_Revision w) (rr_EvidenceIDs (rw_Request w)) (ro_Checks (rw_Observation w)) n"
    by (rule reviewCurrent_Inr) blast
  from a(3) obtain root where g: "reviewIndependence s sess (at_SessionID a) (ar_TaskID (at_Request a)) (e_now E 1) = Inr root"
      "\<not> rg_Revoked g" "rg_ReviewerSession g = sess"
    by (auto simp: reviewGrantCurrent_Inr)
  from g(1) assms(1) obtain r where r: "gget (Sessions s) sess = Some r" "live (Sessions s) (e_now E 1) sess" "se_Parent r = ''''"
      "reviewOnly r (ar_TaskID (at_Request a))" "live (Sessions s) (e_now E 1) (at_SessionID a)"
    and free: "\<forall>b \<in> set (gvals (Attempts s)). ar_TaskID (at_Request b) = ar_TaskID (at_Request a) \<longrightarrow>
          gget (Sessions s) (at_SessionID b) \<noteq> None \<longrightarrow> \<not> descends (Sessions s) (at_SessionID b) sess"
    by (rule reviewIndependence_Inr) blast
  have mem: "a \<in> set (gvals (Attempts s))" using a(1) by (auto simp: reviewAttempt_def find_Some_iff)
  have worker: "gget (Sessions s) (at_SessionID a) \<noteq> None" using live_exists [OF r(5)] by auto
  have own: "\<not> descends (Sessions s) (at_SessionID a) sess" using free mem worker by blast
  have acts: "set (sc_Actions (se_Scope r)) \<subseteq> {''review.propose'', ''review.evaluate'', ''read''}"
    using r(4) by (auto simp: reviewOnly_def list_all_iff)
  have rev: "rw_Revision w = last (gslice (Revisions s) (at_ID a))"
    using a(4) unfolding currentRevision_Inr by blast
  from reviewEvidence_covers [OF a(5)] have cover: "\<forall>c \<in> set (ro_Checks (rw_Observation w)). \<exists>j ev k'.
      j \<in> set (rr_EvidenceIDs (rw_Request w)) \<and> gget (Evidence s) j = Some ev \<and> evidence_accepted E s a (rw_Revision w) k' ev
      \<and> ev_CheckID ev = rc_ID c \<and> ev_CommandDigest ev = rc_CommandDigest c"
    by blast
  show ?thesis
    using a(1,2) g(2,3) r(1-3) acts own free rev cover approve by blast
qed

theorem review_independent_witness:
  "\<exists>w s'. ProposeReview sample_review_env sample_authority (sample_id 3) ''w'' sample_review_request sample_review_state = Inr (w, s')
     \<and> (\<exists>k' a. evidence_accepted sample_review_env sample_review_state a (rw_Revision w) k' sample_run)"
proof -
  obtain w s' where p: "ProposeReview sample_review_env sample_authority (sample_id 3) ''w'' sample_review_request sample_review_state
      = Inr (w, s')" "rw_Request w = sample_review_request"
    using sample_ProposeReview by blast
  have none: "gget (Operations sample_review_state) (rr_OperationKey sample_review_request) = None" by simp
  have k: "keyed (Sessions sample_review_state)"
    by (auto simp: keyed_def gget_def sample_worker_def sample_runner_def sample_reviewer_def split: if_splits)
  from ProposeReview_fresh [OF p(1) none] have "rw_Observation w = sample_checklist"
    by (simp add: p(2) sample_reviewCurrent)
  then have c: "hd sample_checks \<in> set (ro_Checks (rw_Observation w))"
    by (simp add: sample_checklist_def sample_checks_def)
  from review_independent [OF k disjI1 [OF conjI [OF p(1) none]]] c obtain a j ev k' where
    j: "j \<in> set (rr_EvidenceIDs (rw_Request w))" "gget (Evidence sample_review_state) j = Some ev"
      "evidence_accepted sample_review_env sample_review_state a (rw_Revision w) k' ev"
    by metis
  from j(1) have "j = ''e''" by (simp add: p(2) sample_review_request_def)
  with j(2,3) p(1) show ?thesis by (auto simp: gget_def)
qed

text \<open>Revoking a review grant stops it. Afterwards no new proposal under that grant succeeds and no review
  that names it is eligible, whatever the clock, the checkout and the observer answer.\<close>

theorem review_revocation:
  assumes "RevokeReview E owner' i s = Inr (u, s')"
  shows "(rr_GrantID req = i \<longrightarrow> gget (Operations s') (rr_OperationKey req) = None \<longrightarrow>
            ProposeReview E' au token sess req s' \<noteq> Inr x)
     \<and> (gget (Reviews s') j = Some w \<longrightarrow> rr_GrantID (rw_Request w) = i \<longrightarrow> EvaluateReview E' au token sess j s' = Inr e \<longrightarrow>
          \<not> re_Eligible e)"
proof -
  from assms obtain g where "gget (ReviewGrants s') i = Some g" "rg_Revoked g"
    by (auto simp: RevokeReview_def)
  then have none: "reviewCurrent E' au s' sess q k \<noteq> Inr (v, obs)" if "rr_GrantID q = i" for q k v obs
    using that by (auto simp: reviewGrantCurrent_Inr elim: reviewCurrent_Inr)
  have "ProposeReview E' au token sess req s' \<noteq> Inr x"
    if "rr_GrantID req = i" "gget (Operations s') (rr_OperationKey req) = None"
  proof
    assume "ProposeReview E' au token sess req s' = Inr x"
    then have "ProposeReview E' au token sess req s' = Inr (fst x, snd x)" by simp
    from ProposeReview_fresh [OF this that(2)] that(1) none show False
      by (metis review_request.select_convs(2) review_request.surjective review_request.update_convs(9))
  qed
  moreover have "\<not> re_Eligible e" if "gget (Reviews s') j = Some w" "rr_GrantID (rw_Request w) = i" "EvaluateReview E' au token sess j s' = Inr e"
    using EvaluateReview_eligible [OF that(3)] that(1,2) none by auto
  ultimately show ?thesis by blast
qed

theorem review_revocation_witness:
  "\<forall>x. ProposeReview sample_review_env sample_authority (sample_id 3) ''w'' sample_review_request
     (sample_review_state\<lparr>ReviewGrants := [(''x'', sample_review_grant\<lparr>rg_Revoked := True\<rparr>)]\<rparr>) \<noteq> Inr x"
proof -
  have owner: "OwnerHash sample_review_state = sample_id 0"
    by (simp add: sample_review_state_def sample_verify_state_def sample_state_def)
  have "RevokeReview sample_review_env (sample_id 0) ''x'' sample_review_state
      = Inr ((), sample_review_state\<lparr>ReviewGrants := [(''x'', sample_review_grant\<lparr>rg_Revoked := True\<rparr>)]\<rparr>)"
    by (simp add: RevokeReview_def owner_ok_def owner gget_def gput_def sample_id_def)
  from review_revocation [OF this] show ?thesis
    by (simp add: sample_review_request_def)
qed

end
