(* ===== verification/Publication_Kernel.thy ===== *)
theory Publication_Kernel
  imports Evidence_Kernel
begin

text \<open>
  Publication permissions (\<^verbatim>\<open>publication.go\<close> of \<^verbatim>\<open>internal/governance/sessions\<close>): the owner keeps a
  numbered history of disclosure policies per task; a worker asks for a decision, which the pure
  evaluator of \<open>Disclosure_Policy\<close> makes under the current policy; the owner consumes a decision
  once, against the policy and revision current at that moment.
\<close>

section \<open>Requests\<close>

record set_policy_request =
  zp_TaskID :: string
  zp_Repository :: string
  zp_Visibility :: string
  zp_IncludeInternal :: bool
  zp_RecordedInternal :: bool
  zp_ExpectedGeneration :: "64 word"

record consume_request =
  cq_OperationKey :: string
  cq_DecisionID :: string
  cq_Action :: publication_action

definition jv_policy :: "publication_policy \<Rightarrow> jval" where
  "jv_policy p = JO [(''TaskID'', JS (pp_TaskID p)), (''Repository'', JS (pp_Repository p)),
     (''Visibility'', JS (pp_Visibility p)), (''IncludeInternal'', JB (pp_IncludeInternal p)),
     (''RecordedInternal'', JB (pp_RecordedInternal p)), (''Generation'', JW (pp_Generation p)),
     (''Digest'', JS (pp_Digest p))]"

definition jv_action :: "publication_action \<Rightarrow> jval" where
  "jv_action a = JO [(''Action'', JS (pa_Action a)), (''Repository'', JS (pa_Repository a)),
     (''Issue'', JS (pa_Issue a)), (''PayloadSHA256'', JS (pa_PayloadSHA256 a)),
     (''Fields'', JL (map JS (pa_Fields a)))]"

definition jv_decision_request :: "publication_decision_request \<Rightarrow> jval" where
  "jv_decision_request r = JO [(''OperationKey'', JS (pr_OperationKey r)), (''AttemptID'', JS (pr_AttemptID r)),
     (''LeaseID'', JS (pr_LeaseID r)), (''RevisionID'', JS (pr_RevisionID r)), (''ExpectedFence'', JW (pr_ExpectedFence r)),
     (''ExpiresAt'', JT (pr_ExpiresAt r)), (''Action'', jv_action (pr_Action r))]"

definition jv_checkout :: "observation \<Rightarrow> jval" where
  "jv_checkout o' = JO [(''Locator'', JS (ob_Locator o')), (''Repository'', JS (ob_Repository o')),
     (''Commit'', JS (ob_Commit o')), (''Tree'', JS (ob_Tree o')), (''ObservedAt'', JT (ob_ObservedAt o'))]"

definition jv_revision :: "attempt_revision \<Rightarrow> jval" where
  "jv_revision v = JO [(''ID'', JS (rv_ID v)), (''AttemptID'', JS (rv_AttemptID v)), (''SessionID'', JS (rv_SessionID v)),
     (''LeaseID'', JS (rv_LeaseID v)), (''Sequence'', JW (rv_Sequence v)), (''Fence'', JW (rv_Fence v)),
     (''Observation'', jv_checkout (rv_Observation v)), (''PublishedAt'', JT (rv_PublishedAt v))]"

definition jv_consume :: "consume_request \<Rightarrow> jval" where
  "jv_consume r = JO [(''OperationKey'', JS (cq_OperationKey r)), (''DecisionID'', JS (cq_DecisionID r)),
     (''Action'', jv_action (cq_Action r))]"

section \<open>The owner's policy history\<close>

definition SetPublicationPolicy ::
    "env \<Rightarrow> string \<Rightarrow> set_policy_request \<Rightarrow> state \<Rightarrow> (publication_policy \<times> state) res" where
  "SetPublicationPolicy E owner' req s =
     require (owner_ok E s owner') ErrDenied (
     require (validID (zp_TaskID req) \<and> repositoryPattern (zp_Repository req)
        \<and> (zp_Visibility req = ''public'' \<or> zp_Visibility req = ''private'' \<or> zp_Visibility req = ''unknown'')) ErrDenied (
     fetch (Tasks s) (zp_TaskID req) (\<lambda>_.
     let history = gslice (PublicationPolicies s) (zp_TaskID req) in
     require (of_nat (length history) = zp_ExpectedGeneration req \<and> zp_ExpectedGeneration req \<noteq> - 1) ErrDenied (
     let undigested = \<lparr>pp_TaskID = zp_TaskID req, pp_Repository = zp_Repository req, pp_Visibility = zp_Visibility req,
           pp_IncludeInternal = zp_IncludeInternal req, pp_RecordedInternal = zp_RecordedInternal req,
           pp_Generation = zp_ExpectedGeneration req + 1, pp_Digest = ''''\<rparr>;
         result = undigested\<lparr>pp_Digest := identity E ''publication-policy/v1'' '''' (jv_policy undigested)\<rparr> in
     Inr (result, s\<lparr>PublicationPolicies := gput (zp_TaskID req) (history @ [result]) (PublicationPolicies s)\<rparr>)))))"

section \<open>Decisions\<close>

definition normalizePublicationAction :: "publication_action \<Rightarrow> publication_action res" where
  "normalizePublicationAction a =
     require (pa_Fields a \<noteq> [] \<and> length (pa_Fields a) \<le> 32) ErrDenied (
     Inr (a\<lparr>pa_Fields := remdups_adj (sort (pa_Fields a))\<rparr>))"

definition publicationCurrent ::
    "env \<Rightarrow> state \<Rightarrow> string \<Rightarrow> publication_decision_request \<Rightarrow> nat
       \<Rightarrow> (attempt \<times> attempt_revision \<times> publication_policy) res" where
  "publicationCurrent E s sess req k =
     bindr (denied (rootSession s sess (e_now E k))) (\<lambda>(r, _).
     bindr (denied (attemptFor s (pr_AttemptID req) sess)) (\<lambda>a.
     fetch (Tasks s) (ar_TaskID (at_Request a)) (\<lambda>b.
     fetch (Leases s) (pr_LeaseID req) (\<lambda>l.
     let history = gslice (PublicationPolicies s) (ar_TaskID (at_Request a)) in
     require (tb_AdmissionEnabled b \<and> tb_Repository b = ob_Repository (at_Observation a) \<and> tb_ProjectID b = at_ProjectID a
        \<and> history \<noteq> [] \<and> l_SessionID l = sess \<and> l_AttemptID l = at_ID a \<and> l_Fence l = pr_ExpectedFence req
        \<and> currentLease s l (e_now E (k + 1)) \<and> e_now E (k + 2) < pr_ExpiresAt req) ErrDenied (
     let p = last history in
     require (subset [''publication.evaluate''] (sc_Actions (se_Scope r))
        \<and> subset [''task:'' @ ar_TaskID (at_Request a), ''repository:'' @ pp_Repository p] (sc_Resources (se_Scope r))
        \<and> pa_Repository (pr_Action req) = pp_Repository p) ErrDenied (
     bindr (denied (currentRevision s a (pr_RevisionID req) (pr_LeaseID req) (pr_ExpectedFence req))) (\<lambda>v.
     Inr (a, v, p))))))))"

definition admitted :: "env \<Rightarrow> state \<Rightarrow> attempt \<Rightarrow> bool" where
  "admitted E s a \<longleftrightarrow> (case e_admitLease E of None \<Rightarrow> False
     | Some admit \<Rightarrow> admit (b_Workspace (Binding s)) (at_ProjectID a) (ar_TaskID (at_Request a)))"

definition jv_authority :: "authority \<Rightarrow> jval" where
  "jv_authority au = JO [(''Binding'', JO [(''Workspace'', JS (b_Workspace (a_binding au))),
     (''Installation'', JS (b_Installation (a_binding au)))]), (''Path'', JS (a_path au))]"

text \<open>The observation the handler hands to the pure evaluator.\<close>

definition decision_observation ::
    "env \<Rightarrow> authority \<Rightarrow> string \<Rightarrow> publication_decision_request \<Rightarrow> attempt \<Rightarrow> publication_policy \<Rightarrow> int \<Rightarrow> pub_observation" where
  "decision_observation E au sess req a p now =
     \<lparr>po_ActorID = sess, po_SessionID = sess, po_AttemptID = at_ID a, po_WorkspaceID = b_Workspace (a_binding au),
      po_InstallationID = b_Installation (a_binding au),
      po_AuthorityID = identity E ''publication-authority/v1'' '''' (jv_authority au),
      po_Repository = pp_Repository p, po_Resource = pa_Issue (pr_Action req), po_Action = pa_Action (pr_Action req),
      po_Fields = pa_Fields (pr_Action req), po_PayloadSHA256 = pa_PayloadSHA256 (pr_Action req),
      po_PolicyRevision = pp_Digest p, po_LeaseID = pr_LeaseID req, po_LeaseGeneration = pr_ExpectedFence req,
      po_NotBefore = now, po_ExpiresAt = pr_ExpiresAt req, po_ObservedAt = now, po_Visibility = pp_Visibility p,
      po_IncludeInternal = pp_IncludeInternal p, po_RecordedInternal = pp_RecordedInternal p\<rparr>"

definition kernel_assessment :: "env \<Rightarrow> string \<Rightarrow> pub_observation \<Rightarrow> attempt_revision \<Rightarrow> assessment" where
  "kernel_assessment E sess x v =
     (let a = EvaluatePublication (e_hash E) (e_json E) x;
          a = (if po_Action x \<noteq> IssueUpdate
               then a\<lparr>as_Verdict := Deny, as_Reasons := as_Reasons a @ [\<lparr>re_Code = UnsupportedAction, re_Field = '''',
                        re_Detail = ''native decisions support issue-update only''\<rparr>]\<rparr>
               else a)
      in a\<lparr>as_Assurance := ''cooperative-session'', as_ActionDigest := identity E ''native-publication-decision/v1'' sess
             (JO [(''Binding'', jv_observation (as_Binding a)), (''Revision'', jv_revision v)])\<rparr>)"

definition Authority_EvaluatePublication ::
    "env \<Rightarrow> authority \<Rightarrow> string \<Rightarrow> string \<Rightarrow> publication_decision_request \<Rightarrow> state \<Rightarrow> (publication_decision \<times> state) res" where
  "Authority_EvaluatePublication E au token sess req0 s =
     bindr (normalizePublicationAction (pr_Action req0)) (\<lambda>action.
     let req = req0\<lparr>pr_Action := action\<rparr> in
     bindr (authenticate E s token sess (e_now E 0)) (\<lambda>_.
     require (validID (pr_OperationKey req)) ErrDenied (
     let digest = identity E ''publication-decision/v1'' sess (jv_decision_request req) in
     (case gget (Operations s) (pr_OperationKey req) of
        Some p \<Rightarrow> require (op_Digest p = digest) ErrDenied (
                  bindr (from_option (op_PublicationDecision p) ErrDenied) (\<lambda>d. Inr (d, s)))
      | None \<Rightarrow>
     bindr (publicationCurrent E s sess req 1) (\<lambda>(a, v, p).
     require (admitted E s a) ErrDenied (
     bindr (observeRevision E 0 (e_now E 4) a v) (\<lambda>_.
     bindr (publicationCurrent E s sess req 5) (\<lambda>_.
     let now = e_now E 8 in
     require (now < pr_ExpiresAt req) ErrDenied (
     let assessment = kernel_assessment E sess (decision_observation E au sess req a p now) v in
     bindr (mint E 0) (\<lambda>i.
     let result = \<lparr>pd_ID = i, pd_SessionID = sess, pd_Request = req, pd_Policy = p, pd_Revision = v,
           pd_Assessment = assessment\<rparr> in
     Inr (result, s\<lparr>PublicationDecisions := gput i result (PublicationDecisions s),
       Operations := gput (pr_OperationKey req) ((empty_operation digest)\<lparr>op_PublicationDecision := Some result\<rparr>)
         (Operations s)\<rparr>)))))))))))"

section \<open>Consumption\<close>

definition ConsumePublication ::
    "env \<Rightarrow> string \<Rightarrow> consume_request \<Rightarrow> state \<Rightarrow> (publication_consumption \<times> state) res" where
  "ConsumePublication E owner' req0 s =
     bindr (normalizePublicationAction (cq_Action req0)) (\<lambda>action.
     let req = req0\<lparr>cq_Action := action\<rparr> in
     require (owner_ok E s owner') ErrDenied (
     require (validID (cq_OperationKey req) \<and> validID (cq_DecisionID req)) ErrDenied (
     let digest = identity E ''publication-consumption/v1'' ''owner'' (jv_consume req) in
     (case gget (Operations s) (cq_OperationKey req) of
        Some p \<Rightarrow> require (op_Digest p = digest) ErrDenied (
                  bindr (from_option (op_PublicationConsumption p) ErrDenied) (\<lambda>c. Inr (c, s)))
      | None \<Rightarrow>
     fetch (PublicationDecisions s) (cq_DecisionID req) (\<lambda>d.
     require (as_Verdict (pd_Assessment d) = Allow \<and> pa_Action (pr_Action (pd_Request d)) = IssueUpdate
        \<and> cq_Action req = pr_Action (pd_Request d)) ErrDenied (
     require (gget (PublicationConsumed s) (pd_ID d) = None) ErrDenied (
     bindr (publicationCurrent E s (pd_SessionID d) (pd_Request d) 0) (\<lambda>(a, v, p).
     require (p = pd_Policy d \<and> v = pd_Revision d) ErrDenied (
     require (admitted E s a) ErrDenied (
     bindr (observeRevision E 0 (e_now E 3) a v) (\<lambda>_.
     bindr (publicationCurrent E s (pd_SessionID d) (pd_Request d) 4) (\<lambda>_.
     let result = \<lparr>pc_DecisionID = pd_ID d, pc_OperationKey = cq_OperationKey req,
           pc_ActionDigest = as_ActionDigest (pd_Assessment d), pc_Assurance = ''cooperative-session'',
           pc_ConsumedAt = e_now E 7, pc_Historical = True\<rparr> in
     Inr (result, s\<lparr>PublicationConsumed := gput (pd_ID d) result (PublicationConsumed s),
       Operations := gput (cq_OperationKey req) ((empty_operation digest)\<lparr>op_PublicationConsumption := Some result\<rparr>)
         (Operations s)\<rparr>)))))))))))))"

section \<open>What the handlers do on success\<close>

lemma publicationCurrent_Inr:
  assumes "publicationCurrent E s sess req k = Inr (a, v, p)"
  shows "attemptFor s (pr_AttemptID req) sess = Inr a
     \<and> currentRevision s a (pr_RevisionID req) (pr_LeaseID req) (pr_ExpectedFence req) = Inr v
     \<and> gslice (PublicationPolicies s) (ar_TaskID (at_Request a)) \<noteq> []
     \<and> p = last (gslice (PublicationPolicies s) (ar_TaskID (at_Request a)))
     \<and> (\<exists>r root l. rootSession s sess (e_now E k) = Inr (r, root) \<and> ''publication.evaluate'' \<in> set (sc_Actions (se_Scope r))
          \<and> ''repository:'' @ pp_Repository p \<in> set (sc_Resources (se_Scope r))
          \<and> gget (Leases s) (pr_LeaseID req) = Some l \<and> l_SessionID l = sess \<and> l_Fence l = pr_ExpectedFence req
          \<and> currentLease s l (e_now E (k + 1)))
     \<and> e_now E (k + 2) < pr_ExpiresAt req \<and> pa_Repository (pr_Action req) = pp_Repository p"
  using assms by (clarsimp simp: publicationCurrent_def Let_def)

lemma kernel_assessment_Allow:
  "as_Verdict (kernel_assessment E sess x v) = Allow \<longleftrightarrow> po_Action x = IssueUpdate
     \<and> as_Verdict (EvaluatePublication (e_hash E) (e_json E) x) = Allow"
  by (simp add: kernel_assessment_def Let_def)

definition normalized :: "publication_action \<Rightarrow> publication_action" where
  "normalized a = a\<lparr>pa_Fields := remdups_adj (sort (pa_Fields a))\<rparr>"

definition decision_digest :: "env \<Rightarrow> string \<Rightarrow> publication_decision_request \<Rightarrow> string" where
  "decision_digest E sess req = identity E ''publication-decision/v1'' sess
     (jv_decision_request (req\<lparr>pr_Action := normalized (pr_Action req)\<rparr>))"

definition consume_digest :: "env \<Rightarrow> consume_request \<Rightarrow> string" where
  "consume_digest E req = identity E ''publication-consumption/v1'' ''owner''
     (jv_consume (req\<lparr>cq_Action := normalized (cq_Action req)\<rparr>))"

lemma Authority_EvaluatePublication_Inr:
  assumes "Authority_EvaluatePublication E au token sess req s = Inr (d, s')"
  obtains (served) p where "gget (Operations s) (pr_OperationKey req) = Some p" "op_PublicationDecision p = Some d" "s' = s"
      "op_Digest p = decision_digest E sess req"
  | (decided) a v p q now where "gget (Operations s) (pr_OperationKey req) = None"
      "pd_Request d = req\<lparr>pr_Action := normalized (pr_Action req)\<rparr>"
      "publicationCurrent E s sess (pd_Request d) 1 = Inr (a, v, p)" "pd_Policy d = p" "pd_Revision d = v" "pd_SessionID d = sess"
      "pd_Assessment d = kernel_assessment E sess (decision_observation E au sess (pd_Request d) a p now) v"
      "PublicationDecisions s' = gput (pd_ID d) d (PublicationDecisions s)"
      "PublicationPolicies s' = PublicationPolicies s" "PublicationConsumed s' = PublicationConsumed s"
      "Operations s' = gput (pr_OperationKey req) q (Operations s)" "op_PublicationDecision q = Some d"
      "op_Digest q = decision_digest E sess req"
proof (cases "gget (Operations s) (pr_OperationKey req)")
  case None
  from assms None show ?thesis
    apply (clarsimp simp: Authority_EvaluatePublication_def normalizePublicationAction_def Let_def)
    apply (rule decided)
               apply (assumption | simp add: empty_operation_def normalized_def decision_digest_def)+
    done
next
  case (Some p)
  from assms show ?thesis
    by (clarsimp simp: Authority_EvaluatePublication_def normalizePublicationAction_def Let_def Some)
       (rule served [OF Some], simp_all add: decision_digest_def normalized_def)
qed

lemma ConsumePublication_Inr:
  assumes "ConsumePublication E owner' req s = Inr (c, s')"
  obtains (served) p where "gget (Operations s) (cq_OperationKey req) = Some p" "op_PublicationConsumption p = Some c" "s' = s"
      "owner_ok E s owner'" "op_Digest p = consume_digest E req"
  | (consumed) d a v p q where "gget (Operations s) (cq_OperationKey req) = None" "owner_ok E s owner'"
      "gget (PublicationDecisions s) (cq_DecisionID req) = Some d" "as_Verdict (pd_Assessment d) = Allow"
      "pa_Action (pr_Action (pd_Request d)) = IssueUpdate"
      "pr_Action (pd_Request d) = normalized (cq_Action req)"
      "gget (PublicationConsumed s) (pd_ID d) = None"
      "publicationCurrent E s (pd_SessionID d) (pd_Request d) 4 = Inr (a, v, p)" "p = pd_Policy d" "v = pd_Revision d"
      "admitted E s a" "observeRevision E 0 (e_now E 3) a v = Inr ()"
      "pc_DecisionID c = pd_ID d" "pc_ActionDigest c = as_ActionDigest (pd_Assessment d)"
      "PublicationConsumed s' = gput (pd_ID d) c (PublicationConsumed s)"
      "PublicationDecisions s' = PublicationDecisions s" "PublicationPolicies s' = PublicationPolicies s"
      "Operations s' = gput (cq_OperationKey req) q (Operations s)" "op_PublicationConsumption q = Some c"
      "op_Digest q = consume_digest E req"
proof (cases "gget (Operations s) (cq_OperationKey req)")
  case None
  have same: "publicationCurrent E s w r 4 = Inr (a', v', p') \<Longrightarrow> publicationCurrent E s w r 0 = Inr (a, v, p) \<Longrightarrow>
      a' = a \<and> v' = v \<and> p' = p" for w r a v p a' v' p'
    using publicationCurrent_Inr by (metis sum.inject(2))
  from assms None show ?thesis
    apply (clarsimp simp: ConsumePublication_def normalizePublicationAction_def Let_def)
    apply (frule (1) same)
    apply clarify
    apply (rule consumed)
                      apply (assumption | rule refl | simp add: empty_operation_def normalized_def consume_digest_def)+
    done
next
  case (Some p)
  from assms show ?thesis
    by (clarsimp simp: ConsumePublication_def normalizePublicationAction_def Let_def Some)
       (rule served [OF Some], simp_all add: consume_digest_def normalized_def)
qed

lemma SetPublicationPolicy_Inr:
  assumes "SetPublicationPolicy E owner' req s = Inr (p, s')"
  shows "owner_ok E s owner' \<and> pp_TaskID p = zp_TaskID req
     \<and> pp_Generation p = of_nat (Suc (length (gslice (PublicationPolicies s) (zp_TaskID req))))
     \<and> (of_nat (length (gslice (PublicationPolicies s) (zp_TaskID req))) :: 64 word) \<noteq> - 1
     \<and> s' = s\<lparr>PublicationPolicies := gput (zp_TaskID req) (gslice (PublicationPolicies s) (zp_TaskID req) @ [p]) (PublicationPolicies s)\<rparr>"
  using assms by (clarsimp simp: SetPublicationPolicy_def Let_def add.commute)

section \<open>The publication invariant\<close>

definition policies_inv :: "state \<Rightarrow> bool" where
  "policies_inv s \<longleftrightarrow> (\<forall>k. let h = gslice (PublicationPolicies s) k in length h < 2 ^ 64
     \<and> map pp_Generation h = map of_nat [1..<Suc (length h)] \<and> (\<forall>p \<in> set h. pp_TaskID p = k))"

definition disclosed :: "publication_policy \<Rightarrow> field \<Rightarrow> bool" where
  "disclosed p f \<longleftrightarrow> f \<noteq> FieldIssueClose
     \<and> f \<in> publication_fields (pp_Visibility p) (pp_IncludeInternal p) (pp_RecordedInternal p) False"

definition decision_sound :: "state \<Rightarrow> publication_decision \<Rightarrow> bool" where
  "decision_sound s d \<longleftrightarrow> pd_Policy d \<in> set (gslice (PublicationPolicies s) (pp_TaskID (pd_Policy d)))
     \<and> (as_Verdict (pd_Assessment d) = Allow \<longrightarrow>
          (\<forall>f \<in> set (pa_Fields (pr_Action (pd_Request d))). disclosed (pd_Policy d) f))"

definition publication_inv :: "state \<Rightarrow> bool" where
  "publication_inv s \<longleftrightarrow> policies_inv s
     \<and> (\<forall>k d. gget (PublicationDecisions s) k = Some d \<longrightarrow> pd_ID d = k \<and> decision_sound s d)"

lemma policies_invD:
  assumes "policies_inv s"
  shows "length (gslice (PublicationPolicies s) k) < 2 ^ 64"
    "map pp_Generation (gslice (PublicationPolicies s) k) = map of_nat [1..<Suc (length (gslice (PublicationPolicies s) k))]"
    "p \<in> set (gslice (PublicationPolicies s) k) \<Longrightarrow> pp_TaskID p = k"
  using assms unfolding policies_inv_def Let_def by blast+

lemma set_policy_inv:
  assumes "SetPublicationPolicy E owner' req s = Inr (p, s')" "publication_inv s"
  shows "publication_inv s'"
proof -
  let ?h = "gslice (PublicationPolicies s) (zp_TaskID req)"
  note r = SetPublicationPolicy_Inr [OF assms(1)]
  have inv: "policies_inv s" using assms(2) by (simp add: publication_inv_def)
  have "length ?h \<noteq> 2 ^ 64 - 1"
  proof
    assume "length ?h = 2 ^ 64 - 1"
    then have "(of_nat (length ?h) :: 64 word) = - 1" by simp
    with r show False by blast
  qed
  with policies_invD(1) [OF inv, of "zp_TaskID req"] have len: "Suc (length ?h) < 2 ^ 64" by linarith
  have pol: "PublicationPolicies s' = gput (zp_TaskID req) (?h @ [p]) (PublicationPolicies s)"
      "PublicationDecisions s' = PublicationDecisions s" using r by simp_all
  have "policies_inv s'"
    unfolding policies_inv_def Let_def
  proof (intro allI)
    fix k
    show "length (gslice (PublicationPolicies s') k) < 2 ^ 64 \<and> map pp_Generation (gslice (PublicationPolicies s') k)
        = map of_nat [1..<Suc (length (gslice (PublicationPolicies s') k))]
        \<and> (\<forall>p \<in> set (gslice (PublicationPolicies s') k). pp_TaskID p = k)"
      using policies_invD [OF inv, where k = k] r len by (cases "k = zp_TaskID req") (auto simp: pol)
  qed
  moreover have "decision_sound s' d" if "decision_sound s d" for d
    using that by (auto simp: decision_sound_def pol)
  ultimately show ?thesis
    using assms(2) by (simp add: publication_inv_def pol)
qed

lemma decide_inv:
  assumes "Authority_EvaluatePublication E au token sess req s = Inr (d, s')" "publication_inv s"
  shows "publication_inv s'"
  using assms(1)
proof (cases rule: Authority_EvaluatePublication_Inr)
  case (served p)
  with assms(2) show ?thesis by simp
next
  case (decided a v p q now)
  let ?h = "gslice (PublicationPolicies s) (ar_TaskID (at_Request a))"
  have inv: "policies_inv s" using assms(2) by (simp add: publication_inv_def)
  from publicationCurrent_Inr [OF decided(3)] have "?h \<noteq> []" "p = last ?h" by blast+
  then have p: "p \<in> set ?h" by simp
  have "as_Verdict (pd_Assessment d) = Allow \<Longrightarrow> \<forall>f \<in> set (pa_Fields (pr_Action (pd_Request d))). disclosed p f"
    unfolding decided(7) kernel_assessment_Allow publication_allow_iff
    by (simp add: decision_observation_def disclosed_def)
  with p policies_invD(3) [OF inv p] decided(4) have "decision_sound s d" by (simp add: decision_sound_def)
  with assms(2) decided(8,9) show ?thesis
    by (auto simp: publication_inv_def decision_sound_def policies_inv_def)
qed

lemma consume_inv:
  assumes "ConsumePublication E owner' req s = Inr (c, s')" "publication_inv s"
  shows "publication_inv s'"
  using assms(1)
proof (cases rule: ConsumePublication_Inr)
  case (consumed d a v p q)
  with assms(2) show ?thesis by (simp add: publication_inv_def decision_sound_def policies_inv_def)
qed (use assms(2) in simp)

interpretation decide_key: replayable
  "\<lambda>E (au, token, sess, req). Authority_EvaluatePublication E au token sess req"
  "\<lambda>s (au, token, sess, req). gget (Operations s) (pr_OperationKey req)"
  "\<lambda>E (au, token, sess, req) s. decision_digest E sess req"
  op_Digest op_PublicationDecision
proof (unfold_locales, goal_cases)
  case (1 s q p E r s')
  then show ?case by (cases q) (auto elim!: Authority_EvaluatePublication_Inr)
next
  case (2 s q E r s')
  then show ?case by (cases q) (auto elim!: Authority_EvaluatePublication_Inr)
qed

interpretation consume_key: replayable
  "\<lambda>E (owner', req). ConsumePublication E owner' req"
  "\<lambda>s (owner', req). gget (Operations s) (cq_OperationKey req)"
  "\<lambda>E (owner', req) s. consume_digest E req"
  op_Digest op_PublicationConsumption
proof (unfold_locales, goal_cases)
  case (1 s q p E r s')
  then show ?case by (cases q) (auto elim!: ConsumePublication_Inr)
next
  case (2 s q E r s')
  then show ?case by (cases q) (auto elim!: ConsumePublication_Inr)
qed

section \<open>A concrete publication\<close>

definition sample_publisher :: srecord where
  "sample_publisher = \<lparr>se_ID = ''r'', se_Parent = '''', se_Scope = \<lparr>sc_Actions = [''publication.evaluate''],
     sc_Resources = [''task:t'', ''repository:o/r'']\<rparr>, se_ExpiresAt = 100, se_Revoked = False, sr_Hash = sample_id 1\<rparr>"

definition sample_disclosure :: publication_policy where
  "sample_disclosure = \<lparr>pp_TaskID = ''t'', pp_Repository = ''o/r'', pp_Visibility = ''public'', pp_IncludeInternal = False,
     pp_RecordedInternal = False, pp_Generation = 1, pp_Digest = ''pd''\<rparr>"

definition sample_issue_update :: publication_action where
  "sample_issue_update = \<lparr>pa_Action = IssueUpdate, pa_Repository = ''o/r'', pa_Issue = ''7'',
     pa_PayloadSHA256 = sample_id 0, pa_Fields = [''title'']\<rparr>"

definition sample_decision :: publication_decision where
  "sample_decision = \<lparr>pd_ID = ''d'', pd_SessionID = ''r'', pd_Request = \<lparr>pr_OperationKey = ''o'', pr_AttemptID = ''a'',
     pr_LeaseID = ''l'', pr_RevisionID = ''n'', pr_ExpectedFence = 1, pr_ExpiresAt = 60, pr_Action = sample_issue_update\<rparr>,
     pd_Policy = sample_disclosure, pd_Revision = sample_revision, pd_Assessment = \<lparr>as_Verdict = Allow,
     as_Assurance = ''cooperative-session'', as_Binding = sample_observation, as_ActionDigest = ''x'', as_Reasons = [],
     as_Obligations = []\<rparr>\<rparr>"

definition sample_publication_state :: state where
  "sample_publication_state = sample_verify_state\<lparr>Sessions := [(''r'', sample_publisher)],
     Tasks := [(''t'', \<lparr>tb_TaskID = ''t'', tb_ProjectID = ''p'', tb_Repository = ''/w/.git'', tb_AdmissionEnabled = True\<rparr>)],
     PublicationPolicies := [(''t'', [sample_disclosure])], PublicationDecisions := [(''d'', sample_decision)]\<rparr>"

definition sample_consume :: consume_request where
  "sample_consume = \<lparr>cq_OperationKey = ''k'', cq_DecisionID = ''d'', cq_Action = sample_issue_update\<rparr>"

lemma sample_publication_sel [simp]:
  "Sessions sample_publication_state = [(''r'', sample_publisher)]" "Operations sample_publication_state = []"
  "Tasks sample_publication_state = [(''t'', \<lparr>tb_TaskID = ''t'', tb_ProjectID = ''p'', tb_Repository = ''/w/.git'', tb_AdmissionEnabled = True\<rparr>)]"
  "Attempts sample_publication_state = [(''q'', sample_attempt)]" "Leases sample_publication_state = [(''l'', sample_lease ''/w'' ''src'')]"
  "Revisions sample_publication_state = [(''a'', [sample_revision])]"
  "PublicationPolicies sample_publication_state = [(''t'', [sample_disclosure])]"
  "PublicationDecisions sample_publication_state = [(''d'', sample_decision)]" "PublicationConsumed sample_publication_state = []"
  "TaskTerminals sample_publication_state = []" "Recoveries sample_publication_state = []"
  "LifecycleCancellations sample_publication_state = []" "OwnerHash sample_publication_state = sample_id 0"
  by (simp_all add: sample_publication_state_def sample_verify_state_def sample_state_def empty_state_def)

lemma sample_publication_inv: "publication_inv sample_publication_state"
proof -
  have "''title'' \<in> publication_fields ''public'' False False False"
    by (simp add: publication_fields_def publicAllowlist_def)
  then show ?thesis
    by (auto simp: publication_inv_def policies_inv_def gslice_def gget_def decision_sound_def disclosed_def Let_def
        sample_disclosure_def sample_decision_def sample_issue_update_def FieldIssueClose_def)
qed

lemma sample_publicationCurrent:
  "publicationCurrent sample_env sample_publication_state ''r'' (pd_Request sample_decision) k
     = Inr (sample_attempt, sample_revision, sample_disclosure)"
proof -
  have root: "rootSession sample_publication_state ''r'' 10 = Inr (sample_publisher, ''r'')"
    by (simp add: rootSession_Inr gget_def lineage_walk.simps sample_publisher_def)
  have at: "attemptFor sample_publication_state ''a'' ''r'' = Inr sample_attempt"
    by (simp add: attemptFor_def gvals_def) (simp add: sample_attempt_def)
  have cur: "currentRevision sample_publication_state sample_attempt ''n'' ''l'' 1 = Inr sample_revision"
    unfolding currentRevision_Inr using sample_not_withdrawn [of sample_publication_state]
    by (simp add: gslice_def gget_def sample_attempt_def sample_revision_def)
  have l: "currentLease sample_publication_state (sample_lease ''/w'' ''src'') 10"
    using sample_not_withdrawn [of sample_publication_state]
    by (simp add: currentLease_def currentLeaseExcept_def sample_lease_def workerTaskWithdrawn_def)
  have q: "pr_AttemptID (pd_Request sample_decision) = ''a''" "pr_LeaseID (pd_Request sample_decision) = ''l''"
      "pr_RevisionID (pd_Request sample_decision) = ''n''" "pr_ExpectedFence (pd_Request sample_decision) = 1"
      "pr_ExpiresAt (pd_Request sample_decision) = 60" "pa_Repository (pr_Action (pd_Request sample_decision)) = ''o/r''"
    by (simp_all add: sample_decision_def sample_issue_update_def)
  have a: "at_ID sample_attempt = ''a''" "ar_TaskID (at_Request sample_attempt) = ''t''" "at_ProjectID sample_attempt = ''p''"
      "ob_Repository (at_Observation sample_attempt) = ''/w/.git''" by (simp_all add: sample_attempt_def)
  show ?thesis
    unfolding publicationCurrent_def q a sample_env_now root
    by (simp add: at cur l a gget_def gslice_def Let_def)
       (simp add: sample_lease_def sample_publisher_def sample_disclosure_def)
qed

lemma sample_ConsumePublication:
  "\<exists>c s'. ConsumePublication sample_env (sample_id 0) sample_consume sample_publication_state = Inr (c, s')
     \<and> gget (PublicationConsumed s') ''d'' = Some c \<and> pc_DecisionID c = ''d''"
proof -
  have ok: "owner_ok sample_env sample_publication_state (sample_id 0)"
    by (simp add: owner_ok_def sample_env_def sample_id_def)
  have v: "validID ''d''" by code_simp
  have act: "normalizePublicationAction (cq_Action sample_consume) = Inr sample_issue_update"
    by (simp add: normalizePublicationAction_def sample_consume_def sample_issue_update_def)
  have q: "cq_OperationKey sample_consume = ''k''" "cq_DecisionID sample_consume = ''d''"
      "pr_Action (pd_Request sample_decision) = sample_issue_update" "pa_Action sample_issue_update = IssueUpdate"
      "as_Verdict (pd_Assessment sample_decision) = Allow" "pd_ID sample_decision = ''d''" "pd_SessionID sample_decision = ''r''"
      "pd_Policy sample_decision = sample_disclosure" "pd_Revision sample_decision = sample_revision"
    by (simp_all add: sample_consume_def sample_decision_def sample_issue_update_def)
  have adm: "admitted sample_env sample_publication_state sample_attempt"
    by (simp add: admitted_def sample_env_def)
  show ?thesis
    unfolding ConsumePublication_def act bindr_simps Let_def
    by (simp add: ok v q adm sample_publicationCurrent sample_observeRevision)
       (simp add: gget_def gput_def fetch_def q adm sample_publicationCurrent sample_observeRevision)
qed

section \<open>Properties\<close>

text \<open>C8: A decision is consumed at most once. A consumption under a new operation key marks a decision that
  was not consumed, changes no other mark, and from then on every consumption of that decision under
  a new key is refused in every state that still holds the mark; repeating the request is answered
  with the same receipt and changes nothing.\<close>

theorem publication_consumed_once:
  assumes "ConsumePublication E owner' req s = Inr (c, s')" "gget (Operations s) (cq_OperationKey req) = None"
    "publication_inv s"
  shows "gget (PublicationConsumed s) (cq_DecisionID req) = None
     \<and> gget (PublicationConsumed s') (cq_DecisionID req) = Some c
     \<and> (\<forall>k. k \<noteq> cq_DecisionID req \<longrightarrow> gget (PublicationConsumed s') k = gget (PublicationConsumed s) k)
     \<and> (publication_inv t \<longrightarrow> gget (PublicationConsumed t) (cq_DecisionID req) \<noteq> None \<longrightarrow>
          cq_DecisionID req' = cq_DecisionID req \<longrightarrow> gget (Operations t) (cq_OperationKey req') = None \<longrightarrow>
          ConsumePublication E' owner'' req' t \<noteq> Inr x)
     \<and> (gget (Operations t) (cq_OperationKey req) = gget (Operations s') (cq_OperationKey req) \<longrightarrow>
          ConsumePublication E' owner' req t = Inr (c', t') \<longrightarrow> c' = c \<and> t' = t)"
proof -
  have named: "pd_ID d = k" if "publication_inv u" "gget (PublicationDecisions u) k = Some d" for u d k
    using that unfolding publication_inv_def by blast
  have refused: "ConsumePublication E' owner'' req' t \<noteq> Inr x"
    if "publication_inv t" "gget (PublicationConsumed t) (cq_DecisionID req') \<noteq> None" "gget (Operations t) (cq_OperationKey req') = None"
  proof
    assume "ConsumePublication E' owner'' req' t = Inr x"
    then have "ConsumePublication E' owner'' req' t = Inr (fst x, snd x)" by simp
    then show False
      using that named [OF that(1)] by (cases rule: ConsumePublication_Inr) auto
  qed
  have again: "gget (Operations t) (cq_OperationKey req) = gget (Operations s') (cq_OperationKey req) \<Longrightarrow>
      ConsumePublication E' owner' req t = Inr (c', t') \<Longrightarrow> c' = c \<and> t' = t"
    using consume_key.once [of E "(owner', req)" s c s' t E' c' t'] assms(1) by simp
  from assms(1) show ?thesis
  proof (cases rule: ConsumePublication_Inr)
    case (consumed d a v p q)
    have "pd_ID d = cq_DecisionID req" using named [OF assms(3) consumed(3)] .
    with consumed refused again show ?thesis by auto
  qed (simp add: assms(2))
qed

theorem publication_consumed_once_witness:
  "\<exists>c s'. ConsumePublication sample_env (sample_id 0) sample_consume sample_publication_state = Inr (c, s')
     \<and> gget (PublicationConsumed s') ''d'' = Some c"
proof -
  obtain c s' where c: "ConsumePublication sample_env (sample_id 0) sample_consume sample_publication_state = Inr (c, s')"
    using sample_ConsumePublication by blast
  have "gget (PublicationConsumed s') (cq_DecisionID sample_consume) = Some c"
    using publication_consumed_once [OF c _ sample_publication_inv] by simp
  with c show ?thesis by (auto simp: sample_consume_def)
qed

text \<open>Nothing the owner withholds is published. A new consumption is by the owner, of a recorded Allow
  decision for exactly the requested update; the decision's policy is the task's current one and
  discloses every field of the update; the worker's session is live, scoped to the repository, and
  holds the lease under the decided fence; the decision has not expired; and the revision is the
  latest, with its commit and tree still in the checkout.\<close>

theorem publication_sound:
  assumes "ConsumePublication E owner' req s = Inr (c, s')" "gget (Operations s) (cq_OperationKey req) = None"
    "publication_inv s"
  shows "owner_ok E s owner' \<and> (\<exists>d a v l r root. gget (PublicationDecisions s) (cq_DecisionID req) = Some d
     \<and> as_Verdict (pd_Assessment d) = Allow \<and> pa_Action (cq_Action req) = IssueUpdate
     \<and> attemptFor s (pr_AttemptID (pd_Request d)) (pd_SessionID d) = Inr a
     \<and> pd_Policy d = last (gslice (PublicationPolicies s) (ar_TaskID (at_Request a)))
     \<and> (\<forall>f \<in> set (pa_Fields (cq_Action req)). disclosed (pd_Policy d) f)
     \<and> pa_Repository (cq_Action req) = pp_Repository (pd_Policy d)
     \<and> rootSession s (pd_SessionID d) (e_now E 4) = Inr (r, root)
     \<and> ''repository:'' @ pp_Repository (pd_Policy d) \<in> set (sc_Resources (se_Scope r))
     \<and> gget (Leases s) (pr_LeaseID (pd_Request d)) = Some l \<and> l_Fence l = pr_ExpectedFence (pd_Request d)
     \<and> currentLease s l (e_now E 5) \<and> e_now E 6 < pr_ExpiresAt (pd_Request d)
     \<and> v = pd_Revision d \<and> v = last (gslice (Revisions s) (at_ID a))
     \<and> (\<exists>obs. Observe E 0 (e_now E 3) (ob_Locator (at_Observation a)) = Inr obs
          \<and> ob_Commit obs = ob_Commit (rv_Observation v) \<and> ob_Tree obs = ob_Tree (rv_Observation v)))"
  using assms(1)
proof (cases rule: ConsumePublication_Inr)
  case (consumed d a v p q)
  note cur = publicationCurrent_Inr [OF consumed(8)]
  from cur obtain r root l where rl: "rootSession s (pd_SessionID d) (e_now E 4) = Inr (r, root)"
      "''repository:'' @ pp_Repository p \<in> set (sc_Resources (se_Scope r))"
      "gget (Leases s) (pr_LeaseID (pd_Request d)) = Some l" "l_Fence l = pr_ExpectedFence (pd_Request d)"
      "currentLease s l (e_now E 5)"
    by (auto simp: numeral_eq_Suc)
  have t: "e_now E 6 < pr_ExpiresAt (pd_Request d)" using cur by (simp add: numeral_eq_Suc)
  have act: "pa_Action (cq_Action req) = IssueUpdate" "pa_Repository (cq_Action req) = pp_Repository p"
      "set (pa_Fields (cq_Action req)) = set (pa_Fields (pr_Action (pd_Request d)))"
    using consumed(5,6) cur by (simp_all add: normalized_def)
  have "decision_sound s d" using assms(3) consumed(3) unfolding publication_inv_def by blast
  with consumed(4) act(3) have f: "\<forall>f \<in> set (pa_Fields (cq_Action req)). disclosed (pd_Policy d) f"
    by (simp add: decision_sound_def)
  have v: "v = last (gslice (Revisions s) (at_ID a))" using cur unfolding currentRevision_Inr by blast
  from consumed(12) obtain obs where o: "Observe E 0 (e_now E 3) (ob_Locator (at_Observation a)) = Inr obs"
      "ob_Commit obs = ob_Commit (rv_Observation v)" "ob_Tree obs = ob_Tree (rv_Observation v)"
    by (auto simp: observeRevision_Inr)
  show ?thesis
    using consumed(2,3,4,9,10) cur rl t act(1,2) f v o by blast
qed (simp add: assms(2))

theorem publication_sound_witness:
  "\<exists>d. gget (PublicationDecisions sample_publication_state) ''d'' = Some d \<and> disclosed (pd_Policy d) ''title''"
proof -
  obtain c s' where c: "ConsumePublication sample_env (sample_id 0) sample_consume sample_publication_state = Inr (c, s')"
    using sample_ConsumePublication by blast
  have "''title'' \<in> set (pa_Fields (cq_Action sample_consume))" "cq_DecisionID sample_consume = ''d''"
    by (simp_all add: sample_consume_def sample_issue_update_def)
  with publication_sound [OF c _ sample_publication_inv] show ?thesis by auto
qed

text \<open>Changing the policy withdraws every outstanding decision under the old one. The owner's change is
  appended to a history numbered from 1 without gaps (and refused when the owner expected another
  generation); afterwards no decision made earlier for that task can be newly consumed.\<close>

theorem policy_change_withdraws:
  assumes "SetPublicationPolicy E owner' req s = Inr (p, s')" "publication_inv s"
  shows "publication_inv s' \<and> owner_ok E s owner'
     \<and> gslice (PublicationPolicies s') (zp_TaskID req) = gslice (PublicationPolicies s) (zp_TaskID req) @ [p]
     \<and> zp_ExpectedGeneration req = of_nat (length (gslice (PublicationPolicies s) (zp_TaskID req)))
     \<and> unat (pp_Generation p) = Suc (length (gslice (PublicationPolicies s) (zp_TaskID req)))
     \<and> (gget (PublicationDecisions s') (cq_DecisionID creq) = Some d \<longrightarrow> pp_TaskID (pd_Policy d) = zp_TaskID req \<longrightarrow>
          gget (Operations s') (cq_OperationKey creq) = None \<longrightarrow> ConsumePublication E' owner'' creq s' \<noteq> Inr x)"
proof -
  let ?h = "gslice (PublicationPolicies s) (zp_TaskID req)"
  note r = SetPublicationPolicy_Inr [OF assms(1)]
  have inv': "publication_inv s'" by (rule set_policy_inv [OF assms])
  then have pol': "policies_inv s'" by (simp add: publication_inv_def)
  have inv: "policies_inv s" using assms(2) by (simp add: publication_inv_def)
  have hist: "gslice (PublicationPolicies s') (zp_TaskID req) = ?h @ [p]" "PublicationDecisions s' = PublicationDecisions s"
    using r by simp_all
  have len: "Suc (length ?h) < 2 ^ 64"
    using policies_invD(1) [OF pol', of "zp_TaskID req"] hist(1) by simp
  then have gen: "unat (pp_Generation p) = Suc (length ?h)"
    using r by (simp add: unat_of_nat del: of_nat_Suc)
  have older: "unat (pp_Generation q) \<le> length ?h" if "q \<in> set ?h" for q
  proof -
    from that have "pp_Generation q \<in> set (map of_nat [1..<Suc (length ?h)])"
      using policies_invD(2) [OF inv, of "zp_TaskID req"] by (metis image_eqI set_map)
    then obtain n where "n \<in> set [1..<Suc (length ?h)]" "pp_Generation q = of_nat n"
      unfolding set_map by blast
    then have "n \<le> length ?h" "pp_Generation q = of_nat n" by auto
    with len show ?thesis by (simp add: unat_of_nat)
  qed
  have refused: "ConsumePublication E' owner'' creq s' \<noteq> Inr x"
    if d: "gget (PublicationDecisions s') (cq_DecisionID creq) = Some d" "pp_TaskID (pd_Policy d) = zp_TaskID req"
      "gget (Operations s') (cq_OperationKey creq) = None"
  proof
    assume "ConsumePublication E' owner'' creq s' = Inr x"
    then have "ConsumePublication E' owner'' creq s' = Inr (fst x, snd x)" by simp
    then show False
    proof (cases rule: ConsumePublication_Inr)
      case (consumed d' a v p' q)
      have [simp]: "d' = d" using consumed(3) d(1) by simp
      have "p' \<in> set (gslice (PublicationPolicies s') (ar_TaskID (at_Request a)))"
        using publicationCurrent_Inr [OF consumed(8)] by auto
      from policies_invD(3) [OF pol' this] consumed(9) d(2) have "ar_TaskID (at_Request a) = zp_TaskID req" by simp
      with publicationCurrent_Inr [OF consumed(8)] hist(1) have "p' = p" by simp
      moreover have "pd_Policy d \<in> set ?h"
        using assms(2) d(1,2) hist(2) unfolding publication_inv_def decision_sound_def by metis
      ultimately show False using older gen consumed(9) by force
    qed (use d(3) in simp)
  qed
  have "zp_ExpectedGeneration req = of_nat (length ?h)"
    using assms(1) by (clarsimp simp: SetPublicationPolicy_def Let_def)
  with inv' r hist(1) gen refused show ?thesis by blast
qed

theorem policy_change_withdraws_witness:
  "\<exists>p s'. SetPublicationPolicy sample_env (sample_id 0) \<lparr>zp_TaskID = ''t'', zp_Repository = ''o/r'', zp_Visibility = ''private'',
      zp_IncludeInternal = False, zp_RecordedInternal = False, zp_ExpectedGeneration = 1\<rparr> sample_publication_state = Inr (p, s')
     \<and> (\<forall>x. ConsumePublication sample_env (sample_id 0) sample_consume s' \<noteq> Inr x)"
proof -
  let ?q = "\<lparr>zp_TaskID = ''t'', zp_Repository = ''o/r'', zp_Visibility = ''private'',
      zp_IncludeInternal = False, zp_RecordedInternal = False, zp_ExpectedGeneration = 1\<rparr>"
  have ok: "owner_ok sample_env sample_publication_state (sample_id 0)"
    by (simp add: owner_ok_def sample_env_def sample_id_def)
  have "repositoryPattern ''o/r''" by code_simp
  then obtain p s' where p: "SetPublicationPolicy sample_env (sample_id 0) ?q sample_publication_state = Inr (p, s')"
    by (simp add: SetPublicationPolicy_def ok Let_def gslice_def gget_def fetch_def)
  then have ops: "Operations s' = []" "PublicationDecisions s' = [(''d'', sample_decision)]"
    by (auto simp: SetPublicationPolicy_def Let_def)
  have d: "gget (PublicationDecisions s') (cq_DecisionID sample_consume) = Some sample_decision"
      "pp_TaskID (pd_Policy sample_decision) = ''t''"
    by (simp_all add: ops gget_def sample_consume_def sample_decision_def sample_disclosure_def)
  have "ConsumePublication sample_env (sample_id 0) sample_consume s' \<noteq> Inr x" for x
    using policy_change_withdraws [OF p sample_publication_inv] d ops(1) by simp
  with p show ?thesis by blast
qed

end
