(* ===== verification/Kernel_Steps.thy ===== *)
theory Kernel_Steps
  imports Recovery_Kernel Review_Kernel Publication_Kernel
begin

text \<open>
  The authority as a transition system: one step per mutating handler of the modelled components, in
  any order, by any caller, with any environment (clock, random source, hash, Git, observers). Refused
  calls are no steps, since a refused transaction leaves the aggregate. The invariants of the
  components hold in every state reachable from a freshly allocated aggregate, and what a step may
  never undo (revocations, withdrawals, fences) is monotone along every run.
\<close>

section \<open>Frames\<close>

text \<open>The parts of the aggregate that the invariants and the monotone facts speak of. A handler that
  leaves them alone is recognised by the shape of its definition.\<close>

definition core :: "state \<Rightarrow> _" where
  "core s = (Sessions s, Leases s, Dispatches s, Fence s, Recoveries s, Revisions s, PublicationPolicies s,
     PublicationDecisions s, LifecycleObservations s, LifecycleCancellations s, TaskTerminals s)"

text \<open>\<open>keeps c r s\<close>: an operation that answered \<open>r\<close> in \<open>s\<close> left \<open>c\<close> as it was.\<close>

definition keeps :: "(state \<Rightarrow> 'c) \<Rightarrow> ('r \<times> state) res \<Rightarrow> state \<Rightarrow> bool" where
  "keeps c r s \<longleftrightarrow> (\<forall>x s'. r = Inr (x, s') \<longrightarrow> c s' = c s)"

named_theorems frame_intros \<open>syntax-directed rules for frames\<close>

lemma keepsD: "keeps c r s \<Longrightarrow> r = Inr (x, s') \<Longrightarrow> c s' = c s"
  by (simp add: keeps_def)

lemma keeps_Inl [frame_intros]: "keeps c (Inl e) s"
  by (simp add: keeps_def)

lemma keeps_Inr [frame_intros]: "c s' = c s \<Longrightarrow> keeps c (Inr (x, s')) s"
  by (simp add: keeps_def)

lemma keeps_require [frame_intros]: "keeps c k s \<Longrightarrow> keeps c (require b e k) s"
  by (simp add: keeps_def)

lemma keeps_bindr [frame_intros]: "(\<And>x. keeps c (f x) s) \<Longrightarrow> keeps c (bindr r f) s"
  unfolding keeps_def by auto

lemma keeps_fetch [frame_intros]: "(\<And>x. keeps c (f x) s) \<Longrightarrow> keeps c (fetch m k f) s"
  unfolding keeps_def by auto

lemma keeps_prod [frame_intros]: "(\<And>a b. keeps c (f a b) s) \<Longrightarrow> keeps c (case p of (a, b) \<Rightarrow> f a b) s"
  by (cases p) simp

lemma keeps_option [frame_intros]:
  "keeps c a s \<Longrightarrow> (\<And>x. keeps c (f x) s) \<Longrightarrow> keeps c (case v of None \<Rightarrow> a | Some x \<Rightarrow> f x) s"
  by (cases v) simp_all

lemma keeps_sum [frame_intros]:
  "(\<And>x. keeps c (f x) s) \<Longrightarrow> (\<And>x. keeps c (g x) s) \<Longrightarrow> keeps c (case v of Inl x \<Rightarrow> f x | Inr x \<Rightarrow> g x) s"
  by (cases v) simp_all

lemma keeps_if [frame_intros]: "keeps c a s \<Longrightarrow> keeps c b s \<Longrightarrow> keeps c (if d then a else b) s"
  by simp

lemma core_updates [simp]:
  "core (s\<lparr>Tasks := a\<rparr>) = core s" "core (s\<lparr>Attempts := b\<rparr>) = core s" "core (s\<lparr>Operations := c\<rparr>) = core s"
  "core (s\<lparr>Grants := d\<rparr>) = core s" "core (s\<lparr>Evidence := e\<rparr>) = core s" "core (s\<lparr>ReviewGrants := f\<rparr>) = core s"
  "core (s\<lparr>Reviews := g\<rparr>) = core s" "core (s\<lparr>PublicationConsumed := h\<rparr>) = core s" "core (s\<lparr>SwarmPolicies := i\<rparr>) = core s"
  "core (s\<lparr>DispatchIntents := j\<rparr>) = core s" "core (s\<lparr>DispatchIntentOperations := k\<rparr>) = core s"
  "core (s\<lparr>LifecyclePolicyHistory := l\<rparr>) = core s" "core (s\<lparr>LifecyclePolicies := m\<rparr>) = core s"
  "core (s\<lparr>LifecycleOperations := n\<rparr>) = core s" "core (s\<lparr>RecoveryPolicyHistory := p\<rparr>) = core s"
  "core (s\<lparr>RecoveryPolicies := q\<rparr>) = core s"
  by (simp_all add: core_def)

lemma frames:
  "keeps core (BindTask E o' b s) s"
  "keeps core (RegisterAttempt E token sess areq before s) s"
  "keeps core (GrantVerification E o' runner task repository check expires s) s"
  "keeps core (RevokeVerification E o' i s) s"
  "keeps core (SubmitEvidence E token sess ereq s) s"
  "keeps core (BeginVerification E wt rt runner vreq descriptor s) s"
  "keeps core (CompleteVerification E wt rt runner vreq res s) s"
  "keeps core (InterruptVerification E wt rt runner vreq descriptor reason s) s"
  "keeps core (GrantReview E au o' greq s) s"
  "keeps core (RevokeReview E o' i s) s"
  "keeps core (ProposeReview E au token sess rreq s) s"
  "keeps core (ConsumePublication E o' creq s) s"
  "keeps core (ConfigureSwarmWithBindings E o' sp bs s) s"
  "keeps core (CorrelateDispatchIntent E token sess dreq s) s"
  "keeps core (ConfigureLifecycle E o' lp s) s"
  "keeps core (ConfigureRecovery E o' rp s) s"
  unfolding BindTask_def RegisterAttempt_def GrantVerification_def RevokeVerification_def SubmitEvidence_def
    BeginVerification_def CompleteVerification_def InterruptVerification_def GrantReview_def RevokeReview_def
    ProposeReview_def ConsumePublication_def ConfigureSwarmWithBindings_def CorrelateDispatchIntent_def
    ConfigureLifecycle_def ConfigureRecovery_def Let_def
  by (intro frame_intros; simp)+

section \<open>The invariant\<close>

definition kernel_inv :: "state \<Rightarrow> bool" where
  "kernel_inv s \<longleftrightarrow> session_inv (Sessions s) \<and> exclusive s \<and> fenced s \<and> filed s \<and> revisions_inv s
     \<and> publication_inv s \<and> logs_inv s"

text \<open>What never goes back: sessions stay, with their parents and revocations; withdrawals stay; fences
  grow, and a lease that was not there before carries a larger fence than the counter had.\<close>

definition session_grows :: "srecord gmap \<Rightarrow> srecord gmap \<Rightarrow> bool" where
  "session_grows S S' \<longleftrightarrow> (\<forall>i r. gget S i = Some r \<longrightarrow> (\<exists>r'. gget S' i = Some r' \<and> se_Parent r' = se_Parent r
     \<and> sr_Hash r' = sr_Hash r \<and> se_ExpiresAt r' = se_ExpiresAt r \<and> se_Scope r' = se_Scope r
     \<and> (se_Revoked r \<longrightarrow> se_Revoked r')))"

definition lease_grows :: "state \<Rightarrow> state \<Rightarrow> bool" where
  "lease_grows s s' \<longleftrightarrow> Fence s \<le> Fence s' \<and> (\<forall>i l. gget (Leases s') i = Some l \<longrightarrow>
     Fence s < l_Fence l \<or> (\<exists>old. gget (Leases s) i = Some old \<and> l_Fence old = l_Fence l \<and> footprint old = footprint l
       \<and> (l_Released old \<longrightarrow> l_Released l)))"

definition withdrawal_grows :: "state \<Rightarrow> state \<Rightarrow> bool" where
  "withdrawal_grows s s' \<longleftrightarrow> TaskTerminals s' = TaskTerminals s \<and> set (gvals (Recoveries s)) \<subseteq> set (gvals (Recoveries s'))
     \<and> lc_Binding ` set (gvals (LifecycleCancellations s)) \<subseteq> lc_Binding ` set (gvals (LifecycleCancellations s'))"

definition grows :: "state \<Rightarrow> state \<Rightarrow> bool" where
  "grows s s' \<longleftrightarrow> session_grows (Sessions s) (Sessions s') \<and> lease_grows s s' \<and> withdrawal_grows s s'"

lemma session_grows_refl: "session_grows S S"
  by (auto simp: session_grows_def)

lemma lease_grows_refl: "Fence s' = Fence s \<Longrightarrow> Leases s' = Leases s \<Longrightarrow> lease_grows s s'"
  by (auto simp: lease_grows_def)

lemma withdrawal_grows_refl:
  "TaskTerminals s' = TaskTerminals s \<Longrightarrow> Recoveries s' = Recoveries s \<Longrightarrow>
   LifecycleCancellations s' = LifecycleCancellations s \<Longrightarrow> withdrawal_grows s s'"
  by (auto simp: withdrawal_grows_def)

lemma session_grows_trans:
  assumes "session_grows S T" "session_grows T U"
  shows "session_grows S U"
  unfolding session_grows_def
proof (intro allI impI)
  fix i r assume "gget S i = Some r"
  with assms(1) obtain t where t: "gget T i = Some t" "se_Parent t = se_Parent r" "sr_Hash t = sr_Hash r"
      "se_ExpiresAt t = se_ExpiresAt r" "se_Scope t = se_Scope r" "se_Revoked r \<longrightarrow> se_Revoked t"
    unfolding session_grows_def by blast
  with assms(2) obtain u where "gget U i = Some u" "se_Parent u = se_Parent t" "sr_Hash u = sr_Hash t"
      "se_ExpiresAt u = se_ExpiresAt t" "se_Scope u = se_Scope t" "se_Revoked t \<longrightarrow> se_Revoked u"
    unfolding session_grows_def by blast
  with t show "\<exists>r'. gget U i = Some r' \<and> se_Parent r' = se_Parent r \<and> sr_Hash r' = sr_Hash r
      \<and> se_ExpiresAt r' = se_ExpiresAt r \<and> se_Scope r' = se_Scope r \<and> (se_Revoked r \<longrightarrow> se_Revoked r')" by simp
qed

lemma lease_grows_trans: 
  assumes "lease_grows s t" "lease_grows t u"
  shows "lease_grows s u"
  unfolding lease_grows_def
proof (intro conjI allI impI)
  show "Fence s \<le> Fence u" using assms unfolding lease_grows_def by (meson order_trans)
  fix i l assume l: "gget (Leases u) i = Some l"
  then consider "Fence t < l_Fence l" | old where "gget (Leases t) i = Some old" "l_Fence old = l_Fence l"
      "footprint old = footprint l" "l_Released old \<longrightarrow> l_Released l"
    using assms(2) unfolding lease_grows_def by blast
  then show "Fence s < l_Fence l \<or> (\<exists>old. gget (Leases s) i = Some old \<and> l_Fence old = l_Fence l
      \<and> footprint old = footprint l \<and> (l_Released old \<longrightarrow> l_Released l))"
  proof cases
    case 1
    with assms(1) show ?thesis unfolding lease_grows_def by (meson le_less_trans)
  next
    case 2
    with assms(1) show ?thesis unfolding lease_grows_def by metis
  qed
qed

lemma withdrawal_grows_trans:
  assumes "withdrawal_grows s t" "withdrawal_grows t u"
  shows "withdrawal_grows s u"
  unfolding withdrawal_grows_def
proof (intro conjI)
  show "TaskTerminals u = TaskTerminals s" using assms unfolding withdrawal_grows_def by simp
  show "set (gvals (Recoveries s)) \<subseteq> set (gvals (Recoveries u))"
    using assms unfolding withdrawal_grows_def by (elim conjE) (rule order_trans)
  show "lc_Binding ` set (gvals (LifecycleCancellations s)) \<subseteq> lc_Binding ` set (gvals (LifecycleCancellations u))"
    using assms unfolding withdrawal_grows_def by (elim conjE) (rule order_trans)
qed

lemma grows_refl: "grows s s"
  by (simp add: grows_def session_grows_refl lease_grows_refl withdrawal_grows_refl)

lemma grows_trans: "grows s t \<Longrightarrow> grows t u \<Longrightarrow> grows s u"
  unfolding grows_def
  using session_grows_trans lease_grows_trans withdrawal_grows_trans by blast

lemma coreD:
  assumes "core s' = core s"
  shows "Sessions s' = Sessions s" "Leases s' = Leases s" "Dispatches s' = Dispatches s" "Fence s' = Fence s"
    "Recoveries s' = Recoveries s" "Revisions s' = Revisions s" "PublicationPolicies s' = PublicationPolicies s"
    "PublicationDecisions s' = PublicationDecisions s" "LifecycleObservations s' = LifecycleObservations s"
    "LifecycleCancellations s' = LifecycleCancellations s" "TaskTerminals s' = TaskTerminals s"
  using assms by (simp_all add: core_def)

lemma claims_same: "Leases s' = Leases s \<Longrightarrow> Dispatches s' = Dispatches s \<Longrightarrow> Recoveries s' = Recoveries s \<Longrightarrow> claims s' = claims s"
  using reservationRetained_cong [of s' s] by (intro ext) (auto simp: claims_def split: sum.splits)

text \<open>Each part of the invariant depends on few maps.\<close>

lemma invariant_frames:
  "Leases s' = Leases s \<Longrightarrow> Dispatches s' = Dispatches s \<Longrightarrow> Recoveries s' = Recoveries s \<Longrightarrow> exclusive s' = exclusive s"
  "Leases s' = Leases s \<Longrightarrow> Fence s' = Fence s \<Longrightarrow> fenced s' = fenced s"
  "Dispatches s' = Dispatches s \<Longrightarrow> filed s' = filed s"
  "Revisions s' = Revisions s \<Longrightarrow> revisions_inv s' = revisions_inv s"
  "PublicationPolicies s' = PublicationPolicies s \<Longrightarrow> PublicationDecisions s' = PublicationDecisions s \<Longrightarrow>
     publication_inv s' = publication_inv s"
  "LifecycleObservations s' = LifecycleObservations s \<Longrightarrow> logs_inv s' = logs_inv s"
  using claims_same [of s' s]
  by (simp_all add: exclusive_def fenced_def filed_def revisions_inv_def publication_inv_def policies_inv_def
      decision_sound_def logs_inv_def)

lemma kept_core:
  assumes "core s' = core s" "kernel_inv s"
  shows "kernel_inv s' \<and> grows s s'"
proof -
  note same = coreD [OF assms(1)]
  have "grows s s'"
    unfolding grows_def same(1)
    by (intro conjI session_grows_refl lease_grows_refl withdrawal_grows_refl same)
  with assms(2) invariant_frames [of s' s] same show ?thesis by (simp add: kernel_inv_def)
qed

section \<open>Handlers that change the core\<close>

definition but_leases :: "state \<Rightarrow> _" where
  "but_leases s = (Sessions s, Dispatches s, Recoveries s, Revisions s, PublicationPolicies s,
     PublicationDecisions s, LifecycleObservations s, LifecycleCancellations s, TaskTerminals s)"

definition but_decisions :: "state \<Rightarrow> _" where
  "but_decisions s = (Sessions s, Leases s, Dispatches s, Fence s, Recoveries s, Revisions s, LifecycleObservations s,
     LifecycleCancellations s, TaskTerminals s)"

lemma but_frames:
  "keeps but_leases (AcquireLease E token sess areq s) s"
  "keeps but_leases (changeLease E token sess key attemptID i fence expires release digest s) s"
  "keeps but_decisions (SetPublicationPolicy E o' preq s) s"
  "keeps but_decisions (Authority_EvaluatePublication E au token sess qreq s) s"
  unfolding AcquireLease_def changeLease_def SetPublicationPolicy_def Authority_EvaluatePublication_def Let_def
  by (intro frame_intros; simp add: but_leases_def but_decisions_def)+

lemma lease_kept:
  assumes "but_leases s' = but_leases s" "lease_grows s s'" "exclusive s'" "fenced s'" "kernel_inv s"
  shows "kernel_inv s' \<and> grows s s'"
proof -
  have same: "Sessions s' = Sessions s" "Dispatches s' = Dispatches s" "Recoveries s' = Recoveries s"
      "Revisions s' = Revisions s" "PublicationPolicies s' = PublicationPolicies s"
      "PublicationDecisions s' = PublicationDecisions s" "LifecycleObservations s' = LifecycleObservations s"
      "LifecycleCancellations s' = LifecycleCancellations s" "TaskTerminals s' = TaskTerminals s"
    using assms(1) by (simp_all add: but_leases_def)
  have "grows s s'"
    unfolding grows_def same(1) by (intro conjI session_grows_refl withdrawal_grows_refl assms(2) same)
  with assms(3-5) invariant_frames(3-6) [of s' s] same show ?thesis by (simp add: kernel_inv_def)
qed

lemma step_acquire:
  assumes "AcquireLease E token sess req s = Inr (l, s')" "kernel_inv s"
  shows "kernel_inv s' \<and> grows s s'"
proof (rule lease_kept [OF keepsD [OF but_frames(1) assms(1)] _ _ _ assms(2)])
  have inv: "exclusive s" "fenced s" using assms(2) by (simp_all add: kernel_inv_def)
  show "exclusive s'" "fenced s'" using acquire_safe [OF assms(1) inv] by simp_all
  show "lease_grows s s'"
    using assms(1)
  proof (cases rule: AcquireLease_Inr)
    case (fresh r a i)
    have "l_Fence l = Fence s + 1" by (subst fresh(11), simp)
    with word_suc_le [OF fresh(9) order_refl] fresh(12) show ?thesis
      by (auto simp: lease_grows_def split: if_splits)
  qed (simp add: lease_grows_refl)
qed

lemma step_change:
  assumes "changeLease E token sess key attemptID i fence expires release digest s = Inr (l, s')" "kernel_inv s"
  shows "kernel_inv s' \<and> grows s s'"
proof (rule lease_kept [OF keepsD [OF but_frames(2) assms(1)] _ _ _ assms(2)])
  have inv: "exclusive s" "fenced s" using assms(2) by (simp_all add: kernel_inv_def)
  show "exclusive s'" by (rule change_exclusive [OF assms(1) inv(1)])
  show "fenced s'" by (rule change_fenced [OF assms(1) inv(2)])
  show "lease_grows s s'"
    using assms(1)
  proof (rule changeLease_Inr)
    fix old
    assume old: "gget (Leases s) i = Some old"
      and miss: "gget (Operations s) key = None \<Longrightarrow>
         currentLease s old (e_now E 2) \<and> (release \<or> (e_now E 2 < expires))
         \<and> l = (if release then old\<lparr>l_Released := True\<rparr> else old\<lparr>l_ExpiresAt := expires\<rparr>)
         \<and> s' = s\<lparr>Leases := gput i l (Leases s),
              Operations := gput key ((empty_operation digest)\<lparr>op_Receipt := l\<rparr>) (Operations s)\<rparr>"
      and hit: "\<And>p. gget (Operations s) key = Some p \<Longrightarrow> op_Digest p = digest \<and> s' = s \<and> l = op_Receipt p"
    show ?thesis
    proof (cases "gget (Operations s) key")
      case None
      note m = miss [OF None]
      have "l_Fence l = l_Fence old" "footprint l = footprint old" "l_Released old \<longrightarrow> l_Released l"
        using m by (auto simp: footprint_def)
      with m old show ?thesis by (auto simp: lease_grows_def)
    next
      case (Some p)
      with hit show ?thesis by (simp add: lease_grows_refl)
    qed
  qed
qed

lemma decisions_kept:
  assumes "but_decisions s' = but_decisions s" "publication_inv s'" "kernel_inv s"
  shows "kernel_inv s' \<and> grows s s'"
proof -
  have same: "Sessions s' = Sessions s" "Leases s' = Leases s" "Dispatches s' = Dispatches s" "Fence s' = Fence s"
      "Recoveries s' = Recoveries s" "Revisions s' = Revisions s" "LifecycleObservations s' = LifecycleObservations s"
      "LifecycleCancellations s' = LifecycleCancellations s" "TaskTerminals s' = TaskTerminals s"
    using assms(1) by (simp_all add: but_decisions_def)
  have "grows s s'"
    unfolding grows_def same(1) by (intro conjI session_grows_refl lease_grows_refl withdrawal_grows_refl same)
  with assms(2,3) invariant_frames(1-4,6) [of s' s] same show ?thesis by (simp add: kernel_inv_def)
qed

lemma step_policy:
  assumes "SetPublicationPolicy E o' req s = Inr (p, s')" "kernel_inv s"
  shows "kernel_inv s' \<and> grows s s'"
  using decisions_kept [OF keepsD [OF but_frames(3) assms(1)] _ assms(2)] set_policy_inv [OF assms(1)] assms(2)
  by (simp add: kernel_inv_def)

lemma step_decide:
  assumes "Authority_EvaluatePublication E au token sess req s = Inr (d, s')" "kernel_inv s"
  shows "kernel_inv s' \<and> grows s s'"
  using decisions_kept [OF keepsD [OF but_frames(4) assms(1)] _ assms(2)] decide_inv [OF assms(1)] assms(2)
  by (simp add: kernel_inv_def)

text \<open>The other handlers: one group of maps each.\<close>

lemma step_issue:
  assumes "issue E credential parent scope expires s = Inr ((x, token), s')" "kernel_inv s"
    "gget (Sessions s) (se_ID x) = None" "se_ID x \<noteq> ''''"
  shows "kernel_inv s' \<and> grows s s'"
  using assms(1)
proof (cases rule: issue_Inr)
  case (1 i)
  have "session_grows (Sessions s) (Sessions s')"
    using assms(3) by (auto simp: session_grows_def 1(6) 1(5))
  then have "grows s s'"
    by (simp add: grows_def 1(6) lease_grows_refl withdrawal_grows_refl)
  with assms(2) issue_session_inv [OF assms(1) _ assms(3,4)] invariant_frames [of s' s] show ?thesis
    by (simp add: kernel_inv_def 1(6))
qed

lemma step_revoke:
  assumes "Revoke E o' i s = Inr (u, s')" "kernel_inv s"
  shows "kernel_inv s' \<and> grows s s'"
  using assms(1)
proof (cases rule: Revoke_Inr)
  case (1 r)
  have "session_grows (Sessions s) (Sessions s')"
    using 1(2) by (auto simp: session_grows_def 1(3))
  then have "grows s s'"
    by (simp add: grows_def 1(3) lease_grows_refl withdrawal_grows_refl)
  with assms(2) revoke_session_inv [OF assms(1)] invariant_frames [of s' s] show ?thesis
    by (simp add: kernel_inv_def 1(3))
qed

lemma step_publish:
  assumes "PublishAttemptRevision E token sess req s = Inr (v, s')" "kernel_inv s"
  shows "kernel_inv s' \<and> grows s s'"
proof -
  have r: "revisions_inv s'" using publish_revisions_inv [OF assms(1)] assms(2) by (simp add: kernel_inv_def)
  from assms(1) show ?thesis
  proof (cases rule: PublishAttemptRevision_Inr)
    case served
    with assms(2) show ?thesis by (simp add: grows_refl)
  next
    case (published a i obs p)
    obtain R P where s': "s' = s\<lparr>Revisions := R, Operations := P\<rparr>" using published(10) by metis
    have "grows s s'"
      by (simp add: grows_def s' session_grows_refl lease_grows_refl withdrawal_grows_refl)
    with assms(2) r invariant_frames [of s' s] show ?thesis by (simp add: kernel_inv_def s')
  qed
qed

lemma step_observe:
  assumes "ObserveLifecycle E token bridge req s = Inr (x, s')" "kernel_inv s"
  shows "kernel_inv s' \<and> grows s s'"
proof -
  have r: "logs_inv s'" using observe_logs_inv [OF assms(1)] assms(2) by (simp add: kernel_inv_def)
  from assms(1) show ?thesis
  proof (cases rule: ObserveLifecycle_Inr)
    case served
    with assms(2) show ?thesis by (simp add: grows_refl)
  next
    case (fresh i p w)
    then obtain R P where s': "s' = s\<lparr>LifecycleObservations := R, LifecycleOperations := P\<rparr>" by blast
    have "grows s s'"
      by (simp add: grows_def s' session_grows_refl lease_grows_refl withdrawal_grows_refl)
    with assms(2) r invariant_frames [of s' s] show ?thesis by (simp add: kernel_inv_def s')
  qed
qed

lemma withdrawal_kept:
  assumes "withdrawal_grows s s'" "Sessions s' = Sessions s" "Leases s' = Leases s" "Dispatches s' = Dispatches s"
    "Fence s' = Fence s" "Recoveries s' = Recoveries s" "Revisions s' = Revisions s"
    "PublicationPolicies s' = PublicationPolicies s" "PublicationDecisions s' = PublicationDecisions s"
    "LifecycleObservations s' = LifecycleObservations s" "kernel_inv s"
  shows "kernel_inv s' \<and> grows s s'"
proof -
  have "grows s s'"
    unfolding grows_def assms(2) by (intro conjI session_grows_refl lease_grows_refl assms)
  with assms(11) invariant_frames [of s' s] assms(2-10) show ?thesis by (simp add: kernel_inv_def)
qed

lemma step_cancel:
  assumes "CancelLifecycle E token controller req s = Inr (x, s')" "kernel_inv s"
  shows "kernel_inv s' \<and> grows s s'"
  using assms(1)
proof (cases rule: CancelLifecycle_Inr)
  case served
  with assms(2) show ?thesis by (simp add: grows_refl)
next
  case (fresh i r p)
  have "withdrawal_grows s s'"
    using gvals_gput_fresh [OF fresh(4)] by (auto simp: withdrawal_grows_def fresh(14))
  then show ?thesis
    by (rule withdrawal_kept) (simp_all add: fresh(14) assms(2))
qed

lemma step_acknowledge:
  assumes "AcknowledgeCancellation E token bridge req s = Inr (c, s')" "kernel_inv s"
  shows "kernel_inv s' \<and> grows s s'"
  using assms(1)
proof (cases rule: AcknowledgeCancellation_Inr)
  case served
  with assms(2) show ?thesis by (simp add: grows_refl)
next
  case (fresh i old)
  have "lc_Binding c = lc_Binding old" by (simp add: fresh(7))
  then have "withdrawal_grows s s'"
    using gvals_gput_image [OF fresh(4), of lc_Binding c] by (simp add: withdrawal_grows_def fresh(8))
  then show ?thesis
    by (rule withdrawal_kept) (simp_all add: fresh(8) assms(2))
qed

definition but_recovery :: "state \<Rightarrow> _" where
  "but_recovery s = (Sessions s, Dispatches s, Revisions s, PublicationPolicies s, PublicationDecisions s,
     LifecycleObservations s, LifecycleCancellations s, TaskTerminals s)"

lemma recovery_frame: "keeps but_recovery (Recover E o' req s) s"
  unfolding Recover_def Let_def by (intro frame_intros; simp add: but_recovery_def)

lemma step_recover:
  assumes "Recover E o' req s = Inr (r, s')" "kernel_inv s"
  shows "kernel_inv s' \<and> grows s s'"
proof -
  have inv: "exclusive s" "fenced s" "filed s" using assms(2) by (simp_all add: kernel_inv_def)
  have same: "Sessions s' = Sessions s" "Dispatches s' = Dispatches s" "Revisions s' = Revisions s"
      "PublicationPolicies s' = PublicationPolicies s" "PublicationDecisions s' = PublicationDecisions s"
      "LifecycleObservations s' = LifecycleObservations s" "LifecycleCancellations s' = LifecycleCancellations s"
      "TaskTerminals s' = TaskTerminals s"
    using keepsD [OF recovery_frame assms(1)] by (simp_all add: but_recovery_def)
  have "lease_grows s s' \<and> withdrawal_grows s s'"
    using assms(1)
  proof (cases rule: Recover_Inr)
    case served
    then show ?thesis by (simp add: lease_grows_refl withdrawal_grows_refl)
  next
    case (fresh l)
    obtain l where l: "claims s (protected_claim (rx_Target r)) l"
      "Leases s' = (if rt_Kind (rx_Target r) = ''lease'' then gput (rt_ProtectionID (rx_Target r)) (l\<lparr>l_Released := True\<rparr>) (Leases s)
           else Leases s)"
      using recovery_claims [OF assms(1) fresh(1) inv(2,3)] by blast
    have "Fence s \<le> Fence s'" using word_suc_le [OF fresh(4) order_refl] by (simp add: fresh(13) less_imp_le)
    with l have "lease_grows s s'"
      by (auto simp: lease_grows_def protected_claim_def claims_def footprint_def split: if_splits)
    moreover have "withdrawal_grows s s'"
      using gvals_gput_fresh [OF fresh(2)] same by (auto simp: withdrawal_grows_def fresh(14))
    ultimately show ?thesis ..
  qed
  with recovery_safe_inv [OF assms(1) inv] assms(2) invariant_frames(4-6) [of s' s] same show ?thesis
    by (simp add: kernel_inv_def grows_def session_grows_refl)
qed

section \<open>The transition system\<close>

text \<open>One rule per mutating handler. Enrolment and delegation assume what the sources rely on of a
  256-bit random identifier: that it is not empty and not yet in use.\<close>

inductive kstep :: "state \<Rightarrow> state \<Rightarrow> bool" where
  enroll: "Enroll E o' scope expires s = Inr ((x, token), s') \<Longrightarrow> gget (Sessions s) (se_ID x) = None \<Longrightarrow> se_ID x \<noteq> ''''
     \<Longrightarrow> kstep s s'"
| delegate: "Delegate E cred parent scope expires s = Inr ((x, token), s') \<Longrightarrow> gget (Sessions s) (se_ID x) = None
     \<Longrightarrow> se_ID x \<noteq> '''' \<Longrightarrow> kstep s s'"
| revoke: "Revoke E o' i s = Inr (u, s') \<Longrightarrow> kstep s s'"
| bind_task: "BindTask E o' b s = Inr (u, s') \<Longrightarrow> kstep s s'"
| register: "RegisterAttempt E token sess areq before s = Inr (a, s') \<Longrightarrow> kstep s s'"
| acquire: "AcquireLease E token sess lreq s = Inr (l, s') \<Longrightarrow> kstep s s'"
| renew: "RenewLease E token sess nreq s = Inr (l, s') \<Longrightarrow> kstep s s'"
| release: "ReleaseLease E token sess freq s = Inr (l, s') \<Longrightarrow> kstep s s'"
| publish_revision: "PublishAttemptRevision E token sess preq s = Inr (v, s') \<Longrightarrow> kstep s s'"
| grant_verification: "GrantVerification E o' runner task repository check expires s = Inr (g, s') \<Longrightarrow> kstep s s'"
| revoke_verification: "RevokeVerification E o' i s = Inr (u, s') \<Longrightarrow> kstep s s'"
| submit: "SubmitEvidence E token sess ereq s = Inr (ev, s') \<Longrightarrow> kstep s s'"
| begin_verification: "BeginVerification E wt rt runner vreq descriptor s = Inr (out, s') \<Longrightarrow> kstep s s'"
| complete_verification: "CompleteVerification E wt rt runner vreq res s = Inr (ev, s') \<Longrightarrow> kstep s s'"
| interrupt_verification: "InterruptVerification E wt rt runner vreq descriptor reason s = Inr (vi, s') \<Longrightarrow> kstep s s'"
| grant_review: "GrantReview E au o' greq s = Inr (rg, s') \<Longrightarrow> kstep s s'"
| revoke_review: "RevokeReview E o' i s = Inr (u, s') \<Longrightarrow> kstep s s'"
| propose_review: "ProposeReview E au token sess rreq s = Inr (w, s') \<Longrightarrow> kstep s s'"
| set_policy: "SetPublicationPolicy E o' zreq s = Inr (p, s') \<Longrightarrow> kstep s s'"
| decide: "Authority_EvaluatePublication E au token sess qreq s = Inr (d, s') \<Longrightarrow> kstep s s'"
| consume: "ConsumePublication E o' creq s = Inr (c, s') \<Longrightarrow> kstep s s'"
| configure_swarm: "ConfigureSwarmWithBindings E o' sp bs s = Inr (u, s') \<Longrightarrow> kstep s s'"
| correlate: "CorrelateDispatchIntent E token sess dreq s = Inr (di, s') \<Longrightarrow> kstep s s'"
| configure_lifecycle: "ConfigureLifecycle E o' lp s = Inr (u, s') \<Longrightarrow> kstep s s'"
| observe: "ObserveLifecycle E token sess oreq s = Inr (ob, s') \<Longrightarrow> kstep s s'"
| cancel: "CancelLifecycle E token sess xreq s = Inr (cx, s') \<Longrightarrow> kstep s s'"
| acknowledge: "AcknowledgeCancellation E token sess kreq s = Inr (lc, s') \<Longrightarrow> kstep s s'"
| configure_recovery: "ConfigureRecovery E o' rp s = Inr (u, s') \<Longrightarrow> kstep s s'"
| recover: "Recover E o' rreq s = Inr (rx, s') \<Longrightarrow> kstep s s'"

lemmas kept_steps = step_revoke step_acquire step_publish step_policy step_decide step_observe step_cancel
  step_acknowledge step_recover frames [THEN keepsD, THEN kept_core]

lemma kstep_sound:
  assumes "kstep s s'" "kernel_inv s"
  shows "kernel_inv s' \<and> grows s s'"
  using assms(1)
proof (cases rule: kstep.cases)
  case enroll
  then show ?thesis using step_issue [OF _ assms(2)] unfolding Enroll_def by blast
next
  case delegate
  then show ?thesis using step_issue [OF _ assms(2)] unfolding Delegate_def by blast
next
  case renew
  then show ?thesis using step_change [OF _ assms(2)] unfolding RenewLease_def by blast
next
  case release
  then show ?thesis using step_change [OF _ assms(2)] unfolding ReleaseLease_def by blast
qed (erule kept_steps [OF _ assms(2)])+

text \<open>Runs, and the states an authority starts from: freshly allocated maps, whatever the schema.\<close>

inductive ksteps :: "state \<Rightarrow> state \<Rightarrow> bool" where
  stay: "ksteps s s"
| go: "ksteps s t \<Longrightarrow> kstep t u \<Longrightarrow> ksteps s u"

lemma ksteps_sound: "ksteps s t \<Longrightarrow> kernel_inv s \<Longrightarrow> kernel_inv t \<and> grows s t"
proof (induction rule: ksteps.induct)
  case (go s t u)
  with kstep_sound [OF go(2)] grows_trans show ?case by blast
qed (simp add: grows_refl)

lemma kernel_inv_empty: "kernel_inv (empty_state b version)"
  by (simp add: kernel_inv_def session_inv_def gwf_def keyed_def attenuated_def parents_exist_def exclusive_def claims_def
      fenced_def filed_def revisions_inv_def publication_inv_def policies_inv_def logs_inv_def well_logged_def gslice_def
      empty_state_def split: sum.splits)

lemma descends_grows:
  "descends S i a \<Longrightarrow> session_grows S S' \<Longrightarrow> descends S' i a"
proof (induction rule: descends.induct)
  case (descends_parent i r a)
  then obtain r' where "gget S' i = Some r'" "se_Parent r' = se_Parent r" unfolding session_grows_def by blast
  with descends_parent show ?case by (auto intro: descends.descends_parent)
qed (rule descends_refl)

lemma withdrawn_grows:
  assumes "grows s t" "workerTaskWithdrawn s i task"
  shows "workerTaskWithdrawn t i task"
proof -
  have S: "descends (Sessions s) i a \<Longrightarrow> descends (Sessions t) i a" for a
    using descends_grows assms(1) unfolding grows_def by blast
  have w: "TaskTerminals t = TaskTerminals s" "set (gvals (Recoveries s)) \<subseteq> set (gvals (Recoveries t))"
      "lc_Binding ` set (gvals (LifecycleCancellations s)) \<subseteq> lc_Binding ` set (gvals (LifecycleCancellations t))"
    using assms(1) by (simp_all add: grows_def withdrawal_grows_def)
  have c: "\<exists>d \<in> set (gvals (LifecycleCancellations t)). lc_Binding d = lc_Binding c"
    if "c \<in> set (gvals (LifecycleCancellations s))" for c
    using that w(3) by (metis image_iff subsetD imageI)
  from assms(2) show ?thesis
    unfolding workerTaskWithdrawn_def workerTaskWithdrawnExcept_iff w(1) using S w(2) c by (metis subsetD)
qed

end
