(* ===== verification/Markdown_Values.thy ===== *)
theory Markdown_Values
  imports Prelude
begin

text \<open>
  The values of the frontmatter of \<^verbatim>\<open>internal/mdstore/mdstore.go\<close>: scalars and inline lists and maps,
  how they are quoted when written and cleaned when read, and the ordered entries that hold them. The
  main facts are the two round trips: what \<open>Set\<close> writes \<open>Get\<close> reads back whatever the bytes, and what
  \<open>SetList\<close> writes \<open>GetList\<close> reads back but for empty elements.
\<close>

section \<open>Scalars\<close>

text \<open>The loop of \<^verbatim>\<open>clean\<close> up to an unquoted comment. \<open>q\<close> is the open quote, \<open>p\<close> the byte before.\<close>

fun before_comment :: "char option \<Rightarrow> char option \<Rightarrow> string \<Rightarrow> string" where
  "before_comment q p [] = []"
| "before_comment q p (c # s) =
     (if q = Some (CHR 0x22) \<and> c = CHR 0x5C \<and> s \<noteq> [] then
        c # (case s of [] \<Rightarrow> [] | d # t \<Rightarrow> d # before_comment q (Some d) t)
      else if q \<noteq> None then c # before_comment (if q = Some c then None else q) (Some c) s
      else if c = CHR 0x22 \<or> c = CHR 0x27 then c # before_comment (Some c) (Some c) s
      else if c = CHR ''#'' \<and> (p = Some (CHR '' '') \<or> p = Some (CHR 0x09)) then []
      else c # before_comment None (Some c) s)"

fun unescape_loop :: "string \<Rightarrow> string" where
  "unescape_loop [] = []"
| "unescape_loop [c] = [c]"
| "unescape_loop (c # d # s) =
     (if c = CHR 0x5C then
        (if d = CHR 0x22 \<or> d = CHR 0x5C then d # unescape_loop s
         else if d = CHR ''n'' then CHR 0x0A # unescape_loop s
         else if d = CHR ''r'' then CHR 0x0D # unescape_loop s
         else if d = CHR ''t'' then CHR 0x09 # unescape_loop s
         else c # unescape_loop (d # s))
      else c # unescape_loop (d # s))"

definition unescapeDouble :: "string \<Rightarrow> string" where
  "unescapeDouble s = (if CHR 0x5C \<notin> set s then s else unescape_loop s)"

definition clean :: "string \<Rightarrow> string" where
  "clean v0 =
     (let v1 = trim_space v0;
          w = before_comment None None v1;
          v = (if length w < length v1 then trim_space w else v1)
      in if 2 \<le> length v \<and> (hd v = CHR 0x22 \<and> last v = CHR 0x22 \<or> hd v = CHR 0x27 \<and> last v = CHR 0x27) then
           (let u = butlast (tl v) in if hd v = CHR 0x22 then unescapeDouble u else u)
         else v)"

text \<open>The escaping loops of \<^verbatim>\<open>quoteScalar\<close> and \<^verbatim>\<open>quoteListElem\<close>.\<close>

fun escape_all :: "string \<Rightarrow> string" where
  "escape_all [] = []"
| "escape_all (c # s) =
     (if c = CHR 0x22 \<or> c = CHR 0x5C then [CHR 0x5C, c]
      else if c = CHR 0x0A then [CHR 0x5C, CHR ''n'']
      else if c = CHR 0x0D then [CHR 0x5C, CHR ''r'']
      else if c = CHR 0x09 then [CHR 0x5C, CHR ''t'']
      else [c]) @ escape_all s"

fun escape_quotes :: "string \<Rightarrow> string" where
  "escape_quotes [] = []"
| "escape_quotes (c # s) =
     (if c = CHR 0x22 \<or> c = CHR 0x5C then [CHR 0x5C, c] else [c]) @ escape_quotes s"

definition quoteScalar :: "string \<Rightarrow> string" where
  "quoteScalar s =
     (if s = [] \<or> s \<noteq> trim_space s
         \<or> contains_any s [CHR 0x0D, CHR 0x0A, CHR 0x09, CHR 0x22, CHR 0x27, CHR ''#'']
         \<or> has_prefix s ''|'' \<or> has_prefix s ''>'' \<or> has_prefix s ''&'' \<or> has_prefix s ''*''
         \<or> has_prefix s ''['' \<or> has_prefix s ''{''
      then CHR 0x22 # escape_all s @ [CHR 0x22] else s)"

definition quoteListElem :: "string \<Rightarrow> string" where
  "quoteListElem s =
     (if \<not> contains_any s [CHR '','', CHR ''['', CHR '']'', CHR ''{'', CHR ''}'', CHR ''#'', CHR 0x22, CHR 0x27]
         \<and> s = trim_space s
      then s else CHR 0x22 # escape_quotes s @ [CHR 0x22])"

section \<open>Inline lists\<close>

text \<open>The segments \<^verbatim>\<open>splitTop\<close> cuts at commas outside quotes, brackets and braces. \<open>glue w\<close> puts \<open>w\<close>
  in front of the first segment.\<close>

fun glue :: "string \<Rightarrow> string list \<Rightarrow> string list" where
  "glue w [] = [w]"
| "glue w (x # xs) = (w @ x) # xs"

fun top_parts :: "char option \<Rightarrow> int \<Rightarrow> string \<Rightarrow> string list" where
  "top_parts q d [] = [[]]"
| "top_parts q d (c # s) =
     (if q = Some (CHR 0x22) \<and> c = CHR 0x5C \<and> s \<noteq> [] then
        (case s of [] \<Rightarrow> [[c]] | e # t \<Rightarrow> glue [c, e] (top_parts q d t))
      else if q \<noteq> None then glue [c] (top_parts (if q = Some c then None else q) d s)
      else if c = CHR 0x22 \<or> c = CHR 0x27 then glue [c] (top_parts (Some c) d s)
      else if c = CHR ''['' \<or> c = CHR ''{'' then glue [c] (top_parts None (d + 1) s)
      else if c = CHR '']'' \<or> c = CHR ''}'' then glue [c] (top_parts None (d - 1) s)
      else if c = CHR '','' \<and> d = 0 then [] # top_parts None d s
      else glue [c] (top_parts None d s))"

definition splitTop :: "string \<Rightarrow> string list" where
  "splitTop s = map clean (filter (\<lambda>p. p \<noteq> []) (map trim_space (top_parts None 0 s)))"

section \<open>Entries\<close>

record entry =
  en_Key :: string
  en_Value :: string
  en_Block :: string
  en_Raw :: string

text \<open>\<^verbatim>\<open>Front\<close> is its list of entries.\<close>

type_synonym front = "entry list"

definition scalar_entry :: "string \<Rightarrow> string \<Rightarrow> entry" where
  "scalar_entry k v = \<lparr>en_Key = k, en_Value = v, en_Block = [], en_Raw = []\<rparr>"

definition block_entry :: "string \<Rightarrow> string \<Rightarrow> entry" where
  "block_entry k b = \<lparr>en_Key = k, en_Value = [], en_Block = b, en_Raw = []\<rparr>"

fun Get :: "front \<Rightarrow> string \<Rightarrow> string option" where
  "Get [] k = None"
| "Get (e # f) k = (if en_Key e = k \<and> en_Block e = [] then Some (clean (en_Value e)) else Get f k)"

fun GetBlock :: "front \<Rightarrow> string \<Rightarrow> string option" where
  "GetBlock [] k = None"
| "GetBlock (e # f) k = (if en_Key e = k \<and> en_Block e \<noteq> [] then Some (en_Block e) else GetBlock f k)"

text \<open>The loop of \<^verbatim>\<open>Set\<close> and \<^verbatim>\<open>SetBlock\<close>: replace the first entry of the key, or append.\<close>

fun put_entry :: "string \<Rightarrow> entry \<Rightarrow> front \<Rightarrow> front" where
  "put_entry k x [] = [x]"
| "put_entry k x (e # f) = (if en_Key e = k then x # f else e # put_entry k x f)"

definition Set :: "front \<Rightarrow> string \<Rightarrow> string \<Rightarrow> front" where
  "Set f k v = put_entry k (scalar_entry k (quoteScalar v)) f"

definition SetBlock :: "front \<Rightarrow> string \<Rightarrow> string \<Rightarrow> front" where
  "SetBlock f k b = put_entry k (block_entry k b) f"

fun Delete :: "front \<Rightarrow> string \<Rightarrow> front" where
  "Delete [] k = []"
| "Delete (e # f) k = (if en_Key e = k then f else e # Delete f k)"

definition Keys :: "front \<Rightarrow> string list" where
  "Keys f = filter (\<lambda>k. k \<noteq> []) (map en_Key f)"

fun GetText :: "front \<Rightarrow> string \<Rightarrow> string option" where
  "GetText [] k = None"
| "GetText (e # f) k =
     (if en_Key e \<noteq> k then GetText f k
      else if en_Block e = [] then Some (clean (en_Value e))
      else Some (trim_space (join_with [CHR 0x0A] (map trim_space (split_on (CHR 0x0A) (en_Block e))))))"

definition GetList :: "front \<Rightarrow> string \<Rightarrow> string list" where
  "GetList f k =
     (case Get f k of
        None \<Rightarrow> []
      | Some v \<Rightarrow> if has_prefix v ''['' \<and> has_suffix v '']'' then splitTop (butlast (tl v)) else [])"

definition SetList :: "front \<Rightarrow> string \<Rightarrow> string list \<Rightarrow> front" where
  "SetList f k v = Set f k (''['' @ join_with '', '' (map quoteListElem v) @ '']'')"

text \<open>\<^verbatim>\<open>strings.Index\<close> with both sides of the occurrence.\<close>

fun cut_at :: "string \<Rightarrow> string \<Rightarrow> (string \<times> string) option" where
  "cut_at p [] = (if p = [] then Some ([], []) else None)"
| "cut_at p (c # s) =
     (if has_prefix (c # s) p then Some ([], drop (length p) (c # s))
      else map_option (\<lambda>(a, b). (c # a, b)) (cut_at p s))"

text \<open>A nil map is told from an empty one by \<open>None\<close>. A key written twice keeps its last value.\<close>

definition GetMap :: "front \<Rightarrow> string \<Rightarrow> string gmap option" where
  "GetMap f k =
     (case Get f k of
        None \<Rightarrow> None
      | Some v \<Rightarrow>
          if has_prefix v ''{'' \<and> has_suffix v ''}'' then
            Some (foldl (\<lambda>m part. case cut_at '':'' part of None \<Rightarrow> m
                           | Some (a, b) \<Rightarrow> gput (trim_space a) (trim_space b) m) []
                    (splitTop (butlast (tl v))))
          else None)"

section \<open>Trimming\<close>

lemma strip_runes_step:
  "find (\<lambda>r. r \<noteq> [] \<and> has_prefix s r) rs = None \<Longrightarrow> strip_runes rs s = s"
  "find (\<lambda>r. r \<noteq> [] \<and> has_prefix s r) rs = Some r \<Longrightarrow> strip_runes rs s = strip_runes rs (drop (length r) s)"
  by (subst strip_runes.simps, simp)+

lemma strip_runes_None: "(\<And>r. r \<in> set rs \<Longrightarrow> r \<noteq> [] \<Longrightarrow> \<not> has_prefix s r) \<Longrightarrow> strip_runes rs s = s"
  by (rule strip_runes_step) (auto simp: find_None_iff)

lemma strip_runes_suffix: "\<exists>u. s = u @ strip_runes rs s"
proof (induction rs s rule: strip_runes.induct)
  case (1 rs s)
  show ?case
  proof (cases "find (\<lambda>r. r \<noteq> [] \<and> has_prefix s r) rs")
    case None
    then show ?thesis by (simp add: strip_runes_step)
  next
    case (Some r)
    with 1 obtain u where "drop (length r) s = u @ strip_runes rs (drop (length r) s)" by blast
    then have "s = (take (length r) s @ u) @ strip_runes rs (drop (length r) s)"
      by (metis append_assoc append_take_drop_id)
    with Some show ?thesis by (simp only: strip_runes_step(2)) blast
  qed
qed

lemma strip_runes_done: "r \<in> set rs \<Longrightarrow> r \<noteq> [] \<Longrightarrow> \<not> has_prefix (strip_runes rs s) r"
proof (induction rs s rule: strip_runes.induct)
  case (1 rs s)
  show ?case
  proof (cases "find (\<lambda>r. r \<noteq> [] \<and> has_prefix s r) rs")
    case None
    with 1(2,3) show ?thesis by (simp add: strip_runes_step) (auto simp: find_None_iff)
  next
    case (Some r')
    with 1 show ?thesis by (simp add: strip_runes_step(2))
  qed
qed

text \<open>A string without white space around it, which is what \<^const>\<open>trim_space\<close> makes and keeps.\<close>

definition tight :: "string \<Rightarrow> bool" where
  "tight s \<longleftrightarrow> (\<forall>r \<in> set space_runes. \<not> has_prefix s r \<and> \<not> has_suffix s r)"

lemma space_runes_nonempty: "r \<in> set space_runes \<Longrightarrow> r \<noteq> []"
  by (auto simp: space_runes_def)

lemma has_suffix_iff: "has_suffix s p \<longleftrightarrow> (\<exists>t. s = t @ p)"
  unfolding has_suffix_def has_prefix_iff by (metis rev_append rev_rev_ident)

lemma tight_trim [simp]: "tight (trim_space s)"
proof -
  let ?l = "strip_runes space_runes s"
  let ?t = "strip_runes (map rev space_runes) (rev ?l)"
  have "\<not> has_prefix (rev ?t) r" "\<not> has_suffix (rev ?t) r" if r: "r \<in> set space_runes" for r
  proof -
    obtain u where "rev ?l = u @ ?t" using strip_runes_suffix by blast
    then have "?l = rev ?t @ rev u" by (metis rev_append rev_rev_ident)
    moreover have "\<not> has_prefix ?l r" using strip_runes_done [OF r space_runes_nonempty [OF r]] .
    ultimately show "\<not> has_prefix (rev ?t) r" by (auto simp: has_prefix_iff)
    have "\<not> has_prefix ?t (rev r)"
      using strip_runes_done [of "rev r" "map rev space_runes"] r space_runes_nonempty [OF r] by simp
    then show "\<not> has_suffix (rev ?t) r" by (simp add: has_suffix_def)
  qed
  then show ?thesis by (simp add: tight_def trim_space_def)
qed

lemma trim_tight: "tight s \<Longrightarrow> trim_space s = s"
  unfolding tight_def trim_space_def has_suffix_def
  by (subst strip_runes_None [of space_runes], blast, subst strip_runes_None) auto

lemma trim_iff: "trim_space s = s \<longleftrightarrow> tight s"
  using tight_trim trim_tight by metis

lemma trim_idem [simp]: "trim_space (trim_space s) = trim_space s"
  by (simp add: trim_tight)

lemma tight_Nil [simp]: "tight []"
  by (auto simp: tight_def has_prefix_iff has_suffix_iff dest: space_runes_nonempty)

text \<open>A space rune is one byte of \<open>spaces\<close>, or starts with a byte above ASCII and ends with one.\<close>

lemma hd_rune: "r \<in> set space_runes \<Longrightarrow> hd r \<in> {CHR 0x09, CHR 0x0A, CHR 0x0B, CHR 0x0C, CHR 0x0D, CHR 0x20,
    CHR 0xC2, CHR 0xE1, CHR 0xE2, CHR 0xE3}"
  by (auto simp: space_runes_def)

lemma last_rune: "r \<in> set space_runes \<Longrightarrow> last r \<in> {CHR 0x09, CHR 0x0A, CHR 0x0B, CHR 0x0C, CHR 0x0D, CHR 0x20}
    \<or> CHR 0x80 \<le> last r"
  by (auto simp: space_runes_def)

lemma tight_quoted: "tight (CHR 0x22 # s @ [CHR 0x22])"
  unfolding tight_def
proof (intro ballI conjI notI)
  fix r assume r: "r \<in> set space_runes"
  note n = space_runes_nonempty [OF r]
  {
    assume "has_prefix (CHR 0x22 # s @ [CHR 0x22]) r"
    then have "hd r = CHR 0x22" using n by (cases r) (auto simp: has_prefix_iff)
    with hd_rune [OF r] show False by simp
  next
    assume "has_suffix (CHR 0x22 # s @ [CHR 0x22]) r"
    then have "last r = CHR 0x22" using n by (cases r rule: rev_cases) (auto simp: has_suffix_iff)
    with last_rune [OF r] show False by simp
  }
qed

lemma trim_space_Cons: "trim_space (CHR '' '' # s) = trim_space s"
proof -
  have "strip_runes space_runes (CHR '' '' # s) = strip_runes space_runes s"
    by (subst strip_runes.simps) (simp add: space_runes_def has_prefix_def)
  then show ?thesis by (simp add: trim_space_def)
qed

section \<open>Quoting\<close>

text \<open>The inside of a double-quoted value: bytes that neither close the quote nor escape, and escapes.\<close>

inductive escaped :: "string \<Rightarrow> bool" where
  empty: "escaped []"
| byte: "c \<noteq> CHR 0x22 \<Longrightarrow> c \<noteq> CHR 0x5C \<Longrightarrow> escaped s \<Longrightarrow> escaped (c # s)"
| pair: "escaped s \<Longrightarrow> escaped (CHR 0x5C # d # s)"

lemma escaped_all: "escaped (escape_all s)" and escaped_quotes: "escaped (escape_quotes s)"
  by (induction s) (auto intro: escaped.intros)

lemma before_comment_escaped:
  "escaped s \<Longrightarrow> before_comment (Some (CHR 0x22)) p (s @ [CHR 0x22]) = s @ [CHR 0x22]"
  by (induction s arbitrary: p rule: escaped.induct) simp_all

lemma top_parts_escaped:
  "escaped s \<Longrightarrow> top_parts (Some (CHR 0x22)) d (s @ CHR 0x22 # t) = glue (s @ [CHR 0x22]) (top_parts None d t)"
proof (induction s rule: escaped.induct)
  case empty
  show ?case by (cases "top_parts None d t") simp_all
next
  case (byte c s)
  then show ?case by (cases "top_parts None d t") simp_all
next
  case (pair s e)
  then show ?case by (cases "top_parts None d t") simp_all
qed

lemma clean_quoted: "escaped s \<Longrightarrow> clean (CHR 0x22 # s @ [CHR 0x22]) = unescapeDouble s"
  by (simp add: clean_def trim_tight tight_quoted before_comment_escaped Let_def)

lemma unescape_plain: "CHR 0x5C \<notin> set s \<Longrightarrow> unescape_loop s = s"
  by (induction s rule: unescape_loop.induct) auto

lemma unescapeDouble_loop: "unescapeDouble s = unescape_loop s"
  by (simp add: unescapeDouble_def unescape_plain)

lemma unescape_Cons: "c \<noteq> CHR 0x5C \<Longrightarrow> unescape_loop (c # s) = c # unescape_loop s"
  by (cases s) simp_all

lemma unescape_all: "unescape_loop (escape_all s) = s"
  by (induction s) (auto simp: unescape_Cons)

lemma unescape_quotes: "unescape_loop (escape_quotes s) = s"
  by (induction s) (auto simp: unescape_Cons)

text \<open>A value without quotes and number signs is read as it stands.\<close>

lemma before_comment_plain:
  "CHR 0x22 \<notin> set s \<Longrightarrow> CHR 0x27 \<notin> set s \<Longrightarrow> CHR ''#'' \<notin> set s \<Longrightarrow> before_comment None p s = s"
  by (induction s arbitrary: p) auto

lemma contains_any_iff: "contains_any s cs \<longleftrightarrow> (\<exists>c \<in> set s. c \<in> set cs)"
  by (auto simp: contains_any_def list_ex_iff)

lemma clean_plain:
  assumes "tight s" "CHR 0x22 \<notin> set s" "CHR 0x27 \<notin> set s" "CHR ''#'' \<notin> set s"
  shows "clean s = s"
proof -
  have "s \<noteq> [] \<Longrightarrow> hd s \<noteq> CHR 0x22 \<and> hd s \<noteq> CHR 0x27" using assms(2,3) by (cases s) auto
  moreover have "before_comment None None (trim_space s) = s" using assms by (simp add: trim_tight before_comment_plain)
  ultimately show ?thesis using assms(1) by (cases "s = []") (simp_all add: clean_def trim_tight)
qed

lemma trim_eq: "s = trim_space s \<longleftrightarrow> tight s"
  using trim_iff by metis

lemma quoteScalar_cases:
  obtains (quoted) "quoteScalar v = CHR 0x22 # escape_all v @ [CHR 0x22]"
  | (bare) "quoteScalar v = v" "tight v" "CHR 0x22 \<notin> set v" "CHR 0x27 \<notin> set v" "CHR ''#'' \<notin> set v"
proof (cases "tight v \<and> CHR 0x22 \<notin> set v \<and> CHR 0x27 \<notin> set v \<and> CHR ''#'' \<notin> set v")
  case True
  moreover have "quoteScalar v = CHR 0x22 # escape_all v @ [CHR 0x22] \<or> quoteScalar v = v"
    by (simp add: quoteScalar_def)
  ultimately show ?thesis using that by blast
next
  case False
  then have "quoteScalar v = CHR 0x22 # escape_all v @ [CHR 0x22]"
    by (auto simp: quoteScalar_def contains_any_iff trim_eq)
  then show ?thesis by (rule quoted)
qed

theorem scalar_roundtrip: "clean (quoteScalar v) = v"
  by (cases v rule: quoteScalar_cases)
     (simp_all add: clean_plain clean_quoted escaped_all unescapeDouble_loop unescape_all)


section \<open>Lists\<close>

lemma glue_append [simp]: "glue u (glue w xs) = glue (u @ w) xs"
  by (cases xs) simp_all

lemma glue_Cons: "glue w [] = [w]"
  by simp

text \<open>Bytes that \<^const>\<open>top_parts\<close> copies outside quotes.\<close>

definition inert :: "string \<Rightarrow> bool" where
  "inert s \<longleftrightarrow> \<not> contains_any s [CHR '','', CHR ''['', CHR '']'', CHR ''{'', CHR ''}'', CHR ''#'', CHR 0x22, CHR 0x27]"

lemma glue_nonempty [simp]: "glue w xs \<noteq> []"
  by (cases xs) simp_all

lemma top_parts_nonempty [simp]: "top_parts q d s \<noteq> []"
proof (cases s)
  case (Cons c t)
  show ?thesis unfolding Cons top_parts.simps(2) by (simp del: top_parts.simps split: list.split)
qed simp

lemma glue_Nil [simp]: "xs \<noteq> [] \<Longrightarrow> glue [] xs = xs"
  by (cases xs) simp_all

lemma top_parts_inert: "inert s \<Longrightarrow> top_parts None d (s @ t) = glue s (top_parts None d t)"
  by (induction s) (simp_all add: inert_def contains_any_def)

lemma quoteListElem_alt:
  "quoteListElem s = (if inert s \<and> tight s then s else CHR 0x22 # escape_quotes s @ [CHR 0x22])"
  by (simp only: quoteListElem_def inert_def trim_eq)

lemma quoteListElem_cases:
  obtains (quoted) "quoteListElem x = CHR 0x22 # escape_quotes x @ [CHR 0x22]"
  | (bare) "quoteListElem x = x" "tight x" "inert x"
  using that by (cases "inert x \<and> tight x") (simp_all add: quoteListElem_alt)

lemma inertD: "inert s \<Longrightarrow> CHR 0x22 \<notin> set s \<and> CHR 0x27 \<notin> set s \<and> CHR ''#'' \<notin> set s"
proof -
  assume i: "inert s"
  have "c \<notin> set s" if "c \<in> set [CHR '','', CHR ''['', CHR '']'', CHR ''{'', CHR ''}'', CHR ''#'', CHR 0x22, CHR 0x27]" for c
    using i that unfolding inert_def contains_any_iff by blast
  then show ?thesis by simp
qed

lemma top_parts_elem: "top_parts None d (quoteListElem x @ t) = glue (quoteListElem x) (top_parts None d t)"
  by (cases x rule: quoteListElem_cases)
     (simp_all add: top_parts_inert top_parts_escaped escaped_quotes)

lemma clean_elem: "clean (quoteListElem x) = x"
  by (cases x rule: quoteListElem_cases)
     (simp_all add: clean_plain inertD clean_quoted escaped_quotes unescapeDouble_loop unescape_quotes)

lemma trim_elem: "trim_space (quoteListElem x) = quoteListElem x"
  by (cases x rule: quoteListElem_cases) (simp_all add: trim_tight tight_quoted)

lemma elem_empty: "quoteListElem x = [] \<longleftrightarrow> x = []"
  by (cases x) (simp_all add: quoteListElem_alt inert_def contains_any_def)

lemma top_parts_join:
  "top_parts None 0 (quoteListElem x @ concat (map (\<lambda>y. CHR '','' # CHR '' '' # quoteListElem y) xs))
     = quoteListElem x # map (\<lambda>y. CHR '' '' # quoteListElem y) xs"
proof (induction xs arbitrary: x)
  case Nil
  show ?case using top_parts_elem [of 0 x "[]"] by simp
next
  case (Cons y ys)
  show ?case
    unfolding list.map(2) concat.simps(2) append_assoc top_parts_elem by (simp add: Cons)
qed

lemma join_with_concat: "join_with sep (x # xs) = x @ concat (map (\<lambda>y. sep @ y) xs)"
  by (induction xs arbitrary: x) simp_all

lemma splitTop_join: "splitTop (join_with '', '' (map quoteListElem xs)) = filter (\<lambda>x. x \<noteq> []) xs"
proof (cases xs)
  case Nil
  then show ?thesis by (simp add: splitTop_def trim_tight)
next
  case (Cons x ys)
  let ?q = "\<lambda>y. CHR '' '' # quoteListElem y"
  have rest: "map clean (filter (\<lambda>p. p \<noteq> []) (map (\<lambda>y. trim_space (?q y)) zs)) = filter (\<lambda>x. x \<noteq> []) zs" for zs
    by (induction zs) (simp_all add: trim_space_Cons trim_elem clean_elem elem_empty)
  have "join_with '', '' (map quoteListElem xs)
      = quoteListElem x @ concat (map (\<lambda>y. CHR '','' # CHR '' '' # quoteListElem y) ys)"
    by (simp add: Cons join_with_concat comp_def)
  then have "top_parts None 0 (join_with '', '' (map quoteListElem xs)) = quoteListElem x # map ?q ys"
    by (simp only: top_parts_join)
  then show ?thesis
    using rest [of ys] by (simp add: splitTop_def Cons trim_elem clean_elem elem_empty comp_def)
qed

section \<open>Entries\<close>

lemma Get_put_same: "en_Block x = [] \<Longrightarrow> en_Key x = k \<Longrightarrow> Get (put_entry k x f) k = Some (clean (en_Value x))"
  by (induction f) simp_all

lemma Get_put_other: "en_Key x = k \<Longrightarrow> k' \<noteq> k \<Longrightarrow> Get (put_entry k x f) k' = Get f k'"
  by (induction f) simp_all

lemma Get_Set: "Get (Set f k v) k' = (if k' = k then Some v else Get f k')"
  by (simp add: Set_def Get_put_same Get_put_other scalar_entry_def scalar_roundtrip)

lemma GetList_SetList: "GetList (SetList f k xs) k = filter (\<lambda>x. x \<noteq> []) xs"
  by (simp add: GetList_def SetList_def Get_Set has_prefix_iff has_suffix_iff splitTop_join)

lemma GetBlock_SetBlock: "b \<noteq> [] \<Longrightarrow> GetBlock (SetBlock f k b) k' = (if k' = k then Some b else GetBlock f k')"
  unfolding SetBlock_def block_entry_def by (induction f) auto

lemma Keys_put: "en_Key x = k \<Longrightarrow> k \<noteq> [] \<Longrightarrow>
    Keys (put_entry k x f) = (if k \<in> set (Keys f) then Keys f else Keys f @ [k])"
  by (induction f) (simp_all add: Keys_def)

text \<open>
  What a writer of fields relies on, whatever holds them: a field reads as last written, other fields
  are not disturbed. Then a record written field by field reads back field by field.
\<close>

locale field_store =
  fixes get :: "'s \<Rightarrow> string \<Rightarrow> 'v option"
    and put :: "'s \<Rightarrow> string \<Rightarrow> 'v \<Rightarrow> 's"
  assumes get_put: "get (put s k v) k' = (if k' = k then Some v else get s k')"
begin

lemma get_puts:
  "get (foldl (\<lambda>s (k, v). put s k v) s kvs) k = (case map_of (rev kvs) k of Some v \<Rightarrow> Some v | None \<Rightarrow> get s k)"
proof (induction kvs rule: rev_induct)
  case (snoc kv kvs)
  then show ?case by (cases kv) (simp add: get_put)
qed simp

lemma puts_distinct:
  assumes "distinct (map fst kvs)" "(k, v) \<in> set kvs"
  shows "get (foldl (\<lambda>s (k, v). put s k v) s kvs) k = Some v"
  using assms by (simp add: get_puts map_of_eq_Some_iff rev_map [symmetric])

end

interpretation front: field_store Get Set
  by unfold_locales (rule Get_Set)

text \<open>C21: Frontmatter values survive being written and read. Whatever the bytes of a value (quotes,
  backslashes, newlines, comment signs, white space), \<^verbatim>\<open>Get\<close> reads what \<^verbatim>\<open>Set\<close> wrote under the key and
  what it read before under every other key, the order of the keys is kept, and \<^verbatim>\<open>GetList\<close> reads the
  list that \<^verbatim>\<open>SetList\<close> wrote except for its empty elements.\<close>

theorem values_roundtrip:
  "Get (Set f k v) k' = (if k' = k then Some v else Get f k')
   \<and> GetList (SetList f k xs) k = filter (\<lambda>x. x \<noteq> []) xs
   \<and> (k' = k \<or> Get (SetList f k xs) k' = Get f k')
   \<and> Keys (Set f (c # cs) v) = (if c # cs \<in> set (Keys f) then Keys f else Keys f @ [c # cs])"
  using Get_Set [of f k v k'] GetList_SetList [of f k xs]
  by (simp add: SetList_def Get_Set Set_def [of _ "c # cs"] Keys_put scalar_entry_def)

end
