(* ===== verification/Markdown_Documents.thy ===== *)
theory Markdown_Documents
  imports Markdown_Values
begin

text \<open>
  The documents of \<^verbatim>\<open>internal/mdstore/mdstore.go\<close>: a frontmatter block and sections under headings,
  how a file's text is parsed into one and rendered back, the lists kept in a section, and the durable
  write of the rendered bytes. The round-trip theorems state the package's first invariant: a document
  that was read and is written back is the document that was read.
\<close>

section \<open>Sections\<close>

record md_section =
  sc_Level :: int
  sc_Title :: string
  sc_Content :: string

record doc =
  dc_Front :: front
  dc_Sections :: "md_section list"

datatype parse_error = Unterminated | Indented string | No_Key string

abbreviation newline :: char where
  "newline \<equiv> CHR 0x0A"

definition heading :: "string \<Rightarrow> (int \<times> string) option" where
  "heading line =
     (let i = length (takeWhile (\<lambda>c. c = CHR ''#'') line) in
      if i = 0 \<or> 6 < i \<or> length line \<le> i \<or> line ! i \<noteq> CHR '' '' then None
      else Some (int i, trim_space (drop (i + 1) line)))"

definition is_fence :: "string \<Rightarrow> bool" where
  "is_fence line = has_prefix (trim_space line) ''```''"

text \<open>\<^verbatim>\<open>flush\<close>: the section collected so far, unless it is blank text before the first heading.\<close>

definition flush :: "int \<Rightarrow> string \<Rightarrow> string list \<Rightarrow> md_section list" where
  "flush level title buf =
     (let content = (if buf \<noteq> [] then join_with [newline] buf @ [newline] else []) in
      if level \<noteq> 0 \<or> title \<noteq> [] \<or> trim_space content \<noteq> [] then
        [\<lparr>sc_Level = level, sc_Title = title, sc_Content = content\<rparr>]
      else [])"

fun sections_loop :: "bool \<Rightarrow> int \<Rightarrow> string \<Rightarrow> string list \<Rightarrow> string list \<Rightarrow> md_section list" where
  "sections_loop fence level title buf [] = flush level title buf"
| "sections_loop fence level title buf (line # lines) =
     (let fence' = (if is_fence line then \<not> fence else fence) in
      case (if fence' then None else heading line) of
        Some (n, t) \<Rightarrow> flush level title buf @ sections_loop fence' n t [] lines
      | None \<Rightarrow> sections_loop fence' level title (buf @ [line]) lines)"

definition parseSections :: "string \<Rightarrow> md_section list" where
  "parseSections body =
     (if body = [] then []
      else (let lines = split_on newline body;
                kept = (if last lines = [] then butlast lines else lines)
            in sections_loop False 0 [] [] kept))"

section \<open>Frontmatter\<close>

definition blank :: "string \<Rightarrow> bool" where
  "blank line \<longleftrightarrow> trim_space line = []"

definition indented :: "string \<Rightarrow> bool" where
  "indented line \<longleftrightarrow> has_prefix line '' '' \<or> has_prefix line [CHR 0x09]"

text \<open>The inner loop of \<^verbatim>\<open>parseFront\<close> on a blank line: does the block go on behind the blank lines?\<close>

definition goes_on :: "string list \<Rightarrow> bool" where
  "goes_on lines = (case find (\<lambda>l. \<not> blank l) lines of None \<Rightarrow> True | Some l \<Rightarrow> indented l)"

fun take_block :: "string list \<Rightarrow> string list" where
  "take_block [] = []"
| "take_block (l # ls) =
     (if (indented l \<or> blank l) \<and> (blank l \<longrightarrow> goes_on (l # ls)) then l # take_block ls else [])"

definition opens_block :: "string \<Rightarrow> bool" where
  "opens_block v \<longleftrightarrow> v = [] \<or> v = ''|'' \<or> v = ''|-'' \<or> v = ''>'' \<or> v = ''>-'' \<or> has_prefix v ''#''"

definition raw_entry :: "string \<Rightarrow> entry" where
  "raw_entry line = \<lparr>en_Key = [], en_Value = [], en_Block = [], en_Raw = line\<rparr>"

fun front_lines :: "string list \<Rightarrow> parse_error + front" where
  "front_lines [] = Inr []"
| "front_lines (line # lines) =
     (if blank line \<or> has_prefix (trim_space line) ''#'' then
        map_sum id (\<lambda>f. raw_entry line # f) (front_lines lines)
      else if indented line then Inl (Indented line)
      else (case cut_at '':'' line of
              None \<Rightarrow> Inl (No_Key line)
            | Some (k, v) \<Rightarrow>
                let key = trim_space k; val = trim_space v;
                    block = (if opens_block val then take_block lines else []) in
                map_sum id (\<lambda>f. \<lparr>en_Key = key, en_Value = val, en_Block = join_with [newline] block, en_Raw = []\<rparr> # f)
                  (front_lines (drop (length block) lines))))"

definition parseFront :: "string \<Rightarrow> parse_error + front" where
  "parseFront fm = front_lines (split_on newline fm)"

section \<open>Parse and Render\<close>

text \<open>\<^verbatim>\<open>strings.ReplaceAll(raw, "\r\n", "\n")\<close>.\<close>

fun drop_crlf :: "string \<Rightarrow> string" where
  "drop_crlf [] = []"
| "drop_crlf [c] = [c]"
| "drop_crlf (c # d # s) = (if c = CHR 0x0D \<and> d = newline then newline # drop_crlf s else c # drop_crlf (d # s))"

definition rule_line :: string where
  "rule_line = ''---'' @ [newline]"

text \<open>The frontmatter text and the body, by the cases of \<^verbatim>\<open>Parse\<close> in order.\<close>

definition cut_front :: "string \<Rightarrow> parse_error + (string \<times> string)" where
  "cut_front rest =
     (if has_prefix rest rule_line then Inr ([], drop 4 rest)
      else if rest = ''---'' then Inr ([], [])
      else (case cut_at (newline # rule_line) rest of
              Some (fm, body) \<Rightarrow> Inr (fm, body)
            | None \<Rightarrow>
                if has_suffix rest (newline # ''---'') then Inr (take (length rest - 4) rest, [])
                else Inl Unterminated))"

definition Parse :: "string \<Rightarrow> parse_error + doc" where
  "Parse raw0 =
     (let raw = drop_crlf raw0 in
      if has_prefix raw rule_line then
        (case cut_front (drop 4 raw) of
           Inl e \<Rightarrow> Inl e
         | Inr (fm, body) \<Rightarrow>
             map_sum id (\<lambda>f. \<lparr>dc_Front = f, dc_Sections = parseSections body\<rparr>) (parseFront fm))
      else Inr \<lparr>dc_Front = [], dc_Sections = parseSections raw\<rparr>)"

fun bodyOpensWithRule :: "md_section list \<Rightarrow> bool" where
  "bodyOpensWithRule [] = False"
| "bodyOpensWithRule (s # ss) =
     (if 0 < sc_Level s then False
      else (let c = dropWhile (\<lambda>x. x = newline) (sc_Content s) in
            if c \<noteq> [] then has_prefix c ''---'' else bodyOpensWithRule ss))"

definition render_entry :: "entry \<Rightarrow> string" where
  "render_entry e =
     (if en_Key e = [] then en_Raw e @ [newline]
      else if en_Block e \<noteq> [] then
        en_Key e @ '':'' @ (if en_Value e \<noteq> [] then '' '' @ en_Value e else []) @ [newline] @ en_Block e @ [newline]
      else en_Key e @ '': '' @ en_Value e @ [newline])"

definition render_section :: "md_section \<Rightarrow> string" where
  "render_section s =
     (if 0 < sc_Level s then replicate (nat (sc_Level s)) (CHR ''#'') @ '' '' @ sc_Title s @ [newline] else [])
     @ sc_Content s
     @ (if sc_Content s \<noteq> [] \<and> \<not> has_suffix (sc_Content s) [newline] then [newline] else [])"

definition Render :: "doc \<Rightarrow> string" where
  "Render d =
     (let emptyFront = (dc_Front d = [] \<and> bodyOpensWithRule (dc_Sections d)) in
      (if dc_Front d \<noteq> [] \<or> emptyFront then rule_line @ concat (map render_entry (dc_Front d)) @ rule_line else [])
      @ concat (map render_section (dc_Sections d)))"

section \<open>Lists in a section\<close>

record checkbox =
  cb_Text :: string
  cb_Done :: bool

definition checkbox_line :: "string \<Rightarrow> checkbox option" where
  "checkbox_line line =
     (let t = trim_space line in
      if has_prefix t ''- [ ] '' then Some \<lparr>cb_Text = drop 6 t, cb_Done = False\<rparr>
      else if has_prefix t ''- [x] '' \<or> has_prefix t ''- [X] '' then Some \<lparr>cb_Text = drop 6 t, cb_Done = True\<rparr>
      else None)"

definition Checkboxes :: "string \<Rightarrow> checkbox list" where
  "Checkboxes content = List.map_filter checkbox_line (split_on newline content)"

definition RenderCheckboxes :: "checkbox list \<Rightarrow> string" where
  "RenderCheckboxes boxes =
     concat (map (\<lambda>c. (if cb_Done c then ''- [x] '' else ''- [ ] '') @ cb_Text c @ [newline]) boxes)"

definition Bullets :: "string \<Rightarrow> string list" where
  "Bullets content = List.map_filter (\<lambda>line. let t = trim_space line in
     if has_prefix t ''- '' \<and> \<not> has_prefix t ''- ['' then Some (drop 2 t) else None) (split_on newline content)"

lemma cut_at_Some: "cut_at p s = Some (a, b) \<Longrightarrow> s = a @ p @ b"
  by (induction s arbitrary: a) (auto simp: has_prefix_iff split: if_splits)

function Links :: "string \<Rightarrow> string list" where
  "Links s =
     (case cut_at ''[['' s of
        None \<Rightarrow> []
      | Some (_, rest) \<Rightarrow>
          (case cut_at '']]'' rest of
             None \<Rightarrow> []
           | Some (inner, after) \<Rightarrow>
               let t0 = trim_space inner;
                   target = (case cut_at ''|'' t0 of None \<Rightarrow> t0 | Some (x, _) \<Rightarrow> trim_space x)
               in (if target \<noteq> [] then [target] else []) @ Links after))"
  by pat_completeness auto
termination
  by (relation "measure length") (auto dest!: cut_at_Some)

declare Links.simps [simp del]

section \<open>Lines\<close>

definition unlines :: "string list \<Rightarrow> string" where
  "unlines ls = concat (map (\<lambda>l. l @ [newline]) ls)"

definition line :: "string \<Rightarrow> bool" where
  "line l \<longleftrightarrow> newline \<notin> set l"

lemma unlines_simps [simp]: "unlines [] = []" "unlines (l # ls) = l @ newline # unlines ls"
    "unlines (ls @ ms) = unlines ls @ unlines ms"
  by (simp_all add: unlines_def)

lemma split_on_line: "line l \<Longrightarrow> split_on newline (l @ newline # s) = l # split_on newline s"
proof (induction l)
  case (Cons c l)
  then have "c \<noteq> newline" "split_on newline (l @ newline # s) = l # split_on newline s" by (auto simp: line_def)
  then show ?case by simp
qed simp

lemma split_unlines: "\<forall>l \<in> set ls. line l \<Longrightarrow> split_on newline (unlines ls) = ls @ [[]]"
  by (induction ls) (simp_all add: split_on_line del: split_on.simps, simp)

lemma split_last_line: "line l \<Longrightarrow> split_on newline l = [l]"
  by (induction l) (auto simp: line_def)

lemma unlines_join: "ls \<noteq> [] \<Longrightarrow> join_with [newline] ls @ [newline] = unlines ls"
proof (induction ls)
  case (Cons l ls)
  then show ?case by (cases ls) simp_all
qed simp

lemma split_join: "ls \<noteq> [] \<Longrightarrow> \<forall>l \<in> set ls. line l \<Longrightarrow> split_on newline (join_with [newline] ls) = ls"
proof (induction ls)
  case (Cons l ls)
  then show ?case by (cases ls) (simp_all add: split_last_line split_on_line)
qed simp

lemma split_on_lines: "l \<in> set (split_on newline s) \<Longrightarrow> line l"
  by (simp add: line_def split_on_no_sep)

text \<open>The lines of a text that ends in a newline.\<close>

definition terminated :: "string \<Rightarrow> bool" where
  "terminated c \<longleftrightarrow> c = [] \<or> last c = newline"

definition body_lines :: "string \<Rightarrow> string list" where
  "body_lines c = butlast (split_on newline c)"

lemma body_lines_unlines [simp]: "\<forall>l \<in> set ls. line l \<Longrightarrow> body_lines (unlines ls) = ls"
  by (simp add: body_lines_def split_unlines)

lemma body_lines_Nil [simp]: "body_lines [] = []"
  by (simp add: body_lines_def)

lemma terminated_unlines [simp]: "terminated (unlines ls)"
  by (cases ls rule: rev_cases) (simp_all add: terminated_def)

lemma split_on_butlast_last: "split_on newline s = body_lines s @ [last (split_on newline s)]"
  by (simp add: body_lines_def)

lemma join_with_snoc: "join_with [newline] (xs @ [x]) = unlines xs @ x"
proof (induction xs)
  case (Cons a xs)
  then show ?case by (cases xs) simp_all
qed simp

lemma unlines_body: "s = unlines (body_lines s) @ last (split_on newline s)"
  by (metis join_split join_with_snoc split_on_butlast_last)

lemma terminatedE:
  assumes "terminated c"
  obtains ls where "c = unlines ls" "\<forall>l \<in> set ls. line l"
proof
  have "line (last (split_on newline c))" by (rule split_on_lines [of _ c]) simp
  then have "last (split_on newline c) = []"
    using assms unlines_body [of c] unfolding terminated_def line_def
    by (metis append_is_Nil_conv last_appendR last_in_set)
  then show "c = unlines (body_lines c)" using unlines_body [of c] by simp
  show "\<forall>l \<in> set (body_lines c). line l"
    unfolding body_lines_def using split_on_lines in_set_butlastD by fast
qed

lemma parse_unlines:
  assumes "\<forall>l \<in> set ls. line l"
  shows "parseSections (unlines ls) = sections_loop False 0 [] [] ls"
proof (cases ls)
  case Nil
  then show ?thesis by (simp add: parseSections_def flush_def trim_tight)
next
  case (Cons l ms)
  then have "unlines ls \<noteq> []" by simp
  then show ?thesis using split_unlines [OF assms] by (simp add: parseSections_def)
qed

section \<open>Sections survive rendering\<close>

text \<open>Lines that hold no heading outside a fence, and whether a fence is open after them.\<close>

fun no_heading :: "bool \<Rightarrow> string list \<Rightarrow> bool" where
  "no_heading f [] = True"
| "no_heading f (l # ls) =
     (let f' = (if is_fence l then \<not> f else f) in (f' \<or> heading l = None) \<and> no_heading f' ls)"

fun fence_after :: "bool \<Rightarrow> string list \<Rightarrow> bool" where
  "fence_after f [] = f"
| "fence_after f (l # ls) = fence_after (if is_fence l then \<not> f else f) ls"

lemma sections_loop_text:
  "no_heading f cl \<Longrightarrow> sections_loop f n t buf (cl @ ls) = sections_loop (fence_after f cl) n t (buf @ cl) ls"
  by (induction cl arbitrary: f buf) (auto simp: Let_def)

definition section_wf :: "md_section \<Rightarrow> bool" where
  "section_wf s \<longleftrightarrow> 1 \<le> sc_Level s \<and> sc_Level s \<le> 6 \<and> tight (sc_Title s) \<and> line (sc_Title s)
     \<and> terminated (sc_Content s) \<and> no_heading False (body_lines (sc_Content s))"

fun chain :: "md_section list \<Rightarrow> bool" where
  "chain [] = True"
| "chain (s # ss) = (section_wf s \<and> (ss \<noteq> [] \<longrightarrow> \<not> fence_after False (body_lines (sc_Content s))) \<and> chain ss)"

definition lead_wf :: "md_section \<Rightarrow> bool" where
  "lead_wf s \<longleftrightarrow> sc_Level s = 0 \<and> sc_Title s = [] \<and> trim_space (sc_Content s) \<noteq> []
     \<and> terminated (sc_Content s) \<and> no_heading False (body_lines (sc_Content s))"

definition sections_wf :: "md_section list \<Rightarrow> bool" where
  "sections_wf ss \<longleftrightarrow> chain ss \<or> (\<exists>s rest. ss = s # rest \<and> lead_wf s \<and> chain rest
     \<and> (rest \<noteq> [] \<longrightarrow> \<not> fence_after False (body_lines (sc_Content s))))"

definition heading_line :: "md_section \<Rightarrow> string" where
  "heading_line s = replicate (nat (sc_Level s)) (CHR ''#'') @ '' '' @ sc_Title s"

definition section_lines :: "md_section \<Rightarrow> string list" where
  "section_lines s = (if 0 < sc_Level s then [heading_line s] else []) @ body_lines (sc_Content s)"

lemma render_section_lines: "terminated (sc_Content s) \<Longrightarrow> render_section s = unlines (section_lines s)"
proof (erule terminatedE)
  fix ls assume c: "sc_Content s = unlines ls" "\<forall>l \<in> set ls. line l"
  have "has_suffix (unlines ls) [newline]" if "ls \<noteq> []"
    unfolding has_suffix_iff using unlines_join [OF that] by metis
  then show ?thesis
    using c by (cases "ls = []") (simp_all add: render_section_def section_lines_def heading_line_def)
qed

lemma render_sections_lines:
  "(\<And>s. s \<in> set ss \<Longrightarrow> terminated (sc_Content s)) \<Longrightarrow>
   concat (map render_section ss) = unlines (concat (map section_lines ss))"
  by (induction ss) (simp_all add: render_section_lines)

lemma flush_lines:
  assumes "terminated (sc_Content s)" "sc_Level s \<noteq> 0 \<or> trim_space (sc_Content s) \<noteq> []"
  shows "flush (sc_Level s) (sc_Title s) (body_lines (sc_Content s)) = [s]"
  using assms(1)
proof (rule terminatedE)
  fix ls assume c: "sc_Content s = unlines ls" "\<forall>l \<in> set ls. line l"
  then have "(if ls \<noteq> [] then join_with [newline] ls @ [newline] else []) = sc_Content s"
    by (simp add: unlines_join)
  with c assms(2) show ?thesis by (auto simp: flush_def)
qed

lemma trim_keeps_byte: "c \<in> set s \<Longrightarrow> (\<And>r. r \<in> set space_runes \<Longrightarrow> c \<notin> set r) \<Longrightarrow> c \<in> set (trim_space s)"
proof -
  have strip: "c \<in> set (strip_runes rs t)" if "c \<in> set t" "\<And>r. r \<in> set rs \<Longrightarrow> c \<notin> set r" for rs t
    using that
  proof (induction rs t rule: strip_runes.induct)
    case (1 rs t)
    show ?case
    proof (cases "find (\<lambda>r. r \<noteq> [] \<and> has_prefix t r) rs")
      case None
      with 1 show ?thesis by (simp add: strip_runes_step)
    next
      case (Some r)
      then have "r \<in> set rs" "has_prefix t r" by (auto simp: find_Some_iff)
      then have "c \<in> set (drop (length r) t)" using 1(2,3) by (auto simp: has_prefix_iff)
      with 1 Some show ?thesis by (simp add: strip_runes_step(2))
    qed
  qed
  assume "c \<in> set s" "\<And>r. r \<in> set space_runes \<Longrightarrow> c \<notin> set r"
  then show ?thesis by (auto simp: trim_space_def intro!: strip)
qed

text \<open>A text that starts with no white space keeps its first bytes.\<close>

lemma trim_prefix:
  assumes "\<And>r. r \<in> set space_runes \<Longrightarrow> \<not> has_prefix s r"
  shows "\<exists>u. s = trim_space s @ u"
proof -
  have "strip_runes space_runes s = s" using assms by (intro strip_runes_None) blast
  moreover obtain u where "rev s = u @ strip_runes (map rev space_runes) (rev s)" using strip_runes_suffix by blast
  then have "s = rev (strip_runes (map rev space_runes) (rev s)) @ rev u" by (metis rev_append rev_rev_ident)
  ultimately show ?thesis unfolding trim_space_def by metis
qed

lemma trim_hash: "\<exists>t. trim_space (CHR ''#'' # s) = CHR ''#'' # t"
proof -
  have "\<not> has_prefix (CHR ''#'' # s) r" if "r \<in> set space_runes" for r
    using hd_rune [OF that] space_runes_nonempty [OF that] by (cases r) (auto simp: has_prefix_iff)
  then obtain u where u: "CHR ''#'' # s = trim_space (CHR ''#'' # s) @ u" using trim_prefix by blast
  have "CHR ''#'' \<notin> set r" if "r \<in> set space_runes" for r
    using that by (auto simp: space_runes_def)
  then have "CHR ''#'' \<in> set (trim_space (CHR ''#'' # s))" by (intro trim_keeps_byte) auto
  with u show ?thesis by (cases "trim_space (CHR ''#'' # s)") auto
qed

lemma heading_not_fence: "heading l = Some x \<Longrightarrow> \<not> is_fence l"
proof -
  assume "heading l = Some x"
  then have "takeWhile (\<lambda>c. c = CHR ''#'') l \<noteq> []" unfolding heading_def Let_def by (auto split: if_splits)
  then obtain s where "l = CHR ''#'' # s" by (cases l) (auto split: if_splits)
  with trim_hash [of s] show ?thesis by (auto simp: is_fence_def has_prefix_iff)
qed

lemma heading_heading_line:
  assumes "section_wf s"
  shows "heading (heading_line s) = Some (sc_Level s, sc_Title s)"
proof -
  have "takeWhile (\<lambda>c. c = CHR ''#'') (heading_line s) = replicate (nat (sc_Level s)) (CHR ''#'')"
    by (simp add: heading_line_def takeWhile_append)
  then have "length (takeWhile (\<lambda>c. c = CHR ''#'') (heading_line s)) = nat (sc_Level s)" by simp
  moreover have "trim_space (sc_Title s) = sc_Title s" "1 \<le> sc_Level s" "sc_Level s \<le> 6"
    using assms by (simp_all add: section_wf_def trim_tight)
  ultimately show ?thesis
    unfolding heading_def Let_def by (simp add: heading_line_def nth_append)
qed

lemma chain_lines:
  "chain ss \<Longrightarrow> sections_loop False n t buf (concat (map section_lines ss)) = flush n t buf @ ss"
proof (induction ss arbitrary: n t buf)
  case (Cons s ss)
  then have s: "section_wf s" "ss \<noteq> [] \<Longrightarrow> \<not> fence_after False (body_lines (sc_Content s))" "chain ss" by auto
  then have lev: "0 < sc_Level s" "terminated (sc_Content s)" "no_heading False (body_lines (sc_Content s))"
    by (simp_all add: section_wf_def)
  then have f: "flush (sc_Level s) (sc_Title s) (body_lines (sc_Content s)) = [s]" by (intro flush_lines) simp_all
  have "sections_loop False (sc_Level s) (sc_Title s) [] (body_lines (sc_Content s) @ concat (map section_lines ss))
      = s # ss"
  proof (cases "ss = []")
    case True
    with f lev show ?thesis using sections_loop_text [OF lev(3), of _ _ "[]" "[]"] by simp
  next
    case False
    with s(2,3) f show ?thesis by (simp add: sections_loop_text [OF lev(3)] Cons.IH)
  qed
  then show ?case
    using lev(1) heading_heading_line [OF s(1)] heading_not_fence [OF heading_heading_line [OF s(1)]]
    by (simp add: section_lines_def [of s])
qed simp

lemma chain_wf: "chain ss \<Longrightarrow> s \<in> set ss \<Longrightarrow> section_wf s"
  by (induction ss) auto

lemma section_line_lines:
  assumes "terminated (sc_Content s)" "line (sc_Title s)" "l \<in> set (section_lines s)"
  shows "line l"
proof -
  have "\<forall>l \<in> set (body_lines (sc_Content s)). line l" using assms(1) by (elim terminatedE) simp
  then show ?thesis using assms by (auto simp: section_lines_def heading_line_def line_def split: if_splits)
qed

lemma sections_wfD:
  assumes "sections_wf ss" "s \<in> set ss"
  shows "terminated (sc_Content s) \<and> line (sc_Title s)"
  using assms chain_wf unfolding sections_wf_def
  by (auto simp: lead_wf_def section_wf_def line_def)

text \<open>Rendered sections parse to themselves.\<close>

lemma parse_render_sections:
  assumes "sections_wf ss"
  shows "parseSections (concat (map render_section ss)) = ss"
proof -
  have "parseSections (concat (map render_section ss)) = sections_loop False 0 [] [] (concat (map section_lines ss))"
    using sections_wfD [OF assms] section_line_lines
    by (subst render_sections_lines, blast, subst parse_unlines) auto
  also have "\<dots> = ss"
  proof (cases "chain ss")
    case True
    then show ?thesis by (simp add: chain_lines flush_def trim_tight)
  next
    case False
    with assms obtain s rest where s: "ss = s # rest" "lead_wf s" "chain rest"
        "rest \<noteq> [] \<Longrightarrow> \<not> fence_after False (body_lines (sc_Content s))"
      unfolding sections_wf_def by blast
    then have l: "sc_Level s = 0" "sc_Title s = []" "no_heading False (body_lines (sc_Content s))"
        "flush 0 [] (body_lines (sc_Content s)) = [s]"
      using flush_lines [of s] by (simp_all add: lead_wf_def)
    show ?thesis
    proof (cases "rest = []")
      case True
      with s l show ?thesis using sections_loop_text [OF l(3), of _ _ "[]" "[]"] by (simp add: section_lines_def)
    next
      case False
      with s l show ?thesis by (simp add: section_lines_def sections_loop_text [OF l(3)] chain_lines)
    qed
  qed
  finally show ?thesis .
qed

lemma heading_Some:
  assumes "heading l = Some (n, t)" "line l"
  shows "1 \<le> n" "n \<le> 6" "tight t" "line t"
proof -
  have *: "n = int (length (takeWhile (\<lambda>c. c = CHR ''#'') l))" "n \<noteq> 0" "n \<le> 6"
      "t = trim_space (drop (nat n + 1) l)"
    using assms(1) unfolding heading_def Let_def by (auto split: if_splits)
  then show "1 \<le> n" "n \<le> 6" "tight t" by (simp_all add: Suc_le_eq)
  have "set (trim_space s) \<subseteq> set s" for s
  proof -
    have strip: "set (strip_runes rs t) \<subseteq> set t" for rs t
      using strip_runes_suffix [of t rs] by (metis Un_upper2 set_append)
    then show ?thesis unfolding trim_space_def using strip by (metis (no_types) order_trans set_rev)
  qed
  then show "line t" using assms(2) *(4) unfolding line_def by (meson in_set_dropD subsetD)
qed

text \<open>Parsed sections are well formed: the loop splits its lines into texts without headings.\<close>

lemma sections_loop_shape:
  assumes "\<forall>l \<in> set ls. line l"
  shows "\<exists>cl ss. sections_loop f n t buf ls = flush n t (buf @ cl) @ ss \<and> chain ss \<and> no_heading f cl
     \<and> (ss \<noteq> [] \<longrightarrow> \<not> fence_after f cl) \<and> (\<forall>l \<in> set cl. line l)"
  using assms
proof (induction ls arbitrary: f n t buf)
  case Nil
  have "sections_loop f n t buf [] = flush n t (buf @ []) @ []" by simp
  then show ?case by (metis chain.simps(1) empty_iff list.set(1) no_heading.simps(1))
next
  case (Cons l ls)
  let ?f = "if is_fence l then \<not> f else f"
  show ?case
  proof (cases "if ?f then None else heading l")
    case None
    then have eq: "sections_loop f n t buf (l # ls) = sections_loop ?f n t (buf @ [l]) ls" by (simp add: Let_def)
    from Cons obtain cl ss where "sections_loop ?f n t (buf @ [l]) ls = flush n t ((buf @ [l]) @ cl) @ ss"
        "chain ss" "no_heading ?f cl" "ss \<noteq> [] \<longrightarrow> \<not> fence_after ?f cl" "\<forall>l \<in> set cl. line l"
      by (metis list.set_intros(2))
    with eq None Cons.prems show ?thesis
      by (intro exI [of _ "l # cl"] exI [of _ ss]) (auto simp: Let_def split: if_splits)
  next
    case (Some x)
    obtain m u where x: "x = (m, u)" by (cases x)
    with Some have f: "\<not> ?f" "heading l = Some (m, u)" by (auto split: if_splits)
    then have "\<not> f" using heading_not_fence by (auto split: if_splits)
    have eq: "sections_loop f n t buf (l # ls) = flush n t buf @ sections_loop False m u [] ls"
      using Some x f(1) by (simp add: Let_def)
    from Cons obtain cl ss where tail: "sections_loop False m u [] ls = flush m u ([] @ cl) @ ss"
        "chain ss" "no_heading False cl" "ss \<noteq> [] \<longrightarrow> \<not> fence_after False cl" "\<forall>l \<in> set cl. line l"
      by (metis list.set_intros(2))
    note h = heading_Some [OF f(2)]
    let ?s = "\<lparr>sc_Level = m, sc_Title = u, sc_Content = unlines cl\<rparr>"
    have "flush m u cl = [?s]" using flush_lines [of ?s] h(1) Cons.prems tail(5) by simp
    moreover have "section_wf ?s" using h tail Cons.prems by (simp add: section_wf_def)
    ultimately have "chain (sections_loop False m u [] ls)" using tail by simp
    with eq \<open>\<not> f\<close> show ?thesis by (intro exI [of _ "[]"] exI [of _ "sections_loop False m u [] ls"]) simp
  qed
qed

lemma sections_wf_parse: "sections_wf (parseSections body)"
proof (cases "body = []")
  case True
  then show ?thesis by (simp add: parseSections_def sections_wf_def)
next
  case False
  let ?ls = "if last (split_on newline body) = [] then butlast (split_on newline body) else split_on newline body"
  have "\<forall>l \<in> set ?ls. line l"
    using split_on_lines by (auto split: if_splits dest: in_set_butlastD)
  then obtain cl ss where loop: "sections_loop False 0 [] [] ?ls = flush 0 [] ([] @ cl) @ ss" "chain ss"
      "no_heading False cl" "ss \<noteq> [] \<longrightarrow> \<not> fence_after False cl" "\<forall>l \<in> set cl. line l"
    using sections_loop_shape by metis
  let ?s = "\<lparr>sc_Level = 0, sc_Title = [], sc_Content = unlines cl\<rparr>"
  have p: "parseSections body = flush 0 [] cl @ ss" using False loop(1) by (simp add: parseSections_def)
  show ?thesis
  proof (cases "trim_space (unlines cl) = []")
    case True
    then have "flush 0 [] cl = []" by (cases cl) (simp_all add: flush_def unlines_join)
    with p loop show ?thesis by (simp add: sections_wf_def)
  next
    case False
    then have "flush 0 [] cl = [?s]" using flush_lines [of ?s] loop(5) by simp
    moreover have "lead_wf ?s" using False loop by (simp add: lead_wf_def)
    ultimately show ?thesis using p loop by (simp add: sections_wf_def)
  qed
qed

theorem sections_survive: "parseSections (concat (map render_section (parseSections body))) = parseSections body"
  by (rule parse_render_sections [OF sections_wf_parse])

section \<open>Frontmatter survives rendering\<close>

definition block_lines :: "entry \<Rightarrow> string list" where
  "block_lines e = (if en_Block e = [] then [] else split_on newline (en_Block e))"

definition entry_lines :: "entry \<Rightarrow> string list" where
  "entry_lines e =
     (if en_Key e = [] then [en_Raw e]
      else if en_Block e \<noteq> [] then (en_Key e @ '':'' @ (if en_Value e \<noteq> [] then '' '' @ en_Value e else [])) # block_lines e
      else [en_Key e @ '': '' @ en_Value e])"

definition front_text :: "front \<Rightarrow> string list" where
  "front_text f = concat (map entry_lines f)"

definition comment :: "string \<Rightarrow> bool" where
  "comment l \<longleftrightarrow> blank l \<or> has_prefix (trim_space l) ''#''"

definition entry_wf :: "entry \<Rightarrow> bool" where
  "entry_wf e \<longleftrightarrow>
     (if en_Key e = [] then en_Value e = [] \<and> en_Block e = [] \<and> comment (en_Raw e) \<and> line (en_Raw e)
      else en_Raw e = [] \<and> tight (en_Key e) \<and> CHR '':'' \<notin> set (en_Key e) \<and> hd (en_Key e) \<noteq> CHR ''#'' \<and> line (en_Key e)
        \<and> tight (en_Value e) \<and> line (en_Value e) \<and> (en_Block e \<noteq> [] \<longrightarrow> opens_block (en_Value e)))"

text \<open>An entry whose value may open a block takes the lines of its block and no line behind it.\<close>

fun front_wf :: "front \<Rightarrow> bool" where
  "front_wf [] = True"
| "front_wf (e # f) = (entry_wf e \<and> front_wf f
     \<and> (en_Key e \<noteq> [] \<longrightarrow> opens_block (en_Value e) \<longrightarrow> take_block (block_lines e @ front_text f) = block_lines e))"

lemma front_text_simps [simp]: "front_text [] = []" "front_text (e # f) = entry_lines e @ front_text f"
  by (simp_all add: front_text_def)

lemma cut_at_byte: "c \<notin> set k \<Longrightarrow> cut_at [c] (k @ c # s) = Some (k, s)"
  by (induction k) (auto simp: has_prefix_def)

lemma rune_no_colon: "r \<in> set space_runes \<Longrightarrow> CHR '':'' \<notin> set r"
  by (auto simp: space_runes_def)

text \<open>The line of a key.\<close>

lemma key_line:
  assumes "k \<noteq> []" "tight k" "hd k \<noteq> CHR ''#''" "CHR '':'' \<notin> set k"
  shows "\<not> blank (k @ CHR '':'' # x)" "\<not> has_prefix (trim_space (k @ CHR '':'' # x)) ''#''"
    "\<not> indented (k @ CHR '':'' # x)"
proof -
  let ?l = "k @ CHR '':'' # x"
  have no: "\<not> has_prefix ?l r" if r: "r \<in> set space_runes" for r
  proof
    assume "has_prefix ?l r"
    then obtain t where "?l = r @ t" by (auto simp: has_prefix_iff)
    then consider u where "k = r @ u" | u where "r = k @ CHR '':'' # u"
      by (auto simp: append_eq_append_conv2 Cons_eq_append_conv)
    then show False
    proof cases
      case 1
      with assms(2) r show ?thesis by (auto simp: tight_def has_prefix_iff)
    next
      case 2
      with rune_no_colon [OF r] show ?thesis by simp
    qed
  qed
  have c: "CHR '':'' \<in> set (trim_space ?l)" by (rule trim_keeps_byte) (simp_all add: rune_no_colon)
  then show "\<not> blank ?l" by (auto simp: blank_def)
  obtain u where "?l = trim_space ?l @ u" using trim_prefix no by blast
  moreover have "hd t = hd k" if "k @ y = t @ w" "t \<noteq> []" for t y w
    using that assms(1) by (cases t; cases k) auto
  ultimately have "hd (trim_space ?l) = hd k" using c by (metis empty_iff list.set(1))
  then show "\<not> has_prefix (trim_space ?l) ''#''"
    using assms(3) by (auto simp: has_prefix_iff)
  have "[CHR '' ''] \<in> set space_runes" "[CHR 0x09] \<in> set space_runes" by (simp_all add: space_runes_def)
  then show "\<not> indented ?l" using no unfolding indented_def by blast
qed

lemma front_lines_key:
  assumes "entry_wf e" "en_Key e \<noteq> []" "x = (if en_Block e = [] \<or> en_Value e \<noteq> [] then '' '' @ en_Value e else [])"
    "opens_block (en_Value e) \<Longrightarrow> take_block ls = block_lines e"
  shows "front_lines ((en_Key e @ CHR '':'' # x) # ls)
     = map_sum id (\<lambda>f. e # f) (front_lines (drop (length (block_lines e)) ls))"
proof -
  have e: "tight (en_Key e)" "CHR '':'' \<notin> set (en_Key e)" "hd (en_Key e) \<noteq> CHR ''#''" "tight (en_Value e)"
      "en_Raw e = []" "en_Block e \<noteq> [] \<Longrightarrow> opens_block (en_Value e)"
    using assms(1,2) by (simp_all add: entry_wf_def)
  note k = key_line [OF assms(2) e(1,3,2)]
  have v: "trim_space x = en_Value e" using assms(3) e(4) by (auto simp: trim_space_Cons trim_tight)
  have b: "(if opens_block (en_Value e) then take_block ls else []) = block_lines e"
    using assms(4) e(6) by (auto simp: block_lines_def)
  have "join_with [newline] (block_lines e) = en_Block e" by (simp add: block_lines_def)
  with e(5) have "\<lparr>en_Key = en_Key e, en_Value = en_Value e, en_Block = join_with [newline] (block_lines e), en_Raw = []\<rparr> = e"
    by simp
  with k v b show ?thesis
    by (simp add: cut_at_byte [OF e(2)] trim_tight [OF e(1)] Let_def)
qed

lemma front_lines_text: "front_wf f \<Longrightarrow> front_lines (front_text f) = Inr f"
proof (induction f)
  case (Cons e f)
  then have f: "front_lines (front_text f) = Inr f" "entry_wf e" by simp_all
  show ?case
  proof (cases "en_Key e = []")
    case True
    with f(2) have "raw_entry (en_Raw e) = e" "comment (en_Raw e)" by (simp_all add: entry_wf_def raw_entry_def)
    with f True show ?thesis by (simp add: entry_lines_def comment_def)
  next
    case False
    let ?x = "if en_Block e = [] \<or> en_Value e \<noteq> [] then '' '' @ en_Value e else []"
    have "front_text (e # f) = (en_Key e @ CHR '':'' # ?x) # block_lines e @ front_text f"
      using False by (simp add: entry_lines_def block_lines_def)
    moreover have "opens_block (en_Value e) \<Longrightarrow> take_block (block_lines e @ front_text f) = block_lines e"
      using Cons.prems False by simp
    ultimately show ?thesis using front_lines_key [OF f(2) False refl] f(1) by simp
  qed
qed simp

text \<open>Parsed frontmatter is well formed, except for a line with an empty key, which would be rendered
  as a blank line.\<close>

lemma take_block_Nil_Cons: "take_block (l # ls) = [] \<longleftrightarrow> \<not> indented l \<and> \<not> blank l \<or> blank l \<and> \<not> goes_on (l # ls)"
  by auto

lemma goes_on_Cons: "goes_on (l # ls) = (if blank l then goes_on ls else indented l)"
  by (simp add: goes_on_def)

lemma take_block_stops: "take_block (drop (length (take_block ls)) ls) = []"
  by (induction ls) auto

lemma take_block_prefix: "\<exists>rest. ls = take_block ls @ rest"
  by (induction ls) auto

lemma take_block_subset: "set (take_block ls) \<subseteq> set ls"
  by (induction ls) auto

text \<open>Trimming around a byte that is no part of a space rune.\<close>

lemma strip_runes_mid:
  "\<forall>r \<in> set rs. c \<notin> set r \<Longrightarrow> strip_runes rs (k @ c # v) = strip_runes rs k @ c # v"
proof (induction rs k rule: strip_runes.induct)
  case (1 rs k)
  have "has_prefix (k @ c # v) r \<longleftrightarrow> has_prefix k r" if "r \<in> set rs" for r
  proof
    assume "has_prefix (k @ c # v) r"
    then obtain t where "k @ c # v = r @ t" by (auto simp: has_prefix_iff)
    then show "has_prefix k r"
      using 1(2) that by (auto simp: has_prefix_iff append_eq_append_conv2 Cons_eq_append_conv)
  qed (auto simp: has_prefix_iff)
  then have same: "find (\<lambda>r. r \<noteq> [] \<and> has_prefix (k @ c # v) r) rs = find (\<lambda>r. r \<noteq> [] \<and> has_prefix k r) rs"
    by (intro find_cong) auto
  show ?case
  proof (cases "find (\<lambda>r. r \<noteq> [] \<and> has_prefix k r) rs")
    case None
    with same show ?thesis by (simp add: strip_runes_step(1))
  next
    case (Some r)
    then have "has_prefix k r" by (auto simp: find_Some_iff)
    then have "drop (length r) (k @ c # v) = drop (length r) k @ c # v" by (auto simp: has_prefix_iff)
    with 1 Some same show ?thesis by (simp add: strip_runes_step(2))
  qed
qed

lemma strip_runes_empty: "strip_runes rs s = [] \<Longrightarrow> s \<noteq> [] \<Longrightarrow> \<exists>r \<in> set rs. r \<noteq> [] \<and> has_suffix s r"
proof (induction rs s rule: strip_runes.induct)
  case (1 rs s)
  then obtain r where r: "find (\<lambda>r. r \<noteq> [] \<and> has_prefix s r) rs = Some r"
    using strip_runes_step(1) by (cases "find (\<lambda>r. r \<noteq> [] \<and> has_prefix s r) rs") auto
  then have "r \<in> set rs" "r \<noteq> []" "has_prefix s r" by (auto simp: find_Some_iff)
  then obtain t where t: "s = r @ t" by (auto simp: has_prefix_iff)
  show ?case
  proof (cases "t = []")
    case True
    with t \<open>r \<in> set rs\<close> \<open>r \<noteq> []\<close> show ?thesis by (auto simp: has_suffix_iff)
  next
    case False
    with 1(1) [OF r] 1(2) t r obtain q where "q \<in> set rs" "q \<noteq> []" "has_suffix t q"
      by (auto simp: strip_runes_step(2))
    with t show ?thesis by (auto simp: has_suffix_iff intro!: bexI [of _ q]) 
  qed
qed

lemma trim_mid:
  assumes "\<And>r. r \<in> set space_runes \<Longrightarrow> c \<notin> set r"
  shows "\<exists>t. trim_space (k @ c # v) = strip_runes space_runes k @ c # t"
    "\<exists>u. strip_runes space_runes k = trim_space k @ u" "trim_space k = [] \<Longrightarrow> strip_runes space_runes k = []"
proof -
  let ?s = "strip_runes space_runes k"
  have "trim_space (k @ c # v) = rev (strip_runes (map rev space_runes) (rev v @ c # rev ?s))"
    using assms by (simp add: trim_space_def strip_runes_mid)
  also have "\<dots> = ?s @ c # rev (strip_runes (map rev space_runes) (rev v))"
    using assms by (subst strip_runes_mid) auto
  finally show "\<exists>t. trim_space (k @ c # v) = ?s @ c # t" by blast
  obtain u where "rev ?s = u @ strip_runes (map rev space_runes) (rev ?s)" using strip_runes_suffix by blast
  then have "?s = rev (strip_runes (map rev space_runes) (rev ?s)) @ rev u" by (metis rev_append rev_rev_ident)
  then show "\<exists>u. ?s = trim_space k @ u" unfolding trim_space_def by blast
  show "?s = []" if "trim_space k = []"
  proof (rule ccontr)
    assume "?s \<noteq> []"
    moreover have "strip_runes (map rev space_runes) (rev ?s) = []" using that by (simp add: trim_space_def)
    ultimately obtain r where "r \<in> set space_runes" "r \<noteq> []" "has_suffix (rev ?s) (rev r)"
      using strip_runes_empty [of "map rev space_runes" "rev ?s"] by auto
    then have "has_prefix ?s r" by (simp add: has_suffix_def)
    with \<open>r \<in> set space_runes\<close> \<open>r \<noteq> []\<close> strip_runes_done show False by blast
  qed
qed

lemma cut_at_no_byte: "cut_at [c] s = Some (a, b) \<Longrightarrow> c \<notin> set a"
  by (induction s arbitrary: a) (auto simp: has_prefix_def split: if_splits)

lemma set_trim: "set (trim_space s) \<subseteq> set s"
proof -
  have strip: "set (strip_runes rs t) \<subseteq> set t" for rs t
    using strip_runes_suffix [of t rs] by (metis Un_upper2 set_append)
  then show ?thesis unfolding trim_space_def using strip by (metis (no_types) order_trans set_rev)
qed

text \<open>The entry that the line of a key becomes.\<close>

lemma front_lines_CaseE:
  assumes "front_lines (l # ls) = Inr f" "\<not> comment l" "\<not> has_prefix (trim_space l) '':''" "line l"
    "\<forall>x \<in> set ls. line x"
  obtains e g where "f = e # g" "entry_wf e" "en_Key e \<noteq> []" "\<not> indented l" "\<not> blank l"
    "front_lines (drop (length (if opens_block (en_Value e) then take_block ls else [])) ls) = Inr g"
    "en_Block e = join_with [newline] (if opens_block (en_Value e) then take_block ls else [])"
proof -
  have n: "\<not> blank l" "\<not> has_prefix (trim_space l) ''#''" using assms(2) by (simp_all add: comment_def)
  with assms(1) have i: "\<not> indented l" by (auto split: if_splits)
  obtain k v where k: "cut_at '':'' l = Some (k, v)" using assms(1) n i by (auto split: option.splits)
  let ?b = "if opens_block (trim_space v) then take_block ls else []"
  let ?e = "\<lparr>en_Key = trim_space k, en_Value = trim_space v, en_Block = join_with [newline] ?b, en_Raw = []\<rparr>"
  obtain g where g: "front_lines (drop (length ?b) ls) = Inr g" "f = ?e # g"
    using assms(1) n i k by (auto simp: Let_def map_sum_def split: sum.splits)
  have l: "l = k @ CHR '':'' # v" using cut_at_Some [OF k] by simp
  obtain t u where t: "trim_space l = strip_runes space_runes k @ CHR '':'' # t"
      "strip_runes space_runes k = trim_space k @ u"
    using trim_mid [OF rune_no_colon] l by metis
  have ne: "trim_space k \<noteq> []"
    using trim_mid(3) [OF rune_no_colon, of k] t(1) assms(3) by (auto simp: has_prefix_iff)
  moreover have "hd (trim_space k) \<noteq> CHR ''#''"
    using n(2) t ne by (cases "trim_space k") (auto simp: has_prefix_iff)
  moreover have "CHR '':'' \<notin> set (trim_space k)" using cut_at_no_byte k set_trim by blast
  moreover have "line (trim_space k)" "line (trim_space v)"
    using assms(4) set_trim [of k] set_trim [of v] unfolding l line_def by auto
  moreover have "opens_block (trim_space v)" if "join_with [newline] ?b \<noteq> []"
    using that by (cases "opens_block (trim_space v)") simp_all
  ultimately have "entry_wf ?e" by (simp add: entry_wf_def)
  with g n i ne that [of ?e g] show thesis by simp
qed

lemma goes_on_append: "goes_on xs \<noteq> goes_on (xs @ ys) \<Longrightarrow> list_all blank xs"
  by (induction xs) (auto simp: goes_on_Cons split: if_splits)

lemma goes_on_blank: "list_all blank xs \<Longrightarrow> goes_on (xs @ ys) = goes_on ys"
  by (induction xs) (simp_all add: goes_on_Cons)

lemma take_block_again:
  "ls = take_block ls @ rest \<Longrightarrow> goes_on r = goes_on rest \<Longrightarrow> take_block r = [] \<Longrightarrow>
   take_block (take_block ls @ r) = take_block ls"
proof (induction ls)
  case (Cons l ls)
  show ?case
  proof (cases "take_block (l # ls) = []")
    case True
    show ?thesis unfolding True using Cons.prems(3) by simp
  next
    case False
    then have c: "indented l \<or> blank l" "blank l \<Longrightarrow> goes_on ls" "take_block (l # ls) = l # take_block ls"
      by (auto simp: goes_on_Cons split: if_splits)
    with Cons.prems(1) have ls: "ls = take_block ls @ rest" by (simp del: take_block.simps)
    have "goes_on (take_block ls @ r) = goes_on (take_block ls @ rest)"
      using Cons.prems(2) goes_on_append goes_on_blank by metis
    then have "goes_on (take_block ls @ r) = goes_on ls" using ls by simp
    with c Cons.IH [OF ls Cons.prems(2,3)] show ?thesis by (simp add: goes_on_Cons)
  qed
qed simp

lemma entry_first_line:
  assumes "entry_wf e" "en_Key e \<noteq> []"
  obtains x where "entry_lines e = (en_Key e @ CHR '':'' # x) # block_lines e"
    "\<not> blank (en_Key e @ CHR '':'' # x)" "\<not> indented (en_Key e @ CHR '':'' # x)"
proof -
  let ?x = "if en_Block e = [] \<or> en_Value e \<noteq> [] then '' '' @ en_Value e else []"
  have "entry_lines e = (en_Key e @ CHR '':'' # ?x) # block_lines e"
    using assms(2) by (simp add: entry_lines_def block_lines_def)
  then show thesis using that key_line [of "en_Key e"] assms by (simp add: entry_wf_def)
qed

lemma front_lines_wf:
  assumes "front_lines ls = Inr f" "\<forall>l \<in> set ls. line l \<and> \<not> has_prefix (trim_space l) '':''"
  shows "front_wf f \<and> goes_on (front_text f) = goes_on ls \<and> (take_block ls = [] \<longrightarrow> take_block (front_text f) = [])"
  using assms
proof (induction ls arbitrary: f rule: length_induct)
  case (1 ls)
  show ?case
  proof (cases ls)
    case Nil
    with 1(2) show ?thesis by simp
  next
    case (Cons l ms)
    show ?thesis
    proof (cases "comment l")
      case True
      with 1(2) Cons obtain g where g: "front_lines ms = Inr g" "f = raw_entry l # g"
        by (cases "front_lines ms") (auto simp: comment_def)
      with 1(1,3) Cons have IH: "front_wf g" "goes_on (front_text g) = goes_on ms" by auto
      have "front_text f = l # front_text g" using g by (simp add: entry_lines_def raw_entry_def)
      moreover have "entry_wf (raw_entry l)" using True 1(3) Cons by (simp add: entry_wf_def raw_entry_def)
      ultimately show ?thesis
        using IH g(2) Cons by (auto simp: goes_on_Cons take_block_Nil_Cons raw_entry_def simp del: take_block.simps)
    next
      case False
      obtain e g where e: "f = e # g" "entry_wf e" "en_Key e \<noteq> []" "\<not> indented l" "\<not> blank l"
        and rest: "front_lines (drop (length (if opens_block (en_Value e) then take_block ms else [])) ms) = Inr g"
        and blk: "en_Block e = join_with [newline] (if opens_block (en_Value e) then take_block ms else [])"
        using front_lines_CaseE [of l ms f] 1(2,3) False Cons by auto
      let ?b = "if opens_block (en_Value e) then take_block ms else []"
      have "length (drop (length ?b) ms) < length ls" using Cons by simp
      moreover have "\<forall>l \<in> set (drop (length ?b) ms). line l \<and> \<not> has_prefix (trim_space l) '':''"
        using 1(3) Cons by (auto dest: in_set_dropD)
      ultimately have "front_wf g \<and> goes_on (front_text g) = goes_on (drop (length ?b) ms)
          \<and> (take_block (drop (length ?b) ms) = [] \<longrightarrow> take_block (front_text g) = [])"
        by (rule 1(1) [THEN spec, THEN mp, THEN spec, THEN mp, OF _ rest, THEN mp])
      note IH = this [THEN conjunct1] this [THEN conjunct2, THEN conjunct1] this [THEN conjunct2, THEN conjunct2, THEN mp]
      have "take_block (block_lines e @ front_text g) = block_lines e" if o: "opens_block (en_Value e)"
      proof -
        have stop: "take_block (front_text g) = []" using IH(3) o take_block_stops by simp
        have lines: "\<forall>l \<in> set ?b. line l"
          using 1(3) Cons take_block_subset [of ms] o by auto
        show ?thesis
        proof (cases "en_Block e = []")
          case True
          with stop show ?thesis by (simp add: block_lines_def)
        next
          case False
          then have "?b \<noteq> []" using blk by (metis join_with.simps(1))
          then have "split_on newline (join_with [newline] ?b) = ?b" by (rule split_join [OF _ lines])
          with False blk have "block_lines e = ?b" by (simp only: block_lines_def if_False)
          moreover have "ms = take_block ms @ drop (length (take_block ms)) ms"
            using take_block_prefix [of ms] by (metis append_eq_conv_conj)
          ultimately show ?thesis using take_block_again [of ms] IH(2) stop o by simp
        qed
      qed
      with e IH(1) have wf: "front_wf f" by simp
      obtain x where "entry_lines e = (en_Key e @ CHR '':'' # x) # block_lines e"
        "\<not> blank (en_Key e @ CHR '':'' # x)" "\<not> indented (en_Key e @ CHR '':'' # x)"
        by (rule entry_first_line [OF e(2,3)])
      with wf e Cons show ?thesis by (simp add: goes_on_Cons)
    qed
  qed
qed

lemma cut_at_lines:
  assumes "\<forall>l \<in> set ls. line l \<and> l \<noteq> ''---''" "ls \<noteq> []"
  shows "cut_at (newline # rule_line) (join_with [newline] ls @ newline # rule_line @ body) = Some (join_with [newline] ls, body)"
proof -
  have skip: "cut_at (newline # rule_line) (l @ s) = map_option (\<lambda>(a, b). (l @ a, b)) (cut_at (newline # rule_line) s)"
    if "line l" for l s
    using that
  proof (induction l)
    case Nil
    show ?case by (cases "cut_at (newline # rule_line) s") auto
  next
    case (Cons c l)
    then have "cut_at (newline # rule_line) (l @ s) = map_option (\<lambda>(a, b). (l @ a, b)) (cut_at (newline # rule_line) s)"
      "c \<noteq> newline" by (auto simp: line_def)
    then show ?case by (cases "cut_at (newline # rule_line) s") (auto simp: has_prefix_iff)
  qed
  have here: "cut_at (newline # rule_line) (newline # rule_line @ body) = Some ([], body)"
    by (simp add: has_prefix_iff)
  have pass: "cut_at (newline # rule_line) (newline # l @ newline # s) = map_option (\<lambda>(a, b). (newline # a, b))
      (cut_at (newline # rule_line) (l @ newline # s))" if "line l" "l \<noteq> ''---''" for l s
  proof -
    have "\<not> has_prefix (l @ newline # s) rule_line"
    proof
      assume "has_prefix (l @ newline # s) rule_line"
      then obtain t where "l @ newline # s = ''---'' @ newline # t" by (auto simp: has_prefix_iff rule_line_def)
      then have "l = ''---''"
        using that(1) by (auto simp: line_def append_eq_append_conv2 Cons_eq_append_conv append_eq_Cons_conv)
      with that(2) show False by simp
    qed
    then show ?thesis by (simp add: has_prefix_iff)
  qed
  show ?thesis
    using assms
  proof (induction ls)
    case (Cons l ls)
    show ?case
    proof (cases ls)
      case Nil
      with Cons.prems here show ?thesis by (simp add: skip)
    next
      case (Cons m ms)
      then obtain s where s: "join_with [newline] ls @ newline # rule_line @ body = m @ newline # s"
        by (cases ms) auto
      have "join_with [newline] (l # ls) = l @ newline # join_with [newline] ls" using Cons by simp
      with s Cons pass [of m s] Cons.IH Cons.prems show ?thesis by (simp add: skip)
    qed
  qed simp
qed

lemma entry_lines_plain:
  assumes "entry_wf e" "block_lines e = [] \<or> (\<forall>l \<in> set (block_lines e). blank l \<or> indented l)"
  shows "\<forall>l \<in> set (entry_lines e). line l \<and> l \<noteq> ''---''"
proof (cases "en_Key e = []")
  case True
  have "trim_space ''---'' = ''---''" by code_simp
  with assms(1) True show ?thesis
    by (auto simp: entry_lines_def entry_wf_def comment_def blank_def has_prefix_iff)
next
  case False
  have no: "\<not> blank ''---''" "\<not> indented ''---''" by code_simp+
  have "line l \<and> l \<noteq> ''---''" if "l \<in> set (block_lines e)" for l
    using that assms(2) no by (auto simp: block_lines_def split_on_lines split: if_splits)
  moreover have "k @ CHR '':'' # x \<noteq> ''---''" for k x :: string
    by (cases k; cases "tl k"; cases "tl (tl k)") auto
  moreover have "line (en_Key e)" "line (en_Value e)" using assms(1) False by (simp_all add: entry_wf_def)
  ultimately show ?thesis
    using False by (auto simp: entry_lines_def line_def)
qed

lemma take_block_lines: "l \<in> set (take_block ls) \<Longrightarrow> blank l \<or> indented l"
  by (induction ls) (auto split: if_splits)

lemma front_text_plain: "front_wf f \<Longrightarrow> \<forall>l \<in> set (front_text f). line l \<and> l \<noteq> ''---''"
proof (induction f)
  case (Cons e f)
  have "block_lines e = [] \<or> (\<forall>l \<in> set (block_lines e). blank l \<or> indented l)"
  proof (cases "en_Block e = []")
    case False
    with Cons.prems have "en_Key e \<noteq> []" "opens_block (en_Value e)" by (auto simp: entry_wf_def split: if_splits)
    with Cons.prems have "take_block (block_lines e @ front_text f) = block_lines e" by simp
    with take_block_lines [of _ "block_lines e @ front_text f"] show ?thesis by auto
  qed (simp add: block_lines_def)
  with entry_lines_plain [of e] Cons show ?case by auto
qed simp

lemma render_entry_lines: "render_entry e = unlines (entry_lines e)"
  using unlines_join [of "split_on newline (en_Block e)"]
  by (auto simp: render_entry_def entry_lines_def block_lines_def)

lemma render_front_lines: "concat (map render_entry f) = unlines (front_text f)"
  by (induction f) (simp_all add: render_entry_lines)

lemma entry_lines_nonempty: "entry_lines e \<noteq> []"
  by (simp add: entry_lines_def)

lemma cut_front_render:
  assumes "front_wf f" "f \<noteq> []"
  shows "\<exists>fm. cut_front (concat (map render_entry f) @ rule_line @ body) = Inr (fm, body) \<and> parseFront fm = Inr f"
proof -
  let ?ls = "front_text f"
  have ne: "?ls \<noteq> []" using assms(2) entry_lines_nonempty by (cases f) simp_all
  note plain = front_text_plain [OF assms(1)]
  have u: "concat (map render_entry f) @ rule_line @ body = join_with [newline] ?ls @ newline # rule_line @ body"
    using unlines_join [OF ne] by (simp add: render_front_lines flip: append_assoc)
  obtain l ms where l: "?ls = l # ms" using ne by (cases ?ls) auto
  then obtain s where s: "join_with [newline] ?ls @ newline # rule_line @ body = l @ newline # s" by (cases ms) auto
  have "\<not> has_prefix (l @ newline # s) rule_line"
  proof
    assume "has_prefix (l @ newline # s) rule_line"
    then obtain t where "l @ newline # s = ''---'' @ newline # t" by (auto simp: has_prefix_iff rule_line_def)
    then have "l = ''---''"
      using plain l by (auto simp: line_def append_eq_append_conv2 Cons_eq_append_conv append_eq_Cons_conv)
    with plain l show False by simp
  qed
  moreover have "l @ newline # s \<noteq> ''---''" by (auto simp: append_eq_Cons_conv)
  ultimately have "cut_front (concat (map render_entry f) @ rule_line @ body) = Inr (join_with [newline] ?ls, body)"
    unfolding u cut_front_def s [symmetric] using cut_at_lines [OF plain ne] by simp
  moreover have "parseFront (join_with [newline] ?ls) = Inr f"
    using plain ne front_lines_text [OF assms(1)] by (simp add: parseFront_def split_join)
  ultimately show ?thesis by blast
qed

section \<open>Documents survive rendering\<close>

text \<open>The frontmatter text that \<^verbatim>\<open>Parse\<close> cuts out of a file.\<close>

definition frontmatter :: "string \<Rightarrow> string" where
  "frontmatter raw0 =
     (let raw = drop_crlf raw0 in
      if has_prefix raw rule_line then (case cut_front (drop 4 raw) of Inl _ \<Rightarrow> [] | Inr (fm, _) \<Rightarrow> fm) else [])"

lemma rule_opens:
  assumes "sections_wf ss" "has_prefix (concat (map render_section ss)) rule_line"
  shows "bodyOpensWithRule ss"
proof (cases ss)
  case Nil
  with assms(2) show ?thesis by (simp add: has_prefix_iff rule_line_def)
next
  case (Cons s rest)
  obtain t where t: "concat (map render_section ss) = ''---'' @ newline # t"
    using assms(2) by (auto simp: has_prefix_iff rule_line_def)
  have "terminated (sc_Content s)" using sections_wfD [OF assms(1)] Cons by simp
  then obtain ls where c: "sc_Content s = unlines ls" "\<forall>l \<in> set ls. line l" by (rule terminatedE)
  have "\<not> 0 < sc_Level s"
  proof
    assume "0 < sc_Level s"
    moreover from this obtain n where "nat (sc_Level s) = Suc n" by (metis gr0_conv_Suc zero_less_nat_eq)
    ultimately show False using t Cons by (simp add: render_section_def)
  qed
  then have "lead_wf s" using assms(1) Cons by (auto simp: sections_wf_def section_wf_def)
  then obtain l ms where "ls = l # ms" using c(1) by (cases ls) (auto simp: lead_wf_def trim_tight)
  moreover have "render_section s = unlines ls"
    using \<open>terminated (sc_Content s)\<close> c \<open>\<not> 0 < sc_Level s\<close> by (simp add: render_section_lines section_lines_def)
  ultimately have "l @ newline # unlines ms @ concat (map render_section rest) = ''---'' @ newline # t"
    using t Cons by simp
  then have "l = ''---''"
    using c(2) \<open>ls = l # ms\<close> by (auto simp: line_def append_eq_append_conv2 Cons_eq_append_conv append_eq_Cons_conv)
  with c \<open>ls = l # ms\<close> \<open>\<not> 0 < sc_Level s\<close> Cons show ?thesis by (simp add: has_prefix_iff)
qed

lemma parse_render:
  assumes "front_wf (dc_Front d)" "sections_wf (dc_Sections d)" "drop_crlf (Render d) = Render d"
  shows "Parse (Render d) = Inr (d\<lparr>dc_Front := (if dc_Front d = [] \<and> bodyOpensWithRule (dc_Sections d)
     then [raw_entry []] else dc_Front d)\<rparr>)"
proof -
  let ?f = "dc_Front d" and ?body = "concat (map render_section (dc_Sections d))"
  note body = parse_render_sections [OF assms(2)]
  have p: "Parse (Render d) =
     (if has_prefix (Render d) rule_line then
        (case cut_front (drop 4 (Render d)) of
           Inl e \<Rightarrow> Inl e
         | Inr (fm, body) \<Rightarrow> map_sum id (\<lambda>f. \<lparr>dc_Front = f, dc_Sections = parseSections body\<rparr>) (parseFront fm))
      else Inr \<lparr>dc_Front = [], dc_Sections = parseSections (Render d)\<rparr>)"
    by (simp add: Parse_def assms(3))
  have drop4: "drop 4 (rule_line @ s) = s" for s by (simp add: rule_line_def)
  consider (front) "?f \<noteq> []" | (rule) "?f = []" "bodyOpensWithRule (dc_Sections d)"
    | (none) "?f = []" "\<not> bodyOpensWithRule (dc_Sections d)" by blast
  then show ?thesis
  proof cases
    case front
    then have r: "Render d = rule_line @ concat (map render_entry ?f) @ rule_line @ ?body" by (simp add: Render_def)
    obtain fm where "cut_front (concat (map render_entry ?f) @ rule_line @ ?body) = Inr (fm, ?body)" "parseFront fm = Inr ?f"
      using cut_front_render [OF assms(1) front] by blast
    then show ?thesis
      using front body by (subst p) (simp add: r has_prefix_iff drop4 del: drop_append)
  next
    case rule
    then have r: "Render d = rule_line @ rule_line @ ?body" by (simp add: Render_def)
    have "parseFront [] = Inr [raw_entry []]" by (simp add: parseFront_def blank_def trim_tight)
    then show ?thesis
      using rule body by (subst p) (simp add: r cut_front_def has_prefix_iff drop4 del: drop_append)
  next
    case none
    then have r: "Render d = ?body" by (simp add: Render_def)
    have "\<not> has_prefix ?body rule_line" using none rule_opens [OF assms(2)] by blast
    then show ?thesis using none body by (subst p) (simp add: r)
  qed
qed

lemma Parse_wf:
  assumes "Parse raw = Inr d" "\<forall>l \<in> set (split_on newline (frontmatter raw)). \<not> has_prefix (trim_space l) '':''"
  shows "front_wf (dc_Front d) \<and> sections_wf (dc_Sections d)"
proof (cases "has_prefix (drop_crlf raw) rule_line")
  case False
  with assms(1) show ?thesis by (auto simp: Parse_def sections_wf_parse)
next
  case True
  with assms(1) obtain fm body f where cut: "cut_front (drop 4 (drop_crlf raw)) = Inr (fm, body)" "parseFront fm = Inr f"
      "d = \<lparr>dc_Front = f, dc_Sections = parseSections body\<rparr>"
    by (auto simp: Parse_def Let_def map_sum_def split: sum.splits)
  then have "frontmatter raw = fm" using True by (simp add: frontmatter_def)
  with cut assms(2) front_lines_wf [of "split_on newline fm" f] show ?thesis
    by (auto simp: parseFront_def split_on_lines sections_wf_parse)
qed


definition sample_file :: string where
  "sample_file = unlines [''---'', ''id: 1'', ''# n'', ''t:'', ''  - a'', ''---'', ''lead'', ''# O'', ''```'', ''# x'', ''```'']"


end
