(* ===== verification/Markdown_Files.thy ===== *)
theory Markdown_Files
  imports Markdown_Documents
begin

text \<open>
  What the callers of \<^verbatim>\<open>internal/mdstore/mdstore.go\<close> do with a document: read and replace a section by
  its title, keep a list of checkboxes in it, and read and write the file. The durable write is
  modelled call by call, with an outcome for each call to the operating system.
\<close>

section \<open>Sections by title\<close>

text \<open>\<^verbatim>\<open>strings.EqualFold\<close> against a title in ASCII, which is what every caller passes: besides the
  letters A-Z only the long s (C5 BF) and the Kelvin sign (E2 84 AA) fold into ASCII.\<close>

fun fold_case :: "string \<Rightarrow> string" where
  "fold_case [] = []"
| "fold_case (c # s) =
     (if c = CHR 0xC5 \<and> take 1 s = [CHR 0xBF] then CHR ''s'' # fold_case (drop 1 s)
      else if c = CHR 0xE2 \<and> take 2 s = [CHR 0x84, CHR 0xAA] then CHR ''k'' # fold_case (drop 2 s)
      else to_lower_char c # fold_case s)"

definition equal_fold :: "string \<Rightarrow> string \<Rightarrow> bool" where
  "equal_fold s t \<longleftrightarrow> fold_case s = fold_case t"

fun find_section :: "md_section list \<Rightarrow> string \<Rightarrow> md_section option" where
  "find_section [] title = None"
| "find_section (s # ss) title = (if equal_fold (sc_Title s) title then Some s else find_section ss title)"

definition Section :: "doc \<Rightarrow> string \<Rightarrow> md_section option" where
  "Section d title = find_section (dc_Sections d) title"

fun put_section :: "string \<Rightarrow> string \<Rightarrow> md_section list \<Rightarrow> md_section list" where
  "put_section title content [] = [\<lparr>sc_Level = 2, sc_Title = title, sc_Content = content\<rparr>]"
| "put_section title content (s # ss) =
     (if equal_fold (sc_Title s) title then s\<lparr>sc_Content := content\<rparr> # ss else s # put_section title content ss)"

definition SetSection :: "doc \<Rightarrow> string \<Rightarrow> string \<Rightarrow> doc" where
  "SetSection d title content = d\<lparr>dc_Sections := put_section title content (dc_Sections d)\<rparr>"

section \<open>The file\<close>

text \<open>Which calls of \<^verbatim>\<open>durableOps\<close> succeed, what a failing write leaves in the temporary file, and the two
  files a write touches. A rename replaces the target in one step.\<close>

record durable_ops =
  do_MkdirAll :: bool
  do_CreateTemp :: bool
  do_Write :: bool
  do_Written :: string
  do_Chmod :: bool
  do_Sync :: bool
  do_Close :: bool
  do_Rename :: bool
  do_Remove :: bool
  do_Open :: bool
  do_DirSync :: bool
  do_DirClose :: bool

record disk =
  dk_target :: "string option"
  dk_temp :: "string option"

definition remove_temp :: "durable_ops \<Rightarrow> disk \<Rightarrow> disk" where
  "remove_temp io d = (if do_Remove io then d\<lparr>dk_temp := None\<rparr> else d)"

text \<open>\<open>True\<close> is a nil error. The first \<open>remove_temp\<close> calls are \<^verbatim>\<open>cleanup\<close>, which also closes the file.\<close>

definition writeBytes :: "durable_ops \<Rightarrow> string \<Rightarrow> disk \<Rightarrow> bool \<times> disk" where
  "writeBytes io data d0 =
     (if \<not> do_MkdirAll io then (False, d0)
      else if \<not> do_CreateTemp io then (False, d0)
      else let d = d0\<lparr>dk_temp := Some (if do_Write io then data else do_Written io)\<rparr> in
        if \<not> do_Write io then (False, remove_temp io d)
        else if \<not> do_Chmod io then (False, remove_temp io d)
        else if \<not> do_Sync io then (False, remove_temp io d)
        else if \<not> do_Close io then (False, remove_temp io d)
        else if \<not> do_Rename io then (False, remove_temp io d)
        else let e = d\<lparr>dk_target := dk_temp d, dk_temp := None\<rparr> in
          if \<not> do_Open io then (False, e)
          else if \<not> do_DirSync io then (False, e)
          else if \<not> do_DirClose io then (False, e)
          else (True, e))"

definition WriteFile :: "durable_ops \<Rightarrow> doc \<Rightarrow> disk \<Rightarrow> bool \<times> disk" where
  "WriteFile io d = writeBytes io (Render d)"

text \<open>A file that cannot be read and one that cannot be parsed.\<close>

datatype read_error = Unreadable | Malformed parse_error

definition ReadFile :: "disk \<Rightarrow> read_error + doc" where
  "ReadFile dk = (case dk_target dk of None \<Rightarrow> Inl Unreadable | Some raw \<Rightarrow> map_sum Malformed id (Parse raw))"

section \<open>Checkboxes\<close>

definition item_text :: "string \<Rightarrow> bool" where
  "item_text t \<longleftrightarrow> t \<noteq> [] \<and> line t \<and> (\<forall>r \<in> set space_runes. \<not> has_suffix t r)"

lemma tight_item:
  assumes "t \<noteq> []" "p = ''- [ ] '' \<or> p = ''- [x] '' \<or> p = ''- [X] ''"
  shows "tight (p @ t) \<longleftrightarrow> (\<forall>r \<in> set space_runes. \<not> has_suffix t r)"
proof -
  have "\<not> has_prefix (p @ t) r" if r: "r \<in> set space_runes" for r
  proof
    assume "has_prefix (p @ t) r"
    then obtain u where "p @ t = r @ u" by (auto simp: has_prefix_iff)
    moreover have "hd (p @ t) = CHR ''-''" using assms(2) by auto
    ultimately have "hd r = CHR ''-''" using space_runes_nonempty [OF r] by (metis hd_append2)
    with hd_rune [OF r] show False by simp
  qed
  moreover have "has_suffix (p @ t) r \<longleftrightarrow> has_suffix t r" if r: "r \<in> set space_runes" for r
  proof
    assume "has_suffix (p @ t) r"
    then obtain u where u: "p @ t = u @ r" by (auto simp: has_suffix_iff)
    show "has_suffix t r"
    proof (cases "length t < length r")
      case True
      from u consider q where "p = u @ q" "q @ t = r" | q where "t = q @ r"
        unfolding append_eq_append_conv2 by blast
      then have "\<exists>q. r = q @ t \<and> q \<noteq> [] \<and> p = u @ q" using True by cases (fastforce, simp)
      then obtain q where q: "r = q @ t" "q \<noteq> []" "p = u @ q" by blast
      then have "hd r \<in> set p" by simp
      moreover have "set p \<subseteq> {CHR ''-'', CHR '' '', CHR ''['', CHR '']'', CHR ''x'', CHR ''X''}"
        using assms(2) by (elim disjE) simp_all
      ultimately have "hd r = CHR '' ''" using hd_rune [OF r] by fastforce
      moreover have "\<forall>r \<in> set space_runes. hd r = CHR '' '' \<longrightarrow> r = '' ''" by code_simp
      ultimately have "r = '' ''" using r by blast
      with q assms(1) show ?thesis by (cases q) auto
    next
      case False
      from u consider q where "p = u @ q" "q @ t = r" | q where "t = q @ r"
        unfolding append_eq_append_conv2 by blast
      then show ?thesis using False by cases (auto simp: has_suffix_iff)
    qed
  qed (auto simp: has_suffix_iff intro: append_assoc [symmetric])
  ultimately show ?thesis unfolding tight_def by blast
qed

lemma checkbox_line_item:
  assumes "item_text (cb_Text c)"
  shows "checkbox_line ((if cb_Done c then ''- [x] '' else ''- [ ] '') @ cb_Text c) = Some c"
proof -
  have "tight ((if cb_Done c then ''- [x] '' else ''- [ ] '') @ cb_Text c)"
    using assms tight_item [of "cb_Text c"] by (simp add: item_text_def)
  then show ?thesis by (cases c) (simp add: checkbox_line_def trim_tight has_prefix_iff)
qed

lemma checkbox_line_text:
  assumes "checkbox_line l = Some c" "line l"
  shows "item_text (cb_Text c)"
proof -
  let ?t = "trim_space l"
  obtain p where p: "p = ''- [ ] '' \<or> p = ''- [x] '' \<or> p = ''- [X] ''" "?t = p @ cb_Text c"
  proof
    have c: "cb_Text c = drop 6 ?t" "has_prefix ?t ''- [ ] '' \<or> has_prefix ?t ''- [x] '' \<or> has_prefix ?t ''- [X] ''"
      using assms(1) unfolding checkbox_line_def Let_def
      by (cases "has_prefix ?t ''- [ ] ''"; cases "has_prefix ?t ''- [x] ''"; cases "has_prefix ?t ''- [X] ''"; auto)+
    then show "take 6 ?t = ''- [ ] '' \<or> take 6 ?t = ''- [x] '' \<or> take 6 ?t = ''- [X] ''" by (simp add: has_prefix_def eval_nat_numeral)
    show "?t = take 6 ?t @ cb_Text c" unfolding c(1) by simp
  qed
  have t: "tight (p @ cb_Text c)" using p(2) tight_trim [of l] by simp
  have ne: "cb_Text c \<noteq> []"
  proof
    assume "cb_Text c = []"
    then have "has_suffix (p @ cb_Text c) '' ''" using p(1) by (auto simp: has_suffix_iff)
    moreover have "'' '' \<in> set space_runes" by (simp add: space_runes_def)
    ultimately show False using t unfolding tight_def by blast
  qed
  have "set (cb_Text c) \<subseteq> set l" using set_trim [of l] unfolding p(2) by auto
  with assms(2) ne t tight_item [OF ne p(1)] show ?thesis by (auto simp: item_text_def line_def)
qed

abbreviation item_line :: "checkbox \<Rightarrow> string" where
  "item_line c \<equiv> (if cb_Done c then ''- [x] '' else ''- [ ] '') @ cb_Text c"

lemma items_filter:
  "\<forall>c \<in> set boxes. item_text (cb_Text c) \<Longrightarrow> List.map_filter checkbox_line (map item_line boxes @ [[]]) = boxes"
proof (induction boxes)
  case Nil
  have "checkbox_line [] = None" by code_simp
  then show ?case by (simp add: map_filter_simps)
next
  case (Cons c boxes)
  then show ?case using checkbox_line_item [of c] by (simp add: map_filter_simps)
qed

lemma Checkboxes_Render:
  assumes "\<forall>c \<in> set boxes. item_text (cb_Text c)"
  shows "Checkboxes (RenderCheckboxes boxes) = boxes"
proof -
  have "RenderCheckboxes boxes = unlines (map item_line boxes)" by (induction boxes) (simp_all add: RenderCheckboxes_def)
  moreover have "\<forall>l \<in> set (map item_line boxes). line l" using assms by (auto simp: item_text_def line_def)
  ultimately have "split_on newline (RenderCheckboxes boxes) = map item_line boxes @ [[]]" by (simp only: split_unlines)
  then show ?thesis unfolding Checkboxes_def by (simp only: items_filter [OF assms])
qed

text \<open>A checklist that was read and is written back reads the same: no item is lost, gained,
  reordered or ticked, whatever else the section held and whichever way its boxes were written.\<close>

theorem checkboxes_roundtrip: "Checkboxes (RenderCheckboxes (Checkboxes content)) = Checkboxes content"
proof (rule Checkboxes_Render)
  have "item_text (cb_Text c)" if "c \<in> set (List.map_filter checkbox_line ls)" "\<forall>l \<in> set ls. line l" for c ls
    using that by (induction ls) (auto simp: map_filter_simps checkbox_line_text split: option.splits)
  then show "\<forall>c \<in> set (Checkboxes content). item_text (cb_Text c)"
    unfolding Checkboxes_def using split_on_lines by blast
qed

section \<open>Sections by title\<close>

lemma find_put_section:
  "find_section (put_section title content ss) title' =
     (if equal_fold title title' then
        Some (case find_section ss title of
                None \<Rightarrow> \<lparr>sc_Level = 2, sc_Title = title, sc_Content = content\<rparr>
              | Some s \<Rightarrow> s\<lparr>sc_Content := content\<rparr>)
      else find_section ss title')"
  by (induction ss) (auto simp: equal_fold_def)

section \<open>Durable writes\<close>

text \<open>C22: A write is all or nothing. Whatever call of the write fails, the file holds either what it held
  or the complete new document; an error before the rename leaves it as it was, success means that the
  new document is there, and no temporary file is left unless the system refuses to remove it.\<close>

theorem write_atomic:
  assumes "WriteFile io d dk = (ok, dk')" "dk_temp dk = None"
  shows "dk_target dk' \<in> {dk_target dk, Some (Render d)}
     \<and> (ok \<longrightarrow> dk_target dk' = Some (Render d) \<and> do_Sync io \<and> do_DirSync io)
     \<and> (dk_target dk' \<noteq> dk_target dk \<longrightarrow> do_Sync io \<and> do_Write io)
     \<and> (\<not> do_Rename io \<longrightarrow> \<not> ok \<and> dk_target dk' = dk_target dk)
     \<and> (do_Remove io \<or> ok \<longrightarrow> dk_temp dk' = None)"
  using assms by (auto simp: WriteFile_def writeBytes_def remove_temp_def Let_def split: if_splits)

definition failing_ops :: durable_ops where
  "failing_ops = \<lparr>do_MkdirAll = True, do_CreateTemp = True, do_Write = True, do_Written = [], do_Chmod = True, do_Sync = True,
     do_Close = True, do_Rename = True, do_Remove = True, do_Open = True, do_DirSync = False, do_DirClose = True\<rparr>"

definition working_ops :: durable_ops where
  "working_ops = failing_ops\<lparr>do_DirSync := True\<rparr>"

theorem write_atomic_witness:
  "\<exists>d dk'. WriteFile failing_ops d \<lparr>dk_target = Some ''old'', dk_temp = None\<rparr> = (False, dk') \<and> dk_temp dk' = None"
proof -
  let ?d = "\<lparr>dc_Front = [scalar_entry ''k'' ''v''], dc_Sections = []\<rparr>" and ?dk = "\<lparr>dk_target = Some ''old'', dk_temp = None\<rparr>"
  obtain dk' where w: "WriteFile failing_ops ?d ?dk = (False, dk')"
    by (simp add: WriteFile_def writeBytes_def failing_ops_def Let_def)
  have "do_Remove failing_ops" by (simp add: failing_ops_def)
  with write_atomic [OF w] have "dk_temp dk' = None" by simp
  with w show ?thesis by blast
qed

section \<open>Updating a section of a file\<close>

text \<open>Text that may stand in a section: whole lines, no heading, no fence left open.\<close>

definition section_text :: "string \<Rightarrow> bool" where
  "section_text c \<longleftrightarrow> terminated c \<and> no_heading False (body_lines c) \<and> \<not> fence_after False (body_lines c)"

definition closed :: "md_section list \<Rightarrow> bool" where
  "closed ss \<longleftrightarrow> ss = [] \<or> \<not> fence_after False (body_lines (sc_Content (last ss)))"

lemma chain_put:
  assumes "section_text c" "tight t" "line t"
  shows "chain ss \<Longrightarrow> closed ss \<Longrightarrow> chain (put_section t c ss)"
proof (induction ss)
  case Nil
  with assms show ?case by (simp add: section_wf_def section_text_def)
next
  case (Cons s ss)
  show ?case
  proof (cases "equal_fold (sc_Title s) t")
    case True
    with Cons assms(1) show ?thesis by (simp add: section_wf_def section_text_def)
  next
    case False
    from Cons.prems have "closed ss" "\<not> fence_after False (body_lines (sc_Content s))"
      by (auto simp: closed_def split: if_splits)
    with False Cons show ?thesis by (simp add: closed_def)
  qed
qed

lemma sections_wf_put:
  assumes "sections_wf ss" "closed ss" "section_text c" "tight t" "line t" "\<not> equal_fold [] t"
  shows "sections_wf (put_section t c ss)"
proof (cases "chain ss")
  case True
  then show ?thesis using chain_put assms unfolding sections_wf_def by blast
next
  case False
  with assms(1) obtain s rest where s: "ss = s # rest" "lead_wf s" "chain rest"
      "rest \<noteq> [] \<Longrightarrow> \<not> fence_after False (body_lines (sc_Content s))"
    unfolding sections_wf_def by blast
  have "closed rest" "\<not> fence_after False (body_lines (sc_Content s))"
    using assms(2) s by (auto simp: closed_def split: if_splits)
  moreover have "\<not> equal_fold (sc_Title s) t" using s(2) assms(6) by (simp add: lead_wf_def)
  ultimately show ?thesis
    using s chain_put [OF assms(3-5) s(3)] unfolding sections_wf_def by auto
qed

text \<open>Updating a section through the file changes that section and nothing else. A file is read, the
  text under a title is replaced (or a section of that title added at the end) and the document is
  written back without error; then the file reads as the old document with just that text in place of
  the old, and every other section and all of the frontmatter are the ones read.\<close>

theorem section_update:
  assumes "dk_target dk = Some raw" "ReadFile dk = Inr d"
    "\<forall>l \<in> set (split_on newline (frontmatter raw)). \<not> has_prefix (trim_space l) '':''"
    "section_text content" "tight title" "line title" "\<not> equal_fold [] title"
    "dc_Front d \<noteq> []" "closed (dc_Sections d)"
    "drop_crlf (Render (SetSection d title content)) = Render (SetSection d title content)"
    "WriteFile io (SetSection d title content) dk = (True, dk')" "dk_temp dk = None"
  shows "ReadFile dk' = Inr (SetSection d title content)
     \<and> (\<exists>s. Section (SetSection d title content) title = Some s \<and> sc_Content s = content)
     \<and> (\<forall>other. \<not> equal_fold title other \<longrightarrow> Section (SetSection d title content) other = Section d other)"
proof -
  let ?d = "SetSection d title content"
  have "Parse raw = Inr d" using assms(1,2) by (auto simp: ReadFile_def map_sum_def split: sum.splits)
  then have wf: "front_wf (dc_Front d)" "sections_wf (dc_Sections d)" using Parse_wf assms(3) by blast+
  then have "sections_wf (dc_Sections ?d)" "dc_Front ?d = dc_Front d"
    using sections_wf_put assms(4-7,9) by (simp_all add: SetSection_def)
  with parse_render [of ?d] wf(1) assms(8,10) have "Parse (Render ?d) = Inr ?d" by simp
  moreover have "dk_target dk' = Some (Render ?d)"
    using assms(11,12) by (auto simp: WriteFile_def writeBytes_def Let_def split: if_splits)
  ultimately show ?thesis
    by (auto simp: ReadFile_def Section_def SetSection_def find_put_section equal_fold_def split: option.splits)
qed

theorem section_update_witness:
  "\<exists>d dk'. Parse sample_file = Inr d \<and> ReadFile dk' = Inr (SetSection d ''Log'' (unlines [''done'']))"
proof -
  let ?dk = "\<lparr>dk_target = Some sample_file, dk_temp = None\<rparr>" and ?c = "unlines [''done'']"
  have "(case Parse sample_file of Inl _ \<Rightarrow> False | Inr d \<Rightarrow> dc_Front d \<noteq> [] \<and> closed (dc_Sections d)
    \<and> drop_crlf (Render (SetSection d ''Log'' ?c)) = Render (SetSection d ''Log'' ?c))" by code_simp
  then obtain d where d: "Parse sample_file = Inr d" "dc_Front d \<noteq> []" "closed (dc_Sections d)"
      "drop_crlf (Render (SetSection d ''Log'' ?c)) = Render (SetSection d ''Log'' ?c)"
    by (auto split: sum.splits)
  have colon: "\<forall>l \<in> set (split_on newline (frontmatter sample_file)). \<not> has_prefix (trim_space l) '':''" by code_simp
  have t: "section_text ?c" "tight ''Log''" "line ''Log''" "\<not> equal_fold [] ''Log''" by code_simp+
  have r: "ReadFile ?dk = Inr d" using d(1) by (simp add: ReadFile_def)
  obtain dk' where w: "WriteFile working_ops (SetSection d ''Log'' ?c) ?dk = (True, dk')"
    by (simp add: WriteFile_def writeBytes_def working_ops_def failing_ops_def Let_def)
  have "ReadFile dk' = Inr (SetSection d ''Log'' ?c)"
    by (rule section_update [OF _ r colon t d(2,3,4) w, THEN conjunct1]) simp_all
  with d(1) show ?thesis by blast
qed

end
