(* ===== verification/Ulid.thy ===== *)
theory Ulid
  imports Prelude
begin

unbundle bit_operations_syntax

text \<open>
  Event identifiers (\<^verbatim>\<open>internal/ulid/ulid.go\<close>): 48 bits of time and 80 random bits in Crockford's base
  32. The event log is ordered by these names, so the theorems are that the order of the identifiers
  is the order of their times, that the time can be read back, and that no random bit is lost. The
  random bytes and the clock are arguments.
\<close>

definition alphabet :: string where
  "alphabet = ''0123456789ABCDEFGHJKMNPQRSTVWXYZ''"

text \<open>The loop over the time: \<open>n\<close> characters are still to be written, in front of those in \<open>b\<close>.\<close>

fun time_chars :: "nat \<Rightarrow> 64 word \<Rightarrow> string \<Rightarrow> string" where
  "time_chars 0 ms b = b"
| "time_chars (Suc n) ms b = time_chars n (drop_bit 5 ms) (alphabet ! unat (ms AND 31) # b)"

text \<open>The inner loop over the accumulated bits: the characters written and the bits left.\<close>

fun flush_bits :: "64 word \<Rightarrow> nat \<Rightarrow> string \<times> nat" where
  "flush_bits acc bits =
     (if 5 \<le> bits then
        (let (s, left) = flush_bits acc (bits - 5)
         in (alphabet ! unat (drop_bit (bits - 5) acc AND 31) # s, left))
      else ([], bits))"

declare flush_bits.simps [simp del]

fun random_chars :: "64 word \<Rightarrow> nat \<Rightarrow> 8 word list \<Rightarrow> string" where
  "random_chars acc bits [] = []"
| "random_chars acc bits (x # xs) =
     (let acc' = push_bit 8 acc OR ucast x;
          (s, left) = flush_bits acc' (bits + 8)
      in s @ random_chars acc' left xs)"

text \<open>\<open>ms\<close> is \<^verbatim>\<open>uint64(t.UnixMilli())\<close>, \<open>r\<close> the ten bytes read from \<^verbatim>\<open>crypto/rand\<close>.\<close>

definition At :: "64 word \<Rightarrow> 8 word list \<Rightarrow> string" where
  "At ms r = time_chars 10 ms [] @ random_chars 0 0 r"

definition Valid :: "string \<Rightarrow> bool" where
  "Valid s \<longleftrightarrow> length s = 26 \<and> list_all (\<lambda>c.
     (CHR ''0'' \<le> c \<and> CHR ''9'' \<ge> c)
     \<or> (CHR ''A'' \<le> c \<and> CHR ''Z'' \<ge> c \<and> c \<noteq> CHR ''I'' \<and> c \<noteq> CHR ''L'' \<and> c \<noteq> CHR ''O'' \<and> c \<noteq> CHR ''U'')) s"

text \<open>\<^verbatim>\<open>strings.IndexByte\<close>.\<close>

fun index_byte :: "string \<Rightarrow> char \<Rightarrow> nat option" where
  "index_byte [] c = None"
| "index_byte (x # xs) c = (if x = c then Some 0 else map_option Suc (index_byte xs c))"

fun decode_time :: "64 word \<Rightarrow> string \<Rightarrow> 64 word option" where
  "decode_time ms [] = Some ms"
| "decode_time ms (c # s) =
     (case index_byte alphabet c of
        None \<Rightarrow> None
      | Some v \<Rightarrow> decode_time (push_bit 5 ms OR of_nat v) s)"

text \<open>\<^verbatim>\<open>int64(ms)\<close> milliseconds since the epoch.\<close>

definition Time :: "string \<Rightarrow> int option" where
  "Time i = (if length i < 10 then None else map_option sint (decode_time 0 (take 10 i)))"

section \<open>The alphabet\<close>

lemma alphabet_props: "length alphabet = 32" "sorted_wrt (<) alphabet"
  by code_simp+

lemma alphabet_less: "i < j \<Longrightarrow> j < 32 \<Longrightarrow> alphabet ! i < alphabet ! j"
  using sorted_wrt_nth_less [OF alphabet_props(2)] alphabet_props(1) by metis

lemma alphabet_valid: "list_all (\<lambda>c. (CHR ''0'' \<le> c \<and> CHR ''9'' \<ge> c)
     \<or> (CHR ''A'' \<le> c \<and> CHR ''Z'' \<ge> c \<and> c \<noteq> CHR ''I'' \<and> c \<noteq> CHR ''L'' \<and> c \<noteq> CHR ''O'' \<and> c \<noteq> CHR ''U'')) alphabet"
  by code_simp

lemma index_byte_nth: "distinct xs \<Longrightarrow> i < length xs \<Longrightarrow> index_byte xs (xs ! i) = Some i"
proof (induction xs arbitrary: i)
  case (Cons x xs)
  then show ?case by (cases i) auto
qed simp

lemma index_alphabet: "i < 32 \<Longrightarrow> index_byte alphabet (alphabet ! i) = Some i"
  using index_byte_nth [of alphabet i] alphabet_props by (simp add: strict_sorted_iff)

lemma digit_less: "unat (w AND 31 :: 64 word) < 32"
proof -
  have "w AND 31 \<le> (31 :: 64 word)" by (rule word_and_le1)
  then show ?thesis by (simp add: word_le_nat_alt)
qed

section \<open>Time\<close>

lemma time_chars_append: "time_chars n ms b = time_chars n ms [] @ b"
proof (induction n arbitrary: ms b)
  case (Suc n)
  have "time_chars (Suc n) ms b = time_chars n (drop_bit 5 ms) [] @ alphabet ! unat (ms AND 31) # b"
    using Suc [of "drop_bit 5 ms" "alphabet ! unat (ms AND 31) # b"] by simp
  also have "\<dots> = time_chars (Suc n) ms [] @ b"
    using Suc [of "drop_bit 5 ms" "[alphabet ! unat (ms AND 31)]"] by simp
  finally show ?case .
qed simp

lemma time_chars_snoc: "time_chars (Suc n) ms [] = time_chars n (drop_bit 5 ms) [] @ [alphabet ! unat (ms AND 31)]"
  using time_chars_append [of n "drop_bit 5 ms" "[alphabet ! unat (ms AND 31)]"] by simp

lemma length_time_chars [simp]: "length (time_chars n ms b) = n + length b"
  by (induction n arbitrary: ms b) simp_all

lemma decode_append: "decode_time ms (s @ t) = Option.bind (decode_time ms s) (\<lambda>m. decode_time m t)"
  by (induction s arbitrary: ms) (auto split: option.splits)

lemma decode_time_chars: "decode_time 0 (time_chars n ms []) = Some (take_bit (5 * n) ms)"
proof (induction n arbitrary: ms)
  case (Suc n)
  have "push_bit 5 (take_bit (5 * n) (drop_bit 5 ms)) OR (ms AND 31) = take_bit (5 * Suc n) ms"
  proof (rule bit_word_eqI)
    fix k assume "k < LENGTH(64)"
    have "bit (31 :: 64 word) k \<longleftrightarrow> k < 5"
      using bit_mask_iff [of 5 k, where 'a = "64 word"] \<open>k < LENGTH(64)\<close> by (simp add: mask_eq_exp_minus_1)
    then show "bit (push_bit 5 (take_bit (5 * n) (drop_bit 5 ms)) OR (ms AND 31)) k = bit (take_bit (5 * Suc n) ms) k"
      using \<open>k < LENGTH(64)\<close>
      by (auto simp: bit_or_iff bit_push_bit_iff bit_take_bit_iff bit_drop_bit_eq bit_and_iff not_less)
  qed
  then show ?case
    using Suc index_alphabet [OF digit_less] by (simp add: time_chars_snoc decode_append del: time_chars.simps)
qed simp

text \<open>Fixed-width numerals in increasing digits compare like the numbers.\<close>

lemma lex_append: "length xs = length ys \<Longrightarrow> xs < ys \<Longrightarrow> xs @ us < ys @ (vs :: 'a :: linorder list)"
proof (induction xs ys rule: list_induct2)
  case (Cons x xs y ys)
  then show ?case by (cases "x = y") auto
qed simp

lemma less_digits: "(a :: nat) < b \<Longrightarrow> a div m < b div m \<or> (a div m = b div m \<and> a mod m < b mod m)"
  by (metis add_less_cancel_left div_le_mono div_mult_mod_eq le_neq_implies_less less_imp_le_nat)

lemma time_chars_less: "ms < ms' \<Longrightarrow> unat ms' < 32 ^ n \<Longrightarrow> time_chars n ms [] < time_chars n ms' []"
proof (induction n arbitrary: ms ms')
  case 0
  then show ?case by (simp add: word_less_nat_alt)
next
  case (Suc n)
  have q: "unat (drop_bit 5 w) = unat w div 32" "unat (w AND 31) = unat w mod 32" for w :: "64 word"
  proof -
    have "w AND 31 = take_bit 5 w" by (simp add: take_bit_eq_mask mask_eq_exp_minus_1)
    then show "unat (w AND 31) = unat w mod 32" by (simp add: take_bit_eq_mod unat_mod_distrib)
    show "unat (drop_bit 5 w) = unat w div 32" by (simp add: drop_bit_eq_div unat_div_distrib)
  qed
  have "unat ms div 32 < unat ms' div 32 \<or> (unat ms div 32 = unat ms' div 32 \<and> unat ms mod 32 < unat ms' mod 32)"
    using Suc.prems(1) unfolding word_less_nat_alt by (rule less_digits)
  then consider "drop_bit 5 ms < drop_bit 5 ms'"
    | "drop_bit 5 ms = drop_bit 5 ms'" "unat (ms AND 31) < unat (ms' AND 31)"
    unfolding q [symmetric] by (auto simp: word_less_nat_alt word_unat_eq_iff)
  then show ?case
  proof cases
    case 1
    have "unat (drop_bit 5 ms') < 32 ^ n" using Suc.prems(2) by (simp add: q less_mult_imp_div_less mult.commute)
    with Suc.IH [OF 1] show ?thesis unfolding time_chars_snoc by (intro lex_append) simp_all
  next
    case 2
    have "alphabet ! unat (ms AND 31) < alphabet ! unat (ms' AND 31)" by (rule alphabet_less [OF 2(2) digit_less])
    moreover have "xs @ [c] < xs @ [d]" if "c < d" for xs :: string and c d using that by (induction xs) auto
    ultimately show ?thesis unfolding time_chars_snoc 2(1) by blast
  qed
qed

section \<open>Random bits\<close>

text \<open>The bits written and kept, as a number: every byte enters it at the low end, and every five bits
  leave it at the high end in order. So the characters are the digits of the ten bytes.\<close>

lemma flush_bits_length: "flush_bits acc bits = (s, left) \<Longrightarrow> length s = bits div 5 \<and> left = bits mod 5"
proof (induction acc bits arbitrary: s left rule: flush_bits.induct)
  case (1 acc bits)
  show ?case
  proof (cases "5 \<le> bits")
    case True
    obtain s' where s': "flush_bits acc (bits - 5) = (s', left)"
      "s = alphabet ! unat (drop_bit (bits - 5) acc AND 31) # s'"
      using 1(2) True by (subst (asm) flush_bits.simps) (auto split: prod.splits)
    with 1(1) True have "length s' = (bits - 5) div 5" "left = (bits - 5) mod 5" by blast+
    with s'(2) True show ?thesis by (auto simp: le_div_geq le_mod_geq)
  next
    case False
    with 1(2) show ?thesis by (subst (asm) flush_bits.simps) auto
  qed
qed

lemma flush_bits_alphabet: "flush_bits acc bits = (s, left) \<Longrightarrow> set s \<subseteq> set alphabet"
proof (induction acc bits arbitrary: s left rule: flush_bits.induct)
  case (1 acc bits)
  show ?case
  proof (cases "5 \<le> bits")
    case True
    obtain s' where s': "flush_bits acc (bits - 5) = (s', left)"
      "s = alphabet ! unat (drop_bit (bits - 5) acc AND 31) # s'"
      using 1(2) True by (subst (asm) flush_bits.simps) (auto split: prod.splits)
    moreover have "alphabet ! unat (w AND 31) \<in> set alphabet" for w :: "64 word"
      using digit_less alphabet_props(1) by (simp add: nth_mem)
    ultimately show ?thesis using 1(1) True by simp
  next
    case False
    with 1(2) show ?thesis by (subst (asm) flush_bits.simps) auto
  qed
qed

lemma random_chars_shape:
  "bits < 5 \<Longrightarrow> set (random_chars acc bits xs) \<subseteq> set alphabet \<and> length (random_chars acc bits xs) = (bits + 8 * length xs) div 5"
proof (induction xs arbitrary: acc bits)
  case (Cons x xs)
  let ?a = "push_bit 8 acc OR ucast x"
  obtain s left where f: "flush_bits ?a (bits + 8) = (s, left)" by (cases "flush_bits ?a (bits + 8)")
  note l = flush_bits_length [OF f] flush_bits_alphabet [OF f]
  have "(bits + 8) div 5 + ((bits + 8) mod 5 + 8 * length xs) div 5 = (bits + 8 * length (x # xs)) div 5"
    using div_mult_mod_eq [of "bits + 8" 5] by (simp flip: div_mult_self3 add: algebra_simps)
  moreover have "left < 5" using l(1) by simp
  ultimately show ?case using l f Cons.IH [of left ?a] by (simp add: Let_def)
qed simp

lemma time_chars_alphabet: "set (time_chars n ms []) \<subseteq> set alphabet"
proof (induction n arbitrary: ms)
  case (Suc n)
  have "alphabet ! unat (ms AND 31) \<in> set alphabet" using digit_less alphabet_props(1) by (simp add: nth_mem)
  with Suc show ?case by (simp add: time_chars_snoc del: time_chars.simps)
qed simp

text \<open>C23: An identifier is well formed, carries its time, and sorts by it. For every time below the width
  of the ten time characters and every ten random bytes, \<^verbatim>\<open>At\<close> makes an identifier that \<^verbatim>\<open>Valid\<close>
  accepts and from which \<^verbatim>\<open>Time\<close> reads the time back; of two times, the earlier one has the
  lexicographically smaller identifier, whatever the random bytes are.\<close>

theorem ulid_time_order:
  assumes "length r = 10" "unat ms < 2 ^ 50"
  shows "Valid (At ms r) \<and> Time (At ms r) = Some (uint ms)
     \<and> (ms' < ms \<longrightarrow> At ms' r' < At ms r)"
proof (intro conjI impI)
  have "set (At ms r) \<subseteq> set alphabet" "length (At ms r) = 26"
    using time_chars_alphabet random_chars_shape [of 0 0 r] assms(1) by (auto simp: At_def)
  then show "Valid (At ms r)"
    using alphabet_valid unfolding Valid_def list_all_iff by blast
  have "take 10 (At ms r) = time_chars 10 ms []" by (simp add: At_def)
  then have "Time (At ms r) = Some (sint (take_bit 50 ms))"
    using \<open>length (At ms r) = 26\<close> by (simp add: Time_def decode_time_chars)
  moreover have "take_bit 50 ms = ms"
    by (metis assms(2) take_bit_nat_eq_self unsigned_take_bit_eq word_unat_eq_iff)
  moreover have "sint ms = uint ms"
  proof -
    have "int (unat ms) < int (2 ^ 50)" using assms(2) by (simp only: of_nat_less_iff)
    then have "uint ms < 2 ^ 50" by simp
    then show ?thesis unfolding sint_uint by (intro signed_take_bit_int_eq_self) (simp_all add: order_trans [of _ 0])
  qed
  ultimately show "Time (At ms r) = Some (uint ms)" by simp
  show "At ms' r' < At ms r" if "ms' < ms"
    unfolding At_def using time_chars_less [OF that, of 10] assms(2) by (intro lex_append) simp_all
qed

theorem ulid_time_order_witness:
  "Time (At 1000 (replicate 10 7)) = Some 1000 \<and> At 999 (replicate 10 255) < At 1000 (replicate 10 7)"
  using ulid_time_order [of "replicate 10 7" 1000 999 "replicate 10 255"] by simp

section \<open>No bit is lost\<close>

text \<open>The lowest \<open>n\<close> bits of a word, highest first, and the five bits of a character.\<close>

definition to_bits :: "nat \<Rightarrow> 'a::len word \<Rightarrow> bool list" where
  "to_bits n w = map (bit w) (rev [0..<n])"

definition char_bits :: "char \<Rightarrow> bool list" where
  "char_bits c = (case index_byte alphabet c of None \<Rightarrow> [] | Some v \<Rightarrow> to_bits 5 (of_nat v :: 64 word))"

lemma length_to_bits [simp]: "length (to_bits n w) = n"
  by (simp add: to_bits_def)

lemma to_bits_add: "to_bits (m + n) w = to_bits m (drop_bit n w) @ to_bits n w"
proof -
  have "rev [0..<m + n] = map (\<lambda>i. n + i) (rev [0..<m]) @ rev [0..<n]"
    by (induction m) (simp_all add: add.commute)
  then show ?thesis by (simp add: to_bits_def bit_drop_bit_eq comp_def)
qed

lemma char_bits_digit: "char_bits (alphabet ! unat (w AND 31)) = to_bits 5 (w :: 64 word)"
proof -
  have "bit (w AND 31) i = bit w i" if "i < 5" for i
    using that bit_mask_iff [of 5 i, where 'a = "64 word"] by (simp add: bit_and_iff mask_eq_exp_minus_1)
  then show ?thesis by (auto simp: char_bits_def index_alphabet [OF digit_less] to_bits_def)
qed

lemma flush_bits_bits:
  "flush_bits acc bits = (s, left) \<Longrightarrow> concat (map char_bits s) @ to_bits left acc = to_bits bits acc"
proof (induction acc bits arbitrary: s left rule: flush_bits.induct)
  case (1 acc bits)
  show ?case
  proof (cases "5 \<le> bits")
    case True
    obtain s' where s': "flush_bits acc (bits - 5) = (s', left)"
      "s = alphabet ! unat (drop_bit (bits - 5) acc AND 31) # s'"
      using 1(2) True by (subst (asm) flush_bits.simps) (auto split: prod.splits)
    with 1(1) True have "concat (map char_bits s') @ to_bits left acc = to_bits (bits - 5) acc" by blast
    with s'(2) True to_bits_add [of 5 "bits - 5" acc] show ?thesis by (simp add: char_bits_digit)
  next
    case False
    with 1(2) show ?thesis by (subst (asm) flush_bits.simps) auto
  qed
qed

lemma to_bits_shift:
  "n + 8 \<le> 64 \<Longrightarrow> to_bits (n + 8) (push_bit 8 acc OR ucast (x :: 8 word) :: 64 word) = to_bits n acc @ to_bits 8 x"
proof -
  assume n: "n + 8 \<le> 64"
  let ?w = "push_bit 8 acc OR ucast x :: 64 word"
  have "bit (drop_bit 8 ?w) i = bit acc i" if "i < n" for i
    using that n bit_imp_le_length [of x "8 + i"]
    by (auto simp: bit_drop_bit_eq bit_or_iff bit_push_bit_iff bit_ucast_iff)
  moreover have "bit ?w i = bit x i" if "i < 8" for i
    using that by (auto simp: bit_or_iff bit_push_bit_iff bit_ucast_iff)
  ultimately show ?thesis by (auto simp: to_bits_add to_bits_def [of n] to_bits_def [of 8])
qed

lemma random_chars_bits:
  "bits < 5 \<Longrightarrow> \<exists>w. concat (map char_bits (random_chars acc bits xs)) @ to_bits ((bits + 8 * length xs) mod 5) (w :: 64 word)
     = to_bits bits acc @ concat (map (to_bits 8) xs)"
proof (induction xs arbitrary: acc bits)
  case Nil
  then show ?case by (intro exI [of _ acc]) simp
next
  case (Cons x xs)
  let ?a = "push_bit 8 acc OR ucast x :: 64 word"
  obtain s left where f: "flush_bits ?a (bits + 8) = (s, left)" by (cases "flush_bits ?a (bits + 8)")
  note b = flush_bits_bits [OF f] flush_bits_length [OF f]
  have "left < 5" using b(2) by simp
  from Cons.IH [OF this, of ?a] obtain w :: "64 word" where
    w: "concat (map char_bits (random_chars ?a left xs)) @ to_bits ((left + 8 * length xs) mod 5) w
       = to_bits left ?a @ concat (map (to_bits 8) xs)" by blast
  have "(left + 8 * length xs) mod 5 = (bits + 8 * length (x # xs)) mod 5"
    using b(2) mod_add_left_eq [of "bits + 8" 5 "8 * length xs"] by (simp add: algebra_simps)
  moreover have "to_bits (bits + 8) ?a = to_bits bits acc @ to_bits 8 x" using Cons.prems by (simp add: to_bits_shift)
  moreover have "random_chars acc bits (x # xs) = s @ random_chars ?a left xs" using f by (simp add: Let_def)
  ultimately have "concat (map char_bits (random_chars acc bits (x # xs))) @ to_bits ((bits + 8 * length (x # xs)) mod 5) w
      = concat (map char_bits s) @ to_bits left ?a @ concat (map (to_bits 8) xs)"
    using w by simp
  also have "\<dots> = to_bits bits acc @ concat (map (to_bits 8) (x # xs))"
    using b(1) \<open>to_bits (bits + 8) ?a = to_bits bits acc @ to_bits 8 x\<close> by (simp flip: append_assoc)
  finally show ?case by blast
qed

lemma to_bits_inject: "to_bits 8 (x :: 8 word) = to_bits 8 y \<Longrightarrow> x = y"
  by (rule bit_word_eqI) (auto simp: to_bits_def)

text \<open>No random bit is lost. Two identifiers are equal only if their times and all eighty random
  bits are, so distinct draws never collide.\<close>

theorem ulid_injective:
  assumes "At ms r = At ms' r'" "length r = 10" "length r' = 10" "unat ms < 2 ^ 50" "unat ms' < 2 ^ 50"
  shows "ms = ms' \<and> r = r'"
proof
  have parts: "time_chars 10 ms [] = time_chars 10 ms' []" "random_chars 0 0 r = random_chars 0 0 r'"
    using assms(1) by (simp_all add: At_def)
  then have "take_bit 50 ms = take_bit 50 ms'"
    using decode_time_chars [of 10 ms] decode_time_chars [of 10 ms'] by simp
  then show "ms = ms'"
    using assms(4,5) by (metis take_bit_nat_eq_self unsigned_take_bit_eq word_unat_eq_iff)
  have bits: "concat (map char_bits (random_chars 0 0 q)) = concat (map (to_bits 8) q)" if "length q = 10" for q
    using random_chars_bits [of 0 0 q] that by (simp add: to_bits_def)
  have "concat (map (to_bits 8) r) = concat (map (to_bits 8) r')"
    using bits [OF assms(2)] bits [OF assms(3)] parts(2) by simp
  then have "map (to_bits 8) r = map (to_bits 8) r'"
    by (rule concat_eq_concat_iff [THEN iffD1, rotated 2]) (auto simp: set_zip assms(2,3))
  then show "r = r'" by (rule map_injective) (auto intro!: injI to_bits_inject)
qed

theorem ulid_injective_witness:
  "At 1000 (replicate 10 7) \<noteq> At 1000 (replicate 9 7 @ [8])"
proof
  have "(replicate 10 7 :: 8 word list) \<noteq> replicate 9 7 @ [8]" by code_simp
  moreover assume "At 1000 (replicate 10 7) = At 1000 (replicate 9 7 @ [8])"
  then have "(replicate 10 7 :: 8 word list) = replicate 9 7 @ [8]"
    by (rule ulid_injective [THEN conjunct2]) simp_all
  ultimately show False by blast
qed

end
