(* ===== verification/Event_Log.thy ===== *)
theory Event_Log
  imports Markdown_Files Ulid
begin

text \<open>
  The append-only event log (\<^verbatim>\<open>internal/eventlog\<close>, \<^verbatim>\<open>internal/eventdisp\<close>): how an event is written as a
  document with a checksum, read back and verified, listed with the records that dismiss it, and
  marked applied. The log is its files, named so that their order is the order of time. The digest of
  a payload is a parameter \<open>h\<close>; no theorem here assumes that it is injective unless it says so.
\<close>

section \<open>Event files\<close>

definition isJournal :: "string \<Rightarrow> bool" where
  "isJournal kind \<longleftrightarrow> kind \<in> {''commit'', ''run'', ''exit'', ''dismissal'', ''review''}"

record event =
  ee_SchemaVersion :: int
  ee_Checksum :: string
  ee_ID :: string
  ee_documentKind :: string
  ee_Kind :: string
  ee_Actor :: string
  ee_About :: string
  ee_Origin :: string
  ee_Against :: string
  ee_Applied :: bool
  ee_Dismissed :: bool
  ee_Body :: string
  ee_Path :: string
  ee_Pending :: bool

record payload =
  py_SchemaVersion :: int
  py_ID :: string
  py_DocumentKind :: string
  py_Kind :: string
  py_Created :: string
  py_Actor :: string
  py_About :: string
  py_Origin :: string
  py_Against :: string
  py_Body :: string

text \<open>\<open>h\<close> is the hexadecimal SHA-256 digest of the JSON encoding.\<close>

definition jv_payload :: "payload \<Rightarrow> jval" where
  "jv_payload p = JO ([(''schema_version'', JI (py_SchemaVersion p)), (''id'', JS (py_ID p)),
     (''kind'', JS (py_DocumentKind p)), (''event_kind'', JS (py_Kind p)), (''created'', JS (py_Created p)),
     (''created_by'', JS (py_Actor p))] @ omit_empty [(''about'', JS (py_About p))] @ [(''origin'', JS (py_Origin p))]
     @ omit_empty [(''against'', JS (py_Against p)), (''body'', JS (py_Body p))])"

definition Checksum :: "(jval \<Rightarrow> string) \<Rightarrow> payload \<Rightarrow> string" where
  "Checksum h p = ''sha256:'' @ h (jv_payload p)"

definition get0 :: "front \<Rightarrow> string \<Rightarrow> string" where
  "get0 f k = (case Get f k of None \<Rightarrow> [] | Some v \<Rightarrow> v)"

text \<open>\<^verbatim>\<open>strings.TrimPrefix\<close>, \<^verbatim>\<open>strings.TrimSuffix\<close> and \<^verbatim>\<open>strconv.Atoi\<close>.\<close>

definition trim_prefix :: "string \<Rightarrow> string \<Rightarrow> string" where
  "trim_prefix s p = (if has_prefix s p then drop (length p) s else s)"

definition trim_suffix :: "string \<Rightarrow> string \<Rightarrow> string" where
  "trim_suffix s p = (if has_suffix s p then take (length s - length p) s else s)"

definition decimal :: "string \<Rightarrow> int option" where
  "decimal s = (if s \<noteq> [] \<and> list_all is_digit s then Some (foldl (\<lambda>n c. 10 * n + (of_char c - 48)) 0 s) else None)"

definition atoi :: "string \<Rightarrow> int option" where
  "atoi s =
     (case decimal (if has_prefix s ''+'' \<or> has_prefix s ''-'' then drop 1 s else s) of
        None \<Rightarrow> None
      | Some n \<Rightarrow> let v = (if has_prefix s ''-'' then - n else n) in
          if - (2 ^ 63) \<le> v \<and> v < 2 ^ 63 then Some v else None)"

definition links_target :: "string \<Rightarrow> string" where
  "links_target a = trim_suffix (trim_prefix a ''[['') '']]''"

definition doc_body :: "doc \<Rightarrow> string" where
  "doc_body d = trim_space (concat (map sc_Content (dc_Sections d)))"

definition doc_payload :: "int \<Rightarrow> doc \<Rightarrow> payload" where
  "doc_payload version d =
     (let g = get0 (dc_Front d) in
      \<lparr>py_SchemaVersion = version, py_ID = g ''id'', py_DocumentKind = g ''kind'', py_Kind = g ''event_kind'',
       py_Created = g ''created'', py_Actor = g ''created_by'', py_About = links_target (g ''about''),
       py_Origin = g ''origin'', py_Against = g ''against'', py_Body = doc_body d\<rparr>)"

section \<open>Reading\<close>

datatype event_error = Incomplete | Unsupported string | Mismatch

definition parseEvent :: "(jval \<Rightarrow> string) \<Rightarrow> string \<Rightarrow> doc \<Rightarrow> event_error + event" where
  "parseEvent h path d =
     (let g = get0 (dc_Front d);
          e = \<lparr>ee_SchemaVersion = 0, ee_Checksum = g ''checksum'', ee_ID = g ''id'', ee_documentKind = g ''kind'',
               ee_Kind = g ''event_kind'', ee_Actor = g ''created_by'', ee_About = links_target (g ''about''),
               ee_Origin = g ''origin'', ee_Against = g ''against'', ee_Applied = (g ''applied'' = ''true''),
               ee_Dismissed = False, ee_Body = doc_body d, ee_Path = path, ee_Pending = (g ''applied'' = ''false'')\<rparr>
      in case Get (dc_Front d) ''schema_version'' of
           None \<Rightarrow> if ee_Checksum e = [] then Inr e else Inl Incomplete
         | Some text \<Rightarrow>
             if ee_Checksum e = [] then Inl Incomplete
             else if atoi text \<noteq> Some 1 then Inl (Unsupported text)
             else if ee_Checksum e \<noteq> Checksum h (doc_payload 1 d) then Inl Mismatch
             else Inr (e\<lparr>ee_SchemaVersion := 1\<rparr>))"

text \<open>\<^verbatim>\<open>eventdisp.validDismissal\<close>: the target and whether the record disposes of it.\<close>

definition validDismissal :: "(jval \<Rightarrow> string) \<Rightarrow> doc \<Rightarrow> string \<times> bool" where
  "validDismissal h d =
     (case Get (dc_Front d) ''schema_version'' of
        None \<Rightarrow> ([], False)
      | Some text \<Rightarrow>
          if atoi text \<noteq> Some 1 then ([], False)
          else let g = get0 (dc_Front d); about = links_target (g ''about'') in
            (about, g ''kind'' = ''event'' \<and> g ''event_kind'' = ''dismissal'' \<and> g ''applied'' = ''true''
               \<and> g ''id'' \<noteq> [] \<and> about \<noteq> [] \<and> g ''checksum'' \<noteq> []
               \<and> g ''checksum'' = Checksum h (doc_payload 1 d)))"

text \<open>The condition of \<^verbatim>\<open>ListReport\<close> on an event that was read.\<close>

definition disposes :: "event \<Rightarrow> bool" where
  "disposes e \<longleftrightarrow> ee_SchemaVersion e = 1 \<and> ee_documentKind e = ''event'' \<and> ee_Kind e = ''dismissal'' \<and> ee_ID e \<noteq> []
     \<and> ee_Applied e \<and> ee_About e \<noteq> []"

section \<open>Writing\<close>

definition event_fields ::
    "(jval \<Rightarrow> string) \<Rightarrow> ident \<Rightarrow> string \<Rightarrow> ident \<Rightarrow> verb \<Rightarrow> ident \<Rightarrow> string \<Rightarrow> ident \<Rightarrow> string
       \<Rightarrow> (string \<times> string) list" where
  "event_fields h i created actor kind about origin against body =
     [(''id'', i), (''kind'', ''event''), (''schema_version'', ''1''), (''event_kind'', kind), (''created'', created),
      (''created_by'', actor)]
     @ (if about \<noteq> [] then [(''about'', ''[['' @ about @ '']]'')] else [])
     @ [(''origin'', origin)]
     @ (if against \<noteq> [] then [(''against'', against)] else [])
     @ [(''applied'', if isJournal kind then ''true'' else ''false''),
        (''checksum'', Checksum h \<lparr>py_SchemaVersion = 1, py_ID = i, py_DocumentKind = ''event'', py_Kind = kind,
           py_Created = created, py_Actor = actor, py_About = about, py_Origin = origin, py_Against = against,
           py_Body = trim_space body\<rparr>)]"

text \<open>\<open>i\<close> is the fresh identifier, \<open>created\<close> the formatted time.\<close>

definition event_doc ::
    "(jval \<Rightarrow> string) \<Rightarrow> ident \<Rightarrow> string \<Rightarrow> ident \<Rightarrow> verb \<Rightarrow> ident \<Rightarrow> string \<Rightarrow> ident \<Rightarrow> string \<Rightarrow> doc" where
  "event_doc h i created actor kind about origin0 against body =
     (let origin = (if origin0 = [] then ''agent'' else origin0) in
      \<lparr>dc_Front = foldl (\<lambda>f (k, v). Set f k v) [] (event_fields h i created actor kind about origin against body),
       dc_Sections = (if body \<noteq> [] then [\<lparr>sc_Level = 0, sc_Title = [], sc_Content = body @ [newline]\<rparr>] else [])\<rparr>)"

definition EventPath :: "string \<Rightarrow> string \<Rightarrow> ident \<Rightarrow> ident \<Rightarrow> verb \<Rightarrow> string" where
  "EventPath eventsDir ts i agent kind = path_join (path_join eventsDir ts) (i @ ''-'' @ agent @ ''-'' @ kind @ ''.md'')"

section \<open>Applying\<close>

definition mark_applied :: "doc \<Rightarrow> doc" where
  "mark_applied d = d\<lparr>dc_Front := Set (dc_Front d) ''applied'' ''true''\<rparr>"

section \<open>What is read is what was written\<close>

lemma links_target_link [simp]: "links_target (''[['' @ a @ '']]'') = a"
  by (simp add: links_target_def trim_prefix_def trim_suffix_def has_prefix_iff has_suffix_iff)

lemma links_target_Nil [simp]: "links_target [] = []"
  by (simp add: links_target_def trim_prefix_def trim_suffix_def has_prefix_iff has_suffix_iff)

lemma atoi_one [simp]: "atoi ''1'' = Some 1"
  by code_simp

lemma strip_newline:
  "strip_runes space_runes (s @ [newline]) = (if strip_runes space_runes s = [] then [] else strip_runes space_runes s @ [newline])"
proof (induction "space_runes" s rule: strip_runes.induct)
  case (1 s)
  have base: "strip_runes space_runes [newline] = []" "strip_runes space_runes [] = []" by code_simp+
  have last_nl: "\<forall>r \<in> set space_runes. last r = newline \<longrightarrow> r = [newline]" by code_simp
  show ?case
  proof (cases "s = []")
    case False
    have "has_prefix (s @ [newline]) r \<longleftrightarrow> has_prefix s r" if r: "r \<in> set space_runes" for r
    proof
      assume "has_prefix (s @ [newline]) r"
      then obtain t where t: "s @ [newline] = r @ t" by (auto simp: has_prefix_iff)
      show "has_prefix s r"
      proof (cases t rule: rev_cases)
        case Nil
        with t have "last r = newline" by (metis append_Nil2 last_snoc)
        with last_nl r t Nil False show ?thesis by auto
      next
        case (snoc t' x)
        with t show ?thesis by (auto simp: has_prefix_iff)
      qed
    qed (auto simp: has_prefix_iff)
    then have same: "find (\<lambda>r. r \<noteq> [] \<and> has_prefix (s @ [newline]) r) space_runes
        = find (\<lambda>r. r \<noteq> [] \<and> has_prefix s r) space_runes" by (intro find_cong) auto
    show ?thesis
    proof (cases "find (\<lambda>r. r \<noteq> [] \<and> has_prefix s r) space_runes")
      case None
      with same False show ?thesis by (simp add: strip_runes_step(1))
    next
      case (Some r)
      then have "has_prefix s r" by (auto simp: find_Some_iff)
      then have "drop (length r) (s @ [newline]) = drop (length r) s @ [newline]" by (auto simp: has_prefix_iff)
      with 1 Some same show ?thesis by (simp add: strip_runes_step(2))
    qed
  qed (simp add: base)
qed

lemma trim_space_snoc: "trim_space (s @ [newline]) = trim_space s"
proof -
  have "strip_runes (map rev space_runes) (newline # x) = strip_runes (map rev space_runes) x" for x
    by (subst strip_runes.simps) (simp add: space_runes_def has_prefix_def)
  moreover have "strip_runes (map rev space_runes) [] = []" by code_simp
  ultimately show ?thesis by (simp add: trim_space_def strip_newline)
qed

lemma get_fields:
  assumes "distinct (map fst kvs)"
  shows "get0 (foldl (\<lambda>f (k, v). Set f k v) [] kvs) k = (case map_of kvs k of None \<Rightarrow> [] | Some v \<Rightarrow> v)"
proof -
  have "map_of (rev kvs) k = map_of kvs k"
    using assms map_of_inject_set [of "rev kvs" kvs] by (simp add: rev_map [symmetric])
  then show ?thesis by (simp add: get0_def front.get_puts split: option.split)
qed

lemma event_fields_distinct: "distinct (map fst (event_fields h i created actor kind about origin against body))"
  by (simp add: event_fields_def)

text \<open>The event that \<^verbatim>\<open>AppendFinding\<close> returns is the event that its document reads as.\<close>

definition appended_event ::
    "(jval \<Rightarrow> string) \<Rightarrow> string \<Rightarrow> ident \<Rightarrow> string \<Rightarrow> ident \<Rightarrow> verb \<Rightarrow> ident \<Rightarrow> string \<Rightarrow> ident \<Rightarrow> string \<Rightarrow> event" where
  "appended_event h path i created actor kind about origin0 against body =
     (let origin = (if origin0 = [] then ''agent'' else origin0) in
      \<lparr>ee_SchemaVersion = 1, ee_Checksum = Checksum h \<lparr>py_SchemaVersion = 1, py_ID = i, py_DocumentKind = ''event'',
         py_Kind = kind, py_Created = created, py_Actor = actor, py_About = about, py_Origin = origin,
         py_Against = against, py_Body = trim_space body\<rparr>,
       ee_ID = i, ee_documentKind = [], ee_Kind = kind, ee_Actor = actor, ee_About = about, ee_Origin = origin,
       ee_Against = against, ee_Applied = isJournal kind, ee_Dismissed = False, ee_Body = body, ee_Path = path,
       ee_Pending = (\<not> isJournal kind)\<rparr>)"

definition signed_payload ::
    "ident \<Rightarrow> string \<Rightarrow> ident \<Rightarrow> verb \<Rightarrow> ident \<Rightarrow> string \<Rightarrow> ident \<Rightarrow> string \<Rightarrow> payload" where
  "signed_payload i created actor kind about origin against body =
     \<lparr>py_SchemaVersion = 1, py_ID = i, py_DocumentKind = ''event'', py_Kind = kind, py_Created = created,
      py_Actor = actor, py_About = about, py_Origin = (if origin = [] then ''agent'' else origin), py_Against = against,
      py_Body = body\<rparr>"

lemma parse_event_front:
  assumes "dc_Front d = dc_Front (event_doc h i created actor kind about origin against body)"
  shows "parseEvent h path d =
     (if h (jv_payload (signed_payload i created actor kind about origin against (doc_body d)))
       = h (jv_payload (signed_payload i created actor kind about origin against (trim_space body)))
      then Inr ((appended_event h path i created actor kind about origin against body)
        \<lparr>ee_documentKind := ''event'', ee_Body := doc_body d\<rparr>)
      else Inl Mismatch)"
proof -
  let ?o = "if origin = [] then ''agent'' else origin"
  let ?kvs = "event_fields h i created actor kind about ?o against body"
  have f: "dc_Front d = foldl (\<lambda>f (k, v). Set f k v) [] ?kvs" using assms(1) by (simp add: event_doc_def Let_def)
  note g = get_fields [OF event_fields_distinct, of h i created actor kind about ?o against body, folded f]
  have "map_of (rev ?kvs) ''schema_version'' = Some ''1''"
    by (simp add: event_fields_def)
  then have v: "Get (dc_Front d) ''schema_version'' = Some ''1''"
    unfolding f front.get_puts by simp
  have c: "Checksum h x \<noteq> []" "Checksum h x = Checksum h y \<longleftrightarrow> h (jv_payload x) = h (jv_payload y)" for x y
    by (simp_all add: Checksum_def)
  have g': "get0 (dc_Front d) ''id'' = i" "get0 (dc_Front d) ''kind'' = ''event''" "get0 (dc_Front d) ''event_kind'' = kind"
    "get0 (dc_Front d) ''created'' = created" "get0 (dc_Front d) ''created_by'' = actor"
    "links_target (get0 (dc_Front d) ''about'') = about" "get0 (dc_Front d) ''origin'' = ?o"
    "get0 (dc_Front d) ''against'' = against" "get0 (dc_Front d) ''applied'' = (if isJournal kind then ''true'' else ''false'')"
    "get0 (dc_Front d) ''checksum'' = Checksum h \<lparr>py_SchemaVersion = 1, py_ID = i, py_DocumentKind = ''event'',
       py_Kind = kind, py_Created = created, py_Actor = actor, py_About = about, py_Origin = ?o, py_Against = against,
       py_Body = trim_space body\<rparr>"
    using links_target_link [of about] by (simp_all add: g event_fields_def)
  show ?thesis
    by (auto simp: parseEvent_def Let_def v g' c doc_payload_def appended_event_def signed_payload_def)
qed

section \<open>Through the file\<close>

lemma line_quoteScalar: "line (quoteScalar v)" "CHR 0x0D \<notin> set (quoteScalar v)"
proof -
  have e: "newline \<notin> set (escape_all s) \<and> CHR 0x0D \<notin> set (escape_all s)" for s by (induction s) auto
  have b: "newline \<notin> set v \<and> CHR 0x0D \<notin> set v"
    if "\<not> contains_any v [CHR 0x0D, CHR 0x0A, CHR 0x09, CHR 0x22, CHR 0x27, CHR ''#'']"
    using that by (simp add: contains_any_iff) blast
  have "newline \<notin> set (quoteScalar v) \<and> CHR 0x0D \<notin> set (quoteScalar v)"
    unfolding quoteScalar_def using e [of v] b by simp
  then show "line (quoteScalar v)" "CHR 0x0D \<notin> set (quoteScalar v)" by (simp_all add: line_def)
qed

lemma tight_quoteScalar: "tight (quoteScalar v)"
  by (cases v rule: quoteScalar_cases) (simp_all add: tight_quoted)

lemma quoteScalar_opens_nothing: "\<not> opens_block (quoteScalar v)"
proof -
  have q: "\<not> opens_block (CHR 0x22 # s)" for s by (simp add: opens_block_def has_prefix_def)
  have "v = [] \<or> contains_any v [CHR 0x0D, CHR 0x0A, CHR 0x09, CHR 0x22, CHR 0x27, CHR ''#'']
      \<or> has_prefix v ''|'' \<or> has_prefix v ''>''" if "opens_block v"
    using that by (auto simp: opens_block_def has_prefix_iff contains_any_def)
  then show ?thesis unfolding quoteScalar_def using q by (simp, blast)
qed

definition plain_key :: "string \<Rightarrow> bool" where
  "plain_key k \<longleftrightarrow> k \<noteq> [] \<and> tight k \<and> CHR '':'' \<notin> set k \<and> hd k \<noteq> CHR ''#'' \<and> line k \<and> CHR 0x0D \<notin> set k"

text \<open>Fields written one by one make well-formed frontmatter without a carriage return.\<close>

lemma front_wf_put:
  "plain_key k \<Longrightarrow> front_wf f \<Longrightarrow> \<forall>e \<in> set f. \<not> opens_block (en_Value e) \<Longrightarrow>
   front_wf (put_entry k (scalar_entry k (quoteScalar v)) f)"
  by (induction f) (auto simp: entry_wf_def scalar_entry_def plain_key_def tight_quoteScalar line_quoteScalar quoteScalar_opens_nothing)

lemma set_put_entry: "set (put_entry k x f) \<subseteq> insert x (set f)"
  by (induction f) auto

definition field :: "entry \<Rightarrow> bool" where
  "field e \<longleftrightarrow> (\<exists>k v. plain_key k \<and> e = scalar_entry k (quoteScalar v))"

lemma front_wf_fields:
  assumes "\<forall>(k, v) \<in> set kvs. plain_key k"
  shows "front_wf (foldl (\<lambda>f (k, v). Set f k v) [] kvs) \<and> (\<forall>e \<in> set (foldl (\<lambda>f (k, v). Set f k v) [] kvs). field e)"
  using assms
proof (induction kvs rule: rev_induct)
  case (snoc kv kvs)
  obtain k v where kv: "kv = (k, v)" by (cases kv)
  let ?f = "foldl (\<lambda>f (k, v). Set f k v) [] kvs"
  from snoc kv have IH: "front_wf ?f" "\<forall>e \<in> set ?f. field e" and k: "plain_key k" by auto
  have "\<forall>e \<in> set ?f. \<not> opens_block (en_Value e)"
    using IH(2) by (auto simp: field_def scalar_entry_def quoteScalar_opens_nothing)
  with IH(1) k have "front_wf (Set ?f k v)" unfolding Set_def by (intro front_wf_put)
  moreover have "\<forall>e \<in> set (Set ?f k v). field e"
    using IH(2) k set_put_entry [of k "scalar_entry k (quoteScalar v)" ?f] unfolding Set_def field_def by blast
  ultimately show ?case by (simp add: kv)
qed simp

lemma drop_crlf_plain: "CHR 0x0D \<notin> set s \<Longrightarrow> drop_crlf s = s"
  by (induction s rule: drop_crlf.induct) auto

lemma event_fields_plain: "\<forall>(k, v) \<in> set (event_fields h i created actor kind about origin against body). plain_key k"
proof -
  have "\<forall>k \<in> set [''id'', ''kind'', ''schema_version'', ''event_kind'', ''created'', ''created_by'', ''about'', ''origin'',
     ''against'', ''applied'', ''checksum'']. plain_key k" by code_simp
  then show ?thesis by (auto simp: event_fields_def)
qed

lemma field_plain: "field e \<Longrightarrow> CHR 0x0D \<notin> set (render_entry e)"
  using line_quoteScalar(2) by (auto simp: field_def plain_key_def render_entry_def scalar_entry_def)

lemma fields_plain: "\<forall>e \<in> set f. field e \<Longrightarrow> CHR 0x0D \<notin> set (concat (map render_entry f))"
  using field_plain by auto

lemma fields_Set:
  assumes "\<forall>e \<in> set f. field e" "front_wf f" "plain_key k"
  shows "front_wf (Set f k v)" "Set f k v \<noteq> []" "CHR 0x0D \<notin> set (concat (map render_entry (Set f k v)))"
proof -
  have "\<forall>e \<in> set f. \<not> opens_block (en_Value e)"
    using assms(1) by (auto simp: field_def scalar_entry_def quoteScalar_opens_nothing)
  with assms show "front_wf (Set f k v)" unfolding Set_def by (intro front_wf_put)
  show "Set f k v \<noteq> []" unfolding Set_def by (cases f) simp_all
  have "\<forall>e \<in> set (Set f k v). field e"
    using assms(1,3) set_put_entry [of k "scalar_entry k (quoteScalar v)" f] unfolding Set_def field_def by blast
  then show "CHR 0x0D \<notin> set (concat (map render_entry (Set f k v)))" by (rule fields_plain)
qed

lemma event_front:
  "front_wf (dc_Front (event_doc h i created actor kind about origin against body))"
  "dc_Front (event_doc h i created actor kind about origin against body) \<noteq> []"
  "CHR 0x0D \<notin> set (concat (map render_entry (dc_Front (event_doc h i created actor kind about origin against body))))"
  "\<forall>e \<in> set (dc_Front (event_doc h i created actor kind about origin against body)). field e"
proof -
  let ?o = "if origin = [] then ''agent'' else origin"
  let ?kvs = "event_fields h i created actor kind about ?o against body"
  have f: "dc_Front (event_doc h i created actor kind about origin against body) = foldl (\<lambda>f (k, v). Set f k v) [] ?kvs"
    by (simp add: event_doc_def Let_def)
  note wf = front_wf_fields [OF event_fields_plain, of h i created actor kind about ?o against body, folded f]
  show "front_wf (dc_Front (event_doc h i created actor kind about origin against body))" using wf by blast
  show fields: "\<forall>e \<in> set (dc_Front (event_doc h i created actor kind about origin against body)). field e" using wf by blast
  then show "CHR 0x0D \<notin> set (concat (map render_entry (dc_Front (event_doc h i created actor kind about origin against body))))"
    by (rule fields_plain)
  have "Get (dc_Front (event_doc h i created actor kind about origin against body)) ''id'' \<noteq> None"
    unfolding f front.get_puts by (simp add: event_fields_def)
  then show "dc_Front (event_doc h i created actor kind about origin against body) \<noteq> []" by auto
qed

lemma Parse_front:
  assumes "front_wf f" "f \<noteq> []" "CHR 0x0D \<notin> set (concat (map render_entry f))" "CHR 0x0D \<notin> set body"
  shows "Parse (rule_line @ concat (map render_entry f) @ rule_line @ body) = Inr \<lparr>dc_Front = f, dc_Sections = parseSections body\<rparr>"
proof -
  have "drop_crlf (rule_line @ concat (map render_entry f) @ rule_line @ body) = rule_line @ concat (map render_entry f) @ rule_line @ body"
    using assms(3,4) by (intro drop_crlf_plain) (auto simp: rule_line_def)
  moreover obtain fm where "cut_front (concat (map render_entry f) @ rule_line @ body) = Inr (fm, body)" "parseFront fm = Inr f"
    using cut_front_render [OF assms(1,2)] by blast
  moreover have "drop 4 (rule_line @ s) = s" for s by (simp add: rule_line_def)
  ultimately show ?thesis unfolding Parse_def Let_def by (simp add: has_prefix_iff del: drop_append)
qed

lemma event_file:
  assumes "CHR 0x0D \<notin> set body"
  shows "Parse (Render (event_doc h i created actor kind about origin against body))
     = Inr \<lparr>dc_Front = dc_Front (event_doc h i created actor kind about origin against body),
            dc_Sections = (if body = [] then [] else parseSections (body @ [newline]))\<rparr>"
proof -
  let ?d = "event_doc h i created actor kind about origin against body"
  note f = event_front [of h i created actor kind about origin against body]
  have "concat (map render_section (dc_Sections ?d)) = (if body = [] then [] else body @ [newline])"
    by (simp add: event_doc_def Let_def render_section_def has_suffix_iff)
  then have "Render ?d = rule_line @ concat (map render_entry (dc_Front ?d)) @ rule_line @ (if body = [] then [] else body @ [newline])"
    using f(2) by (simp add: Render_def)
  moreover have "parseSections [] = []" by (simp add: parseSections_def)
  ultimately show ?thesis using Parse_front [OF f(1,2,3), of "if body = [] then [] else body @ [newline]"] assms by simp
qed

lemma WriteFile_ok: "WriteFile io d dk = (True, dk') \<Longrightarrow> dk_target dk' = Some (Render d)"
  by (auto simp: WriteFile_def writeBytes_def Let_def split: if_splits)

text \<open>Text without headings comes back as one section, or as none when it is blank.\<close>

lemma text_sections:
  assumes "no_heading False (body_lines (body @ [newline]))"
  shows "parseSections (body @ [newline]) \<in> {[], [\<lparr>sc_Level = 0, sc_Title = [], sc_Content = body @ [newline]\<rparr>]}"
    "trim_space (concat (map sc_Content (parseSections (body @ [newline])))) = trim_space body"
proof -
  let ?c = "body @ [newline]"
  obtain ls where c: "?c = unlines ls" "\<forall>l \<in> set ls. line l" by (rule terminatedE [of ?c]) (simp add: terminated_def)
  have "parseSections ?c = flush 0 [] ls"
    using c assms sections_loop_text [of False ls 0 "[]" "[]" "[]"] by (simp add: parse_unlines)
  moreover have "(if ls \<noteq> [] then join_with [newline] ls @ [newline] else []) = ?c" using c(1) by (simp add: unlines_join)
  ultimately have "parseSections ?c = (if trim_space ?c \<noteq> [] then [\<lparr>sc_Level = 0, sc_Title = [], sc_Content = ?c\<rparr>] else [])"
    unfolding flush_def by (simp only: Let_def) simp
  then show "parseSections ?c \<in> {[], [\<lparr>sc_Level = 0, sc_Title = [], sc_Content = ?c\<rparr>]}"
    "trim_space (concat (map sc_Content (parseSections ?c))) = trim_space body"
    by (simp_all add: trim_space_snoc trim_tight)
qed

lemma event_read:
  assumes "WriteFile io (event_doc h i created actor kind about origin against body) dk = (True, dk')"
    "CHR 0x0D \<notin> set body" "no_heading False (body_lines (body @ [newline]))"
  shows "\<exists>d. ReadFile dk' = Inr d \<and> dc_Front d = dc_Front (event_doc h i created actor kind about origin against body)
     \<and> sections_wf (dc_Sections d) \<and> CHR 0x0D \<notin> set (concat (map render_section (dc_Sections d)))
     \<and> parseEvent h path d = Inr ((appended_event h path i created actor kind about origin against body)
       \<lparr>ee_documentKind := ''event'', ee_Body := trim_space body\<rparr>)"
proof -
  let ?s = "if body = [] then [] else parseSections (body @ [newline])"
  let ?d = "\<lparr>dc_Front = dc_Front (event_doc h i created actor kind about origin against body), dc_Sections = ?s\<rparr>"
  have "ReadFile dk' = Inr ?d"
    using WriteFile_ok [OF assms(1)] event_file [OF assms(2)] by (simp add: ReadFile_def)
  moreover have "doc_body ?d = trim_space body" using text_sections(2) [OF assms(3)] by (simp add: doc_body_def)
  then have "parseEvent h path ?d = Inr ((appended_event h path i created actor kind about origin against body)
     \<lparr>ee_documentKind := ''event'', ee_Body := trim_space body\<rparr>)"
    using parse_event_front [of ?d h i created actor kind about origin against body path] by simp
  moreover have "sections_wf ?s" using sections_wf_parse by (simp add: sections_wf_def)
  moreover have "CHR 0x0D \<notin> set (concat (map render_section ?s))"
    using text_sections(1) [OF assms(3)] assms(2) by (auto simp: render_section_def)
  ultimately show ?thesis by auto
qed


definition sample_sha :: "jval \<Rightarrow> string" where
  "sample_sha v = (case v of JO fs \<Rightarrow> replicate (length fs) CHR ''0'' | _ \<Rightarrow> [])"


text \<open>The proviso is needed: a heading becomes a section, and the reader puts only the texts of the
  sections together, so that the body it verifies is not the body that was signed.\<close>

lemma heading_sections:
  assumes "line t" "t \<noteq> []" "tight t"
  shows "parseSections ((''# '' @ t) @ [newline]) = [\<lparr>sc_Level = 1, sc_Title = t, sc_Content = []\<rparr>]"
proof -
  let ?s = "\<lparr>sc_Level = 1, sc_Title = t, sc_Content = []\<rparr>"
  have "sections_wf [?s]" using assms by (simp add: sections_wf_def section_wf_def terminated_def)
  moreover have "concat (map render_section [?s]) = (''# '' @ t) @ [newline]" by (simp add: render_section_def)
  ultimately show ?thesis using parse_render_sections by metis
qed

text \<open>An event whose body is a heading is lost. Its file is written without error, but no reader
  accepts it: the checksum covers the heading, the body that is read back does not have it. Every
  listing skips the event as corrupt.\<close>

theorem event_heading_unreadable:
  assumes "line t" "t \<noteq> []" "tight t" "CHR 0x0D \<notin> set t"
    "WriteFile io (event_doc h i created actor kind about origin against (''# '' @ t)) dk = (True, dk')"
    "h (jv_payload (signed_payload i created actor kind about origin against []))
       \<noteq> h (jv_payload (signed_payload i created actor kind about origin against (trim_space (''# '' @ t))))"
  shows "\<exists>d. ReadFile dk' = Inr d \<and> parseEvent h path d = Inl Mismatch"
proof -
  let ?d = "\<lparr>dc_Front = dc_Front (event_doc h i created actor kind about origin against (''# '' @ t)),
     dc_Sections = [\<lparr>sc_Level = 1, sc_Title = t, sc_Content = []\<rparr>]\<rparr>"
  have "ReadFile dk' = Inr ?d"
    using WriteFile_ok [OF assms(5)] event_file [of "''# '' @ t"] assms(4) heading_sections [OF assms(1-3)]
    by (simp add: ReadFile_def)
  moreover have "doc_body ?d = []" by (simp add: doc_body_def trim_tight)
  then have "parseEvent h path ?d = Inl Mismatch"
    using parse_event_front [of ?d h i created actor kind about origin against "''# '' @ t" path] assms(6) by simp
  ultimately show ?thesis by blast
qed

theorem event_heading_unreadable_witness:
  "\<exists>dk' d. WriteFile working_ops (event_doc sample_sha ''e1'' ''now'' ''a1'' ''finding'' ''t-1'' [] [] ''# Bug'')
       \<lparr>dk_target = None, dk_temp = None\<rparr> = (True, dk')
     \<and> ReadFile dk' = Inr d \<and> parseEvent sample_sha ''p'' d = Inl Mismatch"
proof -
  let ?d = "event_doc sample_sha ''e1'' ''now'' ''a1'' ''finding'' ''t-1'' [] [] (''# '' @ ''Bug'')"
    and ?dk = "\<lparr>dk_target = None, dk_temp = None\<rparr>"
  obtain dk' where w: "WriteFile working_ops ?d ?dk = (True, dk')"
    by (simp add: WriteFile_def writeBytes_def working_ops_def failing_ops_def Let_def)
  have t: "line ''Bug''" "tight ''Bug''" "CHR 0x0D \<notin> set ''Bug''"
    "sample_sha (jv_payload (signed_payload ''e1'' ''now'' ''a1'' ''finding'' ''t-1'' [] [] []))
       \<noteq> sample_sha (jv_payload (signed_payload ''e1'' ''now'' ''a1'' ''finding'' ''t-1'' [] [] (trim_space (''# '' @ ''Bug''))))"
    by code_simp+
  from event_heading_unreadable [OF t(1) _ t(2,3) w t(4), of "''p''"] w show ?thesis by fastforce
qed

section \<open>Marking an event applied\<close>

definition MarkApplied :: "(jval \<Rightarrow> string) \<Rightarrow> durable_ops \<Rightarrow> string \<Rightarrow> disk \<Rightarrow> bool \<times> disk" where
  "MarkApplied h io path dk =
     (case ReadFile dk of
        Inl _ \<Rightarrow> (False, dk)
      | Inr d \<Rightarrow>
          (case parseEvent h path d of
             Inl _ \<Rightarrow> (False, dk)
           | Inr _ \<Rightarrow> WriteFile io (mark_applied d) dk))"

lemma get0_mark: "get0 (dc_Front (mark_applied d)) k = (if k = ''applied'' then ''true'' else get0 (dc_Front d) k)"
  by (simp add: mark_applied_def get0_def Get_Set)

lemma Get_mark: "k \<noteq> ''applied'' \<Longrightarrow> Get (dc_Front (mark_applied d)) k = Get (dc_Front d) k"
  by (simp add: mark_applied_def Get_Set)

lemma doc_body_mark [simp]: "doc_body (mark_applied d) = doc_body d"
  by (simp add: doc_body_def mark_applied_def)

lemma parse_mark:
  "parseEvent h path (mark_applied d) = map_sum id (\<lambda>e. e\<lparr>ee_Applied := True, ee_Pending := False\<rparr>) (parseEvent h path d)"
proof -
  have "doc_payload 1 (mark_applied d) = doc_payload 1 d" by (simp add: doc_payload_def Let_def get0_mark)
  then show ?thesis
    by (cases "Get (dc_Front d) ''schema_version''") (simp_all add: parseEvent_def Let_def get0_mark Get_mark)
qed

text \<open>Applying an event changes the applied mark and nothing else, and the event still verifies. The
  mark is the one field outside the checksum: after a successful append and a successful
  \<^verbatim>\<open>MarkApplied\<close>, the file reads as the same event, applied and no longer pending.\<close>

theorem mark_applied_keeps_event:
  assumes "WriteFile io (event_doc h i created actor kind about origin against body) dk = (True, dk1)"
    "CHR 0x0D \<notin> set body" "no_heading False (body_lines (body @ [newline]))" "MarkApplied h io' path dk1 = (True, dk2)"
  shows "\<exists>d. ReadFile dk2 = Inr d \<and> parseEvent h path d = Inr ((appended_event h path i created actor kind about origin against body)
     \<lparr>ee_documentKind := ''event'', ee_Body := trim_space body, ee_Applied := True, ee_Pending := False\<rparr>)"
proof -
  let ?e = "(appended_event h path i created actor kind about origin against body)
     \<lparr>ee_documentKind := ''event'', ee_Body := trim_space body\<rparr>"
  obtain d where d: "ReadFile dk1 = Inr d" "dc_Front d = dc_Front (event_doc h i created actor kind about origin against body)"
      "sections_wf (dc_Sections d)" "CHR 0x0D \<notin> set (concat (map render_section (dc_Sections d)))"
      "parseEvent h path d = Inr ?e"
    using event_read [OF assms(1-3)] by blast
  note f = event_front [of h i created actor kind about origin against body, folded d(2)]
  let ?m = "mark_applied d"
  have key: "plain_key ''applied''" by code_simp
  have "front_wf (dc_Front ?m)" "dc_Front ?m \<noteq> []" "CHR 0x0D \<notin> set (concat (map render_entry (dc_Front ?m)))"
    using fields_Set [OF f(4) f(1) key, of "''true''"] f(2) by (simp_all add: mark_applied_def)
  with d(3,4) have "Parse (Render ?m) = Inr ?m"
    by (subst parse_render) (auto simp: Render_def rule_line_def mark_applied_def intro!: drop_crlf_plain)
  moreover have "dk_target dk2 = Some (Render ?m)"
    using assms(4) d(1,5) by (auto simp: MarkApplied_def intro: WriteFile_ok)
  ultimately have "ReadFile dk2 = Inr ?m" by (simp add: ReadFile_def)
  moreover have "parseEvent h path ?m = Inr (?e\<lparr>ee_Applied := True, ee_Pending := False\<rparr>)"
    by (simp add: parse_mark d(5))
  ultimately show ?thesis by auto
qed

theorem mark_applied_keeps_event_witness:
  "\<exists>dk1 dk2 d e. WriteFile working_ops (event_doc sample_sha ''e1'' ''now'' ''a1'' ''claim'' ''t-1'' [] [] ''fine'')
       \<lparr>dk_target = None, dk_temp = None\<rparr> = (True, dk1)
     \<and> MarkApplied sample_sha working_ops ''p'' dk1 = (True, dk2)
     \<and> ReadFile dk2 = Inr d \<and> parseEvent sample_sha ''p'' d = Inr e \<and> ee_Applied e \<and> ee_Body e = ''fine''"
proof -
  let ?d = "event_doc sample_sha ''e1'' ''now'' ''a1'' ''claim'' ''t-1'' [] [] ''fine''" and ?dk = "\<lparr>dk_target = None, dk_temp = None\<rparr>"
  have ok: "\<exists>dk'. WriteFile working_ops d dk = (True, dk')" for d dk
    by (simp add: WriteFile_def writeBytes_def working_ops_def failing_ops_def Let_def)
  then obtain dk1 where w: "WriteFile working_ops ?d ?dk = (True, dk1)" by blast
  have b: "CHR 0x0D \<notin> set ''fine''" "no_heading False (body_lines (''fine'' @ [newline]))" "trim_space ''fine'' = ''fine''"
    by code_simp+
  obtain d e where "ReadFile dk1 = Inr d" "parseEvent sample_sha ''p'' d = Inr e" using event_read [OF w b(1,2)] by blast
  with ok obtain dk2 where m: "MarkApplied sample_sha working_ops ''p'' dk1 = (True, dk2)" by (auto simp: MarkApplied_def)
  from mark_applied_keeps_event [OF w b(1,2) m] b(3) w m show ?thesis by fastforce
qed

section \<open>Dispositions\<close>

text \<open>The two readers of dismissals agree. \<^verbatim>\<open>eventdisp\<close> and \<^verbatim>\<open>eventlog\<close> decide separately whether a document
  is a valid dismissal, and of which event: a record disposes of an event for the one exactly when it
  does for the other, so the store never counts an event as work that the log shows as dismissed. A
  record that is malformed, unsigned or changed disposes of nothing.\<close>

theorem dismissal_readers_agree:
  "validDismissal h d = (about, True) \<longleftrightarrow> (\<exists>e. parseEvent h path d = Inr e \<and> disposes e \<and> ee_About e = about)"
  by (cases "Get (dc_Front d) ''schema_version''") (auto simp: validDismissal_def parseEvent_def disposes_def Let_def)

section \<open>Listing\<close>

text \<open>A file of the log: its path, and its bytes unless it cannot be read.\<close>

type_synonym log_file = "string \<times> string option"

record query =
  q_About :: string
  q_Kinds :: "string list"
  q_Actor :: string
  q_Pending :: bool
  q_Limit :: int

definition read_event :: "(jval \<Rightarrow> string) \<Rightarrow> log_file \<Rightarrow> (doc \<times> event) option" where
  "read_event h f =
     (case ReadFile \<lparr>dk_target = snd f, dk_temp = None\<rparr> of
        Inl _ \<Rightarrow> None
      | Inr d \<Rightarrow> (case parseEvent h (fst f) d of Inl _ \<Rightarrow> None | Inr e \<Rightarrow> Some (d, e)))"

definition wanted :: "query \<Rightarrow> event \<Rightarrow> bool" where
  "wanted q e \<longleftrightarrow> (q_Kinds q = [] \<or> ee_Kind e \<in> set (q_Kinds q)) \<and> (q_Actor q = [] \<or> ee_Actor e = q_Actor q)
     \<and> (q_About q = [] \<or> ee_About e = q_About q)"

definition mark_dismissed :: "bool \<Rightarrow> event \<Rightarrow> event" where
  "mark_dismissed gone e = e\<lparr>ee_Dismissed := gone, ee_Pending := (if gone then False else ee_Pending e)\<rparr>"

text \<open>The loop over the paths, newest first: the events disposed of so far, the events and the holes.\<close>

fun list_loop ::
    "(jval \<Rightarrow> string) \<Rightarrow> query \<Rightarrow> string list \<Rightarrow> event list \<Rightarrow> string list \<Rightarrow> log_file list \<Rightarrow> event list \<times> string list" where
  "list_loop h q dismissed out bad [] = (out, bad)"
| "list_loop h q dismissed out bad (f # fs) =
     (if 0 < q_Limit q \<and> q_Limit q \<le> int (length out) then (out, bad)
      else case read_event h f of
        None \<Rightarrow> list_loop h q dismissed out (bad @ [fst f]) fs
      | Some (d, e) \<Rightarrow>
          let dismissed' = (if disposes e then ee_About e # dismissed else dismissed);
              gone = (ee_ID e \<in> set dismissed') in
          if q_Pending q \<and> (get0 (dc_Front d) ''applied'' \<noteq> ''false'' \<or> gone) then list_loop h q dismissed' out bad fs
          else if \<not> wanted q (mark_dismissed gone e) then list_loop h q dismissed' out bad fs
          else list_loop h q dismissed' (out @ [mark_dismissed gone e]) bad fs)"

definition ListReport ::
    "(jval \<Rightarrow> string) \<Rightarrow> query \<Rightarrow> string list \<Rightarrow> log_file list \<Rightarrow> event list \<times> string list" where
  "ListReport h q walk_failures files =
     list_loop h q [] [] walk_failures (rev (sort_key fst (filter (\<lambda>f. has_suffix (fst f) ''.md'') files)))"

text \<open>Which records dispose of an event: those named at or after it.\<close>

definition disposed_in :: "(jval \<Rightarrow> string) \<Rightarrow> log_file list \<Rightarrow> log_file \<Rightarrow> event \<Rightarrow> bool" where
  "disposed_in h fs f e \<longleftrightarrow>
     (\<exists>g \<in> set fs. fst f \<le> fst g \<and> (\<exists>d r. read_event h g = Some (d, r) \<and> disposes r \<and> ee_About r = ee_ID e))"

definition listed :: "query \<Rightarrow> doc \<Rightarrow> event \<Rightarrow> bool \<Rightarrow> bool" where
  "listed q d e gone \<longleftrightarrow> wanted q e \<and> (q_Pending q \<longrightarrow> get0 (dc_Front d) ''applied'' = ''false'' \<and> \<not> gone)"

lemma wanted_mark [simp]: "wanted q (mark_dismissed b e) = wanted q e"
  by (simp add: wanted_def mark_dismissed_def)

lemma list_loop_bad:
  "q_Limit q \<le> 0 \<Longrightarrow> snd (list_loop h q dis out bad fs) = bad @ map fst (filter (\<lambda>f. read_event h f = None) fs)"
  by (induction fs arbitrary: dis out bad) (auto simp: Let_def split: option.splits prod.splits)

text \<open>The reference for the listing: what one file contributes, given the whole listing and the events
  disposed of already.\<close>

definition shown :: "(jval \<Rightarrow> string) \<Rightarrow> query \<Rightarrow> string set \<Rightarrow> log_file list \<Rightarrow> log_file \<Rightarrow> event list" where
  "shown h q dis fs f =
     (case read_event h f of
        None \<Rightarrow> []
      | Some (d, e) \<Rightarrow>
          let gone = (ee_ID e \<in> dis \<or> disposed_in h fs f e) in
          if listed q d e gone then [mark_dismissed gone e] else [])"

lemma disposed_in_later:
  assumes "fst g < fst f"
  shows "disposed_in h (f # fs) g e \<longleftrightarrow>
     (\<exists>d r. read_event h f = Some (d, r) \<and> disposes r \<and> ee_About r = ee_ID e) \<or> disposed_in h fs g e"
  using assms by (auto simp: disposed_in_def)

lemma disposed_in_first:
  assumes "\<forall>g \<in> set fs. fst g < fst f" "read_event h f = Some (d, r)"
  shows "disposed_in h (f # fs) f e \<longleftrightarrow> disposes r \<and> ee_About r = ee_ID e"
  using assms by (auto simp: disposed_in_def)

lemma list_loop_out:
  assumes "q_Limit q \<le> 0" "sorted_wrt (\<lambda>f g. fst g < fst f) fs"
  shows "fst (list_loop h q dis out bad fs) = out @ concat (map (shown h q (set dis) fs) fs)"
  using assms(2)
proof (induction fs arbitrary: dis out bad)
  case (Cons f fs)
  have order: "\<forall>g \<in> set fs. fst g < fst f" using Cons.prems by simp
  show ?case
  proof (cases "read_event h f")
    case None
    have "shown h q (set dis) (f # fs) g = shown h q (set dis) fs g" if "g \<in> set fs" for g
      using None order that by (simp add: shown_def disposed_in_later split: option.split)
    with None Cons assms(1) show ?thesis by (simp add: shown_def cong: map_cong)
  next
    case (Some p)
    obtain d e where p: "p = (d, e)" by (cases p)
    let ?dis = "if disposes e then ee_About e # dis else dis"
    have tail: "shown h q (set dis) (f # fs) g = shown h q (set ?dis) fs g" if "g \<in> set fs" for g
      using Some p order that by (simp add: shown_def disposed_in_later eq_commute disj_assoc disj_comms split: option.split)
    have gone: "(ee_ID e \<in> set dis \<or> disposed_in h (f # fs) f e) = (ee_ID e \<in> set ?dis)"
      using Some p order by (auto simp: disposed_in_first)
    have here: "shown h q (set dis) (f # fs) f =
        (if listed q d e (ee_ID e \<in> set ?dis) then [mark_dismissed (ee_ID e \<in> set ?dis) e] else [])"
      using Some p gone by (simp add: shown_def)
    have "list_loop h q dis out bad (f # fs) = list_loop h q ?dis (out @ shown h q (set dis) (f # fs) f) bad fs"
      unfolding here using Some p assms(1) by (simp add: listed_def Let_def)
    then have "fst (list_loop h q dis out bad (f # fs))
        = out @ shown h q (set dis) (f # fs) f @ concat (map (shown h q (set ?dis) fs) fs)"
      using Cons.IH [of ?dis _ bad] Cons.prems by simp
    with tail show ?thesis by (simp cong: map_cong)
  qed
qed simp

definition newest_first :: "log_file list \<Rightarrow> log_file list" where
  "newest_first files = rev (sort_key fst (filter (\<lambda>f. has_suffix (fst f) ''.md'') files))"

lemma newest_first_sorted:
  assumes "distinct (map fst files)"
  shows "sorted_wrt (\<lambda>f g. fst g < fst f) (newest_first files)"
proof -
  let ?fs = "sort_key fst (filter (\<lambda>f. has_suffix (fst f) ''.md'') files)"
  have "distinct ?fs" "inj_on fst (set ?fs)" using assms by (auto simp: distinct_map intro: inj_on_subset)
  then have "distinct (map fst ?fs)" by (simp only: distinct_map)
  then have "sorted_wrt (<) (map fst ?fs)" by (simp add: strict_sorted_iff)
  then show ?thesis by (simp add: newest_first_def sorted_wrt_rev sorted_wrt_map)
qed

lemma newest_first_set [simp]: "set (newest_first files) = {f \<in> set files. has_suffix (fst f) ''.md''}"
  by (auto simp: newest_first_def)

lemma ListReport_newest: "ListReport h q holes files = list_loop h q [] [] holes (newest_first files)"
  by (simp add: ListReport_def newest_first_def)

lemma ListReport_out:
  assumes "q_Limit q \<le> 0" "distinct (map fst files)"
  shows "fst (ListReport h q holes files) = concat (map (shown h q {} (newest_first files)) (newest_first files))"
  using list_loop_out [OF assms(1) newest_first_sorted [OF assms(2)], of h "[]" "[]" holes]
  by (simp add: ListReport_newest)

text \<open>C18: The one pass over the log finds every dismissal. \<^verbatim>\<open>ListReport\<close> collects the dismissals while it lists,
  so what it knows at an event depends on what came before; without a limit its answer is
  nevertheless that of two passes: newest first, each readable event that the query wants, with its
  dismissed and pending marks set by the records of the whole log that are named at or after it. And
  it accounts for every file: a Markdown file that contributes nothing because it cannot be read or
  verified is in the report of holes.\<close>

theorem listing_two_passes:
  assumes "q_Limit q \<le> 0" "distinct (map fst files)"
  shows "ListReport h q holes files =
     (concat (map (shown h q {} (newest_first files)) (newest_first files)),
      holes @ map fst (filter (\<lambda>f. read_event h f = None) (newest_first files)))"
  using list_loop_bad [OF assms(1), of h "[]" "[]" holes "newest_first files"] ListReport_out [OF assms]
  by (simp add: prod_eq_iff ListReport_newest)

definition all_events :: query where
  "all_events = \<lparr>q_About = [], q_Kinds = [], q_Actor = [], q_Pending = False, q_Limit = 0\<rparr>"

theorem listing_two_passes_witness:
  "\<exists>bytes e. ee_ID e = ''e1'' \<and> ee_Pending e \<and>
     ListReport sample_sha all_events [] [(''e1.md'', Some bytes), (''notes.txt'', None), (''e2.md'', None)] = ([e], [''e2.md''])"
proof -
  let ?d = "event_doc sample_sha ''e1'' ''now'' ''a1'' ''claim'' ''t-1'' [] [] ''fine''" and ?dk = "\<lparr>dk_target = None, dk_temp = None\<rparr>"
  obtain dk' where w: "WriteFile working_ops ?d ?dk = (True, dk')"
    by (simp add: WriteFile_def writeBytes_def working_ops_def failing_ops_def Let_def)
  have b: "CHR 0x0D \<notin> set ''fine''" "no_heading False (body_lines (''fine'' @ [newline]))" "\<not> isJournal ''claim''"
    by code_simp+
  let ?e = "(appended_event sample_sha ''e1.md'' ''e1'' ''now'' ''a1'' ''claim'' ''t-1'' [] [] ''fine'')
       \<lparr>ee_documentKind := ''event'', ee_Body := trim_space ''fine''\<rparr>"
  obtain d where "ReadFile dk' = Inr d" "parseEvent sample_sha ''e1.md'' d = Inr ?e"
    using event_read [OF w b(1,2)] by blast
  then have r: "read_event sample_sha (''e1.md'', Some (Render ?d)) = Some (d, ?e)"
    using WriteFile_ok [OF w] by (simp add: read_event_def ReadFile_def)
  have n: "read_event sample_sha (''e2.md'', None) = None" by (simp add: read_event_def ReadFile_def)
  let ?files = "[(''e1.md'', Some (Render ?d)), (''notes.txt'', None), (''e2.md'', None)]"
  have f: "newest_first ?files = [(''e2.md'', None), (''e1.md'', Some (Render ?d))]"
    by (simp add: newest_first_def has_suffix_def has_prefix_def)
  have "\<not> disposes ?e" by (simp add: disposes_def appended_event_def Let_def)
  then have s: "shown sample_sha all_events {} (newest_first ?files) (''e1.md'', Some (Render ?d)) = [mark_dismissed False ?e]"
    by (simp add: f shown_def r n disposed_in_def listed_def wanted_def all_events_def Let_def)
  have "ListReport sample_sha all_events [] ?files = ([mark_dismissed False ?e], [''e2.md''])"
    using listing_two_passes [of all_events ?files sample_sha "[]"] s r n
    by (simp add: f all_events_def shown_def)
  moreover have "ee_ID (mark_dismissed False ?e) = ''e1''" "ee_Pending (mark_dismissed False ?e)"
    using b(3) by (simp_all add: mark_dismissed_def appended_event_def Let_def)
  ultimately show ?thesis by blast
qed

end
