(* ===== verification/Event_Journal.thy ===== *)
theory Event_Journal
  imports Event_Log
begin

text \<open>
  Dispositions and the reconciliation of the event log (\<^verbatim>\<open>Find\<close> and \<^verbatim>\<open>Dismiss\<close> of
  \<^verbatim>\<open>internal/eventlog/eventlog.go\<close>, and \<^verbatim>\<open>internal/eventlog/journal.go\<close>). The log is a map of paths to
  bytes. A plan classifies the records about a project, and applying it appends dismissals and moves
  records to the archive. The theorems say what a plan may touch and that applying it loses nothing;
  two of them show what the classification gets wrong.
\<close>

section \<open>Appending and finding\<close>

text \<open>\<^verbatim>\<open>Append\<close> on the map of files: the event that it returns, if the write succeeded, and the files.
  \<open>dir\<close> is the events directory, \<open>date\<close> the formatted date, \<open>i\<close> the fresh identifier.\<close>

definition append_event ::
    "(jval \<Rightarrow> string) \<Rightarrow> durable_ops \<Rightarrow> string \<Rightarrow> string \<Rightarrow> ident \<Rightarrow> string \<Rightarrow> ident \<Rightarrow> verb \<Rightarrow> ident \<Rightarrow> string
       \<Rightarrow> log_file list \<Rightarrow> event option \<times> log_file list" where
  "append_event h io dir date i created actor kind about body files =
     (let path = EventPath dir date i actor kind;
          (ok, dk) = WriteFile io (event_doc h i created actor kind about [] [] body)
            \<lparr>dk_target = (case gget files path of None \<Rightarrow> None | Some b \<Rightarrow> b), dk_temp = None\<rparr>;
          files' = (case dk_target dk of None \<Rightarrow> files | Some b \<Rightarrow> gput path (Some b) files)
      in (if ok then Some (appended_event h path i created actor kind about [] [] body) else None, files'))"

datatype find_error = Ambiguous | EventNotFound

text \<open>The loop over the events: the match so far.\<close>

fun find_loop :: "string \<Rightarrow> event option \<Rightarrow> event list \<Rightarrow> find_error + event" where
  "find_loop ref found [] = (case found of None \<Rightarrow> Inl EventNotFound | Some e \<Rightarrow> Inr e)"
| "find_loop ref found (e # es) =
     (if ee_ID e \<noteq> ref \<and> \<not> has_prefix (ee_ID e) ref then find_loop ref found es
      else if found \<noteq> None then Inl Ambiguous
      else find_loop ref (Some e) es)"

definition Find :: "(jval \<Rightarrow> string) \<Rightarrow> string \<Rightarrow> log_file list \<Rightarrow> find_error + event" where
  "Find h ref files = find_loop ref None (fst (ListReport h all_events [] files))"

datatype dismiss_error = NoReason | NotPending | WriteFailed

definition Dismiss ::
    "(jval \<Rightarrow> string) \<Rightarrow> durable_ops \<Rightarrow> string \<Rightarrow> string \<Rightarrow> ident \<Rightarrow> string \<Rightarrow> ident \<Rightarrow> event \<Rightarrow> string
       \<Rightarrow> log_file list \<Rightarrow> (dismiss_error + event \<times> bool) \<times> log_file list" where
  "Dismiss h io dir date i created actor original reason files =
     (if trim_space reason = [] then (Inl NoReason, files)
      else if ee_Applied original \<and> \<not> ee_Dismissed original then (Inl NotPending, files)
      else case find (\<lambda>e. ee_About e = ee_ID original)
          (fst (ListReport h (all_events\<lparr>q_Kinds := [''dismissal'']\<rparr>) [] files)) of
        Some e \<Rightarrow> (Inr (e, False), files)
      | None \<Rightarrow>
          (case append_event h io dir date i created actor ''dismissal'' (ee_ID original) (trim_space reason) files of
             (None, files') \<Rightarrow> (Inl WriteFailed, files')
           | (Some e, files') \<Rightarrow> (Inr (e, True), files')))"

section \<open>Classification\<close>

record journal_task =
  jt_ID :: ident
  jt_Project :: string
  jt_Status :: verb

record journal_item =
  ji_ID :: ident
  ji_Kind :: verb
  ji_Actor :: ident
  ji_About :: ident
  ji_LogicalPath :: string
  ji_Classification :: verb
  ji_Action :: verb
  ji_Bytes :: int
  ji_Hash :: string

text \<open>The kinds of mailbox records that compete for a target.\<close>

definition competing :: "verb \<Rightarrow> bool" where
  "competing k \<longleftrightarrow> k \<in> {''claim'', ''block'', ''dependency''}"

definition contestedMailbox :: "event \<Rightarrow> event list \<Rightarrow> bool" where
  "contestedMailbox current events \<longleftrightarrow>
     competing (ee_Kind current)
     \<and> (let es = filter (\<lambda>e. competing (ee_Kind e)) events;
            kinds = remdups (map ee_Kind es); actors = remdups (map ee_Actor es) in
        1 < length kinds \<or> (1 < length events \<and> 1 < length actors \<and> 0 < length kinds))"

definition classes :: "string list" where
  "classes = [''complete-journal'', ''complete-mailbox'']"

definition normalizeClasses :: "string list \<Rightarrow> string list" where
  "normalizeClasses given =
     (let given' = (if given = [] then [''complete-journal''] else given);
          parts = map trim_space (concat (map (split_on CHR '','') given'))
      in sort (remdups (filter (\<lambda>c. c \<in> set classes) parts)))"

text \<open>\<^verbatim>\<open>filepath.Rel\<close> to one of the two directories; both are clean and so are the paths of the walk.\<close>

definition logicalEventPath :: "string \<Rightarrow> string \<Rightarrow> string \<Rightarrow> string" where
  "logicalEventPath dir archive path =
     (if has_prefix path (dir @ ''/'') then drop (length dir + 1) path
      else if has_prefix path (archive @ ''/'') then drop (length archive + 1) path
      else if path = dir \<or> path = archive then ''.''
      else last (split_on CHR ''/'' path))"

text \<open>The switch of \<^verbatim>\<open>classifyJournalItem\<close>: classification and action. The reasons and the hints for a
  human, fixed texts for each classification, are left out.\<close>

definition classify ::
    "bool \<Rightarrow> event \<Rightarrow> journal_task option \<Rightarrow> event list \<Rightarrow> bool \<Rightarrow> bool \<Rightarrow> string set \<Rightarrow> verb \<times> verb" where
  "classify readable e task peers oldProposal referenced archives =
     (let open_mail = (\<not> ee_Applied e \<and> \<not> isJournal (ee_Kind e));
          keep = (\<lambda>c. (c, if c \<in> archives then ''archive'' else ''preserve'')) in
      if \<not> readable then (''unknown-unreadable'', ''preserve'')
      else if referenced then (''externally-referenced'', ''preserve'')
      else if contestedMailbox e peers then (''contested'', ''preserve'')
      else if oldProposal then (''superseded-proposal'', ''dismiss'')
      else if open_mail \<and> task = None then (''missing-target'', ''dismiss'')
      else if open_mail \<and> (case task of Some t \<Rightarrow> jt_Status t = ''done'' | None \<Rightarrow> False) then (''terminal-target'', ''dismiss'')
      else if open_mail \<and> \<not> ee_Dismissed e then (''pending-actionable'', ''preserve'')
      else if isJournal (ee_Kind e) then keep ''complete-journal''
      else keep ''complete-mailbox'')"

definition classifyJournalItem ::
    "(string \<Rightarrow> string) \<Rightarrow> (string \<Rightarrow> string) \<Rightarrow> log_file list \<Rightarrow> event \<Rightarrow> journal_task option \<Rightarrow> event list \<Rightarrow> bool
       \<Rightarrow> bool \<Rightarrow> string set \<Rightarrow> journal_item" where
  "classifyJournalItem sha logical files e task peers oldProposal referenced archives =
     (let raw = (case gget files (ee_Path e) of None \<Rightarrow> None | Some b \<Rightarrow> b);
          (c, a) = classify (raw \<noteq> None) e task peers oldProposal referenced archives in
      \<lparr>ji_ID = ee_ID e, ji_Kind = ee_Kind e, ji_Actor = ee_Actor e, ji_About = ee_About e,
       ji_LogicalPath = logical (ee_Path e), ji_Classification = c, ji_Action = a,
       ji_Bytes = (case raw of None \<Rightarrow> 0 | Some b \<Rightarrow> int (length b)),
       ji_Hash = (case raw of None \<Rightarrow> [] | Some b \<Rightarrow> sha b)\<rparr>)"

section \<open>The plan\<close>

definition task_of :: "journal_task list \<Rightarrow> ident \<Rightarrow> journal_task option" where
  "task_of tasks i = map_of (rev (map (\<lambda>t. (jt_ID t, t)) tasks)) i"

definition mailbox :: "event \<Rightarrow> bool" where
  "mailbox e \<longleftrightarrow> \<not> ee_Applied e \<and> \<not> isJournal (ee_Kind e)"

definition scoped_events :: "journal_task list \<Rightarrow> event list \<Rightarrow> event list" where
  "scoped_events tasks events =
     filter (\<lambda>e. ee_Kind e \<noteq> ''dismissal'' \<and> (task_of tasks (ee_About e) \<noteq> None \<or> has_prefix (ee_About e) ''t-'' \<and> mailbox e)) events"

definition referenced_ids :: "event list \<Rightarrow> ident list" where
  "referenced_ids events =
     map ee_About (filter (\<lambda>e. ee_Kind e \<noteq> ''dismissal'' \<and> ee_About e \<in> set (map ee_ID events)) events)"

definition pending_for :: "event list \<Rightarrow> ident \<Rightarrow> event list" where
  "pending_for scoped target = filter (\<lambda>e. mailbox e \<and> ee_About e = target) scoped"

definition superseded_ids :: "event list \<Rightarrow> ident list" where
  "superseded_ids scoped =
     concat (map (\<lambda>target. map ee_ID (butlast (sort_key ee_ID
         (filter (\<lambda>e. ee_Kind e = ''propose-status'') (pending_for scoped target)))))
       (remdups (map ee_About (filter mailbox scoped))))"

record journal_plan =
  jp_Project :: string
  jp_ArchiveClasses :: "string list"
  jp_Items :: "journal_item list"
  jp_TotalBytes :: int
  jp_ArchiveBytes :: int
  jp_ArchiveCount :: int
  jp_DismissCount :: int
  jp_ID :: string

definition hole_item :: "(string \<Rightarrow> string) \<Rightarrow> (string \<Rightarrow> int) \<Rightarrow> string \<Rightarrow> journal_item" where
  "hole_item logical bytes_of path =
     \<lparr>ji_ID = [], ji_Kind = [], ji_Actor = [], ji_About = [], ji_LogicalPath = logical path,
      ji_Classification = ''unknown-unreadable'', ji_Action = ''preserve'', ji_Bytes = bytes_of path, ji_Hash = []\<rparr>"

text \<open>What the planner asks of its surroundings: the checksum of records, SHA-256 in hex, the digest of the
  plan without its identifier and time, the size of a file that cannot be read (zero when even that is
  unknown), and the two directories.\<close>

record journal_env =
  jn_Checksum :: "jval \<Rightarrow> string"
  jn_SHA :: "string \<Rightarrow> string"
  jn_Digest :: "journal_plan \<Rightarrow> string"
  jn_Size :: "string \<Rightarrow> int"
  jn_Dir :: string
  jn_Archive :: string

text \<open>\<open>tasks\<close> are all tasks of the workspace; \<^verbatim>\<open>ListTasks\<close> gives the planner those of its project, all of
  them when the name is empty.\<close>

definition project_tasks :: "string \<Rightarrow> journal_task list \<Rightarrow> journal_task list" where
  "project_tasks project tasks = filter (\<lambda>t. project = [] \<or> jt_Project t = project) tasks"

definition plan_item ::
    "journal_env \<Rightarrow> string set \<Rightarrow> journal_task list \<Rightarrow> event list \<Rightarrow> log_file list \<Rightarrow> event \<Rightarrow> journal_item" where
  "plan_item N cs mine events files e =
     (let scoped = scoped_events mine events in
      classifyJournalItem (jn_SHA N) (logicalEventPath (jn_Dir N) (jn_Archive N)) files e (task_of mine (ee_About e))
        (pending_for scoped (ee_About e)) (ee_ID e \<in> set (superseded_ids scoped)) (ee_ID e \<in> set (referenced_ids events)) cs)"

definition PlanJournal ::
    "journal_env \<Rightarrow> journal_task list \<Rightarrow> string \<Rightarrow> string list \<Rightarrow> string list \<Rightarrow> log_file list \<Rightarrow> journal_plan" where
  "PlanJournal N tasks project archiveClasses walk_failures files =
     (let cs = normalizeClasses archiveClasses;
          mine = project_tasks project tasks;
          (events, holes) = ListReport (jn_Checksum N) all_events walk_failures files;
          items = map (plan_item N (set cs) mine events files) (scoped_events mine events);
          archived = filter (\<lambda>x. ji_Action x = ''archive'') items;
          all_items = items @ map (hole_item (logicalEventPath (jn_Dir N) (jn_Archive N)) (jn_Size N)) holes;
          plan = \<lparr>jp_Project = project, jp_ArchiveClasses = cs, jp_Items = sort_key ji_LogicalPath all_items,
            jp_TotalBytes = sum_list (map ji_Bytes all_items), jp_ArchiveBytes = sum_list (map ji_Bytes archived),
            jp_ArchiveCount = int (length archived),
            jp_DismissCount = int (length (filter (\<lambda>x. ji_Action x = ''dismiss'') items)), jp_ID = []\<rparr>
      in plan\<lparr>jp_ID := jn_Digest N plan\<rparr>)"

section \<open>Applying a plan\<close>

datatype journal_error = StalePlan | SnapshotFailed | DismissFailed | ArchiveFailed

text \<open>Phase one: the dismissals. Each turn of the loop has its own environment (identifier, time, outcomes of
  the write).\<close>

record turn =
  tn_IO :: durable_ops
  tn_Date :: string
  tn_ID :: ident
  tn_Created :: string
  tn_Rename :: bool

fun dismiss_items ::
    "(jval \<Rightarrow> string) \<Rightarrow> string \<Rightarrow> ident \<Rightarrow> string \<Rightarrow> (nat \<Rightarrow> turn) \<Rightarrow> nat \<Rightarrow> journal_item list \<Rightarrow> log_file list
       \<Rightarrow> journal_error option \<times> log_file list" where
  "dismiss_items h dir actor planID E n [] files = (None, files)"
| "dismiss_items h dir actor planID E n (x # xs) files =
     (if ji_Action x \<noteq> ''dismiss'' then dismiss_items h dir actor planID E (n + 1) xs files
      else case Find h (ji_ID x) files of
        Inl _ \<Rightarrow> (Some DismissFailed, files)
      | Inr e \<Rightarrow>
          (case Dismiss h (tn_IO (E n)) dir (tn_Date (E n)) (tn_ID (E n)) (tn_Created (E n)) actor e
              (''event journal reconciliation '' @ planID @ '': '' @ ji_Classification x) files of
             (Inl _, files') \<Rightarrow> (Some DismissFailed, files')
           | (Inr _, files') \<Rightarrow> dismiss_items h dir actor planID E (n + 1) xs files'))"

text \<open>Phase two: the moves into the archive, each checked against the digest in the plan.\<close>

fun archive_items ::
    "(string \<Rightarrow> string) \<Rightarrow> string \<Rightarrow> string \<Rightarrow> (nat \<Rightarrow> turn) \<Rightarrow> nat \<Rightarrow> journal_item list \<Rightarrow> log_file list
       \<Rightarrow> journal_error option \<times> log_file list" where
  "archive_items sha dir archive E n [] files = (None, files)"
| "archive_items sha dir archive E n (x # xs) files =
     (if ji_Action x \<noteq> ''archive'' then archive_items sha dir archive E (n + 1) xs files
      else let src = path_join dir (ji_LogicalPath x); dst = path_join archive (ji_LogicalPath x) in
        if gget files dst \<noteq> None then archive_items sha dir archive E (n + 1) xs files
        else case gget files src of
          Some (Some raw) \<Rightarrow>
            if sha raw \<noteq> ji_Hash x \<or> \<not> tn_Rename (E n) then (Some ArchiveFailed, files)
            else archive_items sha dir archive E (n + 1) xs (gput dst (Some raw) (AList.delete src files))
        | _ \<Rightarrow> (Some ArchiveFailed, files))"

text \<open>\<open>snapshot\<close> says whether the snapshot and its checksum could be verified or written. The whole function
  runs under the lock of the journal, and plans again before it touches anything.\<close>

definition ApplyJournalPlan ::
    "journal_env \<Rightarrow> ident \<Rightarrow> (nat \<Rightarrow> turn) \<Rightarrow> (nat \<Rightarrow> turn) \<Rightarrow> bool \<Rightarrow> journal_task list \<Rightarrow> string \<Rightarrow> string list
       \<Rightarrow> string \<Rightarrow> string list \<Rightarrow> log_file list \<Rightarrow> journal_error option \<times> log_file list" where
  "ApplyJournalPlan N actor E F snapshot tasks project archiveClasses requestedID walk_failures files =
     (let plan = PlanJournal N tasks project archiveClasses walk_failures files in
      if requestedID = [] \<or> requestedID \<noteq> jp_ID plan then (Some StalePlan, files)
      else if \<not> snapshot then (Some SnapshotFailed, files)
      else case dismiss_items (jn_Checksum N) (jn_Dir N) actor (jp_ID plan) E 0 (jp_Items plan) files of
        (Some e, files') \<Rightarrow> (Some e, files')
      | (None, files') \<Rightarrow> archive_items (jn_SHA N) (jn_Dir N) (jn_Archive N) F 0 (jp_Items plan) files')"

section \<open>A dismissal is final\<close>

lemma append_event_shape:
  assumes "append_event h io dir date i created actor kind about body files = (r, files')"
    and "gget files (EventPath dir date i actor kind) = None"
  shows "(r = None \<and> files' = files) \<or> (\<exists>b. files' = gput (EventPath dir date i actor kind) (Some b) files
      \<and> (r \<noteq> None \<longrightarrow> b = Render (event_doc h i created actor kind about [] [] body)
           \<and> r = Some (appended_event h (EventPath dir date i actor kind) i created actor kind about [] [] body)))"
  using assms by (auto simp: append_event_def Let_def WriteFile_def writeBytes_def remove_temp_def split: prod.splits option.splits if_splits)

lemma set_strip_runes: "set (strip_runes rs s) \<subseteq> set s"
  by (metis strip_runes_suffix Un_upper2 set_append)

lemma set_trim_space: "set (trim_space s) \<subseteq> set s"
  unfolding trim_space_def using set_strip_runes [of space_runes s] set_strip_runes [of "map rev space_runes"] by fastforce

lemma find_member: "find P xs = Some x \<Longrightarrow> x \<in> set xs \<and> P x"
  by (auto simp: find_Some_iff)



lemma all_events_simps [simp]: "q_Limit all_events = 0" "q_Pending all_events = False" "q_Kinds all_events = []"
    "listed all_events d e gone"
  by (simp_all add: all_events_def listed_def wanted_def)

text \<open>What the listings show of one file.\<close>

lemma shown_in_listing:
  assumes "gwf files" "f \<in> set files" "has_suffix (fst f) ''.md''" "read_event h f = Some (d, e)" "q_Limit q \<le> 0"
    "listed q d e (disposed_in h (newest_first files) f e)"
  shows "mark_dismissed (disposed_in h (newest_first files) f e) e \<in> set (fst (ListReport h q holes files))"
proof -
  have "mark_dismissed (disposed_in h (newest_first files) f e) e \<in> set (shown h q {} (newest_first files) f)"
    using assms(4,6) by (simp add: shown_def)
  moreover have "f \<in> set (newest_first files)" using assms(2,3) by simp
  moreover have "distinct (map fst files)" using assms(1) by (simp add: gwf_def)
  ultimately show ?thesis unfolding ListReport_out [OF assms(5) \<open>distinct (map fst files)\<close>] set_concat set_map by blast
qed

text \<open>The record that \<^verbatim>\<open>Dismiss\<close> appends disposes of its event.\<close>

lemma dismissal_reads:
  assumes "CHR 0x0D \<notin> set body" "no_heading False (body_lines (body @ [newline]))" "about \<noteq> []" "i \<noteq> []"
  obtains d e where "read_event h (path, Some (Render (event_doc h i created actor ''dismissal'' about [] [] body))) = Some (d, e)"
    "disposes e" "ee_About e = about" "ee_Kind e = ''dismissal''"
proof -
  let ?d = "event_doc h i created actor ''dismissal'' about [] [] body"
  have w: "WriteFile working_ops ?d \<lparr>dk_target = None, dk_temp = None\<rparr> = (True, \<lparr>dk_target = Some (Render ?d), dk_temp = None\<rparr>)"
    by (simp add: WriteFile_def writeBytes_def working_ops_def failing_ops_def Let_def)
  from event_read [OF w assms(1,2), of path] obtain d where d: "ReadFile \<lparr>dk_target = Some (Render ?d), dk_temp = None\<rparr> = Inr d"
    "parseEvent h path d = Inr ((appended_event h path i created actor ''dismissal'' about [] [] body)
       \<lparr>ee_documentKind := ''event'', ee_Body := trim_space body\<rparr>)" by blast
  have "isJournal ''dismissal''" by code_simp
  with d assms(3,4) show thesis
    by (intro that [of d "(appended_event h path i created actor ''dismissal'' about [] [] body)
       \<lparr>ee_documentKind := ''event'', ee_Body := trim_space body\<rparr>"])
      (simp_all add: read_event_def disposes_def appended_event_def Let_def)
qed


section \<open>What a plan may touch\<close>

lemma classify_archive:
  assumes "classify readable e task peers old referenced archives = (c, ''archive'')"
  shows "readable" "\<not> referenced" "c \<in> archives" "isJournal (ee_Kind e) \<or> ee_Applied e \<or> ee_Dismissed e"
    "c = (if isJournal (ee_Kind e) then ''complete-journal'' else ''complete-mailbox'')"
  using assms unfolding classify_def Let_def by (simp_all split: if_split_asm)

lemma classify_dismiss:
  assumes "classify readable e task peers old referenced archives = (c, ''dismiss'')"
  shows "readable" "\<not> referenced" "old \<or> mailbox e \<and> (case task of None \<Rightarrow> True | Some t \<Rightarrow> jt_Status t = ''done'')"
  using assms unfolding classify_def Let_def mailbox_def by (simp_all split: if_split_asm option.splits)

lemma classify_actions:
  "classify readable e task peers old referenced archives = (c, a) \<Longrightarrow> a \<in> {''preserve'', ''archive'', ''dismiss''}"
  by (auto simp: classify_def Let_def split: if_split_asm)

lemma classify_touches:
  assumes "classify readable e task peers old referenced archives = (c, a)" "a \<noteq> ''preserve''"
  shows "readable \<and> \<not> referenced"
  using assms unfolding classify_def Let_def by (simp split: if_split_asm)

lemma plan_item_shape:
  "plan_item N cs mine events files e = x \<Longrightarrow>
     ji_ID x = ee_ID e \<and> ji_LogicalPath x = logicalEventPath (jn_Dir N) (jn_Archive N) (ee_Path e)
     \<and> (\<exists>raw. raw = (case gget files (ee_Path e) of None \<Rightarrow> None | Some b \<Rightarrow> b)
          \<and> ji_Hash x = (case raw of None \<Rightarrow> [] | Some b \<Rightarrow> jn_SHA N b)
          \<and> (ji_Classification x, ji_Action x) = classify (raw \<noteq> None) e (task_of mine (ee_About e))
              (pending_for (scoped_events mine events) (ee_About e)) (ee_ID e \<in> set (superseded_ids (scoped_events mine events)))
              (ee_ID e \<in> set (referenced_ids events)) cs)"
  by (auto simp: plan_item_def classifyJournalItem_def Let_def split: prod.splits)

lemma plan_items:
  assumes "ListReport (jn_Checksum N) all_events walk_failures files = (events, holes)"
  shows "set (jp_Items (PlanJournal N tasks project cls walk_failures files)) =
     plan_item N (set (normalizeClasses cls)) (project_tasks project tasks) events files
        ` set (scoped_events (project_tasks project tasks) events)
     \<union> hole_item (logicalEventPath (jn_Dir N) (jn_Archive N)) (jn_Size N) ` set holes"
  using assms by (simp add: PlanJournal_def Let_def)

lemma planned_event:
  assumes "ListReport (jn_Checksum N) all_events walk_failures files = (events, holes)"
    and "x \<in> set (jp_Items (PlanJournal N tasks project cls walk_failures files))" "ji_ID x \<noteq> [] \<or> ji_Action x \<noteq> ''preserve''"
  shows "\<exists>e \<in> set (scoped_events (project_tasks project tasks) events).
     x = plan_item N (set (normalizeClasses cls)) (project_tasks project tasks) events files e"
  using assms(2,3) unfolding plan_items [OF assms(1)] by (auto simp: hole_item_def)

lemma task_of_some:
  "task_of ts i = Some t \<Longrightarrow> t \<in> set ts \<and> jt_ID t = i"
  by (auto simp: task_of_def dest!: map_of_SomeD)

text \<open>A superseded proposal has a newer one beside it.\<close>

lemma sort_butlast_less:
  fixes k :: "'a \<Rightarrow> 'b :: linorder"
  assumes "x \<in> set (butlast (sort_key k xs))" "distinct (map k xs)"
  shows "\<exists>y \<in> set xs. k x < k y"
proof -
  let ?s = "sort_key k xs"
  have ne: "?s \<noteq> []" using assms(1) by auto
  have "distinct (map k ?s)" using assms(2) by (metis distinct_map distinct_sort set_sort)
  then have "sorted_wrt (<) (map k (butlast ?s @ [last ?s]))" using ne by (simp add: strict_sorted_iff)
  then have "k x < k (last ?s)" using assms(1) by (simp add: sorted_wrt_append)
  with ne show ?thesis using last_in_set [OF ne] by auto
qed

lemma superseded_newer:
  assumes "distinct (map ee_ID events)" "e \<in> set events" "ee_ID e \<in> set (superseded_ids (scoped_events ts events))"
  shows "ee_Kind e = ''propose-status'' \<and> mailbox e
     \<and> (\<exists>n \<in> set events. ee_Kind n = ''propose-status'' \<and> mailbox n \<and> ee_About n = ee_About e \<and> ee_ID e < ee_ID n)"
proof -
  let ?g = "\<lambda>t. filter (\<lambda>e. ee_Kind e = ''propose-status'') (pending_for (scoped_events ts events) t)"
  have inj: "inj_on ee_ID (set events)" and "distinct events" using assms(1) by (auto simp: distinct_map)
  have sub: "set (?g t) \<subseteq> set events" for t by (auto simp: pending_for_def scoped_events_def)
  have d: "distinct (map ee_ID (?g t))" for t
    using inj_on_subset [OF inj sub] \<open>distinct events\<close> by (simp add: distinct_map pending_for_def scoped_events_def)
  from assms(3) obtain t e' where e': "ee_ID e' = ee_ID e" "e' \<in> set (butlast (sort_key ee_ID (?g t)))"
    by (auto simp: superseded_ids_def)
  then have mem: "e' \<in> set (?g t)" by (metis in_set_butlastD set_sort)
  with e'(1) sub assms(2) inj have "e' = e" by (meson inj_onD subsetD)
  from sort_butlast_less [OF e'(2) d] obtain n where "n \<in> set (?g t)" "ee_ID e' < ee_ID n" by blast
  with mem \<open>e' = e\<close> sub show ?thesis by (auto simp: pending_for_def scoped_events_def)
qed


text \<open>Open mail about a task of another project falls into the scope of a plan, since only the form of the
  reference is looked at, but its task is looked up among those of the plan's project.\<close>

lemma scoped_mail: "e \<in> set events \<Longrightarrow> mailbox e \<Longrightarrow> has_prefix (ee_About e) ''t-'' \<Longrightarrow> e \<in> set (scoped_events ts events)"
  by (auto simp: scoped_events_def mailbox_def isJournal_def)

text \<open>Reconciling one project plans to dismiss the open mail of the others. Take open mail about a task of
  another project, open or not, that is readable, referred to by nothing and not one of the kinds that
  can be contested. The plan for this project contains it, and the action is to dismiss it, because
  the target is missing from the project's tasks. It does so whatever the state of that task, so a
  pending record about a live task is closed without ever having been applied.\<close>

theorem reconciliation_crosses_projects:
  assumes "ListReport (jn_Checksum N) all_events walk_failures files = (events, holes)"
    and e: "e \<in> set events" "mailbox e" "has_prefix (ee_About e) ''t-''" "\<not> competing (ee_Kind e)"
      "gget files (ee_Path e) = Some (Some raw)"
      "\<forall>r \<in> set events. ee_Kind r \<noteq> ''dismissal'' \<longrightarrow> ee_About r \<noteq> ee_ID e"
    and t: "t \<in> set tasks" "jt_ID t = ee_About e" "distinct (map jt_ID tasks)" "jt_Project t \<noteq> project" "project \<noteq> []"
  shows "\<exists>x \<in> set (jp_Items (PlanJournal N tasks project cls walk_failures files)).
     ji_ID x = ee_ID e \<and> ji_Action x = ''dismiss'' \<and> ji_Hash x = jn_SHA N raw"
proof -
  let ?ts = "project_tasks project tasks"
  let ?x = "plan_item N (set (normalizeClasses cls)) ?ts events files e"
  have "task_of ?ts (ee_About e) = None"
  proof (rule ccontr)
    assume "task_of ?ts (ee_About e) \<noteq> None"
    then obtain u where "task_of ?ts (ee_About e) = Some u" by blast
    then have "u \<in> set tasks" "jt_ID u = jt_ID t" "jt_Project u \<noteq> jt_Project t"
      using task_of_some [of ?ts "ee_About e" u] t(2,4,5) by (auto simp: project_tasks_def)
    with t(1,3) show False by (metis distinct_map inj_onD)
  qed
  moreover have "ee_ID e \<notin> set (referenced_ids events)" using e(6) by (auto simp: referenced_ids_def)
  moreover have "\<not> contestedMailbox e peers" for peers using e(4) by (simp add: contestedMailbox_def)
  ultimately have "ji_Action ?x = ''dismiss'' \<and> ji_ID ?x = ee_ID e \<and> ji_Hash ?x = jn_SHA N raw"
    using e(2,5) by (simp add: plan_item_def classifyJournalItem_def classify_def Let_def mailbox_def)
  moreover have "?x \<in> set (jp_Items (PlanJournal N tasks project cls walk_failures files))"
    unfolding plan_items [OF assms(1)] using scoped_mail [OF e(1-3)] by blast
  ultimately show ?thesis by blast
qed

text \<open>A contested target stays contested. \<^verbatim>\<open>contestedMailbox\<close> counts every record that was never applied,
  dismissed or not. So when two actors claim one task and a human dismisses one of the claims, the
  plan still holds both back as contested and asks to resolve them; neither can be archived or
  dismissed by a plan until one is applied or a third record refers to it.\<close>

theorem contested_after_dismissal:
  assumes "ListReport (jn_Checksum N) all_events walk_failures files = (events, holes)" "distinct (map ee_ID events)"
    and e: "e \<in> set events" "mailbox e" "competing (ee_Kind e)" "has_prefix (ee_About e) ''t-''"
    and r: "r \<in> set events" "mailbox r" "competing (ee_Kind r)" "ee_About r = ee_About e" "ee_Actor r \<noteq> ee_Actor e" "ee_Dismissed r"
    and x: "x \<in> set (jp_Items (PlanJournal N tasks project cls walk_failures files))" "ji_ID x = ee_ID e" "ee_ID e \<noteq> []"
  shows "ji_Action x = ''preserve'' \<and> ji_Classification x \<in> {''contested'', ''externally-referenced'', ''unknown-unreadable''}"
proof -
  let ?ts = "project_tasks project tasks"
  let ?peers = "pending_for (scoped_events ?ts events) (ee_About e)"
  from x(2,3) planned_event [OF assms(1) x(1)] obtain f where f: "f \<in> set events" "ji_ID x = ee_ID f"
      "plan_item N (set (normalizeClasses cls)) ?ts events files f = x"
    using plan_item_shape by (metis (no_types, lifting) filter_is_subset scoped_events_def subsetD)
  then have [simp]: "f = e" using assms(2) e(1) x(2) by (metis distinct_map inj_onD)
  have peers: "e \<in> set ?peers" "r \<in> set ?peers"
    using scoped_mail e r by (auto simp: pending_for_def)
  let ?actors = "remdups (map ee_Actor (filter (\<lambda>e. competing (ee_Kind e)) ?peers))"
  have "{ee_Actor e, ee_Actor r} \<subseteq> set ?actors" using peers e(3) r(3) by auto
  then have "card {ee_Actor e, ee_Actor r} \<le> length ?actors"
    by (metis List.finite_set card_mono distinct_card distinct_remdups)
  then have a: "1 < length ?actors" using r(5) by (simp add: eq_commute)
  have "card {e, r} \<le> length ?peers" using peers card_length [of ?peers] card_mono [of "set ?peers" "{e, r}"] by simp
  moreover have "e \<noteq> r" using r(5) by blast
  ultimately have "1 < length ?peers" by simp
  moreover have "ee_Kind e \<in> set (remdups (map ee_Kind (filter (\<lambda>e. competing (ee_Kind e)) ?peers)))" using peers e(3) by simp
  then have "0 < length (remdups (map ee_Kind (filter (\<lambda>e. competing (ee_Kind e)) ?peers)))" by (metis length_pos_if_in_set)
  ultimately have c: "contestedMailbox e ?peers" using a e(3) unfolding contestedMailbox_def Let_def by blast
  from plan_item_shape [OF f(3)] obtain raw :: "string option" where
    "(ji_Classification x, ji_Action x) = classify (raw \<noteq> None) e (task_of ?ts (ee_About e)) ?peers
       (ee_ID e \<in> set (superseded_ids (scoped_events ?ts events))) (ee_ID e \<in> set (referenced_ids events)) (set (normalizeClasses cls))"
    by auto
  with c show ?thesis by (simp add: classify_def Let_def split: if_split_asm)
qed

section \<open>Archiving\<close>

lemma gget_delete [simp]: "gget (AList.delete k m) k' = (if k' = k then None else gget m k')"
  by (simp add: gget_def delete_conv')

text \<open>Sources and destinations of the moves are different files.\<close>

definition apart :: "string \<Rightarrow> string \<Rightarrow> journal_item list \<Rightarrow> bool" where
  "apart dir archive items \<longleftrightarrow> (\<forall>x \<in> set items. \<forall>y \<in> set items. path_join dir (ji_LogicalPath x) \<noteq> path_join archive (ji_LogicalPath y))"

lemma apart_Cons:
  assumes "apart dir archive (x # xs)"
  shows "apart dir archive xs" "\<And>y. y \<in> set xs \<Longrightarrow> path_join dir (ji_LogicalPath y) \<noteq> path_join archive (ji_LogicalPath x)"
    "path_join dir (ji_LogicalPath x) \<noteq> path_join archive (ji_LogicalPath x)"
  using assms by (auto simp: apart_def)

lemma archive_step:
  assumes "archive_items sha dir archive E n (x # xs) files = (r, files')"
  obtains (skip) "ji_Action x \<noteq> ''archive'' \<or> gget files (path_join archive (ji_LogicalPath x)) \<noteq> None"
      "archive_items sha dir archive E (n + 1) xs files = (r, files')"
    | (stop) "files' = files" "r \<noteq> None"
    | (move) raw where "ji_Action x = ''archive''" "gget files (path_join archive (ji_LogicalPath x)) = None"
      "gget files (path_join dir (ji_LogicalPath x)) = Some (Some raw)" "sha raw = ji_Hash x"
      "archive_items sha dir archive E (n + 1) xs
         (gput (path_join archive (ji_LogicalPath x)) (Some raw) (AList.delete (path_join dir (ji_LogicalPath x)) files)) = (r, files')"
  using assms by (force simp: Let_def split: if_split_asm option.splits)

lemma archive_keeps:
  assumes "archive_items sha dir archive E n items files = (r, files')" "apart dir archive items" "gget files p = Some b"
  shows "gget files' p = Some b \<or> (\<exists>x \<in> set items. ji_Action x = ''archive''
       \<and> p = path_join dir (ji_LogicalPath x) \<and> gget files (path_join archive (ji_LogicalPath x)) = None
       \<and> gget files' (path_join archive (ji_LogicalPath x)) = Some b \<and> (\<exists>raw. b = Some raw \<and> sha raw = ji_Hash x))"
  using assms
proof (induction items arbitrary: n files b p)
  case (Cons x xs)
  note sep = apart_Cons [OF Cons.prems(2)]
  from Cons.prems(1) show ?case
  proof (cases rule: archive_step)
    case skip
    from Cons.IH [OF skip(2) sep(1) Cons.prems(3)] show ?thesis by auto
  next
    case stop
    with Cons.prems(3) show ?thesis by simp
  next
    case (move raw)
    let ?src = "path_join dir (ji_LogicalPath x)" and ?dst = "path_join archive (ji_LogicalPath x)"
    let ?files = "gput ?dst (Some raw) (AList.delete ?src files)"
    note IH = Cons.IH [OF move(5) sep(1)]
    show ?thesis
    proof (cases "p = ?src")
      case True
      have "gget ?files ?dst = Some (Some raw)" by simp
      from IH [OF this] sep(2) have "gget files' ?dst = Some (Some raw)" by metis
      with True Cons.prems(3) move show ?thesis by auto
    next
      case False
      moreover have "p \<noteq> ?dst" using Cons.prems(3) move(2) by auto
      ultimately have "gget ?files p = Some b" using Cons.prems(3) by simp
      moreover have "gget files q = None" if "gget ?files q = None" "\<exists>y \<in> set xs. q = path_join archive (ji_LogicalPath y)" for q
        using that Cons.prems(2) by (auto simp: apart_def split: if_split_asm)
      ultimately show ?thesis using IH [of p b] by auto
    qed
  qed
qed simp

lemma archive_stays:
  "archive_items sha dir archive E n items files = (r, files') \<Longrightarrow> apart dir archive (y # items)
     \<Longrightarrow> gget files (path_join archive (ji_LogicalPath y)) \<noteq> None \<Longrightarrow> gget files' (path_join archive (ji_LogicalPath y)) \<noteq> None"
  using archive_keeps [of sha dir archive E n items files r files' "path_join archive (ji_LogicalPath y)"] apart_Cons(2)
  by (metis apart_Cons(1) not_None_eq)

lemma archive_all:
  assumes "archive_items sha dir archive E n items files = (None, files')" "apart dir archive items"
    and "y \<in> set items" "ji_Action y = ''archive''"
  shows "gget files' (path_join archive (ji_LogicalPath y)) \<noteq> None"
  using assms
proof (induction items arbitrary: n files)
  case (Cons x xs)
  note sep = apart_Cons [OF Cons.prems(2)]
  have y: "y \<in> set xs \<or> y = x" using Cons.prems(3) by auto
  from Cons.prems(1) show ?case
  proof (cases rule: archive_step)
    case skip
    with y Cons.IH [OF skip(2) sep(1) _ Cons.prems(4)] archive_stays [OF skip(2) Cons.prems(2)] Cons.prems(4) show ?thesis by blast
  next
    case (move raw)
    with y Cons.IH [OF move(5) sep(1) _ Cons.prems(4)] archive_stays [OF move(5) Cons.prems(2)] show ?thesis by auto
  qed simp
qed simp

definition renames_work :: "(nat \<Rightarrow> turn) \<Rightarrow> bool" where
  "renames_work E \<longleftrightarrow> (\<forall>n. tn_Rename (E n))"

lemma archive_reruns:
  assumes "archive_items sha dir archive E n items files = (r, files')" "apart dir archive items" "renames_work F"
    and "archive_items sha dir archive F m items files = (None, done)"
  shows "archive_items sha dir archive F m items files' = (None, done)"
  using assms
proof (induction items arbitrary: n m files)
  case (Cons x xs)
  note sep = apart_Cons [OF Cons.prems(2)]
  have work: "tn_Rename (F m)" using Cons.prems(3) by (simp add: renames_work_def)
  from Cons.prems(1) show ?case
  proof (cases rule: archive_step)
    case skip
    then have "archive_items sha dir archive F (m + 1) xs files = (None, done)"
      using Cons.prems(4) by (auto simp: Let_def split: if_split_asm)
    from Cons.IH [OF skip(2) sep(1) Cons.prems(3) this] have rest: "archive_items sha dir archive F (m + 1) xs files' = (None, done)" .
    from skip(1) show ?thesis
    proof
      assume "gget files (path_join archive (ji_LogicalPath x)) \<noteq> None"
      from archive_stays [OF skip(2) Cons.prems(2) this] rest show ?thesis by (simp add: Let_def)
    qed (use rest in simp)
  next
    case stop
    with Cons.prems(4) show ?thesis by simp
  next
    case (move raw)
    let ?files = "gput (path_join archive (ji_LogicalPath x)) (Some raw) (AList.delete (path_join dir (ji_LogicalPath x)) files)"
    have "archive_items sha dir archive F (m + 1) xs ?files = (None, done)"
      using Cons.prems(4) move(1-4) work by (simp add: Let_def)
    from Cons.IH [OF move(5) sep(1) Cons.prems(3) this] have rest: "archive_items sha dir archive F (m + 1) xs files' = (None, done)" .
    from archive_stays [OF move(5) Cons.prems(2)] rest show ?thesis by (simp add: Let_def)
  qed
qed simp

text \<open>C27: Archiving loses nothing and can be interrupted anywhere. Whatever fails, every file keeps its path
  and its bytes, or was moved unchanged, with the digest that the plan recorded, to its archive path,
  which was free. When the phase succeeds, every planned record is in the archive. And if it stopped
  half-way, running it again where the renames work ends in exactly the state that an uninterrupted
  run would have reached.\<close>

theorem archive_lossless:
  assumes "archive_items sha dir archive E n items files = (r, files')" "apart dir archive items"
  shows "(\<forall>p b. gget files p = Some b \<longrightarrow> gget files' p = Some b \<or> (\<exists>x \<in> set items. ji_Action x = ''archive''
         \<and> p = path_join dir (ji_LogicalPath x) \<and> gget files (path_join archive (ji_LogicalPath x)) = None
         \<and> gget files' (path_join archive (ji_LogicalPath x)) = Some b \<and> (\<exists>raw. b = Some raw \<and> sha raw = ji_Hash x)))
     \<and> (r = None \<longrightarrow> (\<forall>x \<in> set items. ji_Action x = ''archive'' \<longrightarrow> gget files' (path_join archive (ji_LogicalPath x)) \<noteq> None))
     \<and> (\<forall>F m done. renames_work F \<longrightarrow> archive_items sha dir archive F m items files = (None, done)
          \<longrightarrow> archive_items sha dir archive F m items files' = (None, done))"
  using archive_keeps [OF assms] archive_all [OF _ assms(2)] archive_reruns [OF assms] assms(1) by blast

section \<open>Concrete logs\<close>

text \<open>A record as \<^verbatim>\<open>Append\<close> writes it, in a file named after its identifier.\<close>

definition sample_record :: "ident \<Rightarrow> ident \<Rightarrow> verb \<Rightarrow> ident \<Rightarrow> log_file" where
  "sample_record i actor kind about =
     (i @ ''.md'', Some (Render (event_doc sample_sha i ''now'' actor kind about [] [] ''fine'')))"

definition sample_event :: "ident \<Rightarrow> ident \<Rightarrow> verb \<Rightarrow> ident \<Rightarrow> event" where
  "sample_event i actor kind about =
     (appended_event sample_sha (i @ ''.md'') i ''now'' actor kind about [] [] ''fine'')\<lparr>ee_documentKind := ''event''\<rparr>"

lemma sample_event_simps [simp]:
  "ee_ID (sample_event i actor kind about) = i" "ee_Kind (sample_event i actor kind about) = kind"
  "ee_Actor (sample_event i actor kind about) = actor" "ee_About (sample_event i actor kind about) = about"
  "ee_Applied (sample_event i actor kind about) = isJournal kind" "ee_Path (sample_event i actor kind about) = i @ ''.md''"
  "ee_Dismissed (sample_event i actor kind about) = False"
  "disposes (sample_event i actor kind about) \<longleftrightarrow> kind = ''dismissal'' \<and> about \<noteq> [] \<and> i \<noteq> []"
  by (auto simp: sample_event_def appended_event_def disposes_def isJournal_def Let_def)

lemma mark_dismissed_simps [simp]:
  "ee_ID (mark_dismissed g e) = ee_ID e" "ee_Kind (mark_dismissed g e) = ee_Kind e" "ee_Actor (mark_dismissed g e) = ee_Actor e"
  "ee_About (mark_dismissed g e) = ee_About e" "ee_Applied (mark_dismissed g e) = ee_Applied e"
  "ee_Path (mark_dismissed g e) = ee_Path e" "ee_Dismissed (mark_dismissed g e) = g"
  by (simp_all add: mark_dismissed_def)

lemma sample_read: "\<exists>d. read_event sample_sha (sample_record i actor kind about) = Some (d, sample_event i actor kind about)"
proof -
  let ?d = "event_doc sample_sha i ''now'' actor kind about [] [] ''fine''" and ?dk = "\<lparr>dk_target = None, dk_temp = None\<rparr>"
  obtain dk' where w: "WriteFile working_ops ?d ?dk = (True, dk')"
    by (simp add: WriteFile_def writeBytes_def working_ops_def failing_ops_def Let_def)
  have b: "CHR 0x0D \<notin> set ''fine''" "no_heading False (body_lines (''fine'' @ [newline]))" "trim_space ''fine'' = ''fine''"
    by code_simp+
  have e: "(appended_event sample_sha (i @ ''.md'') i ''now'' actor kind about [] [] ''fine'')
       \<lparr>ee_documentKind := ''event'', ee_Body := trim_space ''fine''\<rparr> = sample_event i actor kind about"
    unfolding b(3) by (simp add: sample_event_def appended_event_def Let_def)
  obtain d where "ReadFile dk' = Inr d" "parseEvent sample_sha (i @ ''.md'') d = Inr (sample_event i actor kind about)"
    using event_read [OF w b(1,2), of "i @ ''.md''"] unfolding e by blast
  then show ?thesis
    using WriteFile_ok [OF w] by (simp add: sample_record_def read_event_def ReadFile_def)
qed

lemma sample_list_loop:
  "list_loop sample_sha all_events dis out bad (sample_record i actor kind about # fs) =
     (let e = sample_event i actor kind about; dis' = (if disposes e then about # dis else dis) in
      list_loop sample_sha all_events dis' (out @ [mark_dismissed (i \<in> set dis') e]) bad fs)"
proof -
  obtain d where d: "read_event sample_sha (sample_record i actor kind about) = Some (d, sample_event i actor kind about)"
    using sample_read by blast
  show ?thesis by (simp add: d Let_def wanted_def all_events_def)
qed

lemma sample_path [simp]: "fst (sample_record i actor kind about) = i @ ''.md''"
  by (simp add: sample_record_def)

lemmas sample_log = ListReport_newest newest_first_def sample_list_loop has_suffix_def has_prefix_def Let_def

definition journal_sample :: journal_env where
  "journal_sample = \<lparr>jn_Checksum = sample_sha, jn_SHA = id, jn_Digest = (\<lambda>p. ''plan''), jn_Size = (\<lambda>p. 0), jn_Dir = ''events'', jn_Archive = ''events-archive''\<rparr>"

lemma journal_sample_simps [simp]: "jn_Checksum journal_sample = sample_sha" "jn_SHA journal_sample = id"
  by (simp_all add: journal_sample_def)

lemma sample_log_one:
  "kind \<noteq> ''dismissal'' \<Longrightarrow> ListReport sample_sha all_events [] [sample_record ''e1'' actor kind about]
     = ([mark_dismissed False (sample_event ''e1'' actor kind about)], [])"
  by (simp add: sample_log del: list_loop.simps(2))

lemma sample_bytes: "\<exists>raw. gget [sample_record i actor kind about] (i @ ''.md'') = Some (Some raw)"
  by (simp add: sample_record_def gget_def)


theorem reconciliation_crosses_projects_witness:
  "\<exists>x \<in> set (jp_Items (PlanJournal journal_sample [\<lparr>jt_ID = ''t-1'', jt_Project = ''web'', jt_Status = ''open''\<rparr>] ''core'' [] []
        [sample_record ''e1'' ''a1'' ''propose-status'' ''t-1''])). ji_ID x = ''e1'' \<and> ji_Action x = ''dismiss''"
proof -
  let ?t = "\<lparr>jt_ID = ''t-1'', jt_Project = ''web'', jt_Status = ''open''\<rparr>"
  let ?f = "sample_record ''e1'' ''a1'' ''propose-status'' ''t-1''" and ?e = "mark_dismissed False (sample_event ''e1'' ''a1'' ''propose-status'' ''t-1'')"
  obtain raw where "gget [?f] ''e1.md'' = Some (Some raw)"
    using sample_bytes [of "''e1''" "''a1''" "''propose-status''" "''t-1''"] by auto
  with reconciliation_crosses_projects [of journal_sample "[]" "[?f]" "[?e]" "[]" ?e raw ?t "[?t]" "''core''" "[]"] show ?thesis
    by (simp add: sample_log_one mailbox_def competing_def isJournal_def has_prefix_def) blast
qed

theorem contested_after_dismissal_witness:
  "\<exists>x \<in> set (jp_Items (PlanJournal journal_sample [\<lparr>jt_ID = ''t-1'', jt_Project = ''core'', jt_Status = ''open''\<rparr>] ''core'' [''complete-mailbox''] []
      [sample_record ''e1'' ''a1'' ''claim'' ''t-1'', sample_record ''e2'' ''a2'' ''claim'' ''t-1'', sample_record ''e3'' ''a0'' ''dismissal'' ''e1''])).
    ji_ID x = ''e2'' \<and> ji_Action x = ''preserve''"
proof -
  let ?t = "\<lparr>jt_ID = ''t-1'', jt_Project = ''core'', jt_Status = ''open''\<rparr>" and ?cs = "[''complete-mailbox'']"
  let ?files = "[sample_record ''e1'' ''a1'' ''claim'' ''t-1'', sample_record ''e2'' ''a2'' ''claim'' ''t-1'', sample_record ''e3'' ''a0'' ''dismissal'' ''e1'']"
  let ?e1 = "mark_dismissed True (sample_event ''e1'' ''a1'' ''claim'' ''t-1'')" and ?e2 = "mark_dismissed False (sample_event ''e2'' ''a2'' ''claim'' ''t-1'')"
  let ?events = "[mark_dismissed False (sample_event ''e3'' ''a0'' ''dismissal'' ''e1''), ?e2, ?e1]"
  let ?x = "plan_item journal_sample (set (normalizeClasses ?cs)) (project_tasks ''core'' [?t]) ?events ?files ?e2"
  have log: "ListReport (jn_Checksum journal_sample) all_events [] ?files = (?events, [])"
    by (simp add: sample_log del: list_loop.simps(2))
  have "?e2 \<in> set (scoped_events (project_tasks ''core'' [?t]) ?events)"
    by (rule scoped_mail) (simp_all add: mailbox_def isJournal_def has_prefix_def)
  then have mem: "?x \<in> set (jp_Items (PlanJournal journal_sample [?t] ''core'' ?cs [] ?files))"
    unfolding plan_items [OF log] by blast
  have x: "ji_ID ?x = ee_ID ?e2" by (simp only: plan_item_shape [OF refl])
  have "ji_Action ?x = ''preserve''"
    using contested_after_dismissal [OF log, of ?e2 ?e1 ?x "[?t]" "''core''" ?cs] mem x
    by (simp add: mailbox_def competing_def isJournal_def has_prefix_def)
  with mem x show ?thesis by auto
qed

theorem archive_lossless_witness:
  "\<exists>x E F s done. ji_Action x = ''archive'' \<and> renames_work F
     \<and> archive_items id ''events'' ''events-archive'' E 0 [x, x\<lparr>ji_LogicalPath := ''b.md''\<rparr>] [(''events/a.md'', Some ''one''), (''events/b.md'', Some ''one'')]
         = (Some ArchiveFailed, s)
     \<and> archive_items id ''events'' ''events-archive'' F 0 [x, x\<lparr>ji_LogicalPath := ''b.md''\<rparr>] s = (None, done)
     \<and> gget done ''events-archive/a.md'' = Some (Some ''one'') \<and> gget done ''events/a.md'' = None \<and> gget s ''events-archive/b.md'' = None"
proof -
  define x where "x = \<lparr>ji_ID = ''e1'', ji_Kind = ''run'', ji_Actor = ''a1'', ji_About = ''t-1'', ji_LogicalPath = ''a.md'',
    ji_Classification = ''complete-journal'', ji_Action = ''archive'', ji_Bytes = 3, ji_Hash = ''one''\<rparr>"
  let ?items = "[x, x\<lparr>ji_LogicalPath := ''b.md''\<rparr>]" and ?files = "[(''events/a.md'', Some ''one''), (''events/b.md'', Some ''one'')]"
  define F where "F n = \<lparr>tn_IO = working_ops, tn_Date = [], tn_ID = [], tn_Created = [], tn_Rename = True\<rparr>" for n :: nat
  define E where "E n = (F n)\<lparr>tn_Rename := n = 0\<rparr>" for n
  have paths: "path_join ''events'' ''a.md'' = ''events/a.md''" "path_join ''events'' ''b.md'' = ''events/b.md''"
    "path_join ''events-archive'' ''a.md'' = ''events-archive/a.md''" "path_join ''events-archive'' ''b.md'' = ''events-archive/b.md''"
    by code_simp+
  let ?s = "[(''events/b.md'', Some ''one''), (''events-archive/a.md'', Some ''one'')]"
  let ?done = "[(''events-archive/a.md'', Some ''one''), (''events-archive/b.md'', Some ''one'')]"
  have stopped: "archive_items id ''events'' ''events-archive'' E 0 ?items ?files = (Some ArchiveFailed, ?s)"
    and whole: "archive_items id ''events'' ''events-archive'' F 0 ?items ?files = (None, ?done)"
    by (simp_all add: E_def F_def x_def paths Let_def gget_def gput_def)
  have "apart ''events'' ''events-archive'' ?items" by (simp add: apart_def x_def paths)
  moreover have "renames_work F" by (simp add: renames_work_def F_def)
  ultimately have "archive_items id ''events'' ''events-archive'' F 0 ?items ?s = (None, ?done)"
    using archive_lossless [OF stopped] whole by blast
  with stopped \<open>renames_work F\<close> show ?thesis by (intro exI [of _ x] exI [of _ E] exI [of _ F] exI [of _ ?s] exI [of _ ?done]) (simp add: x_def gget_def)
qed


end
