(* ===== verification/Critical_Path.thy ===== *)
theory Critical_Path
  imports Complex_Main Prelude
begin

text \<open>
  The scheduler of a project (\<^verbatim>\<open>internal/spm/criticalpath.go\<close>): Kahn's algorithm over the dependency
  graph, the forward and the backward pass of the critical path method with its four kinds of
  dependency, slack, the critical path and the scheduling hint. A \<^verbatim>\<open>float64\<close> is a rational, and the
  rounding of a sum or difference to the nearest float is a parameter \<open>rnd\<close>: the theorems say what they
  need of it, monotonicity or exactness on a grid that contains the durations. Infinities and NaN are
  left out. The theorems are that the sort ends, that it succeeds on exactly the acyclic graphs, that
  the early schedule is the least one that obeys every dependency, and the late one the greatest that
  still meets the end of the project.
\<close>

section \<open>Data\<close>

record node =
  nd_ID :: string
  nd_Duration :: rat

record edge =
  eg_From :: string
  eg_To :: string
  eg_Type :: string

record schedule =
  sd_ID :: string
  sd_Duration :: rat
  sd_EarlyStart :: rat
  sd_EarlyFinish :: rat
  sd_LateStart :: rat
  sd_LateFinish :: rat
  sd_Slack :: rat
  sd_Critical :: bool

record network =
  nw_Duration :: rat
  nw_Schedules :: "schedule gmap"
  nw_CriticalPath :: "string list"

datatype cpm_error = DuplicateTask string | NegativeDuration string | UnknownTask string | DependencyCycle
  | UnknownType string

type_synonym rounding = "rat \<Rightarrow> rat"

definition eps :: rat where
  "eps = 1 / 10 ^ 9"

text \<open>A map of numbers: a missing key reads as zero.\<close>

definition gzero :: "'v::zero gmap \<Rightarrow> string \<Rightarrow> 'v" where
  "gzero m k = (case gget m k of None \<Rightarrow> 0 | Some v \<Rightarrow> v)"

lemma gzero_Nil [simp]: "gzero [] k = 0"
  by (simp add: gzero_def)

lemma gzero_gput [simp]: "gzero (gput k v m) k' = (if k' = k then v else gzero m k')"
  by (simp add: gzero_def)

section \<open>Kahn's algorithm\<close>

text \<open>The loop over the edges that leave a node: what becomes of the in-degrees and of the frontier.\<close>

fun release :: "edge list \<Rightarrow> int gmap \<Rightarrow> string list \<Rightarrow> int gmap \<times> string list" where
  "release [] indeg ready = (indeg, ready)"
| "release (e # es) indeg ready =
     (let k = gzero indeg (eg_To e) - 1 in
      release es (gput (eg_To e) k indeg) (if k = 0 then ready @ [eg_To e] else ready))"

text \<open>\<^verbatim>\<open>heap.Pop\<close> of \<^verbatim>\<open>posHeap\<close> takes the identifier with the least position.\<close>

definition heap_min :: "int gmap \<Rightarrow> string list \<Rightarrow> string" where
  "heap_min pos ready = hd (sort_key (gzero pos) ready)"

lemma heap_min_in: "ready \<noteq> [] \<Longrightarrow> heap_min pos ready \<in> set ready"
  unfolding heap_min_def by (metis hd_in_set set_sort sort_Nil_iff)

text \<open>Every turn takes one node out of the frontier, and a node enters it only when its in-degree leaves
  the positive numbers: this is why the sort ends, whatever the graph.\<close>

definition open_nodes :: "int gmap \<Rightarrow> nat" where
  "open_nodes indeg = length (filter (\<lambda>x. 0 < snd x) indeg)"

lemma open_nodes_gput:
  "open_nodes (gput k (gzero m k - 1) m) + (if gzero m k = 1 then 1 else 0) \<le> open_nodes m"
  unfolding gzero_def gget_def gput_def open_nodes_def by (induction m) (auto split: option.splits)

lemma release_measure:
  "release es indeg ready = (indeg', ready') \<Longrightarrow> open_nodes indeg' + length ready' \<le> open_nodes indeg + length ready"
proof (induction es arbitrary: indeg ready)
  case (Cons e es)
  let ?k = "gzero indeg (eg_To e) - 1"
  have "open_nodes indeg' + length ready' \<le> open_nodes (gput (eg_To e) ?k indeg)
      + length (if ?k = 0 then ready @ [eg_To e] else ready)"
    using Cons by (simp add: Let_def)
  also have "\<dots> \<le> open_nodes indeg + length ready" using open_nodes_gput [of "eg_To e" indeg] by (auto split: if_splits)
  finally show ?case .
qed simp

function kahn_loop :: "int gmap \<Rightarrow> edge list gmap \<Rightarrow> int gmap \<Rightarrow> string list \<Rightarrow> string list \<Rightarrow> string list" where
  "kahn_loop pos outs indeg ready topo =
     (if ready = [] then topo
      else let i = heap_min pos ready; (indeg', ready') = release (gslice outs i) indeg (remove1 i ready) in
        kahn_loop pos outs indeg' ready' (topo @ [i]))"
  by pat_completeness auto

termination
proof (relation "measure (\<lambda>(pos, outs, indeg, ready, topo). open_nodes indeg + length ready)")
  fix pos indeg :: "int gmap" and outs ready topo i p indeg' ready'
  assume "ready \<noteq> []" "i = heap_min pos ready" "p = release (gslice outs i) indeg (remove1 i ready)" "(indeg', ready') = p"
  then have "open_nodes indeg' + length ready' \<le> open_nodes indeg + length (remove1 i ready)" "i \<in> set ready"
    using release_measure heap_min_in by metis+
  moreover from \<open>i \<in> set ready\<close> have "length (remove1 i ready) < length ready"
    by (simp add: length_remove1) (cases ready, simp_all)
  ultimately show "((pos, outs, indeg', ready', topo @ [i]), pos, outs, indeg, ready, topo)
      \<in> measure (\<lambda>(pos, outs, indeg, ready, topo). open_nodes indeg + length ready)" by simp
qed simp

declare kahn_loop.simps [simp del]

fun positions :: "int \<Rightarrow> string list \<Rightarrow> int gmap \<Rightarrow> int gmap" where
  "positions n [] pos = pos"
| "positions n (i # is) pos = positions (n + 1) is (gput i n pos)"

definition kahn :: "string list \<Rightarrow> edge list gmap \<Rightarrow> int gmap \<Rightarrow> string list option" where
  "kahn order outs indeg =
     (let topo = kahn_loop (positions 0 order []) outs indeg (filter (\<lambda>i. gzero indeg i = 0) order) [] in
      if length topo \<noteq> length order then None else Some topo)"

section \<open>The two passes\<close>

fun node_pass :: "rat gmap \<Rightarrow> string list \<Rightarrow> node list \<Rightarrow> cpm_error + (rat gmap \<times> string list)" where
  "node_pass dur order [] = Inr (dur, order)"
| "node_pass dur order (n # ns) =
     (if gget dur (nd_ID n) \<noteq> None then Inl (DuplicateTask (nd_ID n))
      else if nd_Duration n < 0 then Inl (NegativeDuration (nd_ID n))
      else node_pass (gput (nd_ID n) (nd_Duration n) dur) (order @ [nd_ID n]) ns)"

fun edge_pass ::
    "rat gmap \<Rightarrow> edge list gmap \<Rightarrow> edge list gmap \<Rightarrow> int gmap \<Rightarrow> edge list
       \<Rightarrow> cpm_error + (edge list gmap \<times> edge list gmap \<times> int gmap)" where
  "edge_pass dur ins outs indeg [] = Inr (ins, outs, indeg)"
| "edge_pass dur ins outs indeg (e # es) =
     (if gget dur (eg_From e) = None then Inl (UnknownTask (eg_From e))
      else if gget dur (eg_To e) = None then Inl (UnknownTask (eg_To e))
      else let f = (if eg_Type e = [] then e\<lparr>eg_Type := ''FS''\<rparr> else e) in
        edge_pass dur (gput (eg_To e) (gslice ins (eg_To e) @ [f]) ins)
          (gput (eg_From e) (gslice outs (eg_From e) @ [f]) outs)
          (gput (eg_To e) (gzero indeg (eg_To e) + 1) indeg) es)"

text \<open>The bound that an edge into a node of duration \<open>d\<close> puts on its start.\<close>

definition early_bound :: "rounding \<Rightarrow> (string \<Rightarrow> rat) \<Rightarrow> (string \<Rightarrow> rat) \<Rightarrow> rat \<Rightarrow> edge \<Rightarrow> rat option" where
  "early_bound rnd es ef d e =
     (if eg_Type e = ''FS'' then Some (ef (eg_From e))
      else if eg_Type e = ''SS'' then Some (es (eg_From e))
      else if eg_Type e = ''FF'' then Some (rnd (ef (eg_From e) - d))
      else if eg_Type e = ''SF'' then Some (rnd (es (eg_From e) - d))
      else None)"

fun early_start :: "rounding \<Rightarrow> (string \<Rightarrow> rat) \<Rightarrow> (string \<Rightarrow> rat) \<Rightarrow> rat \<Rightarrow> rat \<Rightarrow> edge list \<Rightarrow> cpm_error + rat" where
  "early_start rnd es ef d start [] = Inr start"
| "early_start rnd es ef d start (e # rest) =
     (case early_bound rnd es ef d e of
        None \<Rightarrow> Inl (UnknownType (eg_Type e))
      | Some b \<Rightarrow> early_start rnd es ef d (max start b) rest)"

fun forward ::
    "rounding \<Rightarrow> rat gmap \<Rightarrow> edge list gmap \<Rightarrow> rat gmap \<Rightarrow> rat gmap \<Rightarrow> string list \<Rightarrow> cpm_error + (rat gmap \<times> rat gmap)" where
  "forward rnd dur ins es ef [] = Inr (es, ef)"
| "forward rnd dur ins es ef (i # is) =
     (case early_start rnd (gzero es) (gzero ef) (gzero dur i) 0 (gslice ins i) of
        Inl x \<Rightarrow> Inl x
      | Inr start \<Rightarrow> forward rnd dur ins (gput i start es) (gput i (rnd (start + gzero dur i)) ef) is)"

definition late_bound :: "rounding \<Rightarrow> (string \<Rightarrow> rat) \<Rightarrow> (string \<Rightarrow> rat) \<Rightarrow> rat \<Rightarrow> edge \<Rightarrow> rat" where
  "late_bound rnd ls lf d e =
     (if eg_Type e = ''FS'' then ls (eg_To e)
      else if eg_Type e = ''SS'' then rnd (ls (eg_To e) + d)
      else if eg_Type e = ''FF'' then lf (eg_To e)
      else if eg_Type e = ''SF'' then rnd (lf (eg_To e) + d)
      else 0)"

definition late_finish :: "rounding \<Rightarrow> (string \<Rightarrow> rat) \<Rightarrow> (string \<Rightarrow> rat) \<Rightarrow> rat \<Rightarrow> rat \<Rightarrow> edge list \<Rightarrow> rat" where
  "late_finish rnd ls lf d project es = foldl (\<lambda>finish e. min finish (late_bound rnd ls lf d e)) project es"

fun backward ::
    "rounding \<Rightarrow> rat gmap \<Rightarrow> edge list gmap \<Rightarrow> rat \<Rightarrow> rat gmap \<Rightarrow> rat gmap \<Rightarrow> string list \<Rightarrow> rat gmap \<times> rat gmap" where
  "backward rnd dur outs project ls lf [] = (ls, lf)"
| "backward rnd dur outs project ls lf (i # is) =
     (let finish = late_finish rnd (gzero ls) (gzero lf) (gzero dur i) project (gslice outs i) in
      backward rnd dur outs project (gput i (rnd (finish - gzero dur i)) ls) (gput i finish lf) is)"

definition schedule_of :: "rounding \<Rightarrow> rat \<Rightarrow> rat \<Rightarrow> rat \<Rightarrow> rat \<Rightarrow> rat \<Rightarrow> string \<Rightarrow> schedule" where
  "schedule_of rnd d es ef ls lf i =
     (let slack = rnd (ls - es); slack' = (if \<bar>slack\<bar> < eps then 0 else slack) in
      \<lparr>sd_ID = i, sd_Duration = d, sd_EarlyStart = es, sd_EarlyFinish = ef, sd_LateStart = ls, sd_LateFinish = lf,
       sd_Slack = slack', sd_Critical = (slack' = 0)\<rparr>)"

definition ComputeCPM :: "rounding \<Rightarrow> node list \<Rightarrow> edge list \<Rightarrow> cpm_error + network" where
  "ComputeCPM rnd nodes edges =
     (case node_pass [] [] nodes of
        Inl x \<Rightarrow> Inl x
      | Inr (dur, order) \<Rightarrow>
     (case edge_pass dur [] [] (foldl (\<lambda>m i. gput i 0 m) [] order) edges of
        Inl x \<Rightarrow> Inl x
      | Inr (ins, outs, indeg) \<Rightarrow>
     (case kahn order outs indeg of
        None \<Rightarrow> Inl DependencyCycle
      | Some topo \<Rightarrow>
     (case forward rnd dur ins [] [] topo of
        Inl x \<Rightarrow> Inl x
      | Inr (es, ef) \<Rightarrow>
          let project = foldl (\<lambda>p i. max p (gzero ef i)) 0 topo;
              (ls, lf) = backward rnd dur outs project [] [] (rev topo);
              sched = (\<lambda>i. schedule_of rnd (gzero dur i) (gzero es i) (gzero ef i) (gzero ls i) (gzero lf i) i) in
          Inr \<lparr>nw_Duration = project, nw_Schedules = foldl (\<lambda>m i. gput i (sched i) m) [] topo,
               nw_CriticalPath = filter (\<lambda>i. sd_Critical (sched i)) topo\<rparr>))))"

definition Parallelizable :: "network \<Rightarrow> string set \<Rightarrow> int \<Rightarrow> string list" where
  "Parallelizable net finished n =
     (let cs = sort_key (\<lambda>c. (snd c, fst c))
            (map (\<lambda>(i, s). (i, sd_Slack s)) (filter (\<lambda>(i, s). i \<notin> finished) (nw_Schedules net))) in
      map fst (if 0 < n \<and> n < int (length cs) then take (nat n) cs else cs))"

section \<open>The graph\<close>

definition typed :: "edge \<Rightarrow> edge" where
  "typed e = (if eg_Type e = [] then e\<lparr>eg_Type := ''FS''\<rparr> else e)"

lemma typed_ends [simp]: "eg_From (typed e) = eg_From e" "eg_To (typed e) = eg_To e"
  by (simp_all add: typed_def)

definition arcs :: "edge list \<Rightarrow> (string \<times> string) set" where
  "arcs es = {(eg_From e, eg_To e) | e. e \<in> set es}"

lemma finite_arcs: "finite (arcs es)"
proof -
  have "arcs es = (\<lambda>e. (eg_From e, eg_To e)) ` set es" by (auto simp: arcs_def)
  then show ?thesis by simp
qed

text \<open>What the first two loops build.\<close>

lemma node_pass_spec:
  "node_pass dur order ns = Inr (dur', order') \<longleftrightarrow>
     distinct (map nd_ID ns) \<and> (\<forall>n \<in> set ns. gget dur (nd_ID n) = None \<and> 0 \<le> nd_Duration n)
     \<and> dur' = foldl (\<lambda>m n. gput (nd_ID n) (nd_Duration n) m) dur ns \<and> order' = order @ map nd_ID ns"
proof (induction ns arbitrary: dur order)
  case (Cons n ns)
  have "(\<forall>x \<in> set ns. gget (gput (nd_ID n) (nd_Duration n) dur) (nd_ID x) = None)
      \<longleftrightarrow> nd_ID n \<notin> nd_ID ` set ns \<and> (\<forall>x \<in> set ns. gget dur (nd_ID x) = None)"
    by (auto simp: image_iff)
  with Cons.IH show ?case by (auto simp del: gget_gput)
qed auto

lemma gget_puts:
  "distinct (map nd_ID ns) \<Longrightarrow> gget (foldl (\<lambda>m n. gput (nd_ID n) (nd_Duration n) m) dur ns) k =
     (case map_of (map (\<lambda>n. (nd_ID n, nd_Duration n)) ns) k of None \<Rightarrow> gget dur k | Some d \<Rightarrow> Some d)"
proof (induction ns arbitrary: dur)
  case (Cons n ns)
  then have "map_of (map (\<lambda>n. (nd_ID n, nd_Duration n)) ns) (nd_ID n) = None" by (simp add: map_of_eq_None_iff image_image)
  with Cons show ?case by (auto split: option.split)
qed simp

lemma edge_pass_spec:
  "edge_pass dur ins outs indeg es = Inr (ins', outs', indeg') \<Longrightarrow>
     (\<forall>e \<in> set es. gget dur (eg_From e) \<noteq> None \<and> gget dur (eg_To e) \<noteq> None)
     \<and> gslice ins' i = gslice ins i @ filter (\<lambda>e. eg_To e = i) (map typed es)
     \<and> gslice outs' i = gslice outs i @ filter (\<lambda>e. eg_From e = i) (map typed es)
     \<and> gzero indeg' i = gzero indeg i + int (length (filter (\<lambda>e. eg_To e = i) es))"
proof (induction es arbitrary: ins outs indeg)
  case (Cons e es)
  then show ?case by (auto simp: Let_def typed_def split: if_splits)
qed simp

lemma edge_pass_Inr:
  "(\<exists>r. edge_pass dur ins outs indeg es = Inr r) \<longleftrightarrow>
     (\<forall>e \<in> set es. gget dur (eg_From e) \<noteq> None \<and> gget dur (eg_To e) \<noteq> None)"
  by (induction es arbitrary: ins outs indeg) (auto simp: Let_def)

section \<open>The sort is topological\<close>

definition count_into :: "edge list \<Rightarrow> string \<Rightarrow> int" where
  "count_into es v = int (length (filter (\<lambda>e. eg_To e = v) es))"

lemma count_into_simps [simp]: "count_into [] v = 0"
  "count_into (e # es) v = (if eg_To e = v then 1 else 0) + count_into es v"
  "0 \<le> count_into es v" "count_into (es @ fs) v = count_into es v + count_into fs v"
  by (simp_all add: count_into_def)

lemma count_into_pos: "0 < count_into es v \<longleftrightarrow> (\<exists>e \<in> set es. eg_To e = v)"
  by (auto simp: count_into_def filter_empty_conv)

lemma release_spec:
  assumes "\<forall>v. count_into es v \<le> gzero indeg v"
  shows "\<exists>indeg' new. release es indeg ready = (indeg', ready @ new) \<and> (\<forall>v. gzero indeg' v = gzero indeg v - count_into es v)
     \<and> distinct new \<and> set new = {v. 0 < count_into es v \<and> gzero indeg v = count_into es v}"
  using assms
proof (induction es arbitrary: indeg ready)
  case (Cons e es)
  let ?k = "gzero indeg (eg_To e) - 1" and ?t = "eg_To e"
  have "count_into es v \<le> gzero (gput ?t ?k indeg) v" for v
    using Cons.prems [rule_format, of v] by (simp split: if_splits)
  then have "\<forall>v. count_into es v \<le> gzero (gput ?t ?k indeg) v" ..
  from Cons.IH [OF this, of "if ?k = 0 then ready @ [?t] else ready"] obtain indeg' new where
    r: "release es (gput ?t ?k indeg) (if ?k = 0 then ready @ [?t] else ready) = (indeg', (if ?k = 0 then ready @ [?t] else ready) @ new)"
    and i: "\<forall>v. gzero indeg' v = gzero (gput ?t ?k indeg) v - count_into es v" and n: "distinct new"
      "set new = {v. 0 < count_into es v \<and> gzero (gput ?t ?k indeg) v = count_into es v}" by blast
  have "count_into (e # es) ?t \<le> gzero indeg ?t" using Cons.prems by blast
  then have "count_into es ?t \<le> ?k" by simp
  then have t: "?t \<notin> set new" if "?k = 0" using that n(2) by simp
  let ?new = "if ?k = 0 then ?t # new else new"
  have "release (e # es) indeg ready = (indeg', ready @ ?new)" using r by (simp add: Let_def)
  moreover have "\<forall>v. gzero indeg' v = gzero indeg v - count_into (e # es) v" using i by simp
  moreover have "distinct ?new" using n(1) t by simp
  moreover have "set ?new = {v. 0 < count_into (e # es) v \<and> gzero indeg v = count_into (e # es) v}"
  proof (intro set_eqI)
    fix v
    have "count_into es ?t = 0 \<or> 0 < count_into es ?t" using count_into_simps(3) [of es ?t] by linarith
    then show "v \<in> set ?new \<longleftrightarrow> v \<in> {v. 0 < count_into (e # es) v \<and> gzero indeg v = count_into (e # es) v}"
      using n(2) \<open>count_into es ?t \<le> ?k\<close> by (cases "v = ?t") auto
  qed
  ultimately show ?case by blast
qed (auto intro!: exI [of _ "[]"])

text \<open>The invariant of the loop: the in-degree of a node counts its edges from nodes that are not sorted
  yet, and the sorted nodes and the frontier are the nodes without such edges.\<close>

definition kahn_inv :: "string list \<Rightarrow> edge list \<Rightarrow> int gmap \<Rightarrow> string list \<Rightarrow> string list \<Rightarrow> bool" where
  "kahn_inv order es indeg ready topo \<longleftrightarrow>
     distinct (topo @ ready)
     \<and> (\<forall>v. gzero indeg v = count_into (filter (\<lambda>e. eg_From e \<notin> set topo) es) v)
     \<and> set (topo @ ready) = {v \<in> set order. gzero indeg v = 0}
     \<and> sorted_wrt (\<lambda>u v. (v, u) \<notin> arcs es) topo
     \<and> (\<forall>v \<in> set topo. (v, v) \<notin> arcs es \<and> (\<forall>u. (u, v) \<in> arcs es \<longrightarrow> u \<in> set topo))"

lemma count_into_split:
  "count_into (filter (\<lambda>e. eg_From e \<notin> S) es) v = count_into (filter (\<lambda>e. eg_From e \<notin> insert i S) es) v
     + (if i \<in> S then 0 else count_into (filter (\<lambda>e. eg_From e = i) es) v)"
  by (induction es) auto

lemma kahn_inv_step:
  assumes inv: "kahn_inv order es indeg ready topo" and ne: "ready \<noteq> []"
    and i: "i \<in> set ready" and o: "out = filter (\<lambda>e. eg_From e = i) (map typed es)" and to: "eg_To ` set es \<subseteq> set order"
    and r: "release out indeg (remove1 i ready) = (indeg', ready')"
  shows "kahn_inv order es indeg' ready' (topo @ [i])"
proof -
  let ?o = "filter (\<lambda>e. eg_From e = i) es"
  have oc: "count_into out v = count_into ?o v" for v unfolding o by (induction es) auto
  have d: "distinct (topo @ ready)" "i \<notin> set topo" using inv i by (auto simp: kahn_inv_def)
  have deg: "gzero indeg v = count_into (filter (\<lambda>e. eg_From e \<notin> insert i (set topo)) es) v + count_into ?o v" for v
    using inv count_into_split [of "set topo" es v i] d(2) by (simp add: kahn_inv_def)
  then have "\<forall>v. count_into out v \<le> gzero indeg v" using oc by simp
  from release_spec [OF this, of "remove1 i ready"] r obtain new where
    new: "ready' = remove1 i ready @ new" "\<forall>v. gzero indeg' v = gzero indeg v - count_into out v" "distinct new"
      "set new = {v. 0 < count_into out v \<and> gzero indeg v = count_into out v}" by auto
  have z: "gzero indeg i = 0" using inv i by (auto simp: kahn_inv_def)
  have deg': "gzero indeg' v = count_into (filter (\<lambda>e. eg_From e \<notin> set (topo @ [i])) es) v" for v
    using new(2) deg [of v] oc by simp
  have fresh: "v \<in> set order" "v \<notin> set topo" "v \<notin> set ready" if v: "v \<in> set new" for v
  proof -
    from v have "0 < count_into ?o v" "gzero indeg v \<noteq> 0" using new(4) oc by auto
    then show "v \<in> set order" "v \<notin> set topo" "v \<notin> set ready"
      using to inv unfolding count_into_pos by (auto simp: kahn_inv_def)
  qed
  have rm: "set (remove1 i ready) = set ready - {i}" using d(1) by (simp add: set_remove1_eq)
  have "distinct ((topo @ [i]) @ ready')" using d i new(1,3) fresh rm by (auto simp: distinct_remove1)
  moreover have "set ((topo @ [i]) @ ready') = {v \<in> set order. gzero indeg' v = 0}"
  proof (intro set_eqI)
    fix v
    have c: "0 \<le> count_into out v" "count_into out v \<le> gzero indeg v"
      using \<open>\<forall>v. count_into out v \<le> gzero indeg v\<close> by simp_all
    have "v \<in> set ((topo @ [i]) @ ready') \<longleftrightarrow> v \<in> set (topo @ ready) \<or> v \<in> set new" using i new(1) rm by auto
    also have "\<dots> \<longleftrightarrow> v \<in> set order \<and> (gzero indeg v = 0 \<or> 0 < count_into out v \<and> gzero indeg v = count_into out v)"
      using inv fresh(1) new(4) unfolding kahn_inv_def by blast
    also have "\<dots> \<longleftrightarrow> v \<in> set order \<and> gzero indeg' v = 0" proof -
      have "count_into out v = 0 \<or> 0 < count_into out v" using count_into_simps(3) [of out v] by linarith
      with c(2) new(2) show ?thesis by (elim disjE) auto
    qed
    finally show "v \<in> set ((topo @ [i]) @ ready') \<longleftrightarrow> v \<in> {v \<in> set order. gzero indeg' v = 0}" by simp
  qed
  moreover have pred: "u \<in> set topo" if "(u, i) \<in> arcs es" for u
  proof (rule ccontr)
    assume "u \<notin> set topo"
    with that have "0 < count_into (filter (\<lambda>e. eg_From e \<notin> set topo) es) i" by (auto simp: arcs_def count_into_pos)
    with z inv show False by (simp add: kahn_inv_def)
  qed
  moreover have "sorted_wrt (\<lambda>u v. (v, u) \<notin> arcs es) (topo @ [i])"
    using inv d(2) by (auto simp: kahn_inv_def sorted_wrt_append)
  ultimately show ?thesis using inv deg' by (auto simp: kahn_inv_def)
qed

lemma kahn_loop_inv:
  assumes "kahn_inv order es indeg ready topo" "\<forall>i. gslice outs i = filter (\<lambda>e. eg_From e = i) (map typed es)"
    "eg_To ` set es \<subseteq> set order"
  shows "\<exists>indeg'. kahn_inv order es indeg' [] (kahn_loop pos outs indeg ready topo)"
  using assms
proof (induction pos outs indeg ready topo rule: kahn_loop.induct)
  case (1 pos outs indeg ready topo)
  show ?case
  proof (cases "ready = []")
    case False
    obtain indeg' ready' where r: "release (gslice outs (heap_min pos ready)) indeg (remove1 (heap_min pos ready) ready) = (indeg', ready')"
      by (cases "release (gslice outs (heap_min pos ready)) indeg (remove1 (heap_min pos ready) ready)")
    have "kahn_inv order es indeg' ready' (topo @ [heap_min pos ready])"
      using kahn_inv_step [OF 1(2) False heap_min_in [OF False] 1(3) [rule_format] 1(4) r] .
    from 1(1) [OF False refl r [symmetric] refl this 1(3,4)] False r show ?thesis
      by (subst kahn_loop.simps) (simp add: Let_def)
  qed (use 1 in \<open>auto simp: kahn_loop.simps\<close>)
qed

lemma sorted_acyclic:
  assumes "sorted_wrt (\<lambda>u v. (v, u) \<notin> r) xs" "distinct xs" "r \<subseteq> set xs \<times> set xs" "\<forall>v. (v, v) \<notin> r"
  shows "acyclic r"
  using assms
proof (induction xs arbitrary: r)
  case (Cons x xs)
  let ?r = "{(u, v) \<in> r. u \<noteq> x}"
  have "acyclic ?r"
  proof (rule Cons.IH)
    show "?r \<subseteq> set xs \<times> set xs" using Cons.prems(1,3,4) by (auto simp: acyclic_def)
  qed (use Cons.prems in \<open>auto elim: sorted_wrt_mono_rel [rotated]\<close>)
  have no: "(u, x) \<notin> r" for u using Cons.prems by auto
  show ?case
  proof (rule acyclicI, intro allI notI)
    fix v
    assume "(v, v) \<in> r\<^sup>+"
    then have "v \<noteq> x" using no by (metis tranclE)
    have "(u, w) \<in> ?r\<^sup>+" if "(u, w) \<in> r\<^sup>+" "u \<noteq> x" for u w
      using that
    proof (induction rule: trancl_induct)
      case (step y z)
      then have "y \<noteq> x" using no by (metis tranclE)
      with step show ?case by (auto intro: trancl_into_trancl)
    qed auto
    with \<open>(v, v) \<in> r\<^sup>+\<close> \<open>v \<noteq> x\<close> \<open>acyclic ?r\<close> show False by (auto simp: acyclic_def)
  qed
qed (simp add: acyclic_def)

lemma kahn_correct:
  assumes d: "distinct order" and outs: "\<forall>i. gslice outs i = filter (\<lambda>e. eg_From e = i) (map typed es)"
    and deg: "\<forall>v. gzero indeg v = count_into es v" and ends: "eg_From ` set es \<subseteq> set order" "eg_To ` set es \<subseteq> set order"
  shows "case kahn order outs indeg of
       None \<Rightarrow> \<not> acyclic (arcs es)
     | Some topo \<Rightarrow> acyclic (arcs es) \<and> distinct topo \<and> set topo = set order \<and> sorted_wrt (\<lambda>u v. (v, u) \<notin> arcs es) topo"
proof -
  let ?topo = "kahn_loop (positions 0 order []) outs indeg (filter (\<lambda>i. gzero indeg i = 0) order) []"
  have "kahn_inv order es indeg (filter (\<lambda>i. gzero indeg i = 0) order) []"
    using d deg by (auto simp: kahn_inv_def)
  from kahn_loop_inv [OF this outs ends(2), of "positions 0 order []"] obtain indeg' where
    inv: "kahn_inv order es indeg' [] ?topo" by blast
  then have t: "distinct ?topo" "set ?topo \<subseteq> set order" unfolding kahn_inv_def append_Nil2 by blast+
  have sub: "arcs es \<subseteq> set order \<times> set order" using ends by (auto simp: arcs_def)
  show ?thesis
  proof (cases "length ?topo = length order")
    case True
    then have "card (set ?topo) = card (set order)" using t(1) d by (simp only: distinct_card)
    then have s: "set ?topo = set order" using card_subset_eq [OF finite_set t(2)] by simp
    then have irr: "\<forall>v. (v, v) \<notin> arcs es" using inv sub unfolding kahn_inv_def by blast
    have sorted: "sorted_wrt (\<lambda>u v. (v, u) \<notin> arcs es) ?topo" using inv unfolding kahn_inv_def by blast
    have "acyclic (arcs es)"
      by (rule sorted_acyclic [OF sorted t(1) _ irr]) (use sub s in simp)
    with True t(1) s sorted show ?thesis by (simp add: kahn_def Let_def)
  next
    case False
    let ?S = "set order - set ?topo"
    have "?S \<noteq> {}"
    proof
      assume "?S = {}"
      then have "set order = set ?topo" using t(2) by blast
      then have "card (set order) = card (set ?topo)" by (rule arg_cong)
      with False show False by (simp only: distinct_card [OF t(1)] distinct_card [OF d])
    qed
    moreover have "\<exists>u \<in> ?S. (u, v) \<in> arcs es" if "v \<in> ?S" for v
    proof -
      have "gzero indeg' v \<noteq> 0" using that inv unfolding kahn_inv_def append_Nil2 by blast
      then have "0 < count_into (filter (\<lambda>e. eg_From e \<notin> set ?topo) es) v"
        using inv count_into_simps(3) [of "filter (\<lambda>e. eg_From e \<notin> set ?topo) es" v]
        unfolding kahn_inv_def by (metis order.order_iff_strict)
      then show ?thesis using ends by (auto simp: count_into_pos arcs_def)
    qed
    ultimately have "\<not> wf (arcs es)" unfolding wf_eq_minimal by (intro notI, drule_tac x = ?S in spec) blast
    then have "\<not> acyclic (arcs es)" using finite_acyclic_wf finite_arcs by blast
    with False show ?thesis by (simp add: kahn_def Let_def)
  qed
qed

section \<open>The equations of the two passes\<close>

lemma early_start_Inr:
  "early_start rnd es ef d start xs = Inr r \<Longrightarrow>
     start \<le> r \<and> (\<forall>e \<in> set xs. \<exists>b. early_bound rnd es ef d e = Some b \<and> b \<le> r)
     \<and> (r = start \<or> (\<exists>e \<in> set xs. early_bound rnd es ef d e = Some r))"
proof (induction xs arbitrary: start)
  case (Cons e xs)
  then obtain b where b: "early_bound rnd es ef d e = Some b" "early_start rnd es ef d (max start b) xs = Inr r"
    by (auto split: option.splits)
  from Cons.IH [OF b(2)] b(1) show ?case by (auto simp: max_def split: if_splits)
qed simp

lemma early_start_total:
  "(\<exists>r. early_start rnd es ef d start xs = Inr r) \<longleftrightarrow> (\<forall>e \<in> set xs. eg_Type e \<in> {''FS'', ''SS'', ''FF'', ''SF''})"
  by (induction xs arbitrary: start) (auto simp: early_bound_def)

lemma early_start_cong:
  "\<forall>e \<in> set xs. es' (eg_From e) = es (eg_From e) \<and> ef' (eg_From e) = ef (eg_From e) \<Longrightarrow>
     early_start rnd es' ef' d start xs = early_start rnd es ef d start xs"
  by (induction xs arbitrary: start) (auto simp: early_bound_def split: option.split)

lemma late_finish_spec:
  "late_finish rnd ls lf d p xs \<le> p \<and> (\<forall>e \<in> set xs. late_finish rnd ls lf d p xs \<le> late_bound rnd ls lf d e)
   \<and> (late_finish rnd ls lf d p xs = p \<or> (\<exists>e \<in> set xs. late_finish rnd ls lf d p xs = late_bound rnd ls lf d e))"
  unfolding late_finish_def
proof (induction xs arbitrary: p)
  case (Cons e xs)
  show ?case using Cons [of "min p (late_bound rnd ls lf d e)"] by (auto simp: min_def split: if_splits)
qed simp

lemma late_finish_cong:
  "\<forall>e \<in> set xs. ls' (eg_To e) = ls (eg_To e) \<and> lf' (eg_To e) = lf (eg_To e) \<Longrightarrow>
     late_finish rnd ls' lf' d p xs = late_finish rnd ls lf d p xs"
  unfolding late_finish_def by (induction xs arbitrary: p) (auto simp: late_bound_def)

text \<open>A list in which no element depends on itself or on a later one.\<close>

fun settled :: "(string \<Rightarrow> string set) \<Rightarrow> string list \<Rightarrow> bool" where
  "settled deps [] = True"
| "settled deps (x # xs) = (deps x \<inter> set (x # xs) = {} \<and> settled deps xs)"

lemma settled_iff: "settled deps xs \<longleftrightarrow> sorted_wrt (\<lambda>u v. v \<notin> deps u) xs \<and> (\<forall>x \<in> set xs. x \<notin> deps x)"
  by (induction xs) auto

lemma forward_Inr:
  assumes "forward rnd dur ins es ef xs = Inr (es', ef')" "distinct xs" "settled (\<lambda>v. eg_From ` set (gslice ins v)) xs"
  shows "(\<forall>v. v \<notin> set xs \<longrightarrow> gzero es' v = gzero es v \<and> gzero ef' v = gzero ef v)
     \<and> (\<forall>v \<in> set xs. early_start rnd (gzero es') (gzero ef') (gzero dur v) 0 (gslice ins v) = Inr (gzero es' v)
          \<and> gzero ef' v = rnd (gzero es' v + gzero dur v))"
  using assms
proof (induction xs arbitrary: es ef)
  case (Cons x xs)
  from Cons.prems(1) obtain start where
    s: "early_start rnd (gzero es) (gzero ef) (gzero dur x) 0 (gslice ins x) = Inr start"
      "forward rnd dur ins (gput x start es) (gput x (rnd (start + gzero dur x)) ef) xs = Inr (es', ef')"
    by (auto split: sum.splits)
  from Cons.prems have x: "x \<notin> set xs" "distinct xs" "settled (\<lambda>v. eg_From ` set (gslice ins v)) xs"
    "\<forall>e \<in> set (gslice ins x). eg_From e \<notin> set (x # xs)" by auto
  note IH = Cons.IH [OF s(2) x(2,3)]
  have "early_start rnd (gzero es') (gzero ef') (gzero dur x) 0 (gslice ins x) = Inr start"
    using early_start_cong [of "gslice ins x" "gzero es'" "gzero es" "gzero ef'" "gzero ef"] IH x(4) s(1) by auto
  with IH x(1) show ?case by auto
qed simp

lemma forward_total:
  "(\<exists>r. forward rnd dur ins es ef xs = Inr r) \<longleftrightarrow>
     (\<forall>v \<in> set xs. \<forall>e \<in> set (gslice ins v). eg_Type e \<in> {''FS'', ''SS'', ''FF'', ''SF''})"
proof (induction xs arbitrary: es ef)
  case (Cons x xs)
  show ?case
    using Cons.IH early_start_total [of rnd "gzero es" "gzero ef" "gzero dur x" 0 "gslice ins x"]
    by (cases "early_start rnd (gzero es) (gzero ef) (gzero dur x) 0 (gslice ins x)") auto
qed simp

lemma backward_eq:
  assumes "backward rnd dur outs p ls lf xs = (ls', lf')" "distinct xs" "settled (\<lambda>v. eg_To ` set (gslice outs v)) xs"
  shows "(\<forall>v. v \<notin> set xs \<longrightarrow> gzero ls' v = gzero ls v \<and> gzero lf' v = gzero lf v)
     \<and> (\<forall>v \<in> set xs. gzero lf' v = late_finish rnd (gzero ls') (gzero lf') (gzero dur v) p (gslice outs v)
          \<and> gzero ls' v = rnd (gzero lf' v - gzero dur v))"
  using assms
proof (induction xs arbitrary: ls lf)
  case (Cons x xs)
  let ?f = "late_finish rnd (gzero ls) (gzero lf) (gzero dur x) p (gslice outs x)"
  from Cons.prems have s: "backward rnd dur outs p (gput x (rnd (?f - gzero dur x)) ls) (gput x ?f lf) xs = (ls', lf')"
    by (simp add: Let_def)
  from Cons.prems have x: "x \<notin> set xs" "distinct xs" "settled (\<lambda>v. eg_To ` set (gslice outs v)) xs"
    "\<forall>e \<in> set (gslice outs x). eg_To e \<notin> set (x # xs)" by auto
  note IH = Cons.IH [OF s x(2,3)]
  have "late_finish rnd (gzero ls') (gzero lf') (gzero dur x) p (gslice outs x) = ?f"
    using IH x(4) by (intro late_finish_cong) auto
  with IH x(1) show ?case by auto
qed simp

section \<open>What a result is\<close>

definition duration_of :: "node list \<Rightarrow> string \<Rightarrow> rat" where
  "duration_of nodes v = (case map_of (map (\<lambda>n. (nd_ID n, nd_Duration n)) nodes) v of None \<Rightarrow> 0 | Some d \<Rightarrow> d)"

text \<open>The equations that determine the times of the nodes \<open>V\<close> with the edges \<open>E\<close>: early start and finish,
  late start and finish, and the end of the project.\<close>

definition passes ::
    "rounding \<Rightarrow> string set \<Rightarrow> edge set \<Rightarrow> (string \<Rightarrow> rat) \<Rightarrow> rat \<Rightarrow> (string \<Rightarrow> rat) \<Rightarrow> (string \<Rightarrow> rat)
       \<Rightarrow> (string \<Rightarrow> rat) \<Rightarrow> (string \<Rightarrow> rat) \<Rightarrow> bool" where
  "passes rnd V E dur p es ef ls lf \<longleftrightarrow>
     (\<forall>v \<in> V. ef v = rnd (es v + dur v) \<and> 0 \<le> es v
        \<and> (\<forall>e \<in> E. eg_To e = v \<longrightarrow> (\<exists>b. early_bound rnd es ef (dur v) e = Some b \<and> b \<le> es v))
        \<and> (es v = 0 \<or> (\<exists>e \<in> E. eg_To e = v \<and> early_bound rnd es ef (dur v) e = Some (es v))))
     \<and> (\<forall>v \<in> V. ls v = rnd (lf v - dur v) \<and> lf v \<le> p
        \<and> (\<forall>e \<in> E. eg_From e = v \<longrightarrow> lf v \<le> late_bound rnd ls lf (dur v) e)
        \<and> (lf v = p \<or> (\<exists>e \<in> E. eg_From e = v \<and> lf v = late_bound rnd ls lf (dur v) e)))
     \<and> (\<forall>v \<in> V. ef v \<le> p) \<and> 0 \<le> p \<and> (p = 0 \<or> (\<exists>v \<in> V. p = ef v))"

lemma fold_max:
  "(\<forall>x \<in> set xs. (f x :: rat) \<le> foldl (\<lambda>p i. max p (f i)) a xs) \<and> a \<le> foldl (\<lambda>p i. max p (f i)) a xs
   \<and> (foldl (\<lambda>p i. max p (f i)) a xs = a \<or> (\<exists>x \<in> set xs. foldl (\<lambda>p i. max p (f i)) a xs = f x))"
proof (induction xs arbitrary: a)
  case (Cons x xs)
  show ?case using Cons [of "max a (f x)"] by (auto simp: max_def split: if_splits)
qed simp

lemma gget_fold: "distinct xs \<Longrightarrow> gget (foldl (\<lambda>m i. gput i (f i) m) m xs) k = (if k \<in> set xs then Some (f k) else gget m k)"
  by (induction xs arbitrary: m) auto

lemma gget_zeros: "gzero (foldl (\<lambda>m i. gput i 0 m) m xs) k = (if k \<in> set xs then 0 else gzero m k)"
  by (induction xs arbitrary: m) auto

definition known_types :: "edge list \<Rightarrow> bool" where
  "known_types edges \<longleftrightarrow> (\<forall>e \<in> set edges. eg_Type e \<in> {[], ''FS'', ''SS'', ''FF'', ''SF''})"

definition well_posed :: "node list \<Rightarrow> edge list \<Rightarrow> bool" where
  "well_posed nodes edges \<longleftrightarrow> distinct (map nd_ID nodes) \<and> (\<forall>n \<in> set nodes. 0 \<le> nd_Duration n)
     \<and> eg_From ` set edges \<subseteq> nd_ID ` set nodes \<and> eg_To ` set edges \<subseteq> nd_ID ` set nodes"

lemma typed_type: "eg_Type (typed e) \<in> {''FS'', ''SS'', ''FF'', ''SF''} \<longleftrightarrow> eg_Type e \<in> {[], ''FS'', ''SS'', ''FF'', ''SF''}"
  by (auto simp: typed_def)

lemma every_edge:
  "eg_To ` set es \<subseteq> V \<Longrightarrow> (\<forall>v \<in> V. \<forall>e \<in> set (filter (\<lambda>e. eg_To e = v) (map typed es)). K e) = (\<forall>e \<in> set es. K (typed e))"
  by auto

text \<open>The first three loops: they succeed on a well-posed acyclic project, and build its maps.\<close>

lemma first_loops:
  assumes "well_posed nodes edges"
  shows "\<exists>dur ins outs indeg. node_pass [] [] nodes = Inr (dur, map nd_ID nodes)
     \<and> edge_pass dur [] [] (foldl (\<lambda>m i. gput i 0 m) [] (map nd_ID nodes)) edges = Inr (ins, outs, indeg)
     \<and> (\<forall>v. gzero dur v = duration_of nodes v) \<and> (\<forall>v. gslice ins v = filter (\<lambda>e. eg_To e = v) (map typed edges))
     \<and> (\<forall>v. gslice outs v = filter (\<lambda>e. eg_From e = v) (map typed edges))
     \<and> (case kahn (map nd_ID nodes) outs indeg of
          None \<Rightarrow> \<not> acyclic (arcs edges)
        | Some topo \<Rightarrow> acyclic (arcs edges) \<and> distinct topo \<and> set topo = nd_ID ` set nodes
            \<and> sorted_wrt (\<lambda>u v. (v, u) \<notin> arcs edges) topo)"
proof -
  let ?dur = "foldl (\<lambda>m n. gput (nd_ID n) (nd_Duration n) m) [] nodes" and ?z = "foldl (\<lambda>m i. gput i 0 m) [] (map nd_ID nodes)"
  have n: "distinct (map nd_ID nodes)" "\<forall>n \<in> set nodes. 0 \<le> nd_Duration n" using assms by (auto simp: well_posed_def)
  then have np: "node_pass [] [] nodes = Inr (?dur, map nd_ID nodes)" by (simp add: node_pass_spec)
  note dur = gget_puts [OF n(1), of "[]"]
  have "gget ?dur v \<noteq> None" if "v \<in> nd_ID ` set nodes" for v
    using that unfolding dur by (auto split: option.split simp: map_of_eq_None_iff image_image)
  then have "\<forall>e \<in> set edges. gget ?dur (eg_From e) \<noteq> None \<and> gget ?dur (eg_To e) \<noteq> None"
    using assms unfolding well_posed_def by blast
  then have "\<exists>r. edge_pass ?dur [] [] ?z edges = Inr r" by (simp only: edge_pass_Inr)
  then obtain ins outs indeg where ep: "edge_pass ?dur [] [] ?z edges = Inr (ins, outs, indeg)" by (metis prod_cases3)
  have s: "gslice ins v = filter (\<lambda>e. eg_To e = v) (map typed edges)"
    "gslice outs v = filter (\<lambda>e. eg_From e = v) (map typed edges)" "gzero indeg v = count_into edges v" for v
    using edge_pass_spec [OF ep, of v] by (simp_all add: gslice_def gget_zeros count_into_def)
  have "gzero ?dur v = duration_of nodes v" for v
    unfolding gzero_def dur duration_of_def by (simp split: option.split)
  moreover have "eg_From ` set edges \<subseteq> set (map nd_ID nodes)" "eg_To ` set edges \<subseteq> set (map nd_ID nodes)"
    using assms by (simp_all add: well_posed_def)
  from kahn_correct [OF n(1) _ _ this, of outs indeg] s
  have "case kahn (map nd_ID nodes) outs indeg of
       None \<Rightarrow> \<not> acyclic (arcs edges)
     | Some topo \<Rightarrow> acyclic (arcs edges) \<and> distinct topo \<and> set topo = nd_ID ` set nodes
         \<and> sorted_wrt (\<lambda>u v. (v, u) \<notin> arcs edges) topo"
    by (simp split: option.splits)
  ultimately show ?thesis using np ep s(1,2) by blast
qed

lemma loops_well_posed:
  assumes n: "node_pass [] [] nodes = Inr (dur, order)" and e: "edge_pass dur [] [] z edges = Inr x"
  shows "well_posed nodes edges"
proof -
  have spec: "distinct (map nd_ID nodes)" "\<forall>n \<in> set nodes. 0 \<le> nd_Duration n"
    "dur = foldl (\<lambda>m n. gput (nd_ID n) (nd_Duration n) m) [] nodes"
    using n unfolding node_pass_spec by auto
  have "gget dur v = None" if "v \<notin> nd_ID ` set nodes" for v
    using that unfolding spec(3) gget_puts [OF spec(1)] by (auto split: option.split simp: map_of_eq_None_iff image_image)
  with e spec(1,2) show ?thesis
    using edge_pass_Inr [of dur "[]" "[]" z edges] unfolding well_posed_def by blast
qed

lemma node_pass_no_cycle: "node_pass dur order ns \<noteq> Inl DependencyCycle"
  by (induction ns arbitrary: dur order) auto

lemma edge_pass_no_cycle: "edge_pass dur ins outs indeg es \<noteq> Inl DependencyCycle"
  by (induction es arbitrary: ins outs indeg) (auto simp: Let_def)

lemma ComputeCPM_well_posed:
  assumes "ComputeCPM rnd nodes edges = Inr net \<or> ComputeCPM rnd nodes edges = Inl DependencyCycle"
  shows "well_posed nodes edges"
  using assms node_pass_no_cycle [of "[]" "[]" nodes] edge_pass_no_cycle loops_well_posed
  unfolding ComputeCPM_def by (auto split: sum.splits prod.splits)

text \<open>A project is scheduled exactly when it can be.\<close>

lemma ComputeCPM_Inr:
  assumes "ComputeCPM rnd nodes edges = Inr net"
  obtains es ef ls lf where
    "well_posed nodes edges" "acyclic (arcs edges)"
    "passes rnd (nd_ID ` set nodes) (typed ` set edges) (duration_of nodes) (nw_Duration net) es ef ls lf"
    "\<And>v. gget (nw_Schedules net) v = (if v \<in> nd_ID ` set nodes
        then Some (schedule_of rnd (duration_of nodes v) (es v) (ef v) (ls v) (lf v) v) else None)"
    "set (nw_CriticalPath net) = {v \<in> nd_ID ` set nodes.
        sd_Critical (schedule_of rnd (duration_of nodes v) (es v) (ef v) (ls v) (lf v) v)}"
    "sorted_wrt (\<lambda>u v. (v, u) \<notin> arcs edges) (nw_CriticalPath net)" "distinct (nw_CriticalPath net)"
proof -
  have wp: "well_posed nodes edges" using ComputeCPM_well_posed assms by blast
  then obtain dur ins outs indeg where
    np: "node_pass [] [] nodes = Inr (dur, map nd_ID nodes)"
    and ep: "edge_pass dur [] [] (foldl (\<lambda>m i. gput i 0 m) [] (map nd_ID nodes)) edges = Inr (ins, outs, indeg)"
    and dur: "\<forall>v. gzero dur v = duration_of nodes v"
    and ins: "\<forall>v. gslice ins v = filter (\<lambda>e. eg_To e = v) (map typed edges)"
    and outs: "\<forall>v. gslice outs v = filter (\<lambda>e. eg_From e = v) (map typed edges)"
    and k: "case kahn (map nd_ID nodes) outs indeg of
       None \<Rightarrow> \<not> acyclic (arcs edges)
     | Some topo \<Rightarrow> acyclic (arcs edges) \<and> distinct topo \<and> set topo = nd_ID ` set nodes
         \<and> sorted_wrt (\<lambda>u v. (v, u) \<notin> arcs edges) topo" using first_loops by blast
  from assms obtain topo es ef where topo: "kahn (map nd_ID nodes) outs indeg = Some topo"
    and f: "forward rnd dur ins [] [] topo = Inr (es, ef)"
    by (auto simp: ComputeCPM_def np ep split: option.splits sum.splits)
  let ?p = "foldl (\<lambda>p i. max p (gzero ef i)) 0 topo"
  obtain ls lf where b: "backward rnd dur outs ?p [] [] (rev topo) = (ls, lf)" by (metis surj_pair)
  let ?s = "\<lambda>i. schedule_of rnd (gzero dur i) (gzero es i) (gzero ef i) (gzero ls i) (gzero lf i) i"
  have net: "net = \<lparr>nw_Duration = ?p, nw_Schedules = foldl (\<lambda>m i. gput i (?s i) m) [] topo,
      nw_CriticalPath = filter (\<lambda>i. sd_Critical (?s i)) topo\<rparr>"
    using assms by (simp add: ComputeCPM_def np ep topo f b Let_def)
  from k topo have t: "acyclic (arcs edges)" "distinct topo" "set topo = nd_ID ` set nodes"
    "sorted_wrt (\<lambda>u v. (v, u) \<notin> arcs edges) topo" by auto
  have irr: "(v, v) \<notin> arcs edges" for v using t(1) by (auto simp: acyclic_def)
  have from_in: "eg_From ` set (gslice ins v) = {u. (u, v) \<in> arcs edges}" for v
    unfolding ins [rule_format] by (auto simp: arcs_def image_iff) (metis typed_ends)
  have to_out: "eg_To ` set (gslice outs v) = {u. (v, u) \<in> arcs edges}" for v
    unfolding outs [rule_format] by (auto simp: arcs_def image_iff) (metis typed_ends)
  have "settled (\<lambda>v. eg_From ` set (gslice ins v)) topo" "settled (\<lambda>v. eg_To ` set (gslice outs v)) (rev topo)"
    using t(4) irr by (simp_all add: settled_iff from_in to_out sorted_wrt_rev)
  note F = forward_Inr [OF f t(2) this(1)] and B = backward_eq [OF b _ this(2)]
  note P = fold_max [of topo "gzero ef" 0]
  have "passes rnd (nd_ID ` set nodes) (typed ` set edges) (duration_of nodes) ?p (gzero es) (gzero ef) (gzero ls) (gzero lf)"
    unfolding passes_def
  proof (intro conjI ballI)
    fix v
    assume "v \<in> nd_ID ` set nodes"
    then have v: "v \<in> set topo" using t(3) by simp
    then have e: "early_start rnd (gzero es) (gzero ef) (duration_of nodes v) 0 (gslice ins v) = Inr (gzero es v)"
      using F dur by auto
    note E = early_start_Inr [OF e] and L = late_finish_spec [of rnd "gzero ls" "gzero lf" "duration_of nodes v" ?p "gslice outs v"]
    show "gzero ef v = rnd (gzero es v + duration_of nodes v)" using F v dur by auto
    show "0 \<le> gzero es v" using E by blast
    show "eg_To e = v \<longrightarrow> (\<exists>b. early_bound rnd (gzero es) (gzero ef) (duration_of nodes v) e = Some b \<and> b \<le> gzero es v)"
      if "e \<in> typed ` set edges" for e using E that by (auto simp: ins)
    show "gzero es v = 0 \<or> (\<exists>e \<in> typed ` set edges. eg_To e = v
        \<and> early_bound rnd (gzero es) (gzero ef) (duration_of nodes v) e = Some (gzero es v))"
      using E by (auto simp: ins)
    have lf: "gzero lf v = late_finish rnd (gzero ls) (gzero lf) (duration_of nodes v) ?p (gslice outs v)"
      and "gzero ls v = rnd (gzero lf v - duration_of nodes v)" using B t(2) v dur by auto
    then show "gzero ls v = rnd (gzero lf v - duration_of nodes v)" by blast
    show "gzero lf v \<le> ?p" unfolding lf using L by blast
    show "eg_From e = v \<longrightarrow> gzero lf v \<le> late_bound rnd (gzero ls) (gzero lf) (duration_of nodes v) e"
      if "e \<in> typed ` set edges" for e unfolding lf using L that by (auto simp: outs)
    show "gzero lf v = ?p \<or> (\<exists>e \<in> typed ` set edges. eg_From e = v
        \<and> gzero lf v = late_bound rnd (gzero ls) (gzero lf) (duration_of nodes v) e)"
      using L unfolding lf [symmetric] by (auto simp: outs)
    show "gzero ef v \<le> ?p" using P v by blast
  next
    show "0 \<le> ?p" "?p = 0 \<or> (\<exists>v \<in> nd_ID ` set nodes. ?p = gzero ef v)" using P t(3) by auto
  qed
  moreover have "gget (nw_Schedules net) v = (if v \<in> nd_ID ` set nodes then Some (?s v) else None)" for v
    by (simp add: net gget_fold t(2,3))
  moreover have "set (nw_CriticalPath net) = {v \<in> nd_ID ` set nodes. sd_Critical (?s v)}" by (auto simp: net t(3))
  moreover have "sorted_wrt (\<lambda>u v. (v, u) \<notin> arcs edges) (nw_CriticalPath net)" "distinct (nw_CriticalPath net)"
    using t(2,4) by (simp_all add: net sorted_wrt_filter)
  ultimately show thesis using that [of "gzero es" "gzero ef" "gzero ls" "gzero lf"] wp t(1) unfolding dur [rule_format] net by simp
qed

lemma cpm_decision:
  "((\<exists>net. ComputeCPM rnd nodes edges = Inr net) \<longleftrightarrow> well_posed nodes edges \<and> known_types edges \<and> acyclic (arcs edges))
   \<and> (ComputeCPM rnd nodes edges = Inl DependencyCycle \<longleftrightarrow> well_posed nodes edges \<and> \<not> acyclic (arcs edges))"
proof -
  have "(\<exists>net. ComputeCPM rnd nodes edges = Inr net) = (known_types edges \<and> acyclic (arcs edges))
      \<and> (ComputeCPM rnd nodes edges = Inl DependencyCycle) = (\<not> acyclic (arcs edges))" if wp: "well_posed nodes edges"
  proof -
    from wp obtain dur ins outs indeg where
      np: "node_pass [] [] nodes = Inr (dur, map nd_ID nodes)"
      and ep: "edge_pass dur [] [] (foldl (\<lambda>m i. gput i 0 m) [] (map nd_ID nodes)) edges = Inr (ins, outs, indeg)"
      and ins: "\<forall>v. gslice ins v = filter (\<lambda>e. eg_To e = v) (map typed edges)"
      and k: "case kahn (map nd_ID nodes) outs indeg of
         None \<Rightarrow> \<not> acyclic (arcs edges)
       | Some topo \<Rightarrow> acyclic (arcs edges) \<and> distinct topo \<and> set topo = nd_ID ` set nodes
           \<and> sorted_wrt (\<lambda>u v. (v, u) \<notin> arcs edges) topo" using first_loops by blast
    show ?thesis
    proof (cases "kahn (map nd_ID nodes) outs indeg")
      case None
      then show ?thesis using k by (simp add: ComputeCPM_def np ep)
    next
      case (Some topo)
      with k have t: "acyclic (arcs edges)" "set topo = nd_ID ` set nodes" by auto
      let ?K = "{''FS'', ''SS'', ''FF'', ''SF''}"
      have "known_types edges = (\<forall>e \<in> set edges. eg_Type (typed e) \<in> ?K)"
        by (simp only: known_types_def typed_type)
      also have "\<dots> = (\<forall>v \<in> set topo. \<forall>e \<in> set (gslice ins v). eg_Type e \<in> ?K)"
        using wp every_edge [of edges "nd_ID ` set nodes" "\<lambda>e. eg_Type e \<in> ?K"]
        unfolding t(2) ins [rule_format] well_posed_def by (simp only: simp_thms)
      finally have "(\<forall>v \<in> set topo. \<forall>e \<in> set (gslice ins v). eg_Type e \<in> ?K) = known_types edges" ..
      with forward_total [of rnd dur ins "[]" "[]" topo]
      have "(\<exists>r. forward rnd dur ins [] [] topo = Inr r) = known_types edges" by simp
      moreover have "forward rnd dur ins x y zs \<noteq> Inl DependencyCycle" for x y zs
      proof -
        have "early_start rnd a b d s es \<noteq> Inl DependencyCycle" for a b d s es
          by (induction es arbitrary: s) (auto split: option.split)
        then show ?thesis by (induction zs arbitrary: x y) (auto split: sum.splits)
      qed
      ultimately show ?thesis
        by (cases "forward rnd dur ins [] [] topo") (auto simp: ComputeCPM_def np ep Some t(1) Let_def split: prod.splits)
    qed
  qed
  moreover have "well_posed nodes edges" if "ComputeCPM rnd nodes edges = Inl DependencyCycle"
    using that ComputeCPM_well_posed by blast
  ultimately show ?thesis using ComputeCPM_well_posed by blast
qed

text \<open>C24: The scheduler is total, and succeeds exactly on schedulable projects. For every list of tasks and
  dependencies \<^verbatim>\<open>ComputeCPM\<close> ends; it returns a network if and only if no task is named twice, no
  duration is negative, every dependency joins known tasks and has a known kind, and the dependencies
  have no cycle, whatever the rounding. A cycle is reported as one exactly when there is one.\<close>

theorem cpm_decides:
  "((\<exists>net. ComputeCPM rnd nodes edges = Inr net) \<longleftrightarrow> well_posed nodes edges \<and> known_types edges \<and> acyclic (arcs edges))
   \<and> (ComputeCPM rnd nodes edges = Inl DependencyCycle \<longleftrightarrow> well_posed nodes edges \<and> \<not> acyclic (arcs edges))"
  by (rule cpm_decision)

section \<open>The early schedule\<close>

text \<open>Start times that obey every dependency: what the four kinds mean, independently of the scheduler. A
  condition on the finish of a task is one on its start, less its duration.\<close>

definition obeys_edge :: "rounding \<Rightarrow> (string \<Rightarrow> rat) \<Rightarrow> (string \<Rightarrow> rat) \<Rightarrow> edge \<Rightarrow> bool" where
  "obeys_edge rnd dur s e \<longleftrightarrow>
     (if eg_Type e = ''FS'' \<or> eg_Type e = [] then rnd (s (eg_From e) + dur (eg_From e)) \<le> s (eg_To e)
      else if eg_Type e = ''SS'' then s (eg_From e) \<le> s (eg_To e)
      else if eg_Type e = ''FF'' then rnd (rnd (s (eg_From e) + dur (eg_From e)) - dur (eg_To e)) \<le> s (eg_To e)
      else eg_Type e = ''SF'' \<and> rnd (s (eg_From e) - dur (eg_To e)) \<le> s (eg_To e))"

definition obeys :: "rounding \<Rightarrow> node list \<Rightarrow> edge list \<Rightarrow> (string \<Rightarrow> rat) \<Rightarrow> bool" where
  "obeys rnd nodes edges s \<longleftrightarrow>
     (\<forall>v \<in> nd_ID ` set nodes. 0 \<le> s v) \<and> (\<forall>e \<in> set edges. obeys_edge rnd (duration_of nodes) s e)"

lemma obeys_edge_bound:
  "obeys_edge rnd dur s e \<longleftrightarrow>
     (\<exists>b. early_bound rnd s (\<lambda>u. rnd (s u + dur u)) (dur (eg_To e)) (typed e) = Some b \<and> b \<le> s (eg_To e))"
  by (auto simp: obeys_edge_def early_bound_def typed_def)

lemma obeys_bounds:
  "well_posed nodes edges \<Longrightarrow> obeys rnd nodes edges s \<longleftrightarrow>
     (\<forall>v \<in> nd_ID ` set nodes. 0 \<le> s v
        \<and> (\<forall>e \<in> set edges. eg_To e = v \<longrightarrow>
             (\<exists>b. early_bound rnd s (\<lambda>u. rnd (s u + duration_of nodes u)) (duration_of nodes v) (typed e) = Some b \<and> b \<le> s v)))"
  unfolding obeys_def obeys_edge_bound well_posed_def by blast

definition time_of :: "network \<Rightarrow> (schedule \<Rightarrow> rat) \<Rightarrow> string \<Rightarrow> rat" where
  "time_of net f v = (case gget (nw_Schedules net) v of None \<Rightarrow> 0 | Some s \<Rightarrow> f s)"

lemma early_bound_mono:
  assumes "mono rnd" "es (eg_From e) \<le> s (eg_From e)" "ef (eg_From e) \<le> f (eg_From e)" "early_bound rnd es ef d e = Some b"
  shows "\<exists>c. early_bound rnd s f d e = Some c \<and> b \<le> c"
  using assms by (auto simp: early_bound_def intro: monoD split: if_splits)

lemma early_bound_cong:
  "es (eg_From e) = s (eg_From e) \<Longrightarrow> ef (eg_From e) = f (eg_From e) \<Longrightarrow> early_bound rnd es ef d e = early_bound rnd s f d e"
  by (simp add: early_bound_def)

lemma obeys_cong:
  assumes "well_posed nodes edges" "\<And>v. v \<in> nd_ID ` set nodes \<Longrightarrow> s v = t v"
  shows "obeys rnd nodes edges s \<longleftrightarrow> obeys rnd nodes edges t"
proof -
  have "early_bound rnd s (\<lambda>u. rnd (s u + duration_of nodes u)) d (typed e)
      = early_bound rnd t (\<lambda>u. rnd (t u + duration_of nodes u)) d (typed e)" if "e \<in> set edges" for d e
    using assms that unfolding well_posed_def by (intro early_bound_cong) auto
  with assms(2) show ?thesis unfolding obeys_bounds [OF assms(1)] by auto
qed

lemma wf_arcs: "acyclic (arcs es) \<Longrightarrow> wf (arcs es)" "acyclic (arcs es) \<Longrightarrow> wf ((arcs es)\<inverse>)"
  using finite_arcs finite_acyclic_wf finite_acyclic_wf_converse by blast+

lemma passes_early:
  assumes "passes rnd V E dur p es ef ls lf" "v \<in> V"
  shows "ef v = rnd (es v + dur v)" "0 \<le> es v" "ef v \<le> p"
    "e \<in> E \<Longrightarrow> eg_To e = v \<Longrightarrow> \<exists>b. early_bound rnd es ef (dur v) e = Some b \<and> b \<le> es v"
    "es v = 0 \<or> (\<exists>e \<in> E. eg_To e = v \<and> early_bound rnd es ef (dur v) e = Some (es v))"
  using assms unfolding passes_def by blast+

lemma passes_late:
  assumes "passes rnd V E dur p es ef ls lf" "v \<in> V"
  shows "ls v = rnd (lf v - dur v)" "lf v \<le> p" "e \<in> E \<Longrightarrow> eg_From e = v \<Longrightarrow> lf v \<le> late_bound rnd ls lf (dur v) e"
    "lf v = p \<or> (\<exists>e \<in> E. eg_From e = v \<and> lf v = late_bound rnd ls lf (dur v) e)"
  using assms unfolding passes_def by blast+

lemma passes_obeys:
  assumes "passes rnd (nd_ID ` set nodes) (typed ` set edges) (duration_of nodes) p es ef ls lf" "well_posed nodes edges"
  shows "obeys rnd nodes edges es"
  unfolding obeys_bounds [OF assms(2)]
proof (intro ballI conjI impI)
  fix v e
  assume v: "v \<in> nd_ID ` set nodes" "e \<in> set edges" "eg_To e = v"
  then have "eg_From e \<in> nd_ID ` set nodes" using assms(2) by (auto simp: well_posed_def)
  note passes_early(1) [OF assms(1) this]
  then have "early_bound rnd es (\<lambda>u. rnd (es u + duration_of nodes u)) (duration_of nodes v) (typed e)
      = early_bound rnd es ef (duration_of nodes v) (typed e)" by (intro early_bound_cong) simp_all
  with passes_early(4) [OF assms(1) v(1), of "typed e"] v(2,3)
  show "\<exists>b. early_bound rnd es (\<lambda>u. rnd (es u + duration_of nodes u)) (duration_of nodes v) (typed e) = Some b \<and> b \<le> es v"
    by simp
qed (rule passes_early(2) [OF assms(1)])

lemma passes_least:
  assumes p: "passes rnd (nd_ID ` set nodes) (typed ` set edges) (duration_of nodes) p es ef ls lf"
    and wp: "well_posed nodes edges" "acyclic (arcs edges)" and mono: "mono rnd"
    and s: "obeys rnd nodes edges s" and v: "v \<in> nd_ID ` set nodes"
  shows "es v \<le> s v"
  using wf_arcs(1) [OF wp(2)] v
proof (induction v rule: wf_induct_rule)
  case (less v)
  from passes_early(5) [OF p less.prems] consider "es v = 0" | e where "e \<in> set edges" "eg_To e = v"
      "early_bound rnd es ef (duration_of nodes v) (typed e) = Some (es v)" by auto
  then show ?case
  proof cases
    case 1
    with s less.prems show ?thesis unfolding obeys_bounds [OF wp(1)] by metis
  next
    case 2
    then have u: "eg_From e \<in> nd_ID ` set nodes" "(eg_From e, v) \<in> arcs edges"
      using wp(1) by (auto simp: well_posed_def arcs_def)
    have le: "es (eg_From e) \<le> s (eg_From e)" by (rule less.IH [OF u(2,1)])
    then have "ef (eg_From e) \<le> rnd (s (eg_From e) + duration_of nodes (eg_From e))"
      unfolding passes_early(1) [OF p u(1)] using mono by (auto intro: monoD)
    with le obtain c where "early_bound rnd s (\<lambda>u. rnd (s u + duration_of nodes u)) (duration_of nodes v) (typed e) = Some c" "es v \<le> c"
      using early_bound_mono [OF mono _ _ 2(3), of s "\<lambda>u. rnd (s u + duration_of nodes u)"] by auto
    moreover from s 2(1,2) less.prems have "\<exists>b. early_bound rnd s (\<lambda>u. rnd (s u + duration_of nodes u)) (duration_of nodes v) (typed e) = Some b \<and> b \<le> s v"
      unfolding obeys_bounds [OF wp(1)] by blast
    ultimately show ?thesis by auto
  qed
qed

text \<open>The early schedule is the least one. With any monotone rounding of sums and differences (as
  IEEE arithmetic has it), the computed early starts obey every dependency of all four kinds, each
  early finish is the rounded sum of start and duration, and no start times that obey the
  dependencies start any task earlier.\<close>

theorem early_schedule_least:
  assumes "ComputeCPM rnd nodes edges = Inr net" "mono rnd"
  shows "obeys rnd nodes edges (time_of net sd_EarlyStart)
     \<and> (\<forall>v \<in> nd_ID ` set nodes. time_of net sd_EarlyFinish v = rnd (time_of net sd_EarlyStart v + duration_of nodes v)
          \<and> time_of net sd_EarlyFinish v \<le> nw_Duration net
          \<and> (\<forall>s. obeys rnd nodes edges s \<longrightarrow> time_of net sd_EarlyStart v \<le> s v))"
proof -
  obtain es ef ls lf where wp: "well_posed nodes edges" "acyclic (arcs edges)"
    and p: "passes rnd (nd_ID ` set nodes) (typed ` set edges) (duration_of nodes) (nw_Duration net) es ef ls lf"
    and sch: "\<And>v. gget (nw_Schedules net) v = (if v \<in> nd_ID ` set nodes
        then Some (schedule_of rnd (duration_of nodes v) (es v) (ef v) (ls v) (lf v) v) else None)"
    by (rule ComputeCPM_Inr [OF assms(1)]) blast
  have t: "time_of net sd_EarlyStart v = es v" "time_of net sd_EarlyFinish v = ef v" if "v \<in> nd_ID ` set nodes" for v
    using that by (simp_all add: time_of_def sch schedule_of_def Let_def)
  have "obeys rnd nodes edges (time_of net sd_EarlyStart) \<longleftrightarrow> obeys rnd nodes edges es"
    by (rule obeys_cong [OF wp(1) t(1)])
  then show ?thesis using passes_obeys [OF p wp(1)] passes_least [OF p wp assms(2)] passes_early(1,3) [OF p] t by simp
qed

section \<open>The late schedule, slack and the critical path\<close>

text \<open>Times on a grid: whole multiples of a unit. Floats add and subtract them exactly as long as they stay
  within \<open>n\<close> units (\<open>2\<^sup>5\<^sup>3\<close> for a unit that is a power of two).\<close>

definition on_grid :: "rat \<Rightarrow> rat \<Rightarrow> bool" where
  "on_grid u x \<longleftrightarrow> (\<exists>k::int. x = of_int k * u)"

definition exact_to :: "rounding \<Rightarrow> rat \<Rightarrow> rat \<Rightarrow> bool" where
  "exact_to rnd u n \<longleftrightarrow> (\<forall>k::int. \<bar>of_int k * u\<bar> \<le> n \<longrightarrow> rnd (of_int k * u) = of_int k * u)"

definition gridded :: "rounding \<Rightarrow> rat \<Rightarrow> node list \<Rightarrow> bool" where
  "gridded rnd u nodes \<longleftrightarrow> 0 < u \<and> (\<forall>n \<in> set nodes. on_grid u (nd_Duration n))
     \<and> exact_to rnd u (2 * sum_list (map nd_Duration nodes))"

lemma on_grid_arith [intro]: "on_grid u 0" "on_grid u x \<Longrightarrow> on_grid u y \<Longrightarrow> on_grid u (x + y)"
  "on_grid u x \<Longrightarrow> on_grid u y \<Longrightarrow> on_grid u (x - y)"
  unfolding on_grid_def by (metis mult_zero_left of_int_0, metis distrib_right of_int_add, metis left_diff_distrib of_int_diff)

lemma exactD: "exact_to rnd u n \<Longrightarrow> on_grid u x \<Longrightarrow> \<bar>x\<bar> \<le> n \<Longrightarrow> rnd x = x"
  by (auto simp: exact_to_def on_grid_def)

lemma duration_sum: "distinct (map nd_ID nodes) \<Longrightarrow> sum_list (map nd_Duration nodes) = sum (duration_of nodes) (nd_ID ` set nodes)"
proof -
  assume d: "distinct (map nd_ID nodes)"
  have "duration_of nodes (nd_ID n) = nd_Duration n" if "n \<in> set nodes" for n
  proof -
    have "map_of (map (\<lambda>n. (nd_ID n, nd_Duration n)) nodes) (nd_ID n) = Some (nd_Duration n)"
      using d that by (intro map_of_is_SomeI) (auto simp: comp_def)
    then show ?thesis by (simp add: duration_of_def)
  qed
  then have "sum_list (map nd_Duration nodes) = sum_list (map (duration_of nodes) (map nd_ID nodes))"
    by (simp add: comp_def cong: map_cong)
  also have "\<dots> = sum (duration_of nodes) (set (map nd_ID nodes))" using d by (simp only: sum_list_distinct_conv_sum_set)
  finally show ?thesis by simp
qed

lemma duration_of_node: "well_posed nodes edges \<Longrightarrow> gridded rnd u nodes \<Longrightarrow> 0 \<le> duration_of nodes v \<and> on_grid u (duration_of nodes v)"
proof -
  assume "well_posed nodes edges" "gridded rnd u nodes"
  moreover have "duration_of nodes v = 0 \<or> (\<exists>n \<in> set nodes. duration_of nodes v = nd_Duration n)"
    unfolding duration_of_def by (auto split: option.split dest!: map_of_SomeD)
  ultimately show ?thesis by (auto simp: well_posed_def gridded_def)
qed

text \<open>The tasks that a task depends on, and itself.\<close>

definition before :: "edge list \<Rightarrow> string \<Rightarrow> string set" where
  "before es v = {u. (u, v) \<in> (arcs es)\<^sup>*}"

lemma before_step: "acyclic (arcs es) \<Longrightarrow> (u, v) \<in> arcs es \<Longrightarrow> before es u \<subseteq> before es v - {v}"
  unfolding before_def acyclic_def by (auto intro: rtrancl_into_rtrancl dest: rtrancl_into_trancl1)

lemma before_nodes: "well_posed nodes edges \<Longrightarrow> v \<in> nd_ID ` set nodes \<Longrightarrow> before edges v \<subseteq> nd_ID ` set nodes"
proof
  fix u
  assume wp: "well_posed nodes edges" "v \<in> nd_ID ` set nodes" and "u \<in> before edges v"
  then have "(u, v) \<in> (arcs edges)\<^sup>*" by (simp add: before_def)
  then show "u \<in> nd_ID ` set nodes"
    by (rule converse_rtranclE) (use wp in \<open>auto simp: well_posed_def arcs_def\<close>)
qed

lemma passes_exact_early:
  assumes p: "passes rnd (nd_ID ` set nodes) (typed ` set edges) (duration_of nodes) p es ef ls lf"
    and wp: "well_posed nodes edges" "acyclic (arcs edges)" and g: "gridded rnd u nodes" and v: "v \<in> nd_ID ` set nodes"
  shows "on_grid u (es v) \<and> ef v = es v + duration_of nodes v \<and> ef v \<le> sum (duration_of nodes) (before edges v)"
  using wf_arcs(1) [OF wp(2)] v
proof (induction v rule: wf_induct_rule)
  case (less v)
  let ?d = "duration_of nodes" and ?N = "sum_list (map nd_Duration nodes)"
  have ex: "rnd x = x" if "on_grid u x" "\<bar>x\<bar> \<le> 2 * ?N" for x
    using g that unfolding gridded_def by (blast intro: exactD)
  have d: "0 \<le> ?d w" "on_grid u (?d w)" for w using duration_of_node [OF wp(1) g] by auto
  have fin: "finite (before edges w)" if "w \<in> nd_ID ` set nodes" for w
    using before_nodes [OF wp(1) that] by (rule finite_subset) simp
  have total: "sum ?d (before edges w) \<le> ?N" if "w \<in> nd_ID ` set nodes" for w
    using before_nodes [OF wp(1) that] d(1) wp(1) unfolding well_posed_def
    by (metis List.finite_set duration_sum finite_imageI sum_mono2)
  have one: "?d w \<le> sum ?d (before edges w)" if "w \<in> nd_ID ` set nodes" for w
    using fin [OF that] d(1) by (intro member_le_sum) (auto simp: before_def)
  have self: "sum ?d (before edges v) = ?d v + sum ?d (before edges v - {v})"
    using fin [OF less.prems] by (intro sum.remove) (auto simp: before_def)
  have es: "on_grid u (es v) \<and> 0 \<le> es v \<and> es v \<le> sum ?d (before edges v - {v})"
    using passes_early(5) [OF p less.prems]
  proof (elim disjE bexE conjE)
    assume "es v = 0"
    then show ?thesis using d(1) by (auto intro: sum_nonneg)
  next
    fix f
    assume "f \<in> typed ` set edges" "eg_To f = v" and b: "early_bound rnd es ef (?d v) f = Some (es v)"
    then have a: "(eg_From f, v) \<in> arcs edges" "eg_From f \<in> nd_ID ` set nodes"
      using wp(1) by (auto simp: arcs_def well_posed_def)
    let ?u = "eg_From f"
    note IH = less.IH [OF a] and pos = passes_early(2) [OF p a(2)]
    have "sum ?d (before edges ?u) \<le> sum ?d (before edges v - {v})"
      using before_step [OF wp(2) a(1)] fin [OF less.prems] d(1) by (intro sum_mono2) auto
    then have le: "ef ?u \<le> sum ?d (before edges v - {v})" "es ?u \<le> ef ?u" using IH d(1) [of ?u] by auto
    have "?d v \<le> ?N" "ef ?u \<le> ?N" using one [OF less.prems] total [OF less.prems] total [OF a(2)] IH by auto
    then have "\<bar>ef ?u - ?d v\<bar> \<le> 2 * ?N" "\<bar>es ?u - ?d v\<bar> \<le> 2 * ?N"
      using IH d(1) [of ?u] d(1) [of v] pos le(2) by linarith+
    then have "rnd (ef ?u - ?d v) = ef ?u - ?d v" "rnd (es ?u - ?d v) = es ?u - ?d v"
      using IH d(2) by (auto intro!: ex)
    moreover have "0 \<le> es v" by (rule passes_early(2) [OF p less.prems])
    moreover have "on_grid u (es ?u)" "on_grid u (ef ?u)" "on_grid u (ef ?u - ?d v)" "on_grid u (es ?u - ?d v)"
      using IH d(2) by auto
    ultimately have "es v \<in> {ef ?u, es ?u, ef ?u - ?d v, es ?u - ?d v}" "0 \<le> es v"
      using b by (auto simp: early_bound_def split: if_splits)
    then have "es v \<le> ef ?u \<and> on_grid u (es v)"
      using le(2) d(1) [of v] \<open>on_grid u (es ?u)\<close> \<open>on_grid u (ef ?u)\<close> \<open>on_grid u (ef ?u - ?d v)\<close> \<open>on_grid u (es ?u - ?d v)\<close>
      by (elim insertE) simp_all
    with le(1) \<open>0 \<le> es v\<close> show ?thesis by simp
  qed
  then have es': "on_grid u (es v)" "0 \<le> es v" "es v \<le> sum ?d (before edges v - {v})" by simp_all
  have "\<bar>es v + ?d v\<bar> \<le> 2 * ?N"
    using es'(2,3) d(1) [of v] self total [OF less.prems] by linarith
  then have "rnd (es v + ?d v) = es v + ?d v" using es'(1) d(2) by (intro ex) auto
  with es self show ?case unfolding passes_early(1) [OF p less.prems] by simp
qed

lemma passes_exact_total:
  assumes p: "passes rnd (nd_ID ` set nodes) (typed ` set edges) (duration_of nodes) p es ef ls lf"
    and wp: "well_posed nodes edges" "acyclic (arcs edges)" and g: "gridded rnd u nodes"
  shows "v \<in> nd_ID ` set nodes \<Longrightarrow> ef v \<le> sum_list (map nd_Duration nodes)" "on_grid u p"
    "0 \<le> p" "p \<le> sum_list (map nd_Duration nodes)" "duration_of nodes w \<le> sum_list (map nd_Duration nodes)"
proof -
  let ?d = "duration_of nodes" and ?N = "sum_list (map nd_Duration nodes)"
  have d: "0 \<le> ?d w" "on_grid u (?d w)" for w using duration_of_node [OF wp(1) g] by auto
  have N: "?N = sum ?d (nd_ID ` set nodes)" using wp(1) by (intro duration_sum) (simp add: well_posed_def)
  show ef: "ef v \<le> ?N" if "v \<in> nd_ID ` set nodes" for v
    using passes_exact_early [OF p wp g that] sum_mono2 [OF _ before_nodes [OF wp(1) that], of ?d] d(1) unfolding N by fastforce
  have "p = 0 \<or> (\<exists>v \<in> nd_ID ` set nodes. p = ef v)" "0 \<le> p" using p unfolding passes_def by blast+
  then show "on_grid u p" "0 \<le> p" "p \<le> ?N"
    using passes_exact_early [OF p wp g] d ef by (auto simp: N intro: sum_nonneg)
  have "?d w = 0" if "w \<notin> nd_ID ` set nodes"
    using that by (auto simp: duration_of_def map_of_eq_None_iff image_image split: option.split dest!: map_of_SomeD)
  then show "?d w \<le> ?N" unfolding N using d(1) by (metis List.finite_set finite_imageI member_le_sum sum_nonneg)
qed

lemma early_bound_exact:
  assumes p: "passes rnd (nd_ID ` set nodes) (typed ` set edges) (duration_of nodes) p es ef ls lf"
    and wp: "well_posed nodes edges" "acyclic (arcs edges)" and g: "gridded rnd u nodes" and e: "eg_From e \<in> nd_ID ` set nodes"
  shows "early_bound rnd es ef (duration_of nodes w) e = early_bound (\<lambda>x. x) es ef (duration_of nodes w) e"
proof -
  let ?d = "duration_of nodes" and ?N = "sum_list (map nd_Duration nodes)" and ?v = "eg_From e"
  have ex: "rnd x = x" if "on_grid u x" "\<bar>x\<bar> \<le> 2 * ?N" for x
    using g that unfolding gridded_def by (blast intro: exactD)
  have d: "0 \<le> ?d w" "on_grid u (?d w)" for w using duration_of_node [OF wp(1) g] by auto
  note tot = passes_exact_total [OF p wp g] and E = passes_exact_early [OF p wp g e]
  have "0 \<le> es ?v" "ef ?v = es ?v + ?d ?v" using E passes_early(2) [OF p e] by simp_all
  then have "\<bar>ef ?v - ?d w\<bar> \<le> 2 * ?N" "\<bar>es ?v - ?d w\<bar> \<le> 2 * ?N"
    using d(1) [of ?v] d(1) [of w] tot(1) [OF e] tot(5) [of w] by linarith+
  then have "rnd (ef ?v - ?d w) = ef ?v - ?d w" "rnd (es ?v - ?d w) = es ?v - ?d w"
    using E d(2) by (auto intro!: ex)
  then show ?thesis by (simp add: early_bound_def)
qed

lemma passes_exact_late:
  assumes p: "passes rnd (nd_ID ` set nodes) (typed ` set edges) (duration_of nodes) p es ef ls lf"
    and wp: "well_posed nodes edges" "acyclic (arcs edges)" and g: "gridded rnd u nodes" and v: "v \<in> nd_ID ` set nodes"
  shows "on_grid u (lf v) \<and> ef v \<le> lf v \<and> ls v = lf v - duration_of nodes v
     \<and> (\<forall>e \<in> typed ` set edges. eg_From e = v \<longrightarrow> late_bound rnd ls lf (duration_of nodes v) e = late_bound (\<lambda>x. x) ls lf (duration_of nodes v) e)"
  using wf_arcs(2) [OF wp(2)] v
proof (induction v rule: wf_induct_rule)
  case (less v)
  let ?d = "duration_of nodes" and ?N = "sum_list (map nd_Duration nodes)"
  have ex: "rnd x = x" if "on_grid u x" "\<bar>x\<bar> \<le> 2 * ?N" for x
    using g that unfolding gridded_def by (blast intro: exactD)
  have d: "0 \<le> ?d w" "on_grid u (?d w)" for w using duration_of_node [OF wp(1) g] by auto
  note tot = passes_exact_total [OF p wp g] and E = passes_exact_early [OF p wp g]
  have step: "late_bound rnd ls lf (?d v) e = late_bound (\<lambda>x. x) ls lf (?d v) e \<and> ef v \<le> late_bound (\<lambda>x. x) ls lf (?d v) e
      \<and> on_grid u (late_bound (\<lambda>x. x) ls lf (?d v) e)" if e: "e \<in> typed ` set edges" "eg_From e = v" for e
  proof -
    from e have a: "(eg_To e, v) \<in> (arcs edges)\<inverse>" "eg_To e \<in> nd_ID ` set nodes"
      using wp(1) by (auto simp: arcs_def well_posed_def)
    let ?w = "eg_To e"
    note IH = less.IH [OF a]
    have lw: "on_grid u (lf ?w)" "on_grid u (ls ?w)" "lf ?w \<le> p" "ef ?w \<le> lf ?w" "ls ?w = lf ?w - ?d ?w" "0 \<le> es ?w" "ef ?w = es ?w + ?d ?w"
      using IH d passes_late(2) [OF p a(2)] passes_early(2) [OF p a(2)] E [OF a(2)] by auto
    have "\<bar>ls ?w + ?d v\<bar> \<le> 2 * ?N" "\<bar>lf ?w + ?d v\<bar> \<le> 2 * ?N"
      using lw d(1) [of v] d(1) [of ?w] tot(4) tot(5) [of v] by linarith+
    then have r: "rnd (ls ?w + ?d v) = ls ?w + ?d v" "rnd (lf ?w + ?d v) = lf ?w + ?d v"
      using lw(1,2) d(2) by (auto intro!: ex)
    obtain b where "early_bound rnd es ef (?d ?w) e = Some b" "b \<le> es ?w" using passes_early(4) [OF p a(2) e(1)] by blast
    then have b: "early_bound (\<lambda>x. x) es ef (?d ?w) e = Some b" "b \<le> es ?w"
      using early_bound_exact [OF p wp g, of e ?w] e(2) less.prems by simp_all
    show ?thesis using b e(2) r lw d(2) [of v] E [OF less.prems]
      by (auto simp: early_bound_def late_bound_def split: if_splits)
  qed
  have lf: "on_grid u (lf v)" "ef v \<le> lf v"
    using passes_late(4) [OF p less.prems] tot(2) passes_early(3) [OF p less.prems] step by auto
  have "\<bar>lf v - ?d v\<bar> \<le> 2 * ?N"
    using lf(2) E [OF less.prems] passes_early(2) [OF p less.prems] passes_late(2) [OF p less.prems] tot(3,4) d(1) [of v] by simp
  then have "rnd (lf v - ?d v) = lf v - ?d v" using lf(1) d(2) by (intro ex) auto
  then show ?case using lf step passes_late(1) [OF p less.prems] by auto
qed

lemma late_starts_least:
  assumes p: "passes rnd (nd_ID ` set nodes) (typed ` set edges) (duration_of nodes) p es ef ls lf"
    and wp: "well_posed nodes edges" "acyclic (arcs edges)" and g: "gridded rnd u nodes"
    and s: "obeys (\<lambda>x. x) nodes edges s" "\<forall>v \<in> nd_ID ` set nodes. s v + duration_of nodes v \<le> p"
    and v: "v \<in> nd_ID ` set nodes"
  shows "s v \<le> ls v"
  using wf_arcs(2) [OF wp(2)] v
proof (induction v rule: wf_induct_rule)
  case (less v)
  let ?d = "duration_of nodes"
  have eq: "ls w = lf w - ?d w" if "w \<in> nd_ID ` set nodes" for w using passes_exact_late [OF p wp g that] by blast
  have "s v + ?d v \<le> late_bound (\<lambda>x. x) ls lf (?d v) (typed e)" if e: "e \<in> set edges" "eg_From e = v" for e
  proof -
    from e have a: "(eg_To e, v) \<in> (arcs edges)\<inverse>" "eg_To e \<in> nd_ID ` set nodes"
      using wp(1) by (auto simp: arcs_def well_posed_def)
    obtain b where "early_bound (\<lambda>x. x) s (\<lambda>u. s u + ?d u) (?d (eg_To e)) (typed e) = Some b" "b \<le> s (eg_To e)"
      using s(1) e(1) a(2) unfolding obeys_bounds [OF wp(1)] by blast
    then show ?thesis using less.IH [OF a] eq [OF a(2)] e(2)
      by (auto simp: early_bound_def late_bound_def split: if_splits)
  qed
  then have "s v + ?d v \<le> lf v"
    using passes_late(4) [OF p less.prems] s(2) less.prems passes_exact_late [OF p wp g less.prems] by auto
  then show ?case using eq [OF less.prems] by simp
qed

lemma late_starts_obey:
  assumes p: "passes rnd (nd_ID ` set nodes) (typed ` set edges) (duration_of nodes) p es ef ls lf"
    and wp: "well_posed nodes edges" "acyclic (arcs edges)" and g: "gridded rnd u nodes" and k: "known_types edges"
  shows "obeys (\<lambda>x. x) nodes edges ls"
  unfolding obeys_bounds [OF wp(1)]
proof (intro ballI conjI impI)
  fix v e
  let ?d = "duration_of nodes"
  note L = passes_exact_late [OF p wp g]
  assume v: "v \<in> nd_ID ` set nodes" "e \<in> set edges" "eg_To e = v"
  then have u: "eg_From e \<in> nd_ID ` set nodes" using wp(1) by (auto simp: well_posed_def)
  have "lf (eg_From e) \<le> late_bound (\<lambda>x. x) ls lf (?d (eg_From e)) (typed e)"
    using passes_late(3) [OF p u, of "typed e"] L [OF u] v(2) by auto
  moreover have "eg_Type (typed e) \<in> {''FS'', ''SS'', ''FF'', ''SF''}" using k v(2) unfolding known_types_def typed_type by blast
  ultimately show "\<exists>b. early_bound (\<lambda>x. x) ls (\<lambda>u. ls u + ?d u) (?d v) (typed e) = Some b \<and> b \<le> ls v"
    using L [OF u] L [OF v(1)] v(3) by (auto simp: early_bound_def late_bound_def)
next
  fix v
  assume v: "v \<in> nd_ID ` set nodes"
  show "0 \<le> ls v"
    using passes_exact_late [OF p wp g v] passes_exact_early [OF p wp g v] passes_early(2) [OF p v] by linarith
qed

lemma passes_exact:
  assumes p: "passes rnd (nd_ID ` set nodes) (typed ` set edges) (duration_of nodes) p es ef ls lf"
    and wp: "well_posed nodes edges" "acyclic (arcs edges)" and g: "gridded rnd u nodes"
  shows "passes (\<lambda>x. x) (nd_ID ` set nodes) (typed ` set edges) (duration_of nodes) p es ef ls lf"
proof -
  have "early_bound rnd es ef (duration_of nodes w) e = early_bound (\<lambda>x. x) es ef (duration_of nodes w) e"
    if "e \<in> typed ` set edges" for e w
    using early_bound_exact [OF p wp g, of e w] wp(1) that by (auto simp: well_posed_def)
  note eb = this and E = passes_exact_early [OF p wp g] and L = passes_exact_late [OF p wp g]
  let ?d = "duration_of nodes"
  show ?thesis unfolding passes_def
  proof (intro conjI ballI)
    fix v
    assume v: "v \<in> nd_ID ` set nodes"
    show "ef v = es v + ?d v" "ls v = lf v - ?d v" using E [OF v] L [OF v] by blast+
    show "0 \<le> es v" "lf v \<le> p" "ef v \<le> p" by (rule passes_early [OF p v] passes_late [OF p v])+
    show "es v = 0 \<or> (\<exists>e \<in> typed ` set edges. eg_To e = v \<and> early_bound (\<lambda>x. x) es ef (?d v) e = Some (es v))"
      using passes_early(5) [OF p v] eb by (metis (no_types, lifting))
    show "lf v = p \<or> (\<exists>e \<in> typed ` set edges. eg_From e = v \<and> lf v = late_bound (\<lambda>x. x) ls lf (?d v) e)"
      using passes_late(4) [OF p v] L [OF v] by (metis (no_types, lifting))
    show "eg_To e = v \<longrightarrow> (\<exists>b. early_bound (\<lambda>x. x) es ef (?d v) e = Some b \<and> b \<le> es v)" if "e \<in> typed ` set edges" for e
      using passes_early(4) [OF p v that] eb [OF that] by simp
    show "eg_From e = v \<longrightarrow> lf v \<le> late_bound (\<lambda>x. x) ls lf (?d v) e" if "e \<in> typed ` set edges" for e
      using passes_late(3) [OF p v that] L [OF v] that by auto
  next
    show "0 \<le> p" "p = 0 \<or> (\<exists>v \<in> nd_ID ` set nodes. p = ef v)" using p unfolding passes_def by blast+
  qed
qed

lemma slack_exact:
  assumes p: "passes rnd (nd_ID ` set nodes) (typed ` set edges) (duration_of nodes) p es ef ls lf"
    and wp: "well_posed nodes edges" "acyclic (arcs edges)" and g: "gridded rnd u nodes" and v: "v \<in> nd_ID ` set nodes"
  shows "rnd (ls v - es v) = ls v - es v" "0 \<le> ls v - es v"
proof -
  have d: "0 \<le> duration_of nodes v" "on_grid u (duration_of nodes v)" using duration_of_node [OF wp(1) g] by auto
  note E = passes_exact_early [OF p wp g v] and L = passes_exact_late [OF p wp g v] and T = passes_exact_total [OF p wp g]
  from E L show z: "0 \<le> ls v - es v" by simp
  have "\<bar>ls v - es v\<bar> \<le> 2 * sum_list (map nd_Duration nodes)"
    using z L d(1) T(3,4) passes_late(2) [OF p v] passes_early(2) [OF p v] by linarith
  moreover have "on_grid u (ls v - es v)" using E L d(2) by auto
  ultimately show "rnd (ls v - es v) = ls v - es v" using g unfolding gridded_def by (blast intro: exactD)
qed

lemma passes_known:
  assumes p: "passes rnd (nd_ID ` set nodes) (typed ` set edges) (duration_of nodes) p es ef ls lf" and wp: "well_posed nodes edges"
  shows "known_types edges"
  unfolding known_types_def typed_type [symmetric]
proof
  fix e
  assume "e \<in> set edges"
  then have "eg_To (typed e) \<in> nd_ID ` set nodes" "typed e \<in> typed ` set edges" using wp by (auto simp: well_posed_def)
  from passes_early(4) [OF p this refl] show "eg_Type (typed e) \<in> {''FS'', ''SS'', ''FF'', ''SF''}"
    by (auto simp: early_bound_def split: if_splits)
qed

text \<open>C25: The two schedules are the extremes. When the durations lie on a grid on which the float arithmetic
  is exact (whole hours, or halves, or minutes as binary fractions, adding up to less than 2^52 units), the
  early and the late starts both obey every dependency and end the project in time, and every schedule
  that does so starts each task between the two. No schedule ends the project before the computed
  duration. Slack is the difference of the two starts, up to the tolerance, and a project with a task has
  a critical one.\<close>

theorem schedules_extreme:
  assumes "ComputeCPM rnd nodes edges = Inr net" "gridded rnd u nodes"
  shows "obeys (\<lambda>x. x) nodes edges (time_of net sd_EarlyStart) \<and> obeys (\<lambda>x. x) nodes edges (time_of net sd_LateStart)
     \<and> (\<forall>v \<in> nd_ID ` set nodes.
          time_of net sd_LateStart v + duration_of nodes v \<le> nw_Duration net
          \<and> (\<forall>s. obeys (\<lambda>x. x) nodes edges s \<longrightarrow> time_of net sd_EarlyStart v \<le> s v)
          \<and> (\<forall>s. obeys (\<lambda>x. x) nodes edges s \<longrightarrow> (\<forall>w \<in> nd_ID ` set nodes. s w + duration_of nodes w \<le> nw_Duration net)
               \<longrightarrow> s v \<le> time_of net sd_LateStart v)
          \<and> (let gap = time_of net sd_LateStart v - time_of net sd_EarlyStart v in
               0 \<le> gap \<and> time_of net sd_Slack v = (if gap < eps then 0 else gap)
               \<and> (v \<in> set (nw_CriticalPath net) \<longleftrightarrow> gap < eps)))
     \<and> (\<forall>s. obeys (\<lambda>x. x) nodes edges s \<longrightarrow> nodes \<noteq> [] \<longrightarrow> (\<exists>v \<in> nd_ID ` set nodes. nw_Duration net \<le> s v + duration_of nodes v))
     \<and> (nodes \<noteq> [] \<longrightarrow> nw_CriticalPath net \<noteq> [])"
proof -
  obtain es ef ls lf where wp: "well_posed nodes edges" "acyclic (arcs edges)"
    and p: "passes rnd (nd_ID ` set nodes) (typed ` set edges) (duration_of nodes) (nw_Duration net) es ef ls lf"
    and sch: "\<And>v. gget (nw_Schedules net) v = (if v \<in> nd_ID ` set nodes
        then Some (schedule_of rnd (duration_of nodes v) (es v) (ef v) (ls v) (lf v) v) else None)"
    and crit: "set (nw_CriticalPath net) = {v \<in> nd_ID ` set nodes.
        sd_Critical (schedule_of rnd (duration_of nodes v) (es v) (ef v) (ls v) (lf v) v)}"
    by (rule ComputeCPM_Inr [OF assms(1)]) blast
  let ?d = "duration_of nodes" and ?V = "nd_ID ` set nodes" and ?p = "nw_Duration net" and ?x = "\<lambda>x::rat. x"
  note g = assms(2)
  have q: "passes ?x ?V (typed ` set edges) ?d ?p es ef ls lf" by (rule passes_exact [OF p wp g])
  have k: "known_types edges" by (rule passes_known [OF p wp(1)])
  have t: "time_of net sd_EarlyStart v = es v" "time_of net sd_LateStart v = ls v"
    "time_of net sd_Slack v = (if ls v - es v < eps then 0 else ls v - es v)"
    "v \<in> set (nw_CriticalPath net) \<longleftrightarrow> ls v - es v < eps" "0 \<le> ls v - es v" "ls v + ?d v \<le> ?p" if v: "v \<in> ?V" for v
  proof -
    have s: "rnd (ls v - es v) = ls v - es v" and z: "0 \<le> ls v - es v" by (rule slack_exact [OF p wp g v])+
    then show "0 \<le> ls v - es v" by simp
    show "time_of net sd_EarlyStart v = es v" "time_of net sd_LateStart v = ls v"
      "time_of net sd_Slack v = (if ls v - es v < eps then 0 else ls v - es v)"
      "v \<in> set (nw_CriticalPath net) \<longleftrightarrow> ls v - es v < eps"
      using v s z by (auto simp: time_of_def sch schedule_of_def Let_def crit eps_def)
    show "ls v + ?d v \<le> ?p" using passes_late(1,2) [OF q v] by simp
  qed
  have least: "es v \<le> s v" if "obeys ?x nodes edges s" "v \<in> ?V" for s v
    using passes_least [OF q wp _ that] by (simp add: mono_def)
  have "obeys ?x nodes edges (time_of net sd_EarlyStart)" "obeys ?x nodes edges (time_of net sd_LateStart)"
    using passes_obeys [OF q wp(1)] late_starts_obey [OF p wp g k]
      obeys_cong [OF wp(1), of "time_of net sd_EarlyStart" es ?x] obeys_cong [OF wp(1), of "time_of net sd_LateStart" ls ?x] t(1,2)
    by blast+
  note obey = this
  have "\<exists>v \<in> ?V. ?p = es v + ?d v" if "nodes \<noteq> []"
  proof -
    obtain w where w: "w \<in> ?V" using \<open>nodes \<noteq> []\<close> by (cases nodes) auto
    have "?p = 0 \<or> (\<exists>v \<in> ?V. ?p = es v + ?d v)" using q unfolding passes_def by metis
    moreover have "0 \<le> es w + ?d w" "es w + ?d w \<le> ?p"
      using passes_early(1-3) [OF q w] duration_of_node [OF wp(1) g, of w] by simp_all
    ultimately show ?thesis using w by force
  qed
  then obtain last where last: "nodes \<noteq> [] \<longrightarrow> last \<in> ?V \<and> ?p = es last + ?d last" by blast
  have critical: "nodes \<noteq> [] \<longrightarrow> nw_CriticalPath net \<noteq> []"
    using last t(4-6) [of last] by (auto simp: eps_def)
  show ?thesis
  proof (intro conjI ballI allI impI)
    fix v
    assume v: "v \<in> ?V"
    show "time_of net sd_LateStart v + ?d v \<le> ?p" using t(2,6) [OF v] by simp
    show "time_of net sd_EarlyStart v \<le> s v" if "obeys ?x nodes edges s" for s using least [OF that v] t(1) [OF v] by simp
    show "s v \<le> time_of net sd_LateStart v"
      if "obeys ?x nodes edges s" "\<forall>w \<in> ?V. s w + ?d w \<le> ?p" for s
      using late_starts_least [OF p wp g that v] t(2) [OF v] by simp
    show "let gap = time_of net sd_LateStart v - time_of net sd_EarlyStart v in
        0 \<le> gap \<and> time_of net sd_Slack v = (if gap < eps then 0 else gap) \<and> (v \<in> set (nw_CriticalPath net) \<longleftrightarrow> gap < eps)"
      unfolding Let_def t(1,2) [OF v] using t(3-5) [OF v] by blast
  next
    show "\<exists>v \<in> ?V. ?p \<le> s v + ?d v" if "obeys ?x nodes edges s" "nodes \<noteq> []" for s
      using last that least [OF that(1), of last] by (intro bexI [of _ last]) auto
  qed (use obey critical in blast)+
qed

definition sample_nodes :: "node list" where
  "sample_nodes = map (\<lambda>(i, d). \<lparr>nd_ID = i, nd_Duration = d\<rparr>) [(''a'', 3), (''b'', 2), (''c'', 4)]"

definition sample_edges :: "edge list" where
  "sample_edges = map (\<lambda>(f, t, k). \<lparr>eg_From = f, eg_To = t, eg_Type = k\<rparr>)
     [(''a'', ''b'', ''''), (''a'', ''c'', ''SS'')]"

lemma sample_cpm:
  "case ComputeCPM (\<lambda>x. x) sample_nodes sample_edges of Inl x \<Rightarrow> False
   | Inr net \<Rightarrow> nw_Duration net = 5 \<and> nw_CriticalPath net = [''a'', ''b''] \<and> time_of net sd_Slack ''c'' = 1"
  by code_simp

theorem early_schedule_least_witness:
  "\<exists>net. ComputeCPM (\<lambda>x. x) sample_nodes sample_edges = Inr net \<and> obeys (\<lambda>x. x) sample_nodes sample_edges (time_of net sd_EarlyStart)"
proof -
  obtain net where net: "ComputeCPM (\<lambda>x. x) sample_nodes sample_edges = Inr net"
    using sample_cpm by (auto split: sum.splits)
  have "mono (\<lambda>x::rat. x)" by (simp add: mono_def)
  from early_schedule_least [OF net this] net show ?thesis by blast
qed

theorem schedules_extreme_witness:
  "\<exists>net. ComputeCPM (\<lambda>x. x) sample_nodes sample_edges = Inr net \<and> nw_CriticalPath net \<noteq> []
     \<and> obeys (\<lambda>x. x) sample_nodes sample_edges (time_of net sd_LateStart)"
proof -
  obtain net where net: "ComputeCPM (\<lambda>x. x) sample_nodes sample_edges = Inr net"
    using sample_cpm by (auto split: sum.splits)
  have "on_grid 1 (of_int k)" for k by (auto simp: on_grid_def)
  from this [of 3] this [of 2] this [of 4] have "gridded (\<lambda>x. x) 1 sample_nodes"
    by (simp add: gridded_def sample_nodes_def exact_to_def)
  moreover have "sample_nodes \<noteq> []" by (simp add: sample_nodes_def)
  ultimately show ?thesis using schedules_extreme [OF net] net by blast
qed

section \<open>The hint\<close>

lemma map_sort_key:
  "distinct (map g (sort_key f xs)) = distinct (map g xs)" "set (map g (sort_key f xs)) = set (map g xs)"
  by (simp_all add: distinct_map)

lemma ComputeCPM_gwf: "ComputeCPM rnd nodes edges = Inr net \<Longrightarrow> gwf (nw_Schedules net)"
proof -
  have "gwf (foldl (\<lambda>m i. gput i (f i) m) m xs)" if "gwf m" for f :: "string \<Rightarrow> schedule" and m xs
    using that by (induction xs arbitrary: m) simp_all
  then show "ComputeCPM rnd nodes edges = Inr net \<Longrightarrow> gwf (nw_Schedules net)"
    by (auto simp: ComputeCPM_def Let_def split: sum.splits option.splits prod.splits)
qed

text \<open>The hint is the tasks that are left, least slack first. \<^verbatim>\<open>Parallelizable\<close> returns tasks of the
  network that are not done, each once, in the order of their slack (critical tasks first), and when it
  returns fewer than there are, no task it leaves out has less slack than one it returns. A limit of
  zero or less is no limit.\<close>

theorem hint_least_slack:
  assumes "ComputeCPM rnd nodes edges = Inr net"
  shows "distinct (Parallelizable net finished n)
     \<and> set (Parallelizable net finished n) \<subseteq> nd_ID ` set nodes - finished
     \<and> sorted (map (time_of net sd_Slack) (Parallelizable net finished n))
     \<and> (n \<le> 0 \<longrightarrow> set (Parallelizable net finished n) = nd_ID ` set nodes - finished)
     \<and> (0 < n \<longrightarrow> length (Parallelizable net finished n) = min (nat n) (card (nd_ID ` set nodes - finished)))
     \<and> (\<forall>v \<in> set (Parallelizable net finished n). \<forall>w \<in> nd_ID ` set nodes - finished - set (Parallelizable net finished n).
          time_of net sd_Slack v \<le> time_of net sd_Slack w)"
proof -
  obtain es ef ls lf where
    sch: "\<And>v. gget (nw_Schedules net) v = (if v \<in> nd_ID ` set nodes
        then Some (schedule_of rnd (duration_of nodes v) (es v) (ef v) (ls v) (lf v) v) else None)"
    by (rule ComputeCPM_Inr [OF assms]) blast
  have wf: "distinct (map fst (nw_Schedules net))" using ComputeCPM_gwf [OF assms] by (simp add: gwf_def)
  let ?left = "filter (\<lambda>(i, s). i \<notin> finished) (nw_Schedules net)"
  let ?cs = "sort_key (\<lambda>c. (snd c, fst c)) (map (\<lambda>(i, s). (i, sd_Slack s)) ?left)"
  let ?m = "if 0 < n \<and> n < int (length ?cs) then nat n else length ?cs"
  have par: "Parallelizable net finished n = take ?m (map fst ?cs)" by (simp add: Parallelizable_def Let_def take_map)
  have keys: "fst ` set (nw_Schedules net) = nd_ID ` set nodes"
  proof -
    have "v \<in> fst ` set (nw_Schedules net) \<longleftrightarrow> gget (nw_Schedules net) v \<noteq> None" for v
      by (simp add: gget_def map_of_eq_None_iff)
    then have "v \<in> fst ` set (nw_Schedules net) \<longleftrightarrow> v \<in> nd_ID ` set nodes" for v
      by (simp only: sch) (simp split: if_splits)
    then show ?thesis by (intro set_eqI)
  qed
  have "set (map fst ?left) = fst ` set (nw_Schedules net) - finished" by force
  moreover have "distinct (map fst ?left)" using wf by (auto simp: distinct_map intro: inj_on_subset)
  ultimately have "distinct (map fst ?left)" "set (map fst ?left) = nd_ID ` set nodes - finished" by (simp_all only: keys)
  moreover have "map fst (map (\<lambda>(i, s). (i, sd_Slack s)) ?left) = map fst ?left" by (simp add: comp_def case_prod_unfold)
  then have "distinct (map fst ?cs) = distinct (map fst ?left)" "set (map fst ?cs) = set (map fst ?left)"
    by (simp_all only: map_sort_key)
  ultimately have d: "distinct (map fst ?cs)" and s: "set (map fst ?cs) = nd_ID ` set nodes - finished" by simp_all
  have slack: "snd c = time_of net sd_Slack (fst c)" if "c \<in> set ?cs" for c
    using that wf by (auto simp: time_of_def gget_def split: option.split dest: eq_key_imp_eq_value [OF wf])
  have "sorted (map (\<lambda>c. (snd c, fst c)) ?cs)" by simp
  then have "sorted_wrt (\<lambda>c e. (snd c, fst c) \<le> (snd e, fst e)) ?cs" by (simp only: sorted_wrt_map)
  then have "sorted_wrt (\<lambda>c e. snd c \<le> snd e) ?cs" by (rule sorted_wrt_mono_rel [rotated]) (auto simp: less_eq_prod_def)
  then have "sorted (map snd ?cs)" by (simp only: sorted_wrt_map)
  moreover have "map snd ?cs = map (time_of net sd_Slack) (map fst ?cs)" using slack by (simp add: comp_def)
  ultimately have o: "sorted (map (time_of net sd_Slack) (map fst ?cs))" by simp
  have len: "length ?cs = card (nd_ID ` set nodes - finished)" using distinct_card [OF d] s by simp
  let ?k = "map fst ?cs"
  have "sorted (map (time_of net sd_Slack) (take ?m ?k @ drop ?m ?k))" using o by simp
  then have sep: "sorted (map (time_of net sd_Slack) (take ?m ?k))"
    "\<forall>v \<in> set (take ?m ?k). \<forall>w \<in> set (drop ?m ?k). time_of net sd_Slack v \<le> time_of net sd_Slack w"
    unfolding map_append sorted_append by auto
  have part: "set ?k = set (take ?m ?k) \<union> set (drop ?m ?k)" by (metis append_take_drop_id set_append)
  show ?thesis unfolding par s [symmetric]
  proof (intro conjI impI ballI)
    show "distinct (take ?m ?k)" using d by (rule distinct_take)
    show "sorted (map (time_of net sd_Slack) (take ?m ?k))" by (rule sep(1))
    show "set (take ?m ?k) \<subseteq> set ?k" by (rule set_take_subset)
    show "set (take ?m ?k) = set ?k" if "n \<le> 0" using that by simp
    show "length (take ?m ?k) = min (nat n) (card (set ?k))" if "0 < n"
      using that distinct_card [OF d] by auto
    show "time_of net sd_Slack v \<le> time_of net sd_Slack w" if "v \<in> set (take ?m ?k)" "w \<in> set ?k - set (take ?m ?k)" for v w
      using sep(2) that part by blast
  qed
qed

theorem hint_least_slack_witness:
  "\<exists>net. ComputeCPM (\<lambda>x. x) sample_nodes sample_edges = Inr net
     \<and> set (Parallelizable net {''a''} 0) = {''b'', ''c''} \<and> length (Parallelizable net {''a''} 1) = 1"
proof -
  obtain net where net: "ComputeCPM (\<lambda>x. x) sample_nodes sample_edges = Inr net"
    using sample_cpm by (auto split: sum.splits)
  have "nd_ID ` set sample_nodes - {''a''} = {''b'', ''c''}" by (auto simp: sample_nodes_def)
  with hint_least_slack [OF net, of "{''a''}" 0] hint_least_slack [OF net, of "{''a''}" 1] net show ?thesis by auto
qed

end
