(* ===== verification/Project_Store.thy ===== *)
theory Project_Store
  imports Event_Log
begin

text \<open>
  Names and projects (\<^verbatim>\<open>Slugify\<close> to \<^verbatim>\<open>ListProjects\<close> of \<^verbatim>\<open>internal/store/store.go\<close>, the paths of
  \<^verbatim>\<open>internal/workspace/workspace.go\<close> and the landing policies of \<^verbatim>\<open>internal/model/landing.go\<close>). The
  workspace is a map of paths to bytes, as for the event log; a directory is there when a file is below
  it. The theorems: slugs are safe file names, a resolved landing policy is always a valid one, and a
  project that was created or configured is read back as such with nothing else changed.
\<close>

section \<open>Numbers\<close>

text \<open>\<^verbatim>\<open>strconv.Itoa\<close> of a number that is not negative and of any, and the verbs \<^verbatim>\<open>%03d\<close> and \<^verbatim>\<open>%08x\<close>.\<close>

fun itoa :: "nat \<Rightarrow> string" where
  "itoa n = (if n < 10 then [char_of (48 + n)] else itoa (n div 10) @ [char_of (48 + n mod 10)])"

declare itoa.simps [simp del]

definition itoa_int :: "int \<Rightarrow> string" where
  "itoa_int i = (if i < 0 then CHR ''-'' # itoa (nat (- i)) else itoa (nat i))"

definition pad3 :: "int \<Rightarrow> string" where
  "pad3 i =
     (if i < 0 then CHR ''-'' # replicate (2 - length (itoa (nat (- i)))) CHR ''0'' @ itoa (nat (- i))
      else replicate (3 - length (itoa (nat i))) CHR ''0'' @ itoa (nat i))"

definition hex_digit :: "nat \<Rightarrow> char" where
  "hex_digit n = (if n < 10 then char_of (48 + n) else char_of (87 + n))"

definition hex8 :: "32 word \<Rightarrow> string" where
  "hex8 w = map (\<lambda>i. hex_digit (unat w div 16 ^ i mod 16)) (rev [0..<8])"

lemma of_char_digit:
  fixes n :: nat
  assumes "n < 10"
  shows "(of_char (char_of (48 + n) :: char) :: int) = 48 + int n"
proof -
  have "of_char (char_of (48 + n) :: char) = 48 + n" using assms by (simp add: of_char_of)
  then show ?thesis by (metis of_nat_add of_nat_numeral of_nat_of_char)
qed

lemma digit_char: "n < 10 \<Longrightarrow> is_digit (char_of (48 + n :: nat))"
proof -
  assume "n < 10"
  then have "n \<in> set [0, 1, 2, 3, 4, 5, 6, 7, 8, 9]" by auto
  moreover have "list_all (\<lambda>n. is_digit (char_of (48 + n :: nat))) [0, 1, 2, 3, 4, 5, 6, 7, 8, 9]" by code_simp
  ultimately show ?thesis by (simp only: list_all_iff)
qed

lemma itoa_digits: "itoa n \<noteq> [] \<and> list_all is_digit (itoa n)"
proof (induction n rule: itoa.induct)
  case (1 n)
  then show ?case using digit_char [of n] digit_char [of "n mod 10"] by (subst (1 2) itoa.simps) auto
qed

lemma decimal_itoa [simp]: "decimal (itoa n) = Some (int n)"
proof -
  have "foldl (\<lambda>n c. 10 * n + (of_char c - 48)) 0 (itoa n) = int n"
  proof (induction n rule: less_induct)
    case (less n)
    have last: "(of_char (char_of (48 + n mod 10)) :: int) = 48 + int (n mod 10)" by (rule of_char_digit) simp
    have whole: "10 * int (n div 10) + int (n mod 10) = int n" by (simp add: zdiv_int zmod_int)
    show ?case
    proof (cases "9 < n")
      case True
      with less.IH [of "n div 10"] last whole show ?thesis by (subst itoa.simps) simp
    qed (simp add: itoa.simps of_char_digit)
  qed
  then show ?thesis using itoa_digits [of n] by (simp add: decimal_def)
qed

lemma decimal_pad [simp]: "decimal (replicate k CHR ''0'' @ itoa n) = Some (int n)"
proof -
  have z: "foldl (\<lambda>n c. 10 * n + (of_char c - 48)) (0 :: int) (replicate k CHR ''0'') = 0" for k by (induction k) auto
  have "is_digit CHR ''0''" by code_simp
  then have "list_all is_digit (replicate k CHR ''0'')" by (simp add: list_all_iff)
  with z decimal_itoa [of n] itoa_digits [of n] show ?thesis by (auto simp: decimal_def split: if_splits)
qed

lemma itoa_inj: "itoa m = itoa n \<longleftrightarrow> m = n"
  using decimal_itoa [of m] decimal_itoa [of n] by (metis of_nat_eq_iff option.inject)

section \<open>Slugs\<close>

definition slug_char :: "char \<Rightarrow> bool" where
  "slug_char c \<longleftrightarrow> (CHR ''a'' \<le> c \<and> CHR ''z'' \<ge> c) \<or> is_digit c"

text \<open>The loop over the runes. A rune outside ASCII is a run of bytes that are no slug characters, so the loop
  may run over bytes. \<open>out\<close> is the builder.\<close>

fun slug_loop :: "bool \<Rightarrow> string \<Rightarrow> string \<Rightarrow> string" where
  "slug_loop dash out [] = out"
| "slug_loop dash out (c # s) =
     (if slug_char c then slug_loop False (out @ [c]) s
      else if \<not> dash \<and> out \<noteq> [] then slug_loop True (out @ ''-'') s
      else slug_loop dash out s)"

text \<open>What precedes the last \<open>c\<close>, if there is one.\<close>

definition before_last :: "char \<Rightarrow> string \<Rightarrow> string option" where
  "before_last c s = (if c \<in> set s then Some (rev (tl (dropWhile (\<lambda>x. x \<noteq> c) (rev s)))) else None)"

definition fnv32a :: "string \<Rightarrow> 32 word" where
  "fnv32a s = foldl (\<lambda>h c. xor h (word_of_nat (of_char c)) * 16777619) 2166136261 s"

definition Slugify :: "string \<Rightarrow> string" where
  "Slugify orig =
     (let s = trim_suffix (slug_loop False [] (to_lower orig)) ''-'';
          s = (if 80 < length s then
                 (case before_last CHR ''-'' (take 80 s) of Some p \<Rightarrow> if p \<noteq> [] then p else take 80 s | None \<Rightarrow> take 80 s)
               else s)
      in if s = [] then ''u'' @ hex8 (fnv32a orig) else s)"

section \<open>Paths\<close>

definition SafeSegment :: "string \<Rightarrow> bool" where
  "SafeSegment s \<longleftrightarrow> s \<notin> {[], ''.'', ''..''} \<and> CHR ''/'' \<notin> set s \<and> CHR 0x00 \<notin> set s \<and> \<not> has_infix s ''..''"

text \<open>\<^verbatim>\<open>filepath.Join\<close> of a clean root and segments without a separator.\<close>

definition dacli :: "string \<Rightarrow> string list \<Rightarrow> string" where
  "dacli root parts = join_with ''/'' (root # ''.dacli'' # parts)"

definition project_segment :: "string \<Rightarrow> string" where
  "project_segment slug = (if SafeSegment slug then slug else ''__invalid_segment__'')"

definition ProjectDir :: "string \<Rightarrow> string \<Rightarrow> string" where
  "ProjectDir root slug = dacli root [''projects'', project_segment slug]"

definition ProjectPath :: "string \<Rightarrow> string \<Rightarrow> string" where
  "ProjectPath root slug = ProjectDir root slug @ ''/project.md''"

definition TasksDir :: "string \<Rightarrow> ident \<Rightarrow> verb \<Rightarrow> string" where
  "TasksDir root project st = ProjectDir root project @ ''/tasks/'' @ st"

definition TombstonesDir :: "string \<Rightarrow> string \<Rightarrow> string" where
  "TombstonesDir root project = ProjectDir root project @ ''/tasks/removed''"

text \<open>\<^verbatim>\<open>os.ReadDir\<close>: the names of the files in a directory and of the directories in it, in order.\<close>

definition below :: "string \<Rightarrow> log_file list \<Rightarrow> string list" where
  "below dir files = map (\<lambda>f. drop (length dir + 1) (fst f)) (filter (\<lambda>f. has_prefix (fst f) (dir @ ''/'')) files)"

definition read_files :: "string \<Rightarrow> log_file list \<Rightarrow> string list" where
  "read_files dir files = sort (remdups (filter (\<lambda>n. CHR ''/'' \<notin> set n) (below dir files)))"

definition read_dirs :: "string \<Rightarrow> log_file list \<Rightarrow> string list" where
  "read_dirs dir files =
     sort (remdups (map (takeWhile (\<lambda>c. c \<noteq> CHR ''/'')) (filter (\<lambda>n. CHR ''/'' \<in> set n) (below dir files))))"

section \<open>Slugs are safe names\<close>

definition undoubled :: "string \<Rightarrow> bool" where
  "undoubled s \<longleftrightarrow> successively (\<lambda>a b. a = CHR ''-'' \<longrightarrow> b \<noteq> CHR ''-'') s"

definition slug_shape :: "string \<Rightarrow> bool" where
  "slug_shape s \<longleftrightarrow> list_all (\<lambda>c. slug_char c \<or> c = CHR ''-'') s \<and> undoubled s \<and> (s \<noteq> [] \<longrightarrow> hd s \<noteq> CHR ''-'')"

definition slug_wf :: "string \<Rightarrow> bool" where
  "slug_wf s \<longleftrightarrow> slug_shape s \<and> s \<noteq> [] \<and> last s \<noteq> CHR ''-''"

lemma slug_char_dash [simp]: "\<not> slug_char CHR ''-''"
  by code_simp

lemma undoubled_snoc: "undoubled (s @ [c]) \<longleftrightarrow> undoubled s \<and> (s \<noteq> [] \<longrightarrow> last s = CHR ''-'' \<longrightarrow> c \<noteq> CHR ''-'')"
  by (auto simp: undoubled_def successively_append_iff)

lemma undoubled_append: "undoubled (s @ t) \<Longrightarrow> undoubled s \<and> undoubled t"
  by (auto simp: undoubled_def successively_append_iff)

lemma slug_shape_take: "slug_shape s \<Longrightarrow> slug_shape (take n s)"
proof -
  assume "slug_shape s"
  moreover have "undoubled (take n s)" if "undoubled s"
    using that undoubled_append [of "take n s" "drop n s"] by simp
  moreover have "hd (take n s) = hd s" if "take n s \<noteq> []" using that by (cases s; cases n) auto
  ultimately show ?thesis by (auto simp: slug_shape_def list_all_iff dest: in_set_takeD)
qed

lemma slug_loop_shape:
  "slug_shape out \<Longrightarrow> dash \<longleftrightarrow> out \<noteq> [] \<and> last out = CHR ''-'' \<Longrightarrow> slug_shape (slug_loop dash out s)"
proof (induction s arbitrary: dash out)
  case (Cons c s)
  have "c \<noteq> CHR ''-''" if "slug_char c" using that by auto
  moreover from this have "slug_shape (out @ [c])" if "slug_char c"
    using that Cons.prems \<open>slug_char c \<Longrightarrow> c \<noteq> CHR ''-''\<close> by (simp add: slug_shape_def undoubled_snoc hd_append)
  moreover have "slug_shape (out @ ''-'')" if "\<not> dash" "out \<noteq> []"
    using that Cons.prems by (auto simp: slug_shape_def undoubled_snoc)
  ultimately show ?case
    using Cons.prems Cons.IH [of out dash] Cons.IH [of "out @ [c]" False] Cons.IH [of "out @ ''-''" True]
    by (cases "slug_char c"; cases "dash"; cases "out = []") simp_all
qed simp

lemma slug_loop_id:
  "slug_shape (out @ s) \<Longrightarrow> dash \<longleftrightarrow> out \<noteq> [] \<and> last out = CHR ''-'' \<Longrightarrow> slug_loop dash out s = out @ s"
proof (induction s arbitrary: dash out)
  case (Cons c s)
  show ?case
  proof (cases "slug_char c")
    case True
    then have "c \<noteq> CHR ''-''" by auto
    with True Cons.IH [of "out @ [c]" False] Cons.prems show ?thesis by simp
  next
    case False
    with Cons.prems have c: "c = CHR ''-''" by (auto simp: slug_shape_def)
    with Cons.prems have "out \<noteq> []" by (auto simp: slug_shape_def)
    moreover have "undoubled (out @ [c])" using Cons.prems(1) undoubled_append [of "out @ [c]" s] by (simp add: slug_shape_def)
    with c \<open>out \<noteq> []\<close> Cons.prems(2) have "\<not> dash" by (auto simp: undoubled_snoc)
    ultimately show ?thesis using False c Cons.IH [of "out @ [c]" True] Cons.prems(1) by simp
  qed
qed simp

lemma trim_dash: "slug_shape s \<Longrightarrow> slug_shape (trim_suffix s ''-'') \<and> (trim_suffix s ''-'' \<noteq> [] \<longrightarrow> last (trim_suffix s ''-'') \<noteq> CHR ''-'')"
proof (cases s rule: rev_cases)
  case (snoc t c)
  assume "slug_shape s"
  with snoc show ?thesis
    by (auto simp: trim_suffix_def has_suffix_iff slug_shape_def undoubled_snoc hd_append)
qed (simp add: trim_suffix_def has_suffix_iff)

lemma before_last_append: "before_last c s = Some p \<Longrightarrow> \<exists>t. s = p @ c # t \<and> c \<notin> set t"
proof -
  assume b: "before_last c s = Some p"
  then have c: "c \<in> set s" and p: "p = rev (tl (dropWhile (\<lambda>x. x \<noteq> c) (rev s)))" by (auto simp: before_last_def split: if_splits)
  let ?d = "dropWhile (\<lambda>x. x \<noteq> c) (rev s)" and ?t = "takeWhile (\<lambda>x. x \<noteq> c) (rev s)"
  have "?d \<noteq> []" using c by simp
  moreover from this have "hd ?d = c" using hd_dropWhile by blast
  ultimately have d: "?d = c # tl ?d" by (metis list.collapse)
  have "rev s = ?t @ ?d" by simp
  then have "s = rev ?d @ rev ?t" by (metis rev_append rev_rev_ident)
  then have "s = p @ c # rev ?t" unfolding p by (subst (asm) d) simp
  moreover have "c \<notin> set (rev ?t)" using set_takeWhileD by fastforce
  ultimately show ?thesis by blast
qed

lemma slug_char_hex: "slug_char (hex_digit (n mod 16))"
proof -
  have "n mod 16 \<in> set [0..<16]" by simp
  moreover have "list_all (\<lambda>n. slug_char (hex_digit n)) [0..<16]" by code_simp
  ultimately show ?thesis by (simp only: list_all_iff)
qed

lemma slug_chars_wf: "s \<noteq> [] \<Longrightarrow> list_all slug_char s \<Longrightarrow> slug_wf s"
proof -
  assume s: "s \<noteq> []" "list_all slug_char s"
  then have no: "\<forall>c \<in> set s. c \<noteq> CHR ''-''" by (auto simp: list_all_iff)
  then have "undoubled s" unfolding undoubled_def by (induction s rule: induct_list012) auto
  with s no show ?thesis by (auto simp: slug_wf_def slug_shape_def list_all_iff)
qed

lemma nonempty_or: "(r \<noteq> [] \<Longrightarrow> Q r) \<Longrightarrow> Q h \<Longrightarrow> x = (if r = [] then h else r) \<Longrightarrow> Q x"
  by simp

lemma Slugify_wf: "slug_wf (Slugify s) \<and> length (Slugify s) \<le> 80"
proof -
  let ?s = "trim_suffix (slug_loop False [] (to_lower s)) ''-''"
  have "slug_shape (slug_loop False [] (to_lower s))" by (rule slug_loop_shape) (simp_all add: slug_shape_def undoubled_def)
  from trim_dash [OF this] have s: "slug_shape ?s" "?s \<noteq> [] \<Longrightarrow> last ?s \<noteq> CHR ''-''" by blast+
  let ?t = "take 80 ?s"
  have t: "slug_shape ?t" using s(1) by (rule slug_shape_take)
  have cut: "slug_wf p \<and> length p \<le> 80" if "before_last CHR ''-'' ?t = Some p" "p \<noteq> []" for p
  proof -
    from before_last_append [OF that(1)] obtain u where u: "?t = p @ CHR ''-'' # u" by blast
    have "slug_shape p" using slug_shape_take [OF t, of "length p"] by (simp add: u)
    moreover have "undoubled (p @ [CHR ''-''])" using t u undoubled_append [of "p @ [CHR ''-'']" u] by (simp add: slug_shape_def)
    moreover have "length p \<le> length ?t" unfolding u by simp
    ultimately show ?thesis using that(2) by (simp add: slug_wf_def undoubled_snoc)
  qed
  have whole: "slug_wf ?t" if "80 < length ?s" "\<nexists>p. before_last CHR ''-'' ?t = Some p \<and> p \<noteq> []"
  proof -
    have "?t \<noteq> []" using that(1) by auto
    moreover have "CHR ''-'' \<notin> set ?t"
    proof
      assume "CHR ''-'' \<in> set ?t"
      then obtain p where p: "before_last CHR ''-'' ?t = Some p" by (simp add: before_last_def)
      with that(2) have "p = []" by blast
      with before_last_append [OF p] obtain u where "?t = CHR ''-'' # u" by auto
      with t show False by (simp add: slug_shape_def)
    qed
    then have "last ?t \<noteq> CHR ''-''" using \<open>?t \<noteq> []\<close> by (metis last_in_set)
    ultimately show ?thesis using t by (simp add: slug_wf_def)
  qed
  have hex: "slug_wf (''u'' @ hex8 (fnv32a s)) \<and> length (''u'' @ hex8 (fnv32a s)) \<le> 80"
  proof -
    have "slug_char CHR ''u''" by code_simp
    then have "list_all slug_char (''u'' @ hex8 (fnv32a s))" by (simp add: hex8_def list_all_iff slug_char_hex)
    moreover have "length (''u'' @ hex8 (fnv32a s)) \<le> 80" by (simp add: hex8_def)
    ultimately show ?thesis using slug_chars_wf by blast
  qed
  let ?r = "if 80 < length ?s then (case before_last CHR ''-'' ?t of Some p \<Rightarrow> if p \<noteq> [] then p else ?t | None \<Rightarrow> ?t) else ?s"
  have "slug_wf ?r \<and> length ?r \<le> 80" if "?r \<noteq> []"
  proof (cases "80 < length ?s")
    case True
    show ?thesis
    proof (cases "\<exists>p. before_last CHR ''-'' ?t = Some p \<and> p \<noteq> []")
      case True
      then obtain p where p: "before_last CHR ''-'' ?t = Some p" "p \<noteq> []" by blast
      from cut [OF p] p \<open>80 < length ?s\<close> show ?thesis by simp
    next
      case False
      with whole [OF \<open>80 < length ?s\<close>] \<open>80 < length ?s\<close> show ?thesis by (auto split: option.split)
    qed
  next
    case False
    with s that show ?thesis by (simp add: slug_wf_def)
  qed
  moreover have "Slugify s = (if ?r = [] then ''u'' @ hex8 (fnv32a s) else ?r)" by (simp only: Slugify_def Let_def)
  ultimately show ?thesis using nonempty_or [where Q = "\<lambda>s. slug_wf s \<and> length s \<le> 80", OF _ hex] by blast
qed

lemma slug_lower: "list_all (\<lambda>c. slug_char c \<or> c = CHR ''-'') s \<Longrightarrow> to_lower s = s"
proof (induction s)
  case (Cons c s)
  have up: "\<not> (slug_char c \<or> c = CHR ''-'') \<or> \<not> (CHR ''A'' \<le> c \<and> CHR ''Z'' \<ge> c) \<and> c \<noteq> CHR 0xC4 \<and> c \<noteq> CHR 0xE2" for c
  proof -
    have "slug_char c \<Longrightarrow> \<not> (CHR ''A'' \<le> c \<and> CHR ''Z'' \<ge> c)"
      by (auto simp: slug_char_def is_digit_def less_eq_char_def)
    moreover have "\<not> slug_char CHR 0xC4" "\<not> slug_char CHR 0xE2" "\<not> CHR ''A'' \<le> CHR ''-''" by code_simp+
    ultimately show ?thesis by (cases "c = CHR ''-''") auto
  qed
  from Cons up [of c] show ?case by (auto simp: to_lower_char_def)
qed simp

lemma Slugify_wf_id: "slug_wf s \<Longrightarrow> length s \<le> 80 \<Longrightarrow> Slugify s = s"
proof -
  assume s: "slug_wf s" "length s \<le> 80"
  then have "to_lower s = s" "slug_loop False [] s = s"
    using slug_lower slug_loop_id [of "[]" s False] by (auto simp: slug_wf_def slug_shape_def)
  moreover have "trim_suffix s ''-'' = s" using s(1) by (auto simp: slug_wf_def trim_suffix_def has_suffix_iff)
  ultimately show ?thesis using s by (simp add: Slugify_def slug_wf_def)
qed

lemma has_infix_iff: "has_infix s p \<longleftrightarrow> (\<exists>a b. s = a @ p @ b)"
proof (induction s)
  case (Cons x s)
  have "(\<exists>a b. x # s = a @ p @ b) \<longleftrightarrow> (\<exists>b. x # s = p @ b) \<or> (\<exists>a b. s = a @ p @ b)"
    by (metis append_Cons append_Nil list.inject neq_Nil_conv)
  with Cons show ?case by (simp add: has_prefix_iff)
qed simp

lemma slug_safe:
  assumes "slug_wf s"
  shows "SafeSegment s" "\<not> has_prefix s ''_''"
proof -
  have c: "\<forall>c \<in> set s. slug_char c \<or> c = CHR ''-''" "s \<noteq> []" using assms by (auto simp: slug_wf_def slug_shape_def list_all_iff)
  have "\<not> slug_char CHR ''/''" "\<not> slug_char CHR ''.''" "\<not> slug_char CHR 0x00" "\<not> slug_char CHR ''_''" by code_simp+
  with c have no: "CHR ''/'' \<notin> set s" "CHR ''.'' \<notin> set s" "CHR 0x00 \<notin> set s" "CHR ''_'' \<notin> set s" by auto
  then show "SafeSegment s" using c(2) by (auto simp: SafeSegment_def has_infix_iff)
  show "\<not> has_prefix s ''_''" using no(4) by (auto simp: has_prefix_iff)
qed

text \<open>A slug is a safe name, and making one is idempotent. For every title, of whatever bytes and length,
  the slug is not empty and has at most 80 bytes, all of them lower-case letters, digits or single
  inner dashes; so it is one path segment that stays in its directory. A slug is its own slug.\<close>

theorem slug_safe_name:
  "Slugify s \<noteq> [] \<and> length (Slugify s) \<le> 80 \<and> list_all (\<lambda>c. slug_char c \<or> c = CHR ''-'') (Slugify s)
     \<and> hd (Slugify s) \<noteq> CHR ''-'' \<and> last (Slugify s) \<noteq> CHR ''-'' \<and> \<not> has_infix (Slugify s) ''--''
     \<and> SafeSegment (Slugify s) \<and> Slugify (Slugify s) = Slugify s"
proof -
  have w: "slug_wf (Slugify s)" "length (Slugify s) \<le> 80" using Slugify_wf by blast+
  have "\<not> has_infix (Slugify s) ''--''"
    using w(1) by (auto simp: slug_wf_def slug_shape_def undoubled_def has_infix_iff successively_append_iff)
  with w show ?thesis using slug_safe [OF w(1)] Slugify_wf_id [OF w] by (simp add: slug_wf_def slug_shape_def list_all_iff)
qed

section \<open>Landing policies\<close>

record landing_policy =
  lp_Mode :: verb
  lp_Base :: string

text \<open>A field that was not given on the command line is \<open>None\<close>.\<close>

record landing_override =
  ov_Mode :: "verb option"
  ov_Base :: "string option"

datatype landing_error = UnknownMode | BlankBase | UnsafeBase

definition validateLandingBase :: "string \<Rightarrow> landing_error option" where
  "validateLandingBase base =
     (if trim_space base = [] then Some BlankBase
      else if has_prefix base ''-'' \<or> has_prefix base ''.'' \<or> has_prefix base ''/'' \<or> has_suffix base ''/'' \<or> has_suffix base ''.''
        \<or> has_infix base ''..'' \<or> has_infix base ''//'' \<or> has_infix base [CHR ''@'', CHR 0x7B] \<or> base = ''HEAD'' then Some UnsafeBase
      else if list_ex (\<lambda>c. c < CHR 0x20 \<or> c = CHR 0x7F \<or> c \<in> set '' ~^:?*['' \<or> c = CHR 0x5C) base then Some UnsafeBase
      else if list_ex (\<lambda>p. has_prefix p ''.'' \<or> has_suffix p ''.lock'') (split_on CHR ''/'' base) then Some UnsafeBase
      else None)"

definition ValidateLandingPolicy :: "landing_policy \<Rightarrow> landing_error option" where
  "ValidateLandingPolicy p =
     (if lp_Mode p \<noteq> ''local'' \<and> lp_Mode p \<noteq> ''pr'' then Some UnknownMode
      else if lp_Base p \<noteq> [] then validateLandingBase (lp_Base p)
      else None)"

text \<open>Whether a field was overridden, and the policy.\<close>

definition ResolveLanding :: "landing_policy \<Rightarrow> landing_override \<Rightarrow> bool \<times> (landing_error + landing_policy)" where
  "ResolveLanding config0 ov =
     (let config = (if lp_Mode config0 = [] then config0\<lparr>lp_Mode := ''local''\<rparr> else config0) in
      case ValidateLandingPolicy config of
        Some e \<Rightarrow> (False, Inl e)
      | None \<Rightarrow>
          let effective = (case ov_Mode ov of None \<Rightarrow> config | Some m \<Rightarrow> config\<lparr>lp_Mode := m\<rparr>) in
          case ov_Base ov of
            None \<Rightarrow> (ov_Mode ov \<noteq> None, case ValidateLandingPolicy effective of Some e \<Rightarrow> Inl e | None \<Rightarrow> Inr effective)
          | Some b \<Rightarrow>
              if trim_space b = [] then (True, Inl BlankBase)
              else (True, case ValidateLandingPolicy (effective\<lparr>lp_Base := b\<rparr>) of Some e \<Rightarrow> Inl e
                          | None \<Rightarrow> Inr (effective\<lparr>lp_Base := b\<rparr>)))"

definition no_override :: landing_override where
  "no_override = \<lparr>ov_Mode = None, ov_Base = None\<rparr>"

section \<open>Projects\<close>

datatype file_error = NotExist | BadFile read_error

definition read_at :: "log_file list \<Rightarrow> string \<Rightarrow> file_error + doc" where
  "read_at files path =
     (case gget files path of
        None \<Rightarrow> Inl NotExist
      | Some b \<Rightarrow> map_sum BadFile id (ReadFile \<lparr>dk_target = b, dk_temp = None\<rparr>))"

definition write_at :: "durable_ops \<Rightarrow> string \<Rightarrow> doc \<Rightarrow> log_file list \<Rightarrow> bool \<times> log_file list" where
  "write_at io path d files =
     (let (ok, dk) = WriteFile io d \<lparr>dk_target = (case gget files path of None \<Rightarrow> None | Some b \<Rightarrow> b), dk_temp = None\<rparr>
      in (ok, case dk_target dk of None \<Rightarrow> files | Some b \<Rightarrow> gput path (Some b) files))"

record project =
  pj_Slug :: string
  pj_Doc :: doc
  pj_Path :: string
  pj_Title :: string
  pj_Stage :: string
  pj_Landing :: landing_policy

datatype project_error = ProjectNotFound | ProjectUnreadable | ProjectInvalid landing_error | BadSlug | ProjectExists
  | BadLanding landing_error | ProjectWrite

fun first_title :: "md_section list \<Rightarrow> string" where
  "first_title [] = []"
| "first_title (s # ss) = (if sc_Level s = 1 then sc_Title s else first_title ss)"

definition doc_landing :: "doc \<Rightarrow> landing_policy" where
  "doc_landing d = \<lparr>lp_Mode = get0 (dc_Front d) ''landing.mode'', lp_Base = get0 (dc_Front d) ''landing.base''\<rparr>"

definition LoadProject :: "string \<Rightarrow> log_file list \<Rightarrow> string \<Rightarrow> project_error + project" where
  "LoadProject root files slug =
     (case read_at files (ProjectPath root slug) of
        Inl NotExist \<Rightarrow> Inl ProjectNotFound
      | Inl _ \<Rightarrow> Inl ProjectUnreadable
      | Inr d \<Rightarrow>
          if (case Get (dc_Front d) ''landing.base'' of None \<Rightarrow> False | Some b \<Rightarrow> trim_space b = []) then Inl (ProjectInvalid BlankBase)
          else case snd (ResolveLanding (doc_landing d) no_override) of
            Inl e \<Rightarrow> Inl (ProjectInvalid e)
          | Inr _ \<Rightarrow> Inr \<lparr>pj_Slug = slug, pj_Doc = d, pj_Path = ProjectPath root slug, pj_Title = first_title (dc_Sections d),
              pj_Stage = get0 (dc_Front d) ''stage'', pj_Landing = doc_landing d\<rparr>)"

definition project_fields ::
    "string \<Rightarrow> string \<Rightarrow> ident \<Rightarrow> string \<Rightarrow> landing_policy option \<Rightarrow> (string \<times> string) list" where
  "project_fields slug created actor stage landing =
     [(''id'', ''p-'' @ slug), (''kind'', ''project''), (''created'', created), (''created_by'', actor),
      (''status'', ''active''), (''stage'', stage)]
     @ (case landing of None \<Rightarrow> []
        | Some p \<Rightarrow> (''landing.mode'', lp_Mode p) # (if lp_Base p \<noteq> [] then [(''landing.base'', lp_Base p)] else []))"

definition project_doc ::
    "string \<Rightarrow> string \<Rightarrow> ident \<Rightarrow> string \<Rightarrow> landing_policy option \<Rightarrow> verb \<Rightarrow> string \<Rightarrow> doc" where
  "project_doc slug created actor stage landing title goal =
     \<lparr>dc_Front = foldl (\<lambda>f (k, v). Set f k v) [] (project_fields slug created actor stage landing),
      dc_Sections =
        [\<lparr>sc_Level = 1, sc_Title = title, sc_Content = []\<rparr>, \<lparr>sc_Level = 2, sc_Title = ''Goal'', sc_Content = goal @ [newline]\<rparr>,
         \<lparr>sc_Level = 2, sc_Title = ''Constraints'', sc_Content = []\<rparr>, \<lparr>sc_Level = 2, sc_Title = ''Out of scope'', sc_Content = []\<rparr>,
         \<lparr>sc_Level = 2, sc_Title = ''Success criteria'', sc_Content = []\<rparr>]\<rparr>"

definition CreateProject ::
    "durable_ops \<Rightarrow> string \<Rightarrow> string \<Rightarrow> ident \<Rightarrow> string \<Rightarrow> string \<Rightarrow> verb \<Rightarrow> string \<Rightarrow> landing_policy option
       \<Rightarrow> log_file list \<Rightarrow> (project_error + project) \<times> log_file list" where
  "CreateProject io root created actor title slug0 goal stage0 landing files =
     (let slug = (if slug0 = [] then Slugify title else slug0); path = ProjectPath root slug in
      if \<not> SafeSegment slug then (Inl BadSlug, files)
      else if gget files path \<noteq> None then (Inl ProjectExists, files)
      else let stage = (if stage0 = [] then ''definition'' else stage0) in
        case (case landing of None \<Rightarrow> None | Some p \<Rightarrow> ValidateLandingPolicy p) of
          Some e \<Rightarrow> (Inl (BadLanding e), files)
        | None \<Rightarrow>
            let d = project_doc slug created actor stage landing title goal; (ok, files') = write_at io path d files in
            if \<not> ok then (Inl ProjectWrite, files')
            else (Inr \<lparr>pj_Slug = slug, pj_Doc = d, pj_Path = path, pj_Title = title, pj_Stage = stage,
                    pj_Landing = (case landing of None \<Rightarrow> \<lparr>lp_Mode = [], lp_Base = []\<rparr> | Some p \<Rightarrow> p)\<rparr>, files'))"

definition SaveProject :: "durable_ops \<Rightarrow> project \<Rightarrow> log_file list \<Rightarrow> bool \<times> log_file list" where
  "SaveProject io p files = write_at io (pj_Path p) (pj_Doc p) files"

definition ConfigureProjectLanding :: "project \<Rightarrow> landing_policy \<Rightarrow> landing_error + project" where
  "ConfigureProjectLanding p policy =
     (case ValidateLandingPolicy policy of
        Some e \<Rightarrow> Inl e
      | None \<Rightarrow>
          let f = Set (dc_Front (pj_Doc p)) ''landing.mode'' (lp_Mode policy);
              f' = (if lp_Base policy = [] then Delete f ''landing.base'' else Set f ''landing.base'' (lp_Base policy))
          in Inr (p\<lparr>pj_Doc := (pj_Doc p)\<lparr>dc_Front := f'\<rparr>, pj_Landing := policy\<rparr>))"

text \<open>The body of the function; it runs under the lock of the project.\<close>

definition UpdateProjectLanding ::
    "durable_ops \<Rightarrow> string \<Rightarrow> string \<Rightarrow> landing_override \<Rightarrow> log_file list \<Rightarrow> (project_error + project) \<times> log_file list" where
  "UpdateProjectLanding io root slug ov files =
     (case LoadProject root files slug of
        Inl e \<Rightarrow> (Inl e, files)
      | Inr p \<Rightarrow>
          (case ResolveLanding (pj_Landing p) ov of
             (_, Inl e) \<Rightarrow> (Inl (BadLanding e), files)
           | (explicit, Inr policy) \<Rightarrow>
               if \<not> explicit then (Inr p, files)
               else case ConfigureProjectLanding p policy of
                 Inl e \<Rightarrow> (Inl (BadLanding e), files)
               | Inr p' \<Rightarrow>
                   let (ok, files') = SaveProject io p' files in
                   if \<not> ok then (Inl ProjectWrite, files') else (LoadProject root files' slug, files')))"

text \<open>\<^verbatim>\<open>os.RemoveAll\<close> stops at a file that it cannot remove; \<open>removed\<close> says which files went.\<close>

definition DeleteProject ::
    "(string \<Rightarrow> bool) \<Rightarrow> string \<Rightarrow> string \<Rightarrow> log_file list \<Rightarrow> project_error option \<times> log_file list" where
  "DeleteProject removed root slug files =
     (let inside = (\<lambda>f. has_prefix (fst f) (ProjectDir root slug @ ''/'')) in
      if \<not> list_ex inside files then (Some ProjectNotFound, files)
      else let files' = filter (\<lambda>f. \<not> (inside f \<and> removed (fst f))) files in
        (if list_ex inside files' then Some ProjectWrite else None, files'))"

definition ListProjects :: "string \<Rightarrow> log_file list \<Rightarrow> project list" where
  "ListProjects root files =
     concat (map (\<lambda>name. case LoadProject root files name of Inl _ \<Rightarrow> [] | Inr p \<Rightarrow> [p])
       (filter (\<lambda>name. \<not> has_prefix name ''_'') (read_dirs (dacli root [''projects'']) files)))"

section \<open>Documents that are written and read\<close>

lemma write_at_ok: "write_at io path d files = (True, files') \<Longrightarrow> files' = gput path (Some (Render d)) files"
  by (auto simp: write_at_def WriteFile_ok split: prod.splits)

lemma write_at_other: "write_at io path d files = (ok, files') \<Longrightarrow> q \<noteq> path \<Longrightarrow> gget files' q = gget files q"
  by (auto simp: write_at_def split: prod.splits option.splits)

lemma read_at_put [simp]: "read_at (gput path (Some raw) files) path = map_sum (BadFile \<circ> Malformed) id (Parse raw)"
  by (simp add: read_at_def ReadFile_def sum.map_comp)

text \<open>A document can be rewritten when it parses as itself; frontmatter is flat when no value opens a block.\<close>

definition flat :: "front \<Rightarrow> bool" where
  "flat f \<longleftrightarrow> (\<forall>e \<in> set f. \<not> opens_block (en_Value e))"

lemma flat_Set: "flat f \<Longrightarrow> flat (Set f k v)"
  using set_put_entry [of k "scalar_entry k (quoteScalar v)" f] quoteScalar_opens_nothing [of v]
  by (auto simp: flat_def Set_def scalar_entry_def)

lemma set_Delete: "set (Delete f k) \<subseteq> set f"
  by (induction f) auto

lemma flat_Delete: "flat f \<Longrightarrow> flat (Delete f k)"
  using set_Delete by (auto simp: flat_def)

lemma front_wf_Set: "plain_key k \<Longrightarrow> front_wf f \<Longrightarrow> flat f \<Longrightarrow> front_wf (Set f k v)"
  unfolding Set_def flat_def by (rule front_wf_put)

lemma front_wf_Delete: "front_wf f \<Longrightarrow> flat f \<Longrightarrow> front_wf (Delete f k)"
  by (induction f) (auto simp: flat_def dest: subsetD [OF set_Delete])

lemma Get_Delete: "Get f k = None \<Longrightarrow> Get (Delete f k) k' = Get f k'"
  by (induction f) (auto split: if_splits)

lemma Get_Delete_other: "k' \<noteq> k \<Longrightarrow> Get (Delete f k) k' = Get f k'"
  by (induction f) auto

lemma rewritten:
  assumes "write_at io path d files = (True, files')" "front_wf (dc_Front d)" "sections_wf (dc_Sections d)" "dc_Front d \<noteq> []"
    "drop_crlf (Render d) = Render d"
  shows "read_at files' path = Inr d"
proof -
  have "Parse (Render d) = Inr d" using parse_render [OF assms(2,3,5)] assms(4) by simp
  with write_at_ok [OF assms(1)] show ?thesis by simp
qed

text \<open>What a file that was read may be rewritten with.\<close>

definition clean_file :: "string \<Rightarrow> doc \<Rightarrow> bool" where
  "clean_file raw d \<longleftrightarrow> Parse raw = Inr d \<and> flat (dc_Front d)
     \<and> (\<forall>l \<in> set (split_on newline (frontmatter raw)). \<not> has_prefix (trim_space l) '':'')"

lemma clean_fileD: "clean_file raw d \<Longrightarrow> front_wf (dc_Front d) \<and> sections_wf (dc_Sections d) \<and> flat (dc_Front d)"
  using Parse_wf by (auto simp: clean_file_def)

section \<open>A project is read as it was made\<close>

lemma resolved_valid:
  assumes "ResolveLanding config ov = (x, Inr p)"
  shows "ValidateLandingPolicy p = None"
  using assms by (auto simp: ResolveLanding_def Let_def split: option.splits if_splits)

lemma resolve_again: "ValidateLandingPolicy p = None \<Longrightarrow> ResolveLanding p no_override = (False, Inr p)"
  unfolding ResolveLanding_def no_override_def Let_def
  by (cases "lp_Mode p = []") (simp_all add: ValidateLandingPolicy_def split: if_split_asm)

lemma LoadProject_Inr:
  "read_at files (ProjectPath root slug) = Inr d \<Longrightarrow> (\<And>b. Get (dc_Front d) ''landing.base'' = Some b \<Longrightarrow> trim_space b \<noteq> [])
     \<Longrightarrow> snd (ResolveLanding (doc_landing d) no_override) = Inr x
     \<Longrightarrow> LoadProject root files slug = Inr \<lparr>pj_Slug = slug, pj_Doc = d, pj_Path = ProjectPath root slug,
           pj_Title = first_title (dc_Sections d), pj_Stage = get0 (dc_Front d) ''stage'', pj_Landing = doc_landing d\<rparr>"
  by (auto simp: LoadProject_def split: option.splits)

lemma resolve_default: "ResolveLanding \<lparr>lp_Mode = [], lp_Base = []\<rparr> no_override = (False, Inr \<lparr>lp_Mode = ''local'', lp_Base = []\<rparr>)"
  by (simp add: ResolveLanding_def no_override_def ValidateLandingPolicy_def Let_def)

lemma valid_base: "ValidateLandingPolicy p = None \<Longrightarrow> lp_Base p \<noteq> [] \<Longrightarrow> trim_space (lp_Base p) \<noteq> []"
  by (auto simp: ValidateLandingPolicy_def validateLandingBase_def split: if_splits)

lemma get0_fields:
  assumes "distinct (map fst kvs)"
  shows "get0 (foldl (\<lambda>f (k, v). Set f k v) [] kvs) k = (case map_of kvs k of None \<Rightarrow> [] | Some v \<Rightarrow> v)"
    "Get (foldl (\<lambda>f (k, v). Set f k v) [] kvs) k = map_of kvs k"
proof -
  have "map_of (rev kvs) k = map_of kvs k"
    using assms map_of_inject_set [of "rev kvs" kvs] by (simp add: rev_map [symmetric])
  then show "Get (foldl (\<lambda>f (k, v). Set f k v) [] kvs) k = map_of kvs k"
    by (simp add: front.get_puts split: option.split)
qed (rule get_fields [OF assms])

lemma project_fields_facts:
  "distinct (map fst (project_fields slug created actor stage landing))"
  "\<forall>(k, v) \<in> set (project_fields slug created actor stage landing). plain_key k"
proof -
  have "\<forall>k \<in> set [''id'', ''kind'', ''created'', ''created_by'', ''status'', ''stage'', ''landing.mode'', ''landing.base'']. plain_key k"
    by code_simp
  then show "\<forall>(k, v) \<in> set (project_fields slug created actor stage landing). plain_key k"
    by (auto simp: project_fields_def split: option.splits)
  show "distinct (map fst (project_fields slug created actor stage landing))"
    by (auto simp: project_fields_def split: option.split)
qed

lemma project_doc_flat: "flat (dc_Front (project_doc slug created actor stage landing title goal))"
  using front_wf_fields [OF project_fields_facts(2), of slug created actor stage landing]
  by (auto simp: project_doc_def flat_def field_def scalar_entry_def quoteScalar_opens_nothing)

lemma project_doc_wf:
  assumes "tight title" "line title" "section_text (goal @ [newline])"
  shows "front_wf (dc_Front (project_doc slug created actor stage landing title goal))"
    "dc_Front (project_doc slug created actor stage landing title goal) \<noteq> []"
    "sections_wf (dc_Sections (project_doc slug created actor stage landing title goal))"
proof -
  let ?f = "dc_Front (project_doc slug created actor stage landing title goal)"
  have f: "?f = foldl (\<lambda>f (k, v). Set f k v) [] (project_fields slug created actor stage landing)" by (simp add: project_doc_def)
  show "front_wf ?f" unfolding f using front_wf_fields [OF project_fields_facts(2)] by blast
  have "Get ?f ''kind'' = Some ''project''"
    unfolding f get0_fields(2) [OF project_fields_facts(1)] by (simp add: project_fields_def)
  then show "?f \<noteq> []" by auto
  have t: "tight ''Goal'' \<and> line ''Goal''" "tight ''Constraints'' \<and> line ''Constraints''" "tight ''Out of scope'' \<and> line ''Out of scope''"
    "tight ''Success criteria'' \<and> line ''Success criteria''" "terminated []" "body_lines [] = []"
    by code_simp+
  have "chain (dc_Sections (project_doc slug created actor stage landing title goal))"
    using assms t by (simp add: project_doc_def section_wf_def section_text_def)
  then show "sections_wf (dc_Sections (project_doc slug created actor stage landing title goal))" by (simp add: sections_wf_def)
qed

lemma LoadProject_D:
  assumes "LoadProject root files slug = Inr p"
  shows "read_at files (ProjectPath root slug) = Inr (pj_Doc p)" "pj_Path p = ProjectPath root slug"
    "pj_Landing p = doc_landing (pj_Doc p)" "\<And>b. Get (dc_Front (pj_Doc p)) ''landing.base'' = Some b \<Longrightarrow> trim_space b \<noteq> []"
    "pj_Stage p = get0 (dc_Front (pj_Doc p)) ''stage''" "pj_Title p = first_title (dc_Sections (pj_Doc p))" "pj_Slug p = slug"
  using assms by (auto simp: LoadProject_def split: sum.splits file_error.splits if_splits option.splits)

text \<open>Every project that loads is listed, unless its name starts with an underscore.\<close>

lemma project_dir_read:
  assumes "SafeSegment sl" "gget files (ProjectPath root sl) = Some b"
  shows "sl \<in> set (read_dirs (dacli root [''projects'']) files)"
proof -
  let ?dir = "dacli root [''projects'']" and ?path = "ProjectPath root sl"
  have seg: "CHR ''/'' \<notin> set sl" using assms(1) by (simp add: SafeSegment_def)
  have path: "?path = ?dir @ ''/'' @ sl @ ''/project.md''"
    using assms(1) by (simp add: ProjectPath_def ProjectDir_def dacli_def project_segment_def)
  have "(?path, b) \<in> set files" using assms(2) by (auto simp: gget_def dest: map_of_SomeD)
  then have "sl @ ''/project.md'' \<in> set (below ?dir files)"
    unfolding below_def by (force simp: path has_prefix_iff intro!: image_eqI [of _ _ "(?path, b)"])
  moreover have "takeWhile (\<lambda>c. c \<noteq> CHR ''/'') (sl @ ''/project.md'') = sl" using seg by (subst takeWhile_append2) auto
  ultimately show ?thesis by (force simp: read_dirs_def)
qed

lemma loaded_listed:
  assumes "LoadProject root files p = Inr q" "SafeSegment p" "\<not> has_prefix p ''_''"
  shows "q \<in> set (ListProjects root files)"
proof -
  obtain b where "gget files (ProjectPath root p) = Some b"
    using assms(1) by (auto simp: LoadProject_def read_at_def split: option.splits)
  from project_dir_read [OF assms(2) this] assms(1,3) show ?thesis
    by (auto simp: ListProjects_def intro!: bexI [of _ p])
qed

lemma listed_loads: "q \<in> set (ListProjects root files) \<Longrightarrow> LoadProject root files (pj_Slug q) = Inr q"
  using LoadProject_D(7) by (auto simp: ListProjects_def split: sum.splits)

text \<open>A project that was created is read as it was made. When \<^verbatim>\<open>CreateProject\<close> succeeds, the project that it
  returns is the one that \<^verbatim>\<open>LoadProject\<close> reads: title, stage, landing policy and document. There was no
  such project before, every other file of the workspace is untouched, and the project is listed
  unless its slug was given with a leading underscore.\<close>

theorem created_project_loads:
  assumes "CreateProject io root created actor title slug goal stage landing files = (Inr p, files')"
    and "tight title" "line title" "section_text (goal @ [newline])"
    and "drop_crlf (Render (pj_Doc p)) = Render (pj_Doc p)"
  shows "LoadProject root files' (pj_Slug p) = Inr p \<and> LoadProject root files (pj_Slug p) = Inl ProjectNotFound
     \<and> pj_Title p = title \<and> (\<forall>q. q \<noteq> pj_Path p \<longrightarrow> gget files' q = gget files q)
     \<and> (\<not> has_prefix (pj_Slug p) ''_'' \<longrightarrow> p \<in> set (ListProjects root files'))"
proof -
  define sl where "sl = (if slug = [] then Slugify title else slug)"
  define stg where "stg = (if stage = [] then ''definition'' else stage)"
  let ?d = "project_doc sl created actor stg landing title goal" and ?path = "ProjectPath root sl"
  from assms(1) have c: "SafeSegment sl" "gget files ?path = None" "(case landing of None \<Rightarrow> None | Some p \<Rightarrow> ValidateLandingPolicy p) = None"
    "write_at io ?path ?d files = (True, files')"
    "p = \<lparr>pj_Slug = sl, pj_Doc = ?d, pj_Path = ?path, pj_Title = title, pj_Stage = stg,
       pj_Landing = (case landing of None \<Rightarrow> \<lparr>lp_Mode = [], lp_Base = []\<rparr> | Some p \<Rightarrow> p)\<rparr>"
    by (auto simp: CreateProject_def Let_def sl_def stg_def split: if_splits option.splits prod.splits)
  note wf = project_doc_wf [OF assms(2-4), of sl created actor stg landing]
  have read: "read_at files' ?path = Inr ?d"
    using rewritten [OF c(4) wf(1,3,2)] assms(5) by (simp add: c(5))
  have f: "dc_Front ?d = foldl (\<lambda>f (k, v). Set f k v) [] (project_fields sl created actor stg landing)" by (simp add: project_doc_def)
  note g = get0_fields [OF project_fields_facts(1), of sl created actor stg landing, folded f]
  have base: "Get (dc_Front ?d) ''landing.base'' = (case landing of None \<Rightarrow> None | Some p \<Rightarrow> if lp_Base p = [] then None else Some (lp_Base p))"
    unfolding g by (auto simp: project_fields_def split: option.split)
  have landing: "doc_landing ?d = (case landing of None \<Rightarrow> \<lparr>lp_Mode = [], lp_Base = []\<rparr> | Some p \<Rightarrow> p)"
    unfolding doc_landing_def g by (auto simp: project_fields_def split: option.split)
  have stage: "get0 (dc_Front ?d) ''stage'' = stg" unfolding g by (simp add: project_fields_def)
  have title: "first_title (dc_Sections ?d) = title" by (simp add: project_doc_def)
  have blank: "trim_space b \<noteq> []" if "Get (dc_Front ?d) ''landing.base'' = Some b" for b
    using that base c(3) valid_base by (cases landing) (auto split: if_splits)
  have "\<exists>x. snd (ResolveLanding (doc_landing ?d) no_override) = Inr x"
    using c(3) resolve_again resolve_default unfolding landing by (cases landing) auto
  then have "LoadProject root files' sl = Inr p"
    using LoadProject_Inr [OF read blank] unfolding c(5) landing stage title by blast
  moreover have "LoadProject root files sl = Inl ProjectNotFound" using c(2) by (simp add: LoadProject_def read_at_def)
  ultimately show ?thesis
    using write_at_other [OF c(4)] loaded_listed [of root files' sl p] c(1,5) by auto
qed

theorem created_project_loads_witness:
  "\<exists>p files'. CreateProject working_ops ''/r'' ''now'' ''a1'' ''Web app'' [] ''ship it'' [] (Some \<lparr>lp_Mode = ''pr'', lp_Base = ''main''\<rparr>) [] = (Inr p, files')
     \<and> pj_Slug p = ''web-app'' \<and> LoadProject ''/r'' files' ''web-app'' = Inr p \<and> lp_Base (pj_Landing p) = ''main''"
proof -
  let ?l = "\<lparr>lp_Mode = ''pr'', lp_Base = ''main''\<rparr>"
  let ?d = "project_doc ''web-app'' ''now'' ''a1'' ''definition'' (Some ?l) ''Web app'' ''ship it''"
  have slug: "Slugify ''Web app'' = ''web-app''" "SafeSegment ''web-app''" and valid: "ValidateLandingPolicy ?l = None"
    and words: "tight ''Web app''" "line ''Web app''" "section_text (''ship it'' @ [newline])" and cr: "CHR 0x0D \<notin> set (Render ?d)"
    by code_simp+
  let ?p = "\<lparr>pj_Slug = ''web-app'', pj_Doc = ?d, pj_Path = ProjectPath ''/r'' ''web-app'', pj_Title = ''Web app'', pj_Stage = ''definition'', pj_Landing = ?l\<rparr>"
  have c: "\<exists>files'. CreateProject working_ops ''/r'' ''now'' ''a1'' ''Web app'' [] ''ship it'' [] (Some ?l) [] = (Inr ?p, files')"
    by (simp add: CreateProject_def slug valid write_at_def WriteFile_def writeBytes_def working_ops_def failing_ops_def Let_def)
  then obtain files' where f: "CreateProject working_ops ''/r'' ''now'' ''a1'' ''Web app'' [] ''ship it'' [] (Some ?l) [] = (Inr ?p, files')"
    by blast
  from created_project_loads [OF f words] drop_crlf_plain [OF cr] have "LoadProject ''/r'' files' ''web-app'' = Inr ?p" by simp
  with f show ?thesis by (intro exI [of _ ?p] exI [of _ files']) simp
qed

section \<open>A landing policy is changed alone\<close>

lemma configured:
  assumes "ConfigureProjectLanding p policy = Inr p'" "Get (dc_Front (pj_Doc p)) ''landing.base'' = None \<or> lp_Base policy \<noteq> []"
  shows "doc_landing (pj_Doc p') = policy" "dc_Sections (pj_Doc p') = dc_Sections (pj_Doc p)" "pj_Path p' = pj_Path p"
    "\<And>k. k \<notin> {''landing.mode'', ''landing.base''} \<Longrightarrow> Get (dc_Front (pj_Doc p')) k = Get (dc_Front (pj_Doc p)) k"
    "Get (dc_Front (pj_Doc p')) ''landing.base'' = (if lp_Base policy = [] then None else Some (lp_Base policy))"
    "ValidateLandingPolicy policy = None" "dc_Front (pj_Doc p') \<noteq> []"
proof -
  let ?f = "dc_Front (pj_Doc p)"
  from assms(1) have v: "ValidateLandingPolicy policy = None" and f': "dc_Front (pj_Doc p') =
      (if lp_Base policy = [] then Delete (Set ?f ''landing.mode'' (lp_Mode policy)) ''landing.base''
       else Set (Set ?f ''landing.mode'' (lp_Mode policy)) ''landing.base'' (lp_Base policy))"
    "dc_Sections (pj_Doc p') = dc_Sections (pj_Doc p)" "pj_Path p' = pj_Path p"
    by (auto simp: ConfigureProjectLanding_def Let_def split: option.splits)
  show "ValidateLandingPolicy policy = None" "dc_Sections (pj_Doc p') = dc_Sections (pj_Doc p)" "pj_Path p' = pj_Path p"
    using v f' by auto
  show base: "Get (dc_Front (pj_Doc p')) ''landing.base'' = (if lp_Base policy = [] then None else Some (lp_Base policy))"
    using assms(2) Get_Delete [of "Set ?f ''landing.mode'' (lp_Mode policy)" "''landing.base''"]
    by (cases "lp_Base policy = []") (simp_all add: f'(1) Get_Set)
  show keep: "Get (dc_Front (pj_Doc p')) k = Get ?f k" if "k \<notin> {''landing.mode'', ''landing.base''}" for k
    using that by (simp add: f'(1) Get_Set Get_Delete_other)
  have mode: "Get (dc_Front (pj_Doc p')) ''landing.mode'' = Some (lp_Mode policy)"
    by (simp add: f'(1) Get_Set Get_Delete_other)
  then show "dc_Front (pj_Doc p') \<noteq> []" by auto
  show "doc_landing (pj_Doc p') = policy" by (simp add: doc_landing_def get0_def mode base)
qed

lemma resolved_base:
  "ResolveLanding config ov = (x, Inr p) \<Longrightarrow> lp_Base p = [] \<Longrightarrow> lp_Base config = []"
  by (auto simp: ResolveLanding_def Let_def trim_tight split: option.splits if_splits)

lemma configured_wf:
  assumes "ConfigureProjectLanding p policy = Inr p'" "front_wf (dc_Front (pj_Doc p))" "flat (dc_Front (pj_Doc p))"
  shows "front_wf (dc_Front (pj_Doc p'))"
proof -
  have "plain_key ''landing.mode''" "plain_key ''landing.base''" by code_simp+
  with assms show ?thesis
    by (auto simp: ConfigureProjectLanding_def Let_def intro!: front_wf_Set flat_Set front_wf_Delete split: option.splits if_splits)
qed

text \<open>Changing the landing policy of a project changes nothing else. After a successful update the project
  loads with exactly the policy that the command line and the old policy resolve to, which is valid;
  title, stage, every other field and every section are as before, and no other file is touched. An
  update without any field writes nothing.\<close>

theorem landing_update_exact:
  assumes "UpdateProjectLanding io root slug ov files = (Inr p', files')" "LoadProject root files slug = Inr p"
    and "gget files (ProjectPath root slug) = Some (Some raw)" "clean_file raw (pj_Doc p)"
    and "ResolveLanding (pj_Landing p) ov = (explicit, Inr policy)"
    and "\<forall>q. ConfigureProjectLanding p policy = Inr q \<longrightarrow> drop_crlf (Render (pj_Doc q)) = Render (pj_Doc q)"
  shows "LoadProject root files' slug = Inr p'
     \<and> (if explicit then pj_Landing p' = policy \<and> ValidateLandingPolicy policy = None else p' = p \<and> files' = files)
     \<and> pj_Title p' = pj_Title p \<and> pj_Stage p' = pj_Stage p \<and> dc_Sections (pj_Doc p') = dc_Sections (pj_Doc p)
     \<and> (\<forall>k. k \<notin> {''landing.mode'', ''landing.base''} \<longrightarrow> Get (dc_Front (pj_Doc p')) k = Get (dc_Front (pj_Doc p)) k)
     \<and> (\<forall>q. q \<noteq> ProjectPath root slug \<longrightarrow> gget files' q = gget files q)"
proof (cases explicit)
  case False
  with assms(1,2,5) show ?thesis by (simp add: UpdateProjectLanding_def)
next
  case True
  with assms(1,2,5) obtain q where q: "ConfigureProjectLanding p policy = Inr q" "write_at io (pj_Path q) (pj_Doc q) files = (True, files')"
      "LoadProject root files' slug = Inr p'"
    by (auto simp: UpdateProjectLanding_def SaveProject_def Let_def split: sum.splits prod.splits if_splits)
  note L = LoadProject_D [OF assms(2)] and L' = LoadProject_D [OF q(3)]
  have "Get (dc_Front (pj_Doc p)) ''landing.base'' = None \<or> lp_Base policy \<noteq> []"
  proof (rule ccontr)
    assume a: "\<not> ?thesis"
    with resolved_base [OF assms(5)] L(3) have "get0 (dc_Front (pj_Doc p)) ''landing.base'' = []" by (simp add: doc_landing_def)
    with a obtain b where "Get (dc_Front (pj_Doc p)) ''landing.base'' = Some b" "b = []" by (auto simp: get0_def)
    with L(4) show False by (auto simp: trim_tight)
  qed
  note c = configured [OF q(1) this]
  have path: "pj_Path q = ProjectPath root slug" using c(3) L(2) by simp
  have "read_at files' (ProjectPath root slug) = Inr (pj_Doc q)"
    using rewritten [OF q(2)] configured_wf [OF q(1)] clean_fileD [OF assms(4)] c(2,7) assms(6) q(1) path by simp
  with L'(1) have "pj_Doc p' = pj_Doc q" by simp
  with True q(3) c L' L(5,6) write_at_other [OF q(2)] path show ?thesis by (simp add: get0_def)
qed

definition sample_project :: project where
  "sample_project = \<lparr>pj_Slug = ''web'', pj_Doc = project_doc ''web'' ''now'' ''a1'' ''definition'' None ''Web'' ''ship it'',
     pj_Path = ProjectPath ''/r'' ''web'', pj_Title = ''Web'', pj_Stage = ''definition'', pj_Landing = \<lparr>lp_Mode = [], lp_Base = []\<rparr>\<rparr>"

theorem landing_update_exact_witness:
  "\<exists>p' files'. UpdateProjectLanding working_ops ''/r'' ''web'' \<lparr>ov_Mode = Some ''pr'', ov_Base = Some ''main''\<rparr>
       [(ProjectPath ''/r'' ''web'', Some (Render (pj_Doc sample_project)))] = (Inr p', files')
     \<and> pj_Landing p' = \<lparr>lp_Mode = ''pr'', lp_Base = ''main''\<rparr> \<and> pj_Title p' = ''Web''"
proof -
  let ?ov = "\<lparr>ov_Mode = Some ''pr'', ov_Base = Some ''main''\<rparr>" and ?pol = "\<lparr>lp_Mode = ''pr'', lp_Base = ''main''\<rparr>"
  let ?path = "ProjectPath ''/r'' ''web''" and ?raw = "Render (pj_Doc sample_project)"
  let ?files = "[(?path, Some ?raw)]"
  have words: "tight ''Web''" "line ''Web''" "section_text (''ship it'' @ [newline])" and crs: "CHR 0x0D \<notin> set ?raw" by code_simp+
  note wf = project_doc_wf [OF words, of "''web''" "''now''" "''a1''" "''definition''" None]
  have parse: "Parse ?raw = Inr (pj_Doc sample_project)"
    using parse_render [of "pj_Doc sample_project"] wf drop_crlf_plain [OF crs] by (simp add: sample_project_def)
  have flat: "flat (dc_Front (pj_Doc sample_project))" by (simp add: sample_project_def project_doc_flat)
  have colon: "\<forall>l \<in> set (split_on newline (frontmatter ?raw)). \<not> has_prefix (trim_space l) '':''" by code_simp
  have f: "dc_Front (pj_Doc sample_project) = foldl (\<lambda>f (k, v). Set f k v) [] (project_fields ''web'' ''now'' ''a1'' ''definition'' None)"
    by (simp add: sample_project_def project_doc_def)
  note g = get0_fields [OF project_fields_facts(1), of "''web''" "''now''" "''a1''" "''definition''" None, folded f]
  have base: "Get (dc_Front (pj_Doc sample_project)) ''landing.base'' = None"
    and landing: "doc_landing (pj_Doc sample_project) = \<lparr>lp_Mode = [], lp_Base = []\<rparr>" "get0 (dc_Front (pj_Doc sample_project)) ''stage'' = ''definition''"
    by (simp_all add: g doc_landing_def project_fields_def)
  have read: "read_at ?files ?path = Inr (pj_Doc sample_project)" by (simp add: read_at_def ReadFile_def gget_def parse)
  have load: "LoadProject ''/r'' ?files ''web'' = Inr sample_project"
    using LoadProject_Inr [OF read] base landing resolve_default by (simp add: sample_project_def project_doc_def)
  have res: "ResolveLanding (pj_Landing sample_project) ?ov = (True, Inr ?pol)" and valid: "ValidateLandingPolicy ?pol = None"
    by code_simp+
  define q where "q = sample_project\<lparr>pj_Doc := (pj_Doc sample_project)\<lparr>dc_Front :=
      Set (Set (dc_Front (pj_Doc sample_project)) ''landing.mode'' ''pr'') ''landing.base'' ''main''\<rparr>, pj_Landing := ?pol\<rparr>"
  have conf: "ConfigureProjectLanding sample_project ?pol = Inr q" by (simp add: ConfigureProjectLanding_def valid Let_def q_def)
  have "CHR 0x0D \<notin> set (Render (pj_Doc q))" unfolding q_def by code_simp
  then have cr: "\<forall>q. ConfigureProjectLanding sample_project ?pol = Inr q \<longrightarrow> drop_crlf (Render (pj_Doc q)) = Render (pj_Doc q)"
    using conf by (auto intro: drop_crlf_plain)
  obtain files' where w: "write_at working_ops ?path (pj_Doc q) ?files = (True, files')"
    by (simp add: write_at_def WriteFile_def writeBytes_def working_ops_def failing_ops_def Let_def)
  have clean: "clean_file ?raw (pj_Doc sample_project)" using parse flat colon by (simp add: clean_file_def)
  have "front_wf (dc_Front (pj_Doc q))" "sections_wf (dc_Sections (pj_Doc q))"
    using configured_wf [OF conf] configured(2) [OF conf] base clean_fileD [OF clean] by simp_all
  moreover have "dc_Front (pj_Doc q) \<noteq> []" using configured(7) [OF conf] base by simp
  ultimately have "read_at files' ?path = Inr (pj_Doc q)" using rewritten [OF w] cr conf by simp
  moreover have "doc_landing (pj_Doc q) = ?pol" "Get (dc_Front (pj_Doc q)) ''landing.base'' = Some ''main''"
    using configured(1,5) [OF conf] base by simp_all
  ultimately obtain p' where "LoadProject ''/r'' files' ''web'' = Inr p'"
    using LoadProject_Inr [of files' "''/r''" "''web''" "pj_Doc q" ?pol] resolve_again [OF valid] valid_base [OF valid] by simp
  moreover have "pj_Path q = ?path" by (simp add: q_def sample_project_def)
  ultimately have u: "UpdateProjectLanding working_ops ''/r'' ''web'' ?ov ?files = (Inr p', files')"
    using load res conf w by (simp add: UpdateProjectLanding_def SaveProject_def Let_def)
  from landing_update_exact [OF u load _ clean res cr] have "pj_Landing p' = ?pol" "pj_Title p' = ''Web''"
    by (simp_all add: gget_def sample_project_def)
  with u show ?thesis by blast
qed

end
