(* ===== verification/Task_Index.thy ===== *)
theory Task_Index
  imports Project_Store "HOL-Library.Product_Lexorder"
begin

text \<open>
  Tasks and how they are found (\<^verbatim>\<open>loadTaskFile\<close>, \<^verbatim>\<open>ListTasks\<close>, \<^verbatim>\<open>dedupeTasks\<close>, \<^verbatim>\<open>FindTask\<close> and
  \<^verbatim>\<open>TaskIndex\<close> of \<^verbatim>\<open>internal/store/store.go\<close>). A task is a Markdown file whose folder is its status. The
  theorems: of several copies of one task the listing keeps the most terminal one, every identity
  once; and the index that loops use answers every reference as the one-shot search does, in a
  workspace where projects do not share identifiers.
\<close>

section \<open>Tasks\<close>

record task =
  tk_ID :: ident
  tk_Seq :: int
  tk_Slug :: string
  tk_Project :: ident
  tk_Status :: verb
  tk_Title :: string
  tk_Doc :: doc
  tk_Path :: string

definition AllStatuses :: "verb list" where
  "AllStatuses = [''open'', ''active'', ''blocked'', ''done'']"

text \<open>\<^verbatim>\<open>filepath.Base\<close> of a path of the workspace, and the two halves around the first byte \<open>c\<close>.\<close>

definition base_name :: "string \<Rightarrow> string" where
  "base_name p = last (split_on CHR ''/'' p)"

definition before_first :: "char \<Rightarrow> string \<Rightarrow> string" where
  "before_first c s = takeWhile (\<lambda>x. x \<noteq> c) s"

definition after_first :: "char \<Rightarrow> string \<Rightarrow> string" where
  "after_first c s = tl (dropWhile (\<lambda>x. x \<noteq> c) s)"

text \<open>\<^verbatim>\<open>strconv.Atoi\<close> with its error ignored: zero for text that is no number, the nearest bound for a number
  out of range. What precedes the first dash has no minus sign, so the result is not negative.\<close>

definition atoi_value :: "string \<Rightarrow> nat" where
  "atoi_value s = (case decimal (if has_prefix s ''+'' then drop 1 s else s) of None \<Rightarrow> 0 | Some n \<Rightarrow> nat (min n (2 ^ 63 - 1)))"

definition loadTaskFile :: "log_file list \<Rightarrow> string \<Rightarrow> ident \<Rightarrow> verb \<Rightarrow> file_error + task" where
  "loadTaskFile files path project st =
     map_sum id (\<lambda>d.
       let base = trim_suffix (base_name path) ''.md'';
           dashed = (CHR ''-'' \<in> set base \<and> hd base \<noteq> CHR ''-'')
       in \<lparr>tk_ID = get0 (dc_Front d) ''id'', tk_Seq = (if dashed then int (atoi_value (before_first CHR ''-'' base)) else 0),
           tk_Slug = (if dashed then after_first CHR ''-'' base else []), tk_Project = project, tk_Status = st,
           tk_Title = first_title (dc_Sections d), tk_Doc = d, tk_Path = path\<rparr>) (read_at files path)"

section \<open>Listing\<close>

text \<open>The folders: \<open>unreadable\<close> says which directories cannot be read although they are there. A file that does
  not parse is left out (and noted for the doctor, which is not modelled).\<close>

definition folder_tasks :: "string \<Rightarrow> log_file list \<Rightarrow> ident \<Rightarrow> verb \<Rightarrow> task list" where
  "folder_tasks root files project st =
     concat (map (\<lambda>name. case loadTaskFile files (TasksDir root project st @ ''/'' @ name) project st of Inl _ \<Rightarrow> [] | Inr t \<Rightarrow> [t])
       (filter (\<lambda>name. has_suffix name ''.md'') (read_files (TasksDir root project st) files)))"

definition listTasksRaw ::
    "(string \<Rightarrow> bool) \<Rightarrow> string \<Rightarrow> ident \<Rightarrow> verb \<Rightarrow> log_file list \<Rightarrow> task list option" where
  "listTasksRaw unreadable root project status files =
     (let projects = (if project \<noteq> [] then [project] else map pj_Slug (ListProjects root files));
          folders = concat (map (\<lambda>p. map (\<lambda>st. (p, st)) (filter (\<lambda>st. status = [] \<or> st = status) AllStatuses)) projects)
      in if list_ex (\<lambda>(p, st). unreadable (TasksDir root p st)) folders then None
         else Some (concat (map (\<lambda>(p, st). folder_tasks root files p st) folders)))"

definition taskIdentity :: "task \<Rightarrow> string" where
  "taskIdentity t = (if tk_ID t \<noteq> [] then ''id:'' @ tk_ID t else ''seq:'' @ tk_Project t @ ''/'' @ itoa_int (tk_Seq t))"

fun rank_in :: "verb \<Rightarrow> verb list \<Rightarrow> int \<Rightarrow> int" where
  "rank_in s [] i = -1"
| "rank_in s (x # xs) i = (if x = s then i else rank_in s xs (i + 1))"

definition statusRank :: "verb \<Rightarrow> int" where
  "statusRank s = rank_in s AllStatuses 0"

text \<open>\<open>mtime\<close> is the modification time of a path, the zero time if it cannot be had.\<close>

definition preferTask :: "(string \<Rightarrow> int) \<Rightarrow> task \<Rightarrow> task \<Rightarrow> bool" where
  "preferTask mtime a b =
     (if statusRank (tk_Status a) \<noteq> statusRank (tk_Status b) then statusRank (tk_Status b) < statusRank (tk_Status a)
      else mtime (tk_Path b) < mtime (tk_Path a))"

text \<open>The map from identities to the best copy, in the order of first occurrence.\<close>

definition keep_best :: "(string \<Rightarrow> int) \<Rightarrow> task gmap \<Rightarrow> task \<Rightarrow> task gmap" where
  "keep_best mtime best t =
     (case gget best (taskIdentity t) of
        None \<Rightarrow> best @ [(taskIdentity t, t)]
      | Some cur \<Rightarrow> if preferTask mtime t cur then gput (taskIdentity t) t best else best)"

definition dedupeTasks :: "(string \<Rightarrow> int) \<Rightarrow> task list \<Rightarrow> task list" where
  "dedupeTasks mtime tasks = map snd (foldl (keep_best mtime) [] tasks)"

text \<open>\<^verbatim>\<open>sort.Slice\<close> leaves the order of equal elements open; the model sorts stably.\<close>

definition ListTasks ::
    "(string \<Rightarrow> bool) \<Rightarrow> (string \<Rightarrow> int) \<Rightarrow> string \<Rightarrow> ident \<Rightarrow> verb \<Rightarrow> log_file list \<Rightarrow> task list option" where
  "ListTasks unreadable mtime root project status files =
     map_option (\<lambda>all. sort_key (\<lambda>t. (tk_Project t, tk_Seq t)) (dedupeTasks mtime all)) (listTasksRaw unreadable root project status files)"

section \<open>References\<close>

datatype find_task_error = TaskNotFound | TaskAmbiguous | ListFailed | ProjectError project_error

definition taskRefKeys :: "task \<Rightarrow> string list" where
  "taskRefKeys t =
     [tk_ID t, trim_prefix (tk_ID t) ''t-'', tk_Slug t, itoa_int (tk_Seq t), pad3 (tk_Seq t), pad3 (tk_Seq t) @ ''-'' @ tk_Slug t]"

definition matchesRef :: "task \<Rightarrow> string \<Rightarrow> bool" where
  "matchesRef t ref \<longleftrightarrow> ref \<in> set (taskRefKeys t)"

text \<open>Project, task reference and whether the reference is qualified.\<close>

definition splitQualifiedTaskRef :: "string \<Rightarrow> string \<times> string \<times> bool" where
  "splitQualifiedTaskRef ref =
     (let project = before_first CHR ''/'' ref; taskRef = after_first CHR ''/'' ref
      in (project, taskRef, CHR ''/'' \<in> set ref \<and> project \<noteq> [] \<and> taskRef \<noteq> [] \<and> CHR ''/'' \<notin> set taskRef))"

fun resolveRef :: "task list \<Rightarrow> find_task_error + task" where
  "resolveRef [] = Inl TaskNotFound"
| "resolveRef [t] = Inr t"
| "resolveRef (t # u # ts) = Inl TaskAmbiguous"

definition FindTask :: "(string \<Rightarrow> bool) \<Rightarrow> (string \<Rightarrow> int) \<Rightarrow> string \<Rightarrow> log_file list \<Rightarrow> string \<Rightarrow> find_task_error + task" where
  "FindTask unreadable mtime root files ref =
     (let (project, taskRef, qualified) = splitQualifiedTaskRef ref;
          search = (\<lambda>p r. case ListTasks unreadable mtime root p [] files of
              None \<Rightarrow> Inl ListFailed
            | Some all \<Rightarrow> resolveRef (filter (\<lambda>t. matchesRef t r) all))
      in if qualified then
           (case LoadProject root files project of Inl e \<Rightarrow> Inl (ProjectError e) | Inr _ \<Rightarrow> search project taskRef)
         else search [] ref)"

section \<open>The index\<close>

record task_index =
  ix_byRef :: "task list gmap"
  ix_knownProjects :: "string list"

definition add_ref :: "task \<Rightarrow> string \<Rightarrow> task list gmap \<Rightarrow> task list gmap" where
  "add_ref t key m = (if key = [] \<or> t \<in> set (gslice m key) then m else gput key (gslice m key @ [t]) m)"

definition add_task :: "task list gmap \<Rightarrow> task \<Rightarrow> task list gmap" where
  "add_task m t = foldl (\<lambda>m key. add_ref t (tk_Project t @ ''/'' @ key) (add_ref t key m)) m (taskRefKeys t)"

definition newTaskIndex :: "task list \<Rightarrow> string list \<Rightarrow> task_index" where
  "newTaskIndex tasks known = \<lparr>ix_byRef = foldl add_task [] tasks, ix_knownProjects = known\<rparr>"

definition NewTaskIndex :: "task list \<Rightarrow> task_index" where
  "NewTaskIndex tasks = newTaskIndex tasks (map tk_Project tasks)"

definition BuildTaskIndex ::
    "(string \<Rightarrow> bool) \<Rightarrow> (string \<Rightarrow> int) \<Rightarrow> string \<Rightarrow> log_file list \<Rightarrow> task_index option" where
  "BuildTaskIndex unreadable mtime root files =
     map_option (\<lambda>all. newTaskIndex all (map pj_Slug (ListProjects root files))) (ListTasks unreadable mtime root [] [] files)"

definition index_find :: "task_index \<Rightarrow> string \<Rightarrow> find_task_error + task" where
  "index_find ix ref =
     (let (project, taskRef, qualified) = splitQualifiedTaskRef ref in
      if qualified \<and> project \<notin> set (ix_knownProjects ix) then Inl TaskNotFound
      else resolveRef (gslice (ix_byRef ix) ref))"

section \<open>One copy of each task\<close>

text \<open>\<^verbatim>\<open>preferTask\<close> compares by status and then by time.\<close>

definition copy_rank :: "(string \<Rightarrow> int) \<Rightarrow> task \<Rightarrow> int \<times> int" where
  "copy_rank mtime t = (statusRank (tk_Status t), mtime (tk_Path t))"

lemma preferTask_iff: "preferTask mtime a b \<longleftrightarrow> copy_rank mtime b < copy_rank mtime a"
  by (auto simp: preferTask_def copy_rank_def less_prod_def)

definition filed_best :: "(string \<Rightarrow> int) \<Rightarrow> task list \<Rightarrow> task gmap \<Rightarrow> bool" where
  "filed_best mtime ts best \<longleftrightarrow> gwf best \<and> fst ` set best = taskIdentity ` set ts
     \<and> (\<forall>(k, t) \<in> set best. k = taskIdentity t \<and> t \<in> set ts \<and> (\<forall>u \<in> set ts. taskIdentity u = k \<longrightarrow> copy_rank mtime u \<le> copy_rank mtime t))"

lemma gget_set: "gwf m \<Longrightarrow> gget m k = Some v \<longleftrightarrow> (k, v) \<in> set m"
  by (simp add: gget_def gwf_def)

lemma gget_fst: "gget m k = None \<longleftrightarrow> k \<notin> fst ` set m"
  by (simp add: gget_def map_of_eq_None_iff)

lemma set_gput: "gwf m \<Longrightarrow> set (gput k v m) = {(k', v') \<in> set m. k' \<noteq> k} \<union> {(k, v)}"
proof -
  assume "gwf m"
  then have "(k', v') \<in> set (gput k v m) \<longleftrightarrow> (if k' = k then v' = v else (k', v') \<in> set m)" for k' v'
    using gget_set [of "gput k v m" k' v'] gget_set [of m k' v'] by auto
  then show ?thesis by (auto split: if_splits)
qed

lemma filed_best_step:
  assumes "filed_best mtime ts best"
  shows "filed_best mtime (ts @ [t]) (keep_best mtime best t)"
proof (cases "gget best (taskIdentity t)")
  case None
  then have new: "taskIdentity t \<notin> fst ` set best" by (simp add: gget_fst)
  with assms have "\<forall>u \<in> set ts. taskIdentity u \<noteq> taskIdentity t"
    unfolding filed_best_def by (metis image_eqI)
  with assms new None show ?thesis
    by (auto simp: filed_best_def keep_best_def gwf_def)
next
  case (Some cur)
  with assms have cur: "(taskIdentity t, cur) \<in> set best" "cur \<in> set ts" "taskIdentity cur = taskIdentity t"
    "\<forall>u \<in> set ts. taskIdentity u = taskIdentity t \<longrightarrow> copy_rank mtime u \<le> copy_rank mtime cur"
    and keys: "fst ` set best = taskIdentity ` set ts" "gwf best"
    by (auto simp: filed_best_def gget_set)
  show ?thesis
  proof (cases "preferTask mtime t cur")
    case True
    with cur have "\<forall>u \<in> set ts. taskIdentity u = taskIdentity t \<longrightarrow> copy_rank mtime u \<le> copy_rank mtime t"
      by (force simp: preferTask_iff)
    moreover have "fst ` set (gput (taskIdentity t) t best) = insert (taskIdentity t) (fst ` set best)"
      using cur(1) keys(2) by (force simp: set_gput image_iff)
    ultimately show ?thesis
      using assms True Some cur(2) keys by (auto simp: filed_best_def keep_best_def set_gput)
  next
    case False
    then have "copy_rank mtime t \<le> copy_rank mtime cur" by (simp add: preferTask_iff)
    moreover have "v = cur" if "(taskIdentity t, v) \<in> set best" for v
      using that cur(1) gget_set [OF keys(2)] by (metis option.inject)
    ultimately have le: "copy_rank mtime u \<le> copy_rank mtime v" if "(k, v) \<in> set best" "u \<in> set (ts @ [t])" "taskIdentity u = k" for k u v
      using that assms by (auto simp: filed_best_def)
    have "taskIdentity ` set (ts @ [t]) = insert (taskIdentity cur) (taskIdentity ` set ts)" using cur(3) by simp
    then have "fst ` set best = taskIdentity ` set (ts @ [t])" unfolding keys(1) using cur(2) by (simp add: insert_absorb)
    moreover have "k = taskIdentity v \<and> v \<in> set (ts @ [t])" if "(k, v) \<in> set best" for k v
      using that assms by (auto simp: filed_best_def)
    ultimately have "filed_best mtime (ts @ [t]) best" unfolding filed_best_def using le keys(2) by blast
    with False Some show ?thesis by (simp add: keep_best_def)
  qed
qed

lemma filed_best_all: "filed_best mtime ts (foldl (keep_best mtime) [] ts)"
proof (induction ts rule: rev_induct)
  case Nil
  show ?case by (simp add: filed_best_def)
next
  case (snoc t ts)
  then show ?case using filed_best_step by simp
qed

lemma dedupe_facts:
  shows "distinct (map taskIdentity (dedupeTasks mtime ts))" "taskIdentity ` set (dedupeTasks mtime ts) = taskIdentity ` set ts"
    "t \<in> set (dedupeTasks mtime ts) \<Longrightarrow> t \<in> set ts"
    "t \<in> set (dedupeTasks mtime ts) \<Longrightarrow> u \<in> set ts \<Longrightarrow> taskIdentity u = taskIdentity t \<Longrightarrow> copy_rank mtime u \<le> copy_rank mtime t"
proof -
  let ?best = "foldl (keep_best mtime) [] ts"
  have b: "gwf ?best" "fst ` set ?best = taskIdentity ` set ts"
    "\<forall>(k, t) \<in> set ?best. k = taskIdentity t \<and> t \<in> set ts \<and> (\<forall>u \<in> set ts. taskIdentity u = k \<longrightarrow> copy_rank mtime u \<le> copy_rank mtime t)"
    using filed_best_all [of mtime ts] by (simp_all add: filed_best_def)
  have ids: "map taskIdentity (dedupeTasks mtime ts) = map fst ?best"
    using b(3) by (auto simp: dedupeTasks_def)
  then show "distinct (map taskIdentity (dedupeTasks mtime ts))" using b(1) by (simp add: gwf_def)
  show "taskIdentity ` set (dedupeTasks mtime ts) = taskIdentity ` set ts"
    using arg_cong [OF ids, of set] b(2) by simp
  show "t \<in> set ts" if "t \<in> set (dedupeTasks mtime ts)"
    using that b(3) by (auto simp: dedupeTasks_def)
  show "copy_rank mtime u \<le> copy_rank mtime t" if "t \<in> set (dedupeTasks mtime ts)" "u \<in> set ts" "taskIdentity u = taskIdentity t"
    using that b(3) by (fastforce simp: dedupeTasks_def)
qed

lemma listing_facts:
  assumes "listTasksRaw unreadable root project status files = Some raw" "ListTasks unreadable mtime root project status files = Some ts"
  shows "distinct ts \<and> set ts \<subseteq> set raw"
  using dedupe_facts(1,3) [where mtime = mtime and ts = raw] assms by (auto simp: ListTasks_def distinct_map)


section \<open>The index answers as the search\<close>

text \<open>Restricting to one project commutes with keeping the best copies when projects share no identity.\<close>

lemma gget_filter:
  "(\<And>v. (k, v) \<in> set m \<Longrightarrow> P v) \<Longrightarrow> gget (filter (\<lambda>(k, v). P v) m) k = gget m k"
  by (induction m) (auto simp: gget_def)

lemma filter_gput:
  "P v \<Longrightarrow> (\<And>v'. (k, v') \<in> set m \<Longrightarrow> P v') \<Longrightarrow> filter (\<lambda>(k, v). P v) (gput k v m) = gput k v (filter (\<lambda>(k, v). P v) m)"
  by (induction m) (auto simp: gput_def)

lemma filter_gput_not:
  "\<not> P v \<Longrightarrow> (\<And>v'. (k, v') \<in> set m \<Longrightarrow> \<not> P v') \<Longrightarrow> filter (\<lambda>(k, v). P v) (gput k v m) = filter (\<lambda>(k, v). P v) m"
  by (induction m) (auto simp: gput_def)

lemma keep_best_filter:
  assumes "filed_best mtime ts best" "\<forall>u \<in> set ts. taskIdentity u = taskIdentity t \<longrightarrow> P u = P t"
  shows "filter (\<lambda>(k, v). P v) (keep_best mtime best t)
     = (if P t then keep_best mtime (filter (\<lambda>(k, v). P v) best) t else filter (\<lambda>(k, v). P v) best)"
proof -
  have same: "P v = P t" if "(taskIdentity t, v) \<in> set best" for v
    using that assms by (auto simp: filed_best_def)
  show ?thesis
  proof (cases "P t")
    case True
    then have "gget (filter (\<lambda>(k, v). P v) best) (taskIdentity t) = gget best (taskIdentity t)"
      using same by (intro gget_filter) simp
    with True same show ?thesis by (auto simp: keep_best_def filter_gput split: option.split)
  next
    case False
    with same show ?thesis by (auto simp: keep_best_def filter_gput_not split: option.split)
  qed
qed

lemma dedupe_filter:
  assumes "\<forall>t \<in> set ts. \<forall>u \<in> set ts. taskIdentity u = taskIdentity t \<longrightarrow> P u = P t"
  shows "filter P (dedupeTasks mtime ts) = dedupeTasks mtime (filter P ts)"
proof -
  have "filter (\<lambda>(k, v). P v) (foldl (keep_best mtime) [] ts) = foldl (keep_best mtime) [] (filter P ts)"
    using assms
  proof (induction ts rule: rev_induct)
    case (snoc t ts)
    have IH: "filter (\<lambda>(k, v). P v) (foldl (keep_best mtime) [] ts) = foldl (keep_best mtime) [] (filter P ts)"
      by (rule snoc.IH, insert snoc.prems, unfold set_append, blast)
    have "\<forall>u \<in> set ts. taskIdentity u = taskIdentity t \<longrightarrow> P u = P t" using snoc.prems by (metis UnI1 UnI2 list.set_intros(1) set_append)
    from keep_best_filter [OF filed_best_all this, of mtime] show ?case by (simp add: IH)
  qed simp
  then show ?thesis by (simp add: dedupeTasks_def filter_map o_def case_prod_unfold)
qed

lemma loadTaskFile_Inr: "loadTaskFile files path p st = Inr t \<Longrightarrow> tk_Project t = p \<and> tk_Status t = st \<and> tk_Path t = path"
  by (cases "read_at files path") (auto simp: loadTaskFile_def Let_def)

lemma folder_task_project: "t \<in> set (folder_tasks root files p st) \<Longrightarrow> tk_Project t = p"
  by (auto simp: folder_tasks_def dest!: loadTaskFile_Inr [OF sym] split: sum.splits)

lemma concat_pairs: "concat (map (\<lambda>(p, st). f p st) (concat (map (\<lambda>p. map (\<lambda>st. (p, st)) sts) ps))) = concat (map (\<lambda>p. concat (map (f p) sts)) ps)"
  by (induction ps) (simp_all add: o_def)

definition project_folders :: "string \<Rightarrow> log_file list \<Rightarrow> ident \<Rightarrow> task list" where
  "project_folders root files p = concat (map (folder_tasks root files p) AllStatuses)"

lemma raw_all:
  "listTasksRaw unreadable root [] [] files = Some raw \<Longrightarrow>
     raw = concat (map (project_folders root files) (map pj_Slug (ListProjects root files)))
     \<and> (\<forall>p \<in> set (map pj_Slug (ListProjects root files)). \<forall>st \<in> set AllStatuses. \<not> unreadable (TasksDir root p st))"
  unfolding listTasksRaw_def Let_def concat_pairs
  by (auto simp: project_folders_def [abs_def] list_ex_iff split: if_splits)

lemma raw_one:
  "p \<noteq> [] \<Longrightarrow> \<forall>st \<in> set AllStatuses. \<not> unreadable (TasksDir root p st) \<Longrightarrow>
     listTasksRaw unreadable root p [] files = Some (project_folders root files p)"
  unfolding listTasksRaw_def Let_def concat_pairs
  by (auto simp: project_folders_def list_ex_iff)

lemma project_folders_filter: "filter (\<lambda>t. tk_Project t = p) (project_folders root files q) = (if q = p then project_folders root files q else [])"
proof -
  have "\<forall>t \<in> set (project_folders root files q). tk_Project t = q"
    using folder_task_project by (auto simp: project_folders_def)
  then show ?thesis by (auto intro: filter_True simp: filter_empty_conv)
qed

lemma filter_projects:
  "distinct ps \<Longrightarrow> filter (\<lambda>t. tk_Project t = p) (concat (map (project_folders root files) ps))
     = (if p \<in> set ps then project_folders root files p else [])"
  by (induction ps) (auto simp: project_folders_filter)

lemma listed_slugs: "distinct (map pj_Slug (ListProjects root files))"
proof -
  let ?names = "filter (\<lambda>name. \<not> has_prefix name ''_'') (read_dirs (dacli root [''projects'']) files)"
  let ?f = "\<lambda>name. case LoadProject root files name of Inl _ \<Rightarrow> [] | Inr p \<Rightarrow> [p]"
  have "distinct ?names" by (simp add: read_dirs_def)
  moreover have "map pj_Slug (?f n) = (if isl (LoadProject root files n) then [] else [n])" for n
    using LoadProject_D(7) [of root files n] by (auto split: sum.split)
  then have "map pj_Slug (concat (map ?f ns)) = filter (\<lambda>n. \<not> isl (LoadProject root files n)) ns" for ns
    by (induction ns) auto
  ultimately show ?thesis unfolding ListProjects_def by (simp only: distinct_filter)
qed

lemma ListTasks_one:
  assumes "listTasksRaw unreadable root [] [] files = Some raw" "p \<in> set (map pj_Slug (ListProjects root files))" "p \<noteq> []"
    and "\<forall>t \<in> set raw. \<forall>u \<in> set raw. taskIdentity u = taskIdentity t \<longrightarrow> tk_Project u = tk_Project t"
    and "ListTasks unreadable mtime root [] [] files = Some ts"
  shows "ListTasks unreadable mtime root p [] files = Some (filter (\<lambda>t. tk_Project t = p) ts)"
proof -
  note r = raw_all [OF assms(1)]
  have raw: "filter (\<lambda>t. tk_Project t = p) raw = project_folders root files p"
    using filter_projects [OF listed_slugs, of p root files root files] r assms(2) by simp
  have "listTasksRaw unreadable root p [] files = Some (filter (\<lambda>t. tk_Project t = p) raw)"
    unfolding raw using r assms(2,3) by (intro raw_one) blast+
  moreover have "ts = sort_key (\<lambda>t. (tk_Project t, tk_Seq t)) (dedupeTasks mtime raw)" using assms(1,5) by (simp add: ListTasks_def)
  moreover have "filter (\<lambda>t. tk_Project t = p) (dedupeTasks mtime raw) = dedupeTasks mtime (filter (\<lambda>t. tk_Project t = p) raw)"
    using assms(4) by (intro dedupe_filter) metis
  ultimately show ?thesis by (simp add: ListTasks_def filter_sort)
qed

text \<open>What the index holds under a key.\<close>

definition index_keys :: "task \<Rightarrow> string set" where
  "index_keys t = set (taskRefKeys t) \<union> (\<lambda>k. tk_Project t @ ''/'' @ k) ` set (taskRefKeys t)"

lemma gslice_add_ref: "gslice (add_ref t key m) k = gslice m k @ (if k = key \<and> k \<noteq> [] \<and> t \<notin> set (gslice m k) then [t] else [])"
  by (auto simp: add_ref_def gslice_def)

lemma gslice_add_refs:
  "gslice (foldl (\<lambda>m key. add_ref t (tk_Project t @ ''/'' @ key) (add_ref t key m)) m keys) k
     = gslice m k @ (if k \<noteq> [] \<and> k \<in> set keys \<union> (\<lambda>k. tk_Project t @ ''/'' @ k) ` set keys \<and> t \<notin> set (gslice m k) then [t] else [])"
  by (induction keys arbitrary: m) (auto simp: gslice_add_ref)

lemma gslice_add_task:
  "gslice (add_task m t) k = gslice m k @ (if k \<noteq> [] \<and> k \<in> index_keys t \<and> t \<notin> set (gslice m k) then [t] else [])"
  unfolding add_task_def gslice_add_refs index_keys_def ..

lemma gslice_index:
  "distinct ts \<Longrightarrow> gslice (ix_byRef (newTaskIndex ts known)) k = filter (\<lambda>t. k \<noteq> [] \<and> k \<in> index_keys t) ts"
proof -
  assume "distinct ts"
  then have "gslice (foldl add_task [] ts) k = filter (\<lambda>t. k \<noteq> [] \<and> k \<in> index_keys t) ts"
  proof (induction ts rule: rev_induct)
    case (snoc t ts)
    then show ?case by (auto simp: gslice_add_task)
  qed (simp add: gslice_def)
  then show ?thesis by (simp add: newTaskIndex_def)
qed

text \<open>Tasks whose names can be told apart from paths.\<close>

definition named_task :: "task \<Rightarrow> bool" where
  "named_task t \<longleftrightarrow> tk_ID t \<notin> {[], ''t-''} \<and> CHR ''/'' \<notin> set (tk_ID t) \<and> tk_Slug t \<noteq> [] \<and> CHR ''/'' \<notin> set (tk_Slug t)
     \<and> tk_Project t \<noteq> [] \<and> CHR ''/'' \<notin> set (tk_Project t)"

lemma digits_no_slash: "CHR ''/'' \<notin> set (itoa_int n)" "CHR ''/'' \<notin> set (pad3 n)" "pad3 n \<noteq> []" "itoa_int n \<noteq> []"
proof -
  have "\<not> is_digit CHR ''/''" by code_simp
  then have d: "CHR ''/'' \<notin> set (itoa m)" "itoa m \<noteq> []" for m using itoa_digits [of m] by (auto simp: list_all_iff)
  then show "CHR ''/'' \<notin> set (itoa_int n)" "CHR ''/'' \<notin> set (pad3 n)" "pad3 n \<noteq> []" "itoa_int n \<noteq> []"
    by (simp_all add: itoa_int_def pad3_def)
qed

lemma ref_keys: "named_task t \<Longrightarrow> k \<in> set (taskRefKeys t) \<Longrightarrow> k \<noteq> [] \<and> CHR ''/'' \<notin> set k"
proof -
  assume t: "named_task t" "k \<in> set (taskRefKeys t)"
  have "set (trim_prefix (tk_ID t) ''t-'') \<subseteq> set (tk_ID t)" by (auto simp: trim_prefix_def dest: in_set_dropD)
  moreover have "trim_prefix (tk_ID t) ''t-'' \<noteq> []"
    using t(1) by (auto simp: named_task_def trim_prefix_def has_prefix_iff)
  ultimately show ?thesis
    using t digits_no_slash by (auto simp: taskRefKeys_def named_task_def)
qed

lemma split_qualified:
  assumes "CHR ''/'' \<notin> set p"
  shows "splitQualifiedTaskRef (p @ ''/'' @ r) = (p, r, p \<noteq> [] \<and> r \<noteq> [] \<and> CHR ''/'' \<notin> set r)"
proof -
  have "takeWhile (\<lambda>x. x \<noteq> CHR ''/'') (p @ CHR ''/'' # r) = p" "dropWhile (\<lambda>x. x \<noteq> CHR ''/'') (p @ CHR ''/'' # r) = CHR ''/'' # r"
    using assms by (subst takeWhile_append2, auto, subst dropWhile_append2, auto)
  then show ?thesis by (simp add: splitQualifiedTaskRef_def before_first_def after_first_def Let_def)
qed

lemma split_parts:
  assumes "splitQualifiedTaskRef ref = (p, r, True)"
  shows "ref = p @ ''/'' @ r" "CHR ''/'' \<notin> set p" "CHR ''/'' \<notin> set r" "p \<noteq> []"
proof -
  from assms have c: "p = takeWhile (\<lambda>x. x \<noteq> CHR ''/'') ref" "r = tl (dropWhile (\<lambda>x. x \<noteq> CHR ''/'') ref)" "CHR ''/'' \<in> set ref"
    "p \<noteq> []" "CHR ''/'' \<notin> set r"
    by (auto simp: splitQualifiedTaskRef_def before_first_def after_first_def Let_def)
  have d: "dropWhile (\<lambda>x. x \<noteq> CHR ''/'') ref \<noteq> []" using c(3) by auto
  from hd_dropWhile [OF d] have "dropWhile (\<lambda>x. x \<noteq> CHR ''/'') ref = CHR ''/'' # r"
    unfolding c(2) using d by (cases "dropWhile (\<lambda>x. x \<noteq> CHR ''/'') ref") auto
  then show "ref = p @ ''/'' @ r" using takeWhile_dropWhile_id [of "\<lambda>x. x \<noteq> CHR ''/''" ref] c(1) by simp
  show "CHR ''/'' \<notin> set p" unfolding c(1) by (auto dest: set_takeWhileD)
  show "CHR ''/'' \<notin> set r" "p \<noteq> []" by fact+
qed

lemma index_keys_split:
  assumes "named_task t" "splitQualifiedTaskRef ref = (p, r, q)"
  shows "ref \<noteq> [] \<and> ref \<in> index_keys t \<longleftrightarrow> (if q then tk_Project t = p \<and> matchesRef t r else matchesRef t ref)"
proof (cases q)
  case True
  from assms(2) True have "splitQualifiedTaskRef ref = (p, r, True)" by simp
  note s = split_parts [OF this]
  have "ref \<notin> set (taskRefKeys t)"
  proof
    assume "ref \<in> set (taskRefKeys t)"
    from ref_keys [OF assms(1) this] show False by (simp add: s(1))
  qed
  moreover have "p @ ''/'' @ r = tk_Project t @ ''/'' @ k \<longleftrightarrow> p = tk_Project t \<and> r = k" for k
  proof
    assume e: "p @ ''/'' @ r = tk_Project t @ ''/'' @ k"
    have "takeWhile (\<lambda>x. x \<noteq> CHR ''/'') (p @ ''/'' @ r) = p" "takeWhile (\<lambda>x. x \<noteq> CHR ''/'') (tk_Project t @ ''/'' @ k) = tk_Project t"
      using s(2) assms(1) by (subst takeWhile_append2; auto simp: named_task_def)+
    with e have "p = tk_Project t" by simp
    with e show "p = tk_Project t \<and> r = k" by simp
  qed simp
  ultimately show ?thesis using True by (auto simp: index_keys_def matchesRef_def s(1))
next
  case False
  have "ref \<noteq> tk_Project t @ ''/'' @ k" if "k \<in> set (taskRefKeys t)" for k
    using that split_qualified [of "tk_Project t" k] ref_keys [OF assms(1) that] assms False by (auto simp: named_task_def)
  moreover have "matchesRef t ref \<Longrightarrow> ref \<noteq> []" using ref_keys [OF assms(1)] by (auto simp: matchesRef_def)
  ultimately show ?thesis using False by (auto simp: index_keys_def matchesRef_def)
qed

text \<open>C30: The index answers every reference as the one-shot search does. Loops (synchronisation, scheduling)
  resolve references through an index that was built once; single commands search the task files. In a
  workspace whose tasks have names (an identifier and a slug, without slashes), whose projects share
  no identifier and all appear in the project list, the two find the same task for every reference,
  qualified or not, and call the same references ambiguous.\<close>

theorem index_agrees_with_search:
  assumes "BuildTaskIndex unreadable mtime root files = Some ix" "listTasksRaw unreadable root [] [] files = Some raw"
    and "\<forall>t \<in> set raw. named_task t"
    and "\<forall>t \<in> set raw. \<forall>u \<in> set raw. taskIdentity u = taskIdentity t \<longrightarrow> tk_Project u = tk_Project t"
    and "\<forall>p q. LoadProject root files p = Inr q \<longrightarrow> SafeSegment p \<and> \<not> has_prefix p ''_''"
  shows "(index_find ix ref = Inr t \<longleftrightarrow> FindTask unreadable mtime root files ref = Inr t)
     \<and> (index_find ix ref = Inl TaskAmbiguous \<longleftrightarrow> FindTask unreadable mtime root files ref = Inl TaskAmbiguous)"
proof -
  let ?known = "map pj_Slug (ListProjects root files)"
  obtain ts where ts: "ListTasks unreadable mtime root [] [] files = Some ts" "ix = newTaskIndex ts ?known"
    using assms(1) by (auto simp: BuildTaskIndex_def)
  from listing_facts [OF assms(2) ts(1)] assms(3) have d: "distinct ts" and named: "\<forall>t \<in> set ts. named_task t" by blast+
  obtain p r q where s: "splitQualifiedTaskRef ref = (p, r, q)" by (metis prod_cases3)
  have hits: "gslice (ix_byRef ix) ref = filter (\<lambda>t. if q then tk_Project t = p \<and> matchesRef t r else matchesRef t ref) ts"
    unfolding ts(2) gslice_index [OF d] using named index_keys_split [OF _ s] by (intro filter_cong) auto
  show ?thesis
  proof (cases q)
    case False
    with hits s ts(1) show ?thesis by (simp add: index_find_def FindTask_def)
  next
    case True
    show ?thesis
    proof (cases "LoadProject root files p")
      case (Inl e)
      have "p \<notin> set ?known"
      proof
        assume "p \<in> set ?known"
        then obtain x where "x \<in> set (ListProjects root files)" "pj_Slug x = p" by auto
        with listed_loads [OF this(1)] Inl show False by simp
      qed
      with Inl True s ts(2) show ?thesis by (simp add: index_find_def FindTask_def newTaskIndex_def)
    next
      case (Inr x)
      then have "x \<in> set (ListProjects root files)" using loaded_listed assms(5) by blast
      then have known: "p \<in> set ?known" using LoadProject_D(7) [OF Inr] by force
      have "p \<noteq> []" using split_parts(4) [of ref p r] s True by simp
      from ListTasks_one [OF assms(2) known this assms(4) ts(1)]
      have "ListTasks unreadable mtime root p [] files = Some (filter (\<lambda>t. tk_Project t = p) ts)" .
      moreover have "filter (\<lambda>t. matchesRef t r) (filter (\<lambda>t. tk_Project t = p) ts) = gslice (ix_byRef ix) ref"
        unfolding hits using True by (simp add: conj_commute)
      ultimately show ?thesis using True s Inr known ts(2) by (simp add: index_find_def FindTask_def newTaskIndex_def)
    qed
  qed
qed

section \<open>A workspace\<close>

text \<open>One project with two tasks, one of which has a stale copy among the open ones.\<close>

definition sample_task_doc :: "ident \<Rightarrow> doc" where
  "sample_task_doc i = \<lparr>dc_Front = Set [] ''id'' i, dc_Sections = [\<lparr>sc_Level = 1, sc_Title = ''Title'', sc_Content = []\<rparr>]\<rparr>"

definition sample_workspace :: "log_file list" where
  "sample_workspace =
     [(''/r/.dacli/projects/web/project.md'', Some (Render (sample_task_doc ''p-web''))),
      (''/r/.dacli/projects/web/tasks/open/001-a.md'', Some (Render (sample_task_doc ''t-1''))),
      (''/r/.dacli/projects/web/tasks/done/001-a.md'', Some (Render (sample_task_doc ''t-1''))),
      (''/r/.dacli/projects/web/tasks/open/002-b.md'', Some (Render (sample_task_doc ''t-2'')))]"

definition sample_task :: "ident \<Rightarrow> int \<Rightarrow> string \<Rightarrow> verb \<Rightarrow> string \<Rightarrow> task" where
  "sample_task i n slug st path = \<lparr>tk_ID = i, tk_Seq = n, tk_Slug = slug, tk_Project = ''web'', tk_Status = st, tk_Title = ''Title'',
     tk_Doc = sample_task_doc i, tk_Path = path\<rparr>"

lemma sample_task_parse: "Parse (Render (sample_task_doc i)) = Inr (sample_task_doc i)"
proof -
  have k: "plain_key ''id''" by code_simp
  have f: "Set [] ''id'' i = foldl (\<lambda>f (k, v). Set f k v) [] [(''id'', i)]" by simp
  from k front_wf_fields [of "[(''id'', i)]"] have wf: "front_wf (Set [] ''id'' i)" "\<forall>e \<in> set (Set [] ''id'' i). field e" by simp_all
  have t: "tight ''Title''" "line ''Title''" "terminated []" "body_lines [] = []" by code_simp+
  have "CHR 0x0D \<notin> set (Render (sample_task_doc i))"
    using fields_plain [OF wf(2)] by (simp add: Render_def sample_task_doc_def Set_def render_section_def rule_line_def)
  then have "drop_crlf (Render (sample_task_doc i)) = Render (sample_task_doc i)" by (rule drop_crlf_plain)
  with parse_render [of "sample_task_doc i"] wf(1) t show ?thesis
    by (simp add: sample_task_doc_def sections_wf_def section_wf_def Set_def)
qed

lemma sample_read_at:
  "gget files path = Some (Some (Render (sample_task_doc i))) \<Longrightarrow> read_at files path = Inr (sample_task_doc i)"
  by (simp add: read_at_def ReadFile_def sample_task_parse)

lemma sample_folders:
  "read_files (TasksDir ''/r'' ''web'' ''open'') sample_workspace = [''001-a.md'', ''002-b.md'']"
  "read_files (TasksDir ''/r'' ''web'' ''done'') sample_workspace = [''001-a.md'']"
  "read_files (TasksDir ''/r'' ''web'' ''active'') sample_workspace = []"
  "read_files (TasksDir ''/r'' ''web'' ''blocked'') sample_workspace = []"
  "read_dirs (dacli ''/r'' [''projects'']) sample_workspace = [''web'']"
  by (simp_all add: read_files_def read_dirs_def below_def TasksDir_def ProjectDir_def project_segment_def dacli_def sample_workspace_def
    has_prefix_def SafeSegment_def has_infix.simps)

definition sample_tasks :: "task list" where
  "sample_tasks =
     [sample_task ''t-1'' 1 ''a'' ''open'' ''/r/.dacli/projects/web/tasks/open/001-a.md'',
      sample_task ''t-2'' 2 ''b'' ''open'' ''/r/.dacli/projects/web/tasks/open/002-b.md'',
      sample_task ''t-1'' 1 ''a'' ''done'' ''/r/.dacli/projects/web/tasks/done/001-a.md'']"

lemma sample_loads:
  "loadTaskFile sample_workspace ''/r/.dacli/projects/web/tasks/open/001-a.md'' ''web'' ''open'' = Inr (sample_tasks ! 0)"
  "loadTaskFile sample_workspace ''/r/.dacli/projects/web/tasks/open/002-b.md'' ''web'' ''open'' = Inr (sample_tasks ! 1)"
  "loadTaskFile sample_workspace ''/r/.dacli/projects/web/tasks/done/001-a.md'' ''web'' ''done'' = Inr (sample_tasks ! 2)"
proof -
  have g: "gget sample_workspace ''/r/.dacli/projects/web/tasks/open/001-a.md'' = Some (Some (Render (sample_task_doc ''t-1'')))"
    "gget sample_workspace ''/r/.dacli/projects/web/tasks/open/002-b.md'' = Some (Some (Render (sample_task_doc ''t-2'')))"
    "gget sample_workspace ''/r/.dacli/projects/web/tasks/done/001-a.md'' = Some (Some (Render (sample_task_doc ''t-1'')))"
    by (simp_all add: sample_workspace_def gget_def)
  have n: "base_name ''/r/.dacli/projects/web/tasks/open/001-a.md'' = ''001-a.md''" "base_name ''/r/.dacli/projects/web/tasks/open/002-b.md'' = ''002-b.md''"
    "base_name ''/r/.dacli/projects/web/tasks/done/001-a.md'' = ''001-a.md''" "trim_suffix ''001-a.md'' ''.md'' = ''001-a''"
    "trim_suffix ''002-b.md'' ''.md'' = ''002-b''" "atoi_value ''001'' = 1" "atoi_value ''002'' = 2"
    by code_simp+
  have d: "get0 (dc_Front (sample_task_doc i)) ''id'' = i" "first_title (dc_Sections (sample_task_doc i)) = ''Title''" for i
    by (simp_all add: sample_task_doc_def get0_def Get_Set)
  show "loadTaskFile sample_workspace ''/r/.dacli/projects/web/tasks/open/001-a.md'' ''web'' ''open'' = Inr (sample_tasks ! 0)"
    "loadTaskFile sample_workspace ''/r/.dacli/projects/web/tasks/open/002-b.md'' ''web'' ''open'' = Inr (sample_tasks ! 1)"
    "loadTaskFile sample_workspace ''/r/.dacli/projects/web/tasks/done/001-a.md'' ''web'' ''done'' = Inr (sample_tasks ! 2)"
    by (simp_all add: loadTaskFile_def sample_read_at [OF g(1)] sample_read_at [OF g(2)] sample_read_at [OF g(3)] n d
      sample_tasks_def sample_task_def before_first_def after_first_def Let_def)
qed

lemma sample_project_loads: "\<exists>q. LoadProject ''/r'' sample_workspace ''web'' = Inr q"
proof -
  have path: "ProjectPath ''/r'' ''web'' = ''/r/.dacli/projects/web/project.md''" by code_simp
  have "gget sample_workspace (ProjectPath ''/r'' ''web'') = Some (Some (Render (sample_task_doc ''p-web'')))"
    unfolding path by (simp add: sample_workspace_def gget_def)
  note r = sample_read_at [OF this]
  have "doc_landing (sample_task_doc ''p-web'') = \<lparr>lp_Mode = [], lp_Base = []\<rparr>"
    by (simp add: doc_landing_def get0_def sample_task_doc_def Get_Set)
  with LoadProject_Inr [OF r] resolve_default show ?thesis by (simp add: sample_task_doc_def Get_Set)
qed

lemma sample_raw: "listTasksRaw (\<lambda>d. False) ''/r'' [] [] sample_workspace = Some sample_tasks"
proof -
  obtain q where q: "LoadProject ''/r'' sample_workspace ''web'' = Inr q" using sample_project_loads by blast
  then have "map pj_Slug (ListProjects ''/r'' sample_workspace) = [''web'']"
    using LoadProject_D(7) [OF q] by (simp add: ListProjects_def sample_folders has_prefix_def)
  moreover have "TasksDir ''/r'' ''web'' ''open'' = ''/r/.dacli/projects/web/tasks/open''" "TasksDir ''/r'' ''web'' ''done'' = ''/r/.dacli/projects/web/tasks/done''"
    by code_simp+
  moreover have "has_suffix ''001-a.md'' ''.md''" "has_suffix ''002-b.md'' ''.md''" by code_simp+
  ultimately show ?thesis
    using sample_folders sample_loads
    by (simp add: listTasksRaw_def folder_tasks_def AllStatuses_def sample_tasks_def Let_def)
qed

lemma sample_ListTasks:
  "ListTasks (\<lambda>d. False) (\<lambda>p. 0) ''/r'' [] [] sample_workspace = Some [sample_tasks ! 2, sample_tasks ! 1]"
proof -
  have "statusRank ''open'' < statusRank ''done''" by code_simp
  then have "dedupeTasks (\<lambda>p. 0) sample_tasks = [sample_tasks ! 2, sample_tasks ! 1]"
    by (simp add: dedupeTasks_def keep_best_def taskIdentity_def sample_tasks_def sample_task_def preferTask_def gget_def gput_def)
  then show ?thesis by (simp add: ListTasks_def sample_raw) (simp add: sample_tasks_def sample_task_def)
qed


theorem index_agrees_with_search_witness:
  "\<exists>ix t. BuildTaskIndex (\<lambda>d. False) (\<lambda>p. 0) ''/r'' sample_workspace = Some ix \<and> tk_ID t = ''t-1'' \<and> tk_Status t = ''done''
     \<and> index_find ix ''web/001'' = Inr t \<and> FindTask (\<lambda>d. False) (\<lambda>p. 0) ''/r'' sample_workspace ''web/001'' = Inr t"
proof -
  obtain ix where ix: "BuildTaskIndex (\<lambda>d. False) (\<lambda>p. 0) ''/r'' sample_workspace = Some ix"
    "ix = newTaskIndex [sample_tasks ! 2, sample_tasks ! 1] (map pj_Slug (ListProjects ''/r'' sample_workspace))"
    by (simp add: BuildTaskIndex_def sample_ListTasks)
  have named: "\<forall>t \<in> set sample_tasks. named_task t" by (simp add: sample_tasks_def sample_task_def named_task_def)
  have own: "\<forall>t \<in> set sample_tasks. \<forall>u \<in> set sample_tasks. taskIdentity u = taskIdentity t \<longrightarrow> tk_Project u = tk_Project t"
    by (simp add: sample_tasks_def sample_task_def)
  have safe: "\<forall>p q. LoadProject ''/r'' sample_workspace p = Inr q \<longrightarrow> SafeSegment p \<and> \<not> has_prefix p ''_''"
  proof (intro allI impI)
    fix p q assume "LoadProject ''/r'' sample_workspace p = Inr q"
    then have "gget sample_workspace (ProjectPath ''/r'' p) \<noteq> None"
      by (auto simp: LoadProject_def read_at_def split: option.splits)
    then have "rev (ProjectPath ''/r'' p) \<in> rev ` fst ` set sample_workspace" by (simp add: gget_fst)
    then have "project_segment p = ''web''"
      by (simp add: sample_workspace_def ProjectPath_def ProjectDir_def dacli_def rev_swap)
    then have "p = ''web''" by (simp add: project_segment_def split: if_splits)
    moreover have "SafeSegment ''web''" by code_simp
    ultimately show "SafeSegment p \<and> \<not> has_prefix p ''_''" by (simp add: has_prefix_def)
  qed
  have split: "splitQualifiedTaskRef ''web/001'' = (''web'', ''001'', True)" by code_simp
  obtain q where "LoadProject ''/r'' sample_workspace ''web'' = Inr q" using sample_project_loads by blast
  moreover from ListTasks_one [OF sample_raw _ _ own sample_ListTasks, of "''web''"]
  have "ListTasks (\<lambda>d. False) (\<lambda>p. 0) ''/r'' ''web'' [] sample_workspace = Some [sample_tasks ! 2, sample_tasks ! 1]"
    using loaded_listed [OF calculation] LoadProject_D(7) [OF calculation] safe calculation
    by (force simp: sample_tasks_def sample_task_def)
  moreover have "matchesRef (sample_tasks ! 2) ''001''" "\<not> matchesRef (sample_tasks ! 1) ''001''"
  proof -
    have "pad3 1 = ''001''" "pad3 2 = ''002''" "itoa_int 2 = ''2''" by code_simp+
    then show "matchesRef (sample_tasks ! 2) ''001''" "\<not> matchesRef (sample_tasks ! 1) ''001''"
      by (simp_all add: matchesRef_def taskRefKeys_def sample_tasks_def sample_task_def trim_prefix_def has_prefix_def)
  qed
  ultimately have "FindTask (\<lambda>d. False) (\<lambda>p. 0) ''/r'' sample_workspace ''web/001'' = Inr (sample_tasks ! 2)"
    by (simp add: FindTask_def split)
  moreover from this have "index_find ix ''web/001'' = Inr (sample_tasks ! 2)"
    using index_agrees_with_search [OF ix(1) sample_raw named own safe] by blast
  ultimately show ?thesis using ix(1) by (intro exI [of _ ix] exI [of _ "sample_tasks ! 2"]) (simp add: sample_tasks_def sample_task_def)
qed

end
