(* ===== verification/Task_Readiness.thy ===== *)
theory Task_Readiness
  imports Task_Index Critical_Path
begin

text \<open>
  Dependencies between tasks (\<^verbatim>\<open>Deps\<close> and \<^verbatim>\<open>NormalizeDependency\<close> of \<^verbatim>\<open>internal/store/store.go\<close>,
  \<^verbatim>\<open>internal/store/readiness.go\<close> and \<^verbatim>\<open>internal/store/dependency.go\<close>): what may be started, what waits,
  what needs a human, and how the list of dependencies of a task is edited. The theorems: the frontier
  is exactly what the dependencies allow, it is never empty while an unfinished task can be worked on,
  and an edit is written only when the graph behind it has no cycle.
\<close>

section \<open>Dependencies\<close>

record dep =
  dp_Ref :: string
  dp_Type :: verb

definition type_of_suffix :: "string \<Rightarrow> verb" where
  "type_of_suffix s = (let t = to_upper s in if t \<in> {''BLOCKS'', ''HARD''} then ''FS'' else t)"

definition parse_dep :: "string \<Rightarrow> dep" where
  "parse_dep raw =
     (if CHR '':'' \<in> set raw \<and> hd raw \<noteq> CHR '':'' then
        \<lparr>dp_Ref = before_first CHR '':'' raw, dp_Type = type_of_suffix (after_first CHR '':'' raw)\<rparr>
      else \<lparr>dp_Ref = raw, dp_Type = ''FS''\<rparr>)"

definition Deps :: "task \<Rightarrow> dep list" where
  "Deps t = map parse_dep (GetList (dc_Front (tk_Doc t)) ''depends_on'')"

definition known_type :: "verb \<Rightarrow> bool" where
  "known_type typ \<longleftrightarrow> typ \<in> {''FS'', ''SS'', ''FF'', ''SF''}"

text \<open>What precedes and what follows the last colon, when something precedes it.\<close>

definition cut_last :: "string \<Rightarrow> (string \<times> string) option" where
  "cut_last raw =
     (case before_last CHR '':'' raw of
        None \<Rightarrow> None
      | Some p \<Rightarrow> if p = [] then None else Some (p, drop (length p + 1) raw))"

definition NormalizeDependency :: "string \<Rightarrow> string option" where
  "NormalizeDependency raw =
     (let (ref, typ) = (case cut_last raw of None \<Rightarrow> (raw, ''FS'') | Some (p, s) \<Rightarrow> (p, type_of_suffix s)) in
      if \<not> known_type typ then None
      else Some (if typ = ''FS'' then ref else ref @ '':'' @ typ))"

definition DepBlocksStart :: "dep \<Rightarrow> bool" where
  "DepBlocksStart d \<longleftrightarrow> to_upper (dp_Type d) \<noteq> ''SS''"

text \<open>The project's own index first, then the workspace; an ambiguity in the project is final.\<close>

definition resolveDep :: "task_index option \<Rightarrow> task_index \<Rightarrow> string \<Rightarrow> find_task_error + task" where
  "resolveDep local global ref =
     (case local of
        None \<Rightarrow> index_find global ref
      | Some ix \<Rightarrow>
          (case index_find ix ref of
             Inr t \<Rightarrow> Inr t
           | Inl e \<Rightarrow> if e = TaskNotFound then index_find global ref else Inl e))"

definition local_index :: "task list \<Rightarrow> ident \<Rightarrow> task_index option" where
  "local_index tasks p =
     (let mine = filter (\<lambda>t. tk_Project t = p) tasks in if mine = [] then None else Some (NewTaskIndex mine))"

definition resolve_in :: "task list \<Rightarrow> ident \<Rightarrow> string \<Rightarrow> find_task_error + task" where
  "resolve_in tasks p ref = resolveDep (local_index tasks p) (NewTaskIndex tasks) ref"

section \<open>The frontier\<close>

definition IsLoopAnchor :: "task \<Rightarrow> bool" where
  "IsLoopAnchor t \<longleftrightarrow> has_prefix (tk_Title t) ''Continuous improvement''"

definition IsAggregate :: "task \<Rightarrow> bool" where
  "IsAggregate t \<longleftrightarrow>
     (let kind = get0 (dc_Front (tk_Doc t)) ''task_kind'' in (if kind = [] then ''work'' else kind) = ''aggregate'')"

definition Schedulable :: "task \<Rightarrow> bool" where
  "Schedulable t \<longleftrightarrow> get0 (dc_Front (tk_Doc t)) ''priority'' \<noteq> ''wont''"

record frontier =
  fr_Ready :: "task list"
  fr_Blocked :: "task list"
  fr_Problems :: "(task \<times> string \<times> find_task_error) list"

definition candidate :: "ident \<Rightarrow> task \<Rightarrow> bool" where
  "candidate project t \<longleftrightarrow>
     \<not> (project \<noteq> [] \<and> tk_Project t \<noteq> project) \<and> tk_Status t = ''open'' \<and> \<not> IsLoopAnchor t \<and> \<not> IsAggregate t \<and> Schedulable t"

text \<open>The loop over the dependencies of one task: whether it is blocked, and the references that name no task.\<close>

fun dep_loop ::
    "task list \<Rightarrow> ident set \<Rightarrow> task \<Rightarrow> dep list \<Rightarrow> bool \<times> (task \<times> string \<times> find_task_error) list" where
  "dep_loop tasks finished t [] = (False, [])"
| "dep_loop tasks finished t (d # ds) =
     (let (blocked, problems) = dep_loop tasks finished t ds in
      if \<not> DepBlocksStart d then (blocked, problems)
      else case resolve_in tasks (tk_Project t) (dp_Ref d) of
        Inl e \<Rightarrow> (True, (t, dp_Ref d, e) # problems)
      | Inr u \<Rightarrow> (blocked \<or> tk_ID u \<notin> finished, problems))"

definition finished_ids :: "task list \<Rightarrow> ident set" where
  "finished_ids tasks = set (map tk_ID (filter (\<lambda>t. tk_Status t = ''done'') tasks))"

definition readyFrontier :: "task list \<Rightarrow> ident \<Rightarrow> frontier" where
  "readyFrontier tasks project =
     foldl (\<lambda>fr t.
       if \<not> candidate project t then fr
       else let (blocked, problems) = dep_loop tasks (finished_ids tasks) t (Deps t);
                fr = fr\<lparr>fr_Problems := fr_Problems fr @ problems\<rparr> in
         if blocked then fr\<lparr>fr_Blocked := fr_Blocked fr @ [t]\<rparr> else fr\<lparr>fr_Ready := fr_Ready fr @ [t]\<rparr>)
       \<lparr>fr_Ready = [], fr_Blocked = [], fr_Problems = []\<rparr> tasks"

section \<open>What the frontier is\<close>

text \<open>A dependency holds its task back when it blocks and does not name a finished task.\<close>

definition holds_back :: "task list \<Rightarrow> task \<Rightarrow> dep \<Rightarrow> bool" where
  "holds_back tasks t d \<longleftrightarrow> DepBlocksStart d \<and>
     (case resolve_in tasks (tk_Project t) (dp_Ref d) of Inl e \<Rightarrow> True | Inr u \<Rightarrow> tk_ID u \<notin> finished_ids tasks)"

lemma dep_loop_eq:
  "dep_loop tasks (finished_ids tasks) t ds =
     (\<exists>d \<in> set ds. holds_back tasks t d,
      concat (map (\<lambda>d. if DepBlocksStart d then (case resolve_in tasks (tk_Project t) (dp_Ref d) of Inl e \<Rightarrow> [(t, dp_Ref d, e)] | Inr u \<Rightarrow> [])
        else []) ds))"
  by (induction ds) (auto simp: holds_back_def Let_def split: sum.split)

lemma frontier_fold:
  fixes fr :: frontier
  assumes "\<And>t. snd (f t) = ps t" "\<And>t. fst (f t) = b t"
  shows "foldl (\<lambda>fr t. if \<not> c t then fr
       else let (blocked, problems) = f t; fr = fr\<lparr>fr_Problems := fr_Problems fr @ problems\<rparr> in
         if blocked then fr\<lparr>fr_Blocked := fr_Blocked fr @ [t]\<rparr> else fr\<lparr>fr_Ready := fr_Ready fr @ [t]\<rparr>) fr ts
     = \<lparr>fr_Ready = fr_Ready fr @ filter (\<lambda>t. c t \<and> \<not> b t) ts, fr_Blocked = fr_Blocked fr @ filter (\<lambda>t. c t \<and> b t) ts,
        fr_Problems = fr_Problems fr @ concat (map ps (filter c ts))\<rparr>"
  by (induction ts arbitrary: fr) (auto simp: assms [symmetric] case_prod_unfold Let_def)

lemma readyFrontier_eq:
  "readyFrontier tasks project =
     \<lparr>fr_Ready = filter (\<lambda>t. candidate project t \<and> \<not> (\<exists>d \<in> set (Deps t). holds_back tasks t d)) tasks,
      fr_Blocked = filter (\<lambda>t. candidate project t \<and> (\<exists>d \<in> set (Deps t). holds_back tasks t d)) tasks,
      fr_Problems = concat (map (\<lambda>t. concat (map (\<lambda>d. if DepBlocksStart d
          then (case resolve_in tasks (tk_Project t) (dp_Ref d) of Inl e \<Rightarrow> [(t, dp_Ref d, e)] | Inr u \<Rightarrow> []) else []) (Deps t)))
        (filter (candidate project) tasks))\<rparr>"
  unfolding readyFrontier_def by (subst frontier_fold, unfold dep_loop_eq snd_conv fst_conv, rule refl, rule refl, simp)

lemma index_member: "t \<in> set (gslice (ix_byRef (newTaskIndex ts known)) k) \<Longrightarrow> t \<in> set ts"
proof -
  have "set (gslice (foldl add_task [] ts) k) \<subseteq> set ts"
  proof (induction ts rule: rev_induct)
    case Nil
    show ?case by (simp add: gslice_def)
  next
    case (snoc x xs)
    have "set (gslice (add_task m x) k) \<subseteq> insert x (set (gslice m k))" for m unfolding gslice_add_task set_append by (simp split: if_split add: subset_insertI) (rule subsetI, simp)
    with snoc show ?case unfolding foldl_append by fastforce
  qed
  then show "t \<in> set (gslice (ix_byRef (newTaskIndex ts known)) k) \<Longrightarrow> t \<in> set ts"
    unfolding newTaskIndex_def task_index.simps by blast
qed

lemma resolveRef_Inr: "resolveRef hits = Inr t \<Longrightarrow> t \<in> set hits"
  by (induction hits rule: resolveRef.induct) auto

lemma index_find_member: "index_find (newTaskIndex ts known) ref = Inr t \<Longrightarrow> t \<in> set ts"
  by (rule index_member, rule resolveRef_Inr) (auto simp: index_find_def split: prod.splits if_splits)

lemma resolve_in_member: "resolve_in tasks p ref = Inr t \<Longrightarrow> t \<in> set tasks"
proof -
  assume r: "resolve_in tasks p ref = Inr t"
  let ?mine = "filter (\<lambda>t. tk_Project t = p) tasks"
  have "index_find (NewTaskIndex tasks) ref = Inr t \<or> index_find (NewTaskIndex ?mine) ref = Inr t"
    using r by (auto simp: resolve_in_def resolveDep_def local_index_def Let_def split: if_splits sum.splits)
  then show "t \<in> set tasks"
  proof
    assume "index_find (NewTaskIndex tasks) ref = Inr t"
    then show ?thesis unfolding NewTaskIndex_def by (rule index_find_member)
  next
    assume "index_find (NewTaskIndex ?mine) ref = Inr t"
    then have "t \<in> set ?mine" unfolding NewTaskIndex_def by (rule index_find_member)
    then show ?thesis by simp
  qed
qed

lemma concat_twice: "x \<in> set (concat (map (\<lambda>u. concat (map (f u) (g u))) us)) \<longleftrightarrow> (\<exists>u \<in> set us. \<exists>d \<in> set (g u). x \<in> set (f u d))"
  by auto

lemma problem_of_dep:
  "x \<in> set (if b then (case r of Inl e \<Rightarrow> [(t, ref, e)] | Inr u \<Rightarrow> []) else []) \<longleftrightarrow> b \<and> (\<exists>e. r = Inl e \<and> x = (t, ref, e))"
  by (cases b; cases r) simp_all

lemma problem_iff:
  "(t, ref, e) \<in> set (fr_Problems (readyFrontier tasks project)) \<longleftrightarrow> t \<in> set tasks \<and> candidate project t
      \<and> (\<exists>d \<in> set (Deps t). DepBlocksStart d \<and> dp_Ref d = ref \<and> resolve_in tasks (tk_Project t) ref = Inl e)"
  unfolding readyFrontier_eq frontier.simps concat_twice problem_of_dep by auto

text \<open>C31: The frontier is exactly what the dependencies allow. A task is handed out if and only if it is an open
  task of the project that is real work (no anchor, no aggregate, not \<^verbatim>\<open>wont\<close>) and each of its
  dependencies is start-to-start or names a task that is done; the other candidates are reported as
  blocked, and the references that name no task or several are reported as problems, exactly those.
  (Identifiers must be unique, see \<open>hollow_dependency_satisfied\<close>.)\<close>

theorem frontier_exact:
  assumes "distinct (map tk_ID tasks)"
  shows "(t \<in> set (fr_Ready (readyFrontier tasks project)) \<longleftrightarrow> t \<in> set tasks \<and> candidate project t
       \<and> (\<forall>d \<in> set (Deps t). to_upper (dp_Type d) = ''SS''
            \<or> (\<exists>u \<in> set tasks. resolve_in tasks (tk_Project t) (dp_Ref d) = Inr u \<and> tk_Status u = ''done'')))
     \<and> (t \<in> set (fr_Blocked (readyFrontier tasks project)) \<longleftrightarrow>
          t \<in> set tasks \<and> candidate project t \<and> t \<notin> set (fr_Ready (readyFrontier tasks project)))
     \<and> ((t, ref, e) \<in> set (fr_Problems (readyFrontier tasks project)) \<longleftrightarrow> t \<in> set tasks \<and> candidate project t
          \<and> (\<exists>d \<in> set (Deps t). DepBlocksStart d \<and> dp_Ref d = ref \<and> resolve_in tasks (tk_Project t) ref = Inl e))"
proof -
  have "tk_ID u \<in> finished_ids tasks \<longleftrightarrow> tk_Status u = ''done''" if "u \<in> set tasks" for u
    using that assms by (auto simp: finished_ids_def distinct_map dest: inj_onD)
  then have "holds_back tasks t d \<longleftrightarrow> \<not> (to_upper (dp_Type d) = ''SS''
      \<or> (\<exists>u \<in> set tasks. resolve_in tasks (tk_Project t) (dp_Ref d) = Inr u \<and> tk_Status u = ''done''))" for d
    using resolve_in_member [of tasks "tk_Project t" "dp_Ref d"]
    by (auto simp: holds_back_def DepBlocksStart_def split: sum.split)
  moreover have "(t, ref, e) \<in> set (fr_Problems (readyFrontier tasks project)) \<longleftrightarrow> t \<in> set tasks \<and> candidate project t
      \<and> (\<exists>d \<in> set (Deps t). DepBlocksStart d \<and> dp_Ref d = ref \<and> resolve_in tasks (tk_Project t) ref = Inl e)"
    by (rule problem_iff)
  ultimately show ?thesis by (auto simp: readyFrontier_eq)
qed

text \<open>A dependency that names a task without an identifier counts as satisfied as soon as any task without
  an identifier is done.\<close>

lemma hollow_dependency_satisfied:
  assumes "v \<in> set tasks" "tk_Status v = ''done''" "tk_ID v = []"
    and "resolve_in tasks (tk_Project t) (dp_Ref d) = Inr u" "tk_ID u = []"
  shows "\<not> holds_back tasks t d"
  using assms by (force simp: holds_back_def finished_ids_def)

section \<open>Work never stalls\<close>

definition waits_for :: "task list \<Rightarrow> (task \<times> task) set" where
  "waits_for tasks = {(u, t). t \<in> set tasks \<and> (\<exists>d \<in> set (Deps t). DepBlocksStart d \<and> resolve_in tasks (tk_Project t) (dp_Ref d) = Inr u)}"

lemma waits_for_finite: "finite (waits_for tasks)"
  by (rule finite_subset [of _ "set tasks \<times> set tasks"]) (auto simp: waits_for_def dest: resolve_in_member)

text \<open>C32: Work does not stall. Take an unfinished task and everything that it waits for, directly or not. If
  each of those tasks that is unfinished is a candidate whose references resolve, and the waiting has
  no cycle, then at least one of them is in the frontier: there is always something to hand out that
  brings the task closer.\<close>

theorem work_never_stalls:
  assumes "acyclic (waits_for tasks)" "t \<in> set tasks" "tk_Status t \<noteq> ''done''"
    and "\<forall>u. (u, t) \<in> (waits_for tasks)\<^sup>* \<longrightarrow> tk_Status u \<noteq> ''done'' \<longrightarrow> candidate project u
       \<and> (\<forall>d \<in> set (Deps u). DepBlocksStart d \<longrightarrow> (\<exists>v. resolve_in tasks (tk_Project u) (dp_Ref d) = Inr v))"
  shows "\<exists>r \<in> set (fr_Ready (readyFrontier tasks project)). (r, t) \<in> (waits_for tasks)\<^sup>*"
proof -
  have "wf (waits_for tasks)" using finite_acyclic_wf [OF waits_for_finite assms(1)] .
  then show ?thesis using assms(2-4)
  proof (induction t rule: wf_induct_rule)
    case (less t)
    from less.prems(2,3) have c: "candidate project t"
      "\<forall>d \<in> set (Deps t). DepBlocksStart d \<longrightarrow> (\<exists>v. resolve_in tasks (tk_Project t) (dp_Ref d) = Inr v)"
      by blast+
    show ?case
    proof (cases "\<exists>d \<in> set (Deps t). holds_back tasks t d")
      case False
      with c(1) less.prems(1) have "t \<in> set (fr_Ready (readyFrontier tasks project))" by (simp add: readyFrontier_eq)
      then show ?thesis by blast
    next
      case True
      then obtain d where d: "d \<in> set (Deps t)" "DepBlocksStart d" "holds_back tasks t d" by (auto simp: holds_back_def)
      with c(2) obtain u where u: "resolve_in tasks (tk_Project t) (dp_Ref d) = Inr u" by blast
      have mem: "u \<in> set tasks" using resolve_in_member [OF u] .
      have "tk_ID u \<notin> finished_ids tasks" using d(3) u by (simp add: holds_back_def)
      with mem have open_u: "tk_Status u \<noteq> ''done''" by (auto simp: finished_ids_def)
      have e: "(u, t) \<in> waits_for tasks" using less.prems(1) d u by (auto simp: waits_for_def)
      have "\<forall>v. (v, u) \<in> (waits_for tasks)\<^sup>* \<longrightarrow> tk_Status v \<noteq> ''done'' \<longrightarrow> candidate project v
        \<and> (\<forall>d \<in> set (Deps v). DepBlocksStart d \<longrightarrow> (\<exists>w. resolve_in tasks (tk_Project v) (dp_Ref d) = Inr w))"
        using less.prems(3) e by (meson rtrancl.rtrancl_into_rtrancl)
      from less.IH [OF e mem open_u this] e show ?thesis by (meson rtrancl.rtrancl_into_rtrancl)
    qed
  qed
qed

section \<open>Editing dependencies\<close>

record dependency_change =
  ch_Add :: "string list"
  ch_Remove :: "string list"

datatype dep_error = DepType | DepRef find_task_error | SelfDependency | DepGraph cpm_error | DepList | DepWrite

type_synonym dep_edge = "ident \<times> verb"

definition parse_edge :: "task list \<Rightarrow> task \<Rightarrow> string \<Rightarrow> dep_error + dep_edge" where
  "parse_edge all target raw =
     (let (ref, typ) = (case cut_last raw of None \<Rightarrow> (raw, ''FS'') | Some (p, s) \<Rightarrow> (p, to_upper s)) in
      if \<not> known_type typ then Inl DepType
      else case resolve_in all (tk_Project target) ref of
        Inl e \<Rightarrow> Inl (DepRef e)
      | Inr u \<Rightarrow> if tk_ID u = tk_ID target then Inl SelfDependency else Inr (tk_ID u, typ))"

text \<open>The three loops: the dependencies there are, the removals, the additions.\<close>

fun existing_edges :: "task list \<Rightarrow> task \<Rightarrow> dep list \<Rightarrow> dep_edge list \<Rightarrow> dep_error + dep_edge list" where
  "existing_edges all target [] result = Inr result"
| "existing_edges all target (d # ds) result =
     (case parse_edge all target (dp_Ref d @ '':'' @ dp_Type d) of
        Inl e \<Rightarrow> Inl e
      | Inr x \<Rightarrow> existing_edges all target ds (result @ [x]))"

fun remove_edges :: "task list \<Rightarrow> task \<Rightarrow> string list \<Rightarrow> dep_edge list \<Rightarrow> dep_error + dep_edge list" where
  "remove_edges all target [] result = Inr result"
| "remove_edges all target (raw # raws) result =
     (case parse_edge all target raw of
        Inl e \<Rightarrow> Inl e
      | Inr x \<Rightarrow> remove_edges all target raws (filter (\<lambda>c. c \<noteq> x) result))"

fun add_edges :: "task list \<Rightarrow> task \<Rightarrow> string list \<Rightarrow> dep_edge list \<Rightarrow> dep_error + dep_edge list" where
  "add_edges all target [] result = Inr result"
| "add_edges all target (raw # raws) result =
     (case parse_edge all target raw of
        Inl e \<Rightarrow> Inl e
      | Inr x \<Rightarrow> add_edges all target raws (if x \<in> set result then result else result @ [x]))"

definition edited_edges :: "task list \<Rightarrow> task \<Rightarrow> dependency_change \<Rightarrow> dep_error + dep_edge list" where
  "edited_edges all target change =
     (case existing_edges all target (Deps target) [] of
        Inl e \<Rightarrow> Inl e
      | Inr xs \<Rightarrow> (case remove_edges all target (ch_Remove change) xs of
          Inl e \<Rightarrow> Inl e
        | Inr ys \<Rightarrow> add_edges all target (ch_Add change) ys))"

text \<open>The walk to everything that the changed task depends on. \<open>new_deps\<close> are the dependencies of a task
  after the edit.\<close>

definition new_deps :: "task \<Rightarrow> dep_edge list \<Rightarrow> task \<Rightarrow> dep list" where
  "new_deps target result t =
     (if tk_ID t = tk_ID target then map (\<lambda>(ref, typ). \<lparr>dp_Ref = ref, dp_Type = typ\<rparr>) result else Deps t)"

fun dep_edges :: "task list \<Rightarrow> task \<Rightarrow> dep list \<Rightarrow> dep_error + (edge list \<times> task list)" where
  "dep_edges all t [] = Inr ([], [])"
| "dep_edges all t (d # ds) =
     (let typ = to_upper (dp_Type d) in
      if \<not> known_type typ then Inl DepType
      else case resolve_in all (tk_Project t) (dp_Ref d) of
        Inl e \<Rightarrow> Inl (DepRef e)
      | Inr u \<Rightarrow>
          (case dep_edges all t ds of
             Inl e \<Rightarrow> Inl e
           | Inr (es, us) \<Rightarrow> Inr (\<lparr>eg_From = tk_ID u, eg_To = tk_ID t, eg_Type = typ\<rparr> # es, u # us)))"

lemma dep_edges_Inr:
  "dep_edges all t ds = Inr (es, us) \<Longrightarrow> set us \<subseteq> set all
     \<and> set us = {u. \<exists>d \<in> set ds. resolve_in all (tk_Project t) (dp_Ref d) = Inr u}
     \<and> arcs es = (\<lambda>u. (tk_ID u, tk_ID t)) ` set us \<and> known_types es"
proof (induction ds arbitrary: es us)
  case (Cons d ds)
  then obtain u es' us' where u: "resolve_in all (tk_Project t) (dp_Ref d) = Inr u" "dep_edges all t ds = Inr (es', us')"
    "es = \<lparr>eg_From = tk_ID u, eg_To = tk_ID t, eg_Type = to_upper (dp_Type d)\<rparr> # es'" "us = u # us'" "known_type (to_upper (dp_Type d))"
    by (auto simp: Let_def split: if_splits sum.splits prod.splits)
  have "arcs (x # es') = insert (eg_From x, eg_To x) (arcs es')" for x by (auto simp: arcs_def)
  with Cons.IH [OF u(2)] u resolve_in_member [OF u(1)] show ?case
    by (auto simp: known_types_def known_type_def)
qed (auto simp: arcs_def known_types_def)

text \<open>Every turn of the walk shortens the queue or marks one more of finitely many identifiers.\<close>

definition unseen :: "task list \<Rightarrow> task list \<Rightarrow> ident list \<Rightarrow> ident set" where
  "unseen all queue seen = tk_ID ` (set all \<union> set queue) - set seen"

function reach_loop ::
    "task list \<Rightarrow> task \<Rightarrow> dep_edge list \<Rightarrow> task list \<Rightarrow> ident list \<Rightarrow> edge list \<Rightarrow> dep_error + (ident list \<times> edge list)" where
  "reach_loop all target result [] seen edges = Inr (seen, edges)"
| "reach_loop all target result (t # queue) seen edges =
     (if tk_ID t \<in> set seen then reach_loop all target result queue seen edges
      else case dep_edges all t (new_deps target result t) of
        Inl e \<Rightarrow> Inl e
      | Inr (es, us) \<Rightarrow> reach_loop all target result (queue @ us) (seen @ [tk_ID t]) (edges @ es))"
  by pat_completeness auto

termination
proof (relation "measures [\<lambda>(all, target, result, queue, seen, edges). card (unseen all queue seen), \<lambda>(all, target, result, queue, seen, edges). length queue]")
  fix all queue :: "task list" and target t :: task and result and edges :: "edge list" and seen :: "ident list"
  assume s: "tk_ID t \<in> set seen"
  then have "unseen all queue seen = unseen all (t # queue) seen" by (auto simp: unseen_def)
  then show "((all, target, result, queue, seen, edges), all, target, result, t # queue, seen, edges)
      \<in> measures [\<lambda>(all, target, result, queue, seen, edges). card (unseen all queue seen), \<lambda>(all, target, result, queue, seen, edges). length queue]"
    by simp
next
  fix all queue us :: "task list" and target t :: task and result and edges es :: "edge list" and x and seen :: "ident list"
  assume s: "tk_ID t \<notin> set seen" "dep_edges all t (new_deps target result t) = Inr x" "(es, us) = x"
  then have "set us \<subseteq> set all" using dep_edges_Inr by metis
  then have "unseen all (queue @ us) (seen @ [tk_ID t]) \<subseteq> unseen all (t # queue) seen - {tk_ID t}" by (auto simp: unseen_def)
  moreover have "tk_ID t \<in> unseen all (t # queue) seen" "finite (unseen all (t # queue) seen)" using s(1) by (auto simp: unseen_def)
  ultimately have "card (unseen all (queue @ us) (seen @ [tk_ID t])) < card (unseen all (t # queue) seen)"
    by (metis card_Diff1_less card_mono finite_Diff le_less_trans)
  then show "((all, target, result, queue @ us, seen @ [tk_ID t], edges @ es), all, target, result, t # queue, seen, edges)
      \<in> measures [\<lambda>(all, target, result, queue, seen, edges). card (unseen all queue seen), \<lambda>(all, target, result, queue, seen, edges). length queue]"
    by simp
qed simp

definition encode_edge :: "dep_edge \<Rightarrow> string" where
  "encode_edge x = (if snd x \<noteq> ''FS'' then fst x @ '':'' @ snd x else fst x)"

definition SaveTask :: "durable_ops \<Rightarrow> task \<Rightarrow> log_file list \<Rightarrow> bool \<times> log_file list" where
  "SaveTask io t files = write_at io (tk_Path t) (tk_Doc t) files"

definition set_front :: "task \<Rightarrow> front \<Rightarrow> task" where
  "set_front t f = t\<lparr>tk_Doc := (tk_Doc t)\<lparr>dc_Front := f\<rparr>\<rparr>"

text \<open>\<open>tasks\<close> is what \<^verbatim>\<open>ListTasks\<close> returned. The result: an error if any, the task in memory, the files.\<close>

definition applyDependencyChange ::
    "rounding \<Rightarrow> durable_ops \<Rightarrow> task list option \<Rightarrow> task \<Rightarrow> dependency_change \<Rightarrow> bool \<Rightarrow> log_file list
       \<Rightarrow> dep_error option \<times> task \<times> log_file list" where
  "applyDependencyChange rnd io tasks target change write files =
     (case tasks of
        None \<Rightarrow> (Some DepList, target, files)
      | Some all \<Rightarrow>
     (case edited_edges all target change of
        Inl e \<Rightarrow> (Some e, target, files)
      | Inr result \<Rightarrow>
     (case reach_loop all target result [target] [] [] of
        Inl e \<Rightarrow> (Some e, target, files)
      | Inr (seen, edges) \<Rightarrow>
     (case ComputeCPM rnd (map (\<lambda>i. \<lparr>nd_ID = i, nd_Duration = 0\<rparr>) seen) edges of
        Inl e \<Rightarrow> (Some (DepGraph e), target, files)
      | Inr net \<Rightarrow>
          if \<not> write then (None, target, files)
          else let target' = set_front target (SetList (dc_Front (tk_Doc target)) ''depends_on'' (map encode_edge result));
                   (ok, files') = SaveTask io target' files
               in (if ok then None else Some DepWrite, target', files')))))"

section \<open>An edit leaves no cycle\<close>

text \<open>The graph after the edit, and the walk over it.\<close>

definition edited_graph :: "task list \<Rightarrow> task \<Rightarrow> dep_edge list \<Rightarrow> (ident \<times> ident) set" where
  "edited_graph all target result =
     {(tk_ID u, tk_ID t) | u t. t \<in> set all \<and> (\<exists>d \<in> set (new_deps target result t). resolve_in all (tk_Project t) (dp_Ref d) = Inr u)}"

definition walk_inv :: "task list \<Rightarrow> task \<Rightarrow> dep_edge list \<Rightarrow> task list \<Rightarrow> ident list \<Rightarrow> edge list \<Rightarrow> bool" where
  "walk_inv all target result queue seen edges \<longleftrightarrow>
     set queue \<subseteq> set all \<and>
     (\<forall>i j. j \<in> set seen \<longrightarrow> (i, j) \<in> edited_graph all target result \<longrightarrow> i \<in> set seen \<union> tk_ID ` set queue \<and> (i, j) \<in> arcs edges)"

lemma arcs_append: "arcs (es @ es') = arcs es \<union> arcs es'"
  by (auto simp: arcs_def)

lemma walk_step:
  assumes "distinct (map tk_ID all)" "walk_inv all target result (t # queue) seen edges"
    and "dep_edges all t (new_deps target result t) = Inr (es, us)"
  shows "walk_inv all target result (queue @ us) (seen @ [tk_ID t]) (edges @ es)"
proof -
  note d = dep_edges_Inr [OF assms(3)]
  have t: "t \<in> set all" using assms(2) by (simp add: walk_inv_def)
  have only: "v = t" if "v \<in> set all" "tk_ID v = tk_ID t" for v using that t assms(1) by (auto simp: distinct_map dest: inj_onD)
  have new: "i \<in> tk_ID ` set us \<and> (i, tk_ID t) \<in> arcs es" if "(i, tk_ID t) \<in> edited_graph all target result" for i
    using that only d by (force simp: edited_graph_def)
  have "i \<in> set (seen @ [tk_ID t]) \<union> tk_ID ` set (queue @ us) \<and> (i, j) \<in> arcs (edges @ es)"
    if "j \<in> set (seen @ [tk_ID t])" "(i, j) \<in> edited_graph all target result" for i j
  proof (cases "j \<in> set seen")
    case True
    with assms(2) that(2) have "i \<in> set seen \<union> tk_ID ` set (t # queue) \<and> (i, j) \<in> arcs edges" by (simp add: walk_inv_def)
    then show ?thesis by (auto simp: arcs_append)
  next
    case False
    with that new show ?thesis by (auto simp: arcs_append)
  qed
  moreover have "set (queue @ us) \<subseteq> set all" using assms(2) d by (auto simp: walk_inv_def)
  ultimately show ?thesis unfolding walk_inv_def by blast
qed

lemma reach_loop_inv:
  "reach_loop all target result queue seen edges = Inr (seen', edges') \<Longrightarrow> distinct (map tk_ID all) \<Longrightarrow>
     walk_inv all target result queue seen edges \<Longrightarrow>
     walk_inv all target result [] seen' edges' \<and> tk_ID ` set queue \<union> set seen \<subseteq> set seen'"
proof (induction all target result queue seen edges rule: reach_loop.induct)
  case (2 all target result t queue seen edges)
  show ?case
  proof (cases "tk_ID t \<in> set seen")
    case True
    then have "walk_inv all target result queue seen edges" using "2.prems"(3) by (auto simp: walk_inv_def)
    with 2 True show ?thesis by auto
  next
    case False
    with "2.prems"(1) obtain es us where d: "dep_edges all t (new_deps target result t) = Inr (es, us)"
      "reach_loop all target result (queue @ us) (seen @ [tk_ID t]) (edges @ es) = Inr (seen', edges')"
      by (auto split: sum.splits)
    from "2.IH"(2) [OF False d(1) refl d(2) "2.prems"(2) walk_step [OF "2.prems"(2,3) d(1)]] show ?thesis by auto
  qed
qed simp

lemma closed_trancl:
  assumes "(i, j) \<in> G\<^sup>+" "j \<in> S" "\<And>i j. j \<in> S \<Longrightarrow> (i, j) \<in> G \<Longrightarrow> i \<in> S \<and> (i, j) \<in> A"
  shows "i \<in> S \<and> (i, j) \<in> A\<^sup>+"
  using assms(1)
proof (induction rule: converse_trancl_induct)
  case (base i)
  with assms(2,3) show ?case by blast
next
  case (step i k)
  with assms(3) show ?case by (meson trancl_into_trancl2)
qed

lemma no_cycle_behind:
  assumes "reach_loop all target result [target] [] [] = Inr (seen, edges)" "acyclic (arcs edges)"
    and "distinct (map tk_ID all)" "target \<in> set all" "(i, tk_ID target) \<in> (edited_graph all target result)\<^sup>*"
  shows "(i, i) \<notin> (edited_graph all target result)\<^sup>+"
proof
  let ?G = "edited_graph all target result"
  assume c: "(i, i) \<in> ?G\<^sup>+"
  have "walk_inv all target result [target] [] []" using assms(4) by (simp add: walk_inv_def)
  from reach_loop_inv [OF assms(1,3) this] have inv: "walk_inv all target result [] seen edges" "tk_ID target \<in> set seen" by auto
  then have step: "x \<in> set seen \<and> (x, y) \<in> arcs edges" if "y \<in> set seen" "(x, y) \<in> ?G" for x y
    using that by (simp add: walk_inv_def)
  have "i \<in> set seen" using assms(5) inv(2)
    by (induction rule: converse_rtrancl_induct) (auto dest: step)
  from closed_trancl [OF c this step] have "(i, i) \<in> (arcs edges)\<^sup>+" by blast
  with assms(2) show False by (simp add: acyclic_def)
qed

definition parsed_edges :: "task list \<Rightarrow> task \<Rightarrow> string set \<Rightarrow> dep_edge set" where
  "parsed_edges all target raws = {x. \<exists>raw \<in> raws. parse_edge all target raw = Inr x}"

definition dep_texts :: "task \<Rightarrow> string set" where
  "dep_texts t = (\<lambda>d. dp_Ref d @ '':'' @ dp_Type d) ` set (Deps t)"

lemma existing_edges_set:
  "existing_edges all target ds acc = Inr xs \<Longrightarrow>
     set xs = set acc \<union> parsed_edges all target ((\<lambda>d. dp_Ref d @ '':'' @ dp_Type d) ` set ds)"
  by (induction ds arbitrary: acc) (auto simp: parsed_edges_def split: sum.splits)

lemma remove_edges_set:
  "remove_edges all target raws acc = Inr xs \<Longrightarrow> set xs = set acc - parsed_edges all target (set raws)"
  by (induction raws arbitrary: acc) (auto simp: parsed_edges_def split: sum.splits)

lemma add_edges_set:
  "add_edges all target raws acc = Inr xs \<Longrightarrow> set xs = set acc \<union> parsed_edges all target (set raws)"
  by (induction raws arbitrary: acc) (auto simp: parsed_edges_def split: sum.splits if_splits)

lemma edited_edges_set:
  "edited_edges all target change = Inr result \<Longrightarrow> set result =
     (parsed_edges all target (dep_texts target) - parsed_edges all target (set (ch_Remove change)))
       \<union> parsed_edges all target (set (ch_Add change))"
  by (auto simp: edited_edges_def dep_texts_def split: sum.splits
      dest!: existing_edges_set remove_edges_set add_edges_set)

lemma parse_edge_Inr:
  "parse_edge all target raw = Inr (i, typ) \<Longrightarrow> known_type typ \<and> i \<in> tk_ID ` set all \<and> i \<noteq> tk_ID target"
  by (auto simp: parse_edge_def Let_def split: if_splits option.splits prod.splits sum.splits dest: resolve_in_member)

lemma edited_edges_known:
  "edited_edges all target change = Inr result \<Longrightarrow> (i, typ) \<in> set result \<Longrightarrow> known_type typ \<and> i \<in> tk_ID ` set all \<and> i \<noteq> tk_ID target"
  by (drule edited_edges_set) (auto simp: parsed_edges_def dest: parse_edge_Inr)

lemma parse_encoded:
  assumes "known_type typ" "i \<noteq> []" "CHR '':'' \<notin> set i"
  shows "parse_dep (encode_edge (i, typ)) = \<lparr>dp_Ref = i, dp_Type = typ\<rparr>" "encode_edge (i, typ) \<noteq> []"
proof -
  have "hd i \<noteq> CHR '':''" using assms(2,3) by (cases i) auto
  moreover have "type_of_suffix typ = typ" using assms(1) by (auto simp: known_type_def type_of_suffix_def)
  moreover have "takeWhile (\<lambda>x. x \<noteq> CHR '':'') (i @ CHR '':'' # typ) = i" "dropWhile (\<lambda>x. x \<noteq> CHR '':'') (i @ CHR '':'' # typ) = CHR '':'' # typ"
    using assms(3) by (subst takeWhile_append2, auto, subst dropWhile_append2, auto)
  ultimately show "parse_dep (encode_edge (i, typ)) = \<lparr>dp_Ref = i, dp_Type = typ\<rparr>" "encode_edge (i, typ) \<noteq> []"
    using assms(2,3) by (auto simp: parse_dep_def encode_edge_def before_first_def after_first_def hd_append)
qed

lemma deps_written:
  assumes "\<forall>(i, typ) \<in> set result. known_type typ \<and> i \<noteq> [] \<and> CHR '':'' \<notin> set i"
  shows "Deps (set_front t (SetList f ''depends_on'' (map encode_edge result))) = map (\<lambda>(ref, typ). \<lparr>dp_Ref = ref, dp_Type = typ\<rparr>) result"
proof -
  have each: "encode_edge x \<noteq> [] \<and> parse_dep (encode_edge x) = (\<lambda>(ref, typ). \<lparr>dp_Ref = ref, dp_Type = typ\<rparr>) x" if "x \<in> set result" for x
  proof (cases x)
    case (Pair i k)
    with that assms have "known_type k" "i \<noteq> []" "CHR '':'' \<notin> set i" by auto
    from parse_encoded [OF this] show ?thesis by (simp add: Pair)
  qed
  then have "list_all (\<lambda>x. x \<noteq> []) (map encode_edge result)" by (simp add: list_all_iff)
  then have "filter (\<lambda>x. x \<noteq> []) (map encode_edge result) = map encode_edge result"
    by (simp only: filter_id_conv list_all_iff)
  moreover have "map (\<lambda>x. parse_dep (encode_edge x)) result = map (\<lambda>(ref, typ). \<lparr>dp_Ref = ref, dp_Type = typ\<rparr>) result"
    using each by (intro map_cong) auto
  ultimately show ?thesis by (simp add: Deps_def set_front_def GetList_SetList comp_def)
qed

lemma change_done:
  assumes "applyDependencyChange rnd io (Some all) target change True files = (None, target', files')"
  obtains result seen edges where "edited_edges all target change = Inr result"
    "reach_loop all target result [target] [] [] = Inr (seen, edges)" "acyclic (arcs edges)"
    "target' = set_front target (SetList (dc_Front (tk_Doc target)) ''depends_on'' (map encode_edge result))"
    "SaveTask io target' files = (True, files')"
proof -
  from assms obtain result seen edges net where r: "edited_edges all target change = Inr result"
    "reach_loop all target result [target] [] [] = Inr (seen, edges)"
    "ComputeCPM rnd (map (\<lambda>i. \<lparr>nd_ID = i, nd_Duration = 0\<rparr>) seen) edges = Inr net"
    "target' = set_front target (SetList (dc_Front (tk_Doc target)) ''depends_on'' (map encode_edge result))"
    "SaveTask io target' files = (True, files')"
    by (auto simp: applyDependencyChange_def Let_def split: sum.splits prod.splits if_splits)
  from r(3) have "acyclic (arcs edges)" using cpm_decision by blast
  with that [OF r(1,2) _ r(4,5)] show thesis by blast
qed

text \<open>C33: Editing dependencies is safe. When an edit succeeds, the task's dependencies are, read back from its
  document, the old ones without the removed and with the added ones, each stored under the stable
  identifier of an existing task other than the task itself and with one of the four kinds; nothing
  that the task now depends on, directly or not, is on a cycle; and nothing else in the document or in
  any other file has changed.\<close>

theorem dependency_edit_safe:
  assumes "applyDependencyChange rnd io (Some all) target change True files = (None, target', files')"
    and "distinct (map tk_ID all)" "target \<in> set all" "\<forall>t \<in> set all. tk_ID t \<noteq> [] \<and> CHR '':'' \<notin> set (tk_ID t)"
  shows "\<exists>result. Deps target' = map (\<lambda>(ref, typ). \<lparr>dp_Ref = ref, dp_Type = typ\<rparr>) result
     \<and> set result = (parsed_edges all target (dep_texts target) - parsed_edges all target (set (ch_Remove change)))
         \<union> parsed_edges all target (set (ch_Add change))
     \<and> (\<forall>(i, typ) \<in> set result. known_type typ \<and> i \<in> tk_ID ` set all \<and> i \<noteq> tk_ID target)
     \<and> (\<forall>i. (i, tk_ID target) \<in> (edited_graph all target result)\<^sup>* \<longrightarrow> (i, i) \<notin> (edited_graph all target result)\<^sup>+)
     \<and> files' = gput (tk_Path target) (Some (Render (tk_Doc target'))) files
     \<and> dc_Sections (tk_Doc target') = dc_Sections (tk_Doc target)
     \<and> (\<forall>k. k \<noteq> ''depends_on'' \<longrightarrow> Get (dc_Front (tk_Doc target')) k = Get (dc_Front (tk_Doc target)) k)"
proof -
  from change_done [OF assms(1)] obtain result seen edges where r: "edited_edges all target change = Inr result"
    "reach_loop all target result [target] [] [] = Inr (seen, edges)" "acyclic (arcs edges)"
    "target' = set_front target (SetList (dc_Front (tk_Doc target)) ''depends_on'' (map encode_edge result))"
    "SaveTask io target' files = (True, files')" .
  have known: "\<forall>(i, typ) \<in> set result. known_type typ \<and> i \<in> tk_ID ` set all \<and> i \<noteq> tk_ID target"
    using edited_edges_known [OF r(1)] by blast
  with assms(4) have "\<forall>(i, typ) \<in> set result. known_type typ \<and> i \<noteq> [] \<and> CHR '':'' \<notin> set i" by fastforce
  note deps = deps_written [OF this, of target "dc_Front (tk_Doc target)", folded r(4)]
  have "files' = gput (tk_Path target) (Some (Render (tk_Doc target'))) files"
    using r(5) write_at_ok by (simp add: SaveTask_def r(4) set_front_def)
  moreover have "dc_Sections (tk_Doc target') = dc_Sections (tk_Doc target)" by (simp add: r(4) set_front_def)
  moreover have "Get (dc_Front (tk_Doc target')) k = Get (dc_Front (tk_Doc target)) k" if "k \<noteq> ''depends_on''" for k
    using that by (simp add: r(4) set_front_def SetList_def Get_Set)
  ultimately show ?thesis
    using deps known edited_edges_set [OF r(1)] no_cycle_behind [OF r(2,3) assms(2,3)] by blast
qed

text \<open>A refused edit touches nothing.\<close>

lemma refused_edit:
  "applyDependencyChange rnd io tasks target change write files = (Some e, target', files') \<Longrightarrow> e \<noteq> DepWrite \<Longrightarrow> target' = target \<and> files' = files"
  by (auto simp: applyDependencyChange_def Let_def split: option.splits sum.splits prod.splits if_splits)

section \<open>At concrete inputs\<close>

definition sample_linked :: "ident \<Rightarrow> int \<Rightarrow> string \<Rightarrow> verb \<Rightarrow> string list \<Rightarrow> task" where
  "sample_linked i n slug st refs =
     set_front (sample_task i n slug st ''/r/t.md'') (SetList (Set [] ''id'' i) ''depends_on'' refs)"

text \<open>A finished task, one that follows it, and one that waits for the second and names an unknown task.\<close>

definition plan_first :: task where
  "plan_first = sample_linked ''t-1'' 1 ''a'' ''done'' []"

definition plan_second :: task where
  "plan_second = sample_linked ''t-2'' 2 ''b'' ''open'' [''t-1'']"

definition plan_third :: task where
  "plan_third = sample_linked ''t-3'' 3 ''c'' ''open'' [''002:FF'', ''t-9'']"

definition sample_plan :: "task list" where
  "sample_plan = [plan_first, plan_second, plan_third]"

lemma sample_plan_deps:
  "Deps plan_first = []" "Deps plan_second = [\<lparr>dp_Ref = ''t-1'', dp_Type = ''FS''\<rparr>]"
  "Deps plan_third = [\<lparr>dp_Ref = ''002'', dp_Type = ''FF''\<rparr>, \<lparr>dp_Ref = ''t-9'', dp_Type = ''FS''\<rparr>]"
  by code_simp+

lemma sample_plan_candidates: "\<not> candidate ''web'' plan_first" "candidate ''web'' plan_second" "candidate ''web'' plan_third"
  by code_simp+

lemma sample_plan_fields:
  "tk_ID plan_first = ''t-1''" "tk_ID plan_second = ''t-2''" "tk_ID plan_third = ''t-3''"
  "tk_Seq plan_first = 1" "tk_Seq plan_second = 2" "tk_Seq plan_third = 3"
  "tk_Status plan_first = ''done''" "tk_Status plan_second = ''open''" "tk_Status plan_third = ''open''"
  "tk_Project plan_first = ''web''" "tk_Project plan_second = ''web''" "tk_Project plan_third = ''web''"
  by (simp_all add: plan_first_def plan_second_def plan_third_def sample_linked_def set_front_def sample_task_def)

lemma sample_plan_members: "set sample_plan = {plan_first, plan_second, plan_third}"
  by (simp add: sample_plan_def)

lemma sample_plan_index:
  "map (\<lambda>r. map_sum id tk_Seq (index_find (NewTaskIndex sample_plan) r)) [''t-1'', ''001'', ''002'', ''t-9'']
     = [Inr 1, Inr 1, Inr 2, Inl TaskNotFound]"
  by code_simp

lemma sample_plan_resolves:
  "resolve_in sample_plan ''web'' ''t-1'' = Inr plan_first" "resolve_in sample_plan ''web'' ''001'' = Inr plan_first"
  "resolve_in sample_plan ''web'' ''002'' = Inr plan_second" "resolve_in sample_plan ''web'' ''t-9'' = Inl TaskNotFound"
proof -
  have own: "t = u" if "t \<in> set sample_plan" "u \<in> set sample_plan" "tk_Seq t = tk_Seq u" for t u
    using that by (auto simp: sample_plan_members sample_plan_fields)
  have l: "local_index sample_plan ''web'' = Some (NewTaskIndex sample_plan)"
    by (simp add: local_index_def sample_plan_def sample_plan_fields)
  have hit: "index_find (NewTaskIndex sample_plan) r = Inr u"
    if i: "map_sum id tk_Seq (index_find (NewTaskIndex sample_plan) r) = Inr (tk_Seq u)" and u: "u \<in> set sample_plan" for r u
  proof (cases "index_find (NewTaskIndex sample_plan) r")
    case (Inr t)
    then have "t \<in> set sample_plan" unfolding NewTaskIndex_def by (rule index_find_member)
    from own [OF this u] Inr i show ?thesis by simp
  qed (use i in simp)
  have miss: "index_find (NewTaskIndex sample_plan) r = Inl e"
    if i: "map_sum id tk_Seq (index_find (NewTaskIndex sample_plan) r) = Inl e" for r e
    using i by (cases "index_find (NewTaskIndex sample_plan) r") simp_all
  show "resolve_in sample_plan ''web'' ''t-1'' = Inr plan_first" "resolve_in sample_plan ''web'' ''001'' = Inr plan_first"
    "resolve_in sample_plan ''web'' ''002'' = Inr plan_second" "resolve_in sample_plan ''web'' ''t-9'' = Inl TaskNotFound"
    using sample_plan_index hit [of "''t-1''" plan_first] hit [of "''001''" plan_first] hit [of "''002''" plan_second] miss [of "''t-9''" TaskNotFound]
    by (simp_all add: resolve_in_def resolveDep_def l sample_plan_members sample_plan_fields)
qed

lemma sample_plan_upper: "to_upper ''FS'' = ''FS''" "to_upper ''FF'' = ''FF''" "to_upper ''ss'' = ''SS''" "to_upper ''SS'' = ''SS''" "char_of (83 :: nat) = CHR ''S''"
  by code_simp+

lemmas sample_plan_facts = sample_plan_members sample_plan_deps sample_plan_candidates sample_plan_fields sample_plan_resolves
  sample_plan_upper

lemma sample_plan_distinct: "distinct (map tk_ID sample_plan)" "plan_first \<noteq> plan_second" "plan_second \<noteq> plan_third" "plan_first \<noteq> plan_third"
proof -
  show "plan_first \<noteq> plan_second" "plan_second \<noteq> plan_third" "plan_first \<noteq> plan_third"
    using sample_plan_fields(4-6) by auto
qed (simp add: sample_plan_def sample_plan_fields)

theorem frontier_exact_witness:
  "plan_second \<in> set (fr_Ready (readyFrontier sample_plan ''web'')) \<and> plan_third \<in> set (fr_Blocked (readyFrontier sample_plan ''web''))
     \<and> (plan_third, ''t-9'', TaskNotFound) \<in> set (fr_Problems (readyFrontier sample_plan ''web''))"
proof -
  note exact = frontier_exact [OF sample_plan_distinct(1)]
  have "plan_second \<in> set (fr_Ready (readyFrontier sample_plan ''web''))"
    using exact [THEN conjunct1, of plan_second "''web''"] by (simp add: sample_plan_facts)
  moreover have r: "plan_third \<notin> set (fr_Ready (readyFrontier sample_plan ''web''))"
    using exact [THEN conjunct1, of plan_third "''web''"] by (simp add: sample_plan_facts)
  moreover have "plan_third \<in> set (fr_Blocked (readyFrontier sample_plan ''web''))"
    using exact [THEN conjunct2, THEN conjunct1, of plan_third "''web''"] r by (simp add: sample_plan_facts)
  moreover have "(plan_third, ''t-9'', TaskNotFound) \<in> set (fr_Problems (readyFrontier sample_plan ''web''))"
    using exact [THEN conjunct2, THEN conjunct2, of plan_third "''t-9''" TaskNotFound "''web''"]
    by (simp add: sample_plan_facts DepBlocksStart_def)
  ultimately show ?thesis by blast
qed

lemma sample_plan_waits: "waits_for sample_plan = {(plan_first, plan_second), (plan_second, plan_third)}"
  unfolding waits_for_def by (auto simp: sample_plan_facts DepBlocksStart_def)

theorem work_never_stalls_witness:
  "\<exists>r \<in> set (fr_Ready (readyFrontier sample_plan ''web'')). (r, plan_second) \<in> (waits_for sample_plan)\<^sup>*"
proof (rule work_never_stalls)
  have "waits_for sample_plan \<subseteq> measure (\<lambda>t. nat (tk_Seq t))" by (simp add: sample_plan_waits sample_plan_fields)
  then show "acyclic (waits_for sample_plan)" by (meson acyclic_subset wf_acyclic wf_measure)
  show "plan_second \<in> set sample_plan" "tk_Status plan_second \<noteq> ''done''" by (simp_all add: sample_plan_facts)
  have "u = plan_first \<or> u = plan_second" if "(u, plan_second) \<in> (waits_for sample_plan)\<^sup>*" for u
    using that by (induction rule: converse_rtrancl_induct) (auto simp: sample_plan_waits sample_plan_distinct sample_plan_distinct(2-4) [symmetric])
  then show "\<forall>u. (u, plan_second) \<in> (waits_for sample_plan)\<^sup>* \<longrightarrow> tk_Status u \<noteq> ''done'' \<longrightarrow> candidate ''web'' u
      \<and> (\<forall>d \<in> set (Deps u). DepBlocksStart d \<longrightarrow> (\<exists>v. resolve_in sample_plan (tk_Project u) (dp_Ref d) = Inr v))"
    using sample_plan_facts by fastforce
qed

lemma sample_edit_parses:
  "cut_last ''t-1:FS'' = Some (''t-1'', ''FS'')" "cut_last ''t-1'' = None" "cut_last ''001:ss'' = Some (''001'', ''ss'')"
  by code_simp+

lemma sample_edit:
  "edited_edges sample_plan plan_second \<lparr>ch_Add = [''001:ss''], ch_Remove = [''t-1'']\<rparr> = Inr [(''t-1'', ''SS'')]"
  "reach_loop sample_plan plan_second [(''t-1'', ''SS'')] [plan_second] [] []
     = Inr ([''t-2'', ''t-1''], [\<lparr>eg_From = ''t-1'', eg_To = ''t-2'', eg_Type = ''SS''\<rparr>])"
  by (simp_all add: edited_edges_def parse_edge_def new_deps_def sample_plan_facts sample_edit_parses known_type_def)

theorem dependency_edit_safe_witness:
  "\<exists>t' files result. applyDependencyChange (\<lambda>q. q) working_ops (Some sample_plan) plan_second
       \<lparr>ch_Add = [''001:ss''], ch_Remove = [''t-1'']\<rparr> True [] = (None, t', files)
     \<and> Deps t' = map (\<lambda>(ref, typ). \<lparr>dp_Ref = ref, dp_Type = typ\<rparr>) result \<and> set result = {(''t-1'', ''SS'')}"
proof -
  let ?c = "\<lparr>ch_Add = [''001:ss''], ch_Remove = [''t-1'']\<rparr>" and ?r = "[(''t-1'', ''SS'')]"
  let ?nodes = "map (\<lambda>i. \<lparr>nd_ID = i, nd_Duration = 0\<rparr>) [''t-2'', ''t-1'']" and ?es = "[\<lparr>eg_From = ''t-1'', eg_To = ''t-2'', eg_Type = ''SS''\<rparr>]"
  have "arcs ?es = {(''t-1'', ''t-2'')}" by (simp add: arcs_def)
  then have "well_posed ?nodes ?es" "known_types ?es" "acyclic (arcs ?es)"
    by (simp_all add: well_posed_def known_types_def acyclic_insert wf_acyclic)
  then obtain net where "ComputeCPM (\<lambda>q. q) ?nodes ?es = Inr net" using cpm_decision by blast
  then obtain t' files where a: "applyDependencyChange (\<lambda>q. q) working_ops (Some sample_plan) plan_second ?c True [] = (None, t', files)"
    by (simp add: applyDependencyChange_def sample_edit SaveTask_def write_at_def WriteFile_def writeBytes_def working_ops_def failing_ops_def Let_def del: reach_loop.simps)
  have "\<forall>t \<in> set sample_plan. tk_ID t \<noteq> [] \<and> CHR '':'' \<notin> set (tk_ID t)" "plan_second \<in> set sample_plan" by (simp_all add: sample_plan_facts)
  from dependency_edit_safe [OF a sample_plan_distinct(1) this(2,1)] obtain result where
    "Deps t' = map (\<lambda>(ref, typ). \<lparr>dp_Ref = ref, dp_Type = typ\<rparr>) result"
    "set result = (parsed_edges sample_plan plan_second (dep_texts plan_second) - parsed_edges sample_plan plan_second {''t-1''})
       \<union> parsed_edges sample_plan plan_second {''001:ss''}" by auto
  moreover have "parsed_edges sample_plan plan_second (dep_texts plan_second) = {(''t-1'', ''FS'')}"
    "parsed_edges sample_plan plan_second {''t-1''} = {(''t-1'', ''FS'')}" "parsed_edges sample_plan plan_second {''001:ss''} = {(''t-1'', ''SS'')}"
    by (simp_all add: parsed_edges_def dep_texts_def parse_edge_def sample_plan_facts sample_edit_parses known_type_def)
  ultimately show ?thesis using a by auto
qed

end
