(* ===== verification/Task_Closing.thy ===== *)
theory Task_Closing
  imports Task_Readiness
begin

text \<open>
  How a task is worked on and closed (\<^verbatim>\<open>MoveTask\<close>, \<^verbatim>\<open>AppendLog\<close>, \<^verbatim>\<open>CloseTask\<close>, \<^verbatim>\<open>WithTask\<close> of
  \<^verbatim>\<open>internal/store/store.go\<close>, the gates of \<^verbatim>\<open>aggregate.go\<close> and \<^verbatim>\<open>delivery_slices.go\<close>, and the landing
  checks of \<^verbatim>\<open>landing.go\<close> beside them). The status of a task is the folder of its file; a close passes
  the gates, stamps the log and moves the file. Git is a parameter: what \<^verbatim>\<open>rev-parse\<close> and
  \<^verbatim>\<open>merge-base --is-ancestor\<close> answer.
\<close>

section \<open>Acceptance\<close>

definition Acceptance :: "task \<Rightarrow> checkbox list" where
  "Acceptance t = (case Section (tk_Doc t) ''Acceptance'' of None \<Rightarrow> [] | Some s \<Rightarrow> Checkboxes (sc_Content s))"

definition HasAcceptanceCriteria :: "task \<Rightarrow> bool" where
  "HasAcceptanceCriteria t \<longleftrightarrow> 0 < length (Acceptance t)"

text \<open>One line: the line with its box checked, if it has one that is not.\<close>

definition check_line :: "string \<Rightarrow> string option" where
  "check_line l =
     (let trimmed = trim_space l in
      if \<not> has_prefix trimmed ''- [ ]'' then None
      else Some (takeWhile (\<lambda>c. c = CHR '' '' \<or> c = CHR 0x09) l @ ''- [x]'' @ drop 5 trimmed))"

definition CheckAllAcceptance :: "task \<Rightarrow> nat \<times> task" where
  "CheckAllAcceptance t =
     (case Section (tk_Doc t) ''Acceptance'' of
        None \<Rightarrow> (0, t)
      | Some s \<Rightarrow>
          let lines = split_on newline (sc_Content s);
              checked = map (\<lambda>l. case check_line l of None \<Rightarrow> l | Some l' \<Rightarrow> l') lines
          in (length (filter (\<lambda>l. check_line l \<noteq> None) lines),
              t\<lparr>tk_Doc := SetSection (tk_Doc t) ''Acceptance'' (join_with [newline] checked)\<rparr>))"

section \<open>The log of a task\<close>

definition AppendLog :: "string \<Rightarrow> task \<Rightarrow> string \<Rightarrow> task" where
  "AppendLog now t text =
     (let old = (case Section (tk_Doc t) ''Log'' of None \<Rightarrow> [] | Some s \<Rightarrow> sc_Content s)
      in t\<lparr>tk_Doc := SetSection (tk_Doc t) ''Log'' (old @ ''- '' @ now @ '' '' @ text @ [newline])\<rparr>)"

text \<open>\<^verbatim>\<open>strings.Fields\<close>: the words between white space.\<close>

definition starts_space :: "string \<Rightarrow> bool" where
  "starts_space s \<longleftrightarrow> list_ex (\<lambda>r. has_prefix s r) space_runes"

fun word_of :: "string \<Rightarrow> string" where
  "word_of [] = []"
| "word_of (c # s) = (if starts_space (c # s) then [] else c # word_of s)"

fun after_word :: "string \<Rightarrow> string" where
  "after_word [] = []"
| "after_word (c # s) = (if starts_space (c # s) then c # s else after_word s)"

lemma after_word_le: "length (after_word s) \<le> length s"
  by (induction s) auto

lemma strip_runes_le: "length (strip_runes rs s) \<le> length s"
proof (induction rs s rule: strip_runes.induct)
  case (1 rs s)
  then show ?case by (subst strip_runes.simps) (force split: option.split)
qed

lemma strip_stops: "r \<in> set rs \<Longrightarrow> r \<noteq> [] \<Longrightarrow> \<not> has_prefix (strip_runes rs s) r"
proof (induction rs s rule: strip_runes.induct)
  case (1 rs s)
  then show ?case by (subst strip_runes.simps) (auto split: option.split simp: find_None_iff)
qed

lemma strip_no_space: "\<not> starts_space (strip_runes space_runes s)"
proof -
  have "[] \<notin> set space_runes" by code_simp
  then show ?thesis using strip_stops [of _ space_runes s] by (auto simp: starts_space_def list_ex_iff)
qed

function Fields :: "string \<Rightarrow> string list" where
  "Fields s =
     (let t = strip_runes space_runes s in if t = [] then [] else word_of t # Fields (after_word t))"
  by pat_completeness auto
termination
proof (relation "measure length")
  fix s t assume t: "t = strip_runes space_runes s" "t \<noteq> []"
  then obtain c u where u: "t = c # u" by (meson neq_Nil_conv)
  then have "\<not> starts_space (c # u)" using strip_no_space [of s] t by simp
  then have "length (after_word t) < length t" using after_word_le [of u] u by simp
  then show "(after_word t, s) \<in> measure length" using strip_runes_le [of space_runes s] t(1) by simp
qed simp

declare Fields.simps [simp del]

definition log_words :: "string \<Rightarrow> string list" where
  "log_words l = Fields (trim_space (trim_prefix (trim_space l) ''- ''))"

definition LogHasStamp :: "task \<Rightarrow> string \<Rightarrow> bool" where
  "LogHasStamp t stamp \<longleftrightarrow>
     (case Section (tk_Doc t) ''Log'' of
        None \<Rightarrow> False
      | Some s \<Rightarrow> list_ex (\<lambda>l. let fields = log_words l in
            2 \<le> length fields \<and> has_prefix (join_with '' '' (tl fields)) stamp) (split_on newline (sc_Content s)))"

definition claim_line :: "ident \<Rightarrow> string \<Rightarrow> ident" where
  "claim_line claimant l =
     (let fields = log_words l in
      if 4 \<le> length fields \<and> fields ! 1 = ''claimed'' \<and> fields ! 2 = ''by'' then fields ! 3 else claimant)"

definition ClaimedBy :: "task \<Rightarrow> ident" where
  "ClaimedBy t =
     (case Section (tk_Doc t) ''Log'' of
        None \<Rightarrow> []
      | Some s \<Rightarrow> foldl claim_line [] (split_on newline (sc_Content s)))"

section \<open>The branch of a task and where it has landed\<close>

definition nonnegativeFrontInt :: "task \<Rightarrow> string \<Rightarrow> nat" where
  "nonnegativeFrontInt t key = (case atoi (get0 (dc_Front (tk_Doc t)) key) of None \<Rightarrow> 0 | Some n \<Rightarrow> if n < 0 then 0 else nat n)"

definition Generation :: "task \<Rightarrow> nat" where
  "Generation t = (case atoi (get0 (dc_Front (tk_Doc t)) ''generation'') of None \<Rightarrow> 0 | Some n \<Rightarrow> if n < 0 then 0 else nat n)"

definition CompletionState :: "task \<Rightarrow> string" where
  "CompletionState t = get0 (dc_Front (tk_Doc t)) ''completion_state''"

definition IsDeliverySlice :: "task \<Rightarrow> bool" where
  "IsDeliverySlice t \<longleftrightarrow> equal_fold (get0 (dc_Front (tk_Doc t)) ''delivery_slice'') ''true''"

definition DeliveryGeneration :: "task \<Rightarrow> nat" where
  "DeliveryGeneration t = nonnegativeFrontInt t ''delivery_generation''"

definition DeliveryParentGeneration :: "task \<Rightarrow> nat" where
  "DeliveryParentGeneration t = nonnegativeFrontInt t ''parent_generation''"

definition DeliveryRequired :: "task \<Rightarrow> bool" where
  "DeliveryRequired t \<longleftrightarrow> equal_fold (get0 (dc_Front (tk_Doc t)) ''delivery_required'') ''true''"

definition ParentID :: "task \<Rightarrow> ident" where
  "ParentID t = trim_suffix (trim_prefix (get0 (dc_Front (tk_Doc t)) ''parent'') ''[['') '']]''"

definition deliverySliceBranch :: "task \<Rightarrow> string" where
  "deliverySliceBranch t =
     ''dacli/'' @ pad3 (tk_Seq t) @ ''-'' @ tk_Slug t @ ''/slice-g'' @ itoa (DeliveryGeneration t) @ ''-r'' @ itoa (Generation t)"

definition TaskBranch :: "task \<Rightarrow> string" where
  "TaskBranch t = (if IsDeliverySlice t then deliverySliceBranch t else ''dacli/'' @ pad3 (tk_Seq t) @ ''-'' @ tk_Slug t)"

text \<open>\<open>gv_RevParse\<close> is the output of \<^verbatim>\<open>git rev-parse --verify\<close>, if it succeeds; \<open>gv_IsAncestor\<close> is \<^verbatim>\<open>None\<close> when
  the query fails.\<close>

record git_view =
  gv_Available :: bool
  gv_RevParse :: "string \<Rightarrow> string option"
  gv_IsAncestor :: "string \<Rightarrow> string \<Rightarrow> bool option"

datatype landing_state = LandingUnknown | LandingNoBranch | LandingLanded | LandingUnlanded

fun trunk_loop :: "git_view \<Rightarrow> string \<Rightarrow> string list \<Rightarrow> bool \<Rightarrow> landing_state" where
  "trunk_loop g sha [] sawTrunk = (if sawTrunk then LandingUnlanded else LandingUnknown)"
| "trunk_loop g sha (r # refs) sawTrunk =
     (if gv_RevParse g r = None then trunk_loop g sha refs sawTrunk
      else case gv_IsAncestor g sha r of
        None \<Rightarrow> LandingUnknown
      | Some isin \<Rightarrow> if isin then LandingLanded else trunk_loop g sha refs True)"

definition trunk_refs :: "string \<Rightarrow> string list" where
  "trunk_refs trunk = [''refs/remotes/origin/'' @ trunk, ''refs/heads/'' @ trunk]"

definition LandingOfRef :: "git_view \<Rightarrow> string \<Rightarrow> string \<Rightarrow> landing_state" where
  "LandingOfRef g sha trunk =
     (if \<not> gv_Available g \<or> trunk = [] \<or> sha = [] then LandingUnknown else trunk_loop g sha (trunk_refs trunk) False)"

fun refs_loop :: "git_view \<Rightarrow> string \<Rightarrow> string list \<Rightarrow> landing_state \<Rightarrow> landing_state" where
  "refs_loop g trunk [] worst = worst"
| "refs_loop g trunk (sha # shas) worst =
     (case LandingOfRef g sha trunk of
        LandingUnknown \<Rightarrow> LandingUnknown
      | LandingUnlanded \<Rightarrow> refs_loop g trunk shas LandingUnlanded
      | _ \<Rightarrow> refs_loop g trunk shas worst)"

definition LandingOfRefs :: "git_view \<Rightarrow> string list \<Rightarrow> string \<Rightarrow> landing_state" where
  "LandingOfRefs g shas trunk = refs_loop g trunk shas LandingLanded"

definition ResolveBranchRefs :: "git_view \<Rightarrow> task \<Rightarrow> string \<times> string list" where
  "ResolveBranchRefs g t =
     (let branch = TaskBranch t in
      (branch,
       if \<not> gv_Available g then []
       else foldl (\<lambda>shas cand. case gv_RevParse g cand of
           None \<Rightarrow> shas
         | Some out \<Rightarrow> let sha = trim_space out in if sha \<noteq> [] \<and> sha \<notin> set shas then shas @ [sha] else shas) []
         [''refs/remotes/origin/'' @ branch, ''refs/heads/'' @ branch]))"

definition CheckLanded :: "git_view \<Rightarrow> task \<Rightarrow> string \<Rightarrow> landing_state \<times> string" where
  "CheckLanded g t trunk =
     (if \<not> gv_Available g then (LandingUnknown, [])
      else let (branch, shas) = ResolveBranchRefs g t in
        (if shas = [] then LandingNoBranch else if trunk = [] then LandingUnknown else LandingOfRefs g shas trunk, branch))"

section \<open>The gates\<close>

text \<open>What the gates read: the files, which directories cannot be read, the times of the files, and Git.\<close>

record workspace_view =
  wv_Root :: string
  wv_Unreadable :: "string \<Rightarrow> bool"
  wv_Mtime :: "string \<Rightarrow> int"
  wv_Git :: git_view

definition project_tasks_of :: "workspace_view \<Rightarrow> log_file list \<Rightarrow> ident \<Rightarrow> task list option" where
  "project_tasks_of w files p = ListTasks (wv_Unreadable w) (wv_Mtime w) (wv_Root w) p [] files"

definition AggregateChildren :: "task \<Rightarrow> string list" where
  "AggregateChildren t = (if \<not> IsAggregate t then [] else GetList (dc_Front (tk_Doc t)) ''aggregate_children'')"

record child_state =
  ac_ID :: string
  ac_Status :: verb
  ac_CompletionState :: string
  ac_AcceptanceDone :: nat
  ac_AcceptanceTotal :: nat
  ac_Verified :: bool
  ac_Landed :: bool
  ac_Blocker :: string

record aggregate_progress =
  ap_TaskID :: ident
  ap_CompletionState :: string
  ap_RequiredDone :: nat
  ap_Required :: nat
  ap_ReadyToClose :: bool
  ap_Blockers :: "string list"
  ap_Children :: "child_state list"

text \<open>One turn of the loop over the required children: the state of the child.\<close>

definition child_state_of :: "git_view \<Rightarrow> landing_policy \<Rightarrow> task_index \<Rightarrow> string \<Rightarrow> child_state" where
  "child_state_of g landing ix i =
     (case index_find ix i of
        Inl e \<Rightarrow> \<lparr>ac_ID = i, ac_Status = [], ac_CompletionState = [], ac_AcceptanceDone = 0, ac_AcceptanceTotal = 0,
           ac_Verified = False, ac_Landed = False, ac_Blocker = ''required child is missing''\<rparr>
      | Inr child \<Rightarrow>
          let boxes = Acceptance child; total = length boxes; isdone = length (filter cb_Done boxes);
              verified = (0 < total \<and> isdone = total);
              landed = (if lp_Mode landing = ''pr''
                then fst (CheckLanded g child (if lp_Base landing = [] then ''main'' else lp_Base landing)) = LandingLanded
                else tk_Status child = ''done'')
          in \<lparr>ac_ID = i, ac_Status = tk_Status child, ac_CompletionState = CompletionState child,
              ac_AcceptanceDone = isdone, ac_AcceptanceTotal = total, ac_Verified = verified, ac_Landed = landed,
              ac_Blocker = (if tk_Status child = ''blocked'' then ''required child is blocked''
                else if tk_Status child \<noteq> ''done'' then ''required child is open''
                else if \<not> verified then ''required child is unverified''
                else if \<not> landed then ''required child is unlanded under project policy''
                else [])\<rparr>)"

definition add_child :: "aggregate_progress \<Rightarrow> child_state \<Rightarrow> aggregate_progress" where
  "add_child p c =
     (let q = p\<lparr>ap_Required := ap_Required p + 1, ap_Children := ap_Children p @ [c]\<rparr> in
      if ac_Blocker c = [] then q\<lparr>ap_RequiredDone := ap_RequiredDone p + 1\<rparr>
      else q\<lparr>ap_ReadyToClose := False, ap_Blockers := ap_Blockers p @ [ac_ID c @ '': '' @ ac_Blocker c]\<rparr>)"

datatype close_error = IncompleteDelivery | IncompleteAggregate | CloseListing | CloseProject project_error
  | CloseLanding landing_error | NotLanded | CloseWrite | CloseMove

definition AggregateProgressFor :: "workspace_view \<Rightarrow> log_file list \<Rightarrow> task \<Rightarrow> close_error + aggregate_progress" where
  "AggregateProgressFor w files parent =
     (let p = \<lparr>ap_TaskID = tk_ID parent, ap_CompletionState = CompletionState parent, ap_RequiredDone = 0, ap_Required = 0,
            ap_ReadyToClose = True, ap_Blockers = [], ap_Children = []\<rparr> in
      if \<not> IsAggregate parent then Inr p
      else case project_tasks_of w files (tk_Project parent) of
        None \<Rightarrow> Inl CloseListing
      | Some tasks \<Rightarrow>
     (case LoadProject (wv_Root w) files (tk_Project parent) of
        Inl e \<Rightarrow> Inl (CloseProject e)
      | Inr project \<Rightarrow>
     (case snd (ResolveLanding (pj_Landing project) no_override) of
        Inl e \<Rightarrow> Inl (CloseLanding e)
      | Inr landing \<Rightarrow>
          let q = foldl add_child p (map (child_state_of (wv_Git w) landing (NewTaskIndex tasks)) (AggregateChildren parent)) in
          Inr (if ap_Required q = 0
               then q\<lparr>ap_ReadyToClose := False, ap_Blockers := ap_Blockers q @ [''aggregate has no required children'']\<rparr>
               else q))))"

definition RefuseIncompleteAggregate :: "workspace_view \<Rightarrow> log_file list \<Rightarrow> task \<Rightarrow> close_error option" where
  "RefuseIncompleteAggregate w files parent =
     (if \<not> IsAggregate parent then None
      else case AggregateProgressFor w files parent of
        Inl e \<Rightarrow> Some e
      | Inr p \<Rightarrow> if ap_ReadyToClose p then None else Some IncompleteAggregate)"

definition DeliverySlices :: "workspace_view \<Rightarrow> log_file list \<Rightarrow> task \<Rightarrow> task list option" where
  "DeliverySlices w files parent =
     map_option (filter (\<lambda>t. IsDeliverySlice t \<and> ParentID t = tk_ID parent \<and> DeliveryParentGeneration t = Generation parent))
       (project_tasks_of w files (tk_Project parent))"

text \<open>The fields of \<^verbatim>\<open>DeliverySliceState\<close> that decide about closing.\<close>

record slice_state =
  ds_ID :: ident
  ds_Required :: bool
  ds_Status :: verb
  ds_AcceptanceDone :: nat
  ds_AcceptanceTotal :: nat
  ds_HeadSHA :: string
  ds_TreeSHA :: string
  ds_MergeSHA :: string
  ds_ObservedAt :: string
  ds_Landed :: bool

definition deliveryState :: "git_view \<Rightarrow> task \<Rightarrow> slice_state" where
  "deliveryState g t =
     (let f = get0 (dc_Front (tk_Doc t)); boxes = Acceptance t;
          head = (case gv_RevParse g (TaskBranch t) of None \<Rightarrow> None | Some out \<Rightarrow> Some (trim_space out));
          tree = (case head of None \<Rightarrow> f ''delivery_tree_sha''
            | Some h \<Rightarrow> (case gv_RevParse g (h @ ''^{tree}'') of None \<Rightarrow> f ''delivery_tree_sha'' | Some out \<Rightarrow> trim_space out));
          headSHA = (case head of None \<Rightarrow> [] | Some h \<Rightarrow> h)
      in \<lparr>ds_ID = tk_ID t, ds_Required = DeliveryRequired t, ds_Status = tk_Status t,
          ds_AcceptanceDone = length (filter cb_Done boxes), ds_AcceptanceTotal = length boxes,
          ds_HeadSHA = headSHA, ds_TreeSHA = tree, ds_MergeSHA = f ''delivery_merge_sha'', ds_ObservedAt = f ''delivery_observed_at'',
          ds_Landed = (f ''delivery_merge_sha'' \<noteq> [] \<and> tree \<noteq> [] \<and> f ''delivery_observed_at'' \<noteq> []
            \<and> (f ''delivery_head_sha'' \<noteq> [] \<and> f ''delivery_head_sha'' = headSHA \<or> headSHA = []))\<rparr>)"

definition slice_done :: "slice_state \<Rightarrow> bool" where
  "slice_done s \<longleftrightarrow> ds_Status s = ''done'' \<and> ds_Landed s \<and> ds_AcceptanceDone s = ds_AcceptanceTotal s"

record delivery_progress =
  dp_RequiredDone :: nat
  dp_RequiredTotal :: nat
  dp_ReadyToClose :: bool
  dp_Slices :: "slice_state list"

definition add_slice :: "delivery_progress \<Rightarrow> slice_state \<Rightarrow> delivery_progress" where
  "add_slice p s =
     (let q = p\<lparr>dp_Slices := dp_Slices p @ [s]\<rparr> in
      if \<not> ds_Required s then q
      else let q = q\<lparr>dp_RequiredTotal := dp_RequiredTotal p + 1\<rparr> in
        if slice_done s then q\<lparr>dp_RequiredDone := dp_RequiredDone p + 1\<rparr> else q\<lparr>dp_ReadyToClose := False\<rparr>)"

definition DeliveryProgressFor :: "workspace_view \<Rightarrow> log_file list \<Rightarrow> task \<Rightarrow> close_error + delivery_progress" where
  "DeliveryProgressFor w files parent =
     (case DeliverySlices w files parent of
        None \<Rightarrow> Inl CloseListing
      | Some slices \<Rightarrow>
          Inr (foldl add_slice \<lparr>dp_RequiredDone = 0, dp_RequiredTotal = 0, dp_ReadyToClose = True, dp_Slices = []\<rparr>
            (map (deliveryState (wv_Git w)) slices)))"

definition RefuseIncompleteDelivery :: "workspace_view \<Rightarrow> log_file list \<Rightarrow> task \<Rightarrow> close_error option" where
  "RefuseIncompleteDelivery w files parent =
     (case DeliveryProgressFor w files parent of
        Inl e \<Rightarrow> Some e
      | Inr p \<Rightarrow> if dp_Slices p = [] then None else if \<not> dp_ReadyToClose p then Some IncompleteDelivery else None)"

section \<open>Moving and closing\<close>

text \<open>Which calls succeed: making the folder, the rename, and the removal of each stale copy. Staging the move
  in Git's index changes no file of the workspace.\<close>

record move_ops =
  mv_Mkdir :: bool
  mv_Rename :: bool
  mv_Remove :: "string \<Rightarrow> bool"

definition drop_file :: "string \<Rightarrow> log_file list \<Rightarrow> log_file list" where
  "drop_file path files = filter (\<lambda>f. fst f \<noteq> path) files"

definition rename_file :: "string \<Rightarrow> string \<Rightarrow> log_file list \<Rightarrow> log_file list option" where
  "rename_file src dst files =
     (case gget files src of
        None \<Rightarrow> None
      | Some b \<Rightarrow> Some (if src = dst then files else gput dst b (drop_file src files)))"

fun sweep :: "(string \<Rightarrow> bool) \<Rightarrow> string list \<Rightarrow> log_file list \<Rightarrow> log_file list" where
  "sweep remove [] files = files"
| "sweep remove (p # ps) files =
     sweep remove ps (if gget files p \<noteq> None \<and> remove p then drop_file p files else files)"

definition MoveTask :: "move_ops \<Rightarrow> string \<Rightarrow> task \<Rightarrow> verb \<Rightarrow> log_file list \<Rightarrow> bool \<times> task \<times> log_file list" where
  "MoveTask io rt t to files =
     (let base = base_name (tk_Path t); dst = TasksDir rt (tk_Project t) to @ ''/'' @ base in
      if \<not> mv_Mkdir io \<or> \<not> mv_Rename io then (False, t, files)
      else case rename_file (tk_Path t) dst files of
        None \<Rightarrow> (False, t, files)
      | Some moved \<Rightarrow>
          (True, t\<lparr>tk_Path := dst, tk_Status := to\<rparr>,
           sweep (mv_Remove io)
             (filter (\<lambda>p. p \<noteq> dst) (map (\<lambda>st. TasksDir rt (tk_Project t) st @ ''/'' @ base) (filter (\<lambda>st. st \<noteq> to) AllStatuses))) moved))"

definition landing_name :: "landing_state \<Rightarrow> string" where
  "landing_name s = (case s of LandingUnknown \<Rightarrow> ''unknown'' | LandingNoBranch \<Rightarrow> ''no branch''
     | LandingLanded \<Rightarrow> ''landed-awaiting-acceptance'' | LandingUnlanded \<Rightarrow> ''unlanded'')"

text \<open>The task as it is saved when the close is refused, and when it goes through; \<open>clock i\<close> is the \<open>i\<close>-th
  reading of the clock.\<close>

definition requested_task :: "(nat \<Rightarrow> string) \<Rightarrow> ident \<Rightarrow> landing_state \<Rightarrow> string \<Rightarrow> task \<Rightarrow> task" where
  "requested_task clock actor state base t =
     AppendLog (clock 1)
       (set_front t (Set (Set (Set (dc_Front (tk_Doc t)) ''completion_state'' ''implemented-unlanded'') ''completion_requested_by'' actor)
          ''completion_requested_at'' (clock 0)))
       (''completion requested by '' @ actor @ ''; PR landing state '' @ landing_name state @ '' on '' @ base)"

definition completed_task :: "(nat \<Rightarrow> string) \<Rightarrow> ident \<Rightarrow> task \<Rightarrow> task" where
  "completed_task clock actor t =
     AppendLog (clock 0)
       (set_front t (Delete (Delete (Delete (dc_Front (tk_Doc t)) ''completion_state'') ''completion_requested_by'') ''completion_requested_at''))
       (''completed by '' @ actor)"

definition closeTask ::
    "durable_ops \<Rightarrow> move_ops \<Rightarrow> workspace_view \<Rightarrow> (nat \<Rightarrow> string) \<Rightarrow> task \<Rightarrow> ident \<Rightarrow> bool \<Rightarrow> log_file list
       \<Rightarrow> close_error option \<times> task \<times> log_file list" where
  "closeTask io mv w clock t actor landingDecided files =
     (case RefuseIncompleteDelivery w files t of
        Some e \<Rightarrow> (Some e, t, files)
      | None \<Rightarrow>
     (case RefuseIncompleteAggregate w files t of
        Some e \<Rightarrow> (Some e, t, files)
      | None \<Rightarrow>
     (case LoadProject (wv_Root w) files (tk_Project t) of
        Inl e \<Rightarrow> (Some (CloseProject e), t, files)
      | Inr project \<Rightarrow>
     (case snd (ResolveLanding (pj_Landing project) no_override) of
        Inl e \<Rightarrow> (Some (CloseLanding e), t, files)
      | Inr landing \<Rightarrow>
          if lp_Mode landing = ''pr'' \<and> \<not> landingDecided then
            let base = (if lp_Base landing = [] then ''main'' else lp_Base landing);
                state = fst (CheckLanded (wv_Git w) t base);
                t' = requested_task clock actor state base t;
                (ok, files') = SaveTask io t' files
            in (Some (if ok then NotLanded else CloseWrite), t', files')
          else
            let t' = completed_task clock actor t; (ok, files') = SaveTask io t' files in
            if \<not> ok then (Some CloseWrite, t', files')
            else let (moved, t'', files'') = MoveTask mv (wv_Root w) t' ''done'' files' in
              (if moved then None else Some CloseMove, t'', files'')))))"

definition CloseTask ::
    "durable_ops \<Rightarrow> move_ops \<Rightarrow> workspace_view \<Rightarrow> (nat \<Rightarrow> string) \<Rightarrow> task \<Rightarrow> ident \<Rightarrow> log_file list
       \<Rightarrow> close_error option \<times> task \<times> log_file list" where
  "CloseTask io mv w clock t actor files = closeTask io mv w clock t actor False files"

definition CloseTaskAfterLandingDecision ::
    "durable_ops \<Rightarrow> move_ops \<Rightarrow> workspace_view \<Rightarrow> (nat \<Rightarrow> string) \<Rightarrow> task \<Rightarrow> ident \<Rightarrow> log_file list
       \<Rightarrow> close_error option \<times> task \<times> log_file list" where
  "CloseTaskAfterLandingDecision io mv w clock t actor files = closeTask io mv w clock t actor True files"

section \<open>A change under the lock of the task\<close>

definition currentTaskLocation :: "string \<Rightarrow> log_file list \<Rightarrow> task \<Rightarrow> string \<times> verb" where
  "currentTaskLocation rt files t =
     (if gget files (tk_Path t) \<noteq> None then (tk_Path t, tk_Status t)
      else case find (\<lambda>st. gget files (TasksDir rt (tk_Project t) st @ ''/'' @ base_name (tk_Path t)) \<noteq> None) AllStatuses of
        None \<Rightarrow> (tk_Path t, tk_Status t)
      | Some st \<Rightarrow> (TasksDir rt (tk_Project t) st @ ''/'' @ base_name (tk_Path t), st))"

definition taskLockPath :: "string \<Rightarrow> task \<Rightarrow> string" where
  "taskLockPath rt t =
     ProjectDir rt (tk_Project t) @ ''/.task-'' @ (if tk_ID t = [] then pad3 (tk_Seq t) @ ''-'' @ tk_Slug t else tk_ID t) @ ''.lock''"

text \<open>The body of \<^verbatim>\<open>WithTask\<close>, which runs under the lock. When the file is gone the function works on the
  caller's own task, whose changes stay even if it fails.\<close>

definition WithTask ::
    "string \<Rightarrow> task \<Rightarrow> (task \<Rightarrow> log_file list \<Rightarrow> 'e option \<times> task \<times> log_file list) \<Rightarrow> log_file list
       \<Rightarrow> 'e option \<times> task \<times> log_file list" where
  "WithTask rt t f files =
     (let (path, status) = currentTaskLocation rt files t in
      case loadTaskFile files path (tk_Project t) status of
        Inl e \<Rightarrow> f t files
      | Inr fresh \<Rightarrow>
          (case f fresh files of
             (Some e, t', files') \<Rightarrow> (Some e, t, files')
           | (None, t', files') \<Rightarrow> (None, t\<lparr>tk_Doc := tk_Doc t', tk_Path := tk_Path t', tk_Status := tk_Status t'\<rparr>, files')))"

section \<open>Checking all boxes\<close>

lemma strip_blanks: "list_all (\<lambda>c. c = CHR '' '' \<or> c = CHR 0x09) b \<Longrightarrow> strip_runes space_runes (b @ s) = strip_runes space_runes s"
proof (induction b)
  case (Cons c b)
  have "strip_runes space_runes (CHR '' '' # t) = strip_runes space_runes t" "strip_runes space_runes (CHR 0x09 # t) = strip_runes space_runes t" for t
    by (subst strip_runes.simps, simp add: space_runes_def has_prefix_def)+
  with Cons show ?case by auto
qed simp

text \<open>Replacing the box keeps a line tight, and the blanks before it are trimmed.\<close>

lemma tight_box:
  assumes "tight (p @ rest)" "b \<noteq> []" "hd b = CHR ''-''" "last b = CHR '']''"
  shows "tight (b @ rest)"
  unfolding tight_def
proof (intro ballI conjI notI)
  fix r assume r: "r \<in> set space_runes"
  note n = space_runes_nonempty [OF r]
  {
    assume "has_prefix (b @ rest) r"
    then have "hd r = CHR ''-''" using n assms(2,3) by (cases r; cases b) (auto simp: has_prefix_iff)
    with hd_rune [OF r] show False by simp
  next
    assume "has_suffix (b @ rest) r"
    then obtain u where u: "b @ rest = u @ r" by (auto simp: has_suffix_iff)
    have bracket: "CHR '']'' \<notin> set r" using r by (auto simp: space_runes_def)
    have whole: "\<not> has_suffix (p @ rest) r" using assms r by (simp add: tight_def)
    from u consider us where "b = u @ us" "r = us @ rest" | us where "u = b @ us" "rest = us @ r"
      unfolding append_eq_append_conv2 by metis
    then show False
    proof cases
      case 1
      show False
      proof (cases us rule: rev_cases)
        case Nil
        with 1 whole show False by (simp add: has_suffix_iff)
      next
        case (snoc vs x)
        with 1(1) assms(4) have "CHR '']'' = x" by simp
        with 1(2) snoc bracket show False by simp
      qed
    next
      case 2
      with whole show False by (metis append.assoc has_suffix_iff)
    qed
  }
qed

lemma trim_checked:
  assumes "check_line l = Some l'"
  obtains rest where "trim_space l = ''- [ ]'' @ rest" "trim_space l' = ''- [x]'' @ rest"
proof -
  let ?b = "takeWhile (\<lambda>c. c = CHR '' '' \<or> c = CHR 0x09) l"
  from assms obtain rest where r: "trim_space l = ''- [ ]'' @ rest" "l' = ?b @ ''- [x]'' @ rest"
    by (auto simp: check_line_def Let_def has_prefix_iff split: if_splits)
  have "tight (''- [x]'' @ rest)" using tight_box [of "''- [ ]''" rest "''- [x]''"] tight_trim [of l] r(1) by simp
  then have t: "trim_space (''- [x]'' @ rest) = ''- [x]'' @ rest" by (rule trim_tight)
  have "list_all (\<lambda>c. c = CHR '' '' \<or> c = CHR 0x09) ?b" by (auto simp: list_all_iff dest: set_takeWhileD)
  then have "trim_space l' = trim_space (''- [x]'' @ rest)" unfolding r(2) trim_space_def by (simp add: strip_blanks)
  with t r(1) that show thesis by simp
qed

definition check_box :: "string \<Rightarrow> string" where
  "check_box l = (case check_line l of None \<Rightarrow> l | Some l' \<Rightarrow> l')"

lemma checkbox_checked: "checkbox_line (check_box l) = map_option (cb_Done_update (\<lambda>_. True)) (checkbox_line l)"
proof (cases "check_line l")
  case None
  then have "\<not> has_prefix (trim_space l) ''- [ ] ''" by (auto simp: check_line_def Let_def has_prefix_iff split: if_splits)
  with None show ?thesis by (simp add: check_box_def checkbox_line_def Let_def)
next
  case (Some l')
  from trim_checked [OF this] obtain rest where "trim_space l = ''- [ ]'' @ rest" "trim_space l' = ''- [x]'' @ rest" .
  with Some show ?thesis by (simp add: check_box_def checkbox_line_def Let_def has_prefix_def)
qed

lemma check_box_line: "line l \<Longrightarrow> line (check_box l)"
proof (cases "check_line l")
  case (Some l')
  assume l: "line l"
  from Some have "set l' \<subseteq> set l \<union> set ''- [x]'' \<union> set (trim_space l)"
    by (auto simp: check_line_def Let_def split: if_splits dest: set_takeWhileD in_set_dropD)
  then have "set l' \<subseteq> set l \<union> set ''- [x]''" using set_trim [of l] by blast
  with l Some show ?thesis by (auto simp: check_box_def line_def)
qed (simp add: check_box_def)

lemma map_filter_checked:
  "List.map_filter checkbox_line (map check_box ls) = map (cb_Done_update (\<lambda>_. True)) (List.map_filter checkbox_line ls)"
  by (induction ls) (simp_all add: map_filter_simps checkbox_checked split: option.split)

lemma unchecked_flagged:
  "length (filter (\<lambda>b. \<not> cb_Done b) (List.map_filter checkbox_line ls)) \<le> length (filter (\<lambda>l. check_line l \<noteq> None) ls)"
proof (induction ls)
  case (Cons l ls)
  have "check_line l \<noteq> None" if "checkbox_line l = Some b" "\<not> cb_Done b" for b
    using that by (auto simp: checkbox_line_def check_line_def Let_def has_prefix_iff split: if_splits)
  with Cons show ?case by (auto simp: map_filter_simps split: option.split)
qed (simp add: map_filter_simps)

lemma Section_SetSection: "Section (SetSection d title content) title = Some s \<Longrightarrow> sc_Content s = content"
  by (auto simp: Section_def SetSection_def find_put_section equal_fold_def split: option.splits)

lemma Section_put: "\<exists>s. Section (SetSection d title content) title = Some s \<and> sc_Content s = content"
  by (auto simp: Section_def SetSection_def find_put_section equal_fold_def split: option.splits)

lemma Section_other: "\<not> equal_fold title other \<Longrightarrow> Section (SetSection d title content) other = Section d other"
  by (simp add: Section_def SetSection_def find_put_section)

text \<open>Accepting everything accepts everything. After \<^verbatim>\<open>CheckAllAcceptance\<close> the acceptance criteria are
  the ones that were there, in order and with their texts, and each is checked; the number returned
  counts at least those that were not; no other section and nothing of the frontmatter changes.\<close>

theorem all_criteria_checked:
  "Acceptance (snd (CheckAllAcceptance t)) = map (cb_Done_update (\<lambda>_. True)) (Acceptance t)
   \<and> length (filter (\<lambda>b. \<not> cb_Done b) (Acceptance t)) \<le> fst (CheckAllAcceptance t)
   \<and> (fst (CheckAllAcceptance t) = 0 \<longrightarrow> list_all cb_Done (Acceptance t))
   \<and> (\<not> equal_fold ''Acceptance'' other \<longrightarrow> Section (tk_Doc (snd (CheckAllAcceptance t))) other = Section (tk_Doc t) other)
   \<and> dc_Front (tk_Doc (snd (CheckAllAcceptance t))) = dc_Front (tk_Doc t)"
proof (cases "Section (tk_Doc t) ''Acceptance''")
  case None
  then show ?thesis by (simp add: CheckAllAcceptance_def Acceptance_def)
next
  case (Some s)
  let ?lines = "split_on newline (sc_Content s)"
  have "\<forall>l \<in> set (map check_box ?lines). line l" using split_on_lines check_box_line by auto
  then have again: "split_on newline (join_with [newline] (map check_box ?lines)) = map check_box ?lines"
    by (intro split_join) auto
  have box: "(case check_line l of None \<Rightarrow> l | Some l' \<Rightarrow> l') = check_box l" for l by (simp add: check_box_def)
  have c: "CheckAllAcceptance t = (length (filter (\<lambda>l. check_line l \<noteq> None) ?lines),
      t\<lparr>tk_Doc := SetSection (tk_Doc t) ''Acceptance'' (join_with [newline] (map check_box ?lines))\<rparr>)"
    by (simp add: CheckAllAcceptance_def Some Let_def box)
  obtain s' where s': "Section (SetSection (tk_Doc t) ''Acceptance'' (join_with [newline] (map check_box ?lines))) ''Acceptance'' = Some s'"
    "sc_Content s' = join_with [newline] (map check_box ?lines)" using Section_put by blast
  have "Acceptance (snd (CheckAllAcceptance t)) = map (cb_Done_update (\<lambda>_. True)) (Acceptance t)"
    by (simp add: Acceptance_def c s' Some Checkboxes_def again map_filter_checked)
  moreover have n: "length (filter (\<lambda>b. \<not> cb_Done b) (Acceptance t)) \<le> fst (CheckAllAcceptance t)"
    using unchecked_flagged [of ?lines] by (simp add: c Acceptance_def Some Checkboxes_def)
  moreover have "list_all cb_Done (Acceptance t)" if "fst (CheckAllAcceptance t) = 0"
    using n that by (simp add: list_all_iff filter_empty_conv)
  ultimately show ?thesis by (simp add: c Section_other) (simp add: SetSection_def)
qed

section \<open>A task is in one folder\<close>

lemma gget_drop_file [simp]: "gget (drop_file p files) q = (if q = p then None else gget files q)"
  by (induction files) (auto simp: drop_file_def gget_def)

lemma gget_rename:
  "rename_file src dst files = Some files' \<Longrightarrow>
     gget files' q = (if q = dst then gget files src else if q = src then None else gget files q) \<and> gget files src \<noteq> None"
  by (auto simp: rename_file_def split: option.splits if_splits)

lemma gget_sweep: "gget (sweep remove ps files) q = (if q \<in> set ps \<and> remove q then None else gget files q)"
  by (induction remove ps files rule: sweep.induct) auto

lemma base_name_in: "CHR ''/'' \<notin> set b \<Longrightarrow> base_name (d @ ''/'' @ b) = b"
proof -
  assume b: "CHR ''/'' \<notin> set b"
  have "split_on CHR ''/'' b = [b]" using b by (induction b) auto
  then show ?thesis by (simp add: base_name_def split_on_append_sep)
qed

lemma base_name_plain: "CHR ''/'' \<notin> set (base_name p)"
  unfolding base_name_def using split_on_no_sep [of "last (split_on CHR ''/'' p)" "CHR ''/''" p] by simp

lemma moved:
  assumes "MoveTask io rt t to files = (True, t', files')"
  shows "tk_Path t' = TasksDir rt (tk_Project t) to @ ''/'' @ base_name (tk_Path t)" "tk_Status t' = to"
    "t' = t\<lparr>tk_Path := tk_Path t', tk_Status := to\<rparr>" "gget files (tk_Path t) \<noteq> None"
    "gget files' q = (if q = tk_Path t' then gget files (tk_Path t)
       else if q = tk_Path t then None
       else if mv_Remove io q \<and> (\<exists>st \<in> set AllStatuses. q = TasksDir rt (tk_Project t) st @ ''/'' @ base_name (tk_Path t)) then None
       else gget files q)"
proof -
  let ?dir = "\<lambda>st. TasksDir rt (tk_Project t) st @ ''/'' @ base_name (tk_Path t)"
  have inj: "?dir st = ?dir st' \<longleftrightarrow> st = st'" for st st' by (simp add: TasksDir_def)
  from assms obtain m where m: "rename_file (tk_Path t) (?dir to) files = Some m" "t' = t\<lparr>tk_Path := ?dir to, tk_Status := to\<rparr>"
    "files' = sweep (mv_Remove io) (filter (\<lambda>p. p \<noteq> ?dir to) (map ?dir (filter (\<lambda>st. st \<noteq> to) AllStatuses))) m"
    by (auto simp: MoveTask_def Let_def split: if_splits option.splits)
  then show "tk_Path t' = ?dir to" "tk_Status t' = to" "t' = t\<lparr>tk_Path := tk_Path t', tk_Status := to\<rparr>" "gget files (tk_Path t) \<noteq> None"
    using gget_rename [OF m(1)] by simp_all
  show "gget files' q = (if q = tk_Path t' then gget files (tk_Path t)
       else if q = tk_Path t then None else if mv_Remove io q \<and> (\<exists>st \<in> set AllStatuses. q = ?dir st) then None else gget files q)"
  proof -
    let ?ps = "filter (\<lambda>p. p \<noteq> ?dir to) (map ?dir (filter (\<lambda>st. st \<noteq> to) AllStatuses))"
    have ps: "q \<in> set ?ps \<longleftrightarrow> q \<noteq> ?dir to \<and> (\<exists>st \<in> set AllStatuses. q = ?dir st)" using inj by auto
    have path: "tk_Path t' = ?dir to" by (simp add: m(2))
    have "gget files' q = (if q \<in> set ?ps \<and> mv_Remove io q then None else gget m q)" unfolding m(3) by (rule gget_sweep)
    then show ?thesis unfolding ps path using gget_rename [OF m(1), of q] by (simp only: split: if_split) blast
  qed
qed

lemma move_refused: "MoveTask io rt t to files = (False, t', files') \<Longrightarrow> t' = t \<and> files' = files"
  unfolding MoveTask_def Let_def by (simp split: if_split_asm option.split_asm)

lemma loaded_elsewhere:
  assumes "loadTaskFile files p project st = Inr u" "gget files' p' = gget files p" "base_name p' = base_name p"
  shows "loadTaskFile files' p' project st' = Inr (u\<lparr>tk_Path := p', tk_Status := st'\<rparr>)"
proof -
  have "read_at files' p' = read_at files p" using assms(2) by (simp add: read_at_def)
  moreover from assms(1) obtain d where "read_at files p = Inr d" by (cases "read_at files p") (auto simp: loadTaskFile_def)
  ultimately show ?thesis using assms(1,3) by (simp add: loadTaskFile_def Let_def) auto
qed

text \<open>C37: A move leaves a task in one folder. When \<^verbatim>\<open>MoveTask\<close> succeeds (and stale copies can be removed) a file
  of that name is in the folder of the new status and in no other status folder; its bytes are those
  that the task had, so it loads as the same task with the new status; no file of another name has
  changed. When it fails, nothing has.\<close>

theorem move_one_folder:
  assumes "MoveTask io rt t to files = (ok, t', files')" "\<And>p. mv_Remove io p"
  shows "if ok then
       tk_Status t' = to \<and> tk_Path t' = TasksDir rt (tk_Project t) to @ ''/'' @ base_name (tk_Path t)
       \<and> gget files' (tk_Path t') = gget files (tk_Path t) \<and> gget files' (tk_Path t') \<noteq> None
       \<and> (st \<in> set AllStatuses \<longrightarrow> st \<noteq> to \<longrightarrow> gget files' (TasksDir rt (tk_Project t) st @ ''/'' @ base_name (tk_Path t)) = None)
       \<and> (loadTaskFile files (tk_Path t) (tk_Project t) (tk_Status t) = Inr u \<longrightarrow>
            loadTaskFile files' (tk_Path t') (tk_Project t) to = Inr (u\<lparr>tk_Path := tk_Path t', tk_Status := to\<rparr>))
       \<and> (base_name q \<noteq> base_name (tk_Path t) \<longrightarrow> gget files' q = gget files q)
     else t' = t \<and> files' = files"
proof (cases ok)
  case True
  with assms(1) have "MoveTask io rt t to files = (True, t', files')" by simp
  note m = moved [OF this]
  have base: "base_name (TasksDir rt (tk_Project t) s @ ''/'' @ base_name (tk_Path t)) = base_name (tk_Path t)" for s
    using base_name_in [OF base_name_plain] .
  have "gget files' (TasksDir rt (tk_Project t) st @ ''/'' @ base_name (tk_Path t)) = None" if "st \<in> set AllStatuses" "st \<noteq> to"
    using that assms(2) by (auto simp: m(5) m(1) TasksDir_def)
  moreover have "loadTaskFile files' (tk_Path t') (tk_Project t) to = Inr (u\<lparr>tk_Path := tk_Path t', tk_Status := to\<rparr>)"
    if "loadTaskFile files (tk_Path t) (tk_Project t) (tk_Status t) = Inr u"
    using loaded_elsewhere [OF that, of files' "tk_Path t'" to] m(5) [of "tk_Path t'"] base [of to] by (simp add: m(1))
  moreover have "gget files' q = gget files q" if "base_name q \<noteq> base_name (tk_Path t)"
    using that base by (auto simp: m(5) m(1))
  ultimately show ?thesis using True m by auto
next
  case False
  with move_refused [of io rt t to files t' files'] assms(1) show ?thesis by simp
qed

section \<open>What has landed\<close>

lemma trunk_loop_Landed: "trunk_loop g sha refs saw = LandingLanded \<Longrightarrow> \<exists>r \<in> set refs. gv_RevParse g r \<noteq> None \<and> gv_IsAncestor g sha r = Some True"
  by (induction g sha refs saw rule: trunk_loop.induct) (auto split: if_splits option.splits)

lemma LandingOfRef_not_NoBranch: "LandingOfRef g sha trunk \<noteq> LandingNoBranch"
proof -
  have "trunk_loop g sha refs saw \<noteq> LandingNoBranch" for refs saw
    by (induction g sha refs saw rule: trunk_loop.induct) (auto split: option.split)
  then show ?thesis by (simp add: LandingOfRef_def)
qed

lemma refs_loop_Landed: "refs_loop g trunk shas worst = LandingLanded \<longleftrightarrow> worst = LandingLanded \<and> (\<forall>sha \<in> set shas. LandingOfRef g sha trunk = LandingLanded)"
  using LandingOfRef_not_NoBranch by (induction shas arbitrary: worst) (auto split: landing_state.split)

lemma branch_refs:
  "set (snd (ResolveBranchRefs g t)) = (if gv_Available g
     then {trim_space out | cand out. cand \<in> {''refs/remotes/origin/'' @ TaskBranch t, ''refs/heads/'' @ TaskBranch t}
             \<and> gv_RevParse g cand = Some out \<and> trim_space out \<noteq> []} else {})"
proof -
  have "set (foldl (\<lambda>shas cand. case gv_RevParse g cand of
           None \<Rightarrow> shas
         | Some out \<Rightarrow> let sha = trim_space out in if sha \<noteq> [] \<and> sha \<notin> set shas then shas @ [sha] else shas) acc cands)
     = set acc \<union> {trim_space out | cand out. cand \<in> set cands \<and> gv_RevParse g cand = Some out \<and> trim_space out \<noteq> []}" for acc cands
    by (induction cands arbitrary: acc) (auto simp: Let_def split: option.split)
  then show ?thesis unfolding ResolveBranchRefs_def Let_def by (simp add: Let_def del: foldl.simps)
qed

text \<open>C35: Landed means that everything is in. \<^verbatim>\<open>CheckLanded\<close> answers \<^verbatim>\<open>landed\<close> only if the branch of the task exists,
  locally or on the remote, and the commit that each of the two names is an ancestor of the trunk, of
  the remote one or of the local one; in particular a failed query never counts as landed.\<close>

theorem landed_means_all_in_trunk:
  assumes "CheckLanded g t trunk = (LandingLanded, branch)"
  shows "branch = TaskBranch t
    \<and> (\<exists>cand out. cand \<in> {''refs/remotes/origin/'' @ branch, ''refs/heads/'' @ branch} \<and> gv_RevParse g cand = Some out \<and> trim_space out \<noteq> [])
    \<and> (\<forall>cand out. cand \<in> {''refs/remotes/origin/'' @ branch, ''refs/heads/'' @ branch} \<longrightarrow> gv_RevParse g cand = Some out \<longrightarrow> trim_space out \<noteq> []
         \<longrightarrow> (\<exists>r. r \<in> {''refs/remotes/origin/'' @ trunk, ''refs/heads/'' @ trunk} \<and> gv_RevParse g r \<noteq> None
                \<and> gv_IsAncestor g (trim_space out) r = Some True))"
proof -
  obtain shas where r: "ResolveBranchRefs g t = (TaskBranch t, shas)" by (simp add: ResolveBranchRefs_def Let_def)
  with assms have a: "gv_Available g" "branch = TaskBranch t" "shas \<noteq> []" "LandingOfRefs g shas trunk = LandingLanded"
    by (auto simp: CheckLanded_def split: if_splits)
  have s: "set shas = {trim_space out | cand out. cand \<in> {''refs/remotes/origin/'' @ branch, ''refs/heads/'' @ branch}
             \<and> gv_RevParse g cand = Some out \<and> trim_space out \<noteq> []}"
    using branch_refs [of g t] a(1,2) r by simp
  have each: "\<exists>r. r \<in> {''refs/remotes/origin/'' @ trunk, ''refs/heads/'' @ trunk} \<and> gv_RevParse g r \<noteq> None \<and> gv_IsAncestor g sha r = Some True"
    if "sha \<in> set shas" for sha
  proof -
    from a(4) that have "LandingOfRef g sha trunk = LandingLanded" by (simp add: LandingOfRefs_def refs_loop_Landed)
    then have "trunk_loop g sha (trunk_refs trunk) False = LandingLanded" by (auto simp: LandingOfRef_def split: if_splits)
    from trunk_loop_Landed [OF this] show ?thesis by (auto simp: trunk_refs_def)
  qed
  obtain sha where "sha \<in> set shas" using a(3) by (cases shas) auto
  then have "\<exists>cand out. cand \<in> {''refs/remotes/origin/'' @ branch, ''refs/heads/'' @ branch} \<and> gv_RevParse g cand = Some out \<and> trim_space out \<noteq> []"
    unfolding s by blast
  moreover have "trim_space out \<in> set shas" if "cand \<in> {''refs/remotes/origin/'' @ branch, ''refs/heads/'' @ branch}"
    "gv_RevParse g cand = Some out" "trim_space out \<noteq> []" for cand out
    unfolding s using that by blast
  ultimately show ?thesis using a(2) each by blast
qed

section \<open>A close passes every gate\<close>

lemma children_progress:
  "ap_ReadyToClose (foldl add_child p cs) \<longleftrightarrow> ap_ReadyToClose p \<and> list_all (\<lambda>c. ac_Blocker c = []) cs"
  "ap_Required (foldl add_child p cs) = ap_Required p + length cs"
  by (induction cs arbitrary: p) (auto simp: add_child_def Let_def)

lemma all_counted: "length (filter P xs) = length xs \<longleftrightarrow> list_all P xs"
  by (metis filter_id_conv length_filter_less less_irrefl list_all_iff)

lemma child_unblocked:
  "ac_Blocker (child_state_of g landing ix i) = [] \<Longrightarrow> \<exists>c. index_find ix i = Inr c \<and> tk_Status c = ''done''
     \<and> Acceptance c \<noteq> [] \<and> list_all cb_Done (Acceptance c)
     \<and> (lp_Mode landing = ''pr'' \<longrightarrow> fst (CheckLanded g c (if lp_Base landing = [] then ''main'' else lp_Base landing)) = LandingLanded)"
  by (auto simp: child_state_of_def Let_def all_counted split: sum.splits if_splits)

lemma slices_progress:
  "dp_ReadyToClose (foldl add_slice p ss) \<longleftrightarrow> dp_ReadyToClose p \<and> list_all (\<lambda>s. ds_Required s \<longrightarrow> slice_done s) ss"
  "dp_Slices (foldl add_slice p ss) = dp_Slices p @ ss"
  by (induction ss arbitrary: p) (auto simp: add_slice_def Let_def)

lemma delivery_gate:
  assumes "RefuseIncompleteDelivery w files t = None"
  obtains slices where "DeliverySlices w files t = Some slices"
    "list_all (\<lambda>s. ds_Required (deliveryState (wv_Git w) s) \<longrightarrow> slice_done (deliveryState (wv_Git w) s)) slices"
  using assms by (auto simp: RefuseIncompleteDelivery_def DeliveryProgressFor_def slices_progress list.pred_map comp_def
      split: option.splits if_splits)

lemma aggregate_gate:
  assumes "RefuseIncompleteAggregate w files t = None" "IsAggregate t"
  obtains tasks p landing where "project_tasks_of w files (tk_Project t) = Some tasks" "LoadProject (wv_Root w) files (tk_Project t) = Inr p"
    "snd (ResolveLanding (pj_Landing p) no_override) = Inr landing" "AggregateChildren t \<noteq> []"
    "list_all (\<lambda>i. ac_Blocker (child_state_of (wv_Git w) landing (NewTaskIndex tasks) i) = []) (AggregateChildren t)"
  using assms by (auto simp: RefuseIncompleteAggregate_def AggregateProgressFor_def Let_def children_progress list.pred_map comp_def
      split: option.splits sum.splits if_splits)

lemma closed_task:
  assumes "closeTask io mv w clock t actor decided files = (None, t', files')"
  obtains p landing files1 where "RefuseIncompleteDelivery w files t = None" "RefuseIncompleteAggregate w files t = None"
    "LoadProject (wv_Root w) files (tk_Project t) = Inr p" "snd (ResolveLanding (pj_Landing p) no_override) = Inr landing"
    "lp_Mode landing = ''pr'' \<longrightarrow> decided" "SaveTask io (completed_task clock actor t) files = (True, files1)"
    "MoveTask mv (wv_Root w) (completed_task clock actor t) ''done'' files1 = (True, t', files')"
  using assms by (auto simp: closeTask_def Let_def split: option.splits sum.splits if_splits prod.splits)

lemma completed_path [simp]: "tk_Path (completed_task clock actor t) = tk_Path t" "tk_Project (completed_task clock actor t) = tk_Project t"
  by (simp_all add: completed_task_def AppendLog_def Let_def set_front_def)

lemma appended_log:
  "\<exists>s. Section (tk_Doc (AppendLog now t text)) ''Log'' = Some s
     \<and> sc_Content s = (case Section (tk_Doc t) ''Log'' of None \<Rightarrow> [] | Some s \<Rightarrow> sc_Content s) @ ''- '' @ now @ '' '' @ text @ [newline]"
  using Section_put by (auto simp: AppendLog_def Let_def)

lemma project_landing: "snd (ResolveLanding l no_override) = Inr landing \<Longrightarrow> lp_Base landing = lp_Base l \<and> (lp_Mode landing = ''pr'' \<longleftrightarrow> lp_Mode l = ''pr'')"
  by (auto simp: ResolveLanding_def no_override_def Let_def split: option.splits if_splits)

text \<open>C34: A task is closed only through the gates. If a close succeeds, then every required child of an aggregate is a
  finished task of the project with acceptance criteria that are all met, and in a project that lands
  by pull request each has landed; every required delivery slice of the current generation is done,
  accepted and observed landed; such a project's task was closed by a caller that has decided about
  landing; the file is in the folder of finished tasks and in no other, its content is the task with
  the stamp of who completed it at the end of the log.\<close>

theorem close_passes_gates:
  assumes "closeTask io mv w clock t actor decided files = (None, t', files')" "\<And>p. mv_Remove mv p"
  shows "\<exists>p tasks slices log. LoadProject (wv_Root w) files (tk_Project t) = Inr p
    \<and> (lp_Mode (pj_Landing p) = ''pr'' \<longrightarrow> decided)
    \<and> (IsAggregate t \<longrightarrow> project_tasks_of w files (tk_Project t) = Some tasks \<and> AggregateChildren t \<noteq> []
        \<and> (\<forall>i \<in> set (AggregateChildren t). \<exists>c \<in> set tasks. index_find (NewTaskIndex tasks) i = Inr c \<and> tk_Status c = ''done''
             \<and> Acceptance c \<noteq> [] \<and> list_all cb_Done (Acceptance c)
             \<and> (lp_Mode (pj_Landing p) = ''pr'' \<longrightarrow>
                  fst (CheckLanded (wv_Git w) c (if lp_Base (pj_Landing p) = [] then ''main'' else lp_Base (pj_Landing p))) = LandingLanded)))
    \<and> DeliverySlices w files t = Some slices
    \<and> (\<forall>s \<in> set slices. DeliveryRequired s \<longrightarrow> tk_Status s = ''done'' \<and> list_all cb_Done (Acceptance s) \<and> ds_Landed (deliveryState (wv_Git w) s))
    \<and> tk_Status t' = ''done'' \<and> tk_Path t' = TasksDir (wv_Root w) (tk_Project t) ''done'' @ ''/'' @ base_name (tk_Path t)
    \<and> gget files' (tk_Path t') = Some (Some (Render (tk_Doc t')))
    \<and> (\<forall>st \<in> set AllStatuses. st \<noteq> ''done'' \<longrightarrow> gget files' (TasksDir (wv_Root w) (tk_Project t) st @ ''/'' @ base_name (tk_Path t)) = None)
    \<and> Section (tk_Doc t') ''Log'' = Some log
    \<and> sc_Content log = (case Section (tk_Doc t) ''Log'' of None \<Rightarrow> [] | Some s \<Rightarrow> sc_Content s) @ ''- '' @ clock 0 @ '' completed by '' @ actor @ [newline]"
proof -
  from closed_task [OF assms(1)] obtain p landing files1 where c: "RefuseIncompleteDelivery w files t = None"
    "RefuseIncompleteAggregate w files t = None" "LoadProject (wv_Root w) files (tk_Project t) = Inr p"
    "snd (ResolveLanding (pj_Landing p) no_override) = Inr landing" "lp_Mode landing = ''pr'' \<longrightarrow> decided"
    "SaveTask io (completed_task clock actor t) files = (True, files1)"
    "MoveTask mv (wv_Root w) (completed_task clock actor t) ''done'' files1 = (True, t', files')" .
  note l = project_landing [OF c(4)] and m = moved [OF c(7), unfolded completed_path]
  from delivery_gate [OF c(1)] obtain slices where sl: "DeliverySlices w files t = Some slices"
    "list_all (\<lambda>s. ds_Required (deliveryState (wv_Git w) s) \<longrightarrow> slice_done (deliveryState (wv_Git w) s)) slices" .
  have slices: "\<forall>s \<in> set slices. DeliveryRequired s \<longrightarrow> tk_Status s = ''done'' \<and> list_all cb_Done (Acceptance s) \<and> ds_Landed (deliveryState (wv_Git w) s)"
    using sl(2) unfolding list_all_iff [of _ slices] by (simp add: slice_done_def deliveryState_def Let_def all_counted)
  obtain tasks where agg: "IsAggregate t \<longrightarrow> project_tasks_of w files (tk_Project t) = Some tasks \<and> AggregateChildren t \<noteq> []
      \<and> list_all (\<lambda>i. ac_Blocker (child_state_of (wv_Git w) landing (NewTaskIndex tasks) i) = []) (AggregateChildren t)"
  proof (cases "IsAggregate t")
    case True
    from aggregate_gate [OF c(2) this] c(3,4) that show thesis by (metis Inr_inject)
  qed (use that in blast)
  have child: "\<exists>c \<in> set tasks. index_find (NewTaskIndex tasks) i = Inr c \<and> tk_Status c = ''done''
      \<and> Acceptance c \<noteq> [] \<and> list_all cb_Done (Acceptance c) \<and> (lp_Mode (pj_Landing p) = ''pr'' \<longrightarrow>
           fst (CheckLanded (wv_Git w) c (if lp_Base (pj_Landing p) = [] then ''main'' else lp_Base (pj_Landing p))) = LandingLanded)"
    if "IsAggregate t" "i \<in> set (AggregateChildren t)" for i
  proof -
    from agg that have "ac_Blocker (child_state_of (wv_Git w) landing (NewTaskIndex tasks) i) = []" by (simp add: list_all_iff)
    from child_unblocked [OF this] l index_find_member show ?thesis unfolding NewTaskIndex_def by fastforce
  qed
  have stored: "gget files' (tk_Path t') = Some (Some (Render (tk_Doc t')))"
    using m(5) [of "tk_Path t'"] write_at_ok c(6) m(3) by (simp add: SaveTask_def) (metis gget_gput task.select_convs(7) task.surjective task.update_convs(5,8))
  have elsewhere: "gget files' (TasksDir (wv_Root w) (tk_Project t) st @ ''/'' @ base_name (tk_Path t)) = None"
    if "st \<in> set AllStatuses" "st \<noteq> ''done''" for st
    using that assms(2) m(1) by (auto simp: m(5) TasksDir_def)
  have doc: "tk_Doc t' = tk_Doc (completed_task clock actor t)" by (subst m(3)) simp
  obtain log where "Section (tk_Doc t') ''Log'' = Some log"
    "sc_Content log = (case Section (tk_Doc t) ''Log'' of None \<Rightarrow> [] | Some s \<Rightarrow> sc_Content s) @ ''- '' @ clock 0 @ '' completed by '' @ actor @ [newline]"
    using appended_log unfolding doc completed_task_def by (fastforce simp: set_front_def Section_def)
  note this c(3,5) l slices sl(1) agg child stored elsewhere m(1,2)
  then show ?thesis
    by (intro exI [of _ p] exI [of _ tasks] exI [of _ slices] exI [of _ log] conjI impI ballI) (simp_all del: append_assoc)
qed

text \<open>A project that lands by pull request does not close a task before the landing decision: the request is
  recorded in the task where it is, and nothing else changes.\<close>

text \<open>No close before landing. In a project that lands by pull request \<^verbatim>\<open>CloseTask\<close> never succeeds: it
  returns an error, the task keeps its status and its place, no other file changes, and when the
  refusal is about landing the file says that the work is implemented and not landed.\<close>

theorem close_waits_for_landing:
  assumes "CloseTask io mv w clock t actor files = (e, t', files')"
    and "LoadProject (wv_Root w) files (tk_Project t) = Inr p" "lp_Mode (pj_Landing p) = ''pr''"
  shows "e \<noteq> None \<and> tk_Status t' = tk_Status t \<and> tk_Path t' = tk_Path t
    \<and> (q \<noteq> tk_Path t \<longrightarrow> gget files' q = gget files q)
    \<and> (e = Some NotLanded \<longrightarrow> gget files' (tk_Path t) = Some (Some (Render (tk_Doc t'))) \<and> CompletionState t' = ''implemented-unlanded'')"
proof -
  have req: "tk_Status (requested_task clock actor s base t) = tk_Status t" "tk_Path (requested_task clock actor s base t) = tk_Path t"
    "CompletionState (requested_task clock actor s base t) = ''implemented-unlanded''" for s base
    by (simp_all add: requested_task_def AppendLog_def Let_def set_front_def CompletionState_def SetSection_def get0_def Get_Set)
  show ?thesis
  proof (cases "RefuseIncompleteDelivery w files t")
    case delivery: None
    show ?thesis
    proof (cases "RefuseIncompleteAggregate w files t")
      case aggregate: None
      show ?thesis
      proof (cases "snd (ResolveLanding (pj_Landing p) no_override)")
        case (Inl x)
        with assms delivery aggregate have "e = Some (CloseLanding x)" "t' = t" "files' = files"
          by (simp_all add: CloseTask_def closeTask_def)
        then show ?thesis by simp
      next
        case (Inr landing)
        have "lp_Mode landing = ''pr''" using project_landing [OF Inr] assms(3) by simp
        with assms delivery aggregate Inr obtain s base ok where
          r: "SaveTask io (requested_task clock actor s base t) files = (ok, files')" "t' = requested_task clock actor s base t"
            "e = Some (if ok then NotLanded else CloseWrite)"
          by (auto simp: CloseTask_def closeTask_def Let_def split: prod.splits)
        have "gget files' q = gget files q" if "q \<noteq> tk_Path t"
          using r(1) write_at_other that by (auto simp: SaveTask_def req)
        moreover have "gget files' (tk_Path t) = Some (Some (Render (tk_Doc t')))" if ok
          using r(1,2) that by (auto simp: SaveTask_def req dest: write_at_ok)
        ultimately show ?thesis using r(2,3) req by (auto split: if_splits)
      qed
    next
      case (Some x)
      with assms delivery have "e = Some x" "t' = t" "files' = files" by (simp_all add: CloseTask_def closeTask_def)
      moreover have "x \<noteq> NotLanded" using Some
        by (auto simp: RefuseIncompleteAggregate_def AggregateProgressFor_def Let_def split: if_splits sum.splits option.splits)
      ultimately show ?thesis by simp
    qed
  next
    case (Some x)
    with assms have "e = Some x" "t' = t" "files' = files" by (simp_all add: CloseTask_def closeTask_def)
    moreover have "x \<noteq> NotLanded" using Some
      by (auto simp: RefuseIncompleteDelivery_def DeliveryProgressFor_def split: if_splits option.splits)
    ultimately show ?thesis by simp
  qed
qed

section \<open>No update is lost\<close>

text \<open>What a caller of \<^verbatim>\<open>WithTask\<close> does to add a line to the log.\<close>

definition log_change :: "durable_ops \<Rightarrow> string \<Rightarrow> string \<Rightarrow> task \<Rightarrow> log_file list \<Rightarrow> unit option \<times> task \<times> log_file list" where
  "log_change io now text t files =
     (let t' = AppendLog now t text; (ok, files') = SaveTask io t' files in (if ok then None else Some (), t', files'))"

definition log_entry :: "string \<Rightarrow> string \<Rightarrow> string" where
  "log_entry now text = ''- '' @ now @ '' '' @ text @ [newline]"

definition log_of :: "doc \<Rightarrow> string" where
  "log_of d = (case Section d ''Log'' of None \<Rightarrow> [] | Some s \<Rightarrow> sc_Content s)"

definition log_text :: "string \<Rightarrow> string \<Rightarrow> bool" where
  "log_text now text \<longleftrightarrow> line (now @ '' '' @ text) \<and> CHR 0x0D \<notin> set (now @ text)"

text \<open>A document that can take another line: it is read back as it is written, and no fence is open.\<close>

definition workable :: "doc \<Rightarrow> bool" where
  "workable d \<longleftrightarrow> front_wf (dc_Front d) \<and> dc_Front d \<noteq> [] \<and> sections_wf (dc_Sections d) \<and> Markdown_Files.closed (dc_Sections d)
     \<and> section_text (log_of d) \<and> CHR 0x0D \<notin> set (Render d)"

lemma no_heading_append: "no_heading f (xs @ ys) \<longleftrightarrow> no_heading f xs \<and> no_heading (fence_after f xs) ys"
  by (induction xs arbitrary: f) (auto simp: Let_def)

lemma fence_after_append: "fence_after f (xs @ ys) = fence_after (fence_after f xs) ys"
  by (induction xs arbitrary: f) auto

lemma body_lines_entry:
  assumes "terminated c" "line l"
  shows "body_lines (c @ l @ [newline]) = body_lines c @ [l]"
proof -
  from assms(1) obtain ls where c: "c = unlines ls" "\<forall>l \<in> set ls. line l" by (rule terminatedE)
  have "split_on newline (l @ [newline]) = [l, []]" using split_on_line [OF assms(2), of "[]"] by simp
  moreover have "split_on newline (unlines ls @ s) = ls @ split_on newline s" for s
    using c(2) by (induction ls) (auto simp: unlines_def split_on_line)
  moreover have "body_lines c = ls" using c by simp
  ultimately show ?thesis unfolding body_lines_def [of "c @ _"] by (simp add: c(1) butlast_append)
qed

lemma entry_plain: "heading (''- '' @ s) = None" "\<not> is_fence (''- '' @ s)"
proof -
  show "heading (''- '' @ s) = None" by (simp add: heading_def Let_def)
  have "CHR ''-'' \<notin> set r" if "r \<in> set space_runes" for r using that by (auto simp: space_runes_def)
  from trim_mid(1) [of "CHR ''-''" "[]" "'' '' @ s", OF this] obtain u where
    "trim_space ([] @ CHR ''-'' # '' '' @ s) = strip_runes space_runes [] @ CHR ''-'' # u" by blast
  moreover have "strip_runes space_runes [] = []" by code_simp
  ultimately show "\<not> is_fence (''- '' @ s)" by (simp add: is_fence_def has_prefix_def)
qed

lemma section_text_entry:
  assumes "section_text c" "log_text now text"
  shows "section_text (c @ log_entry now text)"
proof -
  let ?l = "''- '' @ now @ '' '' @ text"
  have "line ?l" using assms(2) by (simp add: log_text_def line_def)
  then have "body_lines (c @ log_entry now text) = body_lines c @ [?l]"
    using body_lines_entry [of c ?l] assms(1) by (simp add: log_entry_def section_text_def)
  moreover have "terminated (c @ log_entry now text)" by (simp add: terminated_def log_entry_def)
  ultimately show ?thesis using assms(1) entry_plain [of "now @ '' '' @ text"]
    by (simp add: section_text_def no_heading_append fence_after_append)
qed

lemma set_render_put:
  "set (concat (map render_section (put_section title c ss))) \<subseteq>
     set (concat (map render_section ss)) \<union> set c \<union> set title \<union> {CHR ''#'', CHR '' '', newline}"
proof (induction ss)
  case (Cons s ss)
  have "set (render_section (s\<lparr>sc_Content := c\<rparr>)) \<subseteq> set (render_section s) \<union> set c \<union> {CHR ''#'', CHR '' '', newline}"
    by (cases "0 < sc_Level s") (auto simp: render_section_def)
  with Cons show ?case by (simp split: if_split) blast
qed (auto simp: render_section_def)

lemma closed_put:
  assumes "Markdown_Files.closed ss" "section_text c"
  shows "Markdown_Files.closed (put_section title c ss)"
  using assms
proof (induction ss)
  case (Cons s ss)
  then show ?case by (cases ss) (auto simp: Markdown_Files.closed_def section_text_def split: if_splits)
qed (simp add: Markdown_Files.closed_def section_text_def)

lemma appended_doc: "tk_Doc (AppendLog now t text) = SetSection (tk_Doc t) ''Log'' (log_of (tk_Doc t) @ log_entry now text)"
  by (simp add: AppendLog_def log_of_def log_entry_def Let_def)

lemma log_of_appended: "log_of (tk_Doc (AppendLog now t text)) = log_of (tk_Doc t) @ log_entry now text"
  using Section_put [of "tk_Doc t" "''Log''" "log_of (tk_Doc t) @ log_entry now text"] by (auto simp: appended_doc log_of_def)

lemma workable_appended:
  assumes "workable (tk_Doc t)" "log_text now text"
  shows "workable (tk_Doc (AppendLog now t text))"
proof -
  let ?c = "log_of (tk_Doc t) @ log_entry now text"
  have body: "section_text ?c" using section_text_entry assms by (simp add: workable_def)
  have title: "tight ''Log''" "line ''Log''" "\<not> equal_fold [] ''Log''" "CHR 0x0D \<notin> set ''Log''" by code_simp+
  have old: "CHR 0x0D \<notin> set (log_of (tk_Doc t))"
  proof -
    have "set (sc_Content s) \<subseteq> set (concat (map render_section ss))" if "find_section ss ''Log'' = Some s" for s ss
      using that by (induction ss) (auto simp: render_section_def split: if_splits)
    then show ?thesis using assms(1) unfolding workable_def log_of_def Section_def Render_def by (fastforce split: option.splits)
  qed
  then have "CHR 0x0D \<notin> set ?c" using assms(2) by (simp add: log_text_def log_entry_def)
  then have "CHR 0x0D \<notin> set (concat (map render_section (put_section ''Log'' ?c (dc_Sections (tk_Doc t)))))"
    using set_render_put [of "''Log''" ?c "dc_Sections (tk_Doc t)"] assms(1) title(4) by (auto simp: workable_def Render_def)
  then have "CHR 0x0D \<notin> set (Render (tk_Doc (AppendLog now t text)))"
    using assms(1) by (auto simp: workable_def Render_def appended_doc SetSection_def)
  then show ?thesis
    using assms(1) body title sections_wf_put closed_put log_of_appended [of now t "text"]
    by (simp add: workable_def appended_doc SetSection_def)
qed

lemma log_change_done:
  assumes "log_change io now text t files = (None, t', files')"
  shows "t' = AppendLog now t text" "files' = gput (tk_Path t) (Some (Render (tk_Doc t'))) files"
proof -
  have "tk_Path (AppendLog now t text) = tk_Path t" by (simp add: AppendLog_def Let_def)
  with assms show "t' = AppendLog now t text" "files' = gput (tk_Path t) (Some (Render (tk_Doc t'))) files"
    by (auto simp: log_change_def SaveTask_def Let_def dest: write_at_ok split: prod.splits if_splits)
qed

lemma workable_read: "workable d \<Longrightarrow> read_at (gput path (Some (Render d)) files) path = Inr d"
  using parse_render [of d] drop_crlf_plain [of "Render d"] by (simp add: workable_def)

lemma location_stable:
  assumes "\<And>q. gget files' q = None \<longleftrightarrow> gget files q = None"
  shows "currentTaskLocation rt files' t = currentTaskLocation rt files t"
  using assms by (simp add: currentTaskLocation_def)

text \<open>One change: whatever copy the caller holds, the line is added to what the file says now.\<close>

lemma with_task_logs:
  assumes "WithTask rt a (log_change io now text) files = (None, a', files')"
    and "currentTaskLocation rt files a = (path, st)" "read_at files path = Inr d" "workable d" "log_text now text"
  shows "read_at files' path = Inr (tk_Doc a')" "workable (tk_Doc a')" "log_of (tk_Doc a') = log_of d @ log_entry now text"
    "gget files' q = (if q = path then Some (Some (Render (tk_Doc a'))) else gget files q)" "dc_Front (tk_Doc a') = dc_Front d"
proof -
  from assms(3) obtain fresh where f: "loadTaskFile files path (tk_Project a) st = Inr fresh" "tk_Doc fresh = d" "tk_Path fresh = path"
    by (auto simp: loadTaskFile_def Let_def)
  with assms(1,2) obtain t' where t: "log_change io now text fresh files = (None, t', files')" "tk_Doc a' = tk_Doc t'"
    by (auto simp: WithTask_def split: prod.splits option.splits)
  note c = log_change_done [OF t(1)]
  have w: "workable (tk_Doc t')" "log_of (tk_Doc t') = log_of d @ log_entry now text"
    using workable_appended [of fresh now "text"] log_of_appended [of now fresh "text"] assms(4,5) f(2) c(1) by simp_all
  show "workable (tk_Doc a')" "log_of (tk_Doc a') = log_of d @ log_entry now text" using w t(2) by simp_all
  show "read_at files' path = Inr (tk_Doc a')" using workable_read [OF w(1)] c(2) f(3) t(2) by simp
  show "gget files' q = (if q = path then Some (Some (Render (tk_Doc a'))) else gget files q)" using c(2) f(3) t(2) by simp
  show "dc_Front (tk_Doc a') = dc_Front d" using c(1) f(2) t(2) by (simp add: appended_doc SetSection_def)
qed

text \<open>When the file of the task is gone, the copy of the caller is written: the task is there again.\<close>

lemma removed_task_returns:
  assumes "currentTaskLocation rt files a = (path, st)" "gget files path = None" "SaveTask io (AppendLog now a text) files = (True, files')"
  shows "WithTask rt a (log_change io now text) files = (None, AppendLog now a text, files')"
    "gget files' (tk_Path a) = Some (Some (Render (tk_Doc (AppendLog now a text))))"
proof -
  have "loadTaskFile files path (tk_Project a) st = Inl NotExist"
    using assms(2) by (simp add: loadTaskFile_def read_at_def)
  then show "WithTask rt a (log_change io now text) files = (None, AppendLog now a text, files')"
    using assms(1,3) by (simp add: WithTask_def log_change_def Let_def)
  show "gget files' (tk_Path a) = Some (Some (Render (tk_Doc (AppendLog now a text))))"
    using write_at_ok [OF assms(3) [unfolded SaveTask_def]] by (simp add: AppendLog_def Let_def)
qed

text \<open>C36: No update is lost. Two callers hold copies of one task, however old (the file may have moved since, as
  long as both find it). Each adds a line to the log under the lock. If both succeed the file has the
  old log with both lines, the second after the first, the rest of the task is as it was, and both
  see what they wrote.\<close>

theorem updates_not_lost:
  assumes "read_at files path = Inr d" "workable d" "log_text now1 text1" "log_text now2 text2"
    and "currentTaskLocation rt files a = (path, st)" "currentTaskLocation rt files b = (path, st)"
    and "WithTask rt a (log_change io now1 text1) files = (None, a', files1)"
    and "WithTask rt b (log_change io now2 text2) files1 = (None, b', files2)"
  shows "read_at files2 path = Inr (tk_Doc b') \<and> log_of (tk_Doc b') = log_of d @ log_entry now1 text1 @ log_entry now2 text2
    \<and> log_of (tk_Doc a') = log_of d @ log_entry now1 text1 \<and> dc_Front (tk_Doc b') = dc_Front d
    \<and> (q \<noteq> path \<longrightarrow> gget files2 q = gget files q)"
proof -
  note first = with_task_logs [OF assms(7,5,1,2,3)]
  have "gget files path \<noteq> None" using assms(1) by (auto simp: read_at_def split: option.splits)
  then have "gget files1 p = None \<longleftrightarrow> gget files p = None" for p using first(4) [of p] by auto
  then have "currentTaskLocation rt files1 b = (path, st)" using location_stable [of files1 files rt b] assms(6) by simp
  note second = with_task_logs [OF assms(8) this first(1,2) assms(4)]
  show ?thesis using first second by simp
qed

section \<open>At concrete inputs\<close>

definition working_moves :: move_ops where
  "working_moves = \<lparr>mv_Mkdir = True, mv_Rename = True, mv_Remove = (\<lambda>p. True)\<rparr>"

definition merged_git :: git_view where
  "merged_git = \<lparr>gv_Available = True, gv_RevParse = (\<lambda>r. Some ''c0ffee''), gv_IsAncestor = (\<lambda>c r. Some True)\<rparr>"

definition sample_view :: workspace_view where
  "sample_view = \<lparr>wv_Root = ''/r'', wv_Unreadable = (\<lambda>d. False), wv_Mtime = (\<lambda>p. 0), wv_Git = merged_git\<rparr>"

definition criteria_task :: task where
  "criteria_task = (sample_tasks ! 1)\<lparr>tk_Doc := SetSection (sample_task_doc ''t-2'') ''Acceptance'' (unlines [''some'', ''  - [ ] builds'', ''- [x] tested''])\<rparr>"

theorem all_criteria_checked_witness:
  "Acceptance criteria_task = [\<lparr>cb_Text = ''builds'', cb_Done = False\<rparr>, \<lparr>cb_Text = ''tested'', cb_Done = True\<rparr>]
     \<and> Acceptance (snd (CheckAllAcceptance criteria_task)) = [\<lparr>cb_Text = ''builds'', cb_Done = True\<rparr>, \<lparr>cb_Text = ''tested'', cb_Done = True\<rparr>]"
proof -
  have "Acceptance criteria_task = [\<lparr>cb_Text = ''builds'', cb_Done = False\<rparr>, \<lparr>cb_Text = ''tested'', cb_Done = True\<rparr>]" by code_simp
  with all_criteria_checked [THEN conjunct1, of criteria_task] show ?thesis by simp
qed

lemma sample_task_path:
  "TasksDir ''/r'' ''web'' ''open'' @ ''/'' @ base_name (tk_Path (sample_tasks ! 0)) = ''/r/.dacli/projects/web/tasks/open/001-a.md''"
  "tk_Path (sample_tasks ! 0) = ''/r/.dacli/projects/web/tasks/open/001-a.md''" "tk_Project (sample_tasks ! 0) = ''web''"
  "tk_Path (sample_tasks ! 1) = ''/r/.dacli/projects/web/tasks/open/002-b.md''" "tk_Project (sample_tasks ! 1) = ''web''"
  "gget sample_workspace ''/r/.dacli/projects/web/tasks/open/001-a.md'' \<noteq> None"
  "gget sample_workspace ''/r/.dacli/projects/web/tasks/open/002-b.md'' \<noteq> None"
  by (code_simp, simp_all add: sample_tasks_def sample_task_def sample_workspace_def gget_def)

lemma rename_works: "gget files src \<noteq> None \<Longrightarrow> \<exists>files'. rename_file src dst files = Some files'"
  by (auto simp: rename_file_def)

lemma move_works: "gget files (tk_Path t) \<noteq> None \<Longrightarrow> \<exists>t' files'. MoveTask working_moves rt t to files = (True, t', files')"
proof -
  assume "gget files (tk_Path t) \<noteq> None"
  from rename_works [OF this, of "TasksDir rt (tk_Project t) to @ ''/'' @ base_name (tk_Path t)"] obtain m where
    "rename_file (tk_Path t) (TasksDir rt (tk_Project t) to @ ''/'' @ base_name (tk_Path t)) files = Some m" by blast
  then show ?thesis by (simp add: MoveTask_def working_moves_def Let_def)
qed

theorem move_one_folder_witness:
  "\<exists>t' files'. MoveTask working_moves ''/r'' (sample_tasks ! 0) ''done'' sample_workspace = (True, t', files')
     \<and> tk_Status t' = ''done'' \<and> gget files' ''/r/.dacli/projects/web/tasks/open/001-a.md'' = None"
proof -
  obtain t' files' where m: "MoveTask working_moves ''/r'' (sample_tasks ! 0) ''done'' sample_workspace = (True, t', files')"
    using move_works [of sample_workspace "sample_tasks ! 0" "''/r''" "''done''"] sample_task_path by auto
  have "\<And>p. mv_Remove working_moves p" by (simp add: working_moves_def)
  note one = move_one_folder [OF m this, of "''open''" undefined undefined, unfolded if_True sample_task_path(3) sample_task_path(1)]
  with m show ?thesis by (auto simp: AllStatuses_def)
qed

theorem landed_means_all_in_trunk_witness:
  "CheckLanded merged_git (sample_tasks ! 1) ''main'' = (LandingLanded, TaskBranch (sample_tasks ! 1))
     \<and> (\<exists>r. gv_IsAncestor merged_git (trim_space ''c0ffee'') r = Some True)"
proof -
  have s: "trim_space ''c0ffee'' = ''c0ffee''" by code_simp
  then have c: "CheckLanded merged_git (sample_tasks ! 1) ''main'' = (LandingLanded, TaskBranch (sample_tasks ! 1))"
    by (simp add: CheckLanded_def ResolveBranchRefs_def merged_git_def LandingOfRefs_def LandingOfRef_def trunk_refs_def Let_def)
  have "\<exists>r. gv_IsAncestor merged_git (trim_space ''c0ffee'') r = Some True"
    using landed_means_all_in_trunk [OF c] by (auto simp: merged_git_def)
  with c show ?thesis by blast
qed

lemma sample_listing: "project_tasks_of sample_view sample_workspace ''web'' = Some [sample_tasks ! 2, sample_tasks ! 1]"
proof -
  have "TasksDir ''/r'' ''web'' ''open'' = ''/r/.dacli/projects/web/tasks/open''" "TasksDir ''/r'' ''web'' ''done'' = ''/r/.dacli/projects/web/tasks/done''"
    by code_simp+
  moreover have "has_suffix ''001-a.md'' ''.md''" "has_suffix ''002-b.md'' ''.md''" by code_simp+
  ultimately have "listTasksRaw (\<lambda>d. False) ''/r'' ''web'' [] sample_workspace = Some sample_tasks"
    using sample_folders sample_loads by (simp add: listTasksRaw_def folder_tasks_def AllStatuses_def sample_tasks_def Let_def)
  with sample_raw sample_ListTasks show ?thesis by (simp add: project_tasks_of_def sample_view_def ListTasks_def)
qed

lemma sample_kinds: "\<not> IsDeliverySlice (sample_tasks ! 1)" "\<not> IsDeliverySlice (sample_tasks ! 2)" "\<not> IsAggregate (sample_tasks ! 1)"
  by (simp_all add: IsDeliverySlice_def IsAggregate_def sample_tasks_def sample_task_def sample_task_doc_def get0_def Get_Set equal_fold_def to_lower_char_def)

lemma sample_write: "\<exists>files'. write_at working_ops path d files = (True, files')"
  by (simp add: write_at_def WriteFile_def writeBytes_def working_ops_def failing_ops_def Let_def)

theorem close_passes_gates_witness:
  "\<exists>t' files'. closeTask working_ops working_moves sample_view (\<lambda>i. ''now'') (sample_tasks ! 1) ''a1'' False sample_workspace = (None, t', files')
     \<and> tk_Status t' = ''done'' \<and> gget files' (tk_Path t') = Some (Some (Render (tk_Doc t')))"
proof -
  let ?t = "completed_task (\<lambda>i. ''now'') ''a1'' (sample_tasks ! 1)"
  have g: "RefuseIncompleteDelivery sample_view sample_workspace (sample_tasks ! 1) = None"
    by (simp add: RefuseIncompleteDelivery_def DeliveryProgressFor_def DeliverySlices_def sample_task_path sample_listing sample_kinds del: One_nat_def)
  have a: "RefuseIncompleteAggregate sample_view sample_workspace (sample_tasks ! 1) = None"
    by (simp add: RefuseIncompleteAggregate_def sample_kinds del: One_nat_def)
  have path: "ProjectPath ''/r'' ''web'' = ''/r/.dacli/projects/web/project.md''" by code_simp
  have "gget sample_workspace (ProjectPath ''/r'' ''web'') = Some (Some (Render (sample_task_doc ''p-web'')))"
    unfolding path by (simp add: sample_workspace_def gget_def)
  note r = sample_read_at [OF this]
  have l: "doc_landing (sample_task_doc ''p-web'') = \<lparr>lp_Mode = [], lp_Base = []\<rparr>" "Get (dc_Front (sample_task_doc ''p-web'')) ''landing.base'' = None"
    by (simp_all add: doc_landing_def get0_def sample_task_doc_def Get_Set)
  obtain p where p: "LoadProject ''/r'' sample_workspace ''web'' = Inr p" "pj_Landing p = \<lparr>lp_Mode = [], lp_Base = []\<rparr>"
    using LoadProject_Inr [OF r] resolve_default l by simp
  obtain files1 where w: "SaveTask working_ops ?t sample_workspace = (True, files1)" using sample_write unfolding SaveTask_def by blast
  have "gget files1 (tk_Path ?t) \<noteq> None" using write_at_ok [OF w [unfolded SaveTask_def]] by simp
  from move_works [OF this] obtain t' files' where m: "MoveTask working_moves ''/r'' ?t ''done'' files1 = (True, t', files')" by blast
  have c: "closeTask working_ops working_moves sample_view (\<lambda>i. ''now'') (sample_tasks ! 1) ''a1'' False sample_workspace = (None, t', files')"
    unfolding closeTask_def g a using p w m by (simp add: sample_view_def sample_task_path resolve_default del: One_nat_def)
  have "\<And>p. mv_Remove working_moves p" by (simp add: working_moves_def)
  from close_passes_gates [OF c this] c show ?thesis by blast
qed

text \<open>A project that lands by pull request, and a task with a log.\<close>

lemma workable_doc:
  assumes "d = \<lparr>dc_Front = foldl (\<lambda>f (k, v). Set f k v) [] kvs, dc_Sections = ss\<rparr>" "\<forall>(k, v) \<in> set kvs. plain_key k"
    and "dc_Front d \<noteq> []" "chain ss" "Markdown_Files.closed ss" "section_text (log_of d)" "CHR 0x0D \<notin> set (Render d)"
  shows "workable d"
  using assms front_wf_fields [OF assms(2)] by (simp add: workable_def sections_wf_def)

definition pr_doc :: doc where
  "pr_doc = \<lparr>dc_Front = foldl (\<lambda>f (k, v). Set f k v) [] [(''id'', ''p-web''), (''landing.mode'', ''pr'')],
     dc_Sections = [\<lparr>sc_Level = 1, sc_Title = ''Web'', sc_Content = []\<rparr>]\<rparr>"

definition logged_doc :: doc where
  "logged_doc = \<lparr>dc_Front = foldl (\<lambda>f (k, v). Set f k v) [] [(''id'', ''t-2'')],
     dc_Sections = [\<lparr>sc_Level = 2, sc_Title = ''Log'', sc_Content = unlines [''- t0 claimed by a1'']\<rparr>]\<rparr>"

lemma workable_pr: "workable pr_doc"
  by (rule workable_doc [OF pr_doc_def]) code_simp+

lemma workable_logged: "workable logged_doc"
  by (rule workable_doc [OF logged_doc_def]) code_simp+

theorem close_waits_for_landing_witness:
  "\<exists>files e t' files'. CloseTask working_ops working_moves sample_view (\<lambda>i. ''now'') (sample_tasks ! 1) ''a1'' files = (Some e, t', files')
     \<and> tk_Status t' = ''open'' \<and> files \<noteq> []"
proof -
  let ?files = "gput (ProjectPath ''/r'' ''web'') (Some (Render pr_doc)) []"
  have land: "doc_landing pr_doc = \<lparr>lp_Mode = ''pr'', lp_Base = []\<rparr>" "Get (dc_Front pr_doc) ''landing.base'' = None"
    "snd (ResolveLanding \<lparr>lp_Mode = ''pr'', lp_Base = []\<rparr> no_override) = Inr \<lparr>lp_Mode = ''pr'', lp_Base = []\<rparr>" by code_simp+
  obtain p where p: "LoadProject ''/r'' ?files ''web'' = Inr p" "lp_Mode (pj_Landing p) = ''pr''"
    using LoadProject_Inr [OF workable_read [OF workable_pr]] land by simp
  obtain e t' files' where c: "CloseTask working_ops working_moves sample_view (\<lambda>i. ''now'') (sample_tasks ! 1) ''a1'' ?files = (e, t', files')"
    by (cases "CloseTask working_ops working_moves sample_view (\<lambda>i. ''now'') (sample_tasks ! 1) ''a1'' ?files") auto
  have s: "wv_Root sample_view = ''/r''" "tk_Status (sample_tasks ! 1) = ''open''" by (simp_all add: sample_view_def sample_tasks_def sample_task_def)
  have "LoadProject (wv_Root sample_view) ?files (tk_Project (sample_tasks ! 1)) = Inr p" using p(1) unfolding s sample_task_path .
  note refused = close_waits_for_landing [OF c this p(2)]
  then obtain x where "e = Some x" by blast
  moreover have "?files \<noteq> []" by (simp add: gput_def)
  ultimately show ?thesis using refused c s(2) by auto
qed

lemma with_task_works:
  assumes "currentTaskLocation rt files a = (path, st)" "read_at files path = Inr d"
  shows "\<exists>a' files'. WithTask rt a (log_change working_ops now text) files = (None, a', files')"
proof -
  from assms(2) obtain fresh where f: "loadTaskFile files path (tk_Project a) st = Inr fresh" by (auto simp: loadTaskFile_def Let_def)
  obtain files' where "SaveTask working_ops (AppendLog now fresh text) files = (True, files')"
    using sample_write unfolding SaveTask_def by blast
  with f assms(1) show ?thesis by (auto simp: WithTask_def log_change_def Let_def)
qed

theorem updates_not_lost_witness:
  "\<exists>a' b' files1 files2. WithTask ''/r'' (sample_tasks ! 1) (log_change working_ops ''t1'' ''half done'') (gput (tk_Path (sample_tasks ! 1)) (Some (Render logged_doc)) []) = (None, a', files1)
     \<and> WithTask ''/r'' (sample_tasks ! 1) (log_change working_ops ''t2'' ''reviewed'') files1 = (None, b', files2)
     \<and> log_of (tk_Doc b') = unlines [''- t0 claimed by a1'', ''- t1 half done'', ''- t2 reviewed'']"
proof -
  let ?t = "sample_tasks ! 1" and ?path = "tk_Path (sample_tasks ! 1)"
  let ?files = "gput ?path (Some (Render logged_doc)) []"
  have words: "log_text ''t1'' ''half done''" "log_text ''t2'' ''reviewed''" by code_simp+
  have at: "currentTaskLocation ''/r'' fs ?t = (?path, tk_Status ?t)" if "gget fs ?path \<noteq> None" for fs
    using that by (simp add: currentTaskLocation_def)
  note read = workable_read [OF workable_logged, of ?path "[]"]
  have found: "gget ?files ?path \<noteq> None" by simp
  from with_task_works [OF at [OF found] read, of "''t1''" "''half done''"] obtain a' files1 where
    a: "WithTask ''/r'' ?t (log_change working_ops ''t1'' ''half done'') ?files = (None, a', files1)" by blast
  note first = with_task_logs [OF a at [OF found] read workable_logged words(1)]
  have "gget files1 ?path \<noteq> None" using first(4) [of ?path] by simp
  from at [OF this] first(1) obtain b' files2 where b: "WithTask ''/r'' ?t (log_change working_ops ''t2'' ''reviewed'') files1 = (None, b', files2)"
    using with_task_works by blast
  have "log_of (tk_Doc b') = log_of logged_doc @ log_entry ''t1'' ''half done'' @ log_entry ''t2'' ''reviewed''"
    using updates_not_lost [OF read workable_logged words at [OF found] at [OF found] a b] by simp
  moreover have "log_of logged_doc @ log_entry ''t1'' ''half done'' @ log_entry ''t2'' ''reviewed''
      = unlines [''- t0 claimed by a1'', ''- t1 half done'', ''- t2 reviewed'']" by code_simp
  ultimately have "log_of (tk_Doc b') = unlines [''- t0 claimed by a1'', ''- t1 half done'', ''- t2 reviewed'']" by simp
  with a b show ?thesis by blast
qed

end
