(* ===== verification/Task_Numbers.thy ===== *)
theory Task_Numbers
  imports Task_Closing
begin

text \<open>
  How tasks come and go (\<^verbatim>\<open>CreateTask\<close> of \<^verbatim>\<open>internal/store/store.go\<close>, \<^verbatim>\<open>task_sequence.go\<close>, and
  \<^verbatim>\<open>ReopenTask\<close> and \<^verbatim>\<open>RemoveTask\<close> of \<^verbatim>\<open>remove.go\<close>). Each task of a project has a number that is never
  given twice: it is above the numbers in the status folders, in the folder of removed tasks and in
  the history of Git. A state file saves the search, if an observation of those three has not changed.
\<close>

section \<open>The highest number in use\<close>

definition seqFromTaskFilename :: "string \<Rightarrow> int" where
  "seqFromTaskFilename base0 =
     (let base = trim_suffix base0 ''.md'' in
      if CHR ''-'' \<notin> set base \<or> hd base = CHR ''-'' then 0
      else case atoi (before_first CHR ''-'' base) of None \<Rightarrow> 0 | Some n \<Rightarrow> n)"

definition highest :: "string list \<Rightarrow> int" where
  "highest names = foldl (\<lambda>m name. let n = seqFromTaskFilename name in if n > m then n else m) 0 names"

definition onDiskSeqCeiling :: "string \<Rightarrow> log_file list \<Rightarrow> ident \<Rightarrow> int" where
  "onDiskSeqCeiling rt files project =
     (if \<not> SafeSegment project then 0
      else highest (filter (\<lambda>name. has_suffix name ''.md'') (concat (map (\<lambda>st. read_files (TasksDir rt project st) files) AllStatuses))))"

text \<open>The output of \<^verbatim>\<open>git log\<close> for the folder of the tasks, \<^verbatim>\<open>None\<close> if there is no Git or it fails.\<close>

definition gitTaskSeqCeiling :: "ident \<Rightarrow> string option \<Rightarrow> int" where
  "gitTaskSeqCeiling project out =
     (if \<not> SafeSegment project then 0
      else case out of None \<Rightarrow> 0 | Some s \<Rightarrow> highest (map (\<lambda>l. base_name (trim_space l)) (split_on newline s)))"

definition TombstoneSeqCeiling :: "string \<Rightarrow> log_file list \<Rightarrow> ident \<Rightarrow> int" where
  "TombstoneSeqCeiling rt files project = highest (read_files (TombstonesDir rt project) files)"

text \<open>What can be read at one moment: the files, the history, and the observation of folders and references (a
  digest of names, times, sizes and modes, so not a function of the other two).\<close>

record numbering =
  nb_Files :: "log_file list"
  nb_GitLog :: "string option"
  nb_Stamp :: string

record seq_state =
  qs_Schema :: string
  qs_Next :: int
  qs_Observation :: string

text \<open>A 64-bit addition.\<close>

definition wrap64 :: "int \<Rightarrow> int" where
  "wrap64 n = (n + 2 ^ 63) mod 2 ^ 64 - 2 ^ 63"

text \<open>\<open>w i\<close> is what the \<open>i\<close>-th reading sees; three attempts of five readings follow the first.\<close>

fun scan_loop :: "string \<Rightarrow> ident \<Rightarrow> (nat \<Rightarrow> numbering) \<Rightarrow> nat \<Rightarrow> nat \<Rightarrow> int option" where
  "scan_loop rt project w i 0 = None"
| "scan_loop rt project w i (Suc attempts) =
     (let before = nb_Stamp (w i);
          ondisk = onDiskSeqCeiling rt (nb_Files (w (i + 1))) project;
          git = gitTaskSeqCeiling project (nb_GitLog (w (i + 2)));
          ceiling1 = (if git > ondisk then git else ondisk);
          removed = TombstoneSeqCeiling rt (nb_Files (w (i + 3))) project;
          ceiling2 = (if removed > ceiling1 then removed else ceiling1);
          after = nb_Stamp (w (i + 4))
      in if before = after then Some (wrap64 (ceiling2 + 1)) else scan_loop rt project w (i + 5) attempts)"

definition nextTaskSequence :: "string \<Rightarrow> ident \<Rightarrow> (nat \<Rightarrow> numbering) \<Rightarrow> seq_state option \<Rightarrow> int option" where
  "nextTaskSequence rt project w st =
     (case st of
        Some q \<Rightarrow>
          if qs_Schema q = ''task-sequence/v1'' \<and> qs_Next q > 0 \<and> qs_Observation q = nb_Stamp (w 0) then Some (qs_Next q)
          else scan_loop rt project w 1 3
      | None \<Rightarrow> scan_loop rt project w 1 3)"

text \<open>The observation is made anew when the next number is recorded; \<open>written\<close> says whether the write succeeds.\<close>

definition recordNextTaskSequence :: "bool \<Rightarrow> int \<Rightarrow> numbering \<Rightarrow> seq_state option \<Rightarrow> seq_state option" where
  "recordNextTaskSequence written nxt now st =
     (if written then Some \<lparr>qs_Schema = ''task-sequence/v1'', qs_Next = nxt, qs_Observation = nb_Stamp now\<rparr> else st)"

section \<open>Creating a task\<close>

record delivery_opts =
  do_Generation :: int
  do_ParentGeneration :: int
  do_Required :: bool
  do_Terminal :: bool

record task_opts =
  to_Priority :: string
  to_Estimate :: string
  to_Accept :: "string list"
  to_SoThat :: string
  to_Context :: string
  to_DependsOn :: "string list"
  to_Parent :: string
  to_Claims :: "string list"
  to_StableID :: string
  to_Delivery :: "delivery_opts option"

datatype create_error = NoProject project_error | NumbersUnstable | BadStableID | StableIDTaken | CreateListing
  | BadEstimate | BadDependency | BadParent find_task_error | CreateWrite

text \<open>The identifier: a fresh one, or the one the caller fixed.\<close>

definition task_id :: "workspace_view \<Rightarrow> string \<Rightarrow> task_opts \<Rightarrow> log_file list \<Rightarrow> create_error + ident" where
  "task_id w ulid opts files =
     (if to_StableID opts = [] then Inr (''t-'' @ ulid)
      else if \<not> has_prefix (to_StableID opts) ''t-'' \<or> \<not> SafeSegment (to_StableID opts) then Inl BadStableID
      else case ListTasks (wv_Unreadable w) (wv_Mtime w) (wv_Root w) [] [] files of
        None \<Rightarrow> Inl CreateListing
      | Some existing \<Rightarrow> if list_ex (\<lambda>t. tk_ID t = to_StableID opts) existing then Inl StableIDTaken else Inr (to_StableID opts))"

fun normalize_all :: "string list \<Rightarrow> string list option" where
  "normalize_all [] = Some []"
| "normalize_all (r # rs) =
     (case NormalizeDependency r of
        None \<Rightarrow> None
      | Some d \<Rightarrow> (case normalize_all rs of None \<Rightarrow> None | Some ds \<Rightarrow> Some (d # ds)))"

definition bool_text :: "bool \<Rightarrow> string" where
  "bool_text b = (if b then ''true'' else ''false'')"

text \<open>The frontmatter, field by field; \<open>estimate\<close> is what \<^verbatim>\<open>setEstimateFront\<close> writes for an estimate that is valid.\<close>

definition task_front ::
    "(string \<Rightarrow> string option) \<Rightarrow> workspace_view \<Rightarrow> log_file list \<Rightarrow> ident \<Rightarrow> ident \<Rightarrow> string \<Rightarrow> task_opts \<Rightarrow> create_error + front" where
  "task_front estimate w files i actor created opts =
     (let f0 = Set (Set (Set (Set (Set [] ''id'' i) ''kind'' ''task'') ''created'' created) ''created_by'' actor) ''owner'' actor;
          f1 = (if to_Priority opts \<noteq> [] then Set f0 ''priority'' (to_Priority opts) else f0)
      in case (if to_Estimate opts = [] then Some f1 else map_option (Set f1 ''estimate'') (estimate (to_Estimate opts))) of
        None \<Rightarrow> Inl BadEstimate
      | Some f2 \<Rightarrow>
     (case (if to_DependsOn opts = [] then Some f2 else map_option (SetList f2 ''depends_on'') (normalize_all (to_DependsOn opts))) of
        None \<Rightarrow> Inl BadDependency
      | Some f3 \<Rightarrow>
     (case (if to_Parent opts = [] then Inr f3
            else map_sum id (\<lambda>p. Set f3 ''parent'' (''[['' @ tk_ID p @ '']]''))
              (FindTask (wv_Unreadable w) (wv_Mtime w) (wv_Root w) files (to_Parent opts))) of
        Inl e \<Rightarrow> Inl (BadParent e)
      | Inr f4 \<Rightarrow>
          let f5 = (if to_Claims opts \<noteq> [] then SetList f4 ''claims'' (to_Claims opts) else f4)
          in Inr (case to_Delivery opts of
               None \<Rightarrow> f5
             | Some d \<Rightarrow> Set (Set (Set (Set (Set f5 ''delivery_slice'' ''true'') ''delivery_generation'' (itoa_int (do_Generation d)))
                 ''parent_generation'' (itoa_int (do_ParentGeneration d))) ''delivery_required'' (bool_text (do_Required d)))
                 ''delivery_terminal'' (bool_text (do_Terminal d))))))"

definition task_sections :: "string \<Rightarrow> task_opts \<Rightarrow> md_section list" where
  "task_sections title opts =
     [\<lparr>sc_Level = 1, sc_Title = title, sc_Content = []\<rparr>]
     @ (if to_SoThat opts \<noteq> [] then [\<lparr>sc_Level = 2, sc_Title = ''So that'', sc_Content = to_SoThat opts @ [newline]\<rparr>] else [])
     @ (if to_Context opts \<noteq> [] then [\<lparr>sc_Level = 2, sc_Title = ''Context'', sc_Content = to_Context opts @ [newline]\<rparr>] else [])
     @ [\<lparr>sc_Level = 2, sc_Title = ''Acceptance'', sc_Content = RenderCheckboxes (map (\<lambda>a. \<lparr>cb_Text = a, cb_Done = False\<rparr>) (to_Accept opts))\<rparr>,
        \<lparr>sc_Level = 2, sc_Title = ''Log'', sc_Content = []\<rparr>]"

text \<open>Under the lock of the project: \<open>v\<close> are the readings of the allocation, \<open>v 16\<close> the one when the next number is
  recorded; the result is the task or the error, the files and the state file.\<close>

definition CreateTask ::
    "durable_ops \<Rightarrow> bool \<Rightarrow> (string \<Rightarrow> string option) \<Rightarrow> workspace_view \<Rightarrow> string \<Rightarrow> string \<Rightarrow> ident \<Rightarrow> ident \<Rightarrow> string \<Rightarrow> task_opts
       \<Rightarrow> (nat \<Rightarrow> numbering) \<Rightarrow> log_file list \<Rightarrow> seq_state option \<Rightarrow> (create_error + task) \<times> log_file list \<times> seq_state option" where
  "CreateTask io written estimate w ulid created actor project title opts v files st =
     (case LoadProject (wv_Root w) files project of
        Inl e \<Rightarrow> (Inl (NoProject e), files, st)
      | Inr p \<Rightarrow>
     (case nextTaskSequence (wv_Root w) project v st of
        None \<Rightarrow> (Inl NumbersUnstable, files, st)
      | Some seq \<Rightarrow>
     (case task_id w ulid opts files of
        Inl e \<Rightarrow> (Inl e, files, st)
      | Inr i \<Rightarrow>
     (case task_front estimate w files i actor created opts of
        Inl e \<Rightarrow> (Inl e, files, st)
      | Inr f \<Rightarrow>
          let slug = Slugify title; d = \<lparr>dc_Front = f, dc_Sections = task_sections title opts\<rparr>;
              path = TasksDir (wv_Root w) project ''open'' @ ''/'' @ pad3 seq @ ''-'' @ slug @ ''.md'';
              (ok, files') = write_at io path d files
          in if \<not> ok then (Inl CreateWrite, files', st)
             else (Inr \<lparr>tk_ID = i, tk_Seq = seq, tk_Slug = slug, tk_Project = project, tk_Status = ''open'', tk_Title = title,
                     tk_Doc = d, tk_Path = path\<rparr>,
                   files', recordNextTaskSequence written (wrap64 (seq + 1)) (v 16) st)))))"

section \<open>Reopening and removing\<close>

definition clear_line :: "string \<Rightarrow> string option" where
  "clear_line l =
     (let trimmed = trim_space l in
      if \<not> has_prefix (to_lower trimmed) ''- [x]'' then None
      else Some (takeWhile (\<lambda>c. c = CHR '' '' \<or> c = CHR 0x09) l @ ''- [ ]'' @ drop 5 trimmed))"

definition UncheckAllAcceptance :: "task \<Rightarrow> nat \<times> task" where
  "UncheckAllAcceptance t =
     (case Section (tk_Doc t) ''Acceptance'' of
        None \<Rightarrow> (0, t)
      | Some s \<Rightarrow>
          let lines = split_on newline (sc_Content s);
              cleared = map (\<lambda>l. case clear_line l of None \<Rightarrow> l | Some l' \<Rightarrow> l') lines
          in (length (filter (\<lambda>l. clear_line l \<noteq> None) lines),
              t\<lparr>tk_Doc := SetSection (tk_Doc t) ''Acceptance'' (join_with [newline] cleared)\<rparr>))"

datatype reopen_error = NotClosed | NoReason | ReopenWrite | ReopenMove

definition reopened_task :: "string \<Rightarrow> ident \<Rightarrow> string \<Rightarrow> task \<Rightarrow> nat \<times> task" where
  "reopened_task now actor reason t =
     (let (cleared, t1) = UncheckAllAcceptance t;
          t2 = set_front t1 (Set (dc_Front (tk_Doc t1)) ''generation'' (itoa_int (wrap64 (int (Generation t1) + 1))))
      in (cleared, AppendLog now t2 (''reopened by '' @ actor @ '': '' @ reason @ '' (cleared '' @ itoa cleared
            @ '' acceptance box(es) '' @ [CHR 0xE2, CHR 0x80, CHR 0x94] @ '' the close claimed work that was not verified)'')))"

definition ReopenTask ::
    "durable_ops \<Rightarrow> move_ops \<Rightarrow> string \<Rightarrow> string \<Rightarrow> task \<Rightarrow> ident \<Rightarrow> string \<Rightarrow> log_file list
       \<Rightarrow> (reopen_error + nat) \<times> task \<times> log_file list" where
  "ReopenTask io mv rt now t actor reason files =
     (if tk_Status t = ''open'' \<or> tk_Status t = ''active'' then (Inl NotClosed, t, files)
      else if trim_space reason = [] then (Inl NoReason, t, files)
      else let (cleared, t') = reopened_task now actor reason t; (ok, files') = SaveTask io t' files in
        if \<not> ok then (Inl ReopenWrite, t', files')
        else let (moved, t'', files'') = MoveTask mv rt t' ''open'' files' in
          (if moved then Inr cleared else Inl ReopenMove, t'', files''))"

text \<open>The records of the runs, as \<^verbatim>\<open>procmon\<close> reads them, and whether the process is alive.\<close>

record run_record =
  rr_RunID :: string
  rr_Child :: ident
  rr_Task :: string
  rr_Alive :: bool

datatype run_entry = RunMissing | RunUnreadable | RunRead run_record

fun read_runs :: "run_entry list \<Rightarrow> run_record list option" where
  "read_runs [] = Some []"
| "read_runs (RunMissing # rs) = read_runs rs"
| "read_runs (RunUnreadable # rs) = None"
| "read_runs (RunRead r # rs) = map_option (\<lambda>xs. r # xs) (read_runs rs)"

definition liveClaimants :: "run_entry list option \<Rightarrow> task \<Rightarrow> run_record list option" where
  "liveClaimants runs t =
     (case runs of
        None \<Rightarrow> None
      | Some es \<Rightarrow> map_option (\<lambda>rs. filter (\<lambda>r. list_ex (\<lambda>r'. rr_Alive r' \<and> rr_Child r' = rr_Child r) rs
            \<and> (rr_Task r = tk_ID t \<or> rr_Task r = pad3 (tk_Seq t))) rs) (read_runs es))"

text \<open>The files below a folder, at any depth.\<close>

definition walk :: "string \<Rightarrow> log_file list \<Rightarrow> log_file list" where
  "walk dir files = filter (\<lambda>f. has_prefix (fst f) (dir @ ''/'') \<and> has_suffix (fst f) ''.md'') files"

definition DismissedIDs :: "(jval \<Rightarrow> string) \<Rightarrow> string \<Rightarrow> log_file list \<Rightarrow> string list" where
  "DismissedIDs h dir files =
     List.map_filter (\<lambda>f. case read_at files (fst f) of
         Inl _ \<Rightarrow> None
       | Inr d \<Rightarrow> let (about, valid) = validDismissal h d in if valid then Some about else None) (walk dir files)"

definition note_roots :: "string \<Rightarrow> log_file list \<Rightarrow> string list" where
  "note_roots rt files =
     concat (map (\<lambda>p. map (\<lambda>k. ProjectDir rt (pj_Slug p) @ ''/notes/'' @ k) [''findings'', ''decisions'', ''metrics'', ''refs''])
       (ListProjects rt files))"

definition aboutRefs :: "(jval \<Rightarrow> string) \<Rightarrow> string \<Rightarrow> log_file list \<Rightarrow> ident \<Rightarrow> string list" where
  "aboutRefs h rt files i =
     (let events = dacli rt [''events'']; dismissed = DismissedIDs h events files in
      concat (map (\<lambda>dir. map (\<lambda>f. base_name (fst f))
        (filter (\<lambda>f. before_first CHR ''-'' (base_name (fst f)) \<notin> set dismissed
            \<and> (case snd f of None \<Rightarrow> False | Some raw \<Rightarrow> has_infix raw (''[['' @ i @ '']]''))) (walk dir files)))
        (events # note_roots rt files)))"

definition dependents :: "workspace_view \<Rightarrow> log_file list \<Rightarrow> task \<Rightarrow> (task \<times> dep) list" where
  "dependents w files t =
     (case ListTasks (wv_Unreadable w) (wv_Mtime w) (wv_Root w) [] [] files of
        None \<Rightarrow> []
      | Some all \<Rightarrow> concat (map (\<lambda>u. map (\<lambda>d. (u, d)) (filter (\<lambda>d. dp_Ref d = tk_ID t \<or> dp_Ref d = pad3 (tk_Seq t)) (Deps u)))
          (filter (\<lambda>u. tk_ID u \<noteq> tk_ID t) all)))"

text \<open>Whether something names the task: \<^verbatim>\<open>len(taskReferrers(w, t)) > 0\<close>.\<close>

definition taskReferrers :: "(jval \<Rightarrow> string) \<Rightarrow> workspace_view \<Rightarrow> log_file list \<Rightarrow> task \<Rightarrow> bool" where
  "taskReferrers h w files t \<longleftrightarrow>
     dependents w files t \<noteq> [] \<or> (tk_ID t \<noteq> [] \<and> aboutRefs h (wv_Root w) files (tk_ID t) \<noteq> [])"

definition tombstone_doc :: "string \<Rightarrow> task \<Rightarrow> doc" where
  "tombstone_doc now t =
     \<lparr>dc_Front = Set (Set (Set (Set (Set [] ''id'' (tk_ID t)) ''kind'' ''task-removed'') ''seq'' (pad3 (tk_Seq t))) ''project'' (tk_Project t))
        ''removed'' now,
      dc_Sections = [\<lparr>sc_Level = 1, sc_Title = tk_Title t,
        sc_Content = ''This task was removed. Its seq is retained so it is never handed out'' @ [newline]
          @ ''again '' @ [CHR 0xE2, CHR 0x80, CHR 0x94] @ '' a stale ref must not resolve to a different task.'' @ [newline]\<rparr>]\<rparr>"

definition tombstone_path :: "string \<Rightarrow> task \<Rightarrow> string" where
  "tombstone_path rt t = TombstonesDir rt (tk_Project t) @ ''/'' @ pad3 (tk_Seq t) @ ''-'' @ tk_Slug t @ ''.md''"

definition writeTombstone :: "durable_ops \<Rightarrow> string \<Rightarrow> string \<Rightarrow> task \<Rightarrow> log_file list \<Rightarrow> bool \<times> log_file list" where
  "writeTombstone io rt now t files = write_at io (tombstone_path rt t) (tombstone_doc now t) files"

datatype remove_error = HeldLive | RecoveryUnreadable | Referenced | TombstoneWrite | RemoveFile

definition RemoveTask ::
    "durable_ops \<Rightarrow> bool \<Rightarrow> (jval \<Rightarrow> string) \<Rightarrow> workspace_view \<Rightarrow> run_entry list option \<Rightarrow> string \<Rightarrow> task \<Rightarrow> log_file list
       \<Rightarrow> remove_error option \<times> log_file list" where
  "RemoveTask io removes h w runs now t files =
     (case liveClaimants runs t of
        None \<Rightarrow> (Some RecoveryUnreadable, files)
      | Some held \<Rightarrow>
          if held \<noteq> [] then (Some HeldLive, files)
          else if taskReferrers h w files t then (Some Referenced, files)
          else let (ok, files') = writeTombstone io (wv_Root w) now t files in
            if \<not> ok then (Some TombstoneWrite, files')
            else if \<not> removes \<or> gget files' (tk_Path t) = None then (Some RemoveFile, files')
            else (None, drop_file (tk_Path t) files'))"

section \<open>Names and numbers\<close>

lemma read_files_iff: "name \<in> set (read_files dir files) \<longleftrightarrow> CHR ''/'' \<notin> set name \<and> gget files (dir @ ''/'' @ name) \<noteq> None"
proof -
  have "gget files p \<noteq> None \<longleftrightarrow> (\<exists>b. (p, b) \<in> set files)" for p
    unfolding gget_def by (metis map_of_SomeD not_None_eq weak_map_of_SomeI)
  moreover have "name \<in> set (below dir files) \<longleftrightarrow> (\<exists>b. (dir @ ''/'' @ name, b) \<in> set files)"
    by (force simp: below_def has_prefix_iff)
  ultimately show ?thesis by (auto simp: read_files_def)
qed

lemma highest_Max: "highest names = Max (insert 0 (seqFromTaskFilename ` set names))"
proof -
  have f: "(\<lambda>m name. let n = seqFromTaskFilename name in if n > m then n else m) = (\<lambda>m name. max m (seqFromTaskFilename name))"
    by (auto simp: max_def Let_def fun_eq_iff)
  have "foldl (\<lambda>m name. max m (seqFromTaskFilename name)) n names = Max (insert n (seqFromTaskFilename ` set names))" for n
  proof (induction names arbitrary: n)
    case (Cons x xs)
    show ?case by (cases "xs = []") (simp_all add: Cons.IH max.assoc)
  qed simp
  then show ?thesis unfolding highest_def f .
qed

lemma highest_le: "highest names \<le> c \<longleftrightarrow> 0 \<le> c \<and> (\<forall>name \<in> set names. seqFromTaskFilename name \<le> c)"
  by (simp add: highest_Max)

definition ceiling_of :: "string \<Rightarrow> ident \<Rightarrow> numbering \<Rightarrow> int" where
  "ceiling_of rt project v =
     max (max (onDiskSeqCeiling rt (nb_Files v) project) (gitTaskSeqCeiling project (nb_GitLog v))) (TombstoneSeqCeiling rt (nb_Files v) project)"

text \<open>The file names whose numbers are in use.\<close>

definition in_folder :: "string \<Rightarrow> ident \<Rightarrow> log_file list \<Rightarrow> string \<Rightarrow> bool" where
  "in_folder rt project files name \<longleftrightarrow> CHR ''/'' \<notin> set name
     \<and> (has_suffix name ''.md'' \<and> (\<exists>st \<in> set AllStatuses. gget files (TasksDir rt project st @ ''/'' @ name) \<noteq> None)
        \<or> gget files (TombstonesDir rt project @ ''/'' @ name) \<noteq> None)"

definition in_history :: "string option \<Rightarrow> string \<Rightarrow> bool" where
  "in_history out name \<longleftrightarrow> (\<exists>s. out = Some s \<and> name \<in> (\<lambda>l. base_name (trim_space l)) ` set (split_on newline s))"

lemma ceiling_le:
  assumes "SafeSegment project"
  shows "ceiling_of rt project v \<le> c \<longleftrightarrow>
     0 \<le> c \<and> (\<forall>name. in_folder rt project (nb_Files v) name \<or> in_history (nb_GitLog v) name \<longrightarrow> seqFromTaskFilename name \<le> c)"
proof -
  have "onDiskSeqCeiling rt (nb_Files v) project \<le> c \<longleftrightarrow> 0 \<le> c \<and> (\<forall>name. CHR ''/'' \<notin> set name \<and> has_suffix name ''.md''
      \<and> (\<exists>st \<in> set AllStatuses. gget (nb_Files v) (TasksDir rt project st @ ''/'' @ name) \<noteq> None) \<longrightarrow> seqFromTaskFilename name \<le> c)"
    using assms by (auto simp: onDiskSeqCeiling_def highest_le read_files_iff)
  moreover have "TombstoneSeqCeiling rt (nb_Files v) project \<le> c \<longleftrightarrow> 0 \<le> c \<and> (\<forall>name. CHR ''/'' \<notin> set name
      \<and> gget (nb_Files v) (TombstonesDir rt project @ ''/'' @ name) \<noteq> None \<longrightarrow> seqFromTaskFilename name \<le> c)"
    by (auto simp: TombstoneSeqCeiling_def highest_le read_files_iff)
  moreover have "gitTaskSeqCeiling project (nb_GitLog v) \<le> c \<longleftrightarrow> 0 \<le> c \<and> (\<forall>name. in_history (nb_GitLog v) name \<longrightarrow> seqFromTaskFilename name \<le> c)"
    using assms by (auto simp: gitTaskSeqCeiling_def highest_le in_history_def split: option.splits)
  ultimately show ?thesis unfolding ceiling_of_def in_folder_def by (simp add: max.bounded_iff) blast
qed

lemma ceiling_ge:
  "SafeSegment project \<Longrightarrow> in_folder rt project (nb_Files v) name \<or> in_history (nb_GitLog v) name \<Longrightarrow> seqFromTaskFilename name \<le> ceiling_of rt project v"
  using ceiling_le [of project rt v "ceiling_of rt project v"] by blast

lemma ceiling_nonneg: "0 \<le> ceiling_of rt project v"
  using highest_le [of _ "highest _"] by (auto simp: ceiling_of_def TombstoneSeqCeiling_def le_max_iff_disj)

lemma ceiling_mono:
  assumes "SafeSegment project" "nb_GitLog v' = nb_GitLog v"
    and "\<And>name. in_folder rt project (nb_Files v) name \<Longrightarrow> seqFromTaskFilename name \<le> ceiling_of rt project v'"
  shows "ceiling_of rt project v \<le> ceiling_of rt project v'"
  using assms ceiling_nonneg ceiling_ge [OF assms(1), of rt v'] unfolding ceiling_le [OF assms(1)] by auto

lemma scan_quiet:
  assumes "\<And>j. j < i + 5 \<Longrightarrow> w j = v"
  shows "scan_loop rt project w i (Suc k) = Some (wrap64 (ceiling_of rt project v + 1))"
proof -
  have "w i = v" "w (i + 1) = v" "w (i + 2) = v" "w (i + 3) = v" "w (i + 4) = v" by (rule assms, simp)+
  moreover have "(if b > a then b else a) = max a b" for a b :: int by (simp add: max_def)
  ultimately show ?thesis unfolding scan_loop.simps Let_def ceiling_of_def by (simp only:) simp
qed

lemma wrap64_small: "0 \<le> n \<Longrightarrow> n < 2 ^ 63 \<Longrightarrow> wrap64 n = n"
  by (simp add: wrap64_def)

lemma plain_digits: "n \<ge> 0 \<Longrightarrow> n < 2 ^ 63 \<Longrightarrow> atoi (pad3 n) = Some n" "n \<ge> 0 \<Longrightarrow> CHR ''-'' \<notin> set (pad3 n)" "pad3 n \<noteq> []"
proof -
  have d: "\<not> is_digit CHR ''-''" "\<not> is_digit CHR ''+''" "is_digit CHR ''0''" by code_simp+
  have i: "list_all is_digit (itoa m)" "itoa m \<noteq> []" for m using itoa_digits [of m] by blast+
  have p: "list_all is_digit (pad3 n)" if "n \<ge> 0" using that i d by (auto simp: pad3_def list_all_iff)
  then show dash: "n \<ge> 0 \<Longrightarrow> CHR ''-'' \<notin> set (pad3 n)" using d by (auto simp: list_all_iff)
  show ne: "pad3 n \<noteq> []" using i by (simp add: pad3_def)
  assume n: "n \<ge> 0" "n < 2 ^ 63"
  have "hd (pad3 n) \<in> set (pad3 n)" using ne by simp
  then have "hd (pad3 n) \<noteq> CHR ''+''" "hd (pad3 n) \<noteq> CHR ''-''" using p [OF n(1)] d by (auto simp: list_all_iff)
  then have "\<not> has_prefix (pad3 n) ''+''" "\<not> has_prefix (pad3 n) ''-''" by (auto simp: has_prefix_iff)
  moreover have "decimal (pad3 n) = Some n" using n by (simp add: pad3_def)
  ultimately show "atoi (pad3 n) = Some n" using n by (simp add: atoi_def)
qed

lemma number_of_name: "n \<ge> 0 \<Longrightarrow> n < 2 ^ 63 \<Longrightarrow> seqFromTaskFilename (pad3 n @ ''-'' @ slug @ ''.md'') = n"
proof -
  assume n: "n \<ge> 0" "n < 2 ^ 63"
  note d = plain_digits(1) [OF n] plain_digits(2) [OF n(1)] plain_digits(3) [of n]
  have t: "trim_suffix (pad3 n @ ''-'' @ slug @ ''.md'') ''.md'' = pad3 n @ ''-'' @ slug"
    by (simp add: trim_suffix_def has_suffix_iff)
  have "takeWhile (\<lambda>x. x \<noteq> CHR ''-'') (pad3 n @ CHR ''-'' # slug) = pad3 n" using d(2) by (subst takeWhile_append2) auto
  moreover have "hd (pad3 n @ ''-'' @ slug) \<noteq> CHR ''-''" using d(2,3) by (cases "pad3 n") auto
  ultimately show ?thesis using d(1) t by (simp add: seqFromTaskFilename_def before_first_def Let_def)
qed

section \<open>Where a file may be\<close>

lemma tombstones_status: "TombstonesDir rt project = TasksDir rt project ''removed''"
  by (simp add: TombstonesDir_def TasksDir_def)

definition task_folders :: "verb set" where
  "task_folders = insert ''removed'' (set AllStatuses)"

lemma folder_plain: "st \<in> task_folders \<Longrightarrow> CHR ''/'' \<notin> set st"
  by (auto simp: task_folders_def AllStatuses_def)

lemma split_slash:
  assumes "CHR ''/'' \<notin> set a" "CHR ''/'' \<notin> set c"
  shows "a @ CHR ''/'' # b = c @ CHR ''/'' # d \<longleftrightarrow> a = c \<and> b = d"
proof
  assume e: "a @ CHR ''/'' # b = c @ CHR ''/'' # d"
  have "takeWhile (\<lambda>x. x \<noteq> CHR ''/'') (a @ CHR ''/'' # b) = a" "takeWhile (\<lambda>x. x \<noteq> CHR ''/'') (c @ CHR ''/'' # d) = c"
    using assms by (subst takeWhile_append2; auto)+
  with e have "a = c" by simp
  with e show "a = c \<and> b = d" by simp
qed simp

lemma same_path:
  "st \<in> task_folders \<Longrightarrow> st' \<in> task_folders \<Longrightarrow>
     TasksDir rt project st @ ''/'' @ name = TasksDir rt project st' @ ''/'' @ name' \<longleftrightarrow> st = st' \<and> name = name'"
  using split_slash [OF folder_plain folder_plain, of st st' name name'] by (simp add: TasksDir_def)

lemma in_folder_iff:
  "in_folder rt project files name \<longleftrightarrow> CHR ''/'' \<notin> set name
     \<and> (\<exists>st \<in> task_folders. (st = ''removed'' \<or> has_suffix name ''.md'') \<and> gget files (TasksDir rt project st @ ''/'' @ name) \<noteq> None)"
  by (auto simp: in_folder_def task_folders_def tombstones_status AllStatuses_def)

lemma in_folder_grows:
  "in_folder rt project files name \<Longrightarrow> (\<And>q. gget files q \<noteq> None \<Longrightarrow> gget files' q \<noteq> None) \<Longrightarrow> in_folder rt project files' name"
  unfolding in_folder_iff by blast

lemma in_folder_put:
  assumes "st \<in> task_folders" "CHR ''/'' \<notin> set nm"
  shows "in_folder rt project (gput (TasksDir rt project st @ ''/'' @ nm) b files) name \<longleftrightarrow>
     in_folder rt project files name \<or> (name = nm \<and> (st = ''removed'' \<or> has_suffix nm ''.md''))"
proof -
  have "gget (gput (TasksDir rt project st @ ''/'' @ nm) b files) (TasksDir rt project st' @ ''/'' @ name) \<noteq> None \<longleftrightarrow>
      (st' = st \<and> name = nm) \<or> gget files (TasksDir rt project st' @ ''/'' @ name) \<noteq> None" if "st' \<in> task_folders" for st'
    using same_path [OF that assms(1), of rt project name nm] by auto
  then show ?thesis using assms unfolding in_folder_iff by blast
qed

lemma write_at_keeps: "write_at io path d files = (ok, files') \<Longrightarrow> gget files q \<noteq> None \<Longrightarrow> gget files' q \<noteq> None"
  by (auto simp: write_at_def split: prod.splits option.splits)

text \<open>A task as it is loaded from a status folder.\<close>

definition filed_task :: "string \<Rightarrow> ident \<Rightarrow> log_file list \<Rightarrow> task \<Rightarrow> bool" where
  "filed_task rt project files t \<longleftrightarrow> tk_Project t = project \<and> tk_Status t \<in> set AllStatuses
     \<and> tk_Path t = TasksDir rt project (tk_Status t) @ ''/'' @ base_name (tk_Path t) \<and> has_suffix (tk_Path t) ''.md''
     \<and> loadTaskFile files (tk_Path t) project (tk_Status t) = Inr t"

lemma loaded_name:
  assumes "loadTaskFile files path p st = Inr t"
  shows "tk_Seq t = (let base = trim_suffix (base_name path) ''.md'' in
      if CHR ''-'' \<in> set base \<and> hd base \<noteq> CHR ''-'' then int (atoi_value (before_first CHR ''-'' base)) else 0)"
    "tk_Slug t = (let base = trim_suffix (base_name path) ''.md'' in
      if CHR ''-'' \<in> set base \<and> hd base \<noteq> CHR ''-'' then after_first CHR ''-'' base else [])"
    "tk_Path t = path" "tk_Project t = p" "tk_Status t = st"
  using assms by (auto simp: loadTaskFile_def Let_def map_sum_def split: sum.splits)

lemma set_after_first: "set (after_first c s) \<subseteq> set s"
  unfolding after_first_def by (metis list.sel(2) list.set_sel(2) set_dropWhileD subsetI)

lemma filed_number:
  assumes "filed_task rt project files t"
  shows "0 \<le> tk_Seq t" "tk_Seq t < 2 ^ 63" "seqFromTaskFilename (base_name (tk_Path t)) \<le> tk_Seq t"
    "CHR ''/'' \<notin> set (tk_Slug t)"
proof -
  let ?b = "trim_suffix (base_name (tk_Path t)) ''.md''"
  let ?dashed = "CHR ''-'' \<in> set ?b \<and> hd ?b \<noteq> CHR ''-''"
  have seq: "tk_Seq t = (if ?dashed then int (atoi_value (before_first CHR ''-'' ?b)) else 0)"
    and slug: "tk_Slug t = (if ?dashed then after_first CHR ''-'' ?b else [])"
    using assms loaded_name [of files "tk_Path t" project "tk_Status t" t] by (simp_all add: filed_task_def Let_def)
  show "0 \<le> tk_Seq t" "tk_Seq t < 2 ^ 63" by (auto simp: seq atoi_value_def split: option.split)
  have "set ?b \<subseteq> set (base_name (tk_Path t))" by (auto simp: trim_suffix_def dest: in_set_takeD)
  then show "CHR ''/'' \<notin> set (tk_Slug t)"
    using base_name_plain [of "tk_Path t"] set_after_first [of "CHR ''-''" ?b] by (auto simp: slug)
  show "seqFromTaskFilename (base_name (tk_Path t)) \<le> tk_Seq t"
  proof (cases ?dashed)
    case True
    then have "CHR ''-'' \<notin> set (before_first CHR ''-'' ?b)" by (auto simp: before_first_def dest: set_takeWhileD)
    then have "\<not> has_prefix (before_first CHR ''-'' ?b) ''-''" by (auto simp: has_prefix_iff)
    with True show ?thesis
      by (auto simp: seq seqFromTaskFilename_def Let_def atoi_def atoi_value_def split: option.splits if_splits)
  next
    case False
    then show ?thesis by (auto simp: seq seqFromTaskFilename_def Let_def)
  qed
qed

section \<open>Numbers are not given twice\<close>

lemma move_keeps_numbers:
  assumes "filed_task rt project files t" "to \<in> set AllStatuses" "MoveTask mv rt t to files = (ok, t', files')"
    and "in_folder rt project files name"
  shows "in_folder rt project files' name"
proof (cases ok)
  case False
  with move_refused assms(3,4) show ?thesis by metis
next
  case True
  let ?base = "base_name (tk_Path t)"
  note f = assms(1) [unfolded filed_task_def]
  note m = moved [OF assms(3) [unfolded True [THEN eqTrueI]]]
  have p: "tk_Project t = project" "tk_Path t = TasksDir rt project (tk_Status t) @ ''/'' @ ?base" "tk_Status t \<in> set AllStatuses" using f by auto
  have here: "tk_Path t' = TasksDir rt project to @ ''/'' @ ?base" using m(1) p(1) by simp
  have folders: "set AllStatuses \<subseteq> task_folders" "to \<in> task_folders" "tk_Status t \<in> task_folders" using assms(2) p(3) by (auto simp: task_folders_def)
  from assms(4) obtain st where st: "CHR ''/'' \<notin> set name" "st \<in> task_folders" "st = ''removed'' \<or> has_suffix name ''.md''"
    "gget files (TasksDir rt project st @ ''/'' @ name) \<noteq> None" by (auto simp: in_folder_iff)
  show ?thesis
  proof (cases "name = ?base \<and> st \<noteq> ''removed''")
    case True
    have "gget files' (TasksDir rt project to @ ''/'' @ name) \<noteq> None" using m(4) m(5) [of "tk_Path t'"] True here by simp
    with st(1,3) folders(2) True show ?thesis unfolding in_folder_iff by blast
  next
    case False
    let ?q = "TasksDir rt project st @ ''/'' @ name"
    have r: "''removed'' \<notin> set AllStatuses" by code_simp
    have "?q \<noteq> tk_Path t'" unfolding here using same_path [OF st(2) folders(2)] False r assms(2) by metis
    moreover have "?q \<noteq> tk_Path t" using same_path [OF st(2) folders(3), of rt project name ?base] p(2,3) False r by metis
    moreover have "?q \<noteq> TasksDir rt (tk_Project t) st' @ ''/'' @ ?base" if "st' \<in> set AllStatuses" for st'
      using same_path [OF st(2), of st' rt project name ?base] that folders(1) p(1) False r by auto
    ultimately have "gget files' ?q \<noteq> None" using m(5) [of ?q] st(4) by auto
    with st(1-3) show ?thesis unfolding in_folder_iff by blast
  qed
qed

lemma remove_keeps_numbers:
  assumes "filed_task rt project files t" "wv_Root w = rt" "RemoveTask io removes h w runs now t files = (r, files')"
    and "in_folder rt project files name"
  shows "\<exists>name'. in_folder rt project files' name' \<and> seqFromTaskFilename name \<le> seqFromTaskFilename name'"
proof -
  note f = assms(1) [unfolded filed_task_def] and n = filed_number [OF assms(1)]
  let ?tomb = "pad3 (tk_Seq t) @ ''-'' @ tk_Slug t @ ''.md''"
  have removed: "''removed'' \<in> task_folders" "tk_Status t \<in> task_folders" using f by (simp_all add: task_folders_def)
  have plain: "CHR ''/'' \<notin> set ?tomb" using digits_no_slash(2) [of "tk_Seq t"] n(4) by simp
  have number: "seqFromTaskFilename ?tomb = tk_Seq t" using number_of_name [OF n(1,2)] .
  consider "files' = files" | ok files1 where "writeTombstone io rt now t files = (ok, files1)" "files' = files1"
    | files1 where "writeTombstone io rt now t files = (True, files1)" "files' = drop_file (tk_Path t) files1"
    using assms(2,3) by (auto simp: RemoveTask_def Let_def split: option.splits if_splits prod.splits)
  then show ?thesis
  proof cases
    case 1
    with assms(4) show ?thesis by blast
  next
    case 2
    then have "in_folder rt project files' name"
      using in_folder_grows [OF assms(4)] write_at_keeps by (auto simp: writeTombstone_def)
    then show ?thesis by blast
  next
    case 3
    have path: "tombstone_path rt t = TasksDir rt project ''removed'' @ ''/'' @ ?tomb"
      using f by (simp add: tombstone_path_def tombstones_status)
    have f1: "files1 = gput (TasksDir rt project ''removed'' @ ''/'' @ ?tomb) (Some (Render (tombstone_doc now t))) files"
      using write_at_ok 3(1) unfolding writeTombstone_def path by blast
    have apart: "TasksDir rt project ''removed'' @ ''/'' @ nm \<noteq> tk_Path t" for nm
    proof -
      have "tk_Status t \<noteq> ''removed''" using f by (auto simp: AllStatuses_def)
      with same_path [OF removed, of rt project nm "base_name (tk_Path t)"] f show ?thesis by metis
    qed
    have "gget files' (TasksDir rt project ''removed'' @ ''/'' @ ?tomb) \<noteq> None" using apart by (simp add: 3(2) f1)
    then have tomb: "in_folder rt project files' ?tomb" using plain removed(1) unfolding in_folder_iff by blast
    show ?thesis
    proof (cases "name = base_name (tk_Path t)")
      case True
      with tomb number n(3) show ?thesis by metis
    next
      case False
      from assms(4) obtain st where st: "CHR ''/'' \<notin> set name" "st \<in> task_folders" "st = ''removed'' \<or> has_suffix name ''.md''"
        "gget files (TasksDir rt project st @ ''/'' @ name) \<noteq> None" by (auto simp: in_folder_iff)
      have "TasksDir rt project st @ ''/'' @ name \<noteq> tk_Path t"
        using same_path [OF st(2) removed(2), of rt project name "base_name (tk_Path t)"] f False by metis
      then have "gget files' (TasksDir rt project st @ ''/'' @ name) \<noteq> None" using st(4) by (simp add: 3(2) f1)
      with st(1-3) show ?thesis unfolding in_folder_iff by blast
    qed
  qed
qed

lemma created:
  assumes "CreateTask io written estimate w ulid created actor project title opts v files st = (Inr t, files', st')"
  obtains seq where "nextTaskSequence (wv_Root w) project v st = Some seq" "tk_Seq t = seq"
    "files' = gput (TasksDir (wv_Root w) project ''open'' @ ''/'' @ pad3 seq @ ''-'' @ Slugify title @ ''.md'') (Some (Render (tk_Doc t))) files"
    "st' = recordNextTaskSequence written (wrap64 (seq + 1)) (v 16) st"
  using assms by (auto simp: CreateTask_def Let_def split: sum.splits option.splits prod.splits if_splits dest!: write_at_ok)

lemma create_failed:
  assumes "CreateTask io written estimate w ulid created actor project title opts v files st = (Inl e, files', st')"
  shows "st' = st" "gget files q \<noteq> None \<Longrightarrow> gget files' q \<noteq> None"
  using assms by (auto simp: CreateTask_def Let_def split: sum.splits option.splits prod.splits if_splits dest: write_at_keeps)

text \<open>A project over time: what can be observed, the state file, and the numbers given, the last one first. The
  operations run one at a time, as the lock of the project makes them; between them anything may happen
  that does not take away a number in use.\<close>

record numbers =
  ns_World :: numbering
  ns_State :: "seq_state option"
  ns_Given :: "int list"

inductive numbers_step :: "string \<Rightarrow> ident \<Rightarrow> numbering set \<Rightarrow> numbers \<Rightarrow> numbers \<Rightarrow> bool"
  for rt :: string and project :: ident and W :: "numbering set" where
  create: "v' \<in> W \<Longrightarrow> nb_GitLog v' = nb_GitLog (ns_World s) \<Longrightarrow> wv_Root w = rt \<Longrightarrow>
     CreateTask io written estimate w ulid now actor project title opts (\<lambda>i. if i < 16 then ns_World s else v')
       (nb_Files (ns_World s)) (ns_State s) = (Inr t, nb_Files v', st') \<Longrightarrow>
     numbers_step rt project W s \<lparr>ns_World = v', ns_State = st', ns_Given = tk_Seq t # ns_Given s\<rparr>"
| fail: "v' \<in> W \<Longrightarrow> nb_GitLog v' = nb_GitLog (ns_World s) \<Longrightarrow> wv_Root w = rt \<Longrightarrow>
     CreateTask io written estimate w ulid now actor project title opts (\<lambda>i. if i < 16 then ns_World s else v')
       (nb_Files (ns_World s)) (ns_State s) = (Inl e, nb_Files v', st') \<Longrightarrow>
     numbers_step rt project W s \<lparr>ns_World = v', ns_State = st', ns_Given = ns_Given s\<rparr>"
| move: "v' \<in> W \<Longrightarrow> nb_GitLog v' = nb_GitLog (ns_World s) \<Longrightarrow> filed_task rt project (nb_Files (ns_World s)) t \<Longrightarrow>
     to \<in> set AllStatuses \<Longrightarrow> MoveTask mv rt t to (nb_Files (ns_World s)) = (ok, t', nb_Files v') \<Longrightarrow>
     numbers_step rt project W s (s\<lparr>ns_World := v'\<rparr>)"
| remove: "v' \<in> W \<Longrightarrow> nb_GitLog v' = nb_GitLog (ns_World s) \<Longrightarrow> filed_task rt project (nb_Files (ns_World s)) t \<Longrightarrow>
     wv_Root w = rt \<Longrightarrow> RemoveTask io removes h w runs now t (nb_Files (ns_World s)) = (r, nb_Files v') \<Longrightarrow>
     numbers_step rt project W s (s\<lparr>ns_World := v'\<rparr>)"
| outside: "v' \<in> W \<Longrightarrow> ceiling_of rt project (ns_World s) \<le> ceiling_of rt project v' \<Longrightarrow>
     numbers_step rt project W s (s\<lparr>ns_World := v'\<rparr>)"

text \<open>What the state file promises, and what the observation is trusted for: equal observations mean that the
  same numbers are in use.\<close>

definition state_sound :: "string \<Rightarrow> ident \<Rightarrow> numbering set \<Rightarrow> seq_state option \<Rightarrow> bool" where
  "state_sound rt project W st \<longleftrightarrow>
     (\<forall>q v. st = Some q \<longrightarrow> v \<in> W \<longrightarrow> nb_Stamp v = qs_Observation q \<longrightarrow> qs_Next q = ceiling_of rt project v + 1)"

definition observant :: "string \<Rightarrow> ident \<Rightarrow> numbering set \<Rightarrow> bool" where
  "observant rt project W \<longleftrightarrow> (\<forall>v \<in> W. \<forall>v' \<in> W. nb_Stamp v = nb_Stamp v' \<longrightarrow> ceiling_of rt project v = ceiling_of rt project v')"

definition numbers_inv :: "string \<Rightarrow> ident \<Rightarrow> numbering set \<Rightarrow> numbers \<Rightarrow> bool" where
  "numbers_inv rt project W s \<longleftrightarrow> ns_World s \<in> W \<and> state_sound rt project W (ns_State s) \<and> sorted_wrt (>) (ns_Given s)
     \<and> (\<forall>n \<in> set (ns_Given s). n \<le> ceiling_of rt project (ns_World s))"

lemma next_above:
  assumes "nextTaskSequence rt project w st = Some n" "state_sound rt project W st" "v \<in> W" "\<And>i. i < 16 \<Longrightarrow> w i = v"
    and "ceiling_of rt project v < 2 ^ 62"
  shows "n = ceiling_of rt project v + 1"
proof -
  have scan: "scan_loop rt project w 1 3 = Some (ceiling_of rt project v + 1)"
  proof -
    have "scan_loop rt project w 1 (Suc 2) = Some (wrap64 (ceiling_of rt project v + 1))" by (rule scan_quiet) (simp add: assms(4))
    then show ?thesis using wrap64_small [of "ceiling_of rt project v + 1"] assms(5) ceiling_nonneg [of rt project v] by (simp add: numeral_3_eq_3)
  qed
  then show ?thesis
    using assms(1-3) assms(4) [of 0] by (auto simp: nextTaskSequence_def state_sound_def split: option.splits if_splits)
qed

lemma slug_plain: "CHR ''/'' \<notin> set (Slugify title)"
proof -
  have "list_all (\<lambda>c. slug_char c \<or> c = CHR ''-'') (Slugify title)" using Slugify_wf [of title] by (simp add: slug_wf_def slug_shape_def)
  moreover have "\<not> slug_char CHR ''/''" by code_simp
  ultimately show ?thesis by (auto simp: list_all_iff simp del: slug_char_def)
qed

lemma created_number:
  assumes "SafeSegment project" "nb_GitLog v' = nb_GitLog v" "0 \<le> seq" "seq < 2 ^ 63" "seq = ceiling_of rt project v + 1"
    and "nb_Files v' = gput (TasksDir rt project ''open'' @ ''/'' @ pad3 seq @ ''-'' @ Slugify title @ ''.md'') b (nb_Files v)"
  shows "ceiling_of rt project v' = seq"
proof (rule antisym)
  let ?nm = "pad3 seq @ ''-'' @ Slugify title @ ''.md''"
  have number: "seqFromTaskFilename ?nm = seq" using number_of_name [OF assms(3,4)] .
  have plain: "CHR ''/'' \<notin> set ?nm" using digits_no_slash(2) [of seq] slug_plain [of title] by simp
  have here: "''open'' \<in> task_folders" by (simp add: task_folders_def AllStatuses_def)
  note put = in_folder_put [OF here plain, of rt project b "nb_Files v", folded assms(6)]
  have "has_suffix ?nm ''.md''" by (simp add: has_suffix_iff)
  then have "in_folder rt project (nb_Files v') ?nm" using put by blast
  then show "seq \<le> ceiling_of rt project v'" using ceiling_ge [OF assms(1), of rt v' ?nm] number by simp
  show "ceiling_of rt project v' \<le> seq"
    unfolding ceiling_le [OF assms(1)]
  proof (intro conjI allI impI)
    fix name assume "in_folder rt project (nb_Files v') name \<or> in_history (nb_GitLog v') name"
    then have "name = ?nm \<or> in_folder rt project (nb_Files v) name \<or> in_history (nb_GitLog v) name" using put assms(2) by auto
    then show "seqFromTaskFilename name \<le> seq" using number ceiling_ge [OF assms(1), of rt v name] assms(5) by force
  qed (rule assms(3))
qed

lemma numbers_step_inv:
  assumes "SafeSegment project" "observant rt project W" "\<And>v. v \<in> W \<Longrightarrow> ceiling_of rt project v < 2 ^ 62"
    and "numbers_step rt project W s s'" "numbers_inv rt project W s"
  shows "numbers_inv rt project W s'"
  using assms(4)
proof cases
  let ?v = "ns_World s"
  note inv = assms(5) [unfolded numbers_inv_def]
  have kept: "numbers_inv rt project W (s\<lparr>ns_World := v', ns_State := st\<rparr>)"
    if "v' \<in> W" "ceiling_of rt project ?v \<le> ceiling_of rt project v'" "st = ns_State s" for v' st
    using that inv by (auto simp: numbers_inv_def)
  {
    case (create v' w io written estimate ulid now actor title opts t st')
    obtain seq where c: "nextTaskSequence rt project (\<lambda>i. if i < 16 then ?v else v') (ns_State s) = Some seq" "tk_Seq t = seq"
      "nb_Files v' = gput (TasksDir rt project ''open'' @ ''/'' @ pad3 seq @ ''-'' @ Slugify title @ ''.md'') (Some (Render (tk_Doc t))) (nb_Files ?v)"
      "st' = recordNextTaskSequence written (wrap64 (seq + 1)) v' (ns_State s)"
      using created [OF create(5)] create(4) by force
    have n: "seq = ceiling_of rt project ?v + 1"
      using next_above [OF c(1), of W ?v] inv assms(3) by auto
    have range: "0 \<le> seq" "seq < 2 ^ 63" using n ceiling_nonneg [of rt project ?v] assms(3) [of ?v] inv by auto
    have top: "ceiling_of rt project v' = seq" using created_number [OF assms(1) create(3) range n c(3)] .
    have "wrap64 (seq + 1) = seq + 1" using wrap64_small [of "seq + 1"] range(1) n assms(3) [of ?v] inv by auto
    moreover have "ceiling_of rt project u = seq" if "u \<in> W" "nb_Stamp u = nb_Stamp v'" for u
      using that assms(2) create(2) top unfolding observant_def by metis
    moreover have "state_sound rt project W (ns_State s)" using inv by blast
    ultimately have "state_sound rt project W st'"
      by (auto simp: c(4) recordNextTaskSequence_def state_sound_def)
    then show ?thesis using inv create(2) top n c(2) unfolding create(1) by (fastforce simp: numbers_inv_def)
  next
    case (fail v' w io written estimate ulid now actor title opts e st')
    note f = create_failed [OF fail(5)]
    have "ceiling_of rt project ?v \<le> ceiling_of rt project v'"
      using ceiling_mono [OF assms(1) fail(3)] ceiling_ge [OF assms(1)] in_folder_grows f(2) by metis
    then show ?thesis using kept [OF fail(2)] f(1) unfolding fail(1) by (simp add: numbers_inv_def)
  next
    case (move v' t to mv ok t')
    have "ceiling_of rt project ?v \<le> ceiling_of rt project v'"
      using ceiling_mono [OF assms(1) move(3)] ceiling_ge [OF assms(1)] move_keeps_numbers [OF move(4-6)] by metis
    then show ?thesis using kept [OF move(2)] unfolding move(1) by simp
  next
    case (remove v' t w io removes h runs now r)
    have "ceiling_of rt project ?v \<le> ceiling_of rt project v'"
      using ceiling_mono [OF assms(1) remove(3)] ceiling_ge [OF assms(1)] remove_keeps_numbers [OF remove(4-6)] order_trans by metis
    then show ?thesis using kept [OF remove(2)] unfolding remove(1) by simp
  next
    case (outside v')
    then show ?thesis using kept [OF outside(2,3)] by simp
  }
qed


text \<open>The observation that goes with the recorded number is made after the number is chosen.\<close>

text \<open>A number recorded beside a later observation is trusted. Whatever has arrived in the folders or in the
  history between the allocation of a number and the recording of the next one, the next creation that
  sees that state gets the successor of the number just given, without a search.\<close>

theorem stale_number_trusted:
  assumes "CreateTask io True estimate w ulid created actor project title opts v files st = (Inr t, files', st')"
    and "0 \<le> tk_Seq t" "tk_Seq t < 2 ^ 62" "u 0 = v 16"
  shows "nextTaskSequence (wv_Root w) project u st' = Some (tk_Seq t + 1)"
proof -
  have "st' = recordNextTaskSequence True (wrap64 (tk_Seq t + 1)) (v 16) st" by (rule created [OF assms(1)]) simp
  then show ?thesis using assms(2-4) wrap64_small [of "tk_Seq t + 1"]
    by (simp add: nextTaskSequence_def recordNextTaskSequence_def)
qed

section \<open>Reopening\<close>

lemma lower_first:
  assumes "to_lower s = d # u" "d \<notin> {CHR ''i'', CHR ''k''}"
  obtains c s' where "s = c # s'" "to_lower_char c = d" "to_lower s' = u"
  using assms by (cases s) (auto split: if_splits)

lemma lower_box_char:
  "to_lower_char c = d \<Longrightarrow> d \<in> {CHR ''-'', CHR '' '', CHR ''['', CHR '']''} \<Longrightarrow> c = d"
  "to_lower_char c = CHR ''x'' \<Longrightarrow> c = CHR ''x'' \<or> c = CHR ''X''"
proof -
  have up: "c = d \<or> (of_char CHR ''A'' \<le> (of_char c :: nat) \<and> of_char c \<le> (of_char CHR ''Z'' :: nat) \<and> of_char d = (of_char c + 32 :: nat))"
    if "to_lower_char c = d" for d
    using that by (auto simp: to_lower_char_def less_eq_char_def take_bit_nat_eq_self split: if_splits)
  show "to_lower_char c = d \<Longrightarrow> d \<in> {CHR ''-'', CHR '' '', CHR ''['', CHR '']''} \<Longrightarrow> c = d" using up [of d] by auto
  show "to_lower_char c = CHR ''x'' \<Longrightarrow> c = CHR ''x'' \<or> c = CHR ''X''"
  proof -
    assume "to_lower_char c = CHR ''x''"
    from up [OF this] have "c = CHR ''x'' \<or> of_char c = (of_char CHR ''X'' :: nat)" by auto
    then show ?thesis by (simp only: of_char_eq_iff)
  qed
qed

lemma lower_box:
  assumes "has_prefix (to_lower s) ''- [x]''"
  obtains c rest where "c \<in> {CHR ''x'', CHR ''X''}" "s = ''- ['' @ c # '']'' @ rest"
proof -
  from assms obtain u where "to_lower s = ''- [x]'' @ u" by (auto simp: has_prefix_iff)
  then obtain c1 s1 where 1: "s = c1 # s1" "to_lower_char c1 = CHR ''-''" "to_lower s1 = '' [x]'' @ u" by (auto elim: lower_first)
  then obtain c2 s2 where 2: "s1 = c2 # s2" "to_lower_char c2 = CHR '' ''" "to_lower s2 = ''[x]'' @ u" by (auto elim: lower_first)
  then obtain c3 s3 where 3: "s2 = c3 # s3" "to_lower_char c3 = CHR ''[''" "to_lower s3 = ''x]'' @ u" by (auto elim: lower_first)
  then obtain c4 s4 where 4: "s3 = c4 # s4" "to_lower_char c4 = CHR ''x''" "to_lower s4 = '']'' @ u" by (auto elim: lower_first)
  then obtain c5 s5 where 5: "s4 = c5 # s5" "to_lower_char c5 = CHR '']''" by (auto elim: lower_first)
  have "c1 = CHR ''-''" "c2 = CHR '' ''" "c3 = CHR ''[''" "c5 = CHR '']''" "c4 = CHR ''x'' \<or> c4 = CHR ''X''"
    using lower_box_char(1) [OF 1(2)] lower_box_char(1) [OF 2(2)] lower_box_char(1) [OF 3(2)] lower_box_char(1) [OF 5(2)]
      lower_box_char(2) [OF 4(2)] by simp_all
  with 1(1) 2(1) 3(1) 4(1) 5(1) that [of c4 s5] show thesis by auto
qed

lemma trim_cleared:
  assumes "clear_line l = Some l'"
  obtains c rest where "c \<in> {CHR ''x'', CHR ''X''}" "trim_space l = ''- ['' @ c # '']'' @ rest" "trim_space l' = ''- [ ]'' @ rest"
proof -
  let ?b = "takeWhile (\<lambda>c. c = CHR '' '' \<or> c = CHR 0x09) l" and ?t = "trim_space l"
  from assms have p: "has_prefix (to_lower ?t) ''- [x]''" and l': "l' = ?b @ ''- [ ]'' @ drop 5 ?t"
    by (auto simp: clear_line_def Let_def split: if_splits)
  from lower_box [OF p] obtain c rest where t: "c \<in> {CHR ''x'', CHR ''X''}" "?t = ''- ['' @ c # '']'' @ rest" .
  have "tight (''- [ ]'' @ rest)" using tight_box [of "''- ['' @ c # '']''" rest "''- [ ]''"] tight_trim [of l] t(2) by simp
  then have "trim_space (''- [ ]'' @ rest) = ''- [ ]'' @ rest" by (rule trim_tight)
  moreover have "list_all (\<lambda>c. c = CHR '' '' \<or> c = CHR 0x09) ?b" by (auto simp: list_all_iff dest: set_takeWhileD)
  then have "trim_space l' = trim_space (''- [ ]'' @ rest)" unfolding l' trim_space_def using t(2) by (simp add: strip_blanks trim_space_def)
  ultimately show thesis using that [of c rest] t by simp
qed

definition clear_box :: "string \<Rightarrow> string" where
  "clear_box l = (case clear_line l of None \<Rightarrow> l | Some l' \<Rightarrow> l')"

lemma checkbox_cleared: "checkbox_line (clear_box l) = map_option (cb_Done_update (\<lambda>_. False)) (checkbox_line l)"
proof (cases "clear_line l")
  case None
  have "to_lower_char CHR ''x'' = CHR ''x''" "to_lower_char CHR ''X'' = CHR ''x''" "to_lower_char CHR ''-'' = CHR ''-''"
    "to_lower_char CHR '' '' = CHR '' ''" "to_lower_char CHR ''['' = CHR ''[''" "to_lower_char CHR '']'' = CHR '']''" by code_simp+
  with None have "\<not> has_prefix (trim_space l) ''- [x] ''" "\<not> has_prefix (trim_space l) ''- [X] ''"
    by (auto simp: clear_line_def Let_def has_prefix_iff split: if_splits)
  with None show ?thesis by (simp add: clear_box_def checkbox_line_def Let_def)
next
  case (Some l')
  from trim_cleared [OF this] obtain c rest where "c \<in> {CHR ''x'', CHR ''X''}" "trim_space l = ''- ['' @ c # '']'' @ rest" "trim_space l' = ''- [ ]'' @ rest" .
  with Some show ?thesis by (auto simp: clear_box_def checkbox_line_def Let_def has_prefix_def)
qed

lemma clear_box_line: "line l \<Longrightarrow> line (clear_box l)"
proof (cases "clear_line l")
  case (Some l')
  assume l: "line l"
  from Some have "set l' \<subseteq> set l \<union> set ''- [ ]'' \<union> set (trim_space l)"
    by (auto simp: clear_line_def Let_def split: if_splits dest: set_takeWhileD in_set_dropD)
  then have "set l' \<subseteq> set l \<union> set ''- [ ]''" using set_trim [of l] by blast
  with l Some show ?thesis by (auto simp: clear_box_def line_def)
qed (simp add: clear_box_def)

lemma checked_flagged:
  "length (filter cb_Done (List.map_filter checkbox_line ls)) \<le> length (filter (\<lambda>l. clear_line l \<noteq> None) ls)"
proof (induction ls)
  case (Cons l ls)
  have "clear_line l \<noteq> None" if "checkbox_line l = Some b" "cb_Done b" for b
    using checkbox_cleared [of l] that by (cases b, cases "clear_line l") (auto simp: clear_box_def)
  with Cons show ?case by (auto simp: map_filter_simps split: option.split)
qed (simp add: map_filter_simps)

lemma map_filter_cleared:
  "List.map_filter checkbox_line (map clear_box ls) = map (cb_Done_update (\<lambda>_. False)) (List.map_filter checkbox_line ls)"
  by (induction ls) (simp_all add: map_filter_simps checkbox_cleared split: option.split)

lemma cleared_acceptance:
  "Acceptance (snd (UncheckAllAcceptance t)) = map (cb_Done_update (\<lambda>_. False)) (Acceptance t)"
  "length (filter cb_Done (Acceptance t)) \<le> fst (UncheckAllAcceptance t)"
  "dc_Front (tk_Doc (snd (UncheckAllAcceptance t))) = dc_Front (tk_Doc t)"
  "\<exists>d. snd (UncheckAllAcceptance t) = t\<lparr>tk_Doc := d\<rparr>"
proof -
  have "Acceptance (snd (UncheckAllAcceptance t)) = map (cb_Done_update (\<lambda>_. False)) (Acceptance t)
      \<and> length (filter cb_Done (Acceptance t)) \<le> fst (UncheckAllAcceptance t)"
  proof (cases "Section (tk_Doc t) ''Acceptance''")
    case None
    then show ?thesis by (simp add: UncheckAllAcceptance_def Acceptance_def)
  next
    case (Some s)
    let ?lines = "split_on newline (sc_Content s)"
    have "\<forall>l \<in> set (map clear_box ?lines). line l" using split_on_lines clear_box_line by auto
    then have again: "split_on newline (join_with [newline] (map clear_box ?lines)) = map clear_box ?lines"
      by (intro split_join) auto
    have box: "(case clear_line l of None \<Rightarrow> l | Some l' \<Rightarrow> l') = clear_box l" for l by (simp add: clear_box_def)
    obtain s' where "Section (SetSection (tk_Doc t) ''Acceptance'' (join_with [newline] (map clear_box ?lines))) ''Acceptance'' = Some s'"
      "sc_Content s' = join_with [newline] (map clear_box ?lines)" using Section_put by blast
    then show ?thesis using checked_flagged [of ?lines]
      by (simp add: UncheckAllAcceptance_def Some box Acceptance_def Checkboxes_def again map_filter_cleared Let_def)
  qed
  then show "Acceptance (snd (UncheckAllAcceptance t)) = map (cb_Done_update (\<lambda>_. False)) (Acceptance t)"
    "length (filter cb_Done (Acceptance t)) \<le> fst (UncheckAllAcceptance t)" by blast+
  show "dc_Front (tk_Doc (snd (UncheckAllAcceptance t))) = dc_Front (tk_Doc t)" "\<exists>d. snd (UncheckAllAcceptance t) = t\<lparr>tk_Doc := d\<rparr>"
    by (auto simp: UncheckAllAcceptance_def SetSection_def Let_def intro: exI [of _ "tk_Doc t"] split: option.splits)
qed

lemma Acceptance_kept [simp]: "Acceptance (AppendLog now t x) = Acceptance t" "Acceptance (set_front t f) = Acceptance t"
  "dc_Front (tk_Doc (AppendLog now t x)) = dc_Front (tk_Doc t)" "tk_Path (AppendLog now t x) = tk_Path t"
  "tk_Project (AppendLog now t x) = tk_Project t"
proof -
  have "\<not> equal_fold ''Log'' ''Acceptance''" by code_simp
  then show "Acceptance (AppendLog now t x) = Acceptance t" by (simp add: Acceptance_def appended_doc Section_other)
qed (simp_all add: Acceptance_def set_front_def Section_def AppendLog_def SetSection_def Let_def)

lemma atoi_itoa: "n < 2 ^ 63 \<Longrightarrow> atoi (itoa n) = Some (int n)"
proof -
  assume n: "n < 2 ^ 63"
  have d: "\<not> is_digit CHR ''-''" "\<not> is_digit CHR ''+''" by code_simp+
  have "hd (itoa n) \<in> set (itoa n)" using itoa_digits [of n] by simp
  then have "is_digit (hd (itoa n))" using itoa_digits [of n] by (simp add: list_all_iff)
  with d have "\<not> has_prefix (itoa n) ''+''" "\<not> has_prefix (itoa n) ''-''" by (auto simp: has_prefix_iff)
  with n show ?thesis by (simp add: atoi_def)
qed

text \<open>C40: A reopened task is work again. When \<^verbatim>\<open>ReopenTask\<close> succeeds the task was finished or blocked and a reason was
  given; it is in the folder of open tasks and (if stale copies can be removed) in no other; its
  criteria are the ones it had and none is checked; the number returned counts at least those that
  were; its generation is the next one, so that slices of the old one no longer count.\<close>

theorem reopened_is_work:
  assumes "ReopenTask io mv rt now t actor reason files = (Inr n, t', files')" "\<And>p. mv_Remove mv p" "Generation t + 1 < 2 ^ 63"
  shows "tk_Status t \<notin> {''open'', ''active''} \<and> trim_space reason \<noteq> [] \<and> tk_Status t' = ''open''
    \<and> tk_Path t' = TasksDir rt (tk_Project t) ''open'' @ ''/'' @ base_name (tk_Path t)
    \<and> gget files' (tk_Path t') = Some (Some (Render (tk_Doc t')))
    \<and> (st \<in> set AllStatuses \<and> st \<noteq> ''open'' \<longrightarrow> gget files' (TasksDir rt (tk_Project t) st @ ''/'' @ base_name (tk_Path t)) = None)
    \<and> Acceptance t' = map (cb_Done_update (\<lambda>_. False)) (Acceptance t) \<and> length (filter cb_Done (Acceptance t)) \<le> n
    \<and> Generation t' = Generation t + 1"
proof -
  let ?u = "snd (reopened_task now actor reason t)"
  note a = cleared_acceptance [of t]
  from a(4) obtain d where d: "snd (UncheckAllAcceptance t) = t\<lparr>tk_Doc := d\<rparr>" by blast
  then obtain k where k: "UncheckAllAcceptance t = (k, t\<lparr>tk_Doc := d\<rparr>)" by (metis prod.collapse)
  obtain files1 where o: "tk_Status t \<notin> {''open'', ''active''}" "trim_space reason \<noteq> []" "n = fst (UncheckAllAcceptance t)"
    "write_at io (tk_Path ?u) (tk_Doc ?u) files = (True, files1)" "MoveTask mv rt ?u ''open'' files1 = (True, t', files')"
    using assms(1) by (auto simp: ReopenTask_def reopened_task_def SaveTask_def Let_def split: if_splits prod.splits)
  have same: "Generation (t\<lparr>tk_Doc := d\<rparr>) = Generation t" using a(3) by (simp add: d Generation_def)
  have w: "itoa_int (wrap64 (int (Generation t) + 1)) = itoa (Generation t + 1)"
    using assms(3) wrap64_small [of "int (Generation t) + 1"] by (simp add: itoa_int_def nat_add_distrib)
  have u: "Acceptance ?u = map (cb_Done_update (\<lambda>_. False)) (Acceptance t)" "tk_Path ?u = tk_Path t" "tk_Project ?u = tk_Project t"
    using a(1) by (simp_all add: reopened_task_def k) (simp_all add: set_front_def)
  have "dc_Front (tk_Doc ?u) = Set (dc_Front d) ''generation'' (itoa (Generation t + 1))"
    using w same by (simp add: reopened_task_def k set_front_def)
  then have g: "Generation ?u = Generation t + 1" using atoi_itoa [OF assms(3)] by (simp add: Generation_def get0_def Get_Set)
  note m = moved [OF o(5), unfolded u]
  have doc: "tk_Doc t' = tk_Doc ?u" by (subst m(3)) simp
  have stored: "gget files' (tk_Path t') = Some (Some (Render (tk_Doc t')))"
    using m(5) [of "tk_Path t'"] write_at_ok [OF o(4)] u(2) doc by simp
  have elsewhere: "gget files' (TasksDir rt (tk_Project t) st @ ''/'' @ base_name (tk_Path t)) = None" if "st \<in> set AllStatuses" "st \<noteq> ''open''"
    using that assms(2) m(1) by (auto simp: m(5) TasksDir_def)
  have "Acceptance t' = Acceptance ?u" "Generation t' = Generation ?u" by (simp_all add: Acceptance_def Generation_def doc)
  then show ?thesis using o(1-3) u g m(1,2) stored elsewhere a(2) by simp
qed

section \<open>Removing\<close>

lemma no_claimants:
  "liveClaimants runs t = Some [] \<longleftrightarrow> (\<exists>es rs. runs = Some es \<and> read_runs es = Some rs \<and>
     (\<forall>r \<in> set rs. \<forall>r' \<in> set rs. rr_Alive r' \<and> rr_Child r' = rr_Child r \<longrightarrow> rr_Task r \<noteq> tk_ID t \<and> rr_Task r \<noteq> pad3 (tk_Seq t)))"
  by (auto simp: liveClaimants_def filter_empty_conv list_ex_iff split: option.splits)

lemma no_dependents:
  "ListTasks (wv_Unreadable w) (wv_Mtime w) (wv_Root w) [] [] files = Some all \<Longrightarrow> dependents w files t = [] \<longleftrightarrow>
     (\<forall>u \<in> set all. tk_ID u \<noteq> tk_ID t \<longrightarrow> (\<forall>d \<in> set (Deps u). dp_Ref d \<noteq> tk_ID t \<and> dp_Ref d \<noteq> pad3 (tk_Seq t)))"
  by (auto simp: dependents_def filter_empty_conv)

lemma no_event_about:
  assumes "aboutRefs h rt files i = []" "(p, Some raw) \<in> set files" "has_prefix p (dacli rt [''events''] @ ''/'')" "has_suffix p ''.md''"
    and "before_first CHR ''-'' (base_name p) \<notin> set (DismissedIDs h (dacli rt [''events'']) files)"
  shows "\<not> has_infix raw (''[['' @ i @ '']]'')"
proof
  assume "has_infix raw (''[['' @ i @ '']]'')"
  then have "base_name p \<in> set (aboutRefs h rt files i)"
    using assms(2-5) unfolding aboutRefs_def walk_def Let_def by force
  with assms(1) show False by simp
qed

text \<open>C39: Removal is for tasks nobody holds or names. Let the tombstone be written and the file be there and
  removable. \<^verbatim>\<open>RemoveTask\<close> succeeds exactly if the run records can be read and no live agent has a
  record for the task, no other listed task has a dependency spelled as its identifier or its padded number, and
  no record that is not dismissed links to it. Then its file is gone, the tombstone is
  there, every other file is as it was, and its number stays below the ceiling of removed tasks.\<close>

theorem removal_exact:
  assumes "RemoveTask io True h w runs now t files = (r, files')" "filed_task (wv_Root w) project files t"
    and "ListTasks (wv_Unreadable w) (wv_Mtime w) (wv_Root w) [] [] files = Some all" "writeTombstone io (wv_Root w) now t files = (True, files1)"
  shows "(r = None \<longleftrightarrow>
      (\<exists>es rs. runs = Some es \<and> read_runs es = Some rs \<and>
        (\<forall>a \<in> set rs. \<forall>b \<in> set rs. rr_Alive b \<and> rr_Child b = rr_Child a \<longrightarrow> rr_Task a \<noteq> tk_ID t \<and> rr_Task a \<noteq> pad3 (tk_Seq t)))
      \<and> (\<forall>u \<in> set all. tk_ID u \<noteq> tk_ID t \<longrightarrow> (\<forall>d \<in> set (Deps u). dp_Ref d \<noteq> tk_ID t \<and> dp_Ref d \<noteq> pad3 (tk_Seq t)))
      \<and> (tk_ID t = [] \<or> aboutRefs h (wv_Root w) files (tk_ID t) = []))
    \<and> (r = None \<longrightarrow> gget files' (tk_Path t) = None \<and> gget files' (tombstone_path (wv_Root w) t) = Some (Some (Render (tombstone_doc now t)))
        \<and> (q \<noteq> tk_Path t \<longrightarrow> q \<noteq> tombstone_path (wv_Root w) t \<longrightarrow> gget files' q = gget files q)
        \<and> tk_Seq t \<le> TombstoneSeqCeiling (wv_Root w) files' project)
    \<and> (r \<noteq> None \<longrightarrow> files' = files)"
proof -
  let ?rt = "wv_Root w" and ?nm = "pad3 (tk_Seq t) @ ''-'' @ tk_Slug t @ ''.md''"
  note f = assms(2) [unfolded filed_task_def] and n = filed_number [OF assms(2)]
  have path: "tombstone_path ?rt t = TasksDir ?rt project ''removed'' @ ''/'' @ ?nm"
    using f by (simp add: tombstone_path_def tombstones_status)
  have f1: "files1 = gput (tombstone_path ?rt t) (Some (Render (tombstone_doc now t))) files"
    using write_at_ok assms(4) unfolding writeTombstone_def by blast
  have folders: "''removed'' \<in> task_folders" "tk_Status t \<in> task_folders" "tk_Status t \<noteq> ''removed''"
    using f by (auto simp: task_folders_def AllStatuses_def)
  have apart: "tombstone_path ?rt t \<noteq> tk_Path t"
    unfolding path using same_path [OF folders(1,2), of ?rt project ?nm "base_name (tk_Path t)"] f folders(3) by metis
  have present: "gget files1 (tk_Path t) \<noteq> None"
    using f apart unfolding f1 by (auto simp: loadTaskFile_def read_at_def split: option.splits)
  have run: "(r, files') = (if liveClaimants runs t = None then (Some RecoveryUnreadable, files)
      else if liveClaimants runs t \<noteq> Some [] then (Some HeldLive, files)
      else if taskReferrers h w files t then (Some Referenced, files) else (None, drop_file (tk_Path t) files1))"
    using assms(1,4) present unfolding RemoveTask_def Let_def by (auto split: option.splits if_splits)
  have exact: "r = None \<longleftrightarrow> liveClaimants runs t = Some [] \<and> dependents w files t = [] \<and> (tk_ID t = [] \<or> aboutRefs h ?rt files (tk_ID t) = [])"
    using run by (auto simp: taskReferrers_def split: if_splits)
  have left: "files' = (if r = None then drop_file (tk_Path t) files1 else files)" using run by (auto split: if_splits)
  have kept: "tk_Seq t \<le> TombstoneSeqCeiling ?rt (drop_file (tk_Path t) files1) project"
  proof -
    have "CHR ''/'' \<notin> set ?nm" using digits_no_slash(2) [of "tk_Seq t"] n(4) by simp
    moreover have "gget (drop_file (tk_Path t) files1) (TasksDir ?rt project ''removed'' @ ''/'' @ ?nm) \<noteq> None"
      using apart path unfolding f1 by simp
    ultimately have "?nm \<in> set (read_files (TombstonesDir ?rt project) (drop_file (tk_Path t) files1))"
      unfolding read_files_iff tombstones_status by blast
    then show ?thesis using highest_le [of "read_files (TombstonesDir ?rt project) (drop_file (tk_Path t) files1)" "TombstoneSeqCeiling ?rt (drop_file (tk_Path t) files1) project"]
      number_of_name [OF n(1,2), of "tk_Slug t"] by (auto simp: TombstoneSeqCeiling_def)
  qed
  have effects: "r = None \<longrightarrow> gget files' (tk_Path t) = None \<and> gget files' (tombstone_path ?rt t) = Some (Some (Render (tombstone_doc now t)))
        \<and> (q \<noteq> tk_Path t \<longrightarrow> q \<noteq> tombstone_path ?rt t \<longrightarrow> gget files' q = gget files q) \<and> tk_Seq t \<le> TombstoneSeqCeiling ?rt files' project"
    using left kept apart by (auto simp: f1)
  have untouched: "r \<noteq> None \<longrightarrow> files' = files" by (simp add: left)
  show ?thesis by (rule conjI [OF exact [unfolded no_claimants no_dependents [OF assms(3)]] conjI [OF effects untouched]])
qed

section \<open>At concrete inputs\<close>

text \<open>A project with two tasks; the second depends on the first, by its slug.\<close>

definition follower_doc :: doc where
  "follower_doc = \<lparr>dc_Front = foldl (\<lambda>f (k, v). Set f k v) [] [(''id'', ''t-2''), (''depends_on'', ''[a]'')],
     dc_Sections = [\<lparr>sc_Level = 1, sc_Title = ''Title'', sc_Content = []\<rparr>]\<rparr>"

definition follower :: task where
  "follower = (sample_tasks ! 1)\<lparr>tk_Doc := follower_doc\<rparr>"

definition two_tasks :: "log_file list" where
  "two_tasks =
     [(''/r/.dacli/projects/web/project.md'', Some (Render (sample_task_doc ''p-web''))),
      (''/r/.dacli/projects/web/tasks/open/001-a.md'', Some (Render (sample_task_doc ''t-1''))),
      (''/r/.dacli/projects/web/tasks/open/002-b.md'', Some (Render follower_doc))]"

lemma workable_follower: "workable follower_doc"
  by (rule workable_doc [OF follower_doc_def]) code_simp+

lemma two_folders:
  "read_files (TasksDir ''/r'' ''web'' ''open'') two_tasks = [''001-a.md'', ''002-b.md'']"
  "read_files (TasksDir ''/r'' ''web'' ''done'') two_tasks = []" "read_files (TasksDir ''/r'' ''web'' ''active'') two_tasks = []"
  "read_files (TasksDir ''/r'' ''web'' ''blocked'') two_tasks = []" "read_dirs (dacli ''/r'' [''projects'']) two_tasks = [''web'']"
  by (simp_all add: read_files_def read_dirs_def below_def TasksDir_def ProjectDir_def project_segment_def dacli_def two_tasks_def
    has_prefix_def SafeSegment_def has_infix.simps)

lemma follower_loads:
  assumes "gget files ''/r/.dacli/projects/web/tasks/open/002-b.md'' = Some (Some (Render follower_doc))"
  shows "loadTaskFile files ''/r/.dacli/projects/web/tasks/open/002-b.md'' ''web'' ''open'' = Inr follower"
proof -
  have n: "base_name ''/r/.dacli/projects/web/tasks/open/002-b.md'' = ''002-b.md''" "trim_suffix ''002-b.md'' ''.md'' = ''002-b''" "atoi_value ''002'' = 2"
    "get0 (dc_Front follower_doc) ''id'' = ''t-2''" "first_title (dc_Sections follower_doc) = ''Title''" by code_simp+
  have "read_at files ''/r/.dacli/projects/web/tasks/open/002-b.md'' = Inr follower_doc"
    using workable_read [OF workable_follower, of "''/r/.dacli/projects/web/tasks/open/002-b.md''" files] assms by (simp add: read_at_def)
  then show ?thesis
    by (simp add: loadTaskFile_def n follower_def sample_tasks_def sample_task_def before_first_def after_first_def Let_def)
qed

lemma first_read: "gget two_tasks ''/r/.dacli/projects/web/tasks/open/001-a.md'' = Some (Some (Render (sample_task_doc ''t-1'')))"
  "gget two_tasks ''/r/.dacli/projects/web/tasks/open/002-b.md'' = Some (Some (Render follower_doc))"
  "gget two_tasks ''/r/.dacli/projects/web/project.md'' = Some (Some (Render (sample_task_doc ''p-web'')))"
  by (simp_all add: two_tasks_def gget_def)

lemma first_loads: "loadTaskFile two_tasks ''/r/.dacli/projects/web/tasks/open/001-a.md'' ''web'' ''open'' = Inr (sample_tasks ! 0)"
proof -
  have "gget two_tasks ''/r/.dacli/projects/web/tasks/open/001-a.md'' = gget sample_workspace ''/r/.dacli/projects/web/tasks/open/001-a.md''"
    by (simp add: first_read) (simp add: sample_workspace_def gget_def)
  then show ?thesis using sample_loads(1) by (simp add: loadTaskFile_def read_at_def)
qed

text \<open>What holds of the workspace before and after the first task is removed.\<close>

lemma listed_projects:
  assumes "gget files ''/r/.dacli/projects/web/project.md'' = Some (Some (Render (sample_task_doc ''p-web'')))"
    and "read_dirs (dacli ''/r'' [''projects'']) files = [''web'']"
  shows "map pj_Slug (ListProjects ''/r'' files) = [''web'']"
proof -
  have path: "ProjectPath ''/r'' ''web'' = ''/r/.dacli/projects/web/project.md''" by code_simp
  have r: "read_at files (ProjectPath ''/r'' ''web'') = Inr (sample_task_doc ''p-web'')" using sample_read_at assms(1) unfolding path by blast
  have "doc_landing (sample_task_doc ''p-web'') = \<lparr>lp_Mode = [], lp_Base = []\<rparr>"
    by (simp add: doc_landing_def get0_def sample_task_doc_def Get_Set)
  with LoadProject_Inr [OF r] resolve_default obtain q where q: "LoadProject ''/r'' files ''web'' = Inr q" by (auto simp: sample_task_doc_def Get_Set)
  then show ?thesis using LoadProject_D(7) [OF q] assms(2) by (simp add: ListProjects_def has_prefix_def)
qed

lemma only_open:
  assumes "map pj_Slug (ListProjects ''/r'' files) = [''web'']" "read_files (TasksDir ''/r'' ''web'' ''done'') files = []"
    and "read_files (TasksDir ''/r'' ''web'' ''active'') files = []" "read_files (TasksDir ''/r'' ''web'' ''blocked'') files = []"
    and "folder_tasks ''/r'' files ''web'' ''open'' = ts" "ts = [sample_tasks ! 0, follower] \<or> ts = [follower]"
  shows "ListTasks (\<lambda>d. False) (\<lambda>p. 0) ''/r'' [] [] files = Some ts"
proof -
  have raw: "listTasksRaw (\<lambda>d. False) ''/r'' [] [] files = Some ts"
    using assms(1-5) by (simp add: listTasksRaw_def AllStatuses_def folder_tasks_def Let_def)
  have "dedupeTasks (\<lambda>p. 0) ts = ts" "sort_key (\<lambda>t. (tk_Project t, tk_Seq t)) ts = ts"
    using assms(6)
    by (auto simp: dedupeTasks_def keep_best_def taskIdentity_def sample_tasks_def sample_task_def follower_def gget_def)
  then show ?thesis using raw by (simp add: ListTasks_def)
qed

lemma two_projects: "map pj_Slug (ListProjects ''/r'' two_tasks) = [''web'']"
  using listed_projects first_read(3) two_folders(5) by blast

lemma open_path: "TasksDir ''/r'' ''web'' ''open'' = ''/r/.dacli/projects/web/tasks/open''" "has_suffix ''001-a.md'' ''.md''" "has_suffix ''002-b.md'' ''.md''"
  "tk_Path (sample_tasks ! 0) = ''/r/.dacli/projects/web/tasks/open/001-a.md''" "tk_ID (sample_tasks ! 0) = ''t-1''"
  "tk_Seq (sample_tasks ! 0) = 1" "tk_Status (sample_tasks ! 0) = ''open''" "tk_Project (sample_tasks ! 0) = ''web''" "tk_Slug (sample_tasks ! 0) = ''a''"
  by (code_simp, code_simp, code_simp) (simp_all add: sample_tasks_def sample_task_def)

lemma two_listing: "ListTasks (\<lambda>d. False) (\<lambda>p. 0) ''/r'' [] [] two_tasks = Some [sample_tasks ! 0, follower]"
proof (rule only_open [OF two_projects two_folders(2,3,4)])
  show "folder_tasks ''/r'' two_tasks ''web'' ''open'' = [sample_tasks ! 0, follower]"
    unfolding folder_tasks_def two_folders(1) unfolding open_path(1) using follower_loads [OF first_read(2)] first_loads by (simp add: open_path)
qed simp

lemma follower_deps: "Deps follower = [\<lparr>dp_Ref = ''a'', dp_Type = ''FS''\<rparr>]"
  by code_simp

lemma spelled: "pad3 1 = ''001''" "pad3 2 = ''002''" "itoa_int 1 = ''1''" "itoa_int 2 = ''2''" "splitQualifiedTaskRef ''a'' = (''a'', [], False)"
  by code_simp+

lemma nothing_about: "aboutRefs h ''/r'' two_tasks i = []"
proof -
  obtain p where "ListProjects ''/r'' two_tasks = [p]" "pj_Slug p = ''web''"    using two_projects by (auto simp: map_eq_Cons_conv)
  moreover have "dacli ''/r'' [''events''] = ''/r/.dacli/events''" "ProjectDir ''/r'' ''web'' = ''/r/.dacli/projects/web''" by code_simp+
  moreover have "walk ''/r/.dacli/events'' two_tasks = []" "walk (''/r/.dacli/projects/web'' @ ''/notes/'' @ k) two_tasks = []" for k
    by (simp_all add: walk_def two_tasks_def has_prefix_iff)
  ultimately show ?thesis by (simp add: aboutRefs_def note_roots_def)
qed

definition removed_first :: "string option \<Rightarrow> log_file list" where
  "removed_first x =
     [(''/r/.dacli/projects/web/project.md'', Some (Render (sample_task_doc ''p-web''))),
      (''/r/.dacli/projects/web/tasks/open/002-b.md'', Some (Render follower_doc)),
      (''/r/.dacli/projects/web/tasks/removed/001-a.md'', x)]"

lemma first_removed:
  "RemoveTask working_ops True h sample_view (Some []) now (sample_tasks ! 0) two_tasks
     = (None, removed_first (Some (Render (tombstone_doc now (sample_tasks ! 0)))))"
proof -
  let ?t = "sample_tasks ! 0"
  have v: "wv_Root sample_view = ''/r''" "wv_Unreadable sample_view = (\<lambda>d. False)" "wv_Mtime sample_view = (\<lambda>p. 0)"
    by (simp_all add: sample_view_def)
  have "dependents sample_view two_tasks ?t = []"
    by (simp add: dependents_def v two_listing open_path spelled follower_deps)
  then have alone: "\<not> taskReferrers h sample_view two_tasks ?t" by (simp add: taskReferrers_def v nothing_about)
  have claim: "liveClaimants (Some []) ?t = Some []" by (simp add: liveClaimants_def)
  have tomb: "tombstone_path ''/r'' ?t = ''/r/.dacli/projects/web/tasks/removed/001-a.md''" by code_simp
  obtain files1 where w: "writeTombstone working_ops ''/r'' now ?t two_tasks = (True, files1)"
    using sample_write unfolding writeTombstone_def by blast
  then have f1: "files1 = gput ''/r/.dacli/projects/web/tasks/removed/001-a.md'' (Some (Render (tombstone_doc now ?t))) two_tasks"
    using write_at_ok unfolding writeTombstone_def tomb by blast
  then have "gget files1 (tk_Path ?t) \<noteq> None" by (simp add: first_read open_path)
  with alone claim w show ?thesis
    by (simp add: RemoveTask_def v f1 removed_first_def two_tasks_def gput_def drop_file_def open_path)
qed

lemma removed_listing: "ListTasks (\<lambda>d. False) (\<lambda>p. 0) ''/r'' [] [] (removed_first x) = Some [follower]"
proof -
  have f: "read_files (TasksDir ''/r'' ''web'' ''open'') (removed_first x) = [''002-b.md'']"
    "read_files (TasksDir ''/r'' ''web'' ''done'') (removed_first x) = []" "read_files (TasksDir ''/r'' ''web'' ''active'') (removed_first x) = []"
    "read_files (TasksDir ''/r'' ''web'' ''blocked'') (removed_first x) = []" "read_dirs (dacli ''/r'' [''projects'']) (removed_first x) = [''web'']"
    by (simp_all add: read_files_def read_dirs_def below_def TasksDir_def ProjectDir_def project_segment_def dacli_def removed_first_def
      has_prefix_def SafeSegment_def has_infix.simps)
  have g: "gget (removed_first x) ''/r/.dacli/projects/web/project.md'' = Some (Some (Render (sample_task_doc ''p-web'')))"
    "gget (removed_first x) ''/r/.dacli/projects/web/tasks/open/002-b.md'' = Some (Some (Render follower_doc))"
    by (simp_all add: removed_first_def gget_def)
  have "folder_tasks ''/r'' (removed_first x) ''web'' ''open'' = [follower]"
    unfolding folder_tasks_def f(1) unfolding open_path(1) using follower_loads [OF g(2)] by (simp add: open_path)
  with only_open [OF listed_projects [OF g(1) f(5)] f(2,3,4)] show ?thesis by blast
qed

lemma spelled_a: "matchesRef (sample_tasks ! 0) ''a''" "\<not> matchesRef follower ''a''"
  by (simp_all add: matchesRef_def taskRefKeys_def open_path spelled)
     (simp add: follower_def sample_tasks_def sample_task_def spelled trim_prefix_def has_prefix_def)

text \<open>A dependency can be left dangling. A task may name the task it depends on by any reference that finds
  it, and \<^verbatim>\<open>RemoveTask\<close> looks for two spellings only: here the second task depends on the first by
  its slug, the reference finds the first task, the removal succeeds, and the reference finds nothing.\<close>

theorem dangling_dependency:
  "\<exists>files' d. RemoveTask working_ops True (\<lambda>j. []) sample_view (Some []) ''now'' (sample_tasks ! 0) two_tasks = (None, files')
     \<and> d \<in> set (Deps follower) \<and> DepBlocksStart d
     \<and> FindTask (\<lambda>p. False) (\<lambda>p. 0) ''/r'' two_tasks (dp_Ref d) = Inr (sample_tasks ! 0)
     \<and> ListTasks (\<lambda>p. False) (\<lambda>p. 0) ''/r'' [] [] files' = Some [follower]
     \<and> FindTask (\<lambda>p. False) (\<lambda>p. 0) ''/r'' files' (dp_Ref d) = Inl TaskNotFound"
proof -
  let ?f = "removed_first (Some (Render (tombstone_doc ''now'' (sample_tasks ! 0))))" and ?d = "\<lparr>dp_Ref = ''a'', dp_Type = ''FS''\<rparr> :: dep"
  have b: "DepBlocksStart ?d" by code_simp
  have found: "FindTask (\<lambda>p. False) (\<lambda>p. 0) ''/r'' two_tasks ''a'' = Inr (sample_tasks ! 0)"
    by (simp add: FindTask_def spelled two_listing spelled_a)
  have lost: "FindTask (\<lambda>p. False) (\<lambda>p. 0) ''/r'' ?f ''a'' = Inl TaskNotFound"
    by (simp add: FindTask_def spelled removed_listing spelled_a)
  have "?d \<in> set (Deps follower)" "dp_Ref ?d = ''a''" by (simp_all add: follower_deps)
  with b found lost show ?thesis
    using first_removed [of "\<lambda>j. []" "''now''"] removed_listing [of "Some (Render (tombstone_doc ''now'' (sample_tasks ! 0)))"] by metis
qed

lemma first_filed: "filed_task ''/r'' ''web'' two_tasks (sample_tasks ! 0)"
proof -
  have "base_name ''/r/.dacli/projects/web/tasks/open/001-a.md'' = ''001-a.md''" "has_suffix ''/r/.dacli/projects/web/tasks/open/001-a.md'' ''.md''"
    by code_simp+
  then show ?thesis using first_loads by (simp add: filed_task_def open_path) (simp add: AllStatuses_def)
qed

theorem removal_exact_witness:
  "\<exists>files'. RemoveTask working_ops True (\<lambda>j. []) sample_view (Some []) ''now'' (sample_tasks ! 0) two_tasks = (None, files')
     \<and> gget files' ''/r/.dacli/projects/web/tasks/open/001-a.md'' = None \<and> 1 \<le> TombstoneSeqCeiling ''/r'' files' ''web''"
proof -
  have v: "wv_Root sample_view = ''/r''" "wv_Unreadable sample_view = (\<lambda>d. False)" "wv_Mtime sample_view = (\<lambda>p. 0)"
    by (simp_all add: sample_view_def)
  have l: "ListTasks (wv_Unreadable sample_view) (wv_Mtime sample_view) (wv_Root sample_view) [] [] two_tasks = Some [sample_tasks ! 0, follower]"
    unfolding v by (rule two_listing)
  obtain files1 where "writeTombstone working_ops (wv_Root sample_view) ''now'' (sample_tasks ! 0) two_tasks = (True, files1)"
    using sample_write unfolding writeTombstone_def by blast
  note e = removal_exact [OF first_removed first_filed [folded v(1)] l this, of "\<lambda>j. []" undefined, THEN conjunct2, THEN conjunct1, rule_format, OF refl]
  let ?f = "removed_first (Some (Render (tombstone_doc ''now'' (sample_tasks ! 0))))"
  have "gget ?f ''/r/.dacli/projects/web/tasks/open/001-a.md'' = None" using e [THEN conjunct1] unfolding open_path .
  moreover have "1 \<le> TombstoneSeqCeiling ''/r'' ?f ''web''" using e [THEN conjunct2, THEN conjunct2, THEN conjunct2] unfolding open_path v .
  ultimately show ?thesis by (intro exI [of _ ?f] conjI first_removed)
qed

theorem reopened_is_work_witness:
  "\<exists>t n t' files'. ReopenTask working_ops working_moves ''/r'' ''now'' t ''a1'' ''it broke'' sample_workspace = (Inr n, t', files')
     \<and> Acceptance t = [\<lparr>cb_Text = ''builds'', cb_Done = False\<rparr>, \<lparr>cb_Text = ''tested'', cb_Done = True\<rparr>]
     \<and> Acceptance t' = [\<lparr>cb_Text = ''builds'', cb_Done = False\<rparr>, \<lparr>cb_Text = ''tested'', cb_Done = False\<rparr>]
     \<and> tk_Status t' = ''open'' \<and> 1 \<le> n \<and> Generation t' = 1"
proof -
  let ?t = "criteria_task\<lparr>tk_Status := ''done''\<rparr>"
  obtain n u where r: "reopened_task ''now'' ''a1'' ''it broke'' ?t = (n, u)" by (cases "reopened_task ''now'' ''a1'' ''it broke'' ?t")
  have a: "Acceptance ?t = [\<lparr>cb_Text = ''builds'', cb_Done = False\<rparr>, \<lparr>cb_Text = ''tested'', cb_Done = True\<rparr>]"
    "trim_space ''it broke'' \<noteq> []" "Generation ?t = 0" by code_simp+
  obtain files1 where w: "SaveTask working_ops u sample_workspace = (True, files1)" using sample_write unfolding SaveTask_def by blast
  have "gget files1 (tk_Path u) \<noteq> None" using write_at_ok [OF w [unfolded SaveTask_def]] by simp
  from move_works [OF this] obtain t' files' where m: "MoveTask working_moves ''/r'' u ''open'' files1 = (True, t', files')" by blast
  have "\<not> (tk_Status ?t = ''open'' \<or> tk_Status ?t = ''active'')" by simp
  then have c: "ReopenTask working_ops working_moves ''/r'' ''now'' ?t ''a1'' ''it broke'' sample_workspace = (Inr n, t', files')"
    unfolding ReopenTask_def r w m Let_def prod.case using a(2) by (simp only: if_False if_True simp_thms)
  have g: "Generation ?t + 1 < 2 ^ 63" by (simp only: a(3)) simp
  have "\<And>p. mv_Remove working_moves p" by (simp add: working_moves_def)
  note o = reopened_is_work [OF c this g, of undefined]
  from o have t': "tk_Status t' = ''open''" "Acceptance t' = map (cb_Done_update (\<lambda>_. False)) (Acceptance ?t)"
    "length (filter cb_Done (Acceptance ?t)) \<le> n" "Generation t' = Generation ?t + 1" by blast+
  show ?thesis
  proof (intro exI conjI)
    show "Acceptance t' = [\<lparr>cb_Text = ''builds'', cb_Done = False\<rparr>, \<lparr>cb_Text = ''tested'', cb_Done = False\<rparr>]"
      unfolding t'(2) a(1) by simp
    show "1 \<le> n" using t'(3) unfolding a(1) by simp
    show "Generation t' = 1" unfolding t'(4) a(3) by simp
  qed (fact c a(1) t'(1))+
qed

definition no_opts :: task_opts where
  "no_opts = \<lparr>to_Priority = [], to_Estimate = [], to_Accept = [''it builds''], to_SoThat = [], to_Context = [], to_DependsOn = [],
     to_Parent = [], to_Claims = [], to_StableID = [], to_Delivery = None\<rparr>"

definition before_create :: numbering where
  "before_create = \<lparr>nb_Files = two_tasks, nb_GitLog = None, nb_Stamp = ''s0''\<rparr>"

lemma two_ceiling: "ceiling_of ''/r'' ''web'' before_create = 2"
proof -
  have h: "highest [''001-a.md'', ''002-b.md''] = 2" "highest [] = 0" "has_suffix ''001-a.md'' ''.md''" "has_suffix ''002-b.md'' ''.md''"
    "SafeSegment ''web''" by code_simp+
  have r: "read_files (TombstonesDir ''/r'' ''web'') two_tasks = []"
    by (simp add: read_files_def below_def TombstonesDir_def ProjectDir_def project_segment_def dacli_def two_tasks_def
      has_prefix_def SafeSegment_def has_infix.simps)
  have "onDiskSeqCeiling ''/r'' two_tasks ''web'' = 2"
    by (simp add: onDiskSeqCeiling_def h AllStatuses_def two_folders)
  moreover have "TombstoneSeqCeiling ''/r'' two_tasks ''web'' = 0" by (simp add: TombstoneSeqCeiling_def r h)
  ultimately show ?thesis by (simp add: ceiling_of_def before_create_def gitTaskSeqCeiling_def h)
qed

lemma third_created:
  obtains t files' where "\<forall>v. (\<forall>i < 16. v i = before_create) \<longrightarrow>
      CreateTask working_ops True (\<lambda>e. None) sample_view ''01'' ''now'' ''a1'' ''web'' ''C'' no_opts v two_tasks None
      = (Inr t, files', recordNextTaskSequence True 4 (v 16) None)" "tk_Seq t = 3"
    "files' = gput (TasksDir ''/r'' ''web'' ''open'' @ ''/'' @ pad3 3 @ ''-'' @ Slugify ''C'' @ ''.md'') (Some (Render (tk_Doc t))) two_tasks"
proof -
  have path: "ProjectPath ''/r'' ''web'' = ''/r/.dacli/projects/web/project.md''" by code_simp
  have r: "read_at two_tasks (ProjectPath ''/r'' ''web'') = Inr (sample_task_doc ''p-web'')" using sample_read_at first_read(3) unfolding path by blast
  have "doc_landing (sample_task_doc ''p-web'') = \<lparr>lp_Mode = [], lp_Base = []\<rparr>"
    by (simp add: doc_landing_def get0_def sample_task_doc_def Get_Set)
  with LoadProject_Inr [OF r] resolve_default obtain q where q: "LoadProject ''/r'' two_tasks ''web'' = Inr q" by (auto simp: sample_task_doc_def Get_Set)
  have three: "(3::nat) = Suc 2" by simp
  have w: "wrap64 3 = 3" "wrap64 4 = 4" by code_simp+
  have "scan_loop ''/r'' ''web'' v 1 3 = Some 3" if "\<And>i. i < 16 \<Longrightarrow> v i = before_create" for v
    unfolding three by (subst scan_quiet [of _ _ before_create]) (simp_all add: that two_ceiling w)
  then have n: "nextTaskSequence ''/r'' ''web'' v None = Some 3" if "\<And>i. i < 16 \<Longrightarrow> v i = before_create" for v
    using that by (simp add: nextTaskSequence_def)
  obtain f where f: "task_front (\<lambda>e. None) sample_view two_tasks ''t-01'' ''a1'' ''now'' no_opts = Inr f"
    by (simp add: task_front_def no_opts_def Let_def)
  have i: "task_id sample_view ''01'' no_opts two_tasks = Inr ''t-01''" by (simp add: task_id_def no_opts_def)
  let ?path = "TasksDir ''/r'' ''web'' ''open'' @ ''/'' @ pad3 3 @ ''-'' @ Slugify ''C'' @ ''.md''"
  let ?d = "\<lparr>dc_Front = f, dc_Sections = task_sections ''C'' no_opts\<rparr>"
  let ?t = "\<lparr>tk_ID = ''t-01'', tk_Seq = 3, tk_Slug = Slugify ''C'', tk_Project = ''web'', tk_Status = ''open'', tk_Title = ''C'', tk_Doc = ?d, tk_Path = ?path\<rparr>"
  obtain files' where p: "write_at working_ops ?path ?d two_tasks = (True, files')" using sample_write by blast
  have "wv_Root sample_view = ''/r''" by (simp add: sample_view_def)
  with q n f i p w have "(\<And>i. i < 16 \<Longrightarrow> v i = before_create) \<Longrightarrow>
     CreateTask working_ops True (\<lambda>e. None) sample_view ''01'' ''now'' ''a1'' ''web'' ''C'' no_opts v two_tasks None
     = (Inr ?t, files', recordNextTaskSequence True 4 (v 16) None)" for v
    by (simp add: CreateTask_def Let_def)
  with write_at_ok [OF p] that [of ?t files'] show thesis by simp
qed


theorem stale_number_trusted_witness:
  "\<exists>v t files' st. CreateTask working_ops True (\<lambda>e. None) sample_view ''01'' ''now'' ''a1'' ''web'' ''C'' no_opts v two_tasks None = (Inr t, files', st)
     \<and> nextTaskSequence ''/r'' ''web'' (\<lambda>i. v 16) st = Some 4
     \<and> in_history (nb_GitLog (v 16)) ''004-fetched.md'' \<and> seqFromTaskFilename ''004-fetched.md'' = 4"
proof -
  obtain t files' where c: "\<forall>v. (\<forall>i < 16. v i = before_create) \<longrightarrow>
      CreateTask working_ops True (\<lambda>e. None) sample_view ''01'' ''now'' ''a1'' ''web'' ''C'' no_opts v two_tasks None
      = (Inr t, files', recordNextTaskSequence True 4 (v 16) None)" "tk_Seq t = 3" by (rule third_created)
  let ?fetched = "\<lparr>nb_Files = files', nb_GitLog = Some ''.dacli/projects/web/tasks/open/004-fetched.md'', nb_Stamp = ''s1''\<rparr>"
  let ?v = "\<lambda>i::nat. if i < 16 then before_create else ?fetched"
  have c': "CreateTask working_ops True (\<lambda>e. None) sample_view ''01'' ''now'' ''a1'' ''web'' ''C'' no_opts ?v two_tasks None
      = (Inr t, files', recordNextTaskSequence True 4 (?v 16) None)" by (rule c(1) [rule_format]) simp
  have "0 \<le> tk_Seq t" "tk_Seq t < 2 ^ 62" by (simp_all add: c(2))
  note s = stale_number_trusted [OF c' this, of "\<lambda>i. ?v 16", OF refl, unfolded c(2)]
  have w: "wv_Root sample_view = ''/r''" by (simp add: sample_view_def)
  have "in_history (Some ''.dacli/projects/web/tasks/open/004-fetched.md'') ''004-fetched.md''" "seqFromTaskFilename ''004-fetched.md'' = 4"
    unfolding in_history_def by (auto simp: image_iff) (code_simp+)
  with s c' show ?thesis unfolding w by (intro exI [of _ ?v] exI conjI) simp_all
qed

end
