(* ===== verification/Spec2Isabelle.thy ===== *)
theory Spec2Isabelle
  imports Kernel_Steps Disclosure_Policy Event_Journal Critical_Path Project_Store Task_Numbers
begin

text \<open>
  A model of the governance kernel of dacli and of the files it works with, and the theorems that
  make them correct.

  The program. dacli coordinates agents that work on one repository. Its governance kernel
  (\<^verbatim>\<open>src/internal/governance/sessions\<close>) keeps one JSON aggregate on disk, read and written by whole-file
  transactions under a lock. The owner enrols sessions; a session delegates narrower ones; a session
  registers an attempt at a task, leases a checkout and paths of it, publishes clean revisions and
  collects evidence from trusted runners; other sessions review; a permission to publish outside is
  decided once and consumed once. A controller may reserve resources for a worker that a host agent
  will run; the host's reports, the cancellation of such a worker and the owner's recovery of what it
  holds are recorded in the same aggregate. Three small packages are called by it: the observer of
  Git checkouts (\<^verbatim>\<open>internal/governance/checkout\<close>), the pure publication and acceptance
  evaluators (\<^verbatim>\<open>internal/governance/policy\<close>) and the disclosure policy (\<^verbatim>\<open>internal/publication\<close>).

  Beside the kernel stands the workspace: tasks, notes and events are Markdown files with frontmatter.
  \<^verbatim>\<open>internal/mdstore\<close> reads and writes them, losslessly and by an atomic rename; \<^verbatim>\<open>internal/ulid\<close> makes
  the identifiers whose order is the order of time; \<^verbatim>\<open>internal/eventlog\<close> with \<^verbatim>\<open>internal/eventdisp\<close> is
  the append-only log: an event is a document with a checksum, a dismissal is a later event that names
  it, and a listing is one pass over the files, newest first. Reconciling the log dismisses mail that
  has no live target and moves completed records to an archive, from a plan that was reviewed before.
  \<^verbatim>\<open>internal/spm\<close> schedules the tasks of a project by the critical path method. \<^verbatim>\<open>internal/store\<close> keeps
  projects and tasks as documents in folders, one folder per status, lists and resolves them,
  decides from their dependencies what may be worked on next, gives each new task a number of its own,
  and closes, reopens and removes tasks through gates that look at acceptance, children and trunk.

  The theories, in import order.
    \<^item> Prelude: results as \<^verbatim>\<open>error + 'a\<close> with \<open>require\<close> and \<open>bindr\<close>, Go maps as association lists
      (\<open>gget\<close>, \<open>gput\<close>), the byte-level functions of \<^verbatim>\<open>strings\<close> and \<^verbatim>\<open>path/filepath\<close> that the code
      calls, and the locale \<open>replayable\<close>: what a handler with operation keys promises.
    \<^item> Checkout: \<^verbatim>\<open>checkout.go\<close>. Disclosure_Policy: \<^verbatim>\<open>policy.go\<close>, \<^verbatim>\<open>publication.go\<close> and
      \<^verbatim>\<open>native_acceptance.go\<close> of \<^verbatim>\<open>internal/governance/policy\<close>.
    \<^item> Kernel_State: the structs of the aggregate as records, the environment of an operation (clock,
      random source, hash, JSON encoder, file system, Git, and the observers that the caller injects)
      as a record of functions, and the shape checks (\<^verbatim>\<open>validID\<close>, \<^verbatim>\<open>validDigest\<close>).
    \<^item> Authority_Store: schema validation and decoding, \<^verbatim>\<open>transaction\<close>, \<^verbatim>\<open>persist\<close>, \<^verbatim>\<open>Bootstrap\<close>, the
      upgrades up to schema 12.
    \<^item> Session_Authority: \<^verbatim>\<open>authenticate\<close>, \<^verbatim>\<open>Enroll\<close>, \<^verbatim>\<open>Delegate\<close>, \<^verbatim>\<open>Authorize\<close>, \<^verbatim>\<open>Revoke\<close>, the walks over
      a lineage. Its locale \<open>lineage_check\<close> states what every such walk promises; it is interpreted on
      each walk of the code.
    \<^item> Task_Authority (\<^verbatim>\<open>attempts.go\<close>, withdrawal), Leases (\<^verbatim>\<open>leases.go\<close>), Evidence_Kernel
      (\<^verbatim>\<open>evidence.go\<close>), Review_Kernel (\<^verbatim>\<open>native_review.go\<close>), Publication_Kernel (\<^verbatim>\<open>publication.go\<close>),
      Dispatch_Kernel (policies and intents), Lifecycle_Kernel (\<^verbatim>\<open>lifecycle.go\<close>), Recovery_Kernel
      (\<^verbatim>\<open>recovery.go\<close>): one handler per exported method, with the guards of the source in its order.
    \<^item> Kernel_Steps: the aggregate as a transition system whose steps are the handlers.
    \<^item> Markdown_Values, Markdown_Documents, Markdown_Files: \<^verbatim>\<open>mdstore.go\<close>, from the quoting of a value
      over \<^verbatim>\<open>Parse\<close> and \<^verbatim>\<open>Render\<close> to sections, checkboxes and \<^verbatim>\<open>writeBytes\<close>. The locale \<open>field_store\<close> is
      the contract of \<^verbatim>\<open>Get\<close> and \<^verbatim>\<open>Set\<close>; the log is written and read through its facts.
    \<^item> Ulid: \<^verbatim>\<open>ulid.go\<close>. Event_Log: \<^verbatim>\<open>eventlog.go\<close> and \<^verbatim>\<open>eventdisp.go\<close>. Event_Journal: \<^verbatim>\<open>Find\<close>, \<^verbatim>\<open>Dismiss\<close> and
      \<^verbatim>\<open>journal.go\<close> on the log as a map from paths to bytes.
    \<^item> Critical_Path: \<^verbatim>\<open>criticalpath.go\<close>, from Kahn's algorithm over both passes to the schedule and the hint.
      A \<^verbatim>\<open>float64\<close> is a rational and every arithmetic result passes through a rounding function that is a
      parameter; infinities and NaN are left out.
    \<^item> Project_Store: slugs, paths, landing policies and projects; Task_Index: task files, the listing, references
      and their index; Task_Readiness: dependencies, the ready frontier and dependency edits (\<^verbatim>\<open>store.go\<close>,
      \<^verbatim>\<open>readiness.go\<close>, \<^verbatim>\<open>dependency.go\<close> of \<^verbatim>\<open>internal/store\<close>, \<^verbatim>\<open>landing.go\<close> of \<^verbatim>\<open>internal/model\<close>). The
      workspace is the map from paths to bytes that the log uses, too.
    \<^item> Task_Closing: acceptance criteria, the log of a task, landing (\<^verbatim>\<open>landing.go\<close>), the gates of aggregates and
      delivery slices (\<^verbatim>\<open>aggregate.go\<close>, \<^verbatim>\<open>delivery_slices.go\<close>), \<^verbatim>\<open>MoveTask\<close>, \<^verbatim>\<open>CloseTask\<close>, \<^verbatim>\<open>WithTask\<close>. Task_Numbers:
      \<^verbatim>\<open>task_sequence.go\<close>, \<^verbatim>\<open>CreateTask\<close>, and \<^verbatim>\<open>ReopenTask\<close> and \<^verbatim>\<open>RemoveTask\<close> of \<^verbatim>\<open>remove.go\<close>, with the numbers of a project
      as a step relation.
    \<^item> This theory: what holds along every run.

  Correspondence. A handler \<^verbatim>\<open>func (a Authority) F(token, request)\<close> is a function
  \<open>F E token request s\<close> that returns either the error or the receipt and the new aggregate. \<open>E\<close> is the
  environment: \<open>e_now i\<close> is the \<open>i\<close>-th reading of the clock in the operation, so no theorem depends on
  the clock standing still or moving forwards. The aggregate is changed only when the handler
  succeeds, because \<open>transaction\<close> persists only then; \<open>transaction_atomic\<close> proves that of the
  store. Counters are 64-bit words, times are integers (nanoseconds), strings are lists of bytes.

  What the lemmas show. Per component: the shape of every successful call (lemmas \<open>F_Inr\<close>), that the
  component's invariant is kept (\<open>session_inv\<close>, \<open>exclusive\<close>, \<open>fenced\<close>, \<open>revisions_inv\<close>,
  \<open>publication_inv\<close>, \<open>logs_inv\<close>), that operation keys are idempotent (interpretations of \<open>replayable\<close> and \<open>idempotent\<close>),
  and the component's safety properties. Evidence is shown to refine a three-state automaton. In
  Kernel_Steps the invariants are combined and proved of all reachable states, with what no step
  undoes: sessions keep their parents and revocations, withdrawals stay, fences grow.

  Bounds. No fuel is used: the walks over session records terminate because they stop at a session
  seen before, proved with the measure of unseen identifiers, and Kahn's loop removes an edge or a
  task from its heap in each turn, so the scheduler is total. Fences and sequences are words, and the
  handlers refuse the last value before incrementing, which is what the proofs of strict growth use.
  Numbers of tasks and generations are integers that wrap at 64 bits; their theorems assume that the
  highest number is below \<open>2 ^ 62\<close>.

  Not modelled. The bytes of JSON and of the authority file (an operation sees the decoded document;
  encoding may fail or exceed the size bound); the processes, signals and locks of the operating
  system; planning of swarms and the admission of reservations, budgets, the bounded controller and
  the later schemas (13 and above); the hash function and the JSON encoder are parameters, and no
  theorem assumes that they are injective. Outside the kernel: the parts of the store above tasks and
  projects (decomposition plans, creation of delivery slices, notes, reviews, registries, the lock files),
  the command line, agent hosts, Git and GitHub clients and the cloud services.
\<close>

section \<open>Properties that span the components\<close>


definition sample_owned :: state where
  "sample_owned = (empty_state (a_binding sample_authority) 12)\<lparr>OwnerHash := sample_id 0\<rparr>"


text \<open>The invariant holds in states that differ from an empty one in maps without constraints; the
  samples below are such states.\<close>

lemma kernel_inv_frame:
  assumes "session_inv (Sessions s)" "Leases s = []" "Dispatches s = []" "Recoveries s = []" "Revisions s = []"
    "PublicationPolicies s = []" "PublicationDecisions s = []" "LifecycleObservations s = []"
  shows "kernel_inv s"
  using assms by (auto simp: kernel_inv_def exclusive_def claims_def fenced_def filed_def revisions_inv_def
      publication_inv_def policies_inv_def logs_inv_def well_logged_def gslice_def gget_def split: sum.splits)

lemma sample_state_inv: "kernel_inv sample_state"
  by (rule kernel_inv_frame [OF sample_sessions]) (simp_all add: sample_state_def empty_state_def)

text \<open>C3: Revocation is for ever. Once a session is revoked, neither it nor any session below it passes
  any of the lineage checks again, with any token, in any state that any sequence of handler calls
  leads to.\<close>

theorem revocation_irrevocable:
  assumes "ksteps s t" "kernel_inv s" "gget (Sessions s) i = Some r" "se_Revoked r" "descends (Sessions s) j i" "j \<noteq> ''''"
  shows "authenticate E t token j now \<noteq> Inr x \<and> rootSession t j now \<noteq> Inr y \<and> \<not> swarmLineageCurrent t j now
     \<and> leaseAuth E t token j attemptID action now \<noteq> Inr z"
proof -
  from ksteps_sound [OF assms(1,2)] have g: "session_grows (Sessions s) (Sessions t)" and k: "keyed (Sessions t)"
    by (simp_all add: grows_def kernel_inv_def session_inv_def)
  obtain r' where r': "gget (Sessions t) i = Some r'" "\<not> usable now r'"
    using g assms(3,4) unfolding session_grows_def usable_def by blast
  have d: "descends (Sessions t) j i" by (rule descends_grows [OF assms(5) g])
  note no = auth_check.unusable_ancestor_denies [OF k assms(6) d r'] swarm_check.unusable_ancestor_denies [OF k assms(6) d r']
  have "authenticate E t token j now \<noteq> Inr x" for x
    using no(1) by (simp add: authenticate_Inr)
  then show ?thesis
    using no by (cases y; cases z) (auto simp: leaseAuth_Inr rootSession_Inr walk_ok_iff swarmLineageCurrent_def)
qed

theorem revocation_irrevocable_witness:
  "\<exists>t. ksteps sample_state t \<and> gget (Sessions t) ''c'' = Some sample_child
     \<and> (\<forall>x. authenticate sample_env t (sample_id 2) ''c'' 10 \<noteq> Inr x)"
proof -
  let ?s = "sample_state\<lparr>Sessions := gput ''r'' (sample_root\<lparr>se_Revoked := True\<rparr>) (Sessions sample_state)\<rparr>"
  have "Revoke sample_env (sample_id 0) ''r'' sample_state = Inr ((), ?s)"
    by (simp add: Revoke_def owner_ok_def) (simp add: sample_state_def)
  then have steps: "ksteps sample_state ?s" by (rule ksteps.go [OF ksteps.stay kstep.revoke])
  have inv: "kernel_inv ?s" using ksteps_sound [OF steps sample_state_inv] by blast
  have c: "gget (Sessions ?s) ''c'' = Some sample_child" by (simp add: sample_state_def) (simp add: gget_def)
  then have "descends (Sessions ?s) ''c'' ''r''"
    by (rule descends_parent) (simp_all add: sample_child_def descends_refl)
  with revocation_irrevocable [OF ksteps.stay inv, of "''r''"] have "authenticate sample_env ?s (sample_id 2) ''c'' 10 \<noteq> Inr x" for x
    by simp
  with steps c show ?thesis by (intro exI [of _ ?s]) simp
qed

text \<open>C2: Withdrawal is for ever, and total. Once a worker is withdrawn from a task (by a cancellation, a
  recovery or the task's retirement), then in every later state no session below it, with whatever
  token, can acquire, renew or release a lease, publish a revision, submit evidence or begin a
  verification for an attempt at that task, and none of their leases on the task is current.\<close>

theorem withdrawal_irrevocable:
  assumes "ksteps s t" "kernel_inv s" "workerTaskWithdrawn s i task" "descends (Sessions s) j i" "j \<noteq> ''''"
    "attemptFor t attemptID j = Inr a" "ar_TaskID (at_Request a) = task"
  shows "(al_AttemptID lreq = attemptID \<longrightarrow> AcquireLease E token j lreq t \<noteq> Inr x1)
     \<and> (nl_AttemptID nreq = attemptID \<longrightarrow> RenewLease E token j nreq t \<noteq> Inr x2)
     \<and> (fl_AttemptID freq = attemptID \<longrightarrow> ReleaseLease E token j freq t \<noteq> Inr x3)
     \<and> (pq_AttemptID preq = attemptID \<longrightarrow> PublishAttemptRevision E token j preq t \<noteq> Inr x4)
     \<and> (eq_AttemptID ereq = attemptID \<longrightarrow> SubmitEvidence E token j ereq t \<noteq> Inr x5)
     \<and> (vr_AttemptID vreq = attemptID \<longrightarrow> vr_WorkerSession vreq = j \<longrightarrow>
          BeginVerification E token rt runner vreq descriptor t \<noteq> Inr x6)
     \<and> (l_SessionID l = j \<longrightarrow> l_TaskID l = task \<longrightarrow> \<not> currentLease t l now)"
proof -
  have g: "grows s t" using ksteps_sound [OF assms(1,2)] by blast
  have "workerTaskWithdrawn s j task"
    using assms(3-5) descends_trans unfolding workerTaskWithdrawn_def workerTaskWithdrawnExcept_iff by blast
  then have w: "workerTaskWithdrawn t j task" by (rule withdrawn_grows [OF g])
  then have "leaseAuth E t token j attemptID action now \<noteq> Inr y" for action now y
    using assms(6,7) by (cases y) (auto simp: leaseAuth_Inr)
  then have bound: "bindr (leaseAuth E t token j attemptID action now) f \<noteq> Inr z" for action now f z
    by (simp only: bindr_Inr) blast
  have "\<not> currentLease t l now" if "l_SessionID l = j" "l_TaskID l = task"
    using w that by (simp add: currentLease_def currentLeaseExcept_def workerTaskWithdrawn_def)
  then show ?thesis
    by (intro conjI impI) (simp_all only: AcquireLease_def RenewLease_def ReleaseLease_def changeLease_def
        PublishAttemptRevision_def SubmitEvidence_def BeginVerification_def Let_def bound not_False_eq_True)
qed

definition sample_withdrawn :: state where
  "sample_withdrawn = sample_state\<lparr>Attempts := [(''q'', sample_attempt)],
     LifecycleCancellations := [(''d'', \<lparr>lc_Sequence = 1, lc_Binding = lifecycleBinding sample_correlated,
       lc_OperationKey = ''k'', lc_PolicyRevision = '''', lc_Channel = '''', lc_State = ''requested'', lc_EvidenceDigest = '''',
       lc_RequestedBy = ''m'', lc_RequestedAt = 1, lc_AcknowledgedAt = 0\<rparr>)]\<rparr>"

theorem withdrawal_irrevocable_witness:
  "\<exists>t. ksteps sample_withdrawn t \<and> authenticate sample_env t (sample_id 1) ''r'' 10 = Inr sample_root
     \<and> (\<forall>x. AcquireLease sample_env (sample_id 1) ''r'' sample_acquire t \<noteq> Inr x)"
proof -
  let ?b = "\<lparr>tb_TaskID = ''t'', tb_ProjectID = ''p'', tb_Repository = ''/w/.git'', tb_AdmissionEnabled = True\<rparr>"
  let ?t = "sample_withdrawn\<lparr>Tasks := gput ''t'' ?b (Tasks sample_withdrawn)\<rparr>"
  have same: "Sessions sample_withdrawn = Sessions sample_state" by (simp add: sample_withdrawn_def)
  have inv: "kernel_inv sample_withdrawn"
    by (rule kernel_inv_frame) (simp_all add: sample_sessions sample_withdrawn_def, simp_all add: sample_state_def empty_state_def)
  have "BindTask sample_env (sample_id 0) ?b sample_withdrawn = Inr ((), ?t)"
    by (simp add: BindTask_def owner_ok_def is_abs_def has_prefix_def) (simp add: sample_withdrawn_def sample_state_def empty_state_def gget_def)
  then have steps: "ksteps sample_withdrawn ?t" by (rule ksteps.go [OF ksteps.stay kstep.bind_task])
  have "workerTaskWithdrawn sample_withdrawn ''r'' ''t''"
    unfolding workerTaskWithdrawn_def workerTaskWithdrawnExcept_iff
    by (simp add: sample_withdrawn_def gvals_def lifecycleBinding_def sample_correlated_def sample_intent_def
        sample_reservation_def descends_refl Let_def)
  moreover have "attemptFor ?t ''a'' ''r'' = Inr sample_attempt"
    by (simp add: attemptFor_def sample_withdrawn_def gvals_def) (simp add: sample_attempt_def)
  ultimately have "AcquireLease sample_env (sample_id 1) ''r'' sample_acquire ?t \<noteq> Inr x" for x
    using withdrawal_irrevocable [OF steps inv, of "''r''" "''t''" "''r''" "''a''" sample_attempt]
    by (simp add: descends_refl sample_attempt_def sample_acquire_def)
  moreover have "authenticate sample_env ?t (sample_id 1) ''r'' 10 = Inr sample_root"
    by (simp add: authenticate_Inr walk_ok_iff lineage_walk.simps same sample_state_def gget_def sample_root_def)
  ultimately show ?thesis using steps by blast
qed

text \<open>C4: Fences order grants, across the whole run. A lease that exists later either carries a larger
  fence than any lease granted before, or it is an old lease with its fence, checkout, repository
  and resources unchanged, and released if it was released before; the counter never goes back.\<close>

theorem fences_order_grants:
  assumes "ksteps s t" "kernel_inv s" "gget (Leases t) i = Some l"
  shows "Fence s \<le> Fence t
     \<and> ((\<forall>k m. gget (Leases s) k = Some m \<longrightarrow> l_Fence m < l_Fence l)
        \<or> (\<exists>old. gget (Leases s) i = Some old \<and> l_Fence old = l_Fence l \<and> footprint old = footprint l
             \<and> (l_Released old \<longrightarrow> l_Released l)))"
proof -
  have g: "lease_grows s t" using ksteps_sound [OF assms(1,2)] by (simp add: grows_def)
  have "fenced s" using assms(2) by (simp add: kernel_inv_def)
  then have "l_Fence m \<le> Fence s" if "gget (Leases s) k = Some m" for k m
    using that unfolding fenced_def by blast
  moreover have "Fence s \<le> Fence t" using g by (simp add: lease_grows_def)
  moreover have "Fence s < l_Fence l \<or> (\<exists>old. gget (Leases s) i = Some old \<and> l_Fence old = l_Fence l
      \<and> footprint old = footprint l \<and> (l_Released old \<longrightarrow> l_Released l))"
    using g assms(3) unfolding lease_grows_def by blast
  ultimately show ?thesis by (meson le_less_trans)
qed

theorem fences_order_grants_witness:
  "\<exists>t. ksteps sample_lease_state t \<and> gget (Leases t) (sample_id 0) = Some sample_acquired
     \<and> l_Fence (sample_lease ''/x'' ''docs'') < l_Fence sample_acquired"
proof -
  obtain t where t: "AcquireLease sample_env (sample_id 1) ''r'' sample_acquire sample_lease_state = Inr (sample_acquired, t)"
    "gget (Leases t) (sample_id 0) = Some sample_acquired" by (rule sample_AcquireLease)
  have "session_inv (Sessions sample_lease_state)"
    by (auto simp: session_inv_def gwf_def keyed_def attenuated_def parents_exist_def gget_def sample_root_def)
  moreover have "exclusive sample_lease_state" "fenced sample_lease_state"
    by (auto simp: exclusive_def claims_def fenced_def gget_def sample_lease_def split: sum.splits if_splits)
  ultimately have inv: "kernel_inv sample_lease_state"
    using sample_state_inv by (simp add: kernel_inv_def filed_def revisions_inv_def publication_inv_def policies_inv_def
        logs_inv_def decision_sound_def sample_lease_state_def)
  have fresh: "sample_id 0 \<noteq> ''/x''" using sample_id_simps(1) [of 0] by fastforce
  from t(1) have steps: "ksteps sample_lease_state t" by (rule ksteps.go [OF ksteps.stay kstep.acquire])
  from fences_order_grants [OF steps inv t(2)]
  have "l_Fence (sample_lease ''/x'' ''docs'') < l_Fence sample_acquired"
    using fresh by (auto simp: gget_def split: if_splits)
  with steps t(2) show ?thesis by blast
qed

end
